(* ===== verification/Prelude.thy ===== *)
theory Prelude
  imports Main "HOL-Library.Char_ord" "HOL-Library.List_Lexorder" "HOL-Library.Sublist"
begin

text \<open>
  Shared vocabulary of the development. A Rust \<^verbatim>\<open>u8\<close> is a HOL \<^typ>\<open>char\<close> (both have
  256 values), so a \<^verbatim>\<open>&[u8]\<close>, a \<^verbatim>\<open>Vec<u8>\<close> and the UTF-8 bytes of a \<^verbatim>\<open>&str\<close> are all
  \<^typ>\<open>string\<close>, and byte literals of the source are HOL string literals. A
  \<^verbatim>\<open>Result<T, E>\<close> is the sum \<open>'e + 'a\<close> with the error on the left.
  The theory holds the ASCII classes, the slice and \<^verbatim>\<open>str\<close> functions of the standard
  library that the sources use (\<^verbatim>\<open>split\<close>, \<^verbatim>\<open>split_once\<close>, \<^verbatim>\<open>position\<close>, \<^verbatim>\<open>trim_matches\<close>,
  number formatting and parsing) and the generic lemmas about them.
\<close>

type_synonym byte = char
type_synonym bytes = "char list"
type_synonym range = "nat \<times> nat"

named_theorems split_simps "equations of the splitting functions"
named_theorems ascii_facts "facts about the ASCII classes of bytes"

abbreviation Ok :: "'a \<Rightarrow> 'e + 'a" where "Ok \<equiv> Inr"
abbreviation Err :: "'e \<Rightarrow> 'e + 'a" where "Err \<equiv> Inl"

abbreviation bval :: "byte \<Rightarrow> nat" where "bval b \<equiv> of_char b"

abbreviation cr :: byte where "cr \<equiv> CHR 0x0D"
abbreviation lf :: byte where "lf \<equiv> CHR 0x0A"
abbreviation htab :: byte where "htab \<equiv> CHR 0x09"
abbreviation dquote :: byte where "dquote \<equiv> CHR 0x22"
abbreviation backslash :: byte where "backslash \<equiv> CHR 0x5C"
abbreviation crlf :: bytes where "crlf \<equiv> [cr, lf]"

abbreviation U64_MAX :: nat where "U64_MAX \<equiv> 18446744073709551615"

lemma list_all2_set1: "list_all2 P xs ys \<Longrightarrow> x \<in> set xs \<Longrightarrow> \<exists>y\<in>set ys. P x y"
  by (induction rule: list_all2_induct) auto

lemma list_all2_set2: "list_all2 P xs ys \<Longrightarrow> y \<in> set ys \<Longrightarrow> \<exists>x\<in>set xs. P x y"
  by (induction rule: list_all2_induct) auto

lemma list_tail_cases:
  obtains "xs = []" | x where "xs = [x]" | x y zs where "xs = x # y # zs"
  by (cases xs; cases "tl xs") auto

section \<open>Results\<close>

definition res_bind :: "'e + 'a \<Rightarrow> ('a \<Rightarrow> 'e + 'b) \<Rightarrow> 'e + 'b" where
  "res_bind r f = (case r of Err e \<Rightarrow> Err e | Ok x \<Rightarrow> f x)"

definition map_err :: "('e \<Rightarrow> 'f) \<Rightarrow> 'e + 'a \<Rightarrow> 'f + 'a" where
  "map_err f r = (case r of Err e \<Rightarrow> Err (f e) | Ok x \<Rightarrow> Ok x)"

definition ok_or :: "'e \<Rightarrow> 'a option \<Rightarrow> 'e + 'a" where
  "ok_or e v = (case v of None \<Rightarrow> Err e | Some x \<Rightarrow> Ok x)"

definition is_ok :: "'e + 'a \<Rightarrow> bool" where
  "is_ok r = (case r of Err _ \<Rightarrow> False | Ok _ \<Rightarrow> True)"

lemma res_bind_simps [simp]:
  "res_bind (Err e) f = Err e"
  "res_bind (Ok x) f = f x"
  by (simp_all add: res_bind_def)

lemma map_err_simps [simp]:
  "map_err g (Err e) = Err (g e)"
  "map_err g (Ok x) = Ok x"
  by (simp_all add: map_err_def)

lemma ok_or_simps [simp]:
  "ok_or e None = Err e"
  "ok_or e (Some x) = Ok x"
  by (simp_all add: ok_or_def)

lemma is_ok_simps [simp]: "is_ok (Ok x)" "\<not> is_ok (Err e)"
  by (simp_all add: is_ok_def)

lemma res_bind_OkE:
  assumes "res_bind r f = Ok y"
  obtains x where "r = Ok x" and "f x = Ok y"
  using assms by (cases r) auto

lemma res_bind_eq_Ok: "res_bind r f = Ok y \<longleftrightarrow> (\<exists>x. r = Ok x \<and> f x = Ok y)"
  by (cases r) auto

lemma res_bind_assoc: "res_bind (res_bind r f) g = res_bind r (\<lambda>x. res_bind (f x) g)"
  by (cases r) auto

lemma map_err_eq_Ok [simp]: "map_err g r = Ok y \<longleftrightarrow> r = Ok y"
  by (cases r) auto

lemma ok_or_eq_Ok [simp]: "ok_or e v = Ok y \<longleftrightarrow> v = Some y"
  by (cases v) auto

lemma ok_or_eq_Err [simp]: "ok_or e v = Err e' \<longleftrightarrow> v = None \<and> e' = e"
  by (cases v) auto

text \<open>\<^verbatim>\<open>iter.map(f).collect::<Result<Vec<_>, _>>()\<close>: stops at the first error.\<close>

fun map_result :: "('a \<Rightarrow> 'e + 'b) \<Rightarrow> 'a list \<Rightarrow> 'e + 'b list" where
  "map_result f [] = Ok []"
| "map_result f (x # xs) =
     (case f x of Err e \<Rightarrow> Err e
      | Ok y \<Rightarrow> (case map_result f xs of Err e \<Rightarrow> Err e | Ok ys \<Rightarrow> Ok (y # ys)))"

lemma map_result_Ok_D: "map_result f xs = Ok ys \<Longrightarrow> list_all2 (\<lambda>x y. f x = Ok y) xs ys"
  by (induction xs arbitrary: ys) (auto split: sum.splits)

lemma map_result_Ok_I: "list_all2 (\<lambda>x y. f x = Ok y) xs ys \<Longrightarrow> map_result f xs = Ok ys"
  by (induction rule: list_all2_induct) auto

lemma map_result_Ok_iff:
  "map_result f xs = Ok ys \<longleftrightarrow> list_all2 (\<lambda>x y. f x = Ok y) xs ys"
  by (blast intro: map_result_Ok_I dest: map_result_Ok_D)

lemma map_result_append:
  "map_result f (xs @ ys) =
     res_bind (map_result f xs) (\<lambda>us. res_bind (map_result f ys) (\<lambda>vs. Ok (us @ vs)))"
  by (induction xs) (auto simp: res_bind_def split: sum.splits)

lemma map_result_Err_D:
  "map_result f xs = Err e \<Longrightarrow> \<exists>x\<in>set xs. f x = Err e"
  by (induction xs) (auto split: sum.splits)

lemma map_result_is_Ok:
  "(\<And>x. x \<in> set xs \<Longrightarrow> f x = Ok (g x)) \<Longrightarrow> map_result f xs = Ok (map g xs)"
  by (induction xs) auto

section \<open>Slices and ranges\<close>

definition slice :: "'a list \<Rightarrow> range \<Rightarrow> 'a list" where
  "slice xs r = take (snd r - fst r) (drop (fst r) xs)"

lemma slice_append_mid: "slice (xs @ ys @ zs) (length xs, length xs + length ys) = ys"
  by (simp add: slice_def)

lemma slice_all [simp]: "slice xs (0, length xs) = xs"
  by (simp add: slice_def)

lemma slice_length:
  "fst r \<le> snd r \<Longrightarrow> snd r \<le> length xs \<Longrightarrow> length (slice xs r) = snd r - fst r"
  by (simp add: slice_def)

lemma set_slice: "set (slice xs r) \<subseteq> set xs"
  using set_take_subset set_drop_subset by (fastforce simp: slice_def)

lemma slice_slice:
  assumes "a \<le> b" "b \<le> length (slice xs (s, e))"
  shows "slice (slice xs (s, e)) (a, b) = slice xs (s + a, s + b)"
proof -
  have "min (b - a) (e - s - a) = b - a"
    using assms by (simp add: slice_def) arith
  then show ?thesis
    by (simp add: slice_def drop_take take_take add.commute)
qed

fun position :: "('a \<Rightarrow> bool) \<Rightarrow> 'a list \<Rightarrow> nat option" where
  "position p [] = None"
| "position p (x # xs) = (if p x then Some 0 else map_option Suc (position p xs))"

lemma position_Some_iff:
  "position p xs = Some i \<longleftrightarrow> i < length xs \<and> p (xs ! i) \<and> (\<forall>j<i. \<not> p (xs ! j))"
proof (induction xs arbitrary: i)
  case (Cons x xs)
  then show ?case
    by (cases i) (auto simp: less_Suc_eq_0_disj)
qed simp

lemma position_None_iff: "position p xs = None \<longleftrightarrow> (\<forall>x\<in>set xs. \<not> p x)"
  by (induction xs) auto

lemma position_append_mid:
  "(\<forall>x\<in>set xs. \<not> p x) \<Longrightarrow> p y \<Longrightarrow> position p (xs @ y # ys) = Some (length xs)"
  by (induction xs) auto

lemma position_split:
  assumes "position p xs = Some i"
  shows "xs = take i xs @ xs ! i # drop (Suc i) xs" and "\<forall>x\<in>set (take i xs). \<not> p x"
  using assms by (auto simp: position_Some_iff id_take_nth_drop in_set_conv_nth)

text \<open>\<^verbatim>\<open>rposition\<close>: the index of the last element that satisfies the predicate.\<close>

definition rposition :: "('a \<Rightarrow> bool) \<Rightarrow> 'a list \<Rightarrow> nat option" where
  "rposition p xs = map_option (\<lambda>i. length xs - Suc i) (position p (rev xs))"

section \<open>Splitting\<close>

text \<open>\<^verbatim>\<open>split(c)\<close>: always at least one piece, separators are not merged.\<close>

fun split_on :: "'a \<Rightarrow> 'a list \<Rightarrow> 'a list list" where
  "split_on d [] = [[]]"
| "split_on d (x # xs) =
     (if x = d then [] # split_on d xs
      else (case split_on d xs of [] \<Rightarrow> [[x]] | s # ss \<Rightarrow> (x # s) # ss))"

fun join :: "'a list \<Rightarrow> 'a list list \<Rightarrow> 'a list" where
  "join d [] = []"
| "join d [x] = x"
| "join d (x # y # ys) = x @ d @ join d (y # ys)"

lemma split_on_ne [simp]: "split_on d xs \<noteq> []"
  by (cases xs) (auto split: list.split)

lemma join_Cons: "join d (x # xs) = (if xs = [] then x else x @ d @ join d xs)"
  by (cases xs) auto

lemma join_split_on [simp]: "join [d] (split_on d xs) = xs"
proof (induction xs)
  case (Cons x xs)
  then show ?case
    by (cases "split_on d xs") (auto simp: join_Cons split: if_splits)
qed simp

lemma split_on_pieces: "s \<in> set (split_on d xs) \<Longrightarrow> d \<notin> set s"
proof (induction xs arbitrary: s)
  case (Cons x xs)
  then show ?case
    by (cases "split_on d xs") (auto split: if_splits)
qed simp

lemma split_on_subset: "s \<in> set (split_on d xs) \<Longrightarrow> set s \<subseteq> set xs"
proof (induction xs arbitrary: s)
  case (Cons x xs)
  then show ?case
    by (cases "split_on d xs") (fastforce split: if_splits)+
qed simp

lemma split_on_no_delim [simp]: "d \<notin> set xs \<Longrightarrow> split_on d xs = [xs]"
  by (induction xs) auto

lemma split_on_append_delim:
  "d \<notin> set xs \<Longrightarrow> split_on d (xs @ d # ys) = xs # split_on d ys"
  by (induction xs) auto

lemma split_on_append_delim_gen:
  "split_on d (xs @ d # ys) = split_on d xs @ split_on d ys"
proof (induction xs)
  case (Cons x xs)
  then show ?case
    by (cases "split_on d xs") auto
qed simp

lemma split_on_join:
  "xs \<noteq> [] \<Longrightarrow> (\<And>x. x \<in> set xs \<Longrightarrow> d \<notin> set x) \<Longrightarrow> split_on d (join [d] xs) = xs"
  by (induction "[d]" xs rule: join.induct) (auto simp: split_on_append_delim)

lemma length_split_on: "length (split_on d xs) = Suc (count_list xs d)"
proof (induction xs)
  case (Cons x xs)
  then show ?case
    by (cases "split_on d xs") auto
qed simp

lemma length_join:
  "length (join d xs) = sum_list (map length xs) + (length xs - 1) * length d"
  by (induction d xs rule: join.induct) auto

lemma set_join: "set (join d xs) \<subseteq> set d \<union> (\<Union>x\<in>set xs. set x)"
  by (induction d xs rule: join.induct) auto

text \<open>\<^verbatim>\<open>split_once(c)\<close>.\<close>

fun split_once :: "'a \<Rightarrow> 'a list \<Rightarrow> ('a list \<times> 'a list) option" where
  "split_once d [] = None"
| "split_once d (x # xs) =
     (if x = d then Some ([], xs)
      else map_option (\<lambda>(a, b). (x # a, b)) (split_once d xs))"

lemma split_once_Some_iff:
  "split_once d xs = Some (a, b) \<longleftrightarrow> xs = a @ d # b \<and> d \<notin> set a"
proof (induction xs arbitrary: a)
  case (Cons x xs)
  then show ?case
    by (cases a) auto
qed simp

lemma split_once_None_iff: "split_once d xs = None \<longleftrightarrow> d \<notin> set xs"
  by (induction xs) auto

lemma split_once_append: "d \<notin> set a \<Longrightarrow> split_once d (a @ d # b) = Some (a, b)"
  by (simp add: split_once_Some_iff)

lemma split_on_split_once:
  "split_on d xs = (case split_once d xs of None \<Rightarrow> [xs] | Some (a, b) \<Rightarrow> a # split_on d b)"
proof (cases "split_once d xs")
  case None
  moreover from this have "d \<notin> set xs" by (simp add: split_once_None_iff)
  ultimately show ?thesis by simp
next
  case (Some ab)
  then obtain a b where "ab = (a, b)" "xs = a @ d # b" "d \<notin> set a"
    by (cases ab) (auto simp: split_once_Some_iff)
  with Some show ?thesis by (simp add: split_on_append_delim)
qed

declare split_on_append_delim [split_simps] split_on_join [split_simps]
  split_once_append [split_simps]

text \<open>\<^verbatim>\<open>strip_prefix\<close>, \<^verbatim>\<open>strip_suffix\<close> and \<^verbatim>\<open>starts_with\<close>.\<close>

fun strip_prefix :: "'a list \<Rightarrow> 'a list \<Rightarrow> 'a list option" where
  "strip_prefix [] xs = Some xs"
| "strip_prefix (p # ps) [] = None"
| "strip_prefix (p # ps) (x # xs) = (if p = x then strip_prefix ps xs else None)"

lemma strip_prefix_Some_iff: "strip_prefix p xs = Some r \<longleftrightarrow> xs = p @ r"
  by (induction p xs rule: strip_prefix.induct) auto

lemma strip_prefix_None_iff: "strip_prefix p xs = None \<longleftrightarrow> \<not> prefix p xs"
  by (induction p xs rule: strip_prefix.induct) auto

definition starts_with :: "'a list \<Rightarrow> 'a list \<Rightarrow> bool" where
  "starts_with p xs \<longleftrightarrow> take (length p) xs = p"

lemma starts_with_iff: "starts_with p xs \<longleftrightarrow> (\<exists>r. xs = p @ r)"
  by (metis append_eq_conv_conj append_take_drop_id starts_with_def)

definition strip_suffix :: "'a list \<Rightarrow> 'a list \<Rightarrow> 'a list option" where
  "strip_suffix s xs = map_option rev (strip_prefix (rev s) (rev xs))"

lemma strip_suffix_Some_iff: "strip_suffix s xs = Some r \<longleftrightarrow> xs = r @ s"
proof -
  have "strip_suffix s xs = Some r \<longleftrightarrow> strip_prefix (rev s) (rev xs) = Some (rev r)"
    by (auto simp: strip_suffix_def)
  also have "\<dots> \<longleftrightarrow> xs = r @ s"
    by (metis rev_append rev_rev_ident strip_prefix_Some_iff)
  finally show ?thesis .
qed

section \<open>Trimming\<close>

text \<open>\<^verbatim>\<open>trim_matches(p)\<close> for a predicate on single bytes.\<close>

definition trim_matches :: "('a \<Rightarrow> bool) \<Rightarrow> 'a list \<Rightarrow> 'a list" where
  "trim_matches p xs = rev (dropWhile p (rev (dropWhile p xs)))"

lemma trim_matches_decomp:
  "\<exists>a b. xs = a @ trim_matches p xs @ b \<and> (\<forall>x\<in>set a. p x) \<and> (\<forall>x\<in>set b. p x)"
proof -
  let ?ys = "dropWhile p xs"
  have 1: "xs = takeWhile p xs @ ?ys" by simp
  have "rev ?ys = takeWhile p (rev ?ys) @ dropWhile p (rev ?ys)" by simp
  then have 2: "?ys = trim_matches p xs @ rev (takeWhile p (rev ?ys))"
    unfolding trim_matches_def by (metis rev_append rev_rev_ident)
  show ?thesis
    by (rule exI [of _ "takeWhile p xs"], rule exI [of _ "rev (takeWhile p (rev ?ys))"])
      (use 1 2 in \<open>auto dest: set_takeWhileD\<close>)
qed

lemma trim_matches_hd: "trim_matches p xs \<noteq> [] \<Longrightarrow> \<not> p (hd (trim_matches p xs))"
proof -
  assume ne: "trim_matches p xs \<noteq> []"
  let ?ys = "dropWhile p xs"
  from ne have d: "dropWhile p (rev ?ys) \<noteq> []" by (simp add: trim_matches_def)
  have "?ys = rev (dropWhile p (rev ?ys)) @ rev (takeWhile p (rev ?ys))"
    by (metis rev_append rev_rev_ident takeWhile_dropWhile_id)
  then have "hd ?ys = hd (trim_matches p xs)"
    using d by (metis hd_append2 rev_is_Nil_conv trim_matches_def)
  moreover have "?ys \<noteq> []" using d by (metis dropWhile.simps(1) rev.simps(1))
  ultimately show ?thesis using hd_dropWhile [of p xs] by simp
qed

lemma trim_matches_last: "trim_matches p xs \<noteq> [] \<Longrightarrow> \<not> p (last (trim_matches p xs))"
  unfolding trim_matches_def by (metis hd_dropWhile last_rev rev_is_Nil_conv)

lemma trim_matches_id:
  "(xs \<noteq> [] \<Longrightarrow> \<not> p (hd xs) \<and> \<not> p (last xs)) \<Longrightarrow> trim_matches p xs = xs"
proof (cases xs)
  case (Cons y ys)
  assume "xs \<noteq> [] \<Longrightarrow> \<not> p (hd xs) \<and> \<not> p (last xs)"
  with Cons have "\<not> p (hd xs)" "\<not> p (last xs)" "xs \<noteq> []" by auto
  then have "dropWhile p xs = xs" "dropWhile p (rev xs) = rev xs"
    by (metis dropWhile_eq_self_iff, metis dropWhile_eq_self_iff hd_rev)
  then show ?thesis by (simp add: trim_matches_def)
qed (simp add: trim_matches_def)

lemma trim_matches_no_p [simp]: "\<forall>x\<in>set xs. \<not> p x \<Longrightarrow> trim_matches p xs = xs"
  by (rule trim_matches_id) auto

lemma trim_matches_prefix [simp]: "p x \<Longrightarrow> trim_matches p (x # xs) = trim_matches p xs"
  by (simp add: trim_matches_def)

lemma set_trim_matches: "set (trim_matches p xs) \<subseteq> set xs"
  unfolding trim_matches_def by (metis set_dropWhileD set_rev subsetI)

end
