(* ===== verification/Ascii.thy ===== *)
theory Ascii
  imports Prelude
begin

text \<open>
  The ASCII part of the standard library: \<^verbatim>\<open>u8::is_ascii_digit\<close> and its kin,
  \<^verbatim>\<open>eq_ignore_ascii_case\<close>, the decimal and hexadecimal formats \<^verbatim>\<open>{}\<close> and \<^verbatim>\<open>{:x}\<close> of unsigned
  integers and the matching \<^verbatim>\<open>from_str_radix\<close>/\<^verbatim>\<open>parse\<close>, with the round trip between them.
\<close>

section \<open>Classes and case folding\<close>

definition is_ascii_digit :: "byte \<Rightarrow> bool" where
  "is_ascii_digit b \<longleftrightarrow> 48 \<le> bval b \<and> bval b \<le> 57"

definition is_ascii_uppercase :: "byte \<Rightarrow> bool" where
  "is_ascii_uppercase b \<longleftrightarrow> 65 \<le> bval b \<and> bval b \<le> 90"

definition is_ascii_lowercase :: "byte \<Rightarrow> bool" where
  "is_ascii_lowercase b \<longleftrightarrow> 97 \<le> bval b \<and> bval b \<le> 122"

definition is_ascii_alphanumeric :: "byte \<Rightarrow> bool" where
  "is_ascii_alphanumeric b \<longleftrightarrow> is_ascii_digit b \<or> is_ascii_uppercase b \<or> is_ascii_lowercase b"

definition is_ascii_hexdigit :: "byte \<Rightarrow> bool" where
  "is_ascii_hexdigit b \<longleftrightarrow>
     is_ascii_digit b \<or> (65 \<le> bval b \<and> bval b \<le> 70) \<or> (97 \<le> bval b \<and> bval b \<le> 102)"

definition to_ascii_lowercase :: "byte \<Rightarrow> byte" where
  "to_ascii_lowercase b = (if is_ascii_uppercase b then char_of (bval b + 32) else b)"

definition eq_ignore_ascii_case :: "bytes \<Rightarrow> bytes \<Rightarrow> bool" where
  "eq_ignore_ascii_case a b \<longleftrightarrow> map to_ascii_lowercase a = map to_ascii_lowercase b"

lemmas ascii_class_defs = is_ascii_digit_def is_ascii_uppercase_def is_ascii_lowercase_def
  is_ascii_alphanumeric_def is_ascii_hexdigit_def

lemma eq_ignore_ascii_case_refl [simp]: "eq_ignore_ascii_case a a"
  by (simp add: eq_ignore_ascii_case_def)

lemma eq_ignore_ascii_case_sym: "eq_ignore_ascii_case a b \<longleftrightarrow> eq_ignore_ascii_case b a"
  by (auto simp: eq_ignore_ascii_case_def)

lemma eq_ignore_ascii_case_trans:
  "eq_ignore_ascii_case a b \<Longrightarrow> eq_ignore_ascii_case b c \<Longrightarrow> eq_ignore_ascii_case a c"
  by (simp add: eq_ignore_ascii_case_def)

lemma eq_ignore_ascii_case_length: "eq_ignore_ascii_case a b \<Longrightarrow> length a = length b"
  unfolding eq_ignore_ascii_case_def by (rule map_eq_imp_length_eq)

lemma bval_eq_iff: "bval a = bval b \<longleftrightarrow> a = b"
  by (metis char_of_char)

lemma bval_char_of: "n < 256 \<Longrightarrow> bval (char_of n) = n"
  by (simp add: of_char_of)

lemma bval_less: "bval b < 256"
  by (metis of_char_mod_256 mod_less_divisor zero_less_numeral)

section \<open>Numbers as text\<close>

fun digits_of :: "nat \<Rightarrow> nat \<Rightarrow> nat list" where
  "digits_of r n = (if r < 2 \<or> n < r then [n] else digits_of r (n div r) @ [n mod r])"

declare digits_of.simps [simp del]

definition digit_char :: "nat \<Rightarrow> byte" where
  "digit_char d = (if d < 10 then char_of (48 + d) else char_of (87 + d))"

text \<open>\<^verbatim>\<open>format!("{}", n)\<close> for radix 10 and \<^verbatim>\<open>format!("{:x}", n)\<close> for radix 16.\<close>

definition fmt_radix :: "nat \<Rightarrow> nat \<Rightarrow> bytes" where
  "fmt_radix r n = map digit_char (digits_of r n)"

abbreviation to_decimal :: "nat \<Rightarrow> bytes" where "to_decimal n \<equiv> fmt_radix 10 n"
abbreviation to_hex :: "nat \<Rightarrow> bytes" where "to_hex n \<equiv> fmt_radix 16 n"

definition int_to_decimal :: "int \<Rightarrow> bytes" where
  "int_to_decimal i = (if i < 0 then CHR ''-'' # to_decimal (nat (- i)) else to_decimal (nat i))"

definition digit_val :: "byte \<Rightarrow> nat" where
  "digit_val b =
     (if is_ascii_digit b then bval b - 48
      else if 97 \<le> bval b then bval b - 87 else bval b - 55)"

text \<open>\<^verbatim>\<open>u64::from_str_radix\<close> on a non-empty run of digits of the radix: the value, or an error
  when it does not fit.\<close>

definition radix_val :: "nat \<Rightarrow> bytes \<Rightarrow> nat" where
  "radix_val r cs = foldl (\<lambda>a c. a * r + digit_val c) 0 cs"

definition u64_of_digits :: "nat \<Rightarrow> bytes \<Rightarrow> nat option" where
  "u64_of_digits r cs = (if radix_val r cs \<le> U64_MAX then Some (radix_val r cs) else None)"

lemma digits_of_lt: "2 \<le> r \<Longrightarrow> d \<in> set (digits_of r n) \<Longrightarrow> d < r"
proof (induction r n rule: digits_of.induct)
  case (1 r n)
  then show ?case
    by (subst (asm) digits_of.simps) (auto split: if_splits)
qed

lemma digits_of_ne [simp]: "digits_of r n \<noteq> []"
  by (subst digits_of.simps) simp

lemma fmt_radix_ne [simp]: "fmt_radix r n \<noteq> []"
  by (simp add: fmt_radix_def)

lemma digits_of_val: "2 \<le> r \<Longrightarrow> foldl (\<lambda>a d. a * r + d) 0 (digits_of r n) = n"
proof (induction r n rule: digits_of.induct)
  case (1 r n)
  then show ?case
    by (subst digits_of.simps) auto
qed

lemma digits_of_hd: "2 \<le> r \<Longrightarrow> 0 < n \<Longrightarrow> hd (digits_of r n) \<noteq> 0"
proof (induction r n rule: digits_of.induct)
  case (1 r n)
  show ?case
  proof (cases "n < r")
    case False
    with "1.prems" have "0 < n div r" by (simp add: div_greater_zero_iff)
    with 1 False show ?thesis
      by (subst digits_of.simps) auto
  qed (use "1.prems" in \<open>subst digits_of.simps, simp\<close>)
qed

lemma length_digits_of: "2 \<le> r \<Longrightarrow> n < r ^ k \<Longrightarrow> 0 < k \<Longrightarrow> length (digits_of r n) \<le> k"
proof (induction k arbitrary: n)
  case (Suc k)
  show ?case
  proof (cases "n < r")
    case True
    then show ?thesis by (subst digits_of.simps) simp
  next
    case False
    with Suc.prems have k: "0 < k" by (cases k) auto
    have "n div r < r ^ k"
      using Suc.prems by (simp add: less_mult_imp_div_less mult.commute)
    with Suc k have "length (digits_of r (n div r)) \<le> k" by simp
    with False show ?thesis by (subst digits_of.simps) simp
  qed
qed simp

lemma digit_char_bval:
  "d < 16 \<Longrightarrow> bval (digit_char d) = (if d < 10 then 48 + d else 87 + d)"
  by (simp add: digit_char_def bval_char_of)

lemma digit_val_char [simp]: "d < 16 \<Longrightarrow> digit_val (digit_char d) = d"
  by (auto simp: digit_val_def is_ascii_digit_def digit_char_bval)

lemma digit_char_hex: "d < 16 \<Longrightarrow> is_ascii_hexdigit (digit_char d)"
  by (auto simp: ascii_class_defs digit_char_bval)

lemma digit_char_dec: "d < 10 \<Longrightarrow> is_ascii_digit (digit_char d)"
  by (auto simp: ascii_class_defs digit_char_bval)

lemma radix_val_fmt: "2 \<le> r \<Longrightarrow> r \<le> 16 \<Longrightarrow> radix_val r (fmt_radix r n) = n"
proof -
  assume r: "2 \<le> r" "r \<le> 16"
  have "foldl (\<lambda>a c. a * r + digit_val c) a (map digit_char ds) = foldl (\<lambda>a d. a * r + d) a ds"
    if "\<forall>d\<in>set ds. d < 16" for ds a
    using that by (induction ds arbitrary: a) auto
  moreover have "\<forall>d\<in>set (digits_of r n). d < 16"
    using digits_of_lt [of r _ n] r by fastforce
  ultimately show ?thesis
    using r by (simp add: radix_val_def fmt_radix_def digits_of_val)
qed

lemma fmt_hex_digits: "c \<in> set (to_hex n) \<Longrightarrow> is_ascii_hexdigit c"
  using digits_of_lt [of 16 _ n] by (auto simp: fmt_radix_def digit_char_hex)

lemma fmt_dec_digits: "c \<in> set (to_decimal n) \<Longrightarrow> is_ascii_digit c"
  using digits_of_lt [of 10 _ n] by (auto simp: fmt_radix_def digit_char_dec)

lemma u64_of_digits_fmt [simp]:
  "2 \<le> r \<Longrightarrow> r \<le> 16 \<Longrightarrow> u64_of_digits r (fmt_radix r n) = (if n \<le> U64_MAX then Some n else None)"
  by (simp add: u64_of_digits_def radix_val_fmt)

lemma length_to_hex: "n < 16 ^ k \<Longrightarrow> 0 < k \<Longrightarrow> length (to_hex n) \<le> k"
  by (simp add: fmt_radix_def length_digits_of)

lemma length_to_decimal: "n < 10 ^ k \<Longrightarrow> 0 < k \<Longrightarrow> length (to_decimal n) \<le> k"
  by (simp add: fmt_radix_def length_digits_of)

lemma to_decimal_inj: "to_decimal m = to_decimal n \<Longrightarrow> m = n"
proof -
  assume eq: "to_decimal m = to_decimal n"
  have "m = radix_val 10 (to_decimal m)" by (simp add: radix_val_fmt)
  also have "\<dots> = radix_val 10 (to_decimal n)" by (simp only: eq)
  also have "\<dots> = n" by (simp add: radix_val_fmt)
  finally show ?thesis .
qed

lemma hexdigit_neq [ascii_facts]:
  "is_ascii_hexdigit c \<Longrightarrow> c \<noteq> cr \<and> c \<noteq> lf \<and> c \<noteq> CHR '';''"
  by (auto simp: ascii_class_defs)

lemma digit_neq [ascii_facts]:
  "is_ascii_digit c \<Longrightarrow> c \<noteq> cr \<and> c \<noteq> lf \<and> c \<noteq> CHR '' '' \<and> c \<noteq> CHR '';''"
  by (auto simp: ascii_class_defs)

lemma digit_range [ascii_facts]: "is_ascii_digit c \<Longrightarrow> 32 < bval c \<and> bval c < 127"
  by (auto simp: ascii_class_defs)

end
