(* ===== verification/Utf8.thy ===== *)
theory Utf8
  imports Ascii
begin

text \<open>
  The part of \<^verbatim>\<open>core::str\<close> that depends on the UTF-8 encoding: \<^verbatim>\<open>std::str::from_utf8\<close>
  (\<open>utf8_valid\<close>, the well-formed byte sequences of the Unicode standard), \<^verbatim>\<open>str::chars\<close>
  (\<open>utf8_decode\<close>), \<^verbatim>\<open>char::is_whitespace\<close>, \<^verbatim>\<open>char::is_control\<close>, \<^verbatim>\<open>str::trim\<close> and the character
  boundaries at which a \<^verbatim>\<open>str\<close> may be sliced.
\<close>

section \<open>Decoding\<close>

definition is_cont :: "byte \<Rightarrow> bool" where
  "is_cont b \<longleftrightarrow> 128 \<le> bval b \<and> bval b < 192"

text \<open>The first character of a byte sequence: its code point and the bytes after it.\<close>

definition utf8_char :: "bytes \<Rightarrow> (nat \<times> bytes) option" where
  "utf8_char s =
     (case s of [] \<Rightarrow> None | b0 # r0 \<Rightarrow>
        (let n = bval b0 in
         if n < 128 then Some (n, r0)
         else (case r0 of [] \<Rightarrow> None | b1 # r1 \<Rightarrow>
           if 194 \<le> n \<and> n \<le> 223 then
             (if is_cont b1 then Some ((n - 192) * 64 + (bval b1 - 128), r1) else None)
           else (case r1 of [] \<Rightarrow> None | b2 # r2 \<Rightarrow>
             if 224 \<le> n \<and> n \<le> 239 then
               (if is_cont b1 \<and> is_cont b2 \<and> (n = 224 \<longrightarrow> 160 \<le> bval b1) \<and> (n = 237 \<longrightarrow> bval b1 < 160)
                then Some ((n - 224) * 4096 + (bval b1 - 128) * 64 + (bval b2 - 128), r2) else None)
             else (case r2 of [] \<Rightarrow> None | b3 # r3 \<Rightarrow>
               if 240 \<le> n \<and> n \<le> 244 \<and> is_cont b1 \<and> is_cont b2 \<and> is_cont b3 \<and>
                  (n = 240 \<longrightarrow> 144 \<le> bval b1) \<and> (n = 244 \<longrightarrow> bval b1 < 144)
               then Some ((n - 240) * 262144 + (bval b1 - 128) * 4096 + (bval b2 - 128) * 64
                          + (bval b3 - 128), r3)
               else None)))))"

lemma utf8_char_suffix:
  "utf8_char s = Some (c, r) \<Longrightarrow> \<exists>e. e \<noteq> [] \<and> s = e @ r"
  by (auto simp: utf8_char_def Let_def split: list.splits if_splits)

lemma utf8_char_less: "utf8_char s = Some (c, r) \<Longrightarrow> length r < length s"
  by (auto dest: utf8_char_suffix)

text \<open>The characters with the bytes that encode them; \<open>None\<close> when some sequence is ill-formed.\<close>

function utf8_chunks :: "bytes \<Rightarrow> (nat \<times> bytes) list option" where
  "utf8_chunks s =
     (if s = [] then Some []
      else (case utf8_char s of None \<Rightarrow> None
            | Some (c, r) \<Rightarrow>
                map_option ((#) (c, take (length s - length r) s)) (utf8_chunks r)))"
  by pat_completeness auto
termination
  by (relation "measure length") (auto dest: utf8_char_less)

declare utf8_chunks.simps [simp del]

definition utf8_valid :: "bytes \<Rightarrow> bool" where
  "utf8_valid s \<longleftrightarrow> utf8_chunks s \<noteq> None"

definition utf8_decode :: "bytes \<Rightarrow> nat list" where
  "utf8_decode s = (case utf8_chunks s of None \<Rightarrow> [] | Some cs \<Rightarrow> map fst cs)"

definition is_whitespace :: "nat \<Rightarrow> bool" where
  "is_whitespace c \<longleftrightarrow>
     (9 \<le> c \<and> c \<le> 13) \<or> c = 32 \<or> c = 0x85 \<or> c = 0xA0 \<or> c = 0x1680 \<or> (0x2000 \<le> c \<and> c \<le> 0x200A)
     \<or> c = 0x2028 \<or> c = 0x2029 \<or> c = 0x202F \<or> c = 0x205F \<or> c = 0x3000"

definition is_control :: "nat \<Rightarrow> bool" where
  "is_control c \<longleftrightarrow> c < 32 \<or> (127 \<le> c \<and> c < 160)"

definition str_trim :: "bytes \<Rightarrow> bytes" where
  "str_trim s =
     (case utf8_chunks s of None \<Rightarrow> s
      | Some cs \<Rightarrow> concat (map snd (trim_matches (\<lambda>p. is_whitespace (fst p)) cs)))"

section \<open>Facts\<close>

lemma utf8_chunks_Nil [simp]: "utf8_chunks [] = Some []"
  by (simp add: utf8_chunks.simps)

lemma utf8_valid_Nil [simp]: "utf8_valid []"
  by (simp add: utf8_valid_def)

lemma utf8_char_ascii [simp]: "bval b < 128 \<Longrightarrow> utf8_char (b # s) = Some (bval b, s)"
  by (simp add: utf8_char_def)

lemma utf8_chunks_ascii_Cons:
  "bval b < 128 \<Longrightarrow> utf8_chunks (b # s) = map_option ((#) (bval b, [b])) (utf8_chunks s)"
  by (simp add: utf8_chunks.simps [of "b # s"])

lemma utf8_valid_ascii_Cons [simp]: "bval b < 128 \<Longrightarrow> utf8_valid (b # s) = utf8_valid s"
  by (simp add: utf8_valid_def utf8_chunks_ascii_Cons)

lemma utf8_valid_ascii: "\<forall>b\<in>set s. bval b < 128 \<Longrightarrow> utf8_valid s"
  by (induction s) simp_all

lemma utf8_decode_ascii: "\<forall>b\<in>set s. bval b < 128 \<Longrightarrow> utf8_decode s = map of_char s"
proof -
  assume "\<forall>b\<in>set s. bval b < 128"
  then have "utf8_chunks s = Some (map (\<lambda>b. (bval b, [b])) s)"
    by (induction s) (auto simp: utf8_chunks_ascii_Cons)
  then show ?thesis by (simp add: utf8_decode_def)
qed

lemma list4_cases:
  obtains "s = []" | b0 where "s = [b0]" | b0 b1 where "s = [b0, b1]"
    | b0 b1 b2 where "s = [b0, b1, b2]" | b0 b1 b2 b3 r where "s = b0 # b1 # b2 # b3 # r"
  by (metis list.exhaust)

lemma utf8_char_append: "utf8_char s = Some (c, r) \<Longrightarrow> utf8_char (s @ t) = Some (c, r @ t)"
  by (cases s rule: list4_cases) (simp_all add: utf8_char_def Let_def split: if_splits)

lemma utf8_chunks_append:
  assumes "utf8_valid a"
  shows "utf8_chunks (a @ b) =
     (case utf8_chunks b of None \<Rightarrow> None | Some bs \<Rightarrow> Some (the (utf8_chunks a) @ bs))"
  using assms
proof (induction a rule: utf8_chunks.induct)
  case (1 a)
  show ?case
  proof (cases "a = []")
    case False
    with "1.prems" obtain c r where cr: "utf8_char a = Some (c, r)" and r: "utf8_valid r"
      by (auto simp: utf8_valid_def utf8_chunks.simps [of a] split: option.splits)
    then have "length r \<le> length a" using utf8_char_less [OF cr] by simp
    with False cr r "1.IH" utf8_char_append [OF cr] show ?thesis
      by (auto simp: utf8_chunks.simps [of "a @ b"] utf8_chunks.simps [of a] utf8_valid_def
          split: option.splits)
  qed (auto split: option.split)
qed

lemma utf8_valid_append: "utf8_valid a \<Longrightarrow> utf8_valid (a @ b) \<longleftrightarrow> utf8_valid b"
  by (auto simp: utf8_valid_def [of "a @ b"] utf8_valid_def [of b] utf8_chunks_append
      split: option.splits)

lemma utf8_char_not_cont: "utf8_char (b # s) = Some x \<Longrightarrow> \<not> is_cont b"
  by (auto simp: utf8_char_def is_cont_def Let_def split: list.splits if_splits)

lemma utf8_valid_hd: "utf8_valid (b # s) \<Longrightarrow> \<not> is_cont b"
  using utf8_char_not_cont [of b s]
  by (auto simp: utf8_valid_def utf8_chunks.simps [of "b # s"] split: option.splits)

text \<open>An ASCII byte is never inside the encoding of a longer character.\<close>

lemma utf8_char_split_ascii:
  assumes "utf8_char (a @ x # b) = Some (c, r)" "bval x < 128" "a \<noteq> []"
  shows "\<exists>r'. utf8_char a = Some (c, r') \<and> r = r' @ x # b"
proof -
  have nc: "\<not> is_cont x" using assms(2) by (simp add: is_cont_def)
  obtain a0 a1 where a: "a = a0 # a1" using assms(3) by (cases a) auto
  show ?thesis
    using assms(1) nc unfolding a
    by (auto simp: utf8_char_def Let_def Cons_eq_append_conv append_eq_Cons_conv
        split: list.splits if_splits)
qed

lemma utf8_valid_split_ascii:
  assumes "utf8_valid (a @ x # b)" "bval x < 128"
  shows "utf8_valid a \<and> utf8_valid b"
  using assms
proof (induction a rule: utf8_chunks.induct)
  case (1 a)
  show ?case
  proof (cases "a = []")
    case False
    with "1.prems" obtain c r where cr: "utf8_char (a @ x # b) = Some (c, r)" and r: "utf8_valid r"
      by (auto simp: utf8_valid_def utf8_chunks.simps [of "a @ x # b"] split: option.splits)
    from utf8_char_split_ascii [OF cr "1.prems"(2) False] obtain r' where
      r': "utf8_char a = Some (c, r')" "r = r' @ x # b" by blast
    with "1.IH" [of "(c, r')" c r'] False r "1.prems"(2) have "utf8_valid r' \<and> utf8_valid b"
      by simp
    with r' False show ?thesis
      by (simp add: utf8_valid_def utf8_chunks.simps [of a])
  qed (use "1.prems" in simp)
qed

section \<open>Character boundaries\<close>

text \<open>\<^verbatim>\<open>str::is_char_boundary\<close>: slicing a \<^verbatim>\<open>str\<close> panics anywhere else.\<close>

definition is_char_boundary :: "bytes \<Rightarrow> nat \<Rightarrow> bool" where
  "is_char_boundary s i \<longleftrightarrow> i = 0 \<or> i = length s \<or> (i < length s \<and> \<not> is_cont (s ! i))"

definition range_ok :: "bytes \<Rightarrow> range \<Rightarrow> bool" where
  "range_ok s r \<longleftrightarrow> fst r \<le> snd r \<and> snd r \<le> length s \<and>
     is_char_boundary s (fst r) \<and> is_char_boundary s (snd r)"

lemma is_char_boundary_append:
  "is_char_boundary (a @ b) (length a) \<longleftrightarrow> a = [] \<or> b = [] \<or> \<not> is_cont (hd b)"
  by (cases b) (auto simp: is_char_boundary_def nth_append)

end
