(* ===== verification/Substring_Search.thy ===== *)
theory Substring_Search
  imports Ascii
begin

text \<open>
  The interface of \<^verbatim>\<open>memchr::memmem\<close>, the third-party crate that the request parser calls for
  its substring searches. The search function is a parameter of the model; the locale
  \<open>substring_search\<close> states what the crate documents of \<^verbatim>\<open>memmem::find\<close> (the index of the first
  occurrence of the needle). Inside it the parser's \<^verbatim>\<open>find_subslice\<close> is shown to compute the
  naive search \<open>find_sub\<close>, which is also the instance that shows the interface satisfiable.
\<close>

type_synonym search = "bytes \<Rightarrow> bytes \<Rightarrow> nat option"

definition occurs_at :: "bytes \<Rightarrow> bytes \<Rightarrow> nat \<Rightarrow> bool" where
  "occurs_at n h i \<longleftrightarrow> i + length n \<le> length h \<and> take (length n) (drop i h) = n"

text \<open>The search by windows that the crate call replaced: try every offset from the left.\<close>

fun find_sub :: "bytes \<Rightarrow> bytes \<Rightarrow> nat option" where
  "find_sub n [] = (if n = [] then Some 0 else None)"
| "find_sub n (x # h) = (if starts_with n (x # h) then Some 0 else map_option Suc (find_sub n h))"

lemma occurs_at_0: "occurs_at n h 0 \<longleftrightarrow> starts_with n h"
  by (auto simp: occurs_at_def starts_with_def) (metis length_take min.absorb_iff2)

lemma occurs_at_Suc: "occurs_at n (x # h) (Suc i) \<longleftrightarrow> occurs_at n h i"
  by (simp add: occurs_at_def)

lemma occurs_at_Nil: "occurs_at n [] i \<longleftrightarrow> n = [] \<and> i = 0"
  by (auto simp: occurs_at_def)

lemma find_sub_Some: "find_sub n h = Some i \<Longrightarrow> occurs_at n h i"
proof (induction n h arbitrary: i rule: find_sub.induct)
  case (2 n x h)
  then show ?case
    by (cases i) (auto simp: occurs_at_0 occurs_at_Suc split: if_splits)
qed (simp add: occurs_at_Nil split: if_splits)

lemma find_sub_first: "find_sub n h = Some i \<Longrightarrow> j < i \<Longrightarrow> \<not> occurs_at n h j"
proof (induction n h arbitrary: i j rule: find_sub.induct)
  case (2 n x h)
  then show ?case
    by (cases j) (auto simp: occurs_at_0 occurs_at_Suc split: if_splits)
qed (simp split: if_splits)

lemma find_sub_None: "find_sub n h = None \<Longrightarrow> \<not> occurs_at n h j"
proof (induction n h arbitrary: j rule: find_sub.induct)
  case (2 n x h)
  then show ?case
    by (cases j) (auto simp: occurs_at_0 occurs_at_Suc split: if_splits)
qed (simp add: occurs_at_Nil split: if_splits)

lemma find_sub_skip:
  "n \<noteq> [] \<Longrightarrow> hd n \<notin> set a \<Longrightarrow> find_sub n (a @ h) = map_option (\<lambda>i. length a + i) (find_sub n h)"
proof (induction a)
  case (Cons x a)
  then have "\<not> starts_with n (x # a @ h)"
    by (cases n) (auto simp: starts_with_def)
  with Cons show ?case by (simp add: option.map_comp comp_def)
qed (cases "find_sub n h", simp_all)

lemma find_sub_append_Some:
  assumes "find_sub n a = Some i" shows "find_sub n (a @ b) = Some i"
  using assms
proof (induction n a arbitrary: i rule: find_sub.induct)
  case (1 n)
  then show ?case by (cases b) (auto simp: starts_with_def split: if_splits)
next
  case (2 n x h)
  show ?case
  proof (cases "starts_with n (x # h)")
    case True
    then have "starts_with n (x # h @ b)" unfolding starts_with_iff by (metis append.assoc append_Cons)
    with 2 True show ?thesis by simp
  next
    case False
    with "2.prems" obtain k where k: "find_sub n h = Some k" "i = Suc k" by auto
    have "\<not> starts_with n (x # h @ b)"
    proof
      assume "starts_with n (x # h @ b)"
      moreover have "length n \<le> length h"
        using find_sub_Some [OF k(1)] by (simp add: occurs_at_def)
      ultimately have "starts_with n (x # h)"
        by (simp add: starts_with_def take_Cons' split: if_splits)
      with False show False by simp
    qed
    with 2 False k show ?thesis by simp
  qed
qed

text \<open>\<^verbatim>\<open>find_subslice\<close> of \<^verbatim>\<open>request.rs\<close>, over the crate's search.\<close>

definition find_subslice :: "search \<Rightarrow> bytes \<Rightarrow> bytes \<Rightarrow> nat option" where
  "find_subslice memmem haystack needle =
     (if needle = [] \<or> length haystack < length needle then None else memmem haystack needle)"

locale substring_search =
  fixes memmem :: "bytes \<Rightarrow> bytes \<Rightarrow> nat option"
  assumes memmem_hit: "needle \<noteq> [] \<Longrightarrow> memmem hay needle = Some i \<Longrightarrow> occurs_at needle hay i"
    and memmem_first:
      "needle \<noteq> [] \<Longrightarrow> memmem hay needle = Some i \<Longrightarrow> j < i \<Longrightarrow> \<not> occurs_at needle hay j"
    and memmem_miss: "needle \<noteq> [] \<Longrightarrow> memmem hay needle = None \<Longrightarrow> \<not> occurs_at needle hay j"
begin

lemma memmem_find_sub: "needle \<noteq> [] \<Longrightarrow> memmem hay needle = find_sub needle hay"
proof -
  assume n: "needle \<noteq> []"
  show ?thesis
  proof (cases "memmem hay needle")
    case None
    with memmem_miss [OF n] find_sub_Some [of needle hay] show ?thesis
      by (cases "find_sub needle hay") auto
  next
    case (Some i)
    note i = memmem_hit [OF n Some] memmem_first [OF n Some]
    obtain k where k: "find_sub needle hay = Some k"
      using find_sub_None [of needle hay] i(1) by (cases "find_sub needle hay") auto
    have "i = k"
      using i find_sub_Some [OF k] find_sub_first [OF k] by (metis linorder_neqE_nat)
    with Some k show ?thesis by simp
  qed
qed

lemma find_subslice_eq: "needle \<noteq> [] \<Longrightarrow> find_subslice memmem hay needle = find_sub needle hay"
proof -
  assume n: "needle \<noteq> []"
  have "find_sub needle hay = None" if "length hay < length needle"
    using find_sub_Some [of needle hay] that
    by (cases "find_sub needle hay") (auto simp: occurs_at_def)
  with n show ?thesis by (simp add: find_subslice_def memmem_find_sub)
qed

end

interpretation naive_search: substring_search "\<lambda>hay needle. find_sub needle hay"
  by unfold_locales (auto dest: find_sub_Some find_sub_first find_sub_None)

end
