(* ===== verification/Extensions.thy ===== *)
theory Extensions
  imports Prelude
begin

text \<open>
  \<^verbatim>\<open>crates/http/src/extensions.rs\<close>: the per-request store of typed values that the gates fill. A Rust
  value behind \<^verbatim>\<open>Arc<dyn Any>\<close> is its dynamic type (what \<^verbatim>\<open>TypeId::of\<close> returns) and an opaque
  identity; \<^verbatim>\<open>downcast_ref\<close> succeeds when the dynamic type is the requested one. The locale
  \<open>write_once_store\<close> is the contract the gates rely on: the first value of a type stays.
\<close>

section \<open>The store\<close>

type_synonym type_id = nat

datatype any_value = Any (any_type: type_id) (any_identity: nat)

record RequestExtensions =
  ext_entries :: "(type_id \<times> any_value) list"

definition extensions_new :: RequestExtensions where
  "extensions_new = \<lparr>ext_entries = []\<rparr>"

definition ext_insert :: "RequestExtensions \<Rightarrow> any_value \<Rightarrow> (any_value + unit) \<times> RequestExtensions" where
  "ext_insert ext value =
     (let type_id = any_type value in
      if list_ex (\<lambda>(t, _). t = type_id) (ext_entries ext) then (Err value, ext)
      else (Ok (), ext\<lparr>ext_entries := ext_entries ext @ [(type_id, value)]\<rparr>))"

definition downcast :: "type_id \<Rightarrow> any_value \<Rightarrow> any_value option" where
  "downcast t v = (if any_type v = t then Some v else None)"

definition ext_get :: "RequestExtensions \<Rightarrow> type_id \<Rightarrow> any_value option" where
  "ext_get ext type_id =
     Option.bind (find (\<lambda>(t, _). t = type_id) (ext_entries ext)) (\<lambda>(_, v). downcast type_id v)"

definition ext_get_shared :: "RequestExtensions \<Rightarrow> type_id \<Rightarrow> any_value option" where
  "ext_get_shared ext type_id =
     Option.bind (find (\<lambda>(t, _). t = type_id) (ext_entries ext)) (\<lambda>(_, v). downcast type_id v)"

definition ext_contains :: "RequestExtensions \<Rightarrow> type_id \<Rightarrow> bool" where
  "ext_contains ext type_id \<longleftrightarrow> list_ex (\<lambda>(t, _). t = type_id) (ext_entries ext)"

definition ext_len :: "RequestExtensions \<Rightarrow> nat" where
  "ext_len ext = length (ext_entries ext)"

definition ext_is_empty :: "RequestExtensions \<Rightarrow> bool" where
  "ext_is_empty ext \<longleftrightarrow> ext_entries ext = []"

section \<open>Invariant and observations\<close>

definition ext_inv :: "RequestExtensions \<Rightarrow> bool" where
  "ext_inv ext \<longleftrightarrow> distinct (map fst (ext_entries ext)) \<and>
     list_all (\<lambda>(t, v). any_type v = t) (ext_entries ext)"

lemma find_map_of: "find (\<lambda>(t, _). t = k) xs = map_option (Pair k) (map_of xs k)"
  by (induction xs) auto

lemma ext_get_map_of:
  assumes "ext_inv ext" shows "ext_get ext t = map_of (ext_entries ext) t"
proof (cases "map_of (ext_entries ext) t")
  case (Some v)
  with assms have "any_type v = t"
    by (auto simp: ext_inv_def list_all_iff dest: map_of_SomeD)
  with Some show ?thesis by (simp add: ext_get_def find_map_of downcast_def)
qed (simp add: ext_get_def find_map_of)

lemma list_ex_map_of: "list_ex (\<lambda>(t, _). t = k) xs \<longleftrightarrow> map_of xs k \<noteq> None"
  by (induction xs) auto

lemma ext_contains_iff: "ext_inv ext \<Longrightarrow> ext_contains ext t \<longleftrightarrow> ext_get ext t \<noteq> None"
  by (simp add: ext_get_map_of ext_contains_def list_ex_map_of)

lemma ext_new_inv [simp]: "ext_inv extensions_new" and ext_get_new [simp]: "ext_get extensions_new t = None"
  by (simp_all add: ext_inv_def extensions_new_def ext_get_def)

lemma ext_insert_inv: "ext_inv ext \<Longrightarrow> ext_inv (snd (ext_insert ext v))"
  by (auto simp: ext_inv_def ext_insert_def Let_def list_ex_iff)

lemma ext_insert_eq:
  "ext_inv ext \<Longrightarrow> fst (ext_insert ext v) = (if ext_get ext (any_type v) = None then Ok () else Err v)"
  by (auto simp: ext_insert_def Let_def ext_get_map_of list_ex_map_of)

lemma ext_get_insert:
  assumes "ext_inv ext"
  shows "ext_get (snd (ext_insert ext v)) t =
    (if ext_get ext t = None \<and> t = any_type v then Some v else ext_get ext t)"
  unfolding ext_get_map_of [OF ext_insert_inv [OF assms]] ext_get_map_of [OF assms]
  by (auto simp: ext_insert_def Let_def list_ex_map_of map_add_def split: option.splits)

section \<open>The contract with the gates\<close>

locale write_once_store =
  fixes inv :: "'s \<Rightarrow> bool" and new :: 's
    and put :: "'s \<Rightarrow> 'v \<Rightarrow> ('v + unit) \<times> 's" and get :: "'s \<Rightarrow> 'k \<Rightarrow> 'v option" and key :: "'v \<Rightarrow> 'k"
  assumes inv_new: "inv new" and get_new: "get new k = None"
    and inv_put: "inv s \<Longrightarrow> inv (snd (put s v))"
    and put_result: "inv s \<Longrightarrow> fst (put s v) = (if get s (key v) = None then Ok () else Err v)"
    and get_put: "inv s \<Longrightarrow> get (snd (put s v)) k =
      (if get s k = None \<and> k = key v then Some v else get s k)"
begin

lemma inv_fold: "inv s \<Longrightarrow> inv (fold (\<lambda>v s. snd (put s v)) vs s)"
  by (induction vs arbitrary: s) (auto intro: inv_put)

lemma get_fold:
  "inv s \<Longrightarrow> get (fold (\<lambda>v s. snd (put s v)) vs s) k =
     (case get s k of Some v \<Rightarrow> Some v | None \<Rightarrow> find (\<lambda>v. key v = k) vs)"
  by (induction vs arbitrary: s) (auto simp: inv_put get_put split: option.splits)

lemma get_fold_new: "get (fold (\<lambda>v s. snd (put s v)) vs new) k = find (\<lambda>v. key v = k) vs"
  by (simp add: get_fold inv_new get_new)

end

interpretation request_extensions: write_once_store ext_inv extensions_new ext_insert ext_get any_type
  by unfold_locales (auto simp: ext_insert_inv ext_insert_eq ext_get_insert)

text \<open>First writer wins. Whatever sequence of values the gates of one request insert, a lookup by
  type returns the first value of that type (and nothing when no gate inserted one): a later gate
  cannot replace what an earlier gate verified.\<close>

theorem first_insert_wins:
  "ext_get (fold (\<lambda>v ext. snd (ext_insert ext v)) vs extensions_new) t = find (\<lambda>v. any_type v = t) vs"
  by (rule request_extensions.get_fold_new)

end
