(* ===== verification/Request_Spec.thy ===== *)
theory Request_Spec
  imports Request_Head
begin

text \<open>
  The specification of the request-head parser and its refinement by the range-based parser of
  \<open>Request_Head\<close>.
\<close>

section \<open>The grammar on owned strings\<close>

fun split_crlf :: "bytes \<Rightarrow> bytes list" where
  "split_crlf [] = [[]]"
| "split_crlf [c] = [[c]]"
| "split_crlf (c # d # xs) =
     (if c = cr \<and> d = lf then [] # split_crlf xs
      else case split_crlf (d # xs) of [] \<Rightarrow> [[c]] | s # ss \<Rightarrow> (c # s) # ss)"

definition ref_request_line :: "bytes \<Rightarrow> ParseError + (bytes \<times> bytes \<times> HttpVersion)" where
  "ref_request_line line =
     (if list_ex (\<lambda>b. is_forbidden_ctl b False) line then Err InvalidRequestLine
      else case split_on CHR '' '' line of
        [m, t, v] \<Rightarrow>
          if m = [] \<or> t = [] \<or> v = [] \<or> \<not> list_all is_tchar m then Err InvalidRequestLine
          else res_bind (parse_version v) (\<lambda>version.
            if utf8_valid t then Ok (m, t, version) else Err InvalidRequestLine)
      | _ \<Rightarrow> Err InvalidRequestLine)"

definition ref_header_line :: "bytes \<Rightarrow> ParseError + (bytes \<times> bytes)" where
  "ref_header_line line =
     (case split_once CHR '':'' line of
        None \<Rightarrow> Err InvalidHeader
      | Some (name, raw) \<Rightarrow>
          let val = trim_matches is_ows raw in
          if name = [] \<or> \<not> list_all is_tchar name \<or> list_ex (\<lambda>b. is_forbidden_ctl b True) val
             \<or> \<not> utf8_valid val
          then Err InvalidHeader else Ok (name, val))"

definition ref_headers :: "bytes list \<Rightarrow> ParseError + (bytes \<times> bytes) list" where
  "ref_headers ls =
     res_bind (map_result ref_header_line (take MAX_HEADER_COUNT ls)) (\<lambda>hs.
       if length ls > MAX_HEADER_COUNT then Err TooManyHeaders else Ok hs)"

type_synonym head_view = "bytes \<times> bytes \<times> HttpVersion \<times> (bytes \<times> bytes) list"

definition ref_section :: "bytes \<Rightarrow> ParseError + head_view" where
  "ref_section sect =
     res_bind (ref_request_line (hd (split_crlf sect))) (\<lambda>(m, t, v).
     res_bind (ref_headers (tl (split_crlf sect))) (\<lambda>hs. Ok (m, t, v, hs)))"

definition ref_parse :: "bytes \<Rightarrow> ParseError + (head_view \<times> nat) option" where
  "ref_parse buf =
     (case find_sub TERMINATOR buf of
        Some pos \<Rightarrow>
          if pos + 4 > MAX_HEADER_BYTES then Err HeaderSectionTooLarge
          else res_bind (ref_section (take pos buf)) (\<lambda>v. Ok (Some (v, pos + 4)))
      | None \<Rightarrow> if length buf \<ge> MAX_HEADER_BYTES then Err HeaderSectionTooLarge else Ok None)"

definition view :: "RequestHead \<Rightarrow> head_view" where
  "view h = (head_method h, head_target h, rh_version h, headers h)"

fun outcome_view :: "ParseOutcome \<Rightarrow> (head_view \<times> nat) option" where
  "outcome_view HeadIncomplete = None"
| "outcome_view (HeadComplete h n) = Some (view h, n)"

definition map_ok :: "('a \<Rightarrow> 'b) \<Rightarrow> 'e + 'a \<Rightarrow> 'e + 'b" where
  "map_ok f r = res_bind r (\<lambda>x. Ok (f x))"

lemma map_ok_simps [simp]: "map_ok f (Err e) = Err e" "map_ok f (Ok x) = Ok (f x)"
  by (simp_all add: map_ok_def)

lemma map_ok_eq_Ok: "map_ok f r = Ok y \<longleftrightarrow> (\<exists>x. r = Ok x \<and> y = f x)"
  by (cases r) auto

lemma map_ok_bind: "map_ok f (res_bind r g) = res_bind r (\<lambda>x. map_ok f (g x))"
  by (cases r) auto

section \<open>Bytes\<close>

lemma is_tchar_ascii: "is_tchar b \<Longrightarrow> bval b < 128"
  by (auto simp: is_tchar_def ascii_class_defs)

lemma tchars_utf8: "list_all is_tchar s \<Longrightarrow> utf8_valid s"
  by (rule utf8_valid_ascii) (auto simp: list_all_iff dest: is_tchar_ascii)

lemma is_ows_ascii: "is_ows b \<Longrightarrow> bval b < 128"
  by (auto simp: is_ows_def)

section \<open>Ranges that stay inside their text\<close>

text \<open>A range whose two ends touch ASCII bytes or the ends of the text; over valid UTF-8 such a
  range is a legal \<^verbatim>\<open>str\<close> slice.\<close>

definition delim_range :: "bytes \<Rightarrow> range \<Rightarrow> bool" where
  "delim_range s r \<longleftrightarrow> fst r \<le> snd r \<and> snd r \<le> length s \<and>
     (fst r = 0 \<or> bval (s ! (fst r - 1)) < 128) \<and> (snd r = length s \<or> bval (s ! snd r) < 128)"

lemma delim_range_append:
  "a = [] \<or> bval (last a) < 128 \<Longrightarrow> c = [] \<or> bval (hd c) < 128 \<Longrightarrow>
   delim_range (a @ b @ c) (length a, length a + length b)"
  by (cases a rule: rev_cases; cases c) (auto simp: delim_range_def nth_append)

lemma delim_range_slice:
  assumes s: "delim_range s (a, b)" and r: "delim_range (slice s (a, b)) r"
  shows "delim_range s (shift_range r a)" and "slice s (shift_range r a) = slice (slice s (a, b)) r"
proof -
  obtain i j where ij: "r = (i, j)" by force
  have len: "length (slice s (a, b)) = b - a" using s by (auto simp: delim_range_def slice_def)
  have nth: "slice s (a, b) ! k = s ! (a + k)" if "k < b - a" for k
    using that s by (simp add: slice_def delim_range_def)
  have le: "i \<le> j" "j \<le> b - a" "a \<le> b" "b \<le> length s"
    using s r by (simp_all add: delim_range_def ij len)
  show "slice s (shift_range r a) = slice (slice s (a, b)) r"
    using le by (simp add: slice_slice ij shift_range_def len add.commute)
  have "i + a = 0 \<or> bval (s ! (i + a - 1)) < 128"
  proof (cases "i = 0")
    case True with s show ?thesis by (simp add: delim_range_def)
  next
    case False
    with r le have "bval (slice s (a, b) ! (i - 1)) < 128" by (simp add: delim_range_def ij)
    with False le show ?thesis by (simp add: nth add.commute)
  qed
  moreover have "j + a = length s \<or> bval (s ! (j + a)) < 128"
  proof (cases "j = b - a")
    case True with s le show ?thesis by (simp add: delim_range_def)
  next
    case False
    with r le have "bval (slice s (a, b) ! j) < 128" by (simp add: delim_range_def ij len)
    with False le show ?thesis by (simp add: nth add.commute)
  qed
  ultimately show "delim_range s (shift_range r a)"
    using le by (simp add: delim_range_def ij shift_range_def)
qed

lemma delim_range_ok:
  assumes u: "utf8_valid s" and d: "delim_range s r"
  shows "range_ok s r"
proof -
  have ascii: "\<not> is_cont b" if "bval b < 128" for b using that by (simp add: is_cont_def)
  have "is_char_boundary s (fst r)"
  proof (cases "fst r = 0 \<or> fst r = length s")
    case False
    then obtain k where k: "fst r = Suc k" "Suc k < length s"
      using d by (cases "fst r") (auto simp: delim_range_def)
    then have "s = take k s @ s ! k # s ! Suc k # drop (Suc (Suc k)) s"
      by (simp add: Cons_nth_drop_Suc id_take_nth_drop [symmetric])
    moreover have "bval (s ! k) < 128" using d k by (simp add: delim_range_def)
    ultimately have "utf8_valid (s ! Suc k # drop (Suc (Suc k)) s)"
      using u utf8_valid_split_ascii by metis
    then have "\<not> is_cont (s ! fst r)" using utf8_valid_hd k by metis
    with k show ?thesis by (simp add: is_char_boundary_def)
  qed (auto simp: is_char_boundary_def)
  moreover have "is_char_boundary s (snd r)"
    using d ascii by (auto simp: is_char_boundary_def delim_range_def)
  ultimately show ?thesis using d by (simp add: range_ok_def delim_range_def)
qed

section \<open>Splitting into lines and parts\<close>

lemma split_crlf_ne [simp]: "split_crlf s \<noteq> []"
  by (induction s rule: split_crlf.induct) (auto split: list.splits)

lemma split_crlf_None: "find_sub crlf s = None \<Longrightarrow> split_crlf s = [s]"
  by (induction s rule: split_crlf.induct) (auto simp: starts_with_def split: if_splits)

lemma split_crlf_Some:
  "find_sub crlf s = Some i \<Longrightarrow> split_crlf s = take i s # split_crlf (drop (i + 2) s)"
proof (induction s arbitrary: i rule: split_crlf.induct)
  case (3 c d xs)
  show ?case
  proof (cases "c = cr \<and> d = lf")
    case True
    with "3.prems" show ?thesis by (simp add: starts_with_def)
  next
    case False
    with "3.prems" obtain k where "find_sub crlf (d # xs) = Some k" "i = Suc k"
      by (auto simp: starts_with_def simp del: find_sub.simps(2) simp: find_sub.simps(2) [of _ c])
    with 3 False show ?thesis by (simp del: find_sub.simps)
  qed
qed (auto simp: starts_with_def split: if_splits)

context substring_search
begin

lemma crlf_next_None:
  "find_sub crlf (drop start sect) = None \<Longrightarrow> crlf_next memmem sect start = ((start, length sect), None)"
  by (simp add: crlf_next_def find_subslice_eq)

lemma crlf_next_Some:
  "find_sub crlf (drop start sect) = Some i \<Longrightarrow>
   crlf_next memmem sect start = ((start, start + i), Some (start + i + 2))"
  by (simp add: crlf_next_def find_subslice_eq)

lemma crlf_collect_lines:
  assumes "start \<le> length sect"
  shows "map (slice sect) (crlf_collect memmem sect (Some start)) = split_crlf (drop start sect)"
  using assms
proof (induction "length sect - start" arbitrary: start rule: less_induct)
  case less
  show ?case
  proof (cases "find_sub crlf (drop start sect)")
    case None
    then show ?thesis by (simp add: crlf_next_None split_crlf_None slice_def)
  next
    case (Some i)
    then have "i + 2 \<le> length (drop start sect)"
      using find_sub_Some by (fastforce simp: occurs_at_def)
    with less have "map (slice sect) (crlf_collect memmem sect (Some (start + i + 2)))
        = split_crlf (drop (start + i + 2) sect)"
      by simp
    with Some show ?thesis by (simp add: crlf_next_Some split_crlf_Some slice_def add.commute)
  qed
qed

lemma crlf_collect_delim:
  assumes "start \<le> length sect" "start = 0 \<or> bval (sect ! (start - 1)) < 128"
    and "r \<in> set (crlf_collect memmem sect (Some start))"
  shows "delim_range sect r"
  using assms
proof (induction "length sect - start" arbitrary: start rule: less_induct)
  case less
  show ?case
  proof (cases "find_sub crlf (drop start sect)")
    case None
    with less.prems show ?thesis by (simp add: crlf_next_None delim_range_def)
  next
    case (Some i)
    have le: "i + 2 \<le> length (drop start sect)" and tk: "take 2 (drop (start + i) sect) = crlf"
      using find_sub_Some [OF Some] by (auto simp: occurs_at_def add.commute numeral_2_eq_2)
    from tk le have nth: "sect ! (start + i) = cr" "sect ! Suc (start + i) = lf"
      by (auto simp: take_Suc_conv_app_nth numeral_2_eq_2)
    from Some less.prems consider "r = (start, start + i)"
      | "r \<in> set (crlf_collect memmem sect (Some (start + i + 2)))"
      by (auto simp: crlf_next_Some)
    then show ?thesis
    proof cases
      case 1
      with less.prems le nth show ?thesis by (simp add: delim_range_def)
    next
      case 2
      with less.hyps [of "start + i + 2"] less.prems le nth show ?thesis by simp
    qed
  qed
qed

lemma split_by_crlf_lines: "map (slice sect) (split_by_crlf memmem sect) = split_crlf sect"
  using crlf_collect_lines [of 0 sect] by (simp add: split_by_crlf_def)

lemma split_by_crlf_delim: "r \<in> set (split_by_crlf memmem sect) \<Longrightarrow> delim_range sect r"
  using crlf_collect_delim [of 0 sect r] by (simp add: split_by_crlf_def)

end

lemma split_on_position:
  "split_on d xs = (case position (\<lambda>b. b = d) xs of None \<Rightarrow> [xs]
     | Some i \<Rightarrow> take i xs # split_on d (drop (Suc i) xs))"
proof (cases "position (\<lambda>b. b = d) xs")
  case None
  then have "d \<notin> set xs" by (auto simp: position_None_iff)
  with None show ?thesis by simp
next
  case (Some i)
  have "xs ! i = d" using Some by (simp add: position_Some_iff)
  moreover have "d \<notin> set (take i xs)" using position_split(2) [OF Some] by auto
  ultimately have "split_on d (take i xs @ xs ! i # drop (Suc i) xs) = take i xs # split_on d (drop (Suc i) xs)"
    by (simp add: split_on_append_delim)
  with Some position_split(1) [OF Some] show ?thesis by simp
qed

lemma split_once_position:
  "split_once d xs = map_option (\<lambda>i. (take i xs, drop (Suc i) xs)) (position (\<lambda>b. b = d) xs)"
proof (cases "position (\<lambda>b. b = d) xs")
  case None
  then have "split_once d xs = None" by (auto simp: position_None_iff split_once_None_iff)
  with None show ?thesis by simp
next
  case (Some i)
  then have "xs ! i = d" by (simp add: position_Some_iff)
  with position_split [OF Some] have "split_once d xs = Some (take i xs, drop (Suc i) xs)"
    unfolding split_once_Some_iff by auto
  with Some show ?thesis by simp
qed

lemma sp_collect_parts:
  assumes "start \<le> length line"
  shows "map snd (sp_collect line (Some start)) = split_on CHR '' '' (drop start line)"
  using assms
proof (induction "length line - start" arbitrary: start rule: less_induct)
  case less
  show ?case
  proof (cases "position (\<lambda>b. b = CHR '' '') (drop start line)")
    case None
    then show ?thesis by (simp add: sp_next_def split_on_position [of _ "drop start line"])
  next
    case (Some i)
    then have "i < length (drop start line)" by (simp add: position_Some_iff)
    with less have "map snd (sp_collect line (Some (start + i + 1)))
        = split_on CHR '' '' (drop (start + i + 1) line)"
      by simp
    with Some show ?thesis
      by (simp add: sp_next_def split_on_position [of _ "drop start line"] slice_def add.commute)
  qed
qed

lemma sp_collect_delim:
  assumes "start \<le> length line" "start = 0 \<or> bval (line ! (start - 1)) < 128"
    and "(k, seg) \<in> set (sp_collect line (Some start))"
  shows "delim_range line (k, k + length seg) \<and> slice line (k, k + length seg) = seg"
  using assms
proof (induction "length line - start" arbitrary: start rule: less_induct)
  case less
  show ?case
  proof (cases "position (\<lambda>b. b = CHR '' '') (drop start line)")
    case None
    with less.prems show ?thesis by (auto simp: sp_next_def delim_range_def slice_def)
  next
    case (Some i)
    then have le: "start + i < length line" and nth: "line ! (start + i) = CHR '' ''"
      by (auto simp: position_Some_iff)
    from Some less.prems consider "k = start" "seg = slice line (start, start + i)"
      | "(k, seg) \<in> set (sp_collect line (Some (start + i + 1)))"
      by (auto simp: sp_next_def)
    then show ?thesis
    proof cases
      case 1
      with less.prems le nth show ?thesis by (simp add: delim_range_def slice_def)
    next
      case 2
      with less.hyps [of "start + i + 1"] less.prems le nth show ?thesis by simp
    qed
  qed
qed

lemma split_by_sp_parts: "map snd (split_by_sp_with_offset line) = split_on CHR '' '' line"
  using sp_collect_parts [of 0 line] by (simp add: split_by_sp_with_offset_def)

lemma split_by_sp_delim:
  "(k, seg) \<in> set (split_by_sp_with_offset line) \<Longrightarrow>
   delim_range line (k, k + length seg) \<and> slice line (k, k + length seg) = seg"
  using sp_collect_delim [of 0 line k seg] by (simp add: split_by_sp_with_offset_def)

section \<open>The request line\<close>

lemma iter_next_def2: "iter_next xs = (case xs of [] \<Rightarrow> (None, []) | x # xs \<Rightarrow> (Some x, xs))"
  by (cases xs) auto

lemma parse_request_line_parts:
  "parse_request_line line =
     (if list_ex (\<lambda>b. is_forbidden_ctl b False) line then Err InvalidRequestLine
      else case split_by_sp_with_offset line of
        [(i, m), (j, t), (_, v)] \<Rightarrow>
          if m = [] \<or> t = [] \<or> v = [] \<or> \<not> list_all is_tchar m then Err InvalidRequestLine
          else res_bind (parse_version v) (\<lambda>version.
            if utf8_valid t then Ok ((i, i + length m), (j, j + length t), version)
            else Err InvalidRequestLine)
      | _ \<Rightarrow> Err InvalidRequestLine)"
  by (auto simp: parse_request_line_def iter_next_def2 opt_filter_def tchars_utf8
      split: list.splits prod.splits intro!: arg_cong [where f = "res_bind _"])

definition line_view :: "bytes \<Rightarrow> range \<times> range \<times> HttpVersion \<Rightarrow> bytes \<times> bytes \<times> HttpVersion" where
  "line_view line = (\<lambda>(m, t, v). (slice line m, slice line t, v))"

lemma parse_request_line_ref: "map_ok (line_view line) (parse_request_line line) = ref_request_line line"
proof -
  consider i m j t k v where "split_by_sp_with_offset line = [(i, m), (j, t), (k, v)]"
    | "length (split_by_sp_with_offset line) \<noteq> 3"
    by (cases "split_by_sp_with_offset line"; cases "tl (split_by_sp_with_offset line)";
        cases "tl (tl (split_by_sp_with_offset line))"; cases "tl (tl (tl (split_by_sp_with_offset line)))") auto
  then show ?thesis
  proof cases
    case 1
    moreover have "slice line (i, i + length m) = m" "slice line (j, j + length t) = t"
      using split_by_sp_delim [of i m line] split_by_sp_delim [of j t line] 1 by auto
    moreover have "split_on CHR '' '' line = [m, t, v]"
      using 1 by (simp flip: split_by_sp_parts)
    ultimately show ?thesis
      by (cases "utf8_valid t")
        (simp_all add: parse_request_line_parts ref_request_line_def line_view_def map_ok_bind)
  next
    case 2
    then have "length (split_on CHR '' '' line) \<noteq> 3"
      by (metis length_map split_by_sp_parts)
    with 2 show ?thesis
      by (auto simp: parse_request_line_parts ref_request_line_def split: list.splits)
  qed
qed

lemma parse_request_line_delim:
  assumes "parse_request_line line = Ok (m, t, v)"
  shows "delim_range line m" "delim_range line t"
  using assms split_by_sp_delim [of _ _ line]
  by (auto simp: parse_request_line_parts res_bind_eq_Ok split: if_splits list.splits)

section \<open>A header line\<close>

lemma trim_ows_range_eq:
  assumes "bs = a @ val @ b" "\<forall>x\<in>set a. is_ows x" "\<forall>x\<in>set b. is_ows x"
    and "val \<noteq> [] \<Longrightarrow> \<not> is_ows (hd val) \<and> \<not> is_ows (last val)"
    and "val = [] \<Longrightarrow> b = []"
  shows "trim_ows_range bs = (length a, length a + length val)"
proof (cases "val = []")
  case True
  with assms have "\<forall>x\<in>set bs. is_ows x" "bs = a" by auto
  then have "position (\<lambda>b. \<not> is_ows b) bs = None" "rposition (\<lambda>b. \<not> is_ows b) bs = None"
    by (auto simp: rposition_def position_None_iff)
  with True \<open>bs = a\<close> show ?thesis by (simp add: trim_ows_range_def Let_def)
next
  case False
  then obtain x v where x: "val = x # v" by (cases val) auto
  from False obtain y w where y: "val = w @ [y]" by (cases val rule: rev_cases) auto
  have "position (\<lambda>b. \<not> is_ows b) bs = Some (length a)"
    using assms(1,2,4) x position_append_mid [of a "\<lambda>b. \<not> is_ows b" x "v @ b"] by simp
  moreover have "position (\<lambda>b. \<not> is_ows b) (rev bs) = Some (length b)"
    using assms(1,3,4) y position_append_mid [of "rev b" "\<lambda>b. \<not> is_ows b" y "rev w @ rev a"] by simp
  ultimately show ?thesis
    using assms(1) y by (simp add: trim_ows_range_def rposition_def)
qed

lemma trim_ows_decomp:
  obtains a b where "bs = a @ trim_matches is_ows bs @ b"
    and "trim_ows_range bs = (length a, length a + length (trim_matches is_ows bs))"
    and "\<forall>x\<in>set a. is_ows x" "\<forall>x\<in>set b. is_ows x"
proof -
  obtain a b where ab: "bs = a @ trim_matches is_ows bs @ b" "\<forall>x\<in>set a. is_ows x" "\<forall>x\<in>set b. is_ows x"
    using trim_matches_decomp [of bs is_ows] by blast
  show thesis
  proof (cases "trim_matches is_ows bs = []")
    case True
    with ab have "\<forall>x\<in>set bs. is_ows x" by (metis Un_iff append_Nil set_append)
    with True trim_ows_range_eq [of bs bs "[]" "[]"] that [of bs "[]"] show thesis by simp
  next
    case False
    with ab have "trim_ows_range bs = (length a, length a + length (trim_matches is_ows bs))"
      by (intro trim_ows_range_eq [where b = b]) (auto simp: trim_matches_hd trim_matches_last)
    with ab that show thesis by blast
  qed
qed

definition pair_view :: "bytes \<Rightarrow> range \<times> range \<Rightarrow> bytes \<times> bytes" where
  "pair_view s = (\<lambda>(k, v). (slice s k, slice s v))"

lemma parse_header_line_parts:
  assumes "position (\<lambda>b. b = CHR '':'') line = Some c"
  obtains a b where "line = take c line @ CHR '':'' # a @ trim_matches is_ows (drop (Suc c) line) @ b"
    and "trim_ows_range (drop (Suc c) line) =
      (length a, length a + length (trim_matches is_ows (drop (Suc c) line)))"
    and "\<forall>x\<in>set a. is_ows x" "\<forall>x\<in>set b. is_ows x" "length (take c line) = c"
proof -
  obtain a b where ab: "drop (Suc c) line = a @ trim_matches is_ows (drop (Suc c) line) @ b"
    and *: "trim_ows_range (drop (Suc c) line) =
      (length a, length a + length (trim_matches is_ows (drop (Suc c) line)))"
    "\<forall>x\<in>set a. is_ows x" "\<forall>x\<in>set b. is_ows x"
    by (rule trim_ows_decomp)
  have c: "line ! c = CHR '':''" "c < length line" using assms by (simp_all add: position_Some_iff)
  have "line = take c line @ CHR '':'' # a @ trim_matches is_ows (drop (Suc c) line) @ b"
    using position_split(1) [OF assms] ab c by metis
  then show thesis using that * c by simp
qed

lemma parse_header_line_spec:
  assumes "position (\<lambda>b. b = CHR '':'') line = Some c"
  shows "map_ok (pair_view line) (parse_header_line line) = ref_header_line line"
    and "parse_header_line line = Ok (n, v) \<Longrightarrow> delim_range line n \<and> delim_range line v"
proof -
  define val where "val = trim_matches is_ows (drop (Suc c) line)"
  obtain a b where line: "line = take c line @ CHR '':'' # a @ val @ b"
    and tr: "trim_ows_range (drop (Suc c) line) = (length a, length a + length val)"
    and ows: "\<forall>x\<in>set a. is_ows x" "\<forall>x\<in>set b. is_ows x" and c: "length (take c line) = c"
    using parse_header_line_parts [OF assms] unfolding val_def by metis
  have d1: "delim_range line (0, c)"
    using delim_range_append [of "[]" "CHR '':'' # a @ val @ b" "take c line"] line c by simp
  have "delim_range ((take c line @ CHR '':'' # a) @ val @ b)
      (length (take c line @ CHR '':'' # a), length (take c line @ CHR '':'' # a) + length val)"
    using ows by (intro delim_range_append) (cases b; auto simp: is_ows_ascii)+
  then have d2: "delim_range line (Suc (c + length a), Suc (c + (length a + length val)))"
    using line c by (simp add: add.assoc)
  have s1: "slice line (0, c) = take c line" by (simp add: slice_def)
  have "slice ((take c line @ CHR '':'' # a) @ val @ b)
      (length (take c line @ CHR '':'' # a), length (take c line @ CHR '':'' # a) + length val) = val"
    by (rule slice_append_mid)
  then have s2: "slice line (Suc (c + length a), Suc (c + (length a + length val))) = val"
    using line c by (simp add: add.assoc)
  have "drop (Suc c) line = a @ val @ b" using line c by (metis append_eq_conv_conj drop_Suc_Cons
        append_Cons list.sel(3) tl_drop drop_Suc)
  then have s3: "slice (drop (Suc c) line) (length a, length a + length val) = val"
    by (simp add: slice_append_mid)
  note eval = parse_header_line_def assms tr s3 Let_def
  show "map_ok (pair_view line) (parse_header_line line) = ref_header_line line"
    by (simp add: eval ref_header_line_def split_once_position pair_view_def s1 s2 tchars_utf8
        flip: val_def)
  show "parse_header_line line = Ok (n, v) \<Longrightarrow> delim_range line n \<and> delim_range line v"
    using d1 d2 by (auto simp: eval split: if_splits)
qed

lemma parse_header_line_no_colon:
  "position (\<lambda>b. b = CHR '':'') line = None \<Longrightarrow>
   parse_header_line line = Err InvalidHeader \<and> ref_header_line line = Err InvalidHeader"
  by (simp add: parse_header_line_def ref_header_line_def split_once_position)

lemma parse_header_line_ref: "map_ok (pair_view line) (parse_header_line line) = ref_header_line line"
  by (cases "position (\<lambda>b. b = CHR '':'') line")
    (simp_all add: parse_header_line_no_colon parse_header_line_spec)

lemma parse_header_line_delim:
  "parse_header_line line = Ok (n, v) \<Longrightarrow> delim_range line n \<and> delim_range line v"
  by (cases "position (\<lambda>b. b = CHR '':'') line")
    (auto simp: parse_header_line_no_colon dest: parse_header_line_spec(2))

section \<open>The header section\<close>

lemma pair_view_shift:
  assumes "delim_range s (a, b)" "delim_range (slice s (a, b)) n" "delim_range (slice s (a, b)) v"
  shows "pair_view s (shift_range n a, shift_range v a) = pair_view (slice s (a, b)) (n, v)"
  using assms by (simp add: pair_view_def delim_range_slice)

lemma header_loop_ref:
  assumes "list_all (delim_range s) ls" "length hs \<le> MAX_HEADER_COUNT"
  shows "map_ok (map (pair_view s)) (header_loop s ls hs) =
    res_bind (map_result ref_header_line (take (MAX_HEADER_COUNT - length hs) (map (slice s) ls)))
      (\<lambda>vs. if length ls > MAX_HEADER_COUNT - length hs then Err TooManyHeaders
            else Ok (map (pair_view s) hs @ vs))"
  using assms
proof (induction ls arbitrary: hs)
  case (Cons l ls)
  obtain a b where l: "l = (a, b)" by force
  show ?case
  proof (cases "length hs \<ge> MAX_HEADER_COUNT")
    case False
    then have tk: "take (MAX_HEADER_COUNT - length hs) (x # xs) =
      x # take (MAX_HEADER_COUNT - Suc (length hs)) xs" for x :: bytes and xs
      by (simp add: Suc_diff_Suc [symmetric])
    show ?thesis
    proof (cases "parse_header_line (slice s l)")
      case (Inl e)
      then have "ref_header_line (slice s l) = Err e"
        using parse_header_line_ref [of "slice s l"] by simp
      with False Inl show ?thesis by (simp add: tk)
    next
      case (Inr p)
      obtain n v where p: "p = (n, v)" by (cases p)
      define q where "q = (shift_range n a, shift_range v a)"
      have "delim_range (slice s l) n" "delim_range (slice s l) v"
        using parse_header_line_delim Inr p by blast+
      then have q: "pair_view s q = pair_view (slice s l) p"
        using Cons.prems by (simp add: q_def l p pair_view_shift)
      have ref: "ref_header_line (slice s l) = Ok (pair_view (slice s l) p)"
        using parse_header_line_ref [of "slice s l"] Inr by simp
      have "map_ok (map (pair_view s)) (header_loop s (l # ls) hs) =
          map_ok (map (pair_view s)) (header_loop s ls (hs @ [q]))"
        using False Inr by (simp add: p q_def l)
      with Cons.IH [of "hs @ [q]"] Cons.prems False show ?thesis
        by (cases "map_result ref_header_line (take (MAX_HEADER_COUNT - Suc (length hs)) (map (slice s) ls))")
          (auto simp: tk ref q simp del: header_loop.simps)
    qed
  qed simp
qed simp

lemma header_loop_delim:
  assumes "header_loop s ls hs = Ok hs'" "list_all (delim_range s) ls"
    "list_all (\<lambda>(k, v). delim_range s k \<and> delim_range s v) hs"
  shows "list_all (\<lambda>(k, v). delim_range s k \<and> delim_range s v) hs'"
  using assms
proof (induction ls arbitrary: hs)
  case (Cons l ls)
  obtain a b where l: "l = (a, b)" by force
  from Cons.prems obtain n v where nv: "parse_header_line (slice s l) = Ok (n, v)"
    "header_loop s ls (hs @ [(shift_range n a, shift_range v a)]) = Ok hs'"
    by (auto simp: res_bind_eq_Ok l split: if_splits)
  then have "delim_range s (shift_range n a) \<and> delim_range s (shift_range v a)"
    using parse_header_line_delim [OF nv(1)] Cons.prems(2) by (auto simp: l intro: delim_range_slice(1))
  with Cons nv show ?case by simp
qed simp

section \<open>The whole-section UTF-8 check cannot fail\<close>

lemma join_split_crlf: "join crlf (split_crlf s) = s"
  by (induction s rule: split_crlf.induct) (auto simp: join_Cons split: list.splits)

lemma utf8_join_crlf: "(\<And>l. l \<in> set ls \<Longrightarrow> utf8_valid l) \<Longrightarrow> utf8_valid (join crlf ls)"
  by (induction crlf ls rule: join.induct) (simp_all add: utf8_valid_append)

lemma parse_version_shape:
  assumes "parse_version v = Ok x"
  shows "v = ''HTTP/'' @ (case x of Http11 \<Rightarrow> ''1.1'' | Http10 \<Rightarrow> ''1.0'')"
proof -
  from assms have "starts_with ''HTTP/'' v"
    by (auto simp: parse_version_def split: if_splits)
  then obtain r where "v = ''HTTP/'' @ r" by (auto simp: starts_with_iff)
  with assms show ?thesis by (auto simp: parse_version_def Let_def split: if_splits)
qed

lemma ref_request_line_shape:
  assumes "ref_request_line line = Ok (m, t, v)"
  shows "line = m @ CHR '' '' # t @ CHR '' '' # ''HTTP/'' @ (case v of Http11 \<Rightarrow> ''1.1'' | Http10 \<Rightarrow> ''1.0'')"
    and "m \<noteq> []" "list_all is_tchar m" "t \<noteq> []" "CHR '' '' \<notin> set t"
    and "list_all (\<lambda>b. \<not> is_forbidden_ctl b False) line" "utf8_valid t"
proof -
  obtain w where w: "split_on CHR '' '' line = [m, t, w]" "parse_version w = Ok v"
    and *: "m \<noteq> []" "list_all is_tchar m" "t \<noteq> []" "utf8_valid t"
      "\<not> list_ex (\<lambda>b. is_forbidden_ctl b False) line"
    using assms by (auto simp: ref_request_line_def res_bind_eq_Ok split: if_splits list.splits)
  show "m \<noteq> []" "list_all is_tchar m" "t \<noteq> []" "utf8_valid t"
    "list_all (\<lambda>b. \<not> is_forbidden_ctl b False) line"
    using * by (simp_all add: list_ex_iff list_all_iff)
  show "CHR '' '' \<notin> set t" using w(1) split_on_pieces [of t "CHR '' ''" line] by simp
  have "line = m @ CHR '' '' # t @ CHR '' '' # w"
    using w(1) join_split_on [of "CHR '' ''" line] by simp
  with parse_version_shape [OF w(2)]
  show "line = m @ CHR '' '' # t @ CHR '' '' # ''HTTP/'' @ (case v of Http11 \<Rightarrow> ''1.1'' | Http10 \<Rightarrow> ''1.0'')"
    by simp
qed

lemma ref_request_line_utf8: "ref_request_line line = Ok x \<Longrightarrow> utf8_valid line"
proof -
  assume ok: "ref_request_line line = Ok x"
  obtain m t v where x: "x = (m, t, v)" by (cases x) auto
  note sh = ref_request_line_shape [OF ok [unfolded x]]
  have "utf8_valid (t @ CHR '' '' # ''HTTP/'' @ (case v of Http11 \<Rightarrow> ''1.1'' | Http10 \<Rightarrow> ''1.0''))"
    using sh(7) by (cases v) (simp_all add: utf8_valid_append)
  then show ?thesis
    unfolding sh(1) using tchars_utf8 [OF sh(3)] by (simp add: utf8_valid_append)
qed

lemma ref_header_line_shape:
  assumes "ref_header_line line = Ok (n, v)"
  shows "\<exists>a b. line = n @ CHR '':'' # a @ v @ b \<and> (\<forall>x\<in>set a. is_ows x) \<and> (\<forall>x\<in>set b. is_ows x)"
    and "n \<noteq> []" "list_all is_tchar n" "list_all (\<lambda>b. \<not> is_forbidden_ctl b True) v" "utf8_valid v"
    and "v \<noteq> [] \<Longrightarrow> \<not> is_ows (hd v) \<and> \<not> is_ows (last v)"
proof -
  obtain raw where raw: "split_once CHR '':'' line = Some (n, raw)" "v = trim_matches is_ows raw"
    and *: "n \<noteq> []" "list_all is_tchar n" "\<not> list_ex (\<lambda>b. is_forbidden_ctl b True) v" "utf8_valid v"
    using assms by (auto simp: ref_header_line_def Let_def split: if_splits option.splits)
  show "n \<noteq> []" "list_all is_tchar n" "list_all (\<lambda>b. \<not> is_forbidden_ctl b True) v" "utf8_valid v"
    using * by (simp_all add: list_ex_iff list_all_iff)
  show "\<exists>a b. line = n @ CHR '':'' # a @ v @ b \<and> (\<forall>x\<in>set a. is_ows x) \<and> (\<forall>x\<in>set b. is_ows x)"
    using raw trim_matches_decomp [of raw is_ows] by (auto simp: split_once_Some_iff)
  show "v \<noteq> [] \<Longrightarrow> \<not> is_ows (hd v) \<and> \<not> is_ows (last v)"
    using raw(2) by (simp add: trim_matches_hd trim_matches_last)
qed

lemma ref_header_line_utf8: "ref_header_line line = Ok x \<Longrightarrow> utf8_valid line"
proof -
  assume ok: "ref_header_line line = Ok x"
  obtain n v where x: "x = (n, v)" by (cases x)
  note sh = ref_header_line_shape [OF ok [unfolded x]]
  obtain a b where ab: "line = n @ CHR '':'' # a @ v @ b" "\<forall>x\<in>set a. is_ows x" "\<forall>x\<in>set b. is_ows x"
    using sh(1) by blast
  have "utf8_valid a" "utf8_valid b"
    using ab(2,3) by (auto intro!: utf8_valid_ascii dest: is_ows_ascii)
  with sh(5) tchars_utf8 [OF sh(3)] show ?thesis
    unfolding ab(1) by (simp add: utf8_valid_append)
qed

lemma ref_headers_Ok: "ref_headers ls = Ok hs \<longleftrightarrow>
    length ls \<le> MAX_HEADER_COUNT \<and> list_all2 (\<lambda>l h. ref_header_line l = Ok h) ls hs"
  by (auto simp: ref_headers_def res_bind_eq_Ok map_result_Ok_iff)

lemma ref_section_utf8: "ref_section sect = Ok x \<Longrightarrow> utf8_valid sect"
proof -
  assume ok: "ref_section sect = Ok x"
  then obtain y hs where y: "ref_request_line (hd (split_crlf sect)) = Ok y"
    and hs: "ref_headers (tl (split_crlf sect)) = Ok hs"
    by (auto simp: ref_section_def res_bind_eq_Ok)
  have "utf8_valid l" if "l \<in> set (split_crlf sect)" for l
  proof -
    from that have "l = hd (split_crlf sect) \<or> l \<in> set (tl (split_crlf sect))"
      by (cases "split_crlf sect") auto
    then show ?thesis
      using ref_request_line_utf8 [OF y] hs
      by (auto simp: ref_headers_Ok dest: list_all2_set1 ref_header_line_utf8)
  qed
  then show ?thesis using utf8_join_crlf [of "split_crlf sect"] by (simp add: join_split_crlf)
qed

section \<open>Refinement\<close>

lemma length_TERMINATOR [simp]: "length TERMINATOR = 4" and TERMINATOR_ne [simp]: "TERMINATOR \<noteq> []"
  by (simp_all add: TERMINATOR_def)

context substring_search
begin

lemma parse_section_lines:
  obtains l ls where "split_by_crlf memmem sect = l # ls" "slice sect l = hd (split_crlf sect)"
    "map (slice sect) ls = tl (split_crlf sect)" "list_all (delim_range sect) (l # ls)"
proof -
  obtain l ls where l: "split_by_crlf memmem sect = l # ls"
    using split_by_crlf_lines [of sect] split_crlf_ne [of sect]
    by (cases "split_by_crlf memmem sect") (auto simp del: split_crlf_ne)
  then have "slice sect l # map (slice sect) ls = split_crlf sect"
    using split_by_crlf_lines [of sect] by simp
  then have "slice sect l = hd (split_crlf sect)" "map (slice sect) ls = tl (split_crlf sect)"
    by (metis list.sel(1), metis list.sel(3))
  moreover have "list_all (delim_range sect) (l # ls)"
    using split_by_crlf_delim [of _ sect] by (simp add: l list_all_iff)
  ultimately show thesis using that l by blast
qed

lemma parse_section_ref: "map_ok view (parse_section memmem sect) = ref_section sect"
proof (rule parse_section_lines [of sect])
  fix l ls
  assume l: "split_by_crlf memmem sect = l # ls" "slice sect l = hd (split_crlf sect)"
    "map (slice sect) ls = tl (split_crlf sect)" "list_all (delim_range sect) (l # ls)"
  note rl = parse_request_line_ref [of "slice sect l"]
  have hl: "map_ok (map (pair_view sect)) (header_loop sect ls []) = ref_headers (tl (split_crlf sect))"
    using header_loop_ref [of sect ls "[]"] l(4) unfolding l(3) [symmetric]
    by (simp add: ref_headers_def cong: if_cong)
  show ?thesis
  proof (cases "parse_request_line (slice sect l)")
    case (Inl e)
    with rl [symmetric] show ?thesis by (simp add: parse_section_def ref_section_def l(1) flip: l(2))
  next
    case (Inr x)
    obtain m t v where x: "x = (m, t, v)" by (cases x) auto
    have d: "delim_range (slice sect l) m" "delim_range (slice sect l) t"
      using parse_request_line_delim Inr x by auto
    have sl: "slice sect (shift_range m (fst l)) = slice (slice sect l) m"
      "slice sect (shift_range t (fst l)) = slice (slice sect l) t"
      using delim_range_slice(2) [of sect "fst l" "snd l"] d l(4) by simp_all
    show ?thesis
    proof (cases "header_loop sect ls []")
      case (Inl e)
      with hl [symmetric] rl [symmetric] Inr x show ?thesis
        by (simp add: parse_section_def ref_section_def l(1) line_view_def flip: l(2))
    next
      case hs: (Inr hs)
      have ref: "ref_section sect = Ok (slice (slice sect l) m, slice (slice sect l) t, v, map (pair_view sect) hs)"
        using hl [symmetric] rl [symmetric] Inr x hs by (simp add: ref_section_def line_view_def flip: l(2))
      then have "utf8_valid sect" by (rule ref_section_utf8)
      with Inr x hs sl show ?thesis
        by (simp add: ref parse_section_def l(1) view_def head_method_def head_target_def headers_def
            pair_view_def)
    qed
  qed
qed

lemma parse_section_delim:
  assumes "parse_section memmem sect = Ok h"
  shows "rh_buf h = sect" "delim_range sect (rh_method h)" "delim_range sect (rh_target h)"
    "list_all (\<lambda>(k, v). delim_range sect k \<and> delim_range sect v) (rh_headers h)"
    "rh_extensions h = extensions_new" "utf8_valid sect"
proof -
  obtain l ls where l: "split_by_crlf memmem sect = l # ls" "list_all (delim_range sect) (l # ls)"
    by (rule parse_section_lines)
  obtain m t v hs where *: "parse_request_line (slice sect l) = Ok (m, t, v)"
    "header_loop sect ls [] = Ok hs" "utf8_valid sect"
    "h = \<lparr>rh_buf = sect, rh_method = shift_range m (fst l), rh_target = shift_range t (fst l),
          rh_version = v, rh_headers = hs, rh_extensions = extensions_new\<rparr>"
    using assms by (auto simp: parse_section_def l(1) res_bind_eq_Ok split: if_splits)
  show "rh_buf h = sect" "rh_extensions h = extensions_new" "utf8_valid sect" using * by simp_all
  show "delim_range sect (rh_method h)" "delim_range sect (rh_target h)"
    using delim_range_slice(1) [of sect "fst l" "snd l"] parse_request_line_delim [OF *(1)] l(2) *(4)
    by simp_all
  show "list_all (\<lambda>(k, v). delim_range sect k \<and> delim_range sect v) (rh_headers h)"
    using header_loop_delim [OF *(2)] l(2) *(4) by simp
qed

lemma parse_request_head_ref: "map_ok outcome_view (parse_request_head memmem buf) = ref_parse buf"
proof -
  have "find_subslice memmem buf TERMINATOR = find_sub TERMINATOR buf"
    by (rule find_subslice_eq) simp
  moreover have "map_ok outcome_view (res_bind (parse_section memmem s) (\<lambda>h. Ok (HeadComplete h n)))
      = res_bind (ref_section s) (\<lambda>v. Ok (Some (v, n)))" for s n
    by (cases "parse_section memmem s") (simp_all add: parse_section_ref [symmetric])
  ultimately show ?thesis
    by (simp add: parse_request_head_def ref_parse_def split: option.split)
qed

lemma parse_request_head_section:
  assumes "parse_request_head memmem buf = Ok (HeadComplete h n)"
  shows "parse_section memmem (rh_buf h) = Ok h" "n \<le> MAX_HEADER_BYTES"
    "\<exists>rest. buf = rh_buf h @ TERMINATOR @ rest" "n = length (rh_buf h) + 4"
    "ref_section (rh_buf h) = Ok (view h)"
proof -
  obtain pos where pos: "find_sub TERMINATOR buf = Some pos" "pos + 4 \<le> MAX_HEADER_BYTES"
    "parse_section memmem (take pos buf) = Ok h" "n = pos + 4"
    using assms find_subslice_eq [of TERMINATOR buf]
    by (auto simp: parse_request_head_def res_bind_eq_Ok split: option.splits if_splits)
  then have b: "rh_buf h = take pos buf" using parse_section_delim(1) by blast
  have occ: "pos + 4 \<le> length buf" "take 4 (drop pos buf) = TERMINATOR"
    using find_sub_Some [OF pos(1)] by (simp_all add: occurs_at_def)
  show "parse_section memmem (rh_buf h) = Ok h" "n \<le> MAX_HEADER_BYTES" "n = length (rh_buf h) + 4"
    using pos b occ by simp_all
  then show "ref_section (rh_buf h) = Ok (view h)"
    using parse_section_ref [of "rh_buf h"] by simp
  have "buf = take pos buf @ take 4 (drop pos buf) @ drop 4 (drop pos buf)"
    by (simp only: append_take_drop_id)
  then show "\<exists>rest. buf = rh_buf h @ TERMINATOR @ rest" using b occ by metis
qed

end

section \<open>Heads that are well formed\<close>

definition header_wf :: "bytes \<times> bytes \<Rightarrow> bool" where
  "header_wf = (\<lambda>(n, v). n \<noteq> [] \<and> list_all is_tchar n \<and> list_all (\<lambda>b. \<not> is_forbidden_ctl b True) v \<and>
     utf8_valid v \<and> (v \<noteq> [] \<longrightarrow> \<not> is_ows (hd v) \<and> \<not> is_ows (last v)))"

definition view_wf :: "head_view \<Rightarrow> bool" where
  "view_wf = (\<lambda>(m, t, v, hs). m \<noteq> [] \<and> list_all is_tchar m \<and> t \<noteq> [] \<and> CHR '' '' \<notin> set t \<and>
     list_all (\<lambda>b. \<not> is_forbidden_ctl b False) t \<and> utf8_valid t \<and>
     length hs \<le> MAX_HEADER_COUNT \<and> list_all header_wf hs)"

definition head_wf :: "RequestHead \<Rightarrow> bool" where
  "head_wf h \<longleftrightarrow> utf8_valid (rh_buf h) \<and> range_ok (rh_buf h) (rh_method h) \<and>
     range_ok (rh_buf h) (rh_target h) \<and>
     list_all (\<lambda>(k, v). range_ok (rh_buf h) k \<and> range_ok (rh_buf h) v) (rh_headers h) \<and>
     view_wf (view h)"

lemma ref_section_wf: "ref_section sect = Ok x \<Longrightarrow> view_wf x"
proof -
  assume ok: "ref_section sect = Ok x"
  obtain m t v hs where x: "x = (m, t, v, hs)" by (cases x) auto
  have l: "ref_request_line (hd (split_crlf sect)) = Ok (m, t, v)"
    and hs: "ref_headers (tl (split_crlf sect)) = Ok hs"
    using ok by (auto simp: ref_section_def x res_bind_eq_Ok)
  have "list_all header_wf hs"
    unfolding list_all_iff
  proof
    fix h assume "h \<in> set hs"
    then obtain l where "ref_header_line l = Ok h"
      using hs by (auto simp: ref_headers_Ok dest: list_all2_set2)
    then show "header_wf h"
      using ref_header_line_shape by (cases h) (auto simp: header_wf_def)
  qed
  moreover have "list_all (\<lambda>b. \<not> is_forbidden_ctl b False) t"
    using ref_request_line_shape(6) [OF l] unfolding ref_request_line_shape(1) [OF l] by simp
  ultimately show ?thesis
    using ref_request_line_shape [OF l] hs list_all2_lengthD [of _ "tl (split_crlf sect)" hs]
    by (auto simp: view_wf_def x ref_headers_Ok)
qed

context substring_search
begin

lemma parse_request_head_wf: "parse_request_head memmem buf = Ok (HeadComplete h n) \<Longrightarrow> head_wf h"
proof -
  assume ok: "parse_request_head memmem buf = Ok (HeadComplete h n)"
  note sec = parse_request_head_section [OF ok] and d = parse_section_delim [OF parse_request_head_section(1) [OF ok]]
  have "list_all (\<lambda>(k, v). range_ok (rh_buf h) k \<and> range_ok (rh_buf h) v) (rh_headers h)"
    using d(4) delim_range_ok [OF d(6)] by (fastforce simp: list_all_iff)
  then show ?thesis
    using d delim_range_ok [OF d(6)] ref_section_wf [OF sec(5)] by (simp add: head_wf_def)
qed

lemma parse_decided:
  assumes "parse_request_head memmem buf = r" "r \<noteq> Ok HeadIncomplete"
  shows "parse_request_head memmem (buf @ extra) = r"
proof (cases "find_sub TERMINATOR buf")
  case (Some pos)
  have "pos + 4 \<le> length buf" using find_sub_Some [OF Some] by (simp add: occurs_at_def)
  then have "take pos (buf @ extra) = take pos buf" by simp
  with assms(1) Some find_sub_append_Some [OF Some] show ?thesis
    by (simp add: parse_request_head_def find_subslice_eq del: take_append cong: if_cong)
next
  case None
  with assms have big: "length buf \<ge> MAX_HEADER_BYTES" and r: "r = Err HeaderSectionTooLarge"
    by (auto simp: parse_request_head_def find_subslice_eq split: if_splits)
  have "\<not> pos + 4 \<le> MAX_HEADER_BYTES" if "find_sub TERMINATOR (buf @ extra) = Some pos" for pos
  proof
    assume "pos + 4 \<le> MAX_HEADER_BYTES"
    with big find_sub_Some [OF that] have "occurs_at TERMINATOR buf pos"
      by (simp add: occurs_at_def)
    with find_sub_None [OF None] show False by blast
  qed
  with big r show ?thesis
    by (auto simp: parse_request_head_def find_subslice_eq split: option.split)
qed

end

section \<open>Rendering a head\<close>

definition version_text :: "HttpVersion \<Rightarrow> bytes" where
  "version_text v = ''HTTP/'' @ (case v of Http11 \<Rightarrow> ''1.1'' | Http10 \<Rightarrow> ''1.0'')"

definition head_lines :: "head_view \<Rightarrow> bytes list" where
  "head_lines = (\<lambda>(m, t, v, hs).
     (m @ CHR '' '' # t @ CHR '' '' # version_text v) # map (\<lambda>(n, w). n @ '': '' @ w) hs)"

definition render_head :: "head_view \<Rightarrow> bytes" where
  "render_head x = concat (map (\<lambda>l. l @ crlf) (head_lines x)) @ crlf"

lemma render_head_join: "render_head x = join crlf (head_lines x) @ TERMINATOR"
proof -
  have "concat (map (\<lambda>l. l @ crlf) ls) = join crlf ls @ crlf" if "ls \<noteq> []" for ls
    using that by (induction crlf ls rule: join.induct) auto
  moreover have "head_lines x \<noteq> []" by (cases x) (simp add: head_lines_def)
  ultimately show ?thesis by (simp add: render_head_def TERMINATOR_def)
qed

lemma split_crlf_append: "cr \<notin> set l \<Longrightarrow> split_crlf (l @ cr # lf # s) = l # split_crlf s"
proof -
  assume l: "cr \<notin> set l"
  then have "find_sub crlf (l @ cr # lf # s) = Some (length l)"
    by (simp add: find_sub_skip starts_with_def)
  from split_crlf_Some [OF this] show ?thesis by simp
qed

lemma split_crlf_no_cr: "cr \<notin> set l \<Longrightarrow> split_crlf l = [l]"
  using find_sub_skip [of crlf l "[]"] by (simp add: split_crlf_None)

lemma split_crlf_join:
  "ls \<noteq> [] \<Longrightarrow> (\<And>l. l \<in> set ls \<Longrightarrow> cr \<notin> set l) \<Longrightarrow> split_crlf (join crlf ls) = ls"
  by (induction crlf ls rule: join.induct) (simp_all add: split_crlf_append split_crlf_no_cr)

lemma find_terminator:
  assumes "ls \<noteq> []" "\<And>l. l \<in> set ls \<Longrightarrow> l \<noteq> [] \<and> cr \<notin> set l"
  shows "find_sub TERMINATOR (join crlf ls @ TERMINATOR @ rest) = Some (length (join crlf ls))"
  using assms
proof (induction crlf ls rule: join.induct)
  case (2 x)
  then show ?case by (simp add: find_sub_skip TERMINATOR_def starts_with_def)
next
  case (3 x y zs)
  obtain c k where c: "join crlf (y # zs) @ TERMINATOR @ rest = c # k" "c \<noteq> cr"
    using "3.prems"(2) [of y] by (cases y; cases zs) auto
  have "find_sub TERMINATOR (crlf @ c # k) = map_option (\<lambda>i. i + 2) (find_sub TERMINATOR (c # k))"
    using c(2) by (cases "find_sub TERMINATOR (c # k)")
      (simp_all add: starts_with_def TERMINATOR_def del: find_sub.simps(2) add: find_sub.simps(2) [of _ cr] find_sub.simps(2) [of _ lf])
  moreover have "find_sub TERMINATOR (c # k) = Some (length (join crlf (y # zs)))"
    using 3 c(1) by simp
  moreover have "hd TERMINATOR \<notin> set x" using "3.prems"(2) [of x] by (simp add: TERMINATOR_def)
  ultimately have "find_sub TERMINATOR (x @ crlf @ c # k) = Some (length x + (length (join crlf (y # zs)) + 2))"
    by (simp add: find_sub_skip del: find_sub.simps)
  then show ?case by (simp add: c(1) [symmetric] del: find_sub.simps)
qed simp

lemma tchar_range: "is_tchar b \<Longrightarrow> 33 \<le> bval b \<and> bval b \<le> 126"
  by (auto simp: is_tchar_def ascii_class_defs)

lemma tchar_props:
  assumes "is_tchar b"
  shows "\<not> is_forbidden_ctl b a \<and> b \<noteq> CHR '' '' \<and> b \<noteq> CHR '':'' \<and> b \<noteq> cr"
proof -
  have "\<not> is_tchar CHR '':''" by (simp add: is_tchar_def ascii_class_defs)
  moreover have "b \<noteq> CHR '' '' \<and> b \<noteq> cr" using tchar_range [OF assms] by auto
  ultimately show ?thesis using assms tchar_range [OF assms] by (auto simp: is_forbidden_ctl_def)
qed

lemma cr_forbidden [simp]: "is_forbidden_ctl cr a"
  by (simp add: is_forbidden_ctl_def)

lemma parse_version_text [simp]: "parse_version (version_text v) = Ok v"
  by (cases v) (simp_all add: parse_version_def version_text_def starts_with_def Let_def)

lemma version_text_props:
  "version_text v \<noteq> []" "CHR '' '' \<notin> set (version_text v)" "cr \<notin> set (version_text v)"
  "list_all (\<lambda>b. \<not> is_forbidden_ctl b False) (version_text v)"
  by (cases v; simp add: version_text_def is_forbidden_ctl_def)+

lemma ref_request_line_render:
  assumes "view_wf (m, t, v, hs)"
  shows "ref_request_line (m @ CHR '' '' # t @ CHR '' '' # version_text v) = Ok (m, t, v)"
proof -
  have "CHR '' '' \<notin> set m"
    using assms by (auto simp: view_wf_def list_all_iff dest: tchar_props)
  then have "split_on CHR '' '' (m @ CHR '' '' # t @ CHR '' '' # version_text v) = [m, t, version_text v]"
    using assms by (simp add: split_on_append_delim version_text_props view_wf_def)
  moreover have "\<not> list_ex (\<lambda>b. is_forbidden_ctl b False) (m @ CHR '' '' # t @ CHR '' '' # version_text v)"
    using assms version_text_props(4) [of v]
    by (auto simp: list_ex_iff view_wf_def list_all_iff is_forbidden_ctl_def [of "CHR '' ''"]
        dest: tchar_props)
  ultimately show ?thesis
    using assms by (simp add: ref_request_line_def version_text_props view_wf_def)
qed

lemma ref_header_line_render:
  assumes "header_wf (n, w)"
  shows "ref_header_line (n @ '': '' @ w) = Ok (n, w)"
proof -
  have "CHR '':'' \<notin> set n"
    using assms by (auto simp: header_wf_def list_all_iff dest: tchar_props)
  then have "split_once CHR '':'' (n @ '': '' @ w) = Some (n, CHR '' '' # w)"
    by (simp add: split_once_append)
  moreover have "trim_matches is_ows (CHR '' '' # w) = w"
    using assms trim_matches_id [of w is_ows] by (simp add: header_wf_def is_ows_def)
  ultimately show ?thesis
    using assms by (simp add: ref_header_line_def header_wf_def list_ex_iff list_all_iff)
qed

lemma tchars_no_cr: "list_all is_tchar s \<Longrightarrow> cr \<notin> set s"
  using tchar_props [of cr] by (auto simp: list_all_iff)

lemma no_ctl_no_cr: "list_all (\<lambda>b. \<not> is_forbidden_ctl b a) s \<Longrightarrow> cr \<notin> set s"
  by (auto simp: list_all_iff)

lemma head_lines_no_cr:
  assumes "view_wf x" "l \<in> set (head_lines x)" shows "l \<noteq> [] \<and> cr \<notin> set l"
proof -
  obtain m t v hs where x: "x = (m, t, v, hs)" by (cases x) auto
  have "l \<noteq> [] \<and> cr \<notin> set l" if "(n, w) \<in> set hs" "l = n @ '': '' @ w" for n w
  proof -
    have "header_wf (n, w)" using assms(1) that(1) by (simp add: x view_wf_def list_all_iff)
    then show ?thesis using that(2) by (simp add: header_wf_def tchars_no_cr no_ctl_no_cr [of True])
  qed
  moreover have "cr \<notin> set (m @ CHR '' '' # t @ CHR '' '' # version_text v)"
    using assms(1) version_text_props(3) [of v]
    by (simp add: x view_wf_def tchars_no_cr no_ctl_no_cr [of False])
  ultimately show ?thesis using assms(2) by (auto simp: x head_lines_def)
qed

lemma ref_parse_render:
  assumes wf: "view_wf x" and len: "length (render_head x) \<le> MAX_HEADER_BYTES"
  shows "ref_parse (render_head x @ rest) = Ok (Some (x, length (render_head x)))"
proof -
  obtain m t v hs where x: "x = (m, t, v, hs)" by (cases x) auto
  define sect where "sect = join crlf (head_lines x)"
  have ne: "head_lines x \<noteq> []" by (simp add: x head_lines_def)
  have lines: "split_crlf sect = head_lines x"
    unfolding sect_def using ne head_lines_no_cr [OF wf] by (intro split_crlf_join) auto
  have "ref_header_line (n @ '': '' @ w) = Ok (n, w)" if "(n, w) \<in> set hs" for n w
    using wf that ref_header_line_render [of n w] by (simp add: x view_wf_def list_all_iff)
  then have "list_all2 (\<lambda>l h. ref_header_line l = Ok h) (map (\<lambda>(n, w). n @ '': '' @ w) hs) hs"
    by (auto simp: list_all2_map1 list_all2_same)
  then have "ref_headers (tl (head_lines x)) = Ok hs"
    using wf by (simp add: ref_headers_Ok x head_lines_def view_wf_def)
  moreover have "ref_request_line (hd (head_lines x)) = Ok (m, t, v)"
    using ref_request_line_render wf by (simp add: x head_lines_def)
  ultimately have "ref_section sect = Ok x" by (simp add: ref_section_def lines x)
  moreover have "find_sub TERMINATOR (render_head x @ rest) = Some (length sect)"
    using find_terminator [OF ne] head_lines_no_cr [OF wf] by (simp add: render_head_join sect_def)
  moreover have "take (length sect) (render_head x @ rest) = sect" "length (render_head x) = length sect + 4"
    by (simp_all add: render_head_join sect_def)
  ultimately show ?thesis using len by (simp add: ref_parse_def)
qed

section \<open>Properties\<close>

text \<open>C5. Refinement. For every input buffer, the range-based parser accepts, rejects (with the same
  error) or asks for more exactly as the specification \<open>ref_parse\<close> on owned strings does, and the
  method, target, version and headers read through the stored ranges are those of the
  specification. In particular the final UTF-8 check of the whole section never rejects.\<close>

theorem parse_request_head_refines:
  assumes "substring_search mm"
  shows "map_ok outcome_view (parse_request_head mm buf) = ref_parse buf"
  using assms by (rule substring_search.parse_request_head_ref)

theorem parse_request_head_refines_witness:
  "map_ok outcome_view (parse_request_head (\<lambda>h n. find_sub n h) ''GET /a HTTP/1.1'') = ref_parse ''GET /a HTTP/1.1''"
  by (rule parse_request_head_refines [OF naive_search.substring_search_axioms])

text \<open>C35. Every accepted head is well formed: the stored ranges lie in the copied section and on
  UTF-8 character boundaries (so the accessors cannot panic), method and header names are non-empty
  tokens, the target has no space and no control byte, header values have no control byte but
  HTAB, there are at most 100 headers, and the consumed bytes are the section and its
  terminator, at most 16 KiB.\<close>

theorem parse_request_head_sound:
  assumes "substring_search mm" and "parse_request_head mm buf = Ok (HeadComplete h n)"
  shows "head_wf h \<and> n \<le> MAX_HEADER_BYTES \<and> take n buf = rh_buf h @ TERMINATOR \<and>
    rh_extensions h = extensions_new"
proof -
  note sec = substring_search.parse_request_head_section [OF assms]
  have "take n buf = rh_buf h @ TERMINATOR" using sec(3,4) by auto
  moreover have "rh_extensions h = extensions_new"
    using substring_search.parse_section_delim(5) [OF assms(1) sec(1)] .
  ultimately show ?thesis
    using sec(2) substring_search.parse_request_head_wf [OF assms] by blast
qed

definition get_a :: bytes where
  "get_a = ''GET /a HTTP/1.1'' @ crlf @ ''Host: h'' @ crlf @ crlf @ ''rest''"

lemma get_a_render:
  "get_a = render_head (''GET'', ''/a'', Http11, [(''Host'', ''h'')]) @ ''rest''"
  by (simp add: get_a_def render_head_def head_lines_def version_text_def)

lemma get_a_wf: "view_wf (''GET'', ''/a'', Http11, [(''Host'', ''h'')])"
  by (simp add: view_wf_def header_wf_def is_tchar_def is_forbidden_ctl_def ascii_class_defs
      MAX_HEADER_COUNT_def is_ows_def utf8_valid_ascii)

lemma get_a_len: "length (render_head (''GET'', ''/a'', Http11, [(''Host'', ''h'')])) \<le> MAX_HEADER_BYTES"
  by (simp add: render_head_def head_lines_def version_text_def MAX_HEADER_BYTES_def)

lemma get_a_accepted:
  "\<exists>h. parse_request_head (\<lambda>h n. find_sub n h) get_a = Ok (HeadComplete h 28)"
proof -
  have "map_ok outcome_view (parse_request_head (\<lambda>h n. find_sub n h) get_a) =
    Ok (Some ((''GET'', ''/a'', Http11, [(''Host'', ''h'')]), 28))"
    unfolding naive_search.parse_request_head_ref get_a_render ref_parse_render [OF get_a_wf get_a_len]
    by (simp add: render_head_def head_lines_def version_text_def)
  then obtain r where "parse_request_head (\<lambda>h n. find_sub n h) get_a = Ok r"
    "outcome_view r = Some ((''GET'', ''/a'', Http11, [(''Host'', ''h'')]), 28)"
    by (auto simp: map_ok_eq_Ok)
  then show ?thesis by (cases r) auto
qed

theorem parse_request_head_sound_witness:
  "\<exists>h. parse_request_head (\<lambda>h n. find_sub n h) get_a = Ok (HeadComplete h 28) \<and> head_wf h \<and>
     take 28 get_a = rh_buf h @ TERMINATOR"
  using get_a_accepted parse_request_head_sound [OF naive_search.substring_search_axioms, of get_a] by blast

text \<open>Stability. Once the parser has decided (accepted or rejected), more bytes on the connection
  do not change the decision, the head or the consumed count: parsing after every read gives the
  result of parsing the whole stream.\<close>

theorem parse_request_head_stable:
  assumes "substring_search mm" and "parse_request_head mm buf = r" and "r \<noteq> Ok HeadIncomplete"
  shows "parse_request_head mm (buf @ extra) = r"
  using assms by (rule substring_search.parse_decided)

theorem parse_request_head_stable_witness:
  "\<exists>h. parse_request_head (\<lambda>h n. find_sub n h) (get_a @ ''more'') = Ok (HeadComplete h 28)"
  using get_a_accepted parse_request_head_stable [OF naive_search.substring_search_axioms, of get_a] by blast

lemma parse_rendered_head:
  assumes "substring_search mm" and "view_wf x" and "length (render_head x) \<le> MAX_HEADER_BYTES"
  shows "\<exists>h. parse_request_head mm (render_head x @ rest) = Ok (HeadComplete h (length (render_head x)))
    \<and> view h = x"
proof -
  have "map_ok outcome_view (parse_request_head mm (render_head x @ rest)) =
    Ok (Some (x, length (render_head x)))"
    using substring_search.parse_request_head_ref [OF assms(1)] ref_parse_render [OF assms(2,3)] by simp
  then obtain r where "parse_request_head mm (render_head x @ rest) = Ok r"
    "outcome_view r = Some (x, length (render_head x))"
    by (auto simp: map_ok_eq_Ok)
  then show ?thesis by (cases r) auto
qed

text \<open>C36. Round trip. Rendering a well-formed head (request line, then one \<^verbatim>\<open>name: value\<close> line per
  header, each ended by CRLF, then the empty line) and parsing it back gives the same method,
  target, version and headers, and consumes exactly the rendered bytes whatever follows them.\<close>

theorem parse_render_roundtrip:
  assumes "substring_search mm" and "view_wf x" and "length (render_head x) \<le> MAX_HEADER_BYTES"
  shows "\<exists>h. parse_request_head mm (render_head x @ rest) = Ok (HeadComplete h (length (render_head x)))
    \<and> view h = x"
  using assms by (rule parse_rendered_head)

theorem parse_render_roundtrip_witness:
  "\<exists>h. parse_request_head (\<lambda>h n. find_sub n h) get_a = Ok (HeadComplete h
      (length (render_head (''GET'', ''/a'', Http11, [(''Host'', ''h'')]))))
    \<and> view h = (''GET'', ''/a'', Http11, [(''Host'', ''h'')])"
  unfolding get_a_render
  by (rule parse_render_roundtrip [OF naive_search.substring_search_axioms get_a_wf get_a_len])

end
