(* ===== verification/Chunked.thy ===== *)
theory Chunked
  imports Ascii
begin

text \<open>
  The chunked transfer coding of \<^verbatim>\<open>crates/http/src/chunked.rs\<close>: the encoder functions and the
  incremental decoder \<^verbatim>\<open>ChunkedDecoder\<close>. The decoder's state is a record; a cursor
  \<^verbatim>\<open>pos\<close> into the input is represented by the unread suffix of the input, and the loop of
  \<^verbatim>\<open>decode\<close> is \<open>decode_loop\<close>, one turn of which is \<open>decode_iter\<close>. The \<^verbatim>\<open>u64\<close> counters are
  natural numbers with the source's \<^verbatim>\<open>checked_add\<close> written out; \<open>decoder_inv\<close> implies that the
  unchecked additions stay in range.
  Results: the decoder keeps its invariant and its bounds, its result does not depend on how
  the input is cut into pieces, it inverts the encoder and leaves the bytes after the message
  alone, and whatever it accepts is a message of the grammar \<open>chunked_msg\<close>.
\<close>

section \<open>Encoder\<close>

definition encode_chunk :: "bytes \<Rightarrow> bytes \<Rightarrow> bytes" where
  "encode_chunk data out =
     (if data = [] then out
      else out @ to_hex (length data) @ crlf @ data @ crlf)"

definition encode_terminator :: "bytes \<Rightarrow> bytes" where
  "encode_terminator out = out @ ''0'' @ crlf @ crlf"

section \<open>Decoder state\<close>

definition MAX_BODY_BYTES :: nat where "MAX_BODY_BYTES = 1024 * 1024"
definition MAX_CHUNK_COUNT :: nat where "MAX_CHUNK_COUNT = 16384"
definition MAX_CHUNK_LINE_BYTES :: nat where "MAX_CHUNK_LINE_BYTES = 256"

datatype ChunkedError = InvalidChunkSize | ChunkLineTooLong | TooManyChunks | BodyTooLarge
  | TrailerUnsupported | InvalidLineTerminator

datatype DecodeOutcome = Complete nat | Incomplete nat

datatype ChunkState = ChunkSizeLine | ChunkData nat | ChunkDataCrlf | TrailerLine | Done

record ChunkedDecoder =
  cd_state :: ChunkState
  cd_line_buf :: bytes
  cd_total_decoded :: nat
  cd_chunk_count :: nat
  cd_max_body_bytes :: nat

definition with_max_body_bytes :: "nat \<Rightarrow> ChunkedDecoder" where
  "with_max_body_bytes m =
     \<lparr>cd_state = ChunkSizeLine, cd_line_buf = [], cd_total_decoded = 0, cd_chunk_count = 0,
      cd_max_body_bytes = m\<rparr>"

definition decoder_new :: ChunkedDecoder where
  "decoder_new = with_max_body_bytes MAX_BODY_BYTES"

section \<open>Decoder operations\<close>

definition parse_chunk_size :: "bytes \<Rightarrow> ChunkedError + nat" where
  "parse_chunk_size line =
     (let size_part = (case position (\<lambda>b. b = CHR '';'') line of
                         Some idx \<Rightarrow> take idx line | None \<Rightarrow> line)
      in if size_part = [] \<or> \<not> list_all is_ascii_hexdigit size_part
         then Err ChunkedError.InvalidChunkSize
         else ok_or ChunkedError.InvalidChunkSize (u64_of_digits 16 size_part))"

text \<open>\<open>take_line line_buf rest\<close> returns the result, the new line buffer and the unread suffix.\<close>

fun take_line :: "bytes \<Rightarrow> bytes \<Rightarrow> (ChunkedError + bytes option) \<times> bytes \<times> bytes" where
  "take_line lb [] = (Ok None, lb, [])"
| "take_line lb (b # rest) =
     (if b = lf then
        (if lb = [] \<or> last lb \<noteq> cr then (Err ChunkedError.InvalidLineTerminator, lb, rest)
         else (Ok (Some (butlast lb)), [], rest))
      else if MAX_CHUNK_LINE_BYTES < length (lb @ [b])
           then (Err ChunkedError.ChunkLineTooLong, lb @ [b], rest)
           else take_line (lb @ [b]) rest)"

definition checked_add_u64 :: "nat \<Rightarrow> nat \<Rightarrow> nat option" where
  "checked_add_u64 a b = (if a + b \<le> U64_MAX then Some (a + b) else None)"

text \<open>What one turn of the loop does: go round again, or return.\<close>

datatype loop_ctl = Continue | Return_Complete | Return_Incomplete

definition on_size_line :: "ChunkedDecoder \<Rightarrow> bytes \<Rightarrow> (ChunkedError + loop_ctl) \<times> ChunkedDecoder" where
  "on_size_line d line =
     (case parse_chunk_size line of
        Err e \<Rightarrow> (Err e, d)
      | Ok sz \<Rightarrow>
          (let d1 = d\<lparr>cd_chunk_count := cd_chunk_count d + 1\<rparr>
           in if cd_chunk_count d1 > MAX_CHUNK_COUNT then (Err ChunkedError.TooManyChunks, d1)
              else if sz = 0 then (Ok Continue, d1\<lparr>cd_state := TrailerLine\<rparr>)
              else (case checked_add_u64 (cd_total_decoded d1) sz of
                      None \<Rightarrow> (Err ChunkedError.BodyTooLarge, d1)
                    | Some new_total \<Rightarrow>
                        if new_total > cd_max_body_bytes d1
                        then (Err ChunkedError.BodyTooLarge, d1)
                        else (Ok Continue, d1\<lparr>cd_state := ChunkData sz\<rparr>))))"

definition on_data_crlf :: "ChunkedDecoder \<Rightarrow> bytes \<Rightarrow> (ChunkedError + loop_ctl) \<times> ChunkedDecoder" where
  "on_data_crlf d line =
     (if line \<noteq> [] then (Err ChunkedError.InvalidLineTerminator, d)
      else (Ok Continue, d\<lparr>cd_state := ChunkSizeLine\<rparr>))"

definition on_trailer_line :: "ChunkedDecoder \<Rightarrow> bytes \<Rightarrow> (ChunkedError + loop_ctl) \<times> ChunkedDecoder" where
  "on_trailer_line d line =
     (if line \<noteq> [] then (Err ChunkedError.TrailerUnsupported, d)
      else (Ok Return_Complete, d\<lparr>cd_state := Done\<rparr>))"

type_synonym iter_result = "(ChunkedError + loop_ctl) \<times> ChunkedDecoder \<times> bytes \<times> bytes"

text \<open>The three line states share the \<^verbatim>\<open>match Self::take_line(..)?\<close> of the source.\<close>

definition with_line ::
  "(ChunkedDecoder \<Rightarrow> bytes \<Rightarrow> (ChunkedError + loop_ctl) \<times> ChunkedDecoder) \<Rightarrow>
   ChunkedDecoder \<Rightarrow> bytes \<Rightarrow> bytes \<Rightarrow> iter_result" where
  "with_line f d out rest =
     (case take_line (cd_line_buf d) rest of
        (Err e, lb, r) \<Rightarrow> (Err e, d\<lparr>cd_line_buf := lb\<rparr>, out, r)
      | (Ok None, lb, r) \<Rightarrow> (Ok Return_Incomplete, d\<lparr>cd_line_buf := lb\<rparr>, out, r)
      | (Ok (Some line), lb, r) \<Rightarrow>
          (let (c, d') = f (d\<lparr>cd_line_buf := lb\<rparr>) line in (c, d', out, r)))"

definition on_chunk_data :: "nat \<Rightarrow> ChunkedDecoder \<Rightarrow> bytes \<Rightarrow> bytes \<Rightarrow> iter_result" where
  "on_chunk_data remaining d out rest =
     (if rest = [] then (Ok Return_Incomplete, d, out, rest)
      else let tk = min (length rest) remaining;
               d1 = d\<lparr>cd_total_decoded := cd_total_decoded d + tk\<rparr>;
               out1 = out @ take tk rest;
               left = remaining - tk
           in if left = 0 then (Ok Continue, d1\<lparr>cd_state := ChunkDataCrlf\<rparr>, out1, drop tk rest)
              else (Ok Return_Incomplete, d1\<lparr>cd_state := ChunkData left\<rparr>, out1, drop tk rest))"

definition decode_iter :: "ChunkedDecoder \<Rightarrow> bytes \<Rightarrow> bytes \<Rightarrow> iter_result" where
  "decode_iter d out rest =
     (case cd_state d of
        Done \<Rightarrow> (Ok Return_Complete, d, out, rest)
      | ChunkSizeLine \<Rightarrow> with_line on_size_line d out rest
      | ChunkData remaining \<Rightarrow> on_chunk_data remaining d out rest
      | ChunkDataCrlf \<Rightarrow> with_line on_data_crlf d out rest
      | TrailerLine \<Rightarrow> with_line on_trailer_line d out rest)"

text \<open>Every turn that goes round again has consumed input, or has left the data state.\<close>

definition loop_measure :: "ChunkedDecoder \<Rightarrow> bytes \<Rightarrow> nat" where
  "loop_measure d rest =
     2 * length rest + (case cd_state d of ChunkData _ \<Rightarrow> 1 | _ \<Rightarrow> 0)"

lemma take_line_rest_le: "take_line lb rest = (r, lb', rest') \<Longrightarrow> length rest' \<le> length rest"
  by (induction lb rest rule: take_line.induct) (auto split: if_splits)

lemma take_line_Some_less:
  "take_line lb rest = (Ok (Some line), lb', rest') \<Longrightarrow> length rest' < length rest"
  by (induction lb rest rule: take_line.induct) (auto split: if_splits)

lemma with_line_Continue_less:
  assumes "with_line f d out rest = (Ok Continue, d', out', rest')"
  shows "length rest' < length rest"
proof -
  obtain r lb rest1 where t: "take_line (cd_line_buf d) rest = (r, lb, rest1)"
    by (metis prod_cases3)
  with assms obtain line where "r = Ok (Some line)" "rest' = rest1"
    by (auto simp: with_line_def split: sum.splits option.splits prod.splits)
  with t show ?thesis by (auto dest: take_line_Some_less)
qed

lemma decode_iter_Continue_measure:
  assumes "decode_iter d out rest = (Ok Continue, d', out', rest')"
  shows "loop_measure d' rest' < loop_measure d rest"
proof (cases "cd_state d")
  case (ChunkData n)
  with assms show ?thesis
    by (cases "n = 0")
      (auto simp: decode_iter_def on_chunk_data_def loop_measure_def Let_def split: if_splits)
next
  case ChunkSizeLine
  with assms have "length rest' < length rest"
    by (auto simp: decode_iter_def dest: with_line_Continue_less)
  with ChunkSizeLine show ?thesis
    by (auto simp: loop_measure_def split: ChunkState.split)
next
  case ChunkDataCrlf
  with assms have "length rest' < length rest"
    by (auto simp: decode_iter_def dest: with_line_Continue_less)
  with ChunkDataCrlf show ?thesis
    by (auto simp: loop_measure_def split: ChunkState.split)
next
  case TrailerLine
  with assms have "length rest' < length rest"
    by (auto simp: decode_iter_def dest: with_line_Continue_less)
  with TrailerLine show ?thesis
    by (auto simp: loop_measure_def split: ChunkState.split)
qed (use assms in \<open>simp add: decode_iter_def\<close>)

function decode_loop :: "ChunkedDecoder \<Rightarrow> bytes \<Rightarrow> bytes \<Rightarrow>
    (ChunkedError + bool) \<times> ChunkedDecoder \<times> bytes \<times> bytes" where
  "decode_loop d out rest =
     (case decode_iter d out rest of
        (Err e, d', out', rest') \<Rightarrow> (Err e, d', out', rest')
      | (Ok Continue, d', out', rest') \<Rightarrow> decode_loop d' out' rest'
      | (Ok Return_Complete, d', out', rest') \<Rightarrow> (Ok True, d', out', rest')
      | (Ok Return_Incomplete, d', out', rest') \<Rightarrow> (Ok False, d', out', rest'))"
  by pat_completeness auto
termination
  by (relation "measure (\<lambda>(d, out, rest). loop_measure d rest)")
    (auto dest!: decode_iter_Continue_measure [OF sym])

declare decode_loop.simps [simp del]

definition decode :: "ChunkedDecoder \<Rightarrow> bytes \<Rightarrow> bytes \<Rightarrow>
    (ChunkedError + DecodeOutcome) \<times> ChunkedDecoder \<times> bytes" where
  "decode d input out =
     (case decode_loop d out input of
        (Err e, d', out', rest) \<Rightarrow> (Err e, d', out')
      | (Ok fin, d', out', rest) \<Rightarrow>
          (let consumed = length input - length rest
           in (Ok (if fin then DecodeOutcome.Complete consumed else DecodeOutcome.Incomplete consumed),
               d', out')))"


section \<open>Lines\<close>

lemma take_line_None_rest: "take_line lb rest = (Ok None, lb', rest') \<Longrightarrow> rest' = []"
  by (induction lb rest rule: take_line.induct) (auto split: if_splits)

lemma take_line_append:
  "take_line lb (a @ b) =
     (case take_line lb a of
        (Ok None, lb', r) \<Rightarrow> take_line lb' b
      | (x, lb', r) \<Rightarrow> (x, lb', r @ b))"
  by (induction lb a rule: take_line.induct) (auto split: sum.splits option.splits)

lemma take_line_crlf:
  "lf \<notin> set l \<Longrightarrow> length (lb @ l) < MAX_CHUNK_LINE_BYTES \<Longrightarrow>
   take_line lb (l @ crlf @ r) = (Ok (Some (lb @ l)), [], r)"
  by (induction l arbitrary: lb) (auto simp: butlast_append)

lemma take_line_Some_split:
  assumes "take_line lb rest = (Ok (Some line), lb', rest')" "lf \<notin> set lb"
    "length lb \<le> MAX_CHUNK_LINE_BYTES"
  shows "\<exists>w. rest = w @ rest' \<and> lb @ w = line @ crlf \<and> lb' = [] \<and> lf \<notin> set line \<and>
           length line < MAX_CHUNK_LINE_BYTES"
  using assms
proof (induction lb rest rule: take_line.induct)
  case (2 lb b rest)
  show ?case
  proof (cases "b = lf")
    case True
    with "2.prems" have lb: "lb \<noteq> []" "last lb = cr" "line = butlast lb" "lb' = []" "rest' = rest"
      by (auto split: if_splits)
    then have "lb = line @ [cr]" by (metis append_butlast_last_id)
    moreover have "lf \<notin> set lb" "length lb \<le> MAX_CHUNK_LINE_BYTES"
      using "2.prems" by simp_all
    ultimately show ?thesis
      using True lb(4,5) by (intro exI [of _ "[lf]"]) simp
  next
    case False
    with "2.prems" have "length (lb @ [b]) \<le> MAX_CHUNK_LINE_BYTES"
      "take_line (lb @ [b]) rest = (Ok (Some line), lb', rest')"
      by (auto split: if_splits)
    with "2.IH" False "2.prems"(2) obtain w where
      "rest = w @ rest'" "(lb @ [b]) @ w = line @ crlf" "lb' = []" "lf \<notin> set line"
      "length line < MAX_CHUNK_LINE_BYTES"
      by (auto simp del: append.simps)
    then show ?thesis by (intro exI [of _ "b # w"]) auto
  qed
qed simp

lemma take_line_lb:
  assumes "take_line lb rest = (Ok r, lb', rest')" "lf \<notin> set lb" "length lb \<le> MAX_CHUNK_LINE_BYTES"
  shows "lf \<notin> set lb' \<and> length lb' \<le> MAX_CHUNK_LINE_BYTES"
  using assms by (induction lb rest rule: take_line.induct) (auto split: if_splits)

section \<open>Independence of the way the input is cut\<close>

lemma decode_iter_Incomplete:
  assumes "decode_iter d out a = (Ok Return_Incomplete, d', out', r)"
  shows "r = [] \<and> decode_iter d out (a @ b) = decode_iter d' out' b"
proof -
  have line: "r = [] \<and> with_line f d out (a @ b) = with_line f d' out' b \<and> cd_state d' = cd_state d"
    if "with_line f d out a = (Ok Return_Incomplete, d', out', r)"
      and "\<And>d line. fst (f d line) \<noteq> Ok Return_Incomplete" for f
  proof -
    obtain x lb r1 where t: "take_line (cd_line_buf d) a = (x, lb, r1)"
      by (metis prod_cases3)
    from that t have "x = Ok None"
      by (auto simp: with_line_def split: sum.splits option.splits prod.splits)
        (metis fst_conv)
    with that t show ?thesis
      by (auto simp: with_line_def take_line_append take_line_None_rest
          split: sum.splits option.splits prod.splits)
  qed
  show ?thesis
  proof (cases "cd_state d")
    case (ChunkData n)
    with assms show ?thesis
      by (cases "b = []")
        (auto simp: decode_iter_def on_chunk_data_def Let_def min_def split: if_splits)
  next
    case ChunkSizeLine
    with assms line [of on_size_line] show ?thesis
      by (auto simp: decode_iter_def on_size_line_def Let_def split: sum.splits option.splits)
  next
    case ChunkDataCrlf
    with assms line [of on_data_crlf] show ?thesis
      by (auto simp: decode_iter_def on_data_crlf_def)
  next
    case TrailerLine
    with assms line [of on_trailer_line] show ?thesis
      by (auto simp: decode_iter_def on_trailer_line_def)
  qed (use assms in \<open>simp add: decode_iter_def\<close>)
qed

lemma decode_iter_other:
  assumes "decode_iter d out a = (x, d', out', r)" "x \<noteq> Ok Return_Incomplete"
  shows "decode_iter d out (a @ b) = (x, d', out', r @ b)"
proof -
  have line: "with_line f d out (a @ b) = (x, d', out', r @ b)"
    if "with_line f d out a = (x, d', out', r)" for f
    using that assms(2)
    by (auto simp: with_line_def take_line_append split: sum.splits option.splits prod.splits)
  show ?thesis
    using assms
    by (cases "cd_state d")
      (auto simp: decode_iter_def line on_chunk_data_def Let_def min_def split: if_splits)
qed

lemma decode_loop_Continue:
  "decode_iter d out rest = (Ok Continue, d', out', rest') \<Longrightarrow>
   decode_loop d out rest = decode_loop d' out' rest'"
  by (simp add: decode_loop.simps [of d])

lemma decode_loop_Complete:
  "decode_iter d out rest = (Ok Return_Complete, d', out', rest') \<Longrightarrow>
   decode_loop d out rest = (Ok True, d', out', rest')"
  by (simp add: decode_loop.simps [of d])

lemma decode_loop_induct [case_names step]:
  assumes "\<And>d out rest. (\<And>d' out' rest'.
      decode_iter d out rest = (Ok Continue, d', out', rest') \<Longrightarrow> P d' out' rest') \<Longrightarrow> P d out rest"
  shows "P d out rest"
proof (induction "loop_measure d rest" arbitrary: d out rest rule: less_induct)
  case less
  show ?case
    by (rule assms) (blast intro: less decode_iter_Continue_measure)
qed

lemma decode_iter_rest_le:
  assumes "decode_iter d out rest = (x, d', out', rest')"
  shows "length rest' \<le> length rest"
proof -
  have line: "length r' \<le> length rest" if "with_line f d out rest = (x, d', out', r')" for f r'
    using that take_line_rest_le [of "cd_line_buf d" rest]
    by (auto simp: with_line_def split: sum.splits option.splits prod.splits)
  show ?thesis
    using assms
    by (cases "cd_state d")
      (auto simp: decode_iter_def on_chunk_data_def Let_def dest: line split: if_splits)
qed

lemma decode_loop_rest_le:
  assumes "decode_loop d out rest = (x, d', out', rest')"
  shows "length rest' \<le> length rest"
  using assms
proof (induction d out rest rule: decode_loop_induct)
  case (step d out rest)
  obtain y d1 out1 r1 where it: "decode_iter d out rest = (y, d1, out1, r1)"
    by (metis prod_cases4)
  from it have "length r1 \<le> length rest" by (rule decode_iter_rest_le)
  with it step show ?case
    by (fastforce simp: decode_loop.simps [of d] split: sum.splits loop_ctl.splits)
qed

lemma decode_loop_append:
  "decode_loop d out (a @ b) =
     (case decode_loop d out a of
        (Ok False, d', out', r) \<Rightarrow> decode_loop d' out' b
      | (x, d', out', r) \<Rightarrow> (x, d', out', r @ b))"
proof (induction d out a rule: decode_loop.induct)
  case (1 d out a)
  obtain x d1 out1 r where it: "decode_iter d out a = (x, d1, out1, r)"
    by (metis prod_cases4)
  show ?case
  proof (cases "x = Ok Return_Incomplete")
    case True
    with it have "decode_iter d out (a @ b) = decode_iter d1 out1 b"
      by (simp add: decode_iter_Incomplete)
    then have "decode_loop d out (a @ b) = decode_loop d1 out1 b"
      by (simp only: decode_loop.simps [of d out "a @ b"] decode_loop.simps [of d1 out1 b])
    with it True show ?thesis by (simp add: decode_loop.simps [of d out a])
  next
    case False
    with it have "decode_iter d out (a @ b) = (x, d1, out1, r @ b)"
      by (rule decode_iter_other)
    with it 1 False show ?thesis
      by (auto simp: decode_loop.simps [of d] split: sum.splits loop_ctl.splits)
  qed
qed

lemma decode_loop_Incomplete_rest:
  "decode_loop d out a = (Ok False, d', out', r) \<Longrightarrow> r = []"
proof (induction d out a rule: decode_loop.induct)
  case (1 d out a)
  obtain x d1 out1 r1 where it: "decode_iter d out a = (x, d1, out1, r1)"
    by (metis prod_cases4)
  with 1 decode_iter_Incomplete [of d out a d1 out1 r1] show ?case
    by (auto simp: decode_loop.simps [of d] split: sum.splits loop_ctl.splits)
qed


section \<open>Invariant and bounds\<close>

definition decoder_inv :: "ChunkedDecoder \<Rightarrow> bool" where
  "decoder_inv d \<longleftrightarrow>
     lf \<notin> set (cd_line_buf d) \<and> length (cd_line_buf d) \<le> MAX_CHUNK_LINE_BYTES \<and>
     cd_chunk_count d \<le> MAX_CHUNK_COUNT \<and> cd_max_body_bytes d \<le> U64_MAX \<and>
     (case cd_state d of
        ChunkData n \<Rightarrow> 0 < n \<and> cd_total_decoded d + n \<le> cd_max_body_bytes d \<and> cd_line_buf d = []
      | Done \<Rightarrow> cd_line_buf d = [] \<and> cd_total_decoded d \<le> cd_max_body_bytes d
      | _ \<Rightarrow> cd_total_decoded d \<le> cd_max_body_bytes d)"

text \<open>What one turn adds to the output is what it adds to the counter.\<close>

definition decoder_step_ok :: "ChunkedDecoder \<Rightarrow> bytes \<Rightarrow> ChunkedDecoder \<Rightarrow> bytes \<Rightarrow> bool" where
  "decoder_step_ok d out d' out' \<longleftrightarrow>
     cd_max_body_bytes d' = cd_max_body_bytes d \<and>
     (\<exists>data. out' = out @ data \<and> cd_total_decoded d' = cd_total_decoded d + length data)"

lemma decoder_step_ok_refl: "decoder_step_ok d out d out"
  by (simp add: decoder_step_ok_def)

lemma decoder_step_ok_trans:
  "decoder_step_ok d out d1 out1 \<Longrightarrow> decoder_step_ok d1 out1 d2 out2 \<Longrightarrow>
   decoder_step_ok d out d2 out2"
  by (fastforce simp: decoder_step_ok_def)

lemma decoder_inv_new: "m \<le> U64_MAX \<Longrightarrow> decoder_inv (with_max_body_bytes m)"
  by (simp add: decoder_inv_def with_max_body_bytes_def)

lemma with_line_ok:
  assumes "with_line f d out rest = (Ok c, d', out', rest')" and inv: "decoder_inv d"
    and f: "\<And>line lb. f (d\<lparr>cd_line_buf := []\<rparr>) line = (Ok c, d') \<Longrightarrow>
              decoder_inv d' \<and> decoder_step_ok d out d' out"
    and st: "cd_state d = ChunkSizeLine \<or> cd_state d = ChunkDataCrlf \<or> cd_state d = TrailerLine"
  shows "decoder_inv d' \<and> decoder_step_ok d out d' out'"
proof -
  obtain x lb r where t: "take_line (cd_line_buf d) rest = (x, lb, r)"
    by (metis prod_cases3)
  from assms(1) t obtain y where x: "x = Ok y"
    by (cases x) (auto simp: with_line_def)
  from inv have lb: "lf \<notin> set (cd_line_buf d)" "length (cd_line_buf d) \<le> MAX_CHUNK_LINE_BYTES"
    by (auto simp: decoder_inv_def)
  show ?thesis
  proof (cases y)
    case None
    with t x assms(1) have "d' = d\<lparr>cd_line_buf := lb\<rparr>" "out' = out"
      by (auto simp: with_line_def)
    moreover have "lf \<notin> set lb \<and> length lb \<le> MAX_CHUNK_LINE_BYTES"
      using t x lb by (simp add: take_line_lb)
    ultimately show ?thesis
      using inv st by (auto simp: decoder_inv_def decoder_step_ok_def split: ChunkState.splits)
  next
    case (Some line)
    then have "lb = []"
      using take_line_Some_split [of "cd_line_buf d" rest line lb r] t x lb by auto
    with t x Some assms(1) have "f (d\<lparr>cd_line_buf := []\<rparr>) line = (Ok c, d')" "out' = out"
      by (auto simp: with_line_def split: prod.splits)
    with f show ?thesis by simp
  qed
qed

lemma decode_iter_inv:
  assumes it: "decode_iter d out rest = (Ok c, d', out', rest')" and inv: "decoder_inv d"
  shows "decoder_inv d' \<and> decoder_step_ok d out d' out'"
proof (cases "cd_state d")
  case ChunkSizeLine
  with it have w: "with_line on_size_line d out rest = (Ok c, d', out', rest')"
    by (simp add: decode_iter_def)
  show ?thesis
    by (rule with_line_ok [OF w inv])
      (use ChunkSizeLine inv in \<open>auto simp: on_size_line_def Let_def decoder_inv_def
        decoder_step_ok_def checked_add_u64_def split: sum.splits option.splits if_splits\<close>)
next
  case ChunkDataCrlf
  with it have w: "with_line on_data_crlf d out rest = (Ok c, d', out', rest')"
    by (simp add: decode_iter_def)
  show ?thesis
    by (rule with_line_ok [OF w inv])
      (use ChunkDataCrlf inv in \<open>auto simp: on_data_crlf_def decoder_inv_def
        decoder_step_ok_def split: if_splits\<close>)
next
  case TrailerLine
  with it have w: "with_line on_trailer_line d out rest = (Ok c, d', out', rest')"
    by (simp add: decode_iter_def)
  show ?thesis
    by (rule with_line_ok [OF w inv])
      (use TrailerLine inv in \<open>auto simp: on_trailer_line_def decoder_inv_def
        decoder_step_ok_def split: if_splits\<close>)
next
  case (ChunkData n)
  with it inv show ?thesis
    by (auto simp: decode_iter_def on_chunk_data_def Let_def decoder_inv_def decoder_step_ok_def
        min_def split: if_splits)
next
  case Done
  with it inv show ?thesis
    by (auto simp: decode_iter_def decoder_step_ok_refl)
qed

lemma decode_loop_inv:
  assumes "decode_loop d out rest = (Ok fin, d', out', rest')" "decoder_inv d"
  shows "decoder_inv d' \<and> decoder_step_ok d out d' out'"
  using assms
proof (induction d out rest rule: decode_loop_induct)
  case (step d out rest)
  obtain x d1 out1 r1 where it: "decode_iter d out rest = (x, d1, out1, r1)"
    by (metis prod_cases4)
  with step.prems obtain c where x: "x = Ok c"
    by (cases x) (auto simp: decode_loop.simps [of d])
  from it x step.prems(2) have one: "decoder_inv d1 \<and> decoder_step_ok d out d1 out1"
    using decode_iter_inv by simp
  show ?case
  proof (cases c)
    case Continue
    with step.prems it x have "decode_loop d1 out1 r1 = (Ok fin, d', out', rest')"
      by (simp add: decode_loop.simps [of d])
    with step.IH it x Continue one have "decoder_inv d' \<and> decoder_step_ok d1 out1 d' out'"
      by blast
    with one show ?thesis by (blast intro: decoder_step_ok_trans)
  qed (use step.prems it x one in \<open>auto simp: decode_loop.simps [of d]\<close>)
qed

section \<open>Acceptance\<close>

definition size_line :: "bytes \<Rightarrow> nat \<Rightarrow> bool" where
  "size_line l n \<longleftrightarrow>
     lf \<notin> set l \<and> length l < MAX_CHUNK_LINE_BYTES \<and> parse_chunk_size l = Ok n"

text \<open>The message grammar: wire bytes and the body they carry.\<close>

inductive chunked_msg :: "bytes \<Rightarrow> bytes \<Rightarrow> bool" where
  last_chunk: "size_line l 0 \<Longrightarrow> chunked_msg (l @ crlf @ crlf) []"
| one_chunk: "size_line l n \<Longrightarrow> 0 < n \<Longrightarrow> length data = n \<Longrightarrow> chunked_msg w body \<Longrightarrow>
    chunked_msg (l @ crlf @ data @ crlf @ w) (data @ body)"

text \<open>What is left to read from a state: the bytes already in the line buffer included.\<close>

fun state_msg :: "ChunkState \<Rightarrow> bytes \<Rightarrow> bytes \<Rightarrow> bool" where
  "state_msg ChunkSizeLine w body = chunked_msg w body"
| "state_msg (ChunkData n) w body =
     (\<exists>data w' body'. length data = n \<and> w = data @ crlf @ w' \<and> body = data @ body' \<and>
        chunked_msg w' body')"
| "state_msg ChunkDataCrlf w body = (\<exists>w'. w = crlf @ w' \<and> chunked_msg w' body)"
| "state_msg TrailerLine w body = (w = crlf \<and> body = [])"
| "state_msg Done w body = (w = [] \<and> body = [])"

lemma with_line_Ok_split:
  assumes "with_line f d out rest = (Ok c, d', out', rest')" "c \<noteq> Return_Incomplete"
    and inv: "decoder_inv d"
  obtains w line where "rest = w @ rest'" "cd_line_buf d @ w = line @ crlf" "lf \<notin> set line"
    "length line < MAX_CHUNK_LINE_BYTES" "f (d\<lparr>cd_line_buf := []\<rparr>) line = (Ok c, d')" "out' = out"
proof -
  obtain x lb r where t: "take_line (cd_line_buf d) rest = (x, lb, r)"
    by (metis prod_cases3)
  with assms(1,2) obtain line where x: "x = Ok (Some line)"
    by (auto simp: with_line_def split: sum.splits option.splits)
  from inv have "lf \<notin> set (cd_line_buf d)" "length (cd_line_buf d) \<le> MAX_CHUNK_LINE_BYTES"
    by (auto simp: decoder_inv_def)
  with t x obtain w where w: "rest = w @ r" "cd_line_buf d @ w = line @ crlf" "lb = []"
    "lf \<notin> set line" "length line < MAX_CHUNK_LINE_BYTES"
    using take_line_Some_split [of "cd_line_buf d" rest line lb r] by blast
  from t x w(3) assms(1) have "r = rest'" "f (d\<lparr>cd_line_buf := []\<rparr>) line = (Ok c, d')" "out' = out"
    by (auto simp: with_line_def split: prod.splits)
  with w that show ?thesis by blast
qed

lemma on_size_line_Ok:
  assumes "on_size_line d line = (Ok c, d')"
  shows "\<exists>n. parse_chunk_size line = Ok n \<and> c = Continue \<and> cd_line_buf d' = cd_line_buf d \<and>
           cd_state d' = (if n = 0 then TrailerLine else ChunkData n)"
proof (cases "parse_chunk_size line")
  case (Inr n)
  with assms show ?thesis
    by (cases "n = 0") (auto simp: on_size_line_def Let_def split: option.splits if_splits)
qed (use assms in \<open>simp add: on_size_line_def\<close>)

lemma decode_iter_msg:
  assumes it: "decode_iter d out rest = (Ok Continue, d', out', r1)" and inv: "decoder_inv d"
    and tl: "r1 = w1 @ rest'" "outf = out' @ body1"
    and msg: "state_msg (cd_state d') (cd_line_buf d' @ w1) body1"
  shows "\<exists>w body. rest = w @ rest' \<and> outf = out @ body \<and>
           state_msg (cd_state d) (cd_line_buf d @ w) body"
proof (cases "cd_state d")
  case ChunkSizeLine
  with it have "with_line on_size_line d out rest = (Ok Continue, d', out', r1)"
    by (simp add: decode_iter_def)
  then obtain w line where w: "rest = w @ r1" "cd_line_buf d @ w = line @ crlf" "lf \<notin> set line"
    "length line < MAX_CHUNK_LINE_BYTES" "on_size_line (d\<lparr>cd_line_buf := []\<rparr>) line = (Ok Continue, d')"
    "out' = out"
    by (rule with_line_Ok_split) (use inv in auto)
  from on_size_line_Ok [OF w(5)] obtain n where n: "parse_chunk_size line = Ok n"
    "cd_line_buf d' = []" "cd_state d' = (if n = 0 then TrailerLine else ChunkData n)" by auto
  from n w have sl: "size_line line n" by (simp add: size_line_def)
  have "chunked_msg (cd_line_buf d @ w @ w1) body1"
  proof (cases "n = 0")
    case True
    with n msg have "w1 = crlf" "body1 = []" by auto
    with sl True w(2) show ?thesis
      using chunked_msg.last_chunk [of line] by (metis append.assoc)
  next
    case False
    with n msg obtain data w' body' where "length data = n" "w1 = data @ crlf @ w'"
      "body1 = data @ body'" "chunked_msg w' body'" by auto
    with sl False w(2) show ?thesis
      using chunked_msg.one_chunk [of line n data w' body'] by (metis append.assoc neq0_conv)
  qed
  with ChunkSizeLine w(1,6) tl have "rest = (w @ w1) @ rest' \<and> outf = out @ body1 \<and>
      state_msg (cd_state d) (cd_line_buf d @ w @ w1) body1"
    by simp
  then show ?thesis by blast
next
  case ChunkDataCrlf
  with it have "with_line on_data_crlf d out rest = (Ok Continue, d', out', r1)"
    by (simp add: decode_iter_def)
  then obtain w line where w: "rest = w @ r1" "cd_line_buf d @ w = line @ crlf"
    "on_data_crlf (d\<lparr>cd_line_buf := []\<rparr>) line = (Ok Continue, d')" "out' = out"
    by (rule with_line_Ok_split) (use inv in auto)
  then have l: "line = []" and d': "cd_state d' = ChunkSizeLine" "cd_line_buf d' = []"
    by (auto simp: on_data_crlf_def split: if_splits)
  from w(2) l have "cd_line_buf d @ w @ w1 = crlf @ w1"
    by (metis append.assoc append_Nil)
  then have "state_msg (cd_state d) (cd_line_buf d @ w @ w1) body1"
    using msg d' ChunkDataCrlf by (simp only: state_msg.simps append_Nil) blast
  moreover have "rest = (w @ w1) @ rest'" "outf = out @ body1"
    using w(1,4) tl by simp_all
  ultimately show ?thesis by blast
next
  case (ChunkData n)
  with it have "decode_iter d out rest = on_chunk_data n d out rest"
    by (simp add: decode_iter_def)
  with it inv ChunkData have n: "n \<le> length rest" and l: "cd_line_buf d = []" "cd_line_buf d' = []"
    "cd_state d' = ChunkDataCrlf" and o: "out' = out @ take n rest" "r1 = drop n rest"
    by (auto simp: on_chunk_data_def Let_def decoder_inv_def min_def split: if_splits)
  from msg l obtain w' where w': "w1 = crlf @ w'" "chunked_msg w' body1" by auto
  have "state_msg (ChunkData n) (take n rest @ crlf @ w') (take n rest @ body1)"
    unfolding state_msg.simps using n w'(2)
    by (intro exI [of _ "take n rest"] exI [of _ w'] exI [of _ body1]) simp
  moreover have "rest = (take n rest @ w1) @ rest'"
    using o tl(1) by (metis append.assoc append_take_drop_id)
  moreover have "outf = out @ take n rest @ body1" using o tl by simp
  ultimately show ?thesis using ChunkData l(1) w'(1) by (metis append_Nil)
next
  case TrailerLine
  with it have "with_line on_trailer_line d out rest = (Ok Continue, d', out', r1)"
    by (simp add: decode_iter_def)
  then show ?thesis
    by (rule with_line_Ok_split) (use inv in \<open>auto simp: on_trailer_line_def split: if_splits\<close>)
qed (use it in \<open>simp add: decode_iter_def\<close>)

lemma decode_iter_complete_msg:
  assumes it: "decode_iter d out rest = (Ok Return_Complete, d', out', rest')" and inv: "decoder_inv d"
  shows "\<exists>w. rest = w @ rest' \<and> out' = out \<and> state_msg (cd_state d) (cd_line_buf d @ w) []"
proof (cases "cd_state d")
  case ChunkSizeLine
  with it have "with_line on_size_line d out rest = (Ok Return_Complete, d', out', rest')"
    by (simp add: decode_iter_def)
  then show ?thesis
    by (rule with_line_Ok_split) (use inv in \<open>auto dest: on_size_line_Ok\<close>)
next
  case ChunkDataCrlf
  with it have "with_line on_data_crlf d out rest = (Ok Return_Complete, d', out', rest')"
    by (simp add: decode_iter_def)
  then show ?thesis
    by (rule with_line_Ok_split) (use inv in \<open>auto simp: on_data_crlf_def split: if_splits\<close>)
next
  case TrailerLine
  with it have "with_line on_trailer_line d out rest = (Ok Return_Complete, d', out', rest')"
    by (simp add: decode_iter_def)
  then obtain w line where "rest = w @ rest'" "cd_line_buf d @ w = line @ crlf"
    "on_trailer_line (d\<lparr>cd_line_buf := []\<rparr>) line = (Ok Return_Complete, d')" "out' = out"
    by (rule with_line_Ok_split) (use inv in auto)
  with TrailerLine show ?thesis
    by (auto simp: on_trailer_line_def split: if_splits)
qed (use it inv in \<open>auto simp: decode_iter_def on_chunk_data_def Let_def decoder_inv_def
        split: if_splits\<close>)

lemma decode_loop_msg:
  assumes "decode_loop d out rest = (Ok True, d', out', rest')" "decoder_inv d"
  shows "\<exists>w body. rest = w @ rest' \<and> out' = out @ body \<and>
           state_msg (cd_state d) (cd_line_buf d @ w) body"
  using assms
proof (induction d out rest rule: decode_loop_induct)
  case (step d out rest)
  obtain x d1 out1 r1 where it: "decode_iter d out rest = (x, d1, out1, r1)"
    by (metis prod_cases4)
  with step.prems obtain c where x: "x = Ok c"
    by (cases x) (auto simp: decode_loop.simps [of d])
  show ?case
  proof (cases c)
    case Continue
    with step.prems it x have l: "decode_loop d1 out1 r1 = (Ok True, d', out', rest')"
      by (simp add: decode_loop.simps [of d])
    have "decoder_inv d1" using decode_iter_inv it x step.prems(2) by blast
    with step.IH it x Continue l obtain w1 body1 where
      "r1 = w1 @ rest'" "out' = out1 @ body1" "state_msg (cd_state d1) (cd_line_buf d1 @ w1) body1"
      by blast
    with decode_iter_msg it x Continue step.prems(2) show ?thesis by blast
  next
    case Return_Complete
    with step.prems it x have "d1 = d'" "out1 = out'" "r1 = rest'"
      by (auto simp: decode_loop.simps [of d])
    with decode_iter_complete_msg it x Return_Complete step.prems(2) show ?thesis by fastforce
  qed (use step.prems it x in \<open>auto simp: decode_loop.simps [of d]\<close>)
qed


section \<open>Decoding what the encoder wrote\<close>

lemma encode_chunk_app: "encode_chunk data out = out @ encode_chunk data []"
  by (simp add: encode_chunk_def)

lemma fold_encode_chunk:
  "fold encode_chunk cs out = out @ concat (map (\<lambda>c. encode_chunk c []) cs)"
proof (induction cs arbitrary: out)
  case (Cons c cs)
  have "fold encode_chunk (c # cs) out = fold encode_chunk cs (out @ encode_chunk c [])"
    by (simp add: encode_chunk_app [of c out])
  with Cons show ?case by simp
qed simp

lemma parse_chunk_size_hex: "n \<le> U64_MAX \<Longrightarrow> parse_chunk_size (to_hex n) = Ok n"
proof -
  assume "n \<le> U64_MAX"
  moreover have "position (\<lambda>b. b = CHR '';'') (to_hex n) = None"
    using fmt_hex_digits hexdigit_neq by (auto simp: position_None_iff)
  moreover have "list_all is_ascii_hexdigit (to_hex n)"
    by (auto simp: list_all_iff fmt_hex_digits)
  ultimately show ?thesis by (simp add: parse_chunk_size_def)
qed

lemma size_line_hex: "n \<le> U64_MAX \<Longrightarrow> size_line (to_hex n) n"
  using length_to_hex [of n 16] fmt_hex_digits [of lf n]
  by (auto simp: size_line_def parse_chunk_size_hex MAX_CHUNK_LINE_BYTES_def ascii_class_defs)

lemma with_line_crlf:
  "lf \<notin> set l \<Longrightarrow> length l < MAX_CHUNK_LINE_BYTES \<Longrightarrow> cd_line_buf d = [] \<Longrightarrow>
   with_line f d out (l @ crlf @ r) = (let (c, d') = f d l in (c, d', out, r))"
  using take_line_crlf [of l "[]" r]
  by (simp add: with_line_def) (metis (no_types, lifting) ChunkedDecoder.surjective ChunkedDecoder.update_convs(2))

lemma decode_loop_chunk:
  assumes d: "cd_state d = ChunkSizeLine" "cd_line_buf d = []" "cd_chunk_count d < MAX_CHUNK_COUNT"
    and data: "data \<noteq> []" "cd_total_decoded d + length data \<le> cd_max_body_bytes d"
    and m: "cd_max_body_bytes d \<le> U64_MAX"
  shows "decode_loop d out (encode_chunk data [] @ r) =
         decode_loop (d\<lparr>cd_chunk_count := cd_chunk_count d + 1,
                        cd_total_decoded := cd_total_decoded d + length data\<rparr>) (out @ data) r"
proof -
  let ?n = "length data"
  let ?d1 = "d\<lparr>cd_chunk_count := cd_chunk_count d + 1, cd_state := ChunkData ?n\<rparr>"
  let ?d2 = "d\<lparr>cd_chunk_count := cd_chunk_count d + 1, cd_total_decoded := cd_total_decoded d + ?n\<rparr>"
  have n: "?n \<le> U64_MAX" using data m by simp
  have sl: "lf \<notin> set (to_hex ?n)" "length (to_hex ?n) < MAX_CHUNK_LINE_BYTES"
    using size_line_hex [OF n] by (simp_all add: size_line_def)
  have "decode_iter d out (to_hex ?n @ crlf @ data @ crlf @ r) =
        (Ok Continue, ?d1, out, data @ crlf @ r)"
    using d data m n with_line_crlf [OF sl d(2), of on_size_line out "data @ crlf @ r"]
    by (simp add: decode_iter_def on_size_line_def parse_chunk_size_hex checked_add_u64_def)
  moreover have "decode_iter ?d1 out (data @ crlf @ r) =
        (Ok Continue, ?d2\<lparr>cd_state := ChunkDataCrlf\<rparr>, out @ data, crlf @ r)"
    using data by (simp add: decode_iter_def on_chunk_data_def)
  moreover have "decode_iter (?d2\<lparr>cd_state := ChunkDataCrlf\<rparr>) (out @ data) (crlf @ r) =
        (Ok Continue, ?d2, out @ data, r)"
    using d with_line_crlf [of "[]" "?d2\<lparr>cd_state := ChunkDataCrlf\<rparr>" on_data_crlf "out @ data" r]
    by (simp add: decode_iter_def on_data_crlf_def MAX_CHUNK_LINE_BYTES_def)
  ultimately have "decode_loop d out (to_hex ?n @ crlf @ data @ crlf @ r) = decode_loop ?d2 (out @ data) r"
    by (metis decode_loop_Continue)
  with data show ?thesis by (simp add: encode_chunk_def)
qed

lemma decode_loop_terminator:
  assumes "cd_state d = ChunkSizeLine" "cd_line_buf d = []" "cd_chunk_count d < MAX_CHUNK_COUNT"
  shows "\<exists>d'. decode_loop d out (encode_terminator [] @ r) = (Ok True, d', out, r)"
proof -
  let ?d1 = "d\<lparr>cd_chunk_count := cd_chunk_count d + 1, cd_state := TrailerLine\<rparr>"
  have "to_hex 0 = ''0''" by code_simp
  with parse_chunk_size_hex [of 0] have "parse_chunk_size ''0'' = Ok 0" by simp
  then have "decode_iter d out (encode_terminator [] @ r) = (Ok Continue, ?d1, out, crlf @ r)"
    using assms with_line_crlf [of "''0''" d on_size_line out "crlf @ r"]
    by (simp add: decode_iter_def on_size_line_def encode_terminator_def MAX_CHUNK_LINE_BYTES_def)
  moreover have "decode_iter ?d1 out (crlf @ r) = (Ok Return_Complete, ?d1\<lparr>cd_state := Done\<rparr>, out, r)"
    using assms with_line_crlf [of "[]" ?d1 on_trailer_line out r]
    by (simp add: decode_iter_def on_trailer_line_def MAX_CHUNK_LINE_BYTES_def)
  ultimately show ?thesis
    by (metis decode_loop_Continue decode_loop_Complete)
qed

lemma decode_loop_message:
  assumes "cd_state d = ChunkSizeLine" "cd_line_buf d = []"
    and "cd_chunk_count d + length (filter (\<lambda>c. c \<noteq> []) cs) < MAX_CHUNK_COUNT"
    and "cd_total_decoded d + length (concat cs) \<le> cd_max_body_bytes d"
    and "cd_max_body_bytes d \<le> U64_MAX"
  shows "\<exists>d'. decode_loop d out (concat (map (\<lambda>c. encode_chunk c []) cs) @ encode_terminator [] @ r) =
          (Ok True, d', out @ concat cs, r)"
  using assms
proof (induction cs arbitrary: d out)
  case Nil
  then show ?case using decode_loop_terminator [of d out r] by simp
next
  case (Cons c cs)
  show ?case
  proof (cases "c = []")
    case True
    with Cons show ?thesis by (simp add: encode_chunk_def)
  next
    case False
    let ?d = "d\<lparr>cd_chunk_count := cd_chunk_count d + 1, cd_total_decoded := cd_total_decoded d + length c\<rparr>"
    let ?rest = "concat (map (\<lambda>c. encode_chunk c []) cs) @ encode_terminator [] @ r"
    from Cons.prems False have "decode_loop d out (encode_chunk c [] @ ?rest) =
        decode_loop ?d (out @ c) ?rest"
      by (intro decode_loop_chunk) auto
    moreover have "\<exists>d'. decode_loop ?d (out @ c) ?rest = (Ok True, d', (out @ c) @ concat cs, r)"
      by (rule Cons.IH) (use Cons.prems False in auto)
    ultimately show ?thesis by simp
  qed
qed


section \<open>Properties\<close>

text \<open>Equations that evaluate the decoder on a concrete input.\<close>

lemmas decode_eval = decode_def decode_loop.simps decode_iter_def with_line_def on_size_line_def
  on_chunk_data_def on_data_crlf_def on_trailer_line_def with_max_body_bytes_def
  MAX_CHUNK_LINE_BYTES_def MAX_CHUNK_COUNT_def checked_add_u64_def
  parse_chunk_size_def u64_of_digits_def radix_val_def digit_val_def ascii_class_defs

text \<open>C33. Round trip. The wire bytes that the streaming write loop produces for a list of chunks
  (empty chunks write nothing, then the terminator) decode, in one call, to exactly the
  concatenated data; the decoder consumes the message to its last byte and no byte of what
  follows it on the connection. The hypotheses are the decoder's own limits.\<close>

theorem chunked_roundtrip:
  assumes "length (filter (\<lambda>c. c \<noteq> []) cs) < MAX_CHUNK_COUNT"
    and "length (concat cs) \<le> m" and "m \<le> U64_MAX"
  shows "\<exists>d'. decode (with_max_body_bytes m) (encode_terminator (fold encode_chunk cs []) @ rest) out =
          (Ok (DecodeOutcome.Complete (length (encode_terminator (fold encode_chunk cs [])))),
           d', out @ concat cs)"
proof -
  let ?w = "concat (map (\<lambda>c. encode_chunk c []) cs) @ encode_terminator []"
  have w: "encode_terminator (fold encode_chunk cs []) = ?w"
    by (simp add: fold_encode_chunk encode_terminator_def)
  have "\<exists>d'. decode_loop (with_max_body_bytes m) out (?w @ rest) = (Ok True, d', out @ concat cs, rest)"
    using decode_loop_message [of "with_max_body_bytes m" cs out rest] assms
    by (simp add: with_max_body_bytes_def)
  then show ?thesis
    unfolding w by (auto simp: decode_def)
qed

theorem chunked_roundtrip_witness:
  "\<exists>d'. decode (with_max_body_bytes 9) (encode_terminator (fold encode_chunk [''Wiki'', [], ''pedia''] []) @ ''GET'') [] =
     (Ok (DecodeOutcome.Complete (length (encode_terminator (fold encode_chunk [''Wiki'', [], ''pedia''] [])))),
      d', [] @ concat [''Wiki'', [], ''pedia''])"
  by (rule chunked_roundtrip) (simp_all add: MAX_CHUNK_COUNT_def)

text \<open>The result of decoding does not depend on how the bytes were cut into reads: decoding
  \<open>a @ b\<close> in one call is decoding \<open>a\<close> and, when the decoder asks for more, continuing with
  \<open>b\<close> on the decoder it left behind, with the consumed counts added up.\<close>

theorem decode_split_invariant:
  "decode d (a @ b) out =
     (case decode d a out of
        (Ok (DecodeOutcome.Incomplete c), d', out') \<Rightarrow>
          (case decode d' (drop c a @ b) out' of
             (Ok (DecodeOutcome.Complete c'), d'', out'') \<Rightarrow> (Ok (DecodeOutcome.Complete (c + c')), d'', out'')
           | (Ok (DecodeOutcome.Incomplete c'), d'', out'') \<Rightarrow> (Ok (DecodeOutcome.Incomplete (c + c')), d'', out'')
           | (Err e, d'', out'') \<Rightarrow> (Err e, d'', out''))
      | r \<Rightarrow> r)"
proof -
  obtain x d' out' r where a: "decode_loop d out a = (x, d', out', r)"
    by (metis prod_cases4)
  have le: "length r \<le> length a" if "decode_loop d out a = (Ok True, d', out', r)"
    using that by (rule decode_loop_rest_le)
  show ?thesis
  proof (cases x)
    case (Inr fin)
    show ?thesis
    proof (cases fin)
      case True
      with a Inr le show ?thesis by (simp add: decode_def decode_loop_append)
    next
      case False
      with a Inr have r: "r = []" by (simp add: decode_loop_Incomplete_rest)
      obtain y d2 out2 r2 where b: "decode_loop d' out' b = (y, d2, out2, r2)"
        by (metis prod_cases4)
      have "length r2 \<le> length b" using b by (rule decode_loop_rest_le)
      with a Inr False r b show ?thesis
        by (cases y) (auto simp: decode_def decode_loop_append Let_def)
    qed
  qed (use a in \<open>simp add: decode_def decode_loop_append\<close>)
qed



text \<open>Soundness of acceptance. When a fresh decoder reports completion, the consumed bytes are
  a message of the chunked grammar (hexadecimal sizes that fit \<^verbatim>\<open>u64\<close>, CRLF line ends only, no
  line of 256 bytes or more, an empty trailer) and the output is the body of that message.\<close>

theorem decode_sound:
  assumes "m \<le> U64_MAX"
    and "decode (with_max_body_bytes m) input out = (Ok (DecodeOutcome.Complete c), d', out')"
  shows "\<exists>body. c \<le> length input \<and> chunked_msg (take c input) body \<and> out' = out @ body \<and> length body \<le> m"
proof -
  obtain rest where l: "decode_loop (with_max_body_bytes m) out input = (Ok True, d', out', rest)"
    and c: "c = length input - length rest"
    using assms(2) by (auto simp: decode_def Let_def split: prod.splits sum.splits if_splits)
  have inv: "decoder_inv (with_max_body_bytes m)" using assms(1) by (rule decoder_inv_new)
  from decode_loop_msg [OF l inv] obtain w body where
    w: "input = w @ rest" "out' = out @ body" "chunked_msg w body"
    by (auto simp: with_max_body_bytes_def)
  from decode_loop_inv [OF l inv] have "length body \<le> m"
    using w(2) by (auto simp: decoder_step_ok_def decoder_inv_def with_max_body_bytes_def
        split: ChunkState.splits)
  with w c show ?thesis by auto
qed

theorem decode_sound_witness:
  "\<exists>body. 16 \<le> length (''4;x'' @ crlf @ ''Wiki'' @ crlf @ ''0'' @ crlf @ crlf @ ''GET'') \<and>
     chunked_msg (take 16 (''4;x'' @ crlf @ ''Wiki'' @ crlf @ ''0'' @ crlf @ crlf @ ''GET'')) body \<and>
     ''Wiki'' = [] @ body \<and> length body \<le> 4"
proof -
  have run: "decode (with_max_body_bytes 4) (''4;x'' @ crlf @ ''Wiki'' @ crlf @ ''0'' @ crlf @ crlf @ ''GET'') [] =
      (Ok (DecodeOutcome.Complete 16),
       \<lparr>cd_state = Done, cd_line_buf = [], cd_total_decoded = 4, cd_chunk_count = 2,
        cd_max_body_bytes = 4\<rparr>, ''Wiki'')"
    by (simp add: decode_eval)
  from decode_sound [OF _ run] show ?thesis by simp
qed

end
