(* ===== verification/Body_Framing.thy ===== *)
theory Body_Framing
  imports Request_Spec Chunked
begin

text \<open>
  \<^verbatim>\<open>crates/http/src/body.rs\<close>: which body a request has, decided from its head. The results say exactly
  when the code answers ``chunked'', ``n bytes'' or ``no body'', so that no head with two framings
  (the input of request smuggling) gets one of these answers.
\<close>

section \<open>The code\<close>

datatype BodyLength = NoBody | FixedBody nat | ChunkedBody

datatype BodyError = TransferEncodingUnsupported | ContentLengthWithChunked | DuplicateContentLength
  | InvalidContentLength | BodyTooLargeError

definition parse_content_length :: "bytes \<Rightarrow> BodyError + nat" where
  "parse_content_length s =
     (if s = [] \<or> \<not> list_all is_ascii_digit s then Err InvalidContentLength
      else ok_or InvalidContentLength (u64_of_digits 10 s))"

fun content_length_loop :: "(bytes \<times> bytes) list \<Rightarrow> nat option \<Rightarrow> BodyError + nat option" where
  "content_length_loop [] content_length = Ok content_length"
| "content_length_loop ((name, val) # hs) content_length =
     (if \<not> eq_ignore_ascii_case name ''content-length'' then content_length_loop hs content_length
      else if content_length \<noteq> None then Err DuplicateContentLength
      else res_bind (parse_content_length val) (\<lambda>n. content_length_loop hs (Some n)))"

definition body_length_with_limit :: "RequestHead \<Rightarrow> nat \<Rightarrow> BodyError + BodyLength" where
  "body_length_with_limit head max_body_bytes =
     (let has_content_length =
            list_ex (\<lambda>(name, _). eq_ignore_ascii_case name ''content-length'') (headers head);
          transfer_encodings =
            map snd (filter (\<lambda>(name, _). eq_ignore_ascii_case name ''transfer-encoding'') (headers head))
      in case iter_next transfer_encodings of
        (Some first, rest) \<Rightarrow>
          let is_single_chunked =
            fst (iter_next rest) = None \<and> eq_ignore_ascii_case (str_trim first) ''chunked'' in
          if rh_version head \<noteq> Http11 \<or> \<not> is_single_chunked then Err TransferEncodingUnsupported
          else if has_content_length then Err ContentLengthWithChunked
          else Ok ChunkedBody
      | (None, _) \<Rightarrow>
          res_bind (content_length_loop (headers head) None) (\<lambda>content_length.
            case content_length of
              None \<Rightarrow> Ok NoBody
            | Some n \<Rightarrow> if n = 0 then Ok NoBody
                else if n > max_body_bytes then Err BodyTooLargeError
                else Ok (FixedBody n)))"

definition body_length :: "RequestHead \<Rightarrow> BodyError + BodyLength" where
  "body_length head = body_length_with_limit head MAX_BODY_BYTES"

section \<open>Values of a header\<close>

definition header_values :: "RequestHead \<Rightarrow> bytes \<Rightarrow> bytes list" where
  "header_values h name = map snd (filter (\<lambda>(n, _). eq_ignore_ascii_case n name) (headers h))"

lemma header_values_Nil_iff:
  "header_values h name = [] \<longleftrightarrow> \<not> list_ex (\<lambda>(n, _). eq_ignore_ascii_case n name) (headers h)"
  by (auto simp: header_values_def filter_empty_conv list_ex_iff)

lemma header_first_value: "header h name = (case header_values h name of [] \<Rightarrow> None | v # _ \<Rightarrow> Some v)"
proof -
  have "map_option (\<lambda>(_, v). slice b v) (find (\<lambda>(k, _). eq_ignore_ascii_case (slice b k) name) hs) =
    (case map snd (filter (\<lambda>(n, _). eq_ignore_ascii_case n name) (map (\<lambda>(k, v). (slice b k, slice b v)) hs)) of
       [] \<Rightarrow> None | v # _ \<Rightarrow> Some v)" for b hs
    by (induction hs) auto
  then show ?thesis by (simp add: header_def header_values_def headers_def)
qed

section \<open>The reference decision\<close>

text \<open>Decide on the two lists of values alone: all \<^verbatim>\<open>Transfer-Encoding\<close> values and all
  \<^verbatim>\<open>Content-Length\<close> values, in order.\<close>

fun framing :: "HttpVersion \<Rightarrow> bytes list \<Rightarrow> bytes list \<Rightarrow> nat \<Rightarrow> BodyError + BodyLength" where
  "framing version [] [] lim = Ok NoBody"
| "framing version [] [v] lim =
     res_bind (parse_content_length v) (\<lambda>n.
       if n = 0 then Ok NoBody else if n > lim then Err BodyTooLargeError else Ok (FixedBody n))"
| "framing version [] (v # w # vs) lim =
     res_bind (parse_content_length v) (\<lambda>_. Err DuplicateContentLength)"
| "framing version [te] cls lim =
     (if version = Http11 \<and> eq_ignore_ascii_case (str_trim te) ''chunked''
      then (if cls = [] then Ok ChunkedBody else Err ContentLengthWithChunked)
      else Err TransferEncodingUnsupported)"
| "framing version (te # te2 # tes) cls lim = Err TransferEncodingUnsupported"

lemma content_length_loop_Some:
  "content_length_loop hs (Some n) =
     (if list_ex (\<lambda>(name, _). eq_ignore_ascii_case name ''content-length'') hs
      then Err DuplicateContentLength else Ok (Some n))"
  by (induction hs) auto

lemma content_length_loop_None:
  "content_length_loop hs None =
     (case map snd (filter (\<lambda>(n, _). eq_ignore_ascii_case n ''content-length'') hs) of
        [] \<Rightarrow> Ok None
      | [v] \<Rightarrow> res_bind (parse_content_length v) (\<lambda>n. Ok (Some n))
      | v # _ \<Rightarrow> res_bind (parse_content_length v) (\<lambda>_. Err DuplicateContentLength))"
proof (induction hs)
  case (Cons h hs)
  obtain n v where h: "h = (n, v)" by (cases h)
  have "map snd (filter (\<lambda>(n, _). eq_ignore_ascii_case n ''content-length'') hs) = [] \<longleftrightarrow>
    \<not> list_ex (\<lambda>(n, _). eq_ignore_ascii_case n ''content-length'') hs"
    by (auto simp: filter_empty_conv list_ex_iff)
  with Cons show ?case
    by (auto simp: h content_length_loop_Some split: list.splits)
qed simp

lemma body_length_framing:
  "body_length_with_limit h lim =
     framing (rh_version h) (header_values h ''transfer-encoding'') (header_values h ''content-length'') lim"
proof (cases "header_values h ''transfer-encoding''")
  case Nil
  then show ?thesis
    by (cases "header_values h ''content-length''" rule: list_tail_cases)
      (auto simp: body_length_with_limit_def content_length_loop_None header_values_def Let_def
        res_bind_assoc split: option.splits intro!: arg_cong [where f = "res_bind _"])
next
  case (Cons te tes)
  then show ?thesis
    using header_values_Nil_iff [of h "''content-length''"]
    by (cases tes) (auto simp: body_length_with_limit_def header_values_def Let_def)
qed

section \<open>Properties\<close>

lemma parse_content_length_Ok:
  "parse_content_length v = Ok n \<longleftrightarrow>
     v \<noteq> [] \<and> list_all is_ascii_digit v \<and> radix_val 10 v = n \<and> n \<le> U64_MAX"
  by (auto simp: parse_content_length_def u64_of_digits_def)

lemma framing_Chunked:
  "framing version tes cls lim = Ok ChunkedBody \<longleftrightarrow> version = Http11 \<and> cls = [] \<and>
     (\<exists>te. tes = [te] \<and> eq_ignore_ascii_case (str_trim te) ''chunked'')"
  by (cases tes rule: list_tail_cases; cases cls rule: list_tail_cases;
      cases "parse_content_length (hd cls)") auto

lemma framing_Fixed:
  "framing version tes cls lim = Ok (FixedBody n) \<longleftrightarrow> tes = [] \<and>
     (\<exists>v. cls = [v] \<and> parse_content_length v = Ok n) \<and> 0 < n \<and> n \<le> lim"
  by (cases tes rule: list_tail_cases; cases cls rule: list_tail_cases;
      cases "parse_content_length (hd cls)") auto

lemma framing_None:
  "framing version tes cls lim = Ok NoBody \<longleftrightarrow> tes = [] \<and>
     (cls = [] \<or> (\<exists>v. cls = [v] \<and> parse_content_length v = Ok 0))"
  by (cases tes rule: list_tail_cases; cases cls rule: list_tail_cases;
      cases "parse_content_length (hd cls)") auto


text \<open>The trim before the comparison removes Unicode white space, not only OWS: a no-break space after
  \<^verbatim>\<open>chunked\<close> is accepted.\<close>

lemma str_trim_nbsp: "str_trim (''chunked'' @ [CHR 0xC2, CHR 0xA0]) = ''chunked''"
  by (simp add: str_trim_def utf8_chunks.simps utf8_char_def is_cont_def is_whitespace_def trim_matches_def)

lemma chunked_with_nbsp_is_accepted:
  assumes "rh_version h = Http11" "header_values h ''content-length'' = []"
    and "header_values h ''transfer-encoding'' = [''chunked'' @ [CHR 0xC2, CHR 0xA0]]"
  shows "body_length_with_limit h lim = Ok ChunkedBody"
  using assms str_trim_nbsp by (simp add: body_length_framing)

end
