(* ===== verification/Recv_Buffer.thy ===== *)
theory Recv_Buffer
  imports Prelude
begin

text \<open>
  \<^verbatim>\<open>crates/http/src/buffer.rs\<close>: the receive buffer of a connection, a vector with a cursor. The
  vector's capacity is part of the state, because the shrinking policy is about it: \<^verbatim>\<open>Vec::reserve\<close>
  grows by the amortised rule of the standard library and \<^verbatim>\<open>Vec::shrink_to\<close> shrinks to the larger of
  the length and the bound. The reader (a \<^verbatim>\<open>tokio\<close> \<^verbatim>\<open>AsyncRead\<close>) is a parameter: a function from its state
  and the spare capacity to an I/O error or the bytes it delivered, and its next state.
  The locale \<open>fifo_bytes\<close> is what the connection code relies on.
\<close>

section \<open>The code\<close>

definition READ_CHUNK_BYTES :: nat where "READ_CHUNK_BYTES = 8 * 1024"
definition MAX_RETAINED_CAPACITY :: nat where "MAX_RETAINED_CAPACITY = 64 * 1024"

record RecvBuffer =
  rb_buf :: bytes
  rb_pos :: nat
  rb_capacity :: nat

definition recv_new :: RecvBuffer where
  "recv_new = \<lparr>rb_buf = [], rb_pos = 0, rb_capacity = 0\<rparr>"

definition unread :: "RecvBuffer \<Rightarrow> bytes" where
  "unread b = drop (rb_pos b) (rb_buf b)"

text \<open>\<open>None\<close> is the panic of the assertion.\<close>

definition consume :: "RecvBuffer \<Rightarrow> nat \<Rightarrow> RecvBuffer option" where
  "consume b n =
     (if rb_pos b + n \<le> length (rb_buf b) then Some (b\<lparr>rb_pos := rb_pos b + n\<rparr>) else None)"

definition take_exact :: "RecvBuffer \<Rightarrow> nat \<Rightarrow> bytes option \<times> RecvBuffer" where
  "take_exact b n =
     (if rb_pos b = 0 \<and> length (rb_buf b) = n
      then (Some (rb_buf b), b\<lparr>rb_buf := [], rb_pos := 0, rb_capacity := 0\<rparr>)
      else (None, b))"

definition vec_reserve :: "nat \<Rightarrow> nat \<Rightarrow> nat \<Rightarrow> nat" where
  "vec_reserve cap len additional =
     (if additional > cap - len then max 8 (max (2 * cap) (len + additional)) else cap)"

definition vec_shrink_to :: "nat \<Rightarrow> nat \<Rightarrow> nat \<Rightarrow> nat" where
  "vec_shrink_to cap len min_capacity = (if cap > min_capacity then max len min_capacity else cap)"

definition compact :: "RecvBuffer \<Rightarrow> RecvBuffer" where
  "compact b =
     (if rb_pos b > 0
      then let unread_len = length (rb_buf b) - rb_pos b;
               moved = (if unread_len > 0
                 then drop (rb_pos b) (rb_buf b) @ drop unread_len (rb_buf b) else rb_buf b)
           in b\<lparr>rb_buf := take unread_len moved, rb_pos := 0\<rparr>
      else b)"

definition reserve_for_read :: "RecvBuffer \<Rightarrow> RecvBuffer" where
  "reserve_for_read b =
     (let b = compact b in
      b\<lparr>rb_capacity := vec_reserve (rb_capacity b) (length (rb_buf b)) READ_CHUNK_BYTES\<rparr>)"

definition shrink_if_oversized :: "RecvBuffer \<Rightarrow> RecvBuffer" where
  "shrink_if_oversized b =
     (if rb_capacity b \<le> MAX_RETAINED_CAPACITY then b
      else let b = compact b in
        b\<lparr>rb_capacity := vec_shrink_to (rb_capacity b) (length (rb_buf b))
            (max MAX_RETAINED_CAPACITY (length (rb_buf b)))\<rparr>)"

type_synonym ('s, 'e) reader = "'s \<Rightarrow> nat \<Rightarrow> ('e + bytes) \<times> 's"

definition spare :: "RecvBuffer \<Rightarrow> nat" where
  "spare b = rb_capacity b - length (rb_buf b)"

definition push_bytes :: "RecvBuffer \<Rightarrow> bytes \<Rightarrow> RecvBuffer" where
  "push_bytes b bs = b\<lparr>rb_buf := rb_buf b @ bs\<rparr>"

definition read_chunk :: "('s, 'e) reader \<Rightarrow> 's \<Rightarrow> RecvBuffer \<Rightarrow> ('e + nat) \<times> 's \<times> RecvBuffer" where
  "read_chunk rd s b =
     (let b = reserve_for_read b in
      case rd s (spare b) of
        (Err e, s) \<Rightarrow> (Err e, s, b)
      | (Ok bs, s) \<Rightarrow> (Ok (length bs), s, push_bytes b bs))"

section \<open>Invariant and contents\<close>

definition recv_inv :: "RecvBuffer \<Rightarrow> bool" where
  "recv_inv b \<longleftrightarrow> rb_pos b \<le> length (rb_buf b) \<and> length (rb_buf b) \<le> rb_capacity b"

lemma recv_new_inv [simp]: "recv_inv recv_new" and unread_new [simp]: "unread recv_new = []"
  by (simp_all add: recv_inv_def recv_new_def unread_def)

lemma consume_Some: "consume b n = Some b' \<Longrightarrow> unread b' = drop n (unread b)"
  by (auto simp: consume_def unread_def add.commute split: if_splits)

lemma consume_inv: "recv_inv b \<Longrightarrow> consume b n = Some b' \<Longrightarrow> recv_inv b'"
  by (auto simp: consume_def recv_inv_def split: if_splits)

lemma consume_ok: "recv_inv b \<Longrightarrow> consume b n = None \<longleftrightarrow> length (unread b) < n"
  by (auto simp: consume_def unread_def recv_inv_def)

lemma consume_obtain:
  assumes "recv_inv b" "n \<le> length (unread b)"
  obtains b' where "consume b n = Some b'" "recv_inv b'" "unread b' = drop n (unread b)"
proof (cases "consume b n")
  case None
  with assms consume_ok show thesis by fastforce
next
  case (Some b')
  with assms(1) consume_inv consume_Some show thesis by (intro that [of b']) blast+
qed

lemma compact_eq: "recv_inv b \<Longrightarrow> compact b = b\<lparr>rb_buf := unread b, rb_pos := 0\<rparr>"
  by (cases b) (auto simp: compact_def unread_def Let_def recv_inv_def)

lemma compact_unread [simp]: "recv_inv b \<Longrightarrow> unread (compact b) = unread b"
  by (simp add: compact_eq unread_def)

lemma compact_inv: "recv_inv b \<Longrightarrow> recv_inv (compact b)"
  by (auto simp: compact_eq recv_inv_def unread_def)

lemma reserve_unread [simp]: "recv_inv b \<Longrightarrow> unread (reserve_for_read b) = unread b"
  by (simp add: reserve_for_read_def compact_eq unread_def Let_def)

lemma reserve_inv: "recv_inv b \<Longrightarrow> recv_inv (reserve_for_read b)"
  by (auto simp: reserve_for_read_def compact_eq recv_inv_def Let_def vec_reserve_def unread_def)

lemma reserve_spare: "recv_inv b \<Longrightarrow> READ_CHUNK_BYTES \<le> spare (reserve_for_read b)"
  by (auto simp: reserve_for_read_def compact_eq recv_inv_def spare_def Let_def vec_reserve_def unread_def)

lemma reserve_pos [simp]: "rb_pos (reserve_for_read b) = 0"
  by (auto simp: reserve_for_read_def compact_def Let_def)

lemma shrink_unread [simp]: "recv_inv b \<Longrightarrow> unread (shrink_if_oversized b) = unread b"
  by (simp add: shrink_if_oversized_def compact_eq unread_def Let_def)

lemma shrink_inv: "recv_inv b \<Longrightarrow> recv_inv (shrink_if_oversized b)"
  by (auto simp: shrink_if_oversized_def compact_eq recv_inv_def Let_def vec_shrink_to_def unread_def)

lemma shrink_capacity:
  "recv_inv b \<Longrightarrow> rb_capacity (shrink_if_oversized b) \<le> max MAX_RETAINED_CAPACITY (length (unread b))"
  by (auto simp: shrink_if_oversized_def compact_eq recv_inv_def Let_def vec_shrink_to_def unread_def)

lemma push_unread: "recv_inv b \<Longrightarrow> unread (push_bytes b bs) = unread b @ bs"
  by (simp add: push_bytes_def unread_def recv_inv_def)

lemma push_inv: "recv_inv b \<Longrightarrow> length bs \<le> spare b \<Longrightarrow> recv_inv (push_bytes b bs)"
  by (auto simp: push_bytes_def recv_inv_def spare_def)

lemma take_exact_Some:
  "take_exact b n = (Some bs, b') \<Longrightarrow> bs = unread b \<and> length (unread b) = n \<and> unread b' = [] \<and> recv_inv b'"
  by (auto simp: take_exact_def unread_def recv_inv_def split: if_splits)

lemma take_exact_None: "take_exact b n = (None, b') \<Longrightarrow> b' = b"
  by (auto simp: take_exact_def split: if_splits)

section \<open>The interface the connection uses\<close>

datatype buf_op = Fill bytes | Eat nat | Tidy

fun run_ops :: "('b \<Rightarrow> nat) \<Rightarrow> ('b \<Rightarrow> bytes \<Rightarrow> 'b) \<Rightarrow> ('b \<Rightarrow> nat \<Rightarrow> 'b option) \<Rightarrow> ('b \<Rightarrow> 'b) \<Rightarrow>
    'b \<Rightarrow> buf_op list \<Rightarrow> 'b option" where
  "run_ops room fill eat tidy b [] = Some b"
| "run_ops room fill eat tidy b (Fill bs # ops) =
     (if length bs \<le> room b then run_ops room fill eat tidy (fill b bs) ops else None)"
| "run_ops room fill eat tidy b (Eat n # ops) =
     (case eat b n of None \<Rightarrow> None | Some b' \<Rightarrow> run_ops room fill eat tidy b' ops)"
| "run_ops room fill eat tidy b (Tidy # ops) = run_ops room fill eat tidy (tidy b) ops"

fun filled :: "buf_op list \<Rightarrow> bytes" where
  "filled [] = []"
| "filled (Fill bs # ops) = bs @ filled ops"
| "filled (_ # ops) = filled ops"

fun eaten :: "buf_op list \<Rightarrow> nat" where
  "eaten [] = 0"
| "eaten (Eat n # ops) = n + eaten ops"
| "eaten (_ # ops) = eaten ops"

text \<open>A byte queue: a fill may deliver at most what the queue offers, and \<open>consume\<close> drops from the front.\<close>

locale fifo_bytes =
  fixes inv :: "'b \<Rightarrow> bool" and content :: "'b \<Rightarrow> bytes" and room :: "'b \<Rightarrow> nat"
    and fill :: "'b \<Rightarrow> bytes \<Rightarrow> 'b" and eat :: "'b \<Rightarrow> nat \<Rightarrow> 'b option" and tidy :: "'b \<Rightarrow> 'b"
  assumes inv_fill: "inv b \<Longrightarrow> length bs \<le> room b \<Longrightarrow> inv (fill b bs)"
    and content_fill: "inv b \<Longrightarrow> length bs \<le> room b \<Longrightarrow> content (fill b bs) = content b @ bs"
    and inv_eat: "inv b \<Longrightarrow> eat b n = Some b' \<Longrightarrow> inv b'"
    and content_eat: "inv b \<Longrightarrow> eat b n = Some b' \<Longrightarrow> content b' = drop n (content b)"
    and eat_panics: "inv b \<Longrightarrow> eat b n = None \<longleftrightarrow> length (content b) < n"
    and inv_tidy: "inv b \<Longrightarrow> inv (tidy b)"
    and content_tidy: "inv b \<Longrightarrow> content (tidy b) = content b"

context fifo_bytes
begin

lemma run_ops_content:
  "inv b \<Longrightarrow> run_ops room fill eat tidy b ops = Some b' \<Longrightarrow>
   inv b' \<and> eaten ops \<le> length (content b @ filled ops) \<and>
   content b' = drop (eaten ops) (content b @ filled ops)"
proof (induction ops arbitrary: b)
  case (Cons op ops)
  show ?case
  proof (cases op)
    case (Fill bs)
    then have r: "length bs \<le> room b" "run_ops room fill eat tidy (fill b bs) ops = Some b'"
      using Cons.prems by (auto split: if_splits)
    with Cons.IH [OF inv_fill r(2)] Fill content_fill [of b bs] Cons.prems(1) show ?thesis
      by (simp add: add.assoc)
  next
    case (Eat n)
    then obtain c where c: "eat b n = Some c" "run_ops room fill eat tidy c ops = Some b'"
      using Cons.prems by (auto split: option.splits)
    then have "n \<le> length (content b)" using eat_panics [of b n] Cons.prems(1) by auto
    with Cons.IH [OF _ c(2)] Eat inv_eat [OF Cons.prems(1) c(1)] content_eat [OF Cons.prems(1) c(1)]
    show ?thesis by (auto simp: add.commute)
  next
    case Tidy
    with Cons.prems Cons.IH [of "tidy b"] inv_tidy [of b] content_tidy [of b] show ?thesis by simp
  qed
qed auto

end

definition fill_buffer :: "RecvBuffer \<Rightarrow> bytes \<Rightarrow> RecvBuffer" where
  "fill_buffer b bs = push_bytes (reserve_for_read b) bs"

interpretation recv_fifo: fifo_bytes recv_inv unread "\<lambda>b. spare (reserve_for_read b)" fill_buffer
  consume shrink_if_oversized
  by unfold_locales
    (simp_all add: fill_buffer_def push_inv reserve_inv push_unread consume_inv consume_Some consume_ok
      shrink_inv)

lemma read_chunk_fill:
  "read_chunk rd s b = (case rd s (spare (reserve_for_read b)) of
     (Err e, s') \<Rightarrow> (Err e, s', reserve_for_read b) | (Ok bs, s') \<Rightarrow> (Ok (length bs), s', fill_buffer b bs))"
  by (simp add: read_chunk_def fill_buffer_def Let_def split: prod.split sum.split)

section \<open>Properties\<close>

text \<open>The buffer is a faithful queue. Whatever interleaving of socket reads, consumptions and
  shrinkings a connection performs on a fresh buffer, as long as no operation panics, the invariant
  holds and the unread bytes are the received stream without the consumed prefix: compaction,
  growth and shrinking neither lose nor reorder a byte.\<close>

theorem recv_buffer_is_fifo:
  assumes "run_ops (\<lambda>b. spare (reserve_for_read b)) fill_buffer consume shrink_if_oversized recv_new ops = Some b"
  shows "recv_inv b \<and> eaten ops \<le> length (filled ops) \<and> unread b = drop (eaten ops) (filled ops)"
  using recv_fifo.run_ops_content [OF recv_new_inv assms] by simp

theorem recv_buffer_is_fifo_witness:
  "\<exists>b. run_ops (\<lambda>b. spare (reserve_for_read b)) fill_buffer consume shrink_if_oversized recv_new
      [Fill ''abc'', Eat 2, Fill ''de'', Tidy, Eat 1] = Some b \<and> recv_inv b \<and> unread b = ''de''"
proof -
  obtain b where b: "run_ops (\<lambda>b. spare (reserve_for_read b)) fill_buffer consume shrink_if_oversized recv_new
      [Fill ''abc'', Eat 2, Fill ''de'', Tidy, Eat 1] = Some b"
    by (simp add: recv_new_def fill_buffer_def push_bytes_def reserve_for_read_def compact_def spare_def
        vec_reserve_def consume_def shrink_if_oversized_def vec_shrink_to_def READ_CHUNK_BYTES_def
        MAX_RETAINED_CAPACITY_def)
  with recv_buffer_is_fifo [OF b] show ?thesis by simp
qed

text \<open>Bounded retention. After a request has been handled the buffer's capacity is at most
  64 KiB or the number of unread bytes it still holds, whichever is larger, and the unread bytes are
  the ones from before.\<close>

theorem shrink_bounds_capacity:
  assumes "recv_inv b"
  shows "rb_capacity (shrink_if_oversized b) \<le> max MAX_RETAINED_CAPACITY (length (unread b)) \<and>
    unread (shrink_if_oversized b) = unread b \<and> recv_inv (shrink_if_oversized b)"
  using assms by (simp add: shrink_capacity shrink_inv)

theorem shrink_bounds_capacity_witness:
  "unread (shrink_if_oversized \<lparr>rb_buf = ''abc'', rb_pos = 1, rb_capacity = 100000\<rparr>) = ''bc''"
  using shrink_bounds_capacity [of "\<lparr>rb_buf = ''abc'', rb_pos = 1, rb_capacity = 100000\<rparr>"]
  by (simp add: recv_inv_def unread_def)

text \<open>After the head has been consumed the cursor is not at 0, and \<^verbatim>\<open>take_exact\<close> returns nothing even when
  the unread bytes are exactly the body.\<close>

lemma take_exact_after_head:
  "\<exists>b. recv_inv b \<and> length (unread b) = 3 \<and> fst (take_exact b 3) = None"
proof -
  define b where "b = \<lparr>rb_buf = ''Habc'', rb_pos = 1, rb_capacity = 8\<rparr>"
  have "recv_inv b \<and> length (unread b) = 3 \<and> fst (take_exact b 3) = None"
    by (simp add: b_def recv_inv_def unread_def take_exact_def)
  then show ?thesis by blast
qed

end
