(* ===== verification/Chunked_Budget.thy ===== *)
theory Chunked_Budget
  imports Chunked
begin

text \<open>
  How many bytes the chunked decoder can swallow before it has to decide. Every byte fed to a decoder
  of \<open>Chunked\<close> spends one unit of a budget computed from the decoder's state and its three limits,
  so a peer cannot keep the decoder asking for more for ever.
\<close>

definition LINE_BUDGET :: nat where "LINE_BUDGET = MAX_CHUNK_LINE_BYTES + 1"

fun state_budget :: "ChunkState \<Rightarrow> nat" where
  "state_budget ChunkSizeLine = LINE_BUDGET"
| "state_budget (ChunkData _) = 2 * LINE_BUDGET"
| "state_budget ChunkDataCrlf = 2 * LINE_BUDGET"
| "state_budget TrailerLine = LINE_BUDGET"
| "state_budget Done = 0"

definition budget :: "ChunkedDecoder \<Rightarrow> nat" where
  "budget d = (cd_max_body_bytes d - cd_total_decoded d)
     + (MAX_CHUNK_COUNT - cd_chunk_count d) * (2 * LINE_BUDGET)
     + state_budget (cd_state d) - length (cd_line_buf d)"

lemma take_line_cost:
  "take_line lb rest = (Ok l, lb', rest') \<Longrightarrow> length lb \<le> MAX_CHUNK_LINE_BYTES \<Longrightarrow>
   length lb + (length rest - length rest') \<le> (if l = None then length lb' else LINE_BUDGET) \<and>
   (l \<noteq> None \<longrightarrow> lb' = [])"
proof (induction lb rest rule: take_line.induct)
  case (2 lb b rest)
  show ?case
  proof (cases "b = lf")
    case True
    with 2 show ?thesis by (auto simp: LINE_BUDGET_def split: if_splits)
  next
    case False
    with "2.prems" have step: "take_line (lb @ [b]) rest = (Ok l, lb', rest')"
      "length (lb @ [b]) \<le> MAX_CHUNK_LINE_BYTES"
      by (auto split: if_splits)
    have "length rest' \<le> length rest" by (rule take_line_rest_le [OF step(1)])
    with "2.IH" [OF False _ step] False step(2) show ?thesis by auto
  qed
qed auto

lemma with_line_cost:
  assumes w: "with_line f d out rest = (Ok c, d', out', rest')" and inv: "decoder_inv d"
    and st: "state_budget (cd_state d) \<ge> LINE_BUDGET"
    and f: "\<And>line. f (d\<lparr>cd_line_buf := []\<rparr>) line = (Ok c, d') \<Longrightarrow>
      budget d' + LINE_BUDGET \<le> budget d + length (cd_line_buf d)"
  shows "budget d' + (length rest - length rest') \<le> budget d"
proof -
  obtain x lb r where t: "take_line (cd_line_buf d) rest = (x, lb, r)"
    by (metis prod_cases3)
  with w obtain l where x: "x = Ok l" by (cases x) (auto simp: with_line_def)
  have len: "length (cd_line_buf d) \<le> MAX_CHUNK_LINE_BYTES" using inv by (simp add: decoder_inv_def)
  note cost = take_line_cost [OF t [unfolded x] len]
  show ?thesis
  proof (cases l)
    case None
    with w t x have d': "d' = d\<lparr>cd_line_buf := lb\<rparr>" "rest' = r" by (auto simp: with_line_def)
    have "length lb \<le> MAX_CHUNK_LINE_BYTES"
      using t x None inv take_line_lb [OF t [unfolded x]] by (simp add: decoder_inv_def)
    then have "length lb \<le> state_budget (cd_state d)" using st by (simp add: LINE_BUDGET_def)
    with cost None d' show ?thesis by (simp add: budget_def)
  next
    case (Some line)
    with cost t x w have "f (d\<lparr>cd_line_buf := []\<rparr>) line = (Ok c, d')" "rest' = r"
      by (auto simp: with_line_def split: prod.splits)
    with f [of line] cost Some show ?thesis by simp
  qed
qed

lemma decode_iter_cost:
  assumes it: "decode_iter d out rest = (Ok c, d', out', rest')" and inv: "decoder_inv d"
  shows "budget d' + (length rest - length rest') \<le> budget d"
proof (cases "cd_state d")
  case ChunkSizeLine
  have lb: "length (cd_line_buf d) \<le> LINE_BUDGET" using inv by (simp add: decoder_inv_def LINE_BUDGET_def)
  have "budget d' + LINE_BUDGET \<le> budget d + length (cd_line_buf d)"
    if "on_size_line (d\<lparr>cd_line_buf := []\<rparr>) line = (Ok c, d')" for line
  proof -
    have c: "cd_chunk_count d < MAX_CHUNK_COUNT"
      "cd_chunk_count d' = Suc (cd_chunk_count d)" "cd_line_buf d' = []"
      "state_budget (cd_state d') \<le> 2 * LINE_BUDGET" "cd_total_decoded d' = cd_total_decoded d"
      "cd_max_body_bytes d' = cd_max_body_bytes d"
      using that by (auto simp: on_size_line_def Let_def split: sum.splits option.splits if_splits)
    then have "MAX_CHUNK_COUNT - cd_chunk_count d = Suc (MAX_CHUNK_COUNT - cd_chunk_count d')" by simp
    with c lb ChunkSizeLine show ?thesis by (simp add: budget_def)
  qed
  with it ChunkSizeLine inv show ?thesis
    by (intro with_line_cost [where f = on_size_line and c = c and out = out and out' = out'])
      (auto simp: decode_iter_def)
next
  case ChunkDataCrlf
  with it inv show ?thesis
    by (intro with_line_cost [where f = on_data_crlf and c = c and out = out and out' = out'])
      (auto simp: decode_iter_def on_data_crlf_def budget_def LINE_BUDGET_def decoder_inv_def
        split: if_splits)
next
  case TrailerLine
  with it inv show ?thesis
    by (intro with_line_cost [where f = on_trailer_line and c = c and out = out and out' = out'])
      (auto simp: decode_iter_def on_trailer_line_def budget_def LINE_BUDGET_def decoder_inv_def
        split: if_splits)
next
  case (ChunkData n)
  with it inv show ?thesis
    by (auto simp: decode_iter_def on_chunk_data_def Let_def decoder_inv_def budget_def
        min_def split: if_splits)
next
  case Done
  with it show ?thesis by (auto simp: decode_iter_def)
qed

lemma decode_loop_cost:
  assumes "decode_loop d out rest = (Ok fin, d', out', rest')" "decoder_inv d"
  shows "budget d' + (length rest - length rest') \<le> budget d"
  using assms
proof (induction d out rest rule: decode_loop_induct)
  case (step d out rest)
  obtain x d1 out1 r1 where it: "decode_iter d out rest = (x, d1, out1, r1)"
    by (metis prod_cases4)
  with step.prems obtain c where x: "x = Ok c"
    by (cases x) (auto simp: decode_loop.simps [of d])
  note one = decode_iter_cost [OF it [unfolded x] step.prems(2)]
  show ?case
  proof (cases c)
    case Continue
    with step.prems it x have l: "decode_loop d1 out1 r1 = (Ok fin, d', out', rest')"
      by (simp add: decode_loop.simps [of d])
    moreover have "decoder_inv d1" using decode_iter_inv it x step.prems(2) by blast
    ultimately have "budget d' + (length r1 - length rest') \<le> budget d1"
      using step.IH it x Continue by blast
    with one decode_loop_rest_le [OF l] show ?thesis by simp
  qed (use step.prems it x one in \<open>auto simp: decode_loop.simps [of d]\<close>)
qed

lemma decode_cost:
  assumes "decode d input out = (Ok (Incomplete n), d', out')" "decoder_inv d"
  shows "n = length input \<and> budget d' + n \<le> budget d \<and> decoder_inv d'"
proof -
  obtain rest where l: "decode_loop d out input = (Ok False, d', out', rest)" "n = length input - length rest"
    using assms(1) by (auto simp: decode_def Let_def split: prod.splits sum.splits if_splits)
  moreover have "rest = []" using decode_loop_Incomplete_rest l(1) by blast
  ultimately show ?thesis
    using decode_loop_cost [OF l(1) assms(2)] decode_loop_inv [OF l(1) assms(2)] by simp
qed

text \<open>The decoder has to decide. A fresh decoder with body limit \<open>m\<close> still asks for more input only
  while it has been given at most \<open>m + 16384 * 514 + 257\<close> bytes; any longer input is accepted or
  rejected.\<close>

theorem decode_must_decide:
  assumes "m \<le> U64_MAX" and "decode (with_max_body_bytes m) input [] = (Ok (Incomplete n), d, out)"
  shows "length input \<le> m + 16384 * 514 + 257"
  using decode_cost [OF assms(2) decoder_inv_new [OF assms(1)]]
  by (simp add: budget_def with_max_body_bytes_def LINE_BUDGET_def MAX_CHUNK_LINE_BYTES_def
      MAX_CHUNK_COUNT_def)

theorem decode_must_decide_witness:
  "\<exists>n d out. decode (with_max_body_bytes 10) ''5'' [] = (Ok (Incomplete n), d, out) \<and>
     length ''5'' \<le> 10 + 16384 * 514 + 257"
proof -
  obtain n d out where d: "decode (with_max_body_bytes 10) ''5'' [] = (Ok (Incomplete n), d, out)"
    by (simp add: decode_eval)
  with decode_must_decide [OF _ d] show ?thesis by auto
qed

end
