(* ===== verification/Connection.thy ===== *)
theory Connection
  imports Body_Framing Recv_Buffer Chunked_Budget
begin

text \<open>
  \<^verbatim>\<open>crates/http/src/connection.rs\<close>: keep-alive and the loops that read one request from a socket into the
  connection's buffer. The reader is the parameter \<open>rd\<close> of \<open>Recv_Buffer\<close>; results carry the reader's
  state and the buffer. In the functions that may panic (\<^verbatim>\<open>RecvBuffer::consume\<close>) or loop on the
  reader (the chunked body), \<open>None\<close> stands for a panic or for not returning; the results show that
  neither happens, for any reader. The locale \<open>stream_reader\<close> describes a peer that sends a byte
  string and closes, in pieces of its own choice; for it, reading a request is a function of the
  bytes alone (\<open>pure_request\<close>).
\<close>

section \<open>Keep-alive\<close>

definition connection_tokens :: "RequestHead \<Rightarrow> bytes list" where
  "connection_tokens head =
     map str_trim (concat (map (\<lambda>(_, val). split_on CHR '','' val)
       (filter (\<lambda>(name, _). eq_ignore_ascii_case name ''connection'') (headers head))))"

definition should_keep_alive :: "RequestHead \<Rightarrow> bool" where
  "should_keep_alive head =
     (let has_close = list_ex (\<lambda>token. eq_ignore_ascii_case token ''close'') (connection_tokens head) in
      case rh_version head of
        Http11 \<Rightarrow> \<not> has_close
      | Http10 \<Rightarrow> \<not> has_close \<and>
          list_ex (\<lambda>token. eq_ignore_ascii_case token ''keep-alive'') (connection_tokens head))"

section \<open>Reading one request\<close>

record Request =
  req_head :: RequestHead
  req_body :: bytes

datatype 'e RequestError = Parse ParseError | Body BodyError | ChunkedBodyError ChunkedError
  | UnexpectedEof | Io 'e

abbreviation USIZE_MAX :: nat where "USIZE_MAX \<equiv> U64_MAX"

lemma unread_fill: "unread (fill_buffer b bs) = unread b @ bs"
  by (auto simp: unread_def fill_buffer_def push_bytes_def reserve_for_read_def compact_def Let_def)

lemma Incomplete_short: "parse_request_head mm buf = Ok HeadIncomplete \<Longrightarrow> length buf < MAX_HEADER_BYTES"
  by (auto simp: parse_request_head_def res_bind_def split: option.splits if_splits sum.splits)

lemma read_chunk_grows:
  "read_chunk rd s b = (Ok n, s', b') \<Longrightarrow> length (unread b') = length (unread b) + n"
  by (auto simp: read_chunk_fill unread_fill split: prod.splits sum.splits)

function read_head :: "search \<Rightarrow> ('s, 'e) reader \<Rightarrow> 's \<Rightarrow> RecvBuffer \<Rightarrow>
    ('e RequestError + (RequestHead \<times> nat) option) \<times> 's \<times> RecvBuffer" where
  "read_head mm rd s b =
     (case parse_request_head mm (unread b) of
        Err e \<Rightarrow> (Err (Parse e), s, b)
      | Ok (HeadComplete head consumed) \<Rightarrow> (Ok (Some (head, consumed)), s, b)
      | Ok HeadIncomplete \<Rightarrow>
          (let started_empty = (unread b = []) in
           case read_chunk rd s b of
             (Err e, s, b) \<Rightarrow> (Err (Io e), s, b)
           | (Ok n, s, b) \<Rightarrow>
               if n = 0 then (if started_empty then Ok None else Err UnexpectedEof, s, b)
               else read_head mm rd s b))"
  by pat_completeness auto
termination
  by (relation "measure (\<lambda>(_, _, _, b). MAX_HEADER_BYTES - length (unread b))")
    (auto dest!: Incomplete_short read_chunk_grows [OF sym])

function fill_body :: "('s, 'e) reader \<Rightarrow> nat \<Rightarrow> 's \<Rightarrow> RecvBuffer \<Rightarrow>
    ('e RequestError + unit) \<times> 's \<times> RecvBuffer" where
  "fill_body rd n s b =
     (if length (unread b) < n then
        case read_chunk rd s b of
          (Err e, s, b) \<Rightarrow> (Err (Io e), s, b)
        | (Ok k, s, b) \<Rightarrow> if k = 0 then (Err UnexpectedEof, s, b) else fill_body rd n s b
      else (Ok (), s, b))"
  by pat_completeness auto
termination
  by (relation "measure (\<lambda>(_, n, _, b). n - length (unread b))") (auto dest!: read_chunk_grows [OF sym])

declare read_head.simps [simp del] fill_body.simps [simp del]

definition read_body :: "('s, 'e) reader \<Rightarrow> 's \<Rightarrow> RecvBuffer \<Rightarrow> nat \<Rightarrow>
    (('e RequestError + bytes) \<times> 's \<times> RecvBuffer) option" where
  "read_body rd s b n =
     (if n > USIZE_MAX then Some (Err (Body BodyTooLargeError), s, b)
      else case fill_body rd n s b of
        (Err e, s, b) \<Rightarrow> Some (Err e, s, b)
      | (Ok _, s, b) \<Rightarrow>
          (case take_exact b n of
             (Some body, b) \<Rightarrow> Some (Ok body, s, b)
           | (None, b) \<Rightarrow>
               (let body = take n (unread b) in
                map_option (\<lambda>b. (Ok body, s, b)) (consume b n))))"

partial_function (option) chunked_loop ::
  "('s, 'e) reader \<Rightarrow> ChunkedDecoder \<Rightarrow> bytes \<Rightarrow> 's \<Rightarrow> RecvBuffer \<Rightarrow>
   (('e RequestError + bytes) \<times> 's \<times> RecvBuffer) option" where
  "chunked_loop rd decoder body s b =
     (case decode decoder (unread b) body of
        (Err e, _, _) \<Rightarrow> Some (Err (ChunkedBodyError e), s, b)
      | (Ok (Complete consumed), _, body) \<Rightarrow>
          map_option (\<lambda>b. (Ok body, s, b)) (consume b consumed)
      | (Ok (Incomplete consumed), decoder, body) \<Rightarrow>
          (case consume b consumed of None \<Rightarrow> None | Some b \<Rightarrow>
             (case read_chunk rd s b of
                (Err e, s, b) \<Rightarrow> Some (Err (Io e), s, b)
              | (Ok n, s, b) \<Rightarrow>
                  if n = 0 then Some (Err UnexpectedEof, s, b)
                  else chunked_loop rd decoder body s b)))"

definition read_body_chunked :: "('s, 'e) reader \<Rightarrow> 's \<Rightarrow> RecvBuffer \<Rightarrow> nat \<Rightarrow>
    (('e RequestError + bytes) \<times> 's \<times> RecvBuffer) option" where
  "read_body_chunked rd s b max_body_bytes =
     chunked_loop rd (with_max_body_bytes max_body_bytes) [] s b"

definition read_request_with_limit :: "search \<Rightarrow> ('s, 'e) reader \<Rightarrow> 's \<Rightarrow> RecvBuffer \<Rightarrow> nat \<Rightarrow>
    (('e RequestError + Request option) \<times> 's \<times> RecvBuffer) option" where
  "read_request_with_limit mm rd s b max_body_bytes =
     (case read_head mm rd s b of
        (Err e, s, b) \<Rightarrow> Some (Err e, s, b)
      | (Ok None, s, b) \<Rightarrow> Some (Ok None, s, b)
      | (Ok (Some (head, consumed)), s, b) \<Rightarrow>
          (case consume b consumed of None \<Rightarrow> None | Some b \<Rightarrow>
             (case (case body_length_with_limit head max_body_bytes of
                      Err e \<Rightarrow> Some (Err (Body e), s, b)
                    | Ok NoBody \<Rightarrow> Some (Ok [], s, b)
                    | Ok (FixedBody n) \<Rightarrow> read_body rd s b n
                    | Ok ChunkedBody \<Rightarrow> read_body_chunked rd s b max_body_bytes) of
                None \<Rightarrow> None
              | Some (Err e, s, b) \<Rightarrow> Some (Err e, s, b)
              | Some (Ok body, s, b) \<Rightarrow>
                  Some (Ok (Some \<lparr>req_head = head, req_body = body\<rparr>), s, shrink_if_oversized b))))"

definition read_request :: "search \<Rightarrow> ('s, 'e) reader \<Rightarrow> 's \<Rightarrow> RecvBuffer \<Rightarrow>
    (('e RequestError + Request option) \<times> 's \<times> RecvBuffer) option" where
  "read_request mm rd s b = read_request_with_limit mm rd s b MAX_BODY_BYTES"

section \<open>The loops return, whatever the reader does\<close>

text \<open>What \<^verbatim>\<open>AsyncRead\<close> promises: at most the offered capacity is filled.\<close>

locale bounded_reader =
  fixes rd :: "('s, 'e) reader"
  assumes rd_bounded: "rd s n = (Ok bs, s') \<Longrightarrow> length bs \<le> n"
begin

lemma read_chunk_inv:
  assumes "recv_inv b" "read_chunk rd s b = (x, s', b')"
  shows "recv_inv b'"
  using assms rd_bounded [of s "spare (reserve_for_read b)"] recv_fifo.inv_fill [OF assms(1)]
  by (auto simp: read_chunk_fill reserve_inv split: prod.splits sum.splits)

lemma read_head_inv:
  "recv_inv b \<Longrightarrow> read_head mm rd s b = (x, s', b') \<Longrightarrow> recv_inv b' \<and>
   (\<forall>h n. x = Ok (Some (h, n)) \<longrightarrow> parse_request_head mm (unread b') = Ok (HeadComplete h n))"
proof (induction "MAX_HEADER_BYTES - length (unread b)" arbitrary: s b rule: less_induct)
  case less
  show ?case
  proof (cases "parse_request_head mm (unread b) = Ok HeadIncomplete")
    case True
    obtain y s1 b1 where rc: "read_chunk rd s b = (y, s1, b1)" by (metis prod_cases3)
    have inv1: "recv_inv b1" by (rule read_chunk_inv [OF less.prems(1) rc])
    show ?thesis
    proof (cases "\<exists>k>0. y = Ok k")
      case k: True
      then have "read_head mm rd s1 b1 = (x, s', b')"
        using less.prems(2) True rc by (auto simp: read_head.simps [of mm rd s b])
      moreover have "MAX_HEADER_BYTES - length (unread b1) < MAX_HEADER_BYTES - length (unread b)"
        using Incomplete_short [OF True] k read_chunk_grows rc by fastforce
      ultimately show ?thesis using less.hyps inv1 by blast
    next
      case False
      with less.prems(2) True rc inv1 show ?thesis
        by (cases y) (auto simp: read_head.simps [of mm rd s b] split: if_splits)
    qed
  next
    case False
    with less.prems show ?thesis
      by (auto simp: read_head.simps [of mm rd s b] split: sum.splits ParseOutcome.splits)
  qed
qed

lemma fill_body_inv:
  "recv_inv b \<Longrightarrow> fill_body rd n s b = (x, s', b') \<Longrightarrow> recv_inv b' \<and>
   (x = Ok () \<longrightarrow> n \<le> length (unread b'))"
proof (induction "n - length (unread b)" arbitrary: s b rule: less_induct)
  case less
  obtain y s1 b1 where rc: "read_chunk rd s b = (y, s1, b1)" by (metis prod_cases3)
  have inv1: "recv_inv b1" by (rule read_chunk_inv [OF less.prems(1) rc])
  show ?case
  proof (cases "length (unread b) < n \<and> (\<exists>k>0. y = Ok k)")
    case True
    then have "fill_body rd n s1 b1 = (x, s', b')"
      using less.prems(2) rc by (auto simp: fill_body.simps [of rd n s b])
    moreover have "n - length (unread b1) < n - length (unread b)"
      using True read_chunk_grows rc by fastforce
    ultimately show ?thesis using less.hyps inv1 by blast
  next
    case False
    with less.prems rc inv1 show ?thesis
      by (cases y) (auto simp: fill_body.simps [of rd n s b] split: if_splits)
  qed
qed

lemma read_body_returns:
  assumes "recv_inv b"
  shows "\<exists>x s' b'. read_body rd s b n = Some (x, s', b') \<and> recv_inv b'"
proof -
  obtain x s1 b1 where f: "fill_body rd n s b = (x, s1, b1)" by (metis prod_cases3)
  note fi = fill_body_inv [OF assms f]
  obtain y b2 where t: "take_exact b1 n = (y, b2)" by (cases "take_exact b1 n")
  show ?thesis
  proof (cases "n > USIZE_MAX \<or> x \<noteq> Ok ()")
    case True
    with assms f fi show ?thesis by (cases x) (auto simp: read_body_def)
  next
    case False
    then obtain b3 where "consume b1 n = Some b3" "recv_inv b3"
      using fi consume_obtain [of b1 n] by blast
    with False f t take_exact_Some [of b1 n _ b2] take_exact_None [of b1 n b2] show ?thesis
      by (cases y) (auto simp: read_body_def Let_def)
  qed
qed

lemma chunked_loop_returns:
  assumes "recv_inv b" "decoder_inv d"
  shows "\<exists>x s' b'. chunked_loop rd d body s b = Some (x, s', b') \<and> recv_inv b'"
  using assms
proof (induction "2 * budget d + (if unread b = [] then 1 else 0)" arbitrary: d body s b rule: less_induct)
  case less
  obtain r d1 body1 where dec: "decode d (unread b) body = (r, d1, body1)" by (metis prod_cases3)
  show ?case
  proof (cases r)
    case (Inl e)
    with dec less.prems show ?thesis by (simp add: chunked_loop.simps [of rd d])
  next
    case (Inr out)
    have eat: "\<exists>b1. consume b n = Some b1 \<and> recv_inv b1 \<and> unread b1 = drop n (unread b)"
      if "n \<le> length (unread b)" for n
      using consume_obtain [OF less.prems(1) that] by metis
    show ?thesis
    proof (cases out)
      case (Complete n)
      then have "n \<le> length (unread b)"
        using dec Inr by (auto simp: decode_def Let_def split: prod.splits sum.splits if_splits)
      with eat [of n] Complete Inr dec show ?thesis by (auto simp: chunked_loop.simps [of rd d])
    next
      case (Incomplete n)
      note cost = decode_cost [OF dec [unfolded Inr Incomplete] less.prems(2)]
      obtain b1 where b1: "consume b n = Some b1" "recv_inv b1" "unread b1 = []"
        using eat [of n] cost by auto
      obtain y s2 b2 where rc: "read_chunk rd s b1 = (y, s2, b2)" by (metis prod_cases3)
      have inv2: "recv_inv b2" by (rule read_chunk_inv [OF b1(2) rc])
      show ?thesis
      proof (cases "\<exists>k>0. y = Ok k")
        case True
        then obtain k where k: "y = Ok k" "0 < k" by blast
        with read_chunk_grows rc have "unread b2 \<noteq> []" by fastforce
        with cost have "2 * budget d1 + (if unread b2 = [] then 1 else 0)
          < 2 * budget d + (if unread b = [] then 1 else 0)"
          by (cases "unread b") auto
        from less.hyps [OF this inv2] cost show ?thesis
          using dec Inr Incomplete b1 rc k by (simp add: chunked_loop.simps [of rd d])
      next
        case False
        with dec Inr Incomplete b1 rc inv2 show ?thesis
          by (cases y) (auto simp: chunked_loop.simps [of rd d])
      qed
    qed
  qed
qed

lemma read_request_returns:
  assumes mm: "substring_search mm" and inv: "recv_inv b" and lim: "lim \<le> U64_MAX"
  shows "\<exists>x s' b'. read_request_with_limit mm rd s b lim = Some (x, s', b') \<and> recv_inv b'"
proof -
  obtain x s1 b1 where rh: "read_head mm rd s b = (x, s1, b1)" by (metis prod_cases3)
  note hi = read_head_inv [OF inv rh]
  show ?thesis
  proof (cases "\<exists>h n. x = Ok (Some (h, n))")
    case True
    then obtain h n where x: "x = Ok (Some (h, n))" by blast
    have "\<exists>rest. unread b1 = rh_buf h @ TERMINATOR @ rest" "n = length (rh_buf h) + 4"
      using substring_search.parse_request_head_section(3,4) [OF mm] hi x by blast+
    then have "n \<le> length (unread b1)" by auto
    then obtain b2 where b2: "consume b1 n = Some b2" "recv_inv b2"
      using hi consume_obtain [of b1 n] by blast
    have "\<exists>y s3 b3. (case body_length_with_limit h lim of
        Err e \<Rightarrow> Some (Err (Body e), s1, b2) | Ok NoBody \<Rightarrow> Some (Ok [], s1, b2)
      | Ok (FixedBody n) \<Rightarrow> read_body rd s1 b2 n
      | Ok ChunkedBody \<Rightarrow> read_body_chunked rd s1 b2 lim) = Some (y, s3, b3) \<and> recv_inv b3"
      using b2(2) read_body_returns [OF b2(2)] chunked_loop_returns [OF b2(2) decoder_inv_new [OF lim]]
      by (auto simp: read_body_chunked_def split: sum.split BodyLength.split)
    then obtain y s3 b3 where "(case body_length_with_limit h lim of
        Err e \<Rightarrow> Some (Err (Body e), s1, b2) | Ok NoBody \<Rightarrow> Some (Ok [], s1, b2)
      | Ok (FixedBody n) \<Rightarrow> read_body rd s1 b2 n
      | Ok ChunkedBody \<Rightarrow> read_body_chunked rd s1 b2 lim) = Some (y, s3, b3)" "recv_inv b3"
      by blast
    with rh x b2 show ?thesis
      by (cases y) (simp_all add: read_request_with_limit_def shrink_inv)
  next
    case False
    with rh hi show ?thesis
      by (cases x) (auto simp: read_request_with_limit_def split: option.splits)
  qed
qed

end

section \<open>A request as a function of the bytes of the stream\<close>

definition pure_head :: "search \<Rightarrow> bytes \<Rightarrow> 'e RequestError + (RequestHead \<times> nat) option" where
  "pure_head mm input =
     (case parse_request_head mm input of
        Err e \<Rightarrow> Err (Parse e)
      | Ok (HeadComplete h n) \<Rightarrow> Ok (Some (h, n))
      | Ok HeadIncomplete \<Rightarrow> if input = [] then Ok None else Err UnexpectedEof)"

definition pure_body :: "BodyLength \<Rightarrow> nat \<Rightarrow> bytes \<Rightarrow> 'e RequestError + bytes \<times> bytes" where
  "pure_body len lim rest =
     (case len of
        NoBody \<Rightarrow> Ok ([], rest)
      | FixedBody n \<Rightarrow> if n \<le> length rest then Ok (take n rest, drop n rest) else Err UnexpectedEof
      | ChunkedBody \<Rightarrow>
          (case decode (with_max_body_bytes lim) rest [] of
             (Err e, _, _) \<Rightarrow> Err (ChunkedBodyError e)
           | (Ok (Complete n), _, body) \<Rightarrow> Ok (body, drop n rest)
           | (Ok (Incomplete _), _, _) \<Rightarrow> Err UnexpectedEof))"

text \<open>The result of reading one request, with the bytes left for the next one.\<close>

definition pure_request :: "search \<Rightarrow> nat \<Rightarrow> bytes \<Rightarrow> 'e RequestError + (Request \<times> bytes) option" where
  "pure_request mm lim input =
     res_bind (pure_head mm input) (\<lambda>hn. case hn of
         None \<Rightarrow> Ok None
       | Some (h, n) \<Rightarrow>
           res_bind (map_err Body (body_length_with_limit h lim)) (\<lambda>len.
           res_bind (pure_body len lim (drop n input)) (\<lambda>(body, rest).
             Ok (Some (\<lparr>req_head = h, req_body = body\<rparr>, rest)))))"

lemma decode_append:
  "decode d (a @ b) out =
     (case decode d a out of
        (Ok (Incomplete c), d', out') \<Rightarrow>
          (case decode d' b out' of
             (Ok (Complete c'), d'', out'') \<Rightarrow> (Ok (Complete (length a + c')), d'', out'')
           | (Ok (Incomplete c'), d'', out'') \<Rightarrow> (Ok (Incomplete (length a + c')), d'', out'')
           | (Err e, d'', out'') \<Rightarrow> (Err e, d'', out''))
      | r \<Rightarrow> r)"
proof -
  obtain x d' out' r where a: "decode_loop d out a = (x, d', out', r)" by (metis prod_cases4)
  obtain y d2 out2 r2 where b: "decode_loop d' out' b = (y, d2, out2, r2)" by (metis prod_cases4)
  have le: "length r \<le> length a" "length r2 \<le> length b"
    using decode_loop_rest_le a b by blast+
  show ?thesis
  proof (cases "x = Ok False")
    case True
    with a b le show ?thesis
      by (cases y) (auto simp: decode_def decode_loop_append Let_def)
  next
    case False
    with a le show ?thesis
      by (cases x) (auto simp: decode_def decode_loop_append Let_def)
  qed
qed

locale stream_reader = bounded_reader rd for rd :: "('s, 'e) reader" +
  fixes stream :: "'s \<Rightarrow> bytes"
  assumes rd_stream: "\<exists>bs s'. rd s n = (Ok bs, s') \<and> stream s = bs @ stream s' \<and>
    (0 < n \<and> bs = [] \<longrightarrow> stream s = [])"
begin

lemma read_chunk_stream:
  assumes "recv_inv b"
  obtains bs s' where "read_chunk rd s b = (Ok (length bs), s', fill_buffer b bs)"
    "stream s = bs @ stream s'" "bs = [] \<longrightarrow> stream s = []" "recv_inv (fill_buffer b bs)"
proof -
  have "0 < spare (reserve_for_read b)"
    using reserve_spare [OF assms] by (simp add: READ_CHUNK_BYTES_def)
  then obtain bs s' where "rd s (spare (reserve_for_read b)) = (Ok bs, s')"
    "stream s = bs @ stream s'" "bs = [] \<Longrightarrow> stream s = []"
    using rd_stream [of s "spare (reserve_for_read b)"] by auto
  moreover from this have "read_chunk rd s b = (Ok (length bs), s', fill_buffer b bs)"
    by (simp add: read_chunk_fill)
  ultimately show thesis using that read_chunk_inv [OF assms] by blast
qed

lemma read_head_pure:
  assumes mm: "substring_search mm" and "recv_inv b"
  shows "\<exists>s' b'. read_head mm rd s b = (pure_head mm (unread b @ stream s), s', b') \<and>
    unread b' @ stream s' = unread b @ stream s \<and> recv_inv b'"
  using assms(2)
proof (induction "MAX_HEADER_BYTES - length (unread b)" arbitrary: s b rule: less_induct)
  case less
  show ?case
  proof (cases "parse_request_head mm (unread b) = Ok HeadIncomplete")
    case True
    obtain bs s1 where rc: "read_chunk rd s b = (Ok (length bs), s1, fill_buffer b bs)"
      "stream s = bs @ stream s1" "bs = [] \<longrightarrow> stream s = []" "recv_inv (fill_buffer b bs)"
      by (rule read_chunk_stream [OF less.prems, of s])
    show ?thesis
    proof (cases "bs = []")
      case eof: True
      with rc True show ?thesis
        by (simp add: read_head.simps [of mm rd s b] pure_head_def unread_fill)
    next
      case False
      then have "MAX_HEADER_BYTES - length (unread (fill_buffer b bs)) < MAX_HEADER_BYTES - length (unread b)"
        using Incomplete_short [OF True] by (cases bs) (simp_all add: unread_fill)
      from less.hyps [OF this rc(4), of s1] False True rc(1,2) show ?thesis
        by (simp add: read_head.simps [of mm rd s b] unread_fill)
    qed
  next
    case False
    then have "parse_request_head mm (unread b @ stream s) = parse_request_head mm (unread b)"
      using substring_search.parse_decided [OF mm refl] by blast
    with False less.prems show ?thesis
      by (auto simp: read_head.simps [of mm rd s b] pure_head_def split: sum.split ParseOutcome.split)
  qed
qed

lemma fill_body_pure:
  assumes "recv_inv b"
  shows "\<exists>s' b'. fill_body rd n s b =
      (if n \<le> length (unread b @ stream s) then Ok () else Err UnexpectedEof, s', b') \<and>
    unread b' @ stream s' = unread b @ stream s \<and> recv_inv b'"
  using assms
proof (induction "n - length (unread b)" arbitrary: s b rule: less_induct)
  case less
  show ?case
  proof (cases "length (unread b) < n")
    case True
    obtain bs s1 where rc: "read_chunk rd s b = (Ok (length bs), s1, fill_buffer b bs)"
      "stream s = bs @ stream s1" "bs = [] \<longrightarrow> stream s = []" "recv_inv (fill_buffer b bs)"
      by (rule read_chunk_stream [OF less.prems, of s])
    show ?thesis
    proof (cases "bs = []")
      case eof: True
      with rc True show ?thesis by (simp add: fill_body.simps [of rd n s b] unread_fill)
    next
      case False
      then have "n - length (unread (fill_buffer b bs)) < n - length (unread b)"
        using True by (cases bs) (simp_all add: unread_fill)
      from less.hyps [OF this rc(4), of s1] False True rc(1,2) show ?thesis
        by (simp add: fill_body.simps [of rd n s b] unread_fill add.assoc)
    qed
  next
    case False
    with less.prems show ?thesis by (simp add: fill_body.simps [of rd n s b])
  qed
qed

lemma read_body_pure:
  assumes inv: "recv_inv b" and n: "n \<le> USIZE_MAX"
  shows "\<exists>s' b'. recv_inv b' \<and>
    (if n \<le> length (unread b @ stream s)
     then read_body rd s b n = Some (Ok (take n (unread b @ stream s)), s', b') \<and>
       unread b' @ stream s' = drop n (unread b @ stream s)
     else read_body rd s b n = Some (Err UnexpectedEof, s', b'))"
proof -
  obtain s1 b1 where f: "fill_body rd n s b =
      (if n \<le> length (unread b @ stream s) then Ok () else Err UnexpectedEof, s1, b1)"
    and eq: "unread b1 @ stream s1 = unread b @ stream s" and inv1: "recv_inv b1"
    using fill_body_pure [OF inv, of n s] by blast
  show ?thesis
  proof (cases "n \<le> length (unread b @ stream s)")
    case True
    have le: "n \<le> length (unread b1)" using fill_body_inv [OF inv f] True by simp
    have body: "take n (unread b1) = take n (unread b @ stream s)"
      "drop n (unread b1) @ stream s1 = drop n (unread b @ stream s)"
      using le by (simp_all add: eq [symmetric] del: take_append drop_append)
        (simp_all add: take_append drop_append)
    obtain b2 where "read_body rd s b n = Some (Ok (take n (unread b1)), s1, b2)" "recv_inv b2"
      "unread b2 = drop n (unread b1)"
    proof (cases "take_exact b1 n")
      case (Pair y b2)
      obtain b3 where b3: "consume b1 n = Some b3" "recv_inv b3" "unread b3 = drop n (unread b1)"
        using consume_obtain [OF inv1 le] .
      from Pair b3 f True n show thesis
        using that take_exact_Some [of b1 n _ b2] take_exact_None [of b1 n b2]
        by (cases y) (auto simp: read_body_def Let_def)
    qed
    with True body show ?thesis
      by (intro exI [of _ s1] exI [of _ b2]) (simp del: take_append drop_append length_append)
  next
    case False
    with f n inv1 show ?thesis by (auto simp: read_body_def)
  qed
qed

lemma chunked_loop_pure:
  assumes "recv_inv b" "decoder_inv d"
  shows "\<exists>s' b'. recv_inv b' \<and>
    (case decode d (unread b @ stream s) body of
       (Err e, _, _) \<Rightarrow> chunked_loop rd d body s b = Some (Err (ChunkedBodyError e), s', b')
     | (Ok (Complete n), _, body') \<Rightarrow> chunked_loop rd d body s b = Some (Ok body', s', b') \<and>
         unread b' @ stream s' = drop n (unread b @ stream s)
     | (Ok (Incomplete _), _, _) \<Rightarrow> chunked_loop rd d body s b = Some (Err UnexpectedEof, s', b'))"
  using assms
proof (induction "length (stream s)" arbitrary: d body s b rule: less_induct)
  case less
  obtain r d1 body1 where dec: "decode d (unread b) body = (r, d1, body1)" by (metis prod_cases3)
  have eat: "\<exists>b1. consume b n = Some b1 \<and> recv_inv b1 \<and> unread b1 = drop n (unread b)"
    if "n \<le> length (unread b)" for n
    using consume_obtain [OF less.prems(1) that] by metis
  consider e where "r = Err e" | n where "r = Ok (Complete n)" | n where "r = Ok (Incomplete n)"
    by (metis DecodeOutcome.exhaust old.sum.exhaust)
  then show ?case
  proof cases
    case (1 e)
    with dec less.prems show ?thesis by (auto simp: decode_append chunked_loop.simps [of rd d])
  next
    case (2 n)
    then have n: "n \<le> length (unread b)"
      using dec by (auto simp: decode_def Let_def split: prod.splits sum.splits if_splits)
    with eat [of n] 2 dec show ?thesis by (auto simp: decode_append chunked_loop.simps [of rd d])
  next
    case (3 n)
    note cost = decode_cost [OF dec [unfolded 3] less.prems(2)]
    obtain b1 where b1: "consume b n = Some b1" "recv_inv b1" "unread b1 = []"
      using eat [of n] cost by auto
    obtain bs s1 where rc: "read_chunk rd s b1 = (Ok (length bs), s1, fill_buffer b1 bs)"
      "stream s = bs @ stream s1" "bs = [] \<longrightarrow> stream s = []" "recv_inv (fill_buffer b1 bs)"
      by (rule read_chunk_stream [OF b1(2), of s])
    show ?thesis
    proof (cases "bs = []")
      case True
      with 3 dec b1 rc show ?thesis
        by (auto simp: chunked_loop.simps [of rd d] decode_append)
    next
      case False
      have step: "chunked_loop rd d body s b = chunked_loop rd d1 body1 s1 (fill_buffer b1 bs)"
        using 3 dec b1 rc False by (simp add: chunked_loop.simps [of rd d])
      have "length (stream s1) < length (stream s)" using rc(2) False by simp
      note IH = less.hyps [OF this rc(4), of d1 body1]
      obtain q d2 body2 where q: "decode d1 (bs @ stream s1) body1 = (q, d2, body2)" by (metis prod_cases3)
      have full: "decode d (unread b @ stream s) body = (case q of Err e \<Rightarrow> (Err e, d2, body2)
        | Ok (Complete c) \<Rightarrow> (Ok (Complete (length (unread b) + c)), d2, body2)
        | Ok (Incomplete c) \<Rightarrow> (Ok (Incomplete (length (unread b) + c)), d2, body2))"
        using 3 dec q rc(2) by (simp add: decode_append [of d] split: sum.split DecodeOutcome.split)
      from IH cost b1(3) q rc(2) show ?thesis
        unfolding step full by (auto simp: unread_fill split: sum.splits DecodeOutcome.splits)
    qed
  qed
qed

lemma read_request_pure:
  assumes mm: "substring_search mm" and inv: "recv_inv b" and lim: "lim \<le> U64_MAX"
  shows "\<exists>s' b'. recv_inv b' \<and> (case pure_request mm lim (unread b @ stream s) of
      Err e \<Rightarrow> read_request_with_limit mm rd s b lim = Some (Err e, s', b')
    | Ok None \<Rightarrow> read_request_with_limit mm rd s b lim = Some (Ok None, s', b')
    | Ok (Some (req, rest)) \<Rightarrow> read_request_with_limit mm rd s b lim = Some (Ok (Some req), s', b') \<and>
        unread b' @ stream s' = rest)"
proof -
  define input where "input = unread b @ stream s"
  obtain s1 b1 where rh: "read_head mm rd s b = (pure_head mm input, s1, b1)"
    and eq: "unread b1 @ stream s1 = input" and inv1: "recv_inv b1"
    using read_head_pure [OF mm inv, of s] unfolding input_def by blast
  show ?thesis
  proof (cases "\<exists>h n. pure_head mm input = (Ok (Some (h, n)) :: 'e RequestError + _)")
    case False
    then consider e where "pure_head mm input = (Err e :: 'e RequestError + _)"
      | "pure_head mm input = (Ok None :: 'e RequestError + _)"
      by (metis not_Some_eq old.sum.exhaust prod.exhaust)
    then show ?thesis
    proof cases
      case 1
      with rh inv1 show ?thesis
        by (auto simp: input_def [symmetric] pure_request_def read_request_with_limit_def)
    next
      case 2
      with rh inv1 show ?thesis
        by (auto simp: input_def [symmetric] pure_request_def read_request_with_limit_def)
    qed
  next
    case True
    then obtain h n where hn: "pure_head mm input = (Ok (Some (h, n)) :: 'e RequestError + _)" by blast
    have "parse_request_head mm (unread b1) = Ok (HeadComplete h n)"
      using read_head_inv [OF inv rh] hn by simp
    then have le: "n \<le> length (unread b1)"
      using substring_search.parse_request_head_section(3,4) [OF mm] by fastforce
    obtain b2 where b2: "consume b1 n = Some b2" "recv_inv b2" "unread b2 = drop n (unread b1)"
      using consume_obtain [OF inv1 le] .
    then have rest: "unread b2 @ stream s1 = drop n input" using eq le by auto
    note eval = input_def [symmetric] pure_request_def read_request_with_limit_def rh hn b2(1) pure_body_def
    show ?thesis
    proof (cases "body_length_with_limit h lim")
      case (Inl e)
      with b2(2) show ?thesis by (auto simp: eval)
    next
      case (Inr len)
      show ?thesis
      proof (cases len)
        case NoBody
        have "recv_inv (shrink_if_oversized b2) \<and> unread (shrink_if_oversized b2) @ stream s1 = drop n input"
          using b2(2) rest by (simp add: shrink_inv)
        with Inr NoBody show ?thesis by (auto simp: eval simp del: shrink_unread)
      next
        case (FixedBody k)
        then have "k \<le> USIZE_MAX"
          using Inr lim by (auto simp: body_length_framing framing_Fixed)
        from read_body_pure [OF b2(2) this, of s1] obtain s3 b3 where b3: "recv_inv b3"
          "if k \<le> length (drop n input)
           then read_body rd s1 b2 k = Some (Ok (take k (drop n input)), s3, b3) \<and>
             unread b3 @ stream s3 = drop k (drop n input)
           else read_body rd s1 b2 k = Some (Err UnexpectedEof, s3, b3)"
          unfolding rest by blast
        have "recv_inv (shrink_if_oversized b3) \<and> unread (shrink_if_oversized b3) = unread b3"
          using b3(1) by (simp add: shrink_inv)
        with b3 Inr FixedBody show ?thesis
          by (cases "k \<le> length (drop n input)")
            (auto simp: eval simp del: shrink_unread length_drop drop_drop)
      next
        case ChunkedBody
        obtain q d body where q: "decode (with_max_body_bytes lim) (drop n input) [] = (q, d, body)"
          by (metis prod_cases3)
        obtain s3 b3 where b3: "recv_inv b3"
          "case q of Err e \<Rightarrow> chunked_loop rd (with_max_body_bytes lim) [] s1 b2 = Some (Err (ChunkedBodyError e), s3, b3)
           | Ok (Complete m) \<Rightarrow> chunked_loop rd (with_max_body_bytes lim) [] s1 b2 = Some (Ok body, s3, b3) \<and>
               unread b3 @ stream s3 = drop m (drop n input)
           | Ok (Incomplete _) \<Rightarrow> chunked_loop rd (with_max_body_bytes lim) [] s1 b2 = Some (Err UnexpectedEof, s3, b3)"
          using chunked_loop_pure [OF b2(2) decoder_inv_new [OF lim], where s = s1 and body = "[]"] unfolding rest q by auto
        have "recv_inv (shrink_if_oversized b3) \<and> unread (shrink_if_oversized b3) = unread b3"
          using b3(1) by (simp add: shrink_inv)
        with b3 Inr ChunkedBody q show ?thesis
          by (auto simp: eval read_body_chunked_def simp del: shrink_unread drop_drop
              split: sum.splits DecodeOutcome.splits)
      qed
    qed
  qed
qed

end

section \<open>Properties\<close>

text \<open>The reader that \<^verbatim>\<open>tokio\<close> provides for a byte slice, as the documentation example of \<^verbatim>\<open>read_request\<close> uses it.\<close>

definition slice_reader :: "(bytes, nat) reader" where
  "slice_reader s n = (Ok (take n s), drop n s)"

interpretation slice_socket: stream_reader slice_reader "\<lambda>s. s"
  by unfold_locales (auto simp: slice_reader_def)

text \<open>Reading a request always returns. For every reader that respects the capacity it is offered
  (it may be arbitrarily slow, fail, or send for ever), every buffer that satisfies the invariant
  and every limit, reading one request ends with a result, without a panic, and keeps the buffer's invariant.\<close>

theorem read_request_terminates:
  assumes "substring_search mm" and "bounded_reader rd" and "recv_inv b" and "lim \<le> U64_MAX"
  shows "\<exists>x s' b'. read_request_with_limit mm rd s b lim = Some (x, s', b') \<and> recv_inv b'"
  using bounded_reader.read_request_returns [OF assms(2,1,3,4)] .

theorem read_request_terminates_witness:
  "\<exists>x s' b'. read_request_with_limit (\<lambda>h n. find_sub n h) slice_reader get_a recv_new 100 = Some (x, s', b')
     \<and> recv_inv b'"
  by (rule read_request_terminates [OF naive_search.substring_search_axioms slice_socket.bounded_reader_axioms])
    simp_all

text \<open>C7. Reading a request depends only on the bytes, not on how the network cuts them. For a peer that
  sends \<open>stream s\<close> and then closes, the result of \<^verbatim>\<open>read_request\<close> is that of the pure function
  \<open>pure_request\<close> on the unread bytes followed by the stream: parse the head, decide the framing, take
  the body; and the bytes left in the buffer and on the wire for the next request are exactly the
  ones after this request.\<close>

theorem read_request_is_pure:
  assumes "substring_search mm" and "stream_reader rd stream" and "recv_inv b" and "lim \<le> U64_MAX"
  shows "\<exists>s' b'. recv_inv b' \<and> (case pure_request mm lim (unread b @ stream s) of
      Err e \<Rightarrow> read_request_with_limit mm rd s b lim = Some (Err e, s', b')
    | Ok None \<Rightarrow> read_request_with_limit mm rd s b lim = Some (Ok None, s', b')
    | Ok (Some (req, rest)) \<Rightarrow> read_request_with_limit mm rd s b lim = Some (Ok (Some req), s', b') \<and>
        unread b' @ stream s' = rest)"
  using stream_reader.read_request_pure [OF assms(2,1,3,4)] .

theorem read_request_is_pure_witness:
  "\<exists>s' b'. recv_inv b' \<and> (case pure_request (\<lambda>h n. find_sub n h) 100 (unread recv_new @ get_a) of
      Err e \<Rightarrow> read_request_with_limit (\<lambda>h n. find_sub n h) slice_reader get_a recv_new 100 = Some (Err e, s', b')
    | Ok None \<Rightarrow> read_request_with_limit (\<lambda>h n. find_sub n h) slice_reader get_a recv_new 100 = Some (Ok None, s', b')
    | Ok (Some (req, rest)) \<Rightarrow>
        read_request_with_limit (\<lambda>h n. find_sub n h) slice_reader get_a recv_new 100 = Some (Ok (Some req), s', b') \<and>
        unread b' @ s' = rest)"
  by (rule read_request_is_pure [OF naive_search.substring_search_axioms slice_socket.stream_reader_axioms])
    simp_all

lemma concat_split_on:
  "vs \<noteq> [] \<Longrightarrow> concat (map (split_on d) vs) = split_on d (join [d] vs)"
  by (induction "[d]" vs rule: join.induct) (simp_all add: split_on_append_delim_gen)

lemma connection_tokens_joined:
  "(\<exists>t\<in>set (connection_tokens h). eq_ignore_ascii_case t (c # w)) \<longleftrightarrow>
   (\<exists>t\<in>set (map str_trim (split_on CHR '','' (join '','' (header_values h ''connection'')))).
      eq_ignore_ascii_case t (c # w))"
proof (cases "header_values h ''connection'' = []")
  case True
  have "\<not> eq_ignore_ascii_case (str_trim []) (c # w)"
    by (simp add: str_trim_def trim_matches_def eq_ignore_ascii_case_def)
  moreover have "connection_tokens h = []"
    using True by (simp add: connection_tokens_def header_values_def)
  ultimately show ?thesis using True by simp
next
  case False
  have "(\<lambda>(_, val). split_on CHR '','' val) = split_on CHR '','' \<circ> (snd :: bytes \<times> bytes \<Rightarrow> bytes)"
    by (simp add: fun_eq_iff split_beta)
  then have "connection_tokens h = map str_trim (concat (map (split_on CHR '','') (header_values h ''connection'')))"
    by (simp add: connection_tokens_def header_values_def)
  with False show ?thesis by (simp add: concat_split_on)
qed

text \<open>Keep-alive. The connection stays open exactly when the comma-separated list obtained by joining
  all \<^verbatim>\<open>Connection\<close> headers has no \<^verbatim>\<open>close\<close> token and, for HTTP/1.0, has a \<^verbatim>\<open>keep-alive\<close> token; tokens
  are trimmed and compared without regard to case.\<close>

theorem keep_alive_decision:
  "should_keep_alive h \<longleftrightarrow>
     (let tokens = map str_trim (split_on CHR '','' (join '','' (header_values h ''connection''))) in
      \<not> (\<exists>t\<in>set tokens. eq_ignore_ascii_case t ''close'') \<and>
      (rh_version h = Http11 \<or> (\<exists>t\<in>set tokens. eq_ignore_ascii_case t ''keep-alive'')))"
  unfolding should_keep_alive_def Let_def list_ex_iff connection_tokens_joined
  by (cases "rh_version h") simp_all

end
