(* ===== verification/Route_Pattern.thy ===== *)
theory Route_Pattern
  imports Ascii
begin

text \<open>
  \<^verbatim>\<open>crates/routes/src/pattern.rs\<close>: route patterns with \<^verbatim>\<open>{name}\<close> parameters and a final
  \<^verbatim>\<open>{*name}\<close> wildcard. The operations are the registration-time parser, its inverse used in
  error messages, the splitting of a request target, the matcher and the test that two patterns
  have the same shape. The lemmas characterise the parser by the well-formed patterns it accepts,
  the matcher by an independent specification of the targets a pattern stands for, and the shape
  test by equality of those sets of targets.
\<close>

record PathParams =
  pp_params :: "(bytes \<times> bytes) list"

definition params_get :: "PathParams \<Rightarrow> bytes \<Rightarrow> bytes option" where
  "params_get ps name = map_option snd (find (\<lambda>(k, _). k = name) (pp_params ps))"

definition params_iter :: "PathParams \<Rightarrow> (bytes \<times> bytes) list" where
  "params_iter ps = map (\<lambda>(k, v). (k, v)) (pp_params ps)"

definition params_len :: "PathParams \<Rightarrow> nat" where
  "params_len ps = length (pp_params ps)"

definition params_is_empty :: "PathParams \<Rightarrow> bool" where
  "params_is_empty ps \<longleftrightarrow> pp_params ps = []"

datatype RoutePatternError =
    MissingLeadingSlash
  | EmptyParamName
  | InvalidParamName bytes
  | MixedSegment bytes
  | DuplicateParamName bytes
  | EmptySegment
  | NoParamSegment
  | WildcardNotLast bytes

datatype Segment = Literal bytes | Param bytes | Wildcard bytes

definition split_segments :: "bytes \<Rightarrow> bytes list" where
  "split_segments pattern =
     (let trimmed = (case strip_prefix ''/'' pattern of Some t \<Rightarrow> t | None \<Rightarrow> pattern) in
      if trimmed = [] then [] else split_on CHR ''/'' trimmed)"

definition request_target_segments :: "bytes \<Rightarrow> bytes list option" where
  "request_target_segments target =
     (case strip_prefix ''/'' target of
        None \<Rightarrow> None
      | Some stripped \<Rightarrow> Some (if stripped = [] then [] else split_on CHR ''/'' stripped))"

definition is_name_char :: "byte \<Rightarrow> bool" where
  "is_name_char c \<longleftrightarrow> is_ascii_alphanumeric c \<or> c = CHR ''_''"

text \<open>The body of the loop of \<^verbatim>\<open>parse_pattern\<close>: the segment read, or the error that ends the
  loop. The loop itself carries \<^verbatim>\<open>index\<close>, \<^verbatim>\<open>segments\<close>, \<^verbatim>\<open>seen_names\<close> and \<^verbatim>\<open>has_param\<close>.\<close>

fun segment_name :: "Segment \<Rightarrow> bytes option" where
  "segment_name (Literal _) = None"
| "segment_name (Param n) = Some n"
| "segment_name (Wildcard n) = Some n"

definition parse_segment :: "bool \<Rightarrow> bytes list \<Rightarrow> bytes \<Rightarrow> RoutePatternError + Segment" where
  "parse_segment is_last seen_names raw =
     (if raw = [] then Err EmptySegment
      else if hd raw = CHR ''{'' \<and> last raw = CHR ''}'' \<and> length raw \<ge> 2 then
        let inner = slice raw (1, length raw - 1);
            (is_wildcard, name) = (case strip_prefix ''*'' inner of
                Some rest \<Rightarrow> (True, rest) | None \<Rightarrow> (False, inner))
        in if name = [] then Err EmptyParamName
           else if \<not> list_all is_name_char name then Err (InvalidParamName name)
           else if name \<in> set seen_names then Err (DuplicateParamName name)
           else if is_wildcard \<and> \<not> is_last then Err (WildcardNotLast raw)
           else Ok (if is_wildcard then Wildcard name else Param name)
      else if CHR ''{'' \<in> set raw \<or> CHR ''}'' \<in> set raw then Err (MixedSegment raw)
      else Ok (Literal raw))"

fun pattern_loop ::
  "nat \<Rightarrow> nat \<Rightarrow> bytes list \<Rightarrow> Segment list \<Rightarrow> bytes list \<Rightarrow> bool
     \<Rightarrow> RoutePatternError + (Segment list \<times> bool)" where
  "pattern_loop index last_index [] segs seen_names has_param = Ok (segs, has_param)"
| "pattern_loop index last_index (raw # raws) segs seen_names has_param =
     (case parse_segment (index = last_index) seen_names raw of
        Err e \<Rightarrow> Err e
      | Ok s \<Rightarrow>
          (case segment_name s of
             None \<Rightarrow> pattern_loop (Suc index) last_index raws (segs @ [s]) seen_names has_param
           | Some n \<Rightarrow>
               pattern_loop (Suc index) last_index raws (segs @ [s]) (seen_names @ [n]) True))"

definition parse_pattern :: "bytes \<Rightarrow> RoutePatternError + Segment list" where
  "parse_pattern pattern =
     (if \<not> starts_with ''/'' pattern then Err MissingLeadingSlash
      else
        let raw_segments = split_segments pattern in
        res_bind (pattern_loop 0 (length raw_segments - 1) raw_segments [] [] False)
          (\<lambda>(segs, has_param). if \<not> has_param then Err NoParamSegment else Ok segs))"

definition is_safe_segment_value :: "bytes \<Rightarrow> bool" where
  "is_safe_segment_value v \<longleftrightarrow>
     v \<noteq> [] \<and> v \<noteq> ''.'' \<and> v \<noteq> ''..'' \<and> CHR ''?'' \<notin> set v \<and> CHR ''#'' \<notin> set v"

fun match_prefix :: "(Segment \<times> bytes) list \<Rightarrow> (bytes \<times> bytes) list \<Rightarrow> (bytes \<times> bytes) list option"
  where
  "match_prefix [] params = Some params"
| "match_prefix ((Literal lit, v) # rest) params =
     (if lit \<noteq> v then None else match_prefix rest params)"
| "match_prefix ((Param name, v) # rest) params =
     (if \<not> is_safe_segment_value v then None else match_prefix rest (params @ [(name, v)]))"
| "match_prefix ((Wildcard _, v) # rest) params = None"

text \<open>The fold of \<^verbatim>\<open>start += seg.len() + 1\<close> over the prefix, from \<^verbatim>\<open>start = 1\<close>.\<close>

definition tail_start :: "bytes list \<Rightarrow> nat" where
  "tail_start pre = foldl (\<lambda>start seg. start + (length seg + 1)) 1 pre"

definition wildcard_name :: "Segment list \<Rightarrow> bytes option" where
  "wildcard_name segs =
     (if segs = [] then None
      else case last segs of Wildcard name \<Rightarrow> Some name | _ \<Rightarrow> None)"

definition match_segments :: "Segment list \<Rightarrow> bytes list \<Rightarrow> bytes \<Rightarrow> PathParams option" where
  "match_segments segs target_segments path =
     (case wildcard_name segs of
        None \<Rightarrow>
          if length segs \<noteq> length target_segments then None
          else map_option PathParams.make (match_prefix (zip segs target_segments) [])
      | Some name \<Rightarrow>
          let prefix_len = length segs - 1 in
          if length target_segments < length segs then None
          else
            case match_prefix (zip (take prefix_len segs) (take prefix_len target_segments)) [] of
              None \<Rightarrow> None
            | Some params \<Rightarrow>
                if \<not> list_all is_safe_segment_value (drop prefix_len target_segments) then None
                else
                  let start = tail_start (take prefix_len target_segments) in
                  Some (PathParams.make (params @ [(name, drop start path)])))"

fun same_kind :: "Segment \<Rightarrow> Segment \<Rightarrow> bool" where
  "same_kind (Literal lx) (Literal ly) = (lx = ly)"
| "same_kind (Param _) (Param _) = True"
| "same_kind (Wildcard _) (Wildcard _) = True"
| "same_kind _ _ = False"

definition segments_equivalent :: "Segment list \<Rightarrow> Segment list \<Rightarrow> bool" where
  "segments_equivalent a b \<longleftrightarrow>
     (if length a \<noteq> length b then False else list_all (\<lambda>(x, y). same_kind x y) (zip a b))"

fun render_segment :: "Segment \<Rightarrow> bytes" where
  "render_segment (Literal lit) = lit"
| "render_segment (Param name) = ''{'' @ name @ ''}''"
| "render_segment (Wildcard name) = ''{*'' @ name @ ''}''"

definition render_segments :: "Segment list \<Rightarrow> bytes" where
  "render_segments segs = foldl (\<lambda>out s. out @ ''/'' @ render_segment s) [] segs"

section \<open>Well-formed patterns\<close>

definition valid_name :: "bytes \<Rightarrow> bool" where
  "valid_name n \<longleftrightarrow> n \<noteq> [] \<and> list_all is_name_char n"

fun valid_segment :: "Segment \<Rightarrow> bool" where
  "valid_segment (Literal l) = (l \<noteq> [] \<and> {CHR ''/'', CHR ''{'', CHR ''}''} \<inter> set l = {})"
| "valid_segment (Param n) = valid_name n"
| "valid_segment (Wildcard n) = valid_name n"

fun is_wildcard :: "Segment \<Rightarrow> bool" where
  "is_wildcard (Wildcard _) = True"
| "is_wildcard _ = False"

definition param_names :: "Segment list \<Rightarrow> bytes list" where
  "param_names segs = List.map_filter segment_name segs"

definition valid_pattern :: "Segment list \<Rightarrow> bool" where
  "valid_pattern segs \<longleftrightarrow> list_all valid_segment segs \<and> distinct (param_names segs) \<and>
     param_names segs \<noteq> [] \<and> (\<forall>s\<in>set (butlast segs). \<not> is_wildcard s)"

lemma param_names_simps [simp]:
  "param_names [] = []"
  "param_names (Literal l # ss) = param_names ss"
  "param_names (Param n # ss) = n # param_names ss"
  "param_names (Wildcard n # ss) = n # param_names ss"
  "param_names (as @ bs) = param_names as @ param_names bs"
  by (simp_all add: param_names_def map_filter_def)

lemma render_segments_concat:
  "render_segments segs = concat (map (\<lambda>s. CHR ''/'' # render_segment s) segs)"
proof -
  have "foldl (\<lambda>out s. out @ ''/'' @ render_segment s) acc segs
      = acc @ concat (map (\<lambda>s. ''/'' @ render_segment s) segs)" for acc
    by (induction segs arbitrary: acc) auto
  then show ?thesis by (simp add: render_segments_def)
qed

lemma slashed_join:
  "xs \<noteq> [] \<Longrightarrow> concat (map (\<lambda>s. CHR ''/'' # f s) xs) = CHR ''/'' # join ''/'' (map f xs)"
  by (induction xs) (auto simp: join_Cons)

lemma name_char_facts:
  "is_name_char c \<Longrightarrow> c \<noteq> CHR ''/'' \<and> c \<noteq> CHR ''{'' \<and> c \<noteq> CHR ''}'' \<and> c \<noteq> CHR ''*''"
  by (auto simp: is_name_char_def is_ascii_alphanumeric_def is_ascii_digit_def
      is_ascii_uppercase_def is_ascii_lowercase_def)

lemma valid_name_chars:
  assumes "valid_name n"
  shows "CHR ''/'' \<notin> set n" "CHR ''{'' \<notin> set n" "CHR ''}'' \<notin> set n" "CHR ''*'' \<notin> set n" "n \<noteq> []"
  using assms name_char_facts by (auto simp: valid_name_def list_all_iff)

lemma braces_split:
  assumes "hd raw = CHR ''{''" "last raw = CHR ''}''" "length raw \<ge> 2"
  shows "raw = CHR ''{'' # slice raw (1, length raw - 1) @ ''}''"
proof -
  obtain x ys where raw: "raw = x # ys" using assms(3) by (cases raw) auto
  with assms have "ys \<noteq> []" by auto
  then have "ys = butlast ys @ [last ys]" by simp
  moreover have "slice raw (1, length raw - 1) = butlast ys"
    by (simp add: slice_def raw butlast_conv_take)
  ultimately have "ys = slice raw (1, length raw - 1) @ [last ys]" by simp
  moreover have "last ys = CHR ''}''" "x = CHR ''{''" using assms raw \<open>ys \<noteq> []\<close> by auto
  ultimately show ?thesis using raw by simp
qed

lemma parse_segment_param:
  assumes "strip_prefix ''*'' inner = None"
  shows "parse_segment is_last seen (CHR ''{'' # inner @ ''}'') =
     (if inner = [] then Err EmptyParamName
      else if \<not> list_all is_name_char inner then Err (InvalidParamName inner)
      else if inner \<in> set seen then Err (DuplicateParamName inner)
      else Ok (Param inner))"
  using assms by (simp add: parse_segment_def slice_def)

lemma parse_segment_wildcard:
  "parse_segment is_last seen (CHR ''{'' # CHR ''*'' # name @ ''}'') =
     (if name = [] then Err EmptyParamName
      else if \<not> list_all is_name_char name then Err (InvalidParamName name)
      else if name \<in> set seen then Err (DuplicateParamName name)
      else if \<not> is_last then Err (WildcardNotLast (CHR ''{'' # CHR ''*'' # name @ ''}''))
      else Ok (Wildcard name))"
  by (simp add: parse_segment_def slice_def)

lemma parse_segment_Ok_D:
  assumes "parse_segment is_last seen raw = Ok s" "CHR ''/'' \<notin> set raw"
  shows "valid_segment s" "render_segment s = raw" "is_wildcard s \<Longrightarrow> is_last"
    "\<And>n. segment_name s = Some n \<Longrightarrow> n \<notin> set seen"
proof -
  have "valid_segment s \<and> render_segment s = raw \<and> (is_wildcard s \<longrightarrow> is_last) \<and>
      (\<forall>n. segment_name s = Some n \<longrightarrow> n \<notin> set seen)"
  proof (cases "hd raw = CHR ''{'' \<and> last raw = CHR ''}'' \<and> length raw \<ge> 2")
    case True
    then have ne: "raw \<noteq> []" by auto
    have r: "raw = CHR ''{'' # slice raw (1, length raw - 1) @ ''}''" using True braces_split by blast
    define inner where "inner = slice raw (1, length raw - 1)"
    have raw: "raw = CHR ''{'' # inner @ ''}''" using r by (simp add: inner_def)
    show ?thesis
    proof (cases "strip_prefix ''*'' inner")
      case None
      then show ?thesis
        using assms(1) unfolding raw parse_segment_param [OF None]
        by (auto simp: valid_name_def split: if_splits)
    next
      case (Some rest)
      then have "inner = CHR ''*'' # rest" by (simp add: strip_prefix_Some_iff)
      then have "raw = CHR ''{'' # CHR ''*'' # rest @ ''}''" using raw by simp
      then show ?thesis
        using assms(1) by (auto simp: parse_segment_wildcard valid_name_def split: if_splits)
    qed
  next
    case False
    with assms show ?thesis by (auto simp: parse_segment_def split: if_splits)
  qed
  then show "valid_segment s" "render_segment s = raw" "is_wildcard s \<Longrightarrow> is_last"
    "\<And>n. segment_name s = Some n \<Longrightarrow> n \<notin> set seen" by auto
qed

lemma parse_segment_render:
  assumes "valid_segment s" "is_wildcard s \<Longrightarrow> is_last"
    "\<And>n. segment_name s = Some n \<Longrightarrow> n \<notin> set seen"
  shows "parse_segment is_last seen (render_segment s) = Ok s"
proof (cases s)
  case (Literal l)
  then have "l \<noteq> []" "CHR ''{'' \<notin> set l" "CHR ''}'' \<notin> set l" using assms(1) by auto
  then have "hd l \<noteq> CHR ''{''" by (cases l) auto
  with Literal \<open>l \<noteq> []\<close> \<open>CHR ''{'' \<notin> set l\<close> \<open>CHR ''}'' \<notin> set l\<close> show ?thesis
    by (simp add: parse_segment_def)
next
  case (Param n)
  then have v: "valid_name n" and "n \<notin> set seen" using assms by auto
  then have "strip_prefix ''*'' n = None"
    using valid_name_chars(4,5) [OF v] by (cases n) auto
  with v \<open>n \<notin> set seen\<close> Param show ?thesis
    by (simp add: parse_segment_param valid_name_def)
next
  case (Wildcard n)
  with assms show ?thesis
    by (simp add: parse_segment_wildcard valid_name_def)
qed

lemma param_names_Cons:
  "param_names (s # ss) = (case segment_name s of None \<Rightarrow> [] | Some n \<Rightarrow> [n]) @ param_names ss"
  by (cases s) auto

lemma last_index_step:
  "i + length (r # rs) - 1 = l \<Longrightarrow> (i = l \<longleftrightarrow> rs = []) \<and> (rs \<noteq> [] \<longrightarrow> Suc i + length rs - 1 = l)"
  by (cases rs) auto

lemma pattern_loop_sound:
  assumes "pattern_loop i l raws segs seen hp = Ok (segs', hp')"
    "\<forall>raw\<in>set raws. CHR ''/'' \<notin> set raw" "raws \<noteq> [] \<Longrightarrow> i + length raws - 1 = l"
  shows "\<exists>ns. segs' = segs @ ns \<and> map render_segment ns = raws \<and> list_all valid_segment ns \<and>
     distinct (param_names ns) \<and> set (param_names ns) \<inter> set seen = {} \<and>
     (\<forall>s\<in>set (butlast ns). \<not> is_wildcard s) \<and> hp' = (hp \<or> param_names ns \<noteq> [])"
  using assms
proof (induction raws arbitrary: i segs seen hp)
  case (Cons raw raws)
  from Cons.prems(1) obtain s where s: "parse_segment (i = l) seen raw = Ok s"
    by (auto split: sum.splits)
  have nsl: "CHR ''/'' \<notin> set raw" using Cons.prems(2) by simp
  note st = last_index_step [OF Cons.prems(3) [simplified list.distinct not_False_eq_True simp_thms]]
  let ?seen = "case segment_name s of None \<Rightarrow> seen | Some n \<Rightarrow> seen @ [n]"
  let ?hp = "hp \<or> segment_name s \<noteq> None"
  have rec: "pattern_loop (Suc i) l raws (segs @ [s]) ?seen ?hp = Ok (segs', hp')"
    using Cons.prems(1) s by (auto split: option.splits)
  obtain ns where ns: "segs' = (segs @ [s]) @ ns" "map render_segment ns = raws"
     "list_all valid_segment ns" "distinct (param_names ns)"
     "set (param_names ns) \<inter> set ?seen = {}" "\<forall>s\<in>set (butlast ns). \<not> is_wildcard s"
     "hp' = (?hp \<or> param_names ns \<noteq> [])"
    using Cons.IH [OF rec] Cons.prems(2) st by auto
  note p = parse_segment_Ok_D [OF s nsl]
  have "is_wildcard s \<Longrightarrow> ns = []" using p(3) st ns(2) by auto
  then have w: "\<forall>s\<in>set (butlast (s # ns)). \<not> is_wildcard s" using ns(6) by auto
  have d: "distinct (param_names (s # ns)) \<and> set (param_names (s # ns)) \<inter> set seen = {} \<and>
      hp' = (hp \<or> param_names (s # ns) \<noteq> [])"
    using ns(4,5,7) p(4) by (auto simp: param_names_Cons split: option.splits)
  show ?case
    by (rule exI [of _ "s # ns"]) (use ns(1-3) p(1,2) d w in simp)
qed simp

lemma pattern_loop_complete:
  assumes "list_all valid_segment ns" "distinct (param_names ns)"
    "set (param_names ns) \<inter> set seen = {}" "\<forall>s\<in>set (butlast ns). \<not> is_wildcard s"
    "ns \<noteq> [] \<Longrightarrow> i + length ns - 1 = l"
  shows "pattern_loop i l (map render_segment ns) segs seen hp
      = Ok (segs @ ns, hp \<or> param_names ns \<noteq> [])"
  using assms
proof (induction ns arbitrary: i segs seen hp)
  case (Cons s ns)
  note st = last_index_step [OF Cons.prems(5) [simplified list.distinct not_False_eq_True simp_thms]]
  have "is_wildcard s \<Longrightarrow> i = l" using st Cons.prems(4) by (cases ns) auto
  then have ps: "parse_segment (i = l) seen (render_segment s) = Ok s"
    using Cons.prems(1,3) by (intro parse_segment_render) (auto simp: param_names_Cons)
  have bl: "\<forall>s\<in>set (butlast ns). \<not> is_wildcard s" using Cons.prems(4) by (cases ns) auto
  show ?case
  proof (cases "segment_name s")
    case None
    then have "pattern_loop (Suc i) l (map render_segment ns) (segs @ [s]) seen hp
        = Ok ((segs @ [s]) @ ns, hp \<or> param_names ns \<noteq> [])"
      using Cons.prems(1-3) st bl by (intro Cons.IH) (auto simp: param_names_Cons)
    with ps None show ?thesis by (simp add: param_names_Cons)
  next
    case (Some n)
    then have "pattern_loop (Suc i) l (map render_segment ns) (segs @ [s]) (seen @ [n]) True
        = Ok ((segs @ [s]) @ ns, True \<or> param_names ns \<noteq> [])"
      using Cons.prems(1-3) st bl by (intro Cons.IH) (auto simp: param_names_Cons)
    with ps Some show ?thesis by (simp add: param_names_Cons)
  qed
qed simp

lemma render_segment_piece:
  "valid_segment s \<Longrightarrow> render_segment s \<noteq> [] \<and> CHR ''/'' \<notin> set (render_segment s)"
  using valid_name_chars(1) by (cases s) auto

lemma split_segments_slash:
  "split_segments (CHR ''/'' # p) = (if p = [] then [] else split_on CHR ''/'' p)"
  by (simp add: split_segments_def)

lemma split_segments_render:
  assumes "list_all valid_segment segs" "segs \<noteq> []"
  shows "split_segments (render_segments segs) = map render_segment segs"
proof -
  have pieces: "\<forall>s\<in>set segs. render_segment s \<noteq> [] \<and> CHR ''/'' \<notin> set (render_segment s)"
    using assms(1) render_segment_piece by (auto simp: list_all_iff)
  have "join ''/'' (map render_segment segs) \<noteq> []"
    using pieces assms(2) by (cases segs) (auto simp: join_Cons)
  moreover have "split_on CHR ''/'' (join ''/'' (map render_segment segs)) = map render_segment segs"
    using pieces assms(2) by (intro split_on_join) auto
  ultimately show ?thesis
    by (simp add: render_segments_concat slashed_join assms(2) split_segments_slash)
qed

lemma parse_pattern_Ok_iff:
  "parse_pattern p = Ok segs \<longleftrightarrow> valid_pattern segs \<and> p = render_segments segs"
proof
  assume ok: "parse_pattern p = Ok segs"
  then obtain q where q: "p = CHR ''/'' # q"
    by (auto simp: parse_pattern_def starts_with_iff split: if_splits)
  let ?raws = "split_segments p"
  from ok have loop: "pattern_loop 0 (length ?raws - 1) ?raws [] [] False = Ok (segs, True)"
    by (auto simp: parse_pattern_def Let_def res_bind_eq_Ok split: if_splits)
  have raws: "\<forall>raw\<in>set ?raws. CHR ''/'' \<notin> set raw"
    by (auto simp: q split_segments_slash dest: split_on_pieces)
  have v: "valid_pattern segs" "map render_segment segs = ?raws"
    using pattern_loop_sound [OF loop raws] by (auto simp: valid_pattern_def)
  then have "segs \<noteq> []" by (auto simp: valid_pattern_def)
  then have "q \<noteq> []" "split_on CHR ''/'' q = map render_segment segs"
    using v(2) q by (auto simp: split_segments_slash split: if_splits)
  then have "p = render_segments segs"
    using q join_split_on [of "CHR ''/''" q]
    by (simp add: render_segments_concat slashed_join \<open>segs \<noteq> []\<close>)
  with v show "valid_pattern segs \<and> p = render_segments segs" by simp
next
  assume r: "valid_pattern segs \<and> p = render_segments segs"
  then have "segs \<noteq> []" by (auto simp: valid_pattern_def)
  with r have s: "split_segments p = map render_segment segs"
    by (simp add: split_segments_render valid_pattern_def)
  have "pattern_loop 0 (length segs - 1) (map render_segment segs) [] [] False
      = Ok ([] @ segs, False \<or> param_names segs \<noteq> [])"
    using r by (intro pattern_loop_complete) (auto simp: valid_pattern_def)
  moreover have "starts_with ''/'' p"
    using r \<open>segs \<noteq> []\<close> by (simp add: starts_with_iff render_segments_concat slashed_join)
  ultimately show "parse_pattern p = Ok segs"
    using r s by (simp add: parse_pattern_def valid_pattern_def)
qed

text \<open>\<^verbatim>\<open>parse_pattern\<close> accepts exactly the rendered forms of the well-formed patterns
  (non-empty literals without braces, names over \<^verbatim>\<open>[A-Za-z0-9_]\<close>, no name twice, at least one
  parameter, a wildcard only at the end), and \<^verbatim>\<open>render_segments\<close> is its inverse, as the comment of
  that function claims.\<close>

theorem parse_pattern_iff:
  "parse_pattern p = Ok segs \<longleftrightarrow> valid_pattern segs \<and> p = render_segments segs"
  by (rule parse_pattern_Ok_iff)

section \<open>The targets a pattern stands for\<close>

text \<open>The specification of matching: which sequences of path segments a pattern stands for, and the
  value each of its names gets. A final wildcard takes one or more segments; its value is their
  \<^verbatim>\<open>/\<close>-separated text.\<close>

fun fits :: "Segment list \<Rightarrow> bytes list \<Rightarrow> bool" where
  "fits [] ts = (ts = [])"
| "fits (Literal l # ss) ts = (case ts of [] \<Rightarrow> False | v # vs \<Rightarrow> v = l \<and> fits ss vs)"
| "fits (Param n # ss) ts = (case ts of [] \<Rightarrow> False | v # vs \<Rightarrow> is_safe_segment_value v \<and> fits ss vs)"
| "fits (Wildcard n # ss) ts = (ss = [] \<and> ts \<noteq> [] \<and> list_all is_safe_segment_value ts)"

fun bindings :: "Segment list \<Rightarrow> bytes list \<Rightarrow> (bytes \<times> bytes) list" where
  "bindings [] ts = []"
| "bindings (Literal l # ss) ts = bindings ss (tl ts)"
| "bindings (Param n # ss) ts = (n, hd ts) # bindings ss (tl ts)"
| "bindings (Wildcard n # ss) ts = [(n, join ''/'' ts)]"

lemma wildcard_name_simps [simp]:
  "wildcard_name [] = None"
  "wildcard_name (pre @ [Wildcard n]) = Some n"
  by (simp_all add: wildcard_name_def)

lemma wildcard_name_Cons_None:
  "wildcard_name (s # ss) = None \<longleftrightarrow> (if ss = [] then \<not> is_wildcard s else wildcard_name ss = None)"
  by (cases s) (auto simp: wildcard_name_def)

lemma wildcard_name_Some_D:
  assumes "wildcard_name segs = Some n"
  shows "segs = butlast segs @ [Wildcard n]"
proof -
  have "segs \<noteq> []" "last segs = Wildcard n"
    using assms by (auto simp: wildcard_name_def split: if_splits Segment.splits)
  then show ?thesis using append_butlast_last_id by metis
qed

lemma match_prefix_exact:
  assumes "wildcard_name segs = None" "length segs = length ts"
  shows "match_prefix (zip segs ts) acc = (if fits segs ts then Some (acc @ bindings segs ts) else None)"
  using assms
proof (induction segs arbitrary: ts acc)
  case (Cons s ss)
  then obtain v vs where ts: "ts = v # vs" by (cases ts) auto
  have w: "wildcard_name ss = None"
    using Cons.prems(1) by (auto simp: wildcard_name_Cons_None split: if_splits)
  have "is_wildcard s \<Longrightarrow> ss \<noteq> []"
    using Cons.prems(1) by (auto simp: wildcard_name_Cons_None)
  with Cons.IH [OF w, of vs] Cons.prems(2) show ?case
    by (cases s) (auto simp: ts)
qed simp

lemma fits_length:
  "wildcard_name segs = None \<Longrightarrow> fits segs ts \<Longrightarrow> length ts = length segs"
proof (induction segs arbitrary: ts)
  case (Cons s ss)
  have w: "wildcard_name ss = None"
    using Cons.prems(1) by (auto simp: wildcard_name_Cons_None split: if_splits)
  from Cons show ?case
    by (cases s) (auto simp: w wildcard_name_Cons_None split: list.splits)
qed simp

lemma match_prefix_wild:
  assumes "length pre < length ts"
  shows "(match_prefix (zip pre (take (length pre) ts)) acc = Some ps \<and>
      list_all is_safe_segment_value (drop (length pre) ts)) \<longleftrightarrow>
    (fits (pre @ [Wildcard n]) ts \<and>
      ps @ [(n, join ''/'' (drop (length pre) ts))] = acc @ bindings (pre @ [Wildcard n]) ts)"
  using assms
proof (induction pre arbitrary: ts acc)
  case (Cons s ss)
  then obtain v vs where ts: "ts = v # vs" by (cases ts) auto
  with Cons.prems have "length ss < length vs" by simp
  from Cons.IH [OF this] show ?case
    by (cases s) (auto simp: ts)
qed auto

lemma fits_wild_length: "fits (pre @ [Wildcard n]) ts \<Longrightarrow> length pre < length ts"
proof (induction pre arbitrary: ts)
  case (Cons s ss)
  then show ?case by (cases s; cases ts) auto
qed auto

lemma bindings_wild_snoc:
  "length pre < length ts \<Longrightarrow> fits (pre @ [Wildcard n]) ts \<Longrightarrow>
   butlast (bindings (pre @ [Wildcard n]) ts) @ [(n, join ''/'' (drop (length pre) ts))]
     = bindings (pre @ [Wildcard n]) ts"
proof (induction pre arbitrary: ts)
  case (Cons s ss)
  then obtain v vs where ts: "ts = v # vs" by (cases ts) auto
  with Cons.IH [of vs] Cons.prems show ?case by (cases s) auto
qed simp

lemma tail_start_Cons: "tail_start (x # xs) = Suc (length x) + tail_start xs"
proof -
  have "foldl (\<lambda>start seg. start + (length seg + 1)) b ys = b + sum_list (map (\<lambda>y. length y + 1) ys)"
    for b and ys :: "bytes list"
    by (induction ys arbitrary: b) (simp_all del: sum_list_map_eq_sum_count)
  then show ?thesis by (simp add: tail_start_def)
qed

lemma drop_tail_start:
  "k < length ts \<Longrightarrow> drop (tail_start (take k ts)) (CHR ''/'' # join ''/'' ts) = join ''/'' (drop k ts)"
proof (induction k arbitrary: ts)
  case (Suc k)
  then obtain v w vs where ts: "ts = v # w # vs" by (cases ts; cases "tl ts") auto
  have "tail_start (take (Suc k) ts) = Suc (length v) + tail_start (take k (w # vs))"
    by (simp add: ts tail_start_Cons)
  moreover have "k < length (w # vs)" using Suc.prems ts by simp
  ultimately show ?case using Suc.IH [of "w # vs"] by (simp add: ts)
qed (simp add: tail_start_def)

lemma request_target_segments_Some:
  assumes "request_target_segments path = Some ts"
  shows "path = CHR ''/'' # join ''/'' ts" "\<And>t. t \<in> set ts \<Longrightarrow> CHR ''/'' \<notin> set t"
proof -
  obtain q where q: "path = CHR ''/'' # q" "ts = (if q = [] then [] else split_on CHR ''/'' q)"
    using assms by (auto simp: request_target_segments_def strip_prefix_Some_iff split: option.splits)
  then show "path = CHR ''/'' # join ''/'' ts" by simp
  show "\<And>t. t \<in> set ts \<Longrightarrow> CHR ''/'' \<notin> set t"
    using q(2) by (auto split: if_splits dest: split_on_pieces)
qed

lemma match_segments_spec:
  assumes "request_target_segments path = Some ts"
  shows "match_segments segs ts path =
    (if fits segs ts then Some (PathParams.make (bindings segs ts)) else None)"
proof (cases "wildcard_name segs")
  case None
  then show ?thesis
    using fits_length [OF None] match_prefix_exact [OF None, of ts "[]"]
    by (auto simp: match_segments_def)
next
  case (Some n)
  define pre where "pre = butlast segs"
  have segs: "segs = pre @ [Wildcard n]" using wildcard_name_Some_D [OF Some] by (simp add: pre_def)
  show ?thesis
  proof (cases "length pre < length ts")
    case False
    then show ?thesis using fits_wild_length [of pre n ts] by (auto simp: match_segments_def segs)
  next
    case True
    note m = match_prefix_wild [OF True, of "[]" _ n, simplified]
    have tail: "drop (tail_start (take (length pre) ts)) path = join ''/'' (drop (length pre) ts)"
      using request_target_segments_Some(1) [OF assms] drop_tail_start [OF True] by simp
    show ?thesis
    proof (cases "match_prefix (zip pre (take (length pre) ts)) []")
      case None
      then have "\<not> fits segs ts"
        using m [of "butlast (bindings segs ts)"] bindings_wild_snoc [of pre ts n] True
        by (auto simp: segs)
      with None True show ?thesis by (simp add: match_segments_def segs)
    next
      case (Some ps)
      with True show ?thesis
        using m [of ps] bindings_wild_snoc [of pre ts n] m [of "butlast (bindings segs ts)"]
        by (auto simp: match_segments_def segs tail Let_def)
    qed
  qed
qed

text \<open>Against the path it was split from, \<^verbatim>\<open>match_segments\<close> succeeds exactly on the segment
  sequences the pattern stands for and binds each name to the segment it stands over, a wildcard to
  the whole rest of the path: the byte offset it computes always lands on the tail.\<close>

theorem match_segments_refines:
  assumes "request_target_segments path = Some ts"
  shows "match_segments segs ts path =
    (if fits segs ts then Some (PathParams.make (bindings segs ts)) else None)"
  using assms by (rule match_segments_spec)

theorem match_segments_refines_witness:
  "match_segments [Literal ''s'', Wildcard ''p''] [''s'', ''a'', ''b''] ''/s/a/b''
     = Some (PathParams.make [(''p'', ''a/b'')])"
  using match_segments_refines [of "''/s/a/b''" "[''s'', ''a'', ''b'']" "[Literal ''s'', Wildcard ''p'']"]
  by (simp add: request_target_segments_def is_safe_segment_value_def)

section \<open>What a match guarantees\<close>

lemma params_get_map_of: "params_get (PathParams.make bs) = map_of bs"
proof
  fix n
  show "params_get (PathParams.make bs) n = map_of bs n"
    by (induction bs) (auto simp: params_get_def PathParams.make_def)
qed

lemma bindings_names: "fits segs ts \<Longrightarrow> map fst (bindings segs ts) = param_names segs"
proof (induction segs arbitrary: ts)
  case (Cons s ss)
  then show ?case by (cases s; cases ts) auto
qed simp

text \<open>The path obtained by writing the bound values into the pattern.\<close>

fun fill :: "PathParams \<Rightarrow> Segment \<Rightarrow> bytes" where
  "fill ps (Literal l) = l"
| "fill ps (Param n) = (case params_get ps n of Some v \<Rightarrow> v | None \<Rightarrow> [])"
| "fill ps (Wildcard n) = (case params_get ps n of Some v \<Rightarrow> v | None \<Rightarrow> [])"

definition fill_pattern :: "PathParams \<Rightarrow> Segment list \<Rightarrow> bytes" where
  "fill_pattern ps segs = concat (map (\<lambda>s. CHR ''/'' # fill ps s) segs)"

lemma fill_fits:
  assumes "fits segs ts" "\<forall>(n, v)\<in>set (bindings segs ts). params_get ps n = Some v"
  shows "fill_pattern ps segs = concat (map (\<lambda>t. CHR ''/'' # t) ts)"
  using assms
proof (induction segs arbitrary: ts)
  case (Cons s ss)
  show ?case
  proof (cases s)
    case (Wildcard n)
    with Cons.prems have "ss = []" "ts \<noteq> []" "params_get ps n = Some (join ''/'' ts)" by auto
    then show ?thesis
      using slashed_join [of ts "\<lambda>t. t"] by (simp add: fill_pattern_def Wildcard)
  qed (use Cons in \<open>cases ts; auto simp: fill_pattern_def\<close>)+
qed (simp add: fill_pattern_def)

lemma fits_fill_path:
  assumes "request_target_segments path = Some ts" "fits segs ts" "valid_pattern segs"
  shows "fill_pattern (PathParams.make (bindings segs ts)) segs = path"
proof -
  have "distinct (map fst (bindings segs ts))"
    using assms(2,3) by (simp add: bindings_names valid_pattern_def)
  then have "\<forall>(n, v)\<in>set (bindings segs ts). params_get (PathParams.make (bindings segs ts)) n = Some v"
    by (auto simp: params_get_map_of)
  from fill_fits [OF assms(2) this]
  have "fill_pattern (PathParams.make (bindings segs ts)) segs = concat (map (\<lambda>t. CHR ''/'' # t) ts)" .
  moreover have "segs \<noteq> []" using assms(3) by (auto simp: valid_pattern_def)
  then have "ts \<noteq> []" using assms(2) by (cases segs; cases "hd segs") auto
  ultimately show ?thesis
    using request_target_segments_Some(1) [OF assms(1)] slashed_join [of ts "\<lambda>t. t"] by simp
qed

text \<open>A match loses nothing of the request: writing the values bound by a match back into a
  registered pattern gives the request path, byte for byte.\<close>

theorem match_reconstructs_path:
  assumes "parse_pattern p = Ok segs" "request_target_segments path = Some ts"
    "match_segments segs ts path = Some ps"
  shows "fill_pattern ps segs = path"
proof -
  have "fits segs ts" "ps = PathParams.make (bindings segs ts)"
    using assms(3) by (auto simp: match_segments_spec [OF assms(2)] split: if_splits)
  with assms show ?thesis by (simp add: fits_fill_path parse_pattern_Ok_iff)
qed

theorem match_reconstructs_path_witness:
  "\<exists>ps. match_segments [Literal ''u'', Param ''i'', Wildcard ''r''] [''u'', ''4'', ''a'', ''b''] ''/u/4/a/b''
     = Some ps \<and> fill_pattern ps [Literal ''u'', Param ''i'', Wildcard ''r''] = ''/u/4/a/b''"
proof -
  have p: "parse_pattern ''/u/{i}/{*r}'' = Ok [Literal ''u'', Param ''i'', Wildcard ''r'']"
    by code_simp
  have t: "request_target_segments ''/u/4/a/b'' = Some [''u'', ''4'', ''a'', ''b'']" by code_simp
  have m: "match_segments [Literal ''u'', Param ''i'', Wildcard ''r''] [''u'', ''4'', ''a'', ''b''] ''/u/4/a/b''
     = Some (PathParams.make [(''i'', ''4''), (''r'', ''a/b'')])"
    by (simp add: match_segments_spec [OF t] is_safe_segment_value_def)
  show ?thesis using m match_reconstructs_path [OF p t m] by blast
qed

lemma bindings_safe:
  assumes "fits segs ts" "\<And>t. t \<in> set ts \<Longrightarrow> CHR ''/'' \<notin> set t" "(n, v) \<in> set (bindings segs ts)"
  shows "list_all is_safe_segment_value (split_on CHR ''/'' v)"
  using assms
proof (induction segs arbitrary: ts)
  case (Cons s ss)
  show ?case
  proof (cases s)
    case (Wildcard m)
    with Cons.prems have "v = join ''/'' ts" "ts \<noteq> []" "list_all is_safe_segment_value ts" by auto
    moreover have "split_on CHR ''/'' (join ''/'' ts) = ts"
      using Cons.prems(2) \<open>ts \<noteq> []\<close> by (intro split_on_join) auto
    ultimately show ?thesis by simp
  next
    case (Literal l)
    with Cons.prems(1) obtain t us where ts: "ts = t # us" "fits ss us" by (cases ts) auto
    then show ?thesis using Cons.IH [of us] Cons.prems Literal by simp
  next
    case (Param m)
    with Cons.prems(1) obtain t us where ts: "ts = t # us" "fits ss us" "is_safe_segment_value t"
      by (cases ts) auto
    then show ?thesis using Cons.IH [of us] Cons.prems Param by auto
  qed
qed simp

text \<open>No bound value can walk the file tree or smuggle a query: every \<^verbatim>\<open>/\<close>-separated piece of
  every value a match hands to a handler is non-empty, is neither \<^verbatim>\<open>.\<close> nor \<^verbatim>\<open>..\<close> and holds no
  \<^verbatim>\<open>?\<close> or \<^verbatim>\<open>#\<close>; the value of a wildcard included.\<close>

theorem match_values_safe:
  assumes "request_target_segments path = Some ts" "match_segments segs ts path = Some ps"
    "params_get ps n = Some v"
  shows "list_all is_safe_segment_value (split_on CHR ''/'' v)"
proof -
  have f: "fits segs ts" "ps = PathParams.make (bindings segs ts)"
    using assms(2) by (auto simp: match_segments_spec [OF assms(1)] split: if_splits)
  then have "(n, v) \<in> set (bindings segs ts)"
    using assms(3) by (simp add: params_get_map_of map_of_SomeD)
  with f request_target_segments_Some(2) [OF assms(1)] show ?thesis by (intro bindings_safe) auto
qed

theorem match_values_safe_witness:
  "params_get (PathParams.make [(''p'', ''a/b'')]) ''p'' = Some ''a/b'' \<and>
   list_all is_safe_segment_value (split_on CHR ''/'' ''a/b'')"
proof -
  have t: "request_target_segments ''/s/a/b'' = Some [''s'', ''a'', ''b'']" by code_simp
  have m: "match_segments [Literal ''s'', Wildcard ''p''] [''s'', ''a'', ''b''] ''/s/a/b''
     = Some (PathParams.make [(''p'', ''a/b'')])"
    by (simp add: match_segments_spec [OF t] is_safe_segment_value_def)
  have g: "params_get (PathParams.make [(''p'', ''a/b'')]) ''p'' = Some ''a/b''"
    by (simp add: params_get_map_of)
  show ?thesis using g match_values_safe [OF t m g] by simp
qed

section \<open>The shape test of \<^verbatim>\<open>merge\<close>\<close>

lemma segments_equivalent_simps [simp]:
  "segments_equivalent [] []"
  "\<not> segments_equivalent [] (t # ts)"
  "\<not> segments_equivalent (s # ss) []"
  "segments_equivalent (s # ss) (t # ts) \<longleftrightarrow> same_kind s t \<and> segments_equivalent ss ts"
  by (auto simp: segments_equivalent_def)

lemma segments_equivalent_sym: "segments_equivalent a b \<Longrightarrow> segments_equivalent b a"
proof (induction a arbitrary: b)
  case (Cons s ss)
  then obtain t us where b: "b = t # us" by (cases b) auto
  with Cons show ?case by (cases s; cases t) auto
qed (case_tac b; simp)

lemma equivalent_fits: "segments_equivalent a b \<Longrightarrow> fits a ts = fits b ts"
proof (induction a arbitrary: b ts)
  case (Cons s ss)
  then obtain t us where b: "b = t # us" "same_kind s t" "segments_equivalent ss us" by (cases b) auto
  then have "ss = [] \<longleftrightarrow> us = []" by (cases ss; cases us) auto
  with b Cons.IH [OF b(3)] show ?case by (cases s; cases t) (auto split: list.splits)
qed (case_tac b; simp)

lemma fits_exists:
  assumes "\<forall>s\<in>set (butlast segs). \<not> is_wildcard s"
  shows "\<exists>ts. fits segs ts"
  using assms
proof (induction segs)
  case (Cons s ss)
  have "\<forall>s\<in>set (butlast ss). \<not> is_wildcard s" using Cons.prems by (cases ss) auto
  with Cons.IH obtain ts where ts: "fits ss ts" by blast
  show ?case
  proof (cases s)
    case (Literal l)
    then show ?thesis using ts by (intro exI [of _ "l # ts"]) simp
  next
    case (Param n)
    then show ?thesis using ts by (intro exI [of _ "''x'' # ts"]) (simp add: is_safe_segment_value_def)
  next
    case (Wildcard n)
    then have "ss = []" using Cons.prems by (cases ss) auto
    then show ?thesis using Wildcard by (intro exI [of _ "[''x'']"]) (simp add: is_safe_segment_value_def)
  qed
qed (auto intro: exI [of _ "[]"])

lemma fits_Nil: "fits segs [] \<longleftrightarrow> segs = []"
  by (cases segs; cases "hd segs") auto

lemma another_safe_value:
  obtains v where "is_safe_segment_value v" "v \<noteq> l"
proof (cases "l = ''x''")
  case True
  then show ?thesis using that [of "''y''"] by (simp add: is_safe_segment_value_def)
next
  case False
  then show ?thesis using that [of "''x''"] by (simp add: is_safe_segment_value_def)
qed

definition wild_last :: "Segment list \<Rightarrow> bool" where
  "wild_last segs \<longleftrightarrow> (\<forall>s\<in>set (butlast segs). \<not> is_wildcard s)"

lemma wild_last_Cons: "wild_last (s # ss) \<Longrightarrow> wild_last ss \<and> (is_wildcard s \<longrightarrow> ss = [])"
  by (cases ss) (auto simp: wild_last_def)

lemma fits_not_literal:
  assumes "\<And>ts. fits (Literal l # ss) ts = fits (t # us) ts" "wild_last (t # us)"
  shows "t = Literal l"
proof -
  obtain v where v: "is_safe_segment_value v" "v \<noteq> l" by (rule another_safe_value)
  obtain ts where ts: "fits us ts"
    using fits_exists wild_last_Cons [OF assms(2)] by (auto simp: wild_last_def)
  show ?thesis
  proof (cases t)
    case (Literal m)
    then show ?thesis using assms(1) [of "m # ts"] ts by simp
  next
    case (Param n)
    then show ?thesis using assms(1) [of "v # ts"] ts v by simp
  next
    case (Wildcard n)
    then show ?thesis
      using assms(1) [of "[v]"] v wild_last_Cons [OF assms(2)] by simp
  qed
qed

lemma fits_param_not_wild:
  assumes "\<And>ts. fits (Param n # ss) ts = fits [Wildcard m] ts"
  shows False
proof (cases ss)
  case Nil
  then show False
    using assms [of "[''x'', ''x'']"] by (simp add: is_safe_segment_value_def)
next
  case Cons
  then show False
    using assms [of "[''x'']"] by (simp add: is_safe_segment_value_def fits_Nil)
qed

lemma fits_determine_kind:
  assumes "\<And>ts. fits (s # ss) ts = fits (t # us) ts" "wild_last (s # ss)" "wild_last (t # us)"
  shows "same_kind s t"
proof (cases s)
  case (Literal l)
  then show ?thesis using fits_not_literal [of l ss t us] assms by simp
next
  case (Param n)
  show ?thesis
  proof (cases t)
    case (Literal l)
    then show ?thesis using fits_not_literal [of l us s ss] assms by simp
  next
    case (Wildcard m)
    then have "us = []" using assms(3) wild_last_Cons by fastforce
    then show ?thesis using fits_param_not_wild [of n ss m] assms(1) Param Wildcard by blast
  qed (use Param in simp)
next
  case (Wildcard m)
  then have ss: "ss = []" using assms(2) wild_last_Cons by fastforce
  show ?thesis
  proof (cases t)
    case (Literal l)
    then show ?thesis using fits_not_literal [of l us s ss] assms by simp
  next
    case (Param n)
    then show ?thesis using fits_param_not_wild [of n us m] assms(1) Wildcard ss by blast
  qed (use Wildcard in simp)
qed

lemma fits_determine_shape:
  assumes "\<And>ts. fits a ts = fits b ts" "wild_last a" "wild_last b"
  shows "segments_equivalent a b"
  using assms
proof (induction a arbitrary: b)
  case Nil
  then have "fits b []" by (metis fits_Nil)
  then show ?case by (simp add: fits_Nil)
next
  case (Cons s ss)
  obtain t us where b: "b = t # us"
    using Cons.prems(1) [of "[]"] fits_Nil [of b] fits_Nil [of "s # ss"] by (cases b) auto
  have k: "same_kind s t"
    using fits_determine_kind [of s ss t us] Cons.prems b by simp
  have w: "wild_last ss" "wild_last us" using Cons.prems b wild_last_Cons by blast+
  have "segments_equivalent ss us"
  proof (cases s)
    case (Literal l)
    then have "t = Literal l" using k by (cases t) auto
    with Cons.prems(1) [of "l # _"] Cons.IH [OF _ w] b Literal show ?thesis by simp
  next
    case (Param n)
    then obtain m where "t = Param m" using k by (cases t) auto
    with Cons.prems(1) [of "''x'' # _"] Cons.IH [OF _ w] b Param show ?thesis
      by (simp add: is_safe_segment_value_def)
  next
    case (Wildcard n)
    then have "is_wildcard t" using k by (cases t) auto
    then have "ss = []" "us = []"
      using Wildcard Cons.prems(2,3) b wild_last_Cons by fastforce+
    then show ?thesis by simp
  qed
  with k b show ?case by simp
qed

text \<open>The conflict test of \<^verbatim>\<open>Router::merge\<close> is exact: two registered patterns are
  \<^verbatim>\<open>segments_equivalent\<close> if and only if they stand for the same segment sequences, that is, compete
  for the same set of URLs.\<close>

theorem segments_equivalent_exact:
  assumes "parse_pattern p = Ok a" "parse_pattern q = Ok b"
  shows "segments_equivalent a b \<longleftrightarrow> (\<forall>ts. fits a ts = fits b ts)"
proof -
  have "wild_last a" "wild_last b"
    using assms by (auto simp: parse_pattern_Ok_iff valid_pattern_def wild_last_def)
  then show ?thesis using fits_determine_shape equivalent_fits by blast
qed

theorem segments_equivalent_exact_witness:
  "\<forall>ts. fits [Literal ''a'', Param ''id''] ts = fits [Literal ''a'', Param ''name''] ts"
proof -
  have p: "parse_pattern ''/a/{id}'' = Ok [Literal ''a'', Param ''id'']" by code_simp
  have q: "parse_pattern ''/a/{name}'' = Ok [Literal ''a'', Param ''name'']" by code_simp
  show ?thesis using segments_equivalent_exact [OF p q] by simp
qed

end
