(* ===== verification/Cookie.thy ===== *)
theory Cookie
  imports Request_Spec Body_Framing
begin

text \<open>
  \<^verbatim>\<open>crates/http/src/cookie.rs\<close> and \<^verbatim>\<open>RequestHead::cookies\<close> of \<^verbatim>\<open>request.rs\<close>: reading the \<^verbatim>\<open>Cookie\<close> header and
  building \<^verbatim>\<open>Set-Cookie\<close> values. The write side is a state machine of constructors and setters; the
  inductive predicate \<open>cookie_reachable\<close> is what client code can build with them, and its invariant is
  the set of browser rules (prefixes, \<^verbatim>\<open>SameSite=None\<close>) together with the character classes that
  keep a value from injecting an attribute.
\<close>

section \<open>Reading\<close>

definition MAX_COOKIE_COUNT :: nat where "MAX_COOKIE_COUNT = 100"
definition MAX_COOKIE_STRING_BYTES :: nat where "MAX_COOKIE_STRING_BYTES = 8 * 1024"

datatype CookieError = CookieStringTooLarge | TooManyCookies | InvalidCookiePair | InvalidCookieName
  | InvalidCookieValue | InvalidPath | ReservedPrefix | PrefixMismatch | HostPrefixPath
  | SessionSameSiteNone

definition is_cookie_octet :: "byte \<Rightarrow> bool" where
  "is_cookie_octet b \<longleftrightarrow> bval b = 0x21 \<or> (0x23 \<le> bval b \<and> bval b \<le> 0x2b) \<or> (0x2d \<le> bval b \<and> bval b \<le> 0x3a)
     \<or> (0x3c \<le> bval b \<and> bval b \<le> 0x5b) \<or> (0x5d \<le> bval b \<and> bval b \<le> 0x7e)"

definition parse_cookie_pair :: "bytes \<Rightarrow> CookieError + (bytes \<times> bytes)" where
  "parse_cookie_pair pair =
     res_bind (ok_or InvalidCookiePair (split_once CHR ''='' pair)) (\<lambda>(name, raw_value).
       if name = [] \<or> \<not> list_all is_tchar name then Err InvalidCookiePair
       else res_bind
         (case strip_prefix [dquote] raw_value of
            Some inner \<Rightarrow> ok_or InvalidCookiePair (strip_suffix [dquote] inner)
          | None \<Rightarrow> Ok raw_value) (\<lambda>val.
         if \<not> list_all is_cookie_octet val then Err InvalidCookiePair else Ok (name, val)))"

definition parse_cookie_header :: "bytes \<Rightarrow> CookieError + (bytes \<times> bytes) list" where
  "parse_cookie_header s =
     (if length s > MAX_COOKIE_STRING_BYTES then Err CookieStringTooLarge
      else let segs = map trim_ows_str (split_on CHR '';'' s) in
        if length segs > MAX_COOKIE_COUNT then Err TooManyCookies
        else map_result parse_cookie_pair segs)"

definition cookies :: "RequestHead \<Rightarrow> CookieError + (bytes \<times> bytes) list" where
  "cookies head =
     (let raw_headers = map snd (filter (\<lambda>(name, _). eq_ignore_ascii_case name ''cookie'') (headers head)) in
      if raw_headers = [] then Ok []
      else let joined_len = sum_list (map length raw_headers) + (length raw_headers - 1) * 2 in
        if joined_len > MAX_COOKIE_STRING_BYTES then Err CookieStringTooLarge
        else let segs = concat (map (\<lambda>h. map trim_ows_str (split_on CHR '';'' h)) raw_headers) in
          if length segs > MAX_COOKIE_COUNT then Err TooManyCookies
          else map_result parse_cookie_pair segs)"

section \<open>Writing\<close>

datatype SameSite = Strict | Lax | SameSiteNone

definition same_site_str :: "SameSite \<Rightarrow> bytes" where
  "same_site_str s = (case s of Strict \<Rightarrow> ''Strict'' | Lax \<Rightarrow> ''Lax'' | SameSiteNone \<Rightarrow> ''None'')"

datatype SessionSameSite = SessionLax | SessionStrict

definition same_site_of_session :: "SessionSameSite \<Rightarrow> SameSite" where
  "same_site_of_session v = (case v of SessionLax \<Rightarrow> Lax | SessionStrict \<Rightarrow> Strict)"

definition session_of_same_site :: "SameSite \<Rightarrow> CookieError + SessionSameSite" where
  "session_of_same_site v = (case v of Lax \<Rightarrow> Ok SessionLax | Strict \<Rightarrow> Ok SessionStrict
     | SameSiteNone \<Rightarrow> Err SessionSameSiteNone)"

datatype CookiePrefix = HostPrefix | SecurePrefix

record SetCookie =
  sc_name :: bytes
  sc_value :: bytes
  sc_http_only :: bool
  sc_secure :: bool
  sc_same_site :: "SameSite option"
  sc_path :: "bytes option"
  sc_max_age :: "int option"
  sc_prefix :: "CookiePrefix option"

definition HOST_PREFIX :: bytes where "HOST_PREFIX = ''__Host-''"
definition SECURE_PREFIX :: bytes where "SECURE_PREFIX = ''__Secure-''"

definition detect_prefix :: "bytes \<Rightarrow> CookiePrefix option" where
  "detect_prefix b =
     (if length b \<ge> length HOST_PREFIX \<and> eq_ignore_ascii_case (take (length HOST_PREFIX) b) HOST_PREFIX
      then Some HostPrefix
      else if length b \<ge> length SECURE_PREFIX \<and>
          eq_ignore_ascii_case (take (length SECURE_PREFIX) b) SECURE_PREFIX
      then Some SecurePrefix
      else None)"

definition is_path_value :: "byte \<Rightarrow> bool" where
  "is_path_value b \<longleftrightarrow> b \<noteq> CHR '';'' \<and> 0x20 \<le> bval b \<and> bval b \<le> 0x7e"

definition validate_name_value :: "bytes \<Rightarrow> bytes \<Rightarrow> CookieError + unit" where
  "validate_name_value name val =
     (if name = [] \<or> \<not> list_all is_tchar name then Err InvalidCookieName
      else if \<not> list_all is_cookie_octet val then Err InvalidCookieValue
      else Ok ())"

definition build :: "bytes \<Rightarrow> bytes \<Rightarrow> CookiePrefix option \<Rightarrow> SetCookie" where
  "build name val pfx =
     (let (secure, path) = (case pfx of
            Some HostPrefix \<Rightarrow> (True, Some ''/'')
          | Some SecurePrefix \<Rightarrow> (True, None)
          | None \<Rightarrow> (False, None))
      in \<lparr>sc_name = name, sc_value = val, sc_http_only = False, sc_secure = secure,
          sc_same_site = None, sc_path = path, sc_max_age = None, sc_prefix = pfx\<rparr>)"

definition set_cookie_new :: "bytes \<Rightarrow> bytes \<Rightarrow> CookieError + SetCookie" where
  "set_cookie_new name val =
     res_bind (validate_name_value name val) (\<lambda>_.
       if detect_prefix name \<noteq> None then Err ReservedPrefix else Ok (build name val None))"

definition session_with :: "bytes \<Rightarrow> bytes \<Rightarrow> SessionSameSite \<Rightarrow> CookieError + SetCookie" where
  "session_with name val same_site =
     res_bind (validate_name_value name val) (\<lambda>_.
       let c = build name val (detect_prefix name) in
       Ok (c\<lparr>sc_http_only := True, sc_secure := True, sc_path := Some ''/'',
             sc_same_site := Some (same_site_of_session same_site)\<rparr>))"

definition session :: "bytes \<Rightarrow> bytes \<Rightarrow> CookieError + SetCookie" where
  "session name val = session_with name val SessionLax"

definition max_age :: "SetCookie \<Rightarrow> int \<Rightarrow> SetCookie" where
  "max_age c seconds = c\<lparr>sc_max_age := Some seconds\<rparr>"

definition session_removal_with :: "bytes \<Rightarrow> SessionSameSite \<Rightarrow> CookieError + SetCookie" where
  "session_removal_with name same_site =
     res_bind (session_with name [] same_site) (\<lambda>c. Ok (max_age c 0))"

definition session_removal :: "bytes \<Rightarrow> CookieError + SetCookie" where
  "session_removal name = session_removal_with name SessionLax"

definition host_prefixed :: "bytes \<Rightarrow> bytes \<Rightarrow> CookieError + SetCookie" where
  "host_prefixed name val =
     res_bind (validate_name_value name val) (\<lambda>_.
       if detect_prefix name \<noteq> Some HostPrefix then Err PrefixMismatch
       else Ok (build name val (Some HostPrefix)))"

definition secure_prefixed :: "bytes \<Rightarrow> bytes \<Rightarrow> CookieError + SetCookie" where
  "secure_prefixed name val =
     res_bind (validate_name_value name val) (\<lambda>_.
       if detect_prefix name \<noteq> Some SecurePrefix then Err PrefixMismatch
       else Ok (build name val (Some SecurePrefix)))"

definition http_only :: "SetCookie \<Rightarrow> SetCookie" where
  "http_only c = c\<lparr>sc_http_only := True\<rparr>"

definition secure :: "SetCookie \<Rightarrow> SetCookie" where
  "secure c = c\<lparr>sc_secure := True\<rparr>"

definition same_site :: "SetCookie \<Rightarrow> SameSite \<Rightarrow> SetCookie" where
  "same_site c s =
     (let c = (if s = SameSiteNone then c\<lparr>sc_secure := True\<rparr> else c) in c\<lparr>sc_same_site := Some s\<rparr>)"

definition cookie_path :: "SetCookie \<Rightarrow> bytes \<Rightarrow> CookieError + SetCookie" where
  "cookie_path c path =
     (if path = [] \<or> \<not> starts_with ''/'' path \<or> \<not> list_all is_path_value path then Err InvalidPath
      else if sc_prefix c = Some HostPrefix \<and> path \<noteq> ''/'' then Err HostPrefixPath
      else Ok (c\<lparr>sc_path := Some path\<rparr>))"

definition to_header_value :: "SetCookie \<Rightarrow> bytes" where
  "to_header_value c =
     (let out = sc_name c @ ''='' @ sc_value c;
          out = (case sc_path c of Some path \<Rightarrow> out @ ''; Path='' @ path | None \<Rightarrow> out);
          out = (case sc_max_age c of Some n \<Rightarrow> out @ ''; Max-Age='' @ int_to_decimal n | None \<Rightarrow> out);
          out = (case sc_same_site c of Some s \<Rightarrow> out @ ''; SameSite='' @ same_site_str s | None \<Rightarrow> out);
          out = (if sc_secure c then out @ ''; Secure'' else out);
          out = (if sc_http_only c then out @ ''; HttpOnly'' else out)
      in out)"

text \<open>What client code can build: the public constructors, then any setters.\<close>

inductive cookie_reachable :: "SetCookie \<Rightarrow> bool" where
  reach_new: "set_cookie_new name val = Ok c \<Longrightarrow> cookie_reachable c"
| reach_session: "session_with name val ss = Ok c \<Longrightarrow> cookie_reachable c"
| reach_host: "host_prefixed name val = Ok c \<Longrightarrow> cookie_reachable c"
| reach_secure_prefixed: "secure_prefixed name val = Ok c \<Longrightarrow> cookie_reachable c"
| reach_http_only: "cookie_reachable c \<Longrightarrow> cookie_reachable (http_only c)"
| reach_secure: "cookie_reachable c \<Longrightarrow> cookie_reachable (secure c)"
| reach_same_site: "cookie_reachable c \<Longrightarrow> cookie_reachable (same_site c s)"
| reach_path: "cookie_reachable c \<Longrightarrow> cookie_path c p = Ok c' \<Longrightarrow> cookie_reachable c'"
| reach_max_age: "cookie_reachable c \<Longrightarrow> cookie_reachable (max_age c n)"

section \<open>Reading: one header or several\<close>

lemma map_trim_split_space:
  "map trim_ows_str (split_on CHR '';'' (CHR '' '' # s)) = map trim_ows_str (split_on CHR '';'' s)"
proof -
  obtain x xs where "split_on CHR '';'' s = x # xs" using split_on_ne by (metis neq_Nil_conv)
  then show ?thesis by (simp add: trim_ows_str_def is_ows_def)
qed

lemma map_trim_split_join:
  "hs \<noteq> [] \<Longrightarrow> map trim_ows_str (split_on CHR '';'' (join ''; '' hs)) =
     concat (map (\<lambda>h. map trim_ows_str (split_on CHR '';'' h)) hs)"
proof (induction "''; ''" hs rule: join.induct)
  case (3 x y zs)
  then show ?case
    by (simp add: split_on_append_delim_gen map_trim_split_space del: split_on.simps)
qed simp_all

text \<open>Several \<^verbatim>\<open>Cookie\<close> headers are one. The cookies of a request are exactly those of the single
  header value obtained by joining all its \<^verbatim>\<open>Cookie\<close> headers with a semicolon and a space: same pairs
  or same error, so the limits on length and count hold for the sum and cannot be evaded by splitting.\<close>

theorem cookies_of_joined_headers:
  "cookies h = (if header_values h ''cookie'' = [] then Ok []
     else parse_cookie_header (join ''; '' (header_values h ''cookie'')))"
  by (simp add: cookies_def header_values_def [symmetric] parse_cookie_header_def length_join
      map_trim_split_join Let_def del: length_map length_concat)

section \<open>Character classes\<close>

lemma cookie_octet_props:
  assumes "is_cookie_octet b"
  shows "b \<noteq> CHR '';'' \<and> b \<noteq> dquote \<and> \<not> is_ows b \<and> 33 \<le> bval b \<and> bval b \<le> 126"
proof -
  have "\<not> is_cookie_octet CHR '';''" "\<not> is_cookie_octet dquote"
    by (simp_all add: is_cookie_octet_def)
  moreover have "33 \<le> bval b \<and> bval b \<le> 126" using assms by (auto simp: is_cookie_octet_def)
  ultimately show ?thesis using assms by (auto simp: is_ows_def)
qed

lemma tchar_semicolon: "is_tchar b \<Longrightarrow> b \<noteq> CHR '';'' \<and> b \<noteq> CHR ''='' \<and> \<not> is_ows b"
proof -
  assume b: "is_tchar b"
  have "\<not> is_tchar CHR '';''" "\<not> is_tchar CHR ''=''" by (simp_all add: is_tchar_def ascii_class_defs)
  moreover have "\<not> is_ows b" using tchar_range [OF b] by (auto simp: is_ows_def)
  ultimately show ?thesis using b by auto
qed

lemma parse_cookie_pair_render:
  assumes "n \<noteq> []" "list_all is_tchar n" "list_all is_cookie_octet v"
  shows "parse_cookie_pair (n @ CHR ''='' # v) = Ok (n, v)"
proof -
  have "CHR ''='' \<notin> set n" using assms(2) by (auto simp: list_all_iff dest: tchar_semicolon)
  moreover have "strip_prefix [dquote] v = None"
    using assms(3) by (cases v) (auto dest: cookie_octet_props)
  ultimately show ?thesis
    using assms by (simp add: parse_cookie_pair_def split_once_append)
qed

definition cookie_pair_ok :: "bytes \<times> bytes \<Rightarrow> bool" where
  "cookie_pair_ok = (\<lambda>(n, v). n \<noteq> [] \<and> list_all is_tchar n \<and> list_all is_cookie_octet v)"

definition render_cookie :: "bytes \<times> bytes \<Rightarrow> bytes" where
  "render_cookie = (\<lambda>(n, v). n @ CHR ''='' # v)"

lemma render_cookie_clean:
  assumes "cookie_pair_ok p"
  shows "CHR '';'' \<notin> set (render_cookie p)" "trim_ows_str (render_cookie p) = render_cookie p"
proof -
  obtain n v where p: "p = (n, v)" by (cases p)
  show "CHR '';'' \<notin> set (render_cookie p)"
    using assms tchar_semicolon cookie_octet_props
    by (auto simp: p render_cookie_def cookie_pair_ok_def list_all_iff)
  have "\<forall>x\<in>set (render_cookie p). \<not> is_ows x"
    using assms tchar_semicolon cookie_octet_props
    by (auto simp: p render_cookie_def cookie_pair_ok_def list_all_iff is_ows_def [of "CHR ''=''"])
  then show "trim_ows_str (render_cookie p) = render_cookie p" by (simp add: trim_ows_str_def)
qed

text \<open>Round trip. A list of 1 to 100 cookies with token names and cookie-octet values, sent back in
  one header as \<^verbatim>\<open>name=value\<close> pairs joined by a semicolon and a space, is read back unchanged.\<close>

theorem cookie_header_roundtrip:
  assumes "ps \<noteq> []" and "list_all cookie_pair_ok ps" and "length ps \<le> MAX_COOKIE_COUNT"
    and "length (join ''; '' (map render_cookie ps)) \<le> MAX_COOKIE_STRING_BYTES"
  shows "parse_cookie_header (join ''; '' (map render_cookie ps)) = Ok ps"
proof -
  have "map trim_ows_str (split_on CHR '';'' (render_cookie p)) = [render_cookie p]" if "p \<in> set ps" for p
    using that assms(2) by (simp add: list_all_iff render_cookie_clean)
  then have "concat (map (\<lambda>h. map trim_ows_str (split_on CHR '';'' h)) (map render_cookie ps)) = map render_cookie ps"
    by (induction ps) auto
  then have segs: "map trim_ows_str (split_on CHR '';'' (join ''; '' (map render_cookie ps))) = map render_cookie ps"
    using assms(1) by (simp add: map_trim_split_join)
  have "parse_cookie_pair (render_cookie p) = Ok p" if "p \<in> set ps" for p
    using that assms(2) parse_cookie_pair_render
    by (cases p) (auto simp: render_cookie_def cookie_pair_ok_def list_all_iff)
  then have "map_result parse_cookie_pair (map render_cookie ps) = Ok ps"
    by (simp add: map_result_Ok_iff list_all2_map1 list_all2_same)
  then show ?thesis
    using assms(3,4) by (simp add: parse_cookie_header_def segs Let_def del: length_map) simp
qed

theorem cookie_header_roundtrip_witness:
  "parse_cookie_header (join ''; '' (map render_cookie [(''a'', ''1''), (''sid'', [])])) =
     Ok [(''a'', ''1''), (''sid'', [])]"
  by (rule cookie_header_roundtrip)
    (simp_all add: cookie_pair_ok_def render_cookie_def is_tchar_def is_cookie_octet_def ascii_class_defs
      MAX_COOKIE_COUNT_def MAX_COOKIE_STRING_BYTES_def)

section \<open>Writing: the builder's invariant\<close>

definition cookie_inv :: "SetCookie \<Rightarrow> bool" where
  "cookie_inv c \<longleftrightarrow> cookie_pair_ok (sc_name c, sc_value c) \<and>
     (\<forall>p. sc_path c = Some p \<longrightarrow> starts_with ''/'' p \<and> list_all is_path_value p) \<and>
     sc_prefix c = detect_prefix (sc_name c) \<and>
     (sc_prefix c = Some HostPrefix \<longrightarrow> sc_secure c \<and> sc_path c = Some ''/'') \<and>
     (sc_prefix c = Some SecurePrefix \<longrightarrow> sc_secure c) \<and>
     (sc_same_site c = Some SameSiteNone \<longrightarrow> sc_secure c)"

lemma validate_Ok: "validate_name_value n v = Ok u \<longleftrightarrow> cookie_pair_ok (n, v)"
  by (auto simp: validate_name_value_def cookie_pair_ok_def)

lemma slash_path_ok: "starts_with ''/'' ''/'' \<and> list_all is_path_value ''/''"
  by (simp add: starts_with_def is_path_value_def)

lemma build_inv: "cookie_pair_ok (n, v) \<Longrightarrow> cookie_inv (build n v (detect_prefix n))"
  using slash_path_ok by (auto simp: cookie_inv_def build_def split: option.splits CookiePrefix.splits)

lemma session_with_inv: "session_with n v ss = Ok c \<Longrightarrow> cookie_inv c"
  using slash_path_ok
  by (auto simp: session_with_def res_bind_eq_Ok validate_Ok cookie_inv_def build_def Let_def
      same_site_of_session_def split: option.splits CookiePrefix.splits SessionSameSite.splits)

lemma constructor_inv:
  "set_cookie_new n v = Ok c \<Longrightarrow> cookie_inv c"
  "host_prefixed n v = Ok c \<Longrightarrow> cookie_inv c"
  "secure_prefixed n v = Ok c \<Longrightarrow> cookie_inv c"
  using build_inv [of n v]
  by (auto simp: set_cookie_new_def host_prefixed_def secure_prefixed_def res_bind_eq_Ok validate_Ok
      split: if_splits)

lemma setter_inv:
  assumes "cookie_inv c"
  shows "cookie_inv (http_only c)" "cookie_inv (secure c)" "cookie_inv (same_site c s)" "cookie_inv (max_age c n)"
    and "cookie_path c p = Ok c' \<Longrightarrow> cookie_inv c'"
  using assms
  by (auto simp: cookie_inv_def http_only_def secure_def same_site_def max_age_def cookie_path_def Let_def
      split: if_splits)

lemma reachable_inv: "cookie_reachable c \<Longrightarrow> cookie_inv c"
  by (induction rule: cookie_reachable.induct) (simp_all add: constructor_inv session_with_inv setter_inv)

text \<open>Whatever constructors and setters are called, a \<^verbatim>\<open>SetCookie\<close> obeys the browser rules: its name is a
  token and its value and path stay in their character classes; a name that browsers read as
  \<^verbatim>\<open>__Host-\<close> comes with \<^verbatim>\<open>Secure\<close> and \<^verbatim>\<open>Path=/\<close>, one that they read as \<^verbatim>\<open>__Secure-\<close> comes with
  \<^verbatim>\<open>Secure\<close>, and \<^verbatim>\<open>SameSite=None\<close> comes with \<^verbatim>\<open>Secure\<close>.\<close>

theorem set_cookie_rules:
  assumes "cookie_reachable c"
  shows "cookie_pair_ok (sc_name c, sc_value c) \<and>
    (\<forall>p. sc_path c = Some p \<longrightarrow> starts_with ''/'' p \<and> list_all is_path_value p) \<and>
    (detect_prefix (sc_name c) = Some HostPrefix \<longrightarrow> sc_secure c \<and> sc_path c = Some ''/'') \<and>
    (detect_prefix (sc_name c) = Some SecurePrefix \<longrightarrow> sc_secure c) \<and>
    (sc_same_site c = Some SameSiteNone \<longrightarrow> sc_secure c)"
  using reachable_inv [OF assms] by (simp add: cookie_inv_def)

lemma reachable_example:
  "\<exists>c. cookie_reachable c \<and> sc_name c = ''__Host-s'' \<and> detect_prefix (sc_name c) = Some HostPrefix"
proof -
  have pfx: "detect_prefix ''__Host-s'' = Some HostPrefix"
    by (simp add: detect_prefix_def HOST_PREFIX_def)
  have ok: "host_prefixed ''__Host-s'' ''1'' = Ok (build ''__Host-s'' ''1'' (Some HostPrefix))"
    using pfx by (simp add: host_prefixed_def validate_name_value_def is_tchar_def is_cookie_octet_def ascii_class_defs)
  have "cookie_reachable (build ''__Host-s'' ''1'' (Some HostPrefix))"
    by (rule reach_host [OF ok])
  with pfx show ?thesis by (intro exI [of _ "build ''__Host-s'' ''1'' (Some HostPrefix)"]) (simp add: build_def)
qed

theorem set_cookie_rules_witness:
  "\<exists>c. cookie_reachable c \<and> sc_name c = ''__Host-s'' \<and> sc_secure c \<and> sc_path c = Some ''/''"
  using reachable_example set_cookie_rules by blast

section \<open>Writing: the header value\<close>

definition cookie_attributes :: "SetCookie \<Rightarrow> bytes list" where
  "cookie_attributes c =
     (case sc_path c of Some p \<Rightarrow> [''Path='' @ p] | None \<Rightarrow> []) @
     (case sc_max_age c of Some n \<Rightarrow> [''Max-Age='' @ int_to_decimal n] | None \<Rightarrow> []) @
     (case sc_same_site c of Some s \<Rightarrow> [''SameSite='' @ same_site_str s] | None \<Rightarrow> []) @
     (if sc_secure c then [''Secure''] else []) @ (if sc_http_only c then [''HttpOnly''] else [])"

lemma to_header_value_concat:
  "to_header_value c = render_cookie (sc_name c, sc_value c) @ concat (map (\<lambda>a. ''; '' @ a) (cookie_attributes c))"
  by (simp add: to_header_value_def cookie_attributes_def render_cookie_def Let_def split: option.split)

lemma split_on_attributes:
  assumes "d \<notin> set s" "\<And>a. a \<in> set as \<Longrightarrow> d \<notin> set a" "sp \<noteq> d"
  shows "split_on d (s @ concat (map (\<lambda>a. d # sp # a) as)) = s # map ((#) sp) as"
  using assms
proof (induction as arbitrary: s)
  case (Cons a as)
  then have "split_on d ((sp # a) @ concat (map (\<lambda>a. d # sp # a) as)) = (sp # a) # map ((#) sp) as"
    by (intro Cons.IH) auto
  with Cons.prems(1) show ?case by (simp add: split_on_append_delim del: split_on.simps)
qed simp

lemma int_to_decimal_chars: "b \<in> set (int_to_decimal n) \<Longrightarrow> b = CHR ''-'' \<or> is_ascii_digit b"
  by (auto simp: int_to_decimal_def dest: fmt_dec_digits split: if_splits)

definition clean :: "byte \<Rightarrow> bool" where
  "clean b \<longleftrightarrow> b \<noteq> CHR '';'' \<and> 32 \<le> bval b \<and> bval b \<le> 126"

lemma same_site_clean: "list_all clean (same_site_str s)"
  by (cases s) (simp_all add: same_site_str_def clean_def)

lemma decimal_clean: "list_all clean (int_to_decimal n)"
  unfolding list_all_iff
proof
  fix b assume "b \<in> set (int_to_decimal n)"
  then show "clean b" using int_to_decimal_chars [of b n] by (auto simp: clean_def is_ascii_digit_def)
qed

lemma path_clean: "cookie_inv c \<Longrightarrow> sc_path c = Some p \<Longrightarrow> list_all clean p"
  by (simp add: cookie_inv_def list_all_iff clean_def is_path_value_def)

lemma attribute_clean:
  assumes "cookie_inv c" shows "list_all (list_all clean) (cookie_attributes c)"
  using path_clean [OF assms] same_site_clean decimal_clean
  by (simp add: cookie_attributes_def clean_def split: option.split)

lemma pair_clean:
  assumes "cookie_pair_ok p" shows "list_all clean (render_cookie p)"
proof -
  obtain n v where p: "p = (n, v)" by (cases p)
  have "list_all clean n"
    using assms tchar_range tchar_semicolon
    by (fastforce simp: p cookie_pair_ok_def list_all_iff clean_def)
  moreover have "list_all clean v"
    using assms cookie_octet_props by (fastforce simp: p cookie_pair_ok_def list_all_iff clean_def)
  ultimately show ?thesis by (simp add: p render_cookie_def clean_def)
qed

lemma list_all_concat_map: "list_all P (concat (map f xs)) \<longleftrightarrow> list_all (\<lambda>x. list_all P (f x)) xs"
  by (induction xs) auto

lemma header_value_chars:
  assumes "cookie_inv c"
  shows "list_all (\<lambda>b. 32 \<le> bval b \<and> bval b \<le> 126) (to_header_value c)"
proof -
  have "list_all clean (render_cookie (sc_name c, sc_value c))"
    using assms by (simp add: cookie_inv_def pair_clean)
  with attribute_clean [OF assms] show ?thesis
    by (simp add: to_header_value_concat list_all_concat_map) (simp add: list_all_iff clean_def)
qed

text \<open>No attribute injection. A reader that splits the header value of any cookie the builder can
  produce at semicolons finds the \<^verbatim>\<open>name=value\<close> pair first and then exactly the attributes that were
  set, each once and in the fixed order: no name, value or path can smuggle in an attribute. All
  bytes of the value are printable ASCII.\<close>

theorem set_cookie_no_injection:
  assumes "cookie_reachable c"
  shows "split_on CHR '';'' (to_header_value c) =
      render_cookie (sc_name c, sc_value c) # map ((#) CHR '' '') (cookie_attributes c) \<and>
    (\<forall>b\<in>set (to_header_value c). 32 \<le> bval b \<and> bval b \<le> 126)"
proof -
  note inv = reachable_inv [OF assms]
  have "CHR '';'' \<notin> set (render_cookie (sc_name c, sc_value c))"
    using inv render_cookie_clean(1) by (simp add: cookie_inv_def)
  moreover have "CHR '';'' \<notin> set a" if "a \<in> set (cookie_attributes c)" for a
    using attribute_clean [OF inv] that by (auto simp: list_all_iff clean_def)
  ultimately show ?thesis
    using split_on_attributes [of "CHR '';''" "render_cookie (sc_name c, sc_value c)" "cookie_attributes c" "CHR '' ''"]
      header_value_chars [OF inv]
    by (simp add: to_header_value_concat list_all_iff)
qed

theorem set_cookie_no_injection_witness:
  "\<exists>c. cookie_reachable c \<and> sc_name c = ''__Host-s'' \<and>
     split_on CHR '';'' (to_header_value c) =
       render_cookie (sc_name c, sc_value c) # map ((#) CHR '' '') (cookie_attributes c)"
  using reachable_example set_cookie_no_injection by blast

end
