(* ===== verification/Location.thy ===== *)
theory Location
  imports Utf8
begin

text \<open>
  \<^verbatim>\<open>crates/http/src/location.rs\<close>: the validated redirect target. The code walks the \<^verbatim>\<open>char\<close>s of the string,
  so the model walks the code points of its UTF-8 bytes.
\<close>

section \<open>The code\<close>

datatype SameOriginLocationError = EmptyLocationValue | NotRootRelative | SchemeRelative | Backslash
  | ControlCharacter

fun scan_location :: "nat list \<Rightarrow> SameOriginLocationError + unit" where
  "scan_location [] = Ok ()"
| "scan_location (c # cs) =
     (if c = 0x5C then Err Backslash
      else if is_control c then Err ControlCharacter
      else scan_location cs)"

definition validate_same_origin_location :: "bytes \<Rightarrow> SameOriginLocationError + unit" where
  "validate_same_origin_location s =
     (case utf8_decode s of
        [] \<Rightarrow> Err EmptyLocationValue
      | c # chars \<Rightarrow>
          if c \<noteq> 0x2F then Err NotRootRelative
          else if chars \<noteq> [] \<and> (hd chars = 0x2F \<or> hd chars = 0x5C) then Err SchemeRelative
          else scan_location chars)"

record SameOriginLocation =
  loc_value :: bytes

definition location_new :: "bytes \<Rightarrow> SameOriginLocationError + SameOriginLocation" where
  "location_new s = res_bind (validate_same_origin_location s) (\<lambda>_. Ok \<lparr>loc_value = s\<rparr>)"

definition location_as_str :: "SameOriginLocation \<Rightarrow> bytes" where
  "location_as_str l = loc_value l"

definition location_into_string :: "SameOriginLocation \<Rightarrow> bytes" where
  "location_into_string l = loc_value l"

section \<open>Bytes and code points\<close>

lemma utf8_char_bytes:
  assumes "utf8_char s = Some (c, r)"
  shows "(\<exists>b. s = b # r \<and> bval b = c \<and> c < 128) \<or> (\<exists>e. s = e @ r \<and> 128 \<le> c \<and> (\<forall>b\<in>set e. 128 \<le> bval b))"
  using assms
  by (cases s rule: list4_cases)
    (auto simp: utf8_char_def is_cont_def Let_def split: if_splits list.splits)

lemma utf8_decode_step:
  assumes "utf8_valid s" "s \<noteq> []"
  obtains c r where "utf8_char s = Some (c, r)" "utf8_valid r" "utf8_decode s = c # utf8_decode r"
proof -
  from assms obtain c r where c: "utf8_char s = Some (c, r)" "utf8_chunks r \<noteq> None"
    by (auto simp: utf8_valid_def utf8_chunks.simps [of s] split: option.splits)
  then obtain cs where cs: "utf8_chunks r = Some cs" by auto
  have "utf8_chunks s = Some ((c, take (length s - length r) s) # cs)"
    using assms(2) c(1) cs by (simp add: utf8_chunks.simps [of s])
  with c cs show thesis by (intro that) (auto simp: utf8_valid_def utf8_decode_def)
qed

lemma ascii_byte_is_code_point:
  "utf8_valid s \<Longrightarrow> b \<in> set s \<Longrightarrow> bval b < 128 \<Longrightarrow> bval b \<in> set (utf8_decode s)"
proof (induction "length s" arbitrary: s rule: less_induct)
  case less
  then have "s \<noteq> []" by auto
  with less.prems(1) obtain c r where c: "utf8_char s = Some (c, r)" "utf8_valid r"
    "utf8_decode s = c # utf8_decode r"
    by (rule utf8_decode_step)
  have IH: "b \<in> set r \<Longrightarrow> bval b \<in> set (utf8_decode r)"
    using less.hyps [OF utf8_char_less [OF c(1)] c(2)] less.prems(3) by blast
  from utf8_char_bytes [OF c(1)] show ?case
  proof
    assume "\<exists>b. s = b # r \<and> bval b = c \<and> c < 128"
    with less.prems(2) IH show ?thesis by (auto simp: c(3))
  next
    assume "\<exists>e. s = e @ r \<and> 128 \<le> c \<and> (\<forall>b\<in>set e. 128 \<le> bval b)"
    then obtain e where "s = e @ r" "\<forall>b\<in>set e. 128 \<le> bval b" by blast
    moreover from this have "b \<notin> set e" using less.prems(3) by (meson not_le)
    ultimately have "b \<in> set r" using less.prems(2) by simp
    then show ?thesis unfolding c(3) using IH by simp
  qed
qed

lemma utf8_decode_ascii_hd:
  "utf8_valid s \<Longrightarrow> n < 128 \<Longrightarrow> (\<exists>cs. utf8_decode s = n # cs) \<longleftrightarrow> (\<exists>r. s = char_of n # r)"
proof (cases "s = []")
  case False
  assume u: "utf8_valid s" and n: "n < 128"
  from u False obtain c r where c: "utf8_char s = Some (c, r)" "utf8_decode s = c # utf8_decode r"
    by (rule utf8_decode_step)
  show ?thesis
  proof
    assume "\<exists>cs. utf8_decode s = n # cs"
    with c n utf8_char_bytes [OF c(1)] show "\<exists>r. s = char_of n # r" by fastforce
  next
    assume "\<exists>r. s = char_of n # r"
    with c n utf8_char_ascii [of "char_of n"] show "\<exists>cs. utf8_decode s = n # cs"
      by (auto simp: bval_char_of)
  qed
qed (simp add: utf8_decode_def)

lemma slash_code: "char_of (0x2F :: nat) = CHR ''/''"
  by (simp flip: bval_eq_iff add: bval_char_of)

lemma scan_location_Ok: "scan_location cs = Ok () \<longleftrightarrow> (\<forall>c\<in>set cs. c \<noteq> 0x5C \<and> \<not> is_control c)"
  by (induction cs) auto

section \<open>Properties\<close>

lemma location_shape:
  assumes "utf8_valid s" and "location_new s = Ok l"
  shows "location_as_str l = s \<and> (\<exists>r. s = CHR ''/'' # r \<and> (r = [] \<or> hd r \<noteq> CHR ''/'' \<and> hd r \<noteq> backslash)) \<and>
    backslash \<notin> set s \<and> (\<forall>b\<in>set s. 32 \<le> bval b \<and> bval b \<noteq> 127)"
proof -
  from assms(2) obtain chars where l: "l = \<lparr>loc_value = s\<rparr>" and d: "utf8_decode s = 0x2F # chars"
    and nx: "\<not> (chars \<noteq> [] \<and> (hd chars = 0x2F \<or> hd chars = 0x5C))" and sc: "scan_location chars = Ok ()"
    by (auto simp: location_new_def validate_same_origin_location_def res_bind_eq_Ok
        split: list.splits if_splits)
  then obtain r where r: "s = CHR ''/'' # r"
    using utf8_decode_ascii_hd [OF assms(1), of "0x2F"] slash_code by auto
  then have ur: "utf8_valid r" and dr: "utf8_decode r = chars"
    using assms(1) d by (auto simp: utf8_decode_def utf8_chunks_ascii_Cons split: option.splits)
  have pts: "c \<noteq> 0x5C \<and> \<not> is_control c" if "c \<in> set (utf8_decode s)" for c
    using that sc by (auto simp: d scan_location_Ok is_control_def)
  have ok: "bval b \<noteq> 0x5C \<and> 32 \<le> bval b \<and> bval b \<noteq> 127" if "b \<in> set s" for b
  proof (cases "bval b < 128")
    case True
    from pts [OF ascii_byte_is_code_point [OF assms(1) that True]] show ?thesis
      by (auto simp: is_control_def)
  qed auto
  have "hd r \<noteq> CHR ''/''" if "r \<noteq> []"
  proof
    assume h: "hd r = CHR ''/''"
    with that have "\<exists>q. r = char_of (0x2F :: nat) # q" by (cases r) (auto simp: slash_code)
    then have "\<exists>cs. chars = 0x2F # cs" using utf8_decode_ascii_hd [OF ur, of "0x2F"] dr by simp
    with nx show False by auto
  qed
  moreover have "backslash \<notin> set s"
  proof
    assume "backslash \<in> set s"
    from ok [OF this] show False by simp
  qed
  moreover from this have "r \<noteq> [] \<longrightarrow> hd r \<noteq> backslash" using r by (cases r) auto
  ultimately show ?thesis
    using ok by (auto simp: l location_as_str_def r)
qed

lemma location_value_chars:
  assumes "utf8_valid s" "location_new s = Ok l"
  shows "(\<forall>b\<in>set s. 32 \<le> bval b \<and> bval b \<noteq> 127) \<and> loc_value l = s"
  using location_shape [OF assms] by (simp add: location_as_str_def)

text \<open>Same-origin redirects. Every accepted location is a path on the same origin that no reader can take
  for anything else: it starts with one slash that is not followed by a slash or a backslash, it has
  no backslash at all, and none of its bytes is a control byte (so it is also safe as a header value); the
  stored value is the input unchanged.\<close>

theorem location_is_same_origin:
  assumes "utf8_valid s" and "location_new s = Ok l"
  shows "location_as_str l = s \<and> (\<exists>r. s = CHR ''/'' # r \<and> (r = [] \<or> hd r \<noteq> CHR ''/'' \<and> hd r \<noteq> backslash)) \<and>
    backslash \<notin> set s \<and> (\<forall>b\<in>set s. 32 \<le> bval b \<and> bval b \<noteq> 127)"
  using location_shape [OF assms] .

theorem location_is_same_origin_witness:
  "location_new ''/a?x=1'' = Ok \<lparr>loc_value = ''/a?x=1''\<rparr> \<and> backslash \<notin> set ''/a?x=1''"
proof -
  have u: "utf8_valid ''/a?x=1''" by (rule utf8_valid_ascii) simp
  have n: "location_new ''/a?x=1'' = Ok \<lparr>loc_value = ''/a?x=1''\<rparr>"
    by (simp add: location_new_def validate_same_origin_location_def utf8_decode_ascii is_control_def)
  from location_is_same_origin [OF u n] n show ?thesis by blast
qed

end
