(* ===== verification/Response.thy ===== *)
theory Response
  imports Cookie Location Chunked "HOL-Library.Char_ord" "HOL-Library.List_Lexorder"
begin

text \<open>
  \<^verbatim>\<open>crates/http/src/response.rs\<close>: building and serialising responses. Status codes are numbers (\<^verbatim>\<open>u16\<close>),
  strings are their UTF-8 bytes. The inductive predicate \<open>response_reachable\<close> is what handlers can
  build; the contract of \<^verbatim>\<open>with_content_type\<close> (a literal without CR and LF, a debug assertion in
  the code) and of the standard library's \<^verbatim>\<open>String\<close> (valid UTF-8) are hypotheses of its rules.
\<close>

section \<open>Allowed methods\<close>

record AllowedMethods =
  am_methods :: "bytes list"

definition from_methods :: "bytes list \<Rightarrow> AllowedMethods option" where
  "from_methods methods =
     (if methods = [] then None
      else if list_ex (\<lambda>m. m = [] \<or> \<not> list_all is_tchar m) methods then None
      else Some \<lparr>am_methods = remdups_adj (sort methods)\<rparr>)"

definition allow_header_value :: "AllowedMethods \<Rightarrow> bytes" where
  "allow_header_value a = join '', '' (am_methods a)"

section \<open>Responses\<close>

datatype HeaderError = InvalidName | InvalidValue | ReservedName

datatype RedirectError = UnsupportedStatus | EmptyLocation | InvalidLocation HeaderError

record Response =
  r_status :: nat
  r_body :: bytes
  r_content_type :: "bytes option"
  r_allow :: "AllowedMethods option"
  r_extra_headers :: "(bytes \<times> bytes) list"

definition response_new :: "nat \<Rightarrow> bytes \<Rightarrow> Response" where
  "response_new status body =
     \<lparr>r_status = status, r_body = body, r_content_type = None, r_allow = None, r_extra_headers = []\<rparr>"

definition response_empty :: "nat \<Rightarrow> Response" where
  "response_empty status = response_new status []"

definition with_content_type :: "Response \<Rightarrow> bytes \<Rightarrow> Response" where
  "with_content_type r content_type = r\<lparr>r_content_type := Some content_type\<rparr>"

definition with_allow :: "Response \<Rightarrow> AllowedMethods \<Rightarrow> Response" where
  "with_allow r a = r\<lparr>r_allow := Some a\<rparr>"

definition RESERVED :: "bytes list" where
  "RESERVED = [''content-length'', ''connection'', ''transfer-encoding'']"

definition push_header :: "Response \<Rightarrow> bytes \<Rightarrow> bytes \<Rightarrow> Response" where
  "push_header r name val = r\<lparr>r_extra_headers := r_extra_headers r @ [(name, val)]\<rparr>"

definition with_header :: "Response \<Rightarrow> bytes \<Rightarrow> bytes \<Rightarrow> HeaderError + Response" where
  "with_header r name val =
     (if name = [] \<or> \<not> list_all is_tchar name then Err InvalidName
      else if list_ex (\<lambda>b. (bval b < 0x20 \<and> b \<noteq> htab) \<or> bval b = 0x7f) val then Err InvalidValue
      else if list_ex (\<lambda>n. eq_ignore_ascii_case name n) RESERVED then Err ReservedName
      else Ok (push_header r name val))"

definition list_members :: "bytes \<Rightarrow> bytes list" where
  "list_members s = filter (\<lambda>m. m \<noteq> []) (map (trim_matches is_ows) (split_on CHR '','' s))"

definition with_vary :: "Response \<Rightarrow> bytes \<Rightarrow> HeaderError + Response" where
  "with_vary r field_name =
     (let is_star = (field_name = ''*'') in
      if \<not> is_star \<and> (field_name = [] \<or> \<not> list_all is_tchar field_name) then Err InvalidValue
      else if list_ex (\<lambda>m. m = ''*'' \<or> eq_ignore_ascii_case m field_name)
        (concat (map (\<lambda>(_, v). list_members v)
          (filter (\<lambda>(n, _). eq_ignore_ascii_case n ''vary'') (r_extra_headers r))))
      then Ok r
      else with_header r ''Vary'' field_name)"

text \<open>The scan of \<^verbatim>\<open>has_directive\<close>: the characters with their bytes, the segment since the last separator.\<close>

definition check_directive :: "bytes \<Rightarrow> bytes \<Rightarrow> bool" where
  "check_directive name seg =
     eq_ignore_ascii_case (trim_matches is_ows (hd (split_on CHR ''='' seg))) name"

fun directive_scan :: "bytes \<Rightarrow> bool \<Rightarrow> bool \<Rightarrow> bytes \<Rightarrow> (nat \<times> bytes) list \<Rightarrow> bool" where
  "directive_scan name in_quote escaped seg [] = check_directive name seg"
| "directive_scan name in_quote escaped seg ((c, bs) # cs) =
     (if escaped then directive_scan name in_quote False (seg @ bs) cs
      else if in_quote \<and> c = 0x5C then directive_scan name in_quote True (seg @ bs) cs
      else if c = 0x22 then directive_scan name (\<not> in_quote) escaped (seg @ bs) cs
      else if c = 0x2C \<and> \<not> in_quote then
        (if check_directive name seg then True else directive_scan name in_quote escaped [] cs)
      else directive_scan name in_quote escaped (seg @ bs) cs)"

definition has_directive :: "bytes \<Rightarrow> bytes \<Rightarrow> bool" where
  "has_directive s name =
     (case utf8_chunks s of Some cs \<Rightarrow> directive_scan name False False [] cs | None \<Rightarrow> False)"

definition with_no_store :: "Response \<Rightarrow> Response" where
  "with_no_store r =
     (let already = list_ex (\<lambda>(_, v). has_directive v ''no-store'')
        (filter (\<lambda>(n, _). eq_ignore_ascii_case n ''cache-control'') (r_extra_headers r)) in
      if \<not> already then push_header r ''Cache-Control'' ''no-store'' else r)"

definition response_header :: "Response \<Rightarrow> bytes \<Rightarrow> bytes option" where
  "response_header r name =
     (if eq_ignore_ascii_case name ''content-type'' \<and> r_content_type r \<noteq> None then r_content_type r
      else map_option snd (find (\<lambda>(n, _). eq_ignore_ascii_case n name) (r_extra_headers r)))"

definition with_set_cookie :: "Response \<Rightarrow> SetCookie \<Rightarrow> Response" where
  "with_set_cookie r cookie = push_header r ''Set-Cookie'' (to_header_value cookie)"

definition see_other :: "SameOriginLocation \<Rightarrow> Response" where
  "see_other location = push_header (response_empty 303) ''Location'' (location_into_string location)"

definition redirect :: "nat \<Rightarrow> bytes \<Rightarrow> RedirectError + Response" where
  "redirect status location =
     (if status \<notin> {301, 302, 303, 307, 308} then Err UnsupportedStatus
      else if location = [] then Err EmptyLocation
      else map_err InvalidLocation (with_header (response_empty status) ''Location'' location))"

section \<open>Serialisation\<close>

function dec_loop :: "nat \<Rightarrow> bytes \<Rightarrow> bytes" where
  "dec_loop n digits =
     (let digits = char_of (48 + n mod 10) # digits; n = n div 10 in
      if n = 0 then digits else dec_loop n digits)"
  by pat_completeness auto
termination
  by (relation "measure fst") auto

declare dec_loop.simps [simp del]

definition write_decimal :: "bytes \<Rightarrow> nat \<Rightarrow> bytes" where
  "write_decimal out n = out @ dec_loop n []"

definition reason_table :: "(nat \<times> string) list" where
  "reason_table =
     [(200, ''OK''), (204, ''No Content''), (304, ''Not Modified''), (301, ''Moved Permanently''),
      (302, ''Found''), (303, ''See Other''), (307, ''Temporary Redirect''), (308, ''Permanent Redirect''),
      (400, ''Bad Request''), (401, ''Unauthorized''), (403, ''Forbidden''), (404, ''Not Found''),
      (405, ''Method Not Allowed''), (413, ''Payload Too Large''), (429, ''Too Many Requests''),
      (431, ''Request Header Fields Too Large''), (500, ''Internal Server Error''),
      (501, ''Not Implemented''), (502, ''Bad Gateway''), (503, ''Service Unavailable''),
      (504, ''Gateway Timeout''), (505, ''HTTP Version Not Supported'')]"

definition reason_phrase :: "nat \<Rightarrow> string" where
  "reason_phrase status = (case map_of reason_table status of Some s \<Rightarrow> s | None \<Rightarrow> [])"

definition write_field :: "bytes \<Rightarrow> bytes \<Rightarrow> bytes \<Rightarrow> bytes" where
  "write_field out name val = out @ name @ '': '' @ val @ crlf"

text \<open>The header lines that the three serialisers have in common.\<close>

definition write_fields :: "Response \<Rightarrow> bytes \<Rightarrow> bytes" where
  "write_fields r out =
     (let out = (case r_content_type r of Some ct \<Rightarrow> write_field out ''Content-Type'' ct | None \<Rightarrow> out);
          out = (case r_allow r of Some a \<Rightarrow> write_field out ''Allow'' (allow_header_value a) | None \<Rightarrow> out)
      in foldl (\<lambda>out (name, val).
           if r_content_type r \<noteq> None \<and> eq_ignore_ascii_case name ''content-type'' then out
           else if r_allow r \<noteq> None \<and> eq_ignore_ascii_case name ''allow'' then out
           else write_field out name val) out (r_extra_headers r))"

definition serialize_into :: "Response \<Rightarrow> bool \<Rightarrow> bytes \<Rightarrow> bytes" where
  "serialize_into r keep_alive out =
     (let out = [];
          out = write_decimal (out @ ''HTTP/1.1 '') (r_status r);
          out = out @ '' '' @ reason_phrase (r_status r) @ crlf;
          out = write_fields r out;
          out = write_decimal (out @ ''Content-Length: '') (length (r_body r)) @ crlf;
          out = (if \<not> keep_alive then write_field out ''Connection'' ''close'' else out)
      in out @ crlf @ r_body r)"

definition serialize :: "Response \<Rightarrow> bool \<Rightarrow> bytes" where
  "serialize r keep_alive = serialize_into r keep_alive []"

definition is_bodyless_status :: "nat \<Rightarrow> bool" where
  "is_bodyless_status status \<longleftrightarrow> 100 \<le> status \<and> status \<le> 199 \<or> status = 204 \<or> status = 304"

definition serialize_chunked_head :: "Response \<Rightarrow> bool \<Rightarrow> bytes" where
  "serialize_chunked_head r keep_alive =
     (let out = ''HTTP/1.1 '' @ to_decimal (r_status r);
          out = out @ '' '' @ reason_phrase (r_status r) @ crlf;
          out = write_fields r out;
          out = (if \<not> is_bodyless_status (r_status r)
                 then write_field out ''Transfer-Encoding'' ''chunked'' else out);
          out = (if \<not> keep_alive then write_field out ''Connection'' ''close'' else out)
      in out @ crlf)"

definition serialize_streaming_head_http10 :: "Response \<Rightarrow> bytes" where
  "serialize_streaming_head_http10 r =
     (let out = ''HTTP/1.1 '' @ to_decimal (r_status r);
          out = out @ '' '' @ reason_phrase (r_status r) @ crlf;
          out = write_fields r out;
          out = write_field out ''Connection'' ''close''
      in out @ crlf)"

section \<open>Decimal numbers\<close>

lemma dec_loop_to_decimal: "dec_loop n acc = to_decimal n @ acc"
proof (induction n acc rule: dec_loop.induct)
  case (1 n acc)
  have "digit_char (n mod 10) = char_of (48 + n mod 10)" by (simp add: digit_char_def)
  with 1 show ?case
    by (cases "n < 10") (simp_all add: dec_loop.simps [of n] Let_def fmt_radix_def digits_of.simps [of 10 n])
qed

text \<open>The hand-written decimal writer prints the standard decimal representation, and for every
  64-bit number it needs at most the 20 digits of its buffer (so its index does not underflow).\<close>

theorem write_decimal_correct:
  "write_decimal out n = out @ to_decimal n \<and> (n \<le> U64_MAX \<longrightarrow> length (dec_loop n []) \<le> 20)"
  using length_to_decimal [of n 20] by (auto simp: write_decimal_def dec_loop_to_decimal)

section \<open>The lines on the wire\<close>

definition render_field :: "bytes \<times> bytes \<Rightarrow> bytes" where
  "render_field = (\<lambda>(n, v). n @ '': '' @ v)"

definition status_line :: "Response \<Rightarrow> bytes" where
  "status_line r = ''HTTP/1.1 '' @ to_decimal (r_status r) @ '' '' @ reason_phrase (r_status r)"

definition shadowed :: "Response \<Rightarrow> bytes \<Rightarrow> bool" where
  "shadowed r n \<longleftrightarrow> (r_content_type r \<noteq> None \<and> eq_ignore_ascii_case n ''content-type'') \<or>
     (r_allow r \<noteq> None \<and> eq_ignore_ascii_case n ''allow'')"

definition wire_fields :: "Response \<Rightarrow> (bytes \<times> bytes) list" where
  "wire_fields r =
     (case r_content_type r of Some ct \<Rightarrow> [(''Content-Type'', ct)] | None \<Rightarrow> []) @
     (case r_allow r of Some a \<Rightarrow> [(''Allow'', allow_header_value a)] | None \<Rightarrow> []) @
     filter (\<lambda>(n, _). \<not> shadowed r n) (r_extra_headers r)"

abbreviation wire_lines :: "(bytes \<times> bytes) list \<Rightarrow> bytes" where
  "wire_lines fs \<equiv> concat (map (\<lambda>f. render_field f @ crlf) fs)"

lemma write_fields_wire: "write_fields r out = out @ wire_lines (wire_fields r)"
proof -
  have eq: "(\<lambda>out (name, val).
      if r_content_type r \<noteq> None \<and> eq_ignore_ascii_case name ''content-type'' then out
      else if r_allow r \<noteq> None \<and> eq_ignore_ascii_case name ''allow'' then out
      else write_field out name val) =
    (\<lambda>out (name, val). if shadowed r name then out else write_field out name val)"
    by (auto simp: shadowed_def fun_eq_iff)
  have "foldl (\<lambda>out (name, val). if shadowed r name then out else write_field out name val) out hs =
    out @ wire_lines (filter (\<lambda>(n, _). \<not> shadowed r n) hs)" for out hs
    by (induction hs arbitrary: out) (auto simp: write_field_def render_field_def)
  then show ?thesis
    unfolding write_fields_def eq Let_def
    by (simp add: wire_fields_def write_field_def render_field_def split: option.split)
qed

definition close_field :: "bool \<Rightarrow> (bytes \<times> bytes) list" where
  "close_field keep_alive = (if keep_alive then [] else [(''Connection'', ''close'')])"

definition fixed_fields :: "Response \<Rightarrow> bool \<Rightarrow> (bytes \<times> bytes) list" where
  "fixed_fields r keep_alive =
     wire_fields r @ [(''Content-Length'', to_decimal (length (r_body r)))] @ close_field keep_alive"

definition chunked_fields :: "Response \<Rightarrow> bool \<Rightarrow> (bytes \<times> bytes) list" where
  "chunked_fields r keep_alive =
     wire_fields r @ (if is_bodyless_status (r_status r) then [] else [(''Transfer-Encoding'', ''chunked'')]) @
     close_field keep_alive"

definition response_lines :: "Response \<Rightarrow> (bytes \<times> bytes) list \<Rightarrow> bytes list" where
  "response_lines r fs = status_line r # map render_field fs"

lemma join_lines: "ls \<noteq> [] \<Longrightarrow> concat (map (\<lambda>l. l @ crlf) ls) = join crlf ls @ crlf"
  by (induction crlf ls rule: join.induct) auto

lemma head_join: "status_line r @ crlf @ wire_lines fs @ crlf = join crlf (response_lines r fs) @ TERMINATOR"
  using join_lines [of "response_lines r fs"]
  by (simp add: response_lines_def TERMINATOR_def comp_def)

lemma write_field_wire: "write_field out n v = out @ wire_lines [(n, v)]"
  by (simp add: write_field_def render_field_def)

lemma write_length_wire:
  "write_decimal (out @ ''Content-Length: '') n @ crlf = out @ wire_lines [(''Content-Length'', to_decimal n)]"
  by (simp add: write_decimal_def dec_loop_to_decimal render_field_def)

lemma write_status_wire:
  "write_decimal ([] @ ''HTTP/1.1 '') (r_status r) @ '' '' @ reason_phrase (r_status r) @ crlf = status_line r @ crlf"
  by (simp add: write_decimal_def dec_loop_to_decimal status_line_def)

lemma format_status_wire:
  "(''HTTP/1.1 '' @ to_decimal (r_status r)) @ '' '' @ reason_phrase (r_status r) @ crlf = status_line r @ crlf"
  by (simp add: status_line_def)

lemma serialize_wire:
  "serialize r keep_alive = (join crlf (response_lines r (fixed_fields r keep_alive)) @ TERMINATOR) @ r_body r"
  unfolding head_join [symmetric] serialize_def serialize_into_def Let_def write_status_wire
    write_fields_wire write_length_wire write_field_wire fixed_fields_def close_field_def
  by simp

lemma chunked_head_wire:
  "serialize_chunked_head r keep_alive = join crlf (response_lines r (chunked_fields r keep_alive)) @ TERMINATOR"
  unfolding head_join [symmetric] serialize_chunked_head_def Let_def format_status_wire
    write_fields_wire write_field_wire chunked_fields_def close_field_def
  by simp

lemma http10_head_wire:
  "serialize_streaming_head_http10 r = join crlf (response_lines r (wire_fields r @ close_field False)) @ TERMINATOR"
  unfolding head_join [symmetric] serialize_streaming_head_http10_def Let_def format_status_wire
    write_fields_wire write_field_wire close_field_def
  by simp

section \<open>What handlers can build\<close>

inductive response_reachable :: "Response \<Rightarrow> bool" where
  resp_new: "response_reachable (response_new status body)"
| resp_status: "response_reachable r \<Longrightarrow> response_reachable (r\<lparr>r_status := status, r_body := body\<rparr>)"
| resp_content_type: "response_reachable r \<Longrightarrow> cr \<notin> set ct \<Longrightarrow> lf \<notin> set ct \<Longrightarrow>
    response_reachable (with_content_type r ct)"
| resp_allow: "response_reachable r \<Longrightarrow> from_methods ms = Some a \<Longrightarrow> response_reachable (with_allow r a)"
| resp_header: "response_reachable r \<Longrightarrow> with_header r n v = Ok r' \<Longrightarrow> response_reachable r'"
| resp_vary: "response_reachable r \<Longrightarrow> with_vary r f = Ok r' \<Longrightarrow> response_reachable r'"
| resp_no_store: "response_reachable r \<Longrightarrow> response_reachable (with_no_store r)"
| resp_set_cookie: "response_reachable r \<Longrightarrow> cookie_reachable c \<Longrightarrow> response_reachable (with_set_cookie r c)"
| resp_see_other: "utf8_valid s \<Longrightarrow> location_new s = Ok l \<Longrightarrow> response_reachable (see_other l)"
| resp_redirect: "redirect status loc = Ok r \<Longrightarrow> response_reachable r"

definition field_ok :: "bytes \<times> bytes \<Rightarrow> bool" where
  "field_ok = (\<lambda>(n, v). n \<noteq> [] \<and> list_all is_tchar n \<and> \<not> list_ex (eq_ignore_ascii_case n) RESERVED \<and>
     \<not> list_ex (\<lambda>b. (bval b < 0x20 \<and> b \<noteq> htab) \<or> bval b = 0x7f) v)"

definition response_inv :: "Response \<Rightarrow> bool" where
  "response_inv r \<longleftrightarrow> list_all field_ok (r_extra_headers r) \<and>
     (\<forall>ct. r_content_type r = Some ct \<longrightarrow> cr \<notin> set ct \<and> lf \<notin> set ct) \<and>
     (\<forall>a. r_allow r = Some a \<longrightarrow> (\<exists>ms. from_methods ms = Some a))"

lemma push_header_inv: "response_inv r \<Longrightarrow> field_ok (n, v) \<Longrightarrow> response_inv (push_header r n v)"
  by (simp add: response_inv_def push_header_def)

lemma with_header_Ok: "with_header r n v = Ok r' \<longleftrightarrow> field_ok (n, v) \<and> r' = push_header r n v"
  by (auto simp: with_header_def field_ok_def)

lemma lowercase_eq_iff:
  "to_ascii_lowercase a = to_ascii_lowercase b \<longleftrightarrow>
     (if is_ascii_uppercase a then bval a + 32 else bval a) = (if is_ascii_uppercase b then bval b + 32 else bval b)"
proof -
  have "bval (to_ascii_lowercase c) = (if is_ascii_uppercase c then bval c + 32 else bval c)" for c
    by (simp add: to_ascii_lowercase_def is_ascii_uppercase_def bval_char_of)
  then show ?thesis by (metis bval_eq_iff)
qed

lemma fixed_names_ok:
  "list_all is_tchar ''Set-Cookie'' \<and> \<not> list_ex (eq_ignore_ascii_case ''Set-Cookie'') RESERVED"
  "list_all is_tchar ''Location'' \<and> \<not> list_ex (eq_ignore_ascii_case ''Location'') RESERVED"
  "list_all is_tchar ''Cache-Control'' \<and> \<not> list_ex (eq_ignore_ascii_case ''Cache-Control'') RESERVED"
  by (simp_all add: is_tchar_def ascii_class_defs RESERVED_def eq_ignore_ascii_case_def
      lowercase_eq_iff)

lemma set_cookie_field_ok: "cookie_reachable c \<Longrightarrow> field_ok (''Set-Cookie'', to_header_value c)"
  using header_value_chars [OF reachable_inv] fixed_names_ok(1)
  by (fastforce simp: field_ok_def list_ex_iff list_all_iff)

lemma location_field_ok:
  assumes "\<forall>b\<in>set s. 32 \<le> bval b \<and> bval b \<noteq> 127" shows "field_ok (''Location'', s)"
  using assms fixed_names_ok(2) by (fastforce simp: field_ok_def list_ex_iff)

lemma no_store_field_ok: "field_ok (''Cache-Control'', ''no-store'')"
  using fixed_names_ok(3) by (simp add: field_ok_def)

lemma redirect_Ok:
  "redirect status loc = Ok r \<Longrightarrow> \<exists>v. field_ok (''Location'', v) \<and> r = push_header (response_empty status) ''Location'' v"
  by (auto simp: redirect_def with_header_Ok split: if_splits)

lemma response_empty_inv: "response_inv (response_new status body)" "response_inv (response_empty status)"
  by (simp_all add: response_inv_def response_empty_def response_new_def)

lemma reachable_response_inv: "response_reachable r \<Longrightarrow> response_inv r"
proof (induction rule: response_reachable.induct)
  case (resp_vary r f r')
  then show ?case by (auto simp: with_vary_def Let_def with_header_Ok push_header_inv split: if_splits)
next
  case (resp_no_store r)
  then show ?case by (simp add: with_no_store_def push_header_inv no_store_field_ok Let_def)
next
  case (resp_set_cookie r c)
  then show ?case by (simp add: with_set_cookie_def push_header_inv set_cookie_field_ok)
next
  case (resp_see_other s l)
  have "\<forall>b\<in>set s. 32 \<le> bval b \<and> bval b \<noteq> 127" "loc_value l = s"
    using location_value_chars [OF resp_see_other] by blast+
  then show ?case
    by (simp add: see_other_def location_into_string_def push_header_inv response_empty_inv location_field_ok)
next
  case (resp_redirect status loc r)
  then show ?case using redirect_Ok push_header_inv response_empty_inv by metis
qed (auto simp: response_empty_inv with_content_type_def with_allow_def with_header_Ok push_header_inv,
     auto simp: response_inv_def)

section \<open>No line carries a line break\<close>

definition one_line :: "bytes \<Rightarrow> bool" where
  "one_line s \<longleftrightarrow> cr \<notin> set s \<and> lf \<notin> set s"

lemma one_line_append [simp]: "one_line (a @ b) \<longleftrightarrow> one_line a \<and> one_line b"
  by (auto simp: one_line_def)

lemma one_line_Cons [simp]: "one_line (c # s) \<longleftrightarrow> c \<noteq> cr \<and> c \<noteq> lf \<and> one_line s"
  by (auto simp: one_line_def)

lemma one_line_Nil [simp]: "one_line []"
  by (simp add: one_line_def)

lemma one_line_tchars: "list_all is_tchar s \<Longrightarrow> one_line s"
  using tchar_range [of cr] tchar_range [of lf] by (auto simp: one_line_def list_all_iff)

lemma one_line_decimal: "one_line (to_decimal n)"
  using fmt_dec_digits [of cr n] fmt_dec_digits [of lf n] by (auto simp: one_line_def is_ascii_digit_def)

lemma one_line_reason: "one_line (reason_phrase s)"
proof (cases "map_of reason_table s")
  case (Some p)
  then have "p \<in> snd ` set reason_table" by (force dest: map_of_SomeD)
  then have "one_line p" unfolding reason_table_def by auto
  with Some show ?thesis by (simp add: reason_phrase_def)
qed (simp add: reason_phrase_def)

lemma one_line_field: "field_ok (n, v) \<Longrightarrow> one_line (render_field (n, v))"
proof -
  assume ok: "field_ok (n, v)"
  then have "one_line v" by (auto simp: field_ok_def one_line_def list_ex_iff)
  with ok show ?thesis by (simp add: field_ok_def render_field_def one_line_tchars)
qed

lemma from_methods_tokens:
  "from_methods ms = Some a \<Longrightarrow> am_methods a = remdups_adj (sort ms) \<and> ms \<noteq> [] \<and>
     list_all (\<lambda>m. m \<noteq> [] \<and> list_all is_tchar m) ms"
  by (auto simp: from_methods_def list_ex_iff list_all_iff split: if_splits)

lemma one_line_join: "one_line d \<Longrightarrow> (\<And>x. x \<in> set xs \<Longrightarrow> one_line x) \<Longrightarrow> one_line (join d xs)"
  by (induction d xs rule: join.induct) auto

lemma one_line_allow: "from_methods ms = Some a \<Longrightarrow> one_line (allow_header_value a)"
  unfolding allow_header_value_def
  by (rule one_line_join) (auto dest!: from_methods_tokens simp: list_all_iff intro!: one_line_tchars)

lemma one_line_wire:
  assumes "response_inv r" "f \<in> set (wire_fields r)" shows "one_line (render_field f)"
proof -
  from assms(2) consider ct where "r_content_type r = Some ct" "f = (''Content-Type'', ct)"
    | a where "r_allow r = Some a" "f = (''Allow'', allow_header_value a)"
    | "f \<in> set (r_extra_headers r)"
    unfolding wire_fields_def by (cases "r_content_type r"; cases "r_allow r") auto
  then show ?thesis
  proof cases
    case 1
    then have "one_line ct" using assms(1) by (simp add: response_inv_def one_line_def)
    with 1 show ?thesis by (simp add: render_field_def)
  next
    case (2 a)
    then obtain ms where "from_methods ms = Some a" using assms(1) by (auto simp: response_inv_def)
    then have "one_line (allow_header_value a)" by (rule one_line_allow)
    with 2 show ?thesis by (simp add: render_field_def)
  next
    case 3
    then have "field_ok f" using assms(1) by (simp add: response_inv_def list_all_iff)
    then show ?thesis using one_line_field by (metis surj_pair)
  qed
qed

lemma response_lines_clean:
  assumes "response_inv r" "\<And>f. f \<in> set fs \<Longrightarrow> one_line (render_field f)" "l \<in> set (response_lines r fs)"
  shows "l \<noteq> [] \<and> cr \<notin> set l \<and> lf \<notin> set l"
proof -
  have "one_line (status_line r)"
    by (simp add: status_line_def one_line_decimal one_line_reason)
  then have "one_line l" using assms(2,3) by (auto simp: response_lines_def)
  moreover have "l \<noteq> []" using assms(3) by (auto simp: response_lines_def status_line_def render_field_def)
  ultimately show ?thesis by (simp add: one_line_def)
qed

lemma fixed_fields_clean: "response_inv r \<Longrightarrow> f \<in> set (fixed_fields r ka) \<Longrightarrow> one_line (render_field f)"
  using one_line_wire [of r f] one_line_decimal
  by (auto simp: fixed_fields_def close_field_def render_field_def split: if_splits)

lemma chunked_fields_clean: "response_inv r \<Longrightarrow> f \<in> set (chunked_fields r ka) \<Longrightarrow> one_line (render_field f)"
  using one_line_wire [of r f]
  by (auto simp: chunked_fields_def close_field_def render_field_def split: if_splits)

section \<open>Framing headers\<close>

definition framing_name :: "bytes \<Rightarrow> bool" where
  "framing_name n \<longleftrightarrow> eq_ignore_ascii_case n ''content-length'' \<or> eq_ignore_ascii_case n ''transfer-encoding''"

lemma wire_fields_no_framing:
  assumes "response_inv r" shows "filter (\<lambda>(n, _). framing_name n) (wire_fields r) = []"
proof -
  have "\<not> framing_name n" if "(n, v) \<in> set (r_extra_headers r)" for n v
    using assms that
    by (auto simp: response_inv_def list_all_iff field_ok_def framing_name_def RESERVED_def)
  moreover have "\<not> framing_name ''Content-Type''" "\<not> framing_name ''Allow''"
    by (simp_all add: framing_name_def eq_ignore_ascii_case_def lowercase_eq_iff ascii_class_defs)
  ultimately show ?thesis
    by (auto simp: filter_empty_conv wire_fields_def split: option.splits)
qed

lemma framing_names_eval:
  "framing_name ''Content-Length''" "framing_name ''Transfer-Encoding''" "\<not> framing_name ''Connection''"
  by (simp_all add: framing_name_def eq_ignore_ascii_case_def lowercase_eq_iff ascii_class_defs)

section \<open>Properties\<close>

text \<open>C37. No response splitting. Whatever handlers build, a recipient that reads the serialised response
  line by line finds the status line, then one line per header that was set and not shadowed, then the
  framing headers the framework adds, then the empty line, and the body after it: the first empty line
  is where the head ends, and no header line contains a line break. Among the headers there is exactly
  one that frames the body, \<^verbatim>\<open>Content-Length\<close> with the length of the body in decimal.\<close>

theorem serialize_no_splitting:
  assumes "response_reachable r"
  shows "serialize r keep_alive =
      (join crlf (response_lines r (fixed_fields r keep_alive)) @ TERMINATOR) @ r_body r \<and>
    find_sub TERMINATOR (serialize r keep_alive) =
      Some (length (join crlf (response_lines r (fixed_fields r keep_alive)))) \<and>
    split_crlf (join crlf (response_lines r (fixed_fields r keep_alive))) =
      status_line r # map render_field (fixed_fields r keep_alive) \<and>
    (\<forall>l\<in>set (response_lines r (fixed_fields r keep_alive)). cr \<notin> set l \<and> lf \<notin> set l) \<and>
    filter (\<lambda>(n, _). framing_name n) (fixed_fields r keep_alive) =
      [(''Content-Length'', to_decimal (length (r_body r)))]"
proof -
  note inv = reachable_response_inv [OF assms]
  have clean: "l \<noteq> [] \<and> cr \<notin> set l \<and> lf \<notin> set l"
    if "l \<in> set (response_lines r (fixed_fields r keep_alive))" for l
    using response_lines_clean [OF inv fixed_fields_clean [OF inv] that] .
  have ne: "response_lines r (fixed_fields r keep_alive) \<noteq> []" by (simp add: response_lines_def)
  have "filter (\<lambda>(n, _). framing_name n) (fixed_fields r keep_alive) =
      [(''Content-Length'', to_decimal (length (r_body r)))]"
    using wire_fields_no_framing [OF inv] framing_names_eval by (simp add: fixed_fields_def close_field_def)
  moreover have "split_crlf (join crlf (response_lines r (fixed_fields r keep_alive))) =
      response_lines r (fixed_fields r keep_alive)"
    using ne clean by (intro split_crlf_join) auto
  ultimately show ?thesis
    using find_terminator [OF ne] clean by (simp add: serialize_wire response_lines_def)
qed

lemma reachable_hello: "response_reachable (with_content_type (response_new 200 ''hi'') ''text/plain'')"
  by (intro resp_content_type resp_new) simp_all

theorem serialize_no_splitting_witness:
  "find_sub TERMINATOR (serialize (with_content_type (response_new 200 ''hi'') ''text/plain'') True) =
     Some (length (join crlf (response_lines (with_content_type (response_new 200 ''hi'') ''text/plain'')
       (fixed_fields (with_content_type (response_new 200 ''hi'') ''text/plain'') True))))"
  using serialize_no_splitting [OF reachable_hello, of True] by blast

text \<open>The head of a streaming response. It has the same line structure, announces the chunked coding
  exactly when its status may have a body, and never announces a length; what follows it on the wire is
  the body, whose coding the chunked decoder reverses.\<close>

theorem chunked_head_no_splitting:
  assumes "response_reachable r"
  shows "find_sub TERMINATOR (serialize_chunked_head r keep_alive @ body) =
      Some (length (join crlf (response_lines r (chunked_fields r keep_alive)))) \<and>
    length (serialize_chunked_head r keep_alive) =
      length (join crlf (response_lines r (chunked_fields r keep_alive))) + 4 \<and>
    split_crlf (join crlf (response_lines r (chunked_fields r keep_alive))) =
      status_line r # map render_field (chunked_fields r keep_alive) \<and>
    filter (\<lambda>(n, _). framing_name n) (chunked_fields r keep_alive) =
      (if is_bodyless_status (r_status r) then [] else [(''Transfer-Encoding'', ''chunked'')])"
proof -
  note inv = reachable_response_inv [OF assms]
  have clean: "l \<noteq> [] \<and> cr \<notin> set l \<and> lf \<notin> set l"
    if "l \<in> set (response_lines r (chunked_fields r keep_alive))" for l
    using response_lines_clean [OF inv chunked_fields_clean [OF inv] that] .
  have ne: "response_lines r (chunked_fields r keep_alive) \<noteq> []" by (simp add: response_lines_def)
  have "filter (\<lambda>(n, _). framing_name n) (chunked_fields r keep_alive) =
      (if is_bodyless_status (r_status r) then [] else [(''Transfer-Encoding'', ''chunked'')])"
    using wire_fields_no_framing [OF inv] framing_names_eval by (simp add: chunked_fields_def close_field_def)
  moreover have "split_crlf (join crlf (response_lines r (chunked_fields r keep_alive))) =
      response_lines r (chunked_fields r keep_alive)"
    using ne clean by (intro split_crlf_join) auto
  ultimately show ?thesis
    using find_terminator [OF ne] clean by (simp add: chunked_head_wire response_lines_def)
qed

theorem chunked_head_no_splitting_witness:
  "find_sub TERMINATOR
     (serialize_chunked_head (with_content_type (response_new 200 ''hi'') ''text/plain'') True @ ''0'') =
     Some (length (join crlf (response_lines (with_content_type (response_new 200 ''hi'') ''text/plain'')
       (chunked_fields (with_content_type (response_new 200 ''hi'') ''text/plain'') True))))"
  using chunked_head_no_splitting [OF reachable_hello, of True "''0''"] by blast

lemma tchar_comma: "is_tchar b \<Longrightarrow> b \<noteq> CHR '','' \<and> \<not> is_ows b"
proof -
  assume b: "is_tchar b"
  have "\<not> is_tchar CHR '',''" by (simp add: is_tchar_def ascii_class_defs)
  with b tchar_semicolon [OF b] show ?thesis by auto
qed

lemma token_member: "list_all is_tchar x \<Longrightarrow> CHR '','' \<notin> set x \<and> trim_matches is_ows x = x"
  by (auto simp: list_all_iff dest: tchar_comma intro!: trim_matches_no_p)

lemma map_trim_split_comma:
  "map (trim_matches is_ows) (split_on CHR '','' (CHR '' '' # s)) = map (trim_matches is_ows) (split_on CHR '','' s)"
proof -
  obtain x xs where "split_on CHR '','' s = x # xs" using split_on_ne by (metis neq_Nil_conv)
  then show ?thesis by (simp add: is_ows_def)
qed

lemma members_of_join:
  "xs \<noteq> [] \<Longrightarrow> (\<And>x. x \<in> set xs \<Longrightarrow> list_all is_tchar x \<and> x \<noteq> []) \<Longrightarrow> list_members (join '', '' xs) = xs"
proof (induction "'', ''" xs rule: join.induct)
  case (2 x)
  then show ?case by (simp add: list_members_def token_member)
next
  case (3 x y zs)
  have "split_on CHR '','' (x @ CHR '','' # CHR '' '' # join '', '' (y # zs)) =
      x # split_on CHR '','' (CHR '' '' # join '', '' (y # zs))"
    using "3.prems" by (intro split_on_append_delim) (simp add: token_member)
  then have "list_members (join '', '' (x # y # zs)) = x # list_members (join '', '' (y # zs))"
    using "3.prems"(2) [of x] by (simp add: list_members_def token_member map_trim_split_comma del: split_on.simps)
  with 3 show ?case by simp
qed simp

lemma distinct_remdups_adj_sorted:
  fixes xs :: "'a :: linorder list"
  shows "sorted xs \<Longrightarrow> distinct (remdups_adj xs)"
proof (induction xs rule: remdups_adj.induct)
  case (3 x y xs)
  then show ?case
    by (cases "x = y") (auto intro: antisym)
qed simp_all

text \<open>The \<^verbatim>\<open>Allow\<close> list. A non-empty list of tokens becomes its sorted list without duplicates, with the
  same elements; anything else is refused. The header value splits back into exactly these methods.\<close>

theorem allowed_methods_normal:
  "(from_methods ms = None \<longleftrightarrow> ms = [] \<or> (\<exists>m\<in>set ms. m = [] \<or> \<not> list_all is_tchar m)) \<and>
   (\<forall>a. from_methods ms = Some a \<longrightarrow> sorted (am_methods a) \<and> distinct (am_methods a) \<and>
      set (am_methods a) = set ms \<and> list_members (allow_header_value a) = am_methods a)"
proof -
  have "sorted (am_methods a) \<and> distinct (am_methods a) \<and>
      set (am_methods a) = set ms \<and> list_members (allow_header_value a) = am_methods a"
    if "from_methods ms = Some a" for a
  proof -
    note t = from_methods_tokens [OF that]
    have "am_methods a \<noteq> []" using t by (metis remdups_adj_Nil_iff set_empty set_sort)
    then have "list_members (allow_header_value a) = am_methods a"
      unfolding allow_header_value_def
      by (rule members_of_join) (use t in \<open>auto simp: list_all_iff\<close>)
    then show ?thesis using t by (simp add: distinct_remdups_adj_sorted)
  qed
  then show ?thesis by (auto simp: from_methods_def list_ex_iff)
qed

theorem allowed_methods_normal_witness:
  "list_members (allow_header_value \<lparr>am_methods = remdups_adj (sort [''GET''])\<rparr>) = [''GET'']"
  using allowed_methods_normal [of "[''GET'']"]
  by (simp add: from_methods_def is_tchar_def ascii_class_defs)

section \<open>Vary and Cache-Control\<close>

definition vary_members :: "Response \<Rightarrow> bytes list" where
  "vary_members r = concat (map (\<lambda>(_, v). list_members v)
     (filter (\<lambda>(n, _). eq_ignore_ascii_case n ''vary'') (r_extra_headers r)))"

definition varies_on :: "Response \<Rightarrow> bytes \<Rightarrow> bool" where
  "varies_on r f \<longleftrightarrow> (\<exists>m\<in>set (vary_members r). m = ''*'' \<or> eq_ignore_ascii_case m f)"

lemma with_vary_unfold:
  "with_vary r f = (if f = [] \<or> \<not> list_all is_tchar f then Err InvalidValue
     else if varies_on r f then Ok r else with_header r ''Vary'' f)"
proof -
  have "list_all is_tchar ''*''" by (simp add: is_tchar_def)
  then show ?thesis
    by (auto simp: with_vary_def varies_on_def vary_members_def Let_def list_ex_iff)
qed

lemma vary_name_ok: "list_all is_tchar ''Vary'' \<and> \<not> list_ex (eq_ignore_ascii_case ''Vary'') RESERVED"
  by (simp add: is_tchar_def ascii_class_defs RESERVED_def eq_ignore_ascii_case_def lowercase_eq_iff)

lemma vary_name_eq: "eq_ignore_ascii_case ''Vary'' ''vary''"
  by (simp add: eq_ignore_ascii_case_def lowercase_eq_iff ascii_class_defs)

lemma vary_field_ok: "list_all is_tchar f \<Longrightarrow> field_ok (''Vary'', f)"
  using vary_name_ok tchar_range by (fastforce simp: field_ok_def list_ex_iff list_all_iff)

lemma push_vary_members:
  "f \<noteq> [] \<Longrightarrow> list_all is_tchar f \<Longrightarrow> vary_members (push_header r ''Vary'' f) = vary_members r @ [f]"
  using vary_name_eq by (simp add: vary_members_def push_header_def list_members_def token_member)

text \<open>\<^verbatim>\<open>with_vary\<close> declares and never duplicates. For a field name that is a token (\<^verbatim>\<open>*\<close> included) it succeeds and
  the response then varies on that name; calling it again, in any case of letters, changes nothing; any other name
  is refused. Names declared before stay declared.\<close>

theorem with_vary_declares:
  "(\<not> (f \<noteq> [] \<and> list_all is_tchar f) \<longrightarrow> with_vary r f = Err InvalidValue) \<and>
   (f \<noteq> [] \<and> list_all is_tchar f \<longrightarrow> (\<exists>r'. with_vary r f = Ok r' \<and> varies_on r' f \<and>
      set (vary_members r) \<subseteq> set (vary_members r') \<and>
      (\<forall>g. eq_ignore_ascii_case f g \<and> g \<noteq> [] \<and> list_all is_tchar g \<longrightarrow> with_vary r' g = Ok r')))"
proof -
  have again: "with_vary r' g = Ok r'"
    if "varies_on r' f" "eq_ignore_ascii_case f g" "g \<noteq> []" "list_all is_tchar g" for r' g
  proof -
    have "varies_on r' g"
      using that(1,2) eq_ignore_ascii_case_trans by (auto simp: varies_on_def)
    with that show ?thesis by (simp add: with_vary_unfold)
  qed
  show ?thesis
  proof (cases "f \<noteq> [] \<and> list_all is_tchar f")
    case True
    then have ok: "field_ok (''Vary'', f)" using vary_field_ok by blast
    define r' where "r' = (if varies_on r f then r else push_header r ''Vary'' f)"
    have "with_vary r f = Ok r'"
      using True ok with_header_Ok [of r "''Vary''" f "push_header r ''Vary'' f"]
      by (simp add: with_vary_unfold r'_def)
    moreover have "varies_on r' f" "set (vary_members r) \<subseteq> set (vary_members r')"
      using True push_vary_members [of f r] by (auto simp: r'_def varies_on_def)
    ultimately show ?thesis using again True by blast
  next
    case False
    then show ?thesis by (auto simp: with_vary_unfold)
  qed
qed

theorem with_vary_declares_witness:
  "\<exists>r'. with_vary (response_new 200 []) ''Origin'' = Ok r' \<and> varies_on r' ''Origin''"
  using with_vary_declares [of "''Origin''" "response_new 200 []"]
  by (simp add: is_tchar_def ascii_class_defs) blast

definition is_no_store :: "Response \<Rightarrow> bool" where
  "is_no_store r \<longleftrightarrow> (\<exists>(n, v)\<in>set (r_extra_headers r).
     eq_ignore_ascii_case n ''cache-control'' \<and> has_directive v ''no-store'')"

lemma with_no_store_unfold:
  "with_no_store r = (if is_no_store r then r else push_header r ''Cache-Control'' ''no-store'')"
  by (auto simp: with_no_store_def is_no_store_def Let_def list_ex_iff)

lemma no_store_pushed: "is_no_store (push_header r ''Cache-Control'' ''no-store'')"
proof -
  have "has_directive ''no-store'' ''no-store''"
    by (simp add: has_directive_def utf8_chunks_ascii_Cons check_directive_def is_ows_def trim_matches_def)
  moreover have "eq_ignore_ascii_case ''Cache-Control'' ''cache-control''"
    by (simp add: eq_ignore_ascii_case_def lowercase_eq_iff ascii_class_defs)
  ultimately show ?thesis by (auto simp: is_no_store_def push_header_def)
qed

text \<open>\<^verbatim>\<open>with_no_store\<close>. Afterwards some \<^verbatim>\<open>Cache-Control\<close> header carries the \<^verbatim>\<open>no-store\<close> directive, every header from
  before is still there in the same order, and a second call changes nothing.\<close>

theorem with_no_store_sets:
  "is_no_store (with_no_store r) \<and> with_no_store (with_no_store r) = with_no_store r \<and>
   (\<exists>added. r_extra_headers (with_no_store r) = r_extra_headers r @ added)"
  using no_store_pushed [of r] by (auto simp: with_no_store_unfold push_header_def)

end
