(* ===== verification/Router.thy ===== *)
theory Router
  imports Route_Pattern Response "HOL-Library.AList"
begin

text \<open>
  \<^verbatim>\<open>crates/routes/src/lib.rs\<close>: the router. A \<^verbatim>\<open>HandlerFuture\<close> is \<open>Ready\<close> a response
  (\<^verbatim>\<open>std::future::ready\<close>) or \<open>Boxed\<close> a future of an asynchronous handler, whose type is a parameter;
  handlers are functions of the request head and body. A hash map is an association list with one
  entry per key, and the order in which it is iterated, which the hash function of \<^verbatim>\<open>rustc-hash\<close>
  decides, is the parameter \<open>order\<close> of the operations that iterate; \<open>iteration_order\<close> says that an
  iteration visits every key. The lemmas refine \<^verbatim>\<open>dispatch\<close> to a specification without hash maps,
  loops and iteration orders, and say what registration, the fallbacks and \<^verbatim>\<open>merge\<close> change.
\<close>

section \<open>Hash maps\<close>

type_synonym 'v hmap = "(bytes \<times> 'v) list"

definition hm_get :: "'v hmap \<Rightarrow> bytes \<Rightarrow> 'v option" where
  "hm_get m k = map_of m k"

definition hm_insert :: "bytes \<Rightarrow> 'v \<Rightarrow> 'v hmap \<Rightarrow> 'v hmap" where
  "hm_insert k v m = AList.update k v m"

definition hm_keys :: "(bytes list \<Rightarrow> bytes list) \<Rightarrow> 'v hmap \<Rightarrow> bytes list" where
  "hm_keys order m = order (map fst m)"

definition hm_iter :: "(bytes list \<Rightarrow> bytes list) \<Rightarrow> 'v hmap \<Rightarrow> (bytes \<times> 'v) list" where
  "hm_iter order m =
     List.map_filter (\<lambda>k. map_option (\<lambda>v. (k, v)) (hm_get m k)) (hm_keys order m)"

definition hm_extend :: "'v hmap \<Rightarrow> (bytes \<times> 'v) list \<Rightarrow> 'v hmap" where
  "hm_extend m kvs = foldl (\<lambda>m (k, v). hm_insert k v m) m kvs"

definition iteration_order :: "(bytes list \<Rightarrow> bytes list) \<Rightarrow> bool" where
  "iteration_order order \<longleftrightarrow> (\<forall>ks. distinct ks \<longrightarrow> distinct (order ks) \<and> set (order ks) = set ks)"

section \<open>The router\<close>

datatype 'f HandlerFuture = Ready Response | Boxed 'f

type_synonym 'f RouteHandler = "RequestHead \<Rightarrow> bytes \<Rightarrow> 'f HandlerFuture"
type_synonym 'f ParamRouteHandler = "RequestHead \<Rightarrow> PathParams \<Rightarrow> bytes \<Rightarrow> 'f HandlerFuture"
type_synonym OptionsFallbackHandler = "RequestHead \<Rightarrow> AllowedMethods \<Rightarrow> bytes \<Rightarrow> Response"

datatype FallbackPolicy = NotFoundOnly | IncludeMethodNotAllowed

datatype RouterMergeError =
    DuplicateRoute bytes bytes
  | DuplicateParamRoute bytes bytes
  | ConflictingFallback
  | ConflictingOptionsFallback

record 'f ParamRoute =
  pr_method :: bytes
  pr_segments :: "Segment list"
  pr_handler :: "'f ParamRouteHandler"

record 'f Router =
  rt_routes :: "'f RouteHandler hmap hmap"
  rt_param_routes :: "'f ParamRoute list"
  rt_options_fallback :: "OptionsFallbackHandler option"
  rt_fallback :: "(FallbackPolicy \<times> 'f RouteHandler) option"

definition router_new :: "'f Router" where
  "router_new = \<lparr>rt_routes = [], rt_param_routes = [], rt_options_fallback = None, rt_fallback = None\<rparr>"

text \<open>\<^verbatim>\<open>self.routes.entry(path).or_default()\<close>: the inner map of the path, empty when absent.\<close>

definition or_default :: "'v hmap option \<Rightarrow> 'v hmap" where
  "or_default e = (case e of None \<Rightarrow> [] | Some m \<Rightarrow> m)"

definition insert_route :: "bytes \<Rightarrow> bytes \<Rightarrow> 'f RouteHandler \<Rightarrow> 'f Router \<Rightarrow> 'f Router" where
  "insert_route method path adapted r =
     r\<lparr>rt_routes := hm_insert path
         (hm_insert method adapted (or_default (hm_get (rt_routes r) path))) (rt_routes r)\<rparr>"

definition route :: "bytes \<Rightarrow> bytes \<Rightarrow> (RequestHead \<Rightarrow> bytes \<Rightarrow> Response) \<Rightarrow> 'f Router \<Rightarrow> 'f Router"
  where
  "route method path handler r = insert_route method path (\<lambda>head body. Ready (handler head body)) r"

definition route_async :: "bytes \<Rightarrow> bytes \<Rightarrow> (RequestHead \<Rightarrow> bytes \<Rightarrow> 'f) \<Rightarrow> 'f Router \<Rightarrow> 'f Router"
  where
  "route_async method path handler r =
     insert_route method path (\<lambda>head body. Boxed (handler head body)) r"

definition push_param_route :: "'f ParamRoute \<Rightarrow> 'f Router \<Rightarrow> 'f Router" where
  "push_param_route pr r = r\<lparr>rt_param_routes := rt_param_routes r @ [pr]\<rparr>"

definition route_param ::
  "bytes \<Rightarrow> bytes \<Rightarrow> (RequestHead \<Rightarrow> PathParams \<Rightarrow> bytes \<Rightarrow> Response) \<Rightarrow> 'f Router
     \<Rightarrow> RoutePatternError + 'f Router" where
  "route_param method pattern handler r =
     res_bind (parse_pattern pattern) (\<lambda>segs.
       Ok (push_param_route \<lparr>pr_method = method, pr_segments = segs,
         pr_handler = (\<lambda>head params body. Ready (handler head params body))\<rparr> r))"

definition route_param_async ::
  "bytes \<Rightarrow> bytes \<Rightarrow> (RequestHead \<Rightarrow> PathParams \<Rightarrow> bytes \<Rightarrow> 'f) \<Rightarrow> 'f Router
     \<Rightarrow> RoutePatternError + 'f Router" where
  "route_param_async method pattern handler r =
     res_bind (parse_pattern pattern) (\<lambda>segs.
       Ok (push_param_route \<lparr>pr_method = method, pr_segments = segs,
         pr_handler = (\<lambda>head params body. Boxed (handler head params body))\<rparr> r))"

definition options_fallback :: "OptionsFallbackHandler \<Rightarrow> 'f Router \<Rightarrow> 'f Router" where
  "options_fallback handler r = r\<lparr>rt_options_fallback := Some handler\<rparr>"

definition fallback_with ::
  "FallbackPolicy \<Rightarrow> (RequestHead \<Rightarrow> bytes \<Rightarrow> Response) \<Rightarrow> 'f Router \<Rightarrow> 'f Router" where
  "fallback_with policy handler r =
     r\<lparr>rt_fallback := Some (policy, (\<lambda>head body. Ready (handler head body)))\<rparr>"

definition fallback :: "(RequestHead \<Rightarrow> bytes \<Rightarrow> Response) \<Rightarrow> 'f Router \<Rightarrow> 'f Router" where
  "fallback handler r = fallback_with NotFoundOnly handler r"

subsection \<open>\<^verbatim>\<open>merge\<close>\<close>

fun static_conflict ::
  "(bytes list \<Rightarrow> bytes list) \<Rightarrow> 'v hmap hmap \<Rightarrow> (bytes \<times> 'v hmap) list \<Rightarrow> RouterMergeError option"
  where
  "static_conflict order self [] = None"
| "static_conflict order self ((path, methods) # rest) =
     (case hm_get self path of
        None \<Rightarrow> static_conflict order self rest
      | Some self_methods \<Rightarrow>
          (case find (\<lambda>method. hm_get self_methods method \<noteq> None) (hm_keys order methods) of
             Some method \<Rightarrow> Some (DuplicateRoute method path)
           | None \<Rightarrow> static_conflict order self rest))"

fun param_conflict :: "'f ParamRoute list \<Rightarrow> 'f ParamRoute list \<Rightarrow> RouterMergeError option" where
  "param_conflict self [] = None"
| "param_conflict self (other_route # rest) =
     (case find (\<lambda>self_route. pr_method self_route = pr_method other_route \<and>
           segments_equivalent (pr_segments self_route) (pr_segments other_route)) self of
        Some self_route \<Rightarrow> Some (DuplicateParamRoute (pr_method self_route)
          (render_segments (pr_segments self_route)))
      | None \<Rightarrow> param_conflict self rest)"

definition opt_or :: "'a option \<Rightarrow> 'a option \<Rightarrow> 'a option" where
  "opt_or a b = (case a of None \<Rightarrow> b | Some x \<Rightarrow> Some x)"

definition merge_routes ::
  "(bytes list \<Rightarrow> bytes list) \<Rightarrow> 'v hmap hmap \<Rightarrow> 'v hmap hmap \<Rightarrow> 'v hmap hmap" where
  "merge_routes order self other =
     foldl (\<lambda>rs (path, methods).
         hm_insert path (hm_extend (or_default (hm_get rs path)) (hm_iter order methods)) rs)
       self (hm_iter order other)"

definition merge ::
  "(bytes list \<Rightarrow> bytes list) \<Rightarrow> 'f Router \<Rightarrow> 'f Router \<Rightarrow> RouterMergeError + 'f Router" where
  "merge order self other =
     (case static_conflict order (rt_routes self) (hm_iter order (rt_routes other)) of
        Some e \<Rightarrow> Err e
      | None \<Rightarrow>
     (case param_conflict (rt_param_routes self) (rt_param_routes other) of
        Some e \<Rightarrow> Err e
      | None \<Rightarrow>
          if rt_fallback self \<noteq> None \<and> rt_fallback other \<noteq> None then Err ConflictingFallback
          else if rt_options_fallback self \<noteq> None \<and> rt_options_fallback other \<noteq> None
          then Err ConflictingOptionsFallback
          else Ok (self\<lparr>
            rt_routes := merge_routes order (rt_routes self) (rt_routes other),
            rt_param_routes := rt_param_routes self @ rt_param_routes other,
            rt_fallback := opt_or (rt_fallback self) (rt_fallback other),
            rt_options_fallback := opt_or (rt_options_fallback self) (rt_options_fallback other)\<rparr>)))"

subsection \<open>\<^verbatim>\<open>dispatch\<close>\<close>

definition build_allow :: "bytes list \<Rightarrow> AllowedMethods option" where
  "build_allow registered_methods =
     from_methods (filter (\<lambda>m. from_methods [m] \<noteq> None) registered_methods)"

text \<open>The scan of the parameter routes: \<open>Inl\<close> is the early return with the answer of the first route
  whose pattern and method match, \<open>Inr\<close> the methods of the routes whose pattern alone matched.\<close>

fun param_scan ::
  "RequestHead \<Rightarrow> bytes \<Rightarrow> bytes list \<Rightarrow> 'f ParamRoute list \<Rightarrow> bytes list
     \<Rightarrow> 'f HandlerFuture + bytes list" where
  "param_scan head body target_segments [] param_methods = Inr param_methods"
| "param_scan head body target_segments (pr # prs) param_methods =
     (case match_segments (pr_segments pr) target_segments (head_path head) of
        None \<Rightarrow> param_scan head body target_segments prs param_methods
      | Some params \<Rightarrow>
          if pr_method pr = head_method head then Inl (pr_handler pr head params body)
          else param_scan head body target_segments prs (param_methods @ [pr_method pr]))"

definition dispatch ::
  "(bytes list \<Rightarrow> bytes list) \<Rightarrow> 'f Router \<Rightarrow> RequestHead \<Rightarrow> bytes \<Rightarrow> 'f HandlerFuture" where
  "dispatch order r head body =
     (case Option.bind (hm_get (rt_routes r) (head_path head))
             (\<lambda>methods. hm_get methods (head_method head)) of
        Some handler \<Rightarrow> handler head body
      | None \<Rightarrow>
     (case (case request_target_segments (head_path head) of
              None \<Rightarrow> Inr []
            | Some target_segments \<Rightarrow> param_scan head body target_segments (rt_param_routes r) []) of
        Inl answer \<Rightarrow> answer
      | Inr param_methods \<Rightarrow>
          let registered_methods =
            (case hm_get (rt_routes r) (head_path head) of
               None \<Rightarrow> [] | Some methods \<Rightarrow> hm_keys order methods) @ param_methods
          in
          if registered_methods = [] then
            (case rt_fallback r of
               Some (_, handler) \<Rightarrow> handler head body
             | None \<Rightarrow> Ready (response_empty 404))
          else
            (case build_allow registered_methods of
               None \<Rightarrow>
                 (case rt_fallback r of
                    Some (IncludeMethodNotAllowed, handler) \<Rightarrow> handler head body
                  | _ \<Rightarrow> Ready (response_empty 405))
             | Some allow \<Rightarrow>
                 (case (if head_method head = ''OPTIONS'' then rt_options_fallback r else None) of
                    Some fb \<Rightarrow> Ready (fb head allow body)
                  | None \<Rightarrow>
                      (case rt_fallback r of
                         Some (IncludeMethodNotAllowed, handler) \<Rightarrow> handler head body
                       | _ \<Rightarrow> Ready (with_allow (response_empty 405) allow))))))"

section \<open>The contract of a hash map\<close>

text \<open>What the router relies on: lookup after insertion, and that the keys of an iteration are the
  keys that can be looked up. The laws of \<^verbatim>\<open>extend\<close> follow for every such map.\<close>

locale hash_map =
  fixes get :: "'m \<Rightarrow> 'k \<Rightarrow> 'v option"
    and ins :: "'k \<Rightarrow> 'v \<Rightarrow> 'm \<Rightarrow> 'm"
    and wf :: "'m \<Rightarrow> bool"
  assumes get_ins: "get (ins k v m) = (get m)(k \<mapsto> v)"
    and wf_ins: "wf m \<Longrightarrow> wf (ins k v m)"
begin

definition extend :: "'m \<Rightarrow> ('k \<times> 'v) list \<Rightarrow> 'm" where
  "extend m kvs = foldl (\<lambda>m (k, v). ins k v m) m kvs"

lemma extend_simps: "extend m [] = m" "extend m ((k, v) # kvs) = extend (ins k v m) kvs"
  by (simp_all add: extend_def)

lemma get_extend: "get (extend m kvs) k = (case map_of (rev kvs) k of None \<Rightarrow> get m k | Some v \<Rightarrow> Some v)"
proof (induction kvs arbitrary: m)
  case (Cons kv kvs)
  then show ?case by (cases kv) (auto simp: extend_simps get_ins map_add_def split: option.splits)
qed (simp add: extend_simps)

lemma wf_extend: "wf m \<Longrightarrow> wf (extend m kvs)"
proof (induction kvs arbitrary: m)
  case (Cons kv kvs)
  then show ?case by (cases kv) (simp add: extend_simps wf_ins)
qed (simp add: extend_simps)

lemma get_ins_same: "get (ins k v m) k = Some v"
  by (simp add: get_ins)

lemma get_ins_other: "k' \<noteq> k \<Longrightarrow> get (ins k v m) k' = get m k'"
  by (simp add: get_ins)

end

definition hm_wf :: "'v hmap \<Rightarrow> bool" where
  "hm_wf m \<longleftrightarrow> distinct (map fst m)"

interpretation hm: hash_map hm_get hm_insert hm_wf
proof
  fix m :: "'v hmap" and k v
  show "hm_get (hm_insert k v m) = (hm_get m)(k \<mapsto> v)"
    by (simp add: hm_get_def [abs_def] hm_insert_def update_conv')
  show "hm_wf m \<Longrightarrow> hm_wf (hm_insert k v m)"
    by (simp add: hm_wf_def hm_insert_def distinct_update)
qed

lemma hm_extend_eq: "hm_extend m kvs = hm.extend m kvs"
  by (simp add: hm_extend_def hm.extend_def)

lemma map_of_rev_distinct: "distinct (map fst xs) \<Longrightarrow> map_of (rev xs) = map_of xs"
  by (subst map_of_inject_set) (simp_all add: rev_map [symmetric])

lemma hm_keys_set:
  "iteration_order order \<Longrightarrow> hm_wf m \<Longrightarrow> set (hm_keys order m) = {k. hm_get m k \<noteq> None}"
  by (auto simp: iteration_order_def hm_wf_def hm_keys_def hm_get_def map_of_eq_None_iff)

lemma hm_iter_wf:
  assumes "iteration_order order" "hm_wf m"
  shows "distinct (map fst (hm_iter order m))" "map_of (hm_iter order m) = hm_get m"
proof -
  have d: "distinct (hm_keys order m)"
    using assms by (simp add: iteration_order_def hm_wf_def hm_keys_def)
  have gen: "distinct ks \<Longrightarrow>
      distinct (map fst (List.map_filter (\<lambda>k. map_option (\<lambda>v. (k, v)) (hm_get m k)) ks)) \<and>
      (\<forall>k. map_of (List.map_filter (\<lambda>k. map_option (\<lambda>v. (k, v)) (hm_get m k)) ks) k =
        (if k \<in> set ks then hm_get m k else None))" for ks
    by (induction ks) (auto simp: map_filter_def image_iff split: option.splits)
  show "distinct (map fst (hm_iter order m))" using gen [OF d] by (simp add: hm_iter_def)
  show "map_of (hm_iter order m) = hm_get m"
    using gen [OF d] hm_keys_set [OF assms] by (auto simp: hm_iter_def fun_eq_iff)
qed

section \<open>Routers that can be built\<close>

inductive router_built :: "(bytes list \<Rightarrow> bytes list) \<Rightarrow> 'f Router \<Rightarrow> bool" for order where
  built_new: "router_built order router_new"
| built_route: "router_built order r \<Longrightarrow> router_built order (route m p h r)"
| built_route_async: "router_built order r \<Longrightarrow> router_built order (route_async m p ha r)"
| built_route_param:
    "router_built order r \<Longrightarrow> route_param m pat hp r = Ok r' \<Longrightarrow> router_built order r'"
| built_route_param_async:
    "router_built order r \<Longrightarrow> route_param_async m pat hpa r = Ok r' \<Longrightarrow> router_built order r'"
| built_options: "router_built order r \<Longrightarrow> router_built order (options_fallback ho r)"
| built_fallback: "router_built order r \<Longrightarrow> router_built order (fallback h r)"
| built_fallback_with: "router_built order r \<Longrightarrow> router_built order (fallback_with pol h r)"
| built_merge:
    "router_built order a \<Longrightarrow> router_built order b \<Longrightarrow> merge order a b = Ok c \<Longrightarrow> router_built order c"

text \<open>The invariant: one entry per key at both levels, no path with an empty set of methods, and
  every parameter route carries a well-formed pattern.\<close>

definition routes_wf :: "'v hmap hmap \<Rightarrow> bool" where
  "routes_wf rs \<longleftrightarrow> hm_wf rs \<and> (\<forall>p ms. hm_get rs p = Some ms \<longrightarrow> hm_wf ms \<and> ms \<noteq> [])"

definition router_wf :: "'f Router \<Rightarrow> bool" where
  "router_wf r \<longleftrightarrow> routes_wf (rt_routes r) \<and>
     (\<forall>pr\<in>set (rt_param_routes r). valid_pattern (pr_segments pr))"

lemma routes_wf_insert:
  "routes_wf rs \<Longrightarrow> hm_wf ms \<Longrightarrow> ms \<noteq> [] \<Longrightarrow> routes_wf (hm_insert p ms rs)"
  by (simp add: routes_wf_def hm.wf_ins hm.get_ins)

lemma hm_insert_ne [simp]: "hm_insert k v m \<noteq> []"
  by (cases m) (auto simp: hm_insert_def)

lemma hm_wf_Nil [simp]: "hm_wf []"
  by (simp add: hm_wf_def)

lemma hm_get_Nil [simp]: "hm_get [] k = None"
  by (simp add: hm_get_def)

lemma or_default_wf: "routes_wf rs \<Longrightarrow> hm_wf (or_default (hm_get rs p))"
  by (auto simp: or_default_def routes_wf_def split: option.split)

lemma router_wf_insert_route: "router_wf r \<Longrightarrow> router_wf (insert_route m p h r)"
  by (simp add: router_wf_def insert_route_def routes_wf_insert hm.wf_ins or_default_wf)

lemma router_wf_push: "router_wf r \<Longrightarrow> valid_pattern (pr_segments pr) \<Longrightarrow> router_wf (push_param_route pr r)"
  by (auto simp: router_wf_def push_param_route_def)

lemma hm_extend_ne: "m \<noteq> [] \<or> kvs \<noteq> [] \<Longrightarrow> hm_extend m kvs \<noteq> []"
  by (induction kvs arbitrary: m) (auto simp: hm_extend_def)

lemma hm_iter_ne:
  assumes "iteration_order order" "hm_wf m" "m \<noteq> []"
  shows "hm_iter order m \<noteq> []"
proof
  assume e: "hm_iter order m = []"
  obtain k where "k \<in> fst ` set m" using assms(3) by (cases m) auto
  then have "hm_get m k \<noteq> None" by (auto simp: hm_get_def map_of_eq_None_iff)
  moreover have "hm_get m k = None" using hm_iter_wf(2) [OF assms(1,2)] e by (metis map_of.simps(1))
  ultimately show False by simp
qed

lemma merge_routes_wf:
  assumes o: "iteration_order order" and "routes_wf self" "routes_wf other"
  shows "routes_wf (merge_routes order self other)"
proof -
  have ok: "(p, ms) \<in> set (hm_iter order other) \<Longrightarrow> hm_wf ms \<and> ms \<noteq> []" for p ms
    using hm_iter_wf [OF o, of other] assms(3)
    by (metis map_of_eq_Some_iff routes_wf_def)
  have "\<lbrakk>\<And>p ms. (p, ms) \<in> set kvs \<Longrightarrow> hm_wf ms \<and> ms \<noteq> []; routes_wf rs\<rbrakk> \<Longrightarrow>
    routes_wf (foldl (\<lambda>rs (path, methods).
         hm_insert path (hm_extend (or_default (hm_get rs path)) (hm_iter order methods)) rs) rs kvs)"
    for kvs :: "(bytes \<times> 'a hmap) list" and rs
  proof (induction kvs arbitrary: rs)
    case (Cons kv kvs)
    obtain p ms where kv: "kv = (p, ms)" by (cases kv)
    have m: "hm_wf ms" "ms \<noteq> []" using Cons.prems(1) [of p ms] kv by auto
    have "routes_wf (hm_insert p (hm_extend (or_default (hm_get rs p)) (hm_iter order ms)) rs)"
      using m Cons.prems(2) or_default_wf [OF Cons.prems(2)] hm_iter_ne [OF o m]
      by (intro routes_wf_insert) (simp_all add: hm_extend_eq hm.wf_extend hm_extend_ne [unfolded hm_extend_eq])
    moreover have "\<And>p ms. (p, ms) \<in> set kvs \<Longrightarrow> hm_wf ms \<and> ms \<noteq> []" using Cons.prems(1) by auto
    ultimately show ?case using Cons.IH unfolding kv by (simp del: split_paired_All)
  qed simp
  from this [OF ok assms(2)] show ?thesis by (simp add: merge_routes_def)
qed

lemma merge_Ok_D:
  assumes "merge order a b = Ok c"
  shows "rt_routes c = merge_routes order (rt_routes a) (rt_routes b)"
    "rt_param_routes c = rt_param_routes a @ rt_param_routes b"
    "rt_fallback c = opt_or (rt_fallback a) (rt_fallback b)"
    "rt_options_fallback c = opt_or (rt_options_fallback a) (rt_options_fallback b)"
    "static_conflict order (rt_routes a) (hm_iter order (rt_routes b)) = None"
    "param_conflict (rt_param_routes a) (rt_param_routes b) = None"
    "rt_fallback a = None \<or> rt_fallback b = None"
    "rt_options_fallback a = None \<or> rt_options_fallback b = None"
  using assms
  by (cases "static_conflict order (rt_routes a) (hm_iter order (rt_routes b))";
      cases "param_conflict (rt_param_routes a) (rt_param_routes b)";
      auto simp: merge_def simp del: not_None_eq split: if_splits)+

lemma router_built_wf:
  assumes "iteration_order order" "router_built order r"
  shows "router_wf r"
  using assms(2)
proof induction
  case (built_merge a b c)
  then show ?case
    using merge_routes_wf [OF assms(1)] merge_Ok_D(1,2) [OF built_merge.hyps(3)]
    by (auto simp: router_wf_def)
qed (auto simp: router_wf_insert_route route_def route_async_def route_param_def route_param_async_def
    res_bind_eq_Ok parse_pattern_Ok_iff options_fallback_def fallback_def fallback_with_def
    intro!: router_wf_push,
    auto simp: router_wf_def router_new_def routes_wf_def)

section \<open>The specification of \<^verbatim>\<open>dispatch\<close>\<close>

definition static_handler :: "'f Router \<Rightarrow> bytes \<Rightarrow> bytes \<Rightarrow> 'f RouteHandler option" where
  "static_handler r path method = Option.bind (hm_get (rt_routes r) path) (\<lambda>ms. hm_get ms method)"

definition path_segments :: "bytes \<Rightarrow> bytes list" where
  "path_segments path = (case request_target_segments path of None \<Rightarrow> [] | Some ts \<Rightarrow> ts)"

definition covers :: "Segment list \<Rightarrow> bytes \<Rightarrow> bool" where
  "covers segs path \<longleftrightarrow> starts_with ''/'' path \<and> fits segs (path_segments path)"

definition param_route :: "'f Router \<Rightarrow> bytes \<Rightarrow> bytes \<Rightarrow> 'f ParamRoute option" where
  "param_route r path method =
     find (\<lambda>pr. pr_method pr = method \<and> covers (pr_segments pr) path) (rt_param_routes r)"

text \<open>The answer of the route that the request selects: a static route before every parameter
  route, parameter routes in registration order.\<close>

definition routed :: "'f Router \<Rightarrow> RequestHead \<Rightarrow> bytes \<Rightarrow> 'f HandlerFuture option" where
  "routed r head body =
     (case static_handler r (head_path head) (head_method head) of
        Some handler \<Rightarrow> Some (handler head body)
      | None \<Rightarrow> map_option
          (\<lambda>pr. pr_handler pr head
             (PathParams.make (bindings (pr_segments pr) (path_segments (head_path head)))) body)
          (param_route r (head_path head) (head_method head)))"

definition methods_at :: "'f Router \<Rightarrow> bytes \<Rightarrow> bytes set" where
  "methods_at r path = {m. static_handler r path m \<noteq> None} \<union>
     {pr_method pr | pr. pr \<in> set (rt_param_routes r) \<and> covers (pr_segments pr) path}"

definition is_method_token :: "bytes \<Rightarrow> bool" where
  "is_method_token m \<longleftrightarrow> m \<noteq> [] \<and> list_all is_tchar m"

definition allow_of :: "bytes set \<Rightarrow> AllowedMethods" where
  "allow_of ms = \<lparr>am_methods = sorted_list_of_set {m \<in> ms. is_method_token m}\<rparr>"

definition method_fallback :: "'f Router \<Rightarrow> 'f RouteHandler option" where
  "method_fallback r =
     (case rt_fallback r of Some (IncludeMethodNotAllowed, h) \<Rightarrow> Some h | _ \<Rightarrow> None)"

definition unrouted :: "'f Router \<Rightarrow> RequestHead \<Rightarrow> bytes \<Rightarrow> 'f HandlerFuture" where
  "unrouted r head body =
     (let ms = methods_at r (head_path head);
          tokens = {m \<in> ms. is_method_token m} in
      if ms = {} then (case rt_fallback r of Some (_, h) \<Rightarrow> h head body | None \<Rightarrow> Ready (response_empty 404))
      else if tokens \<noteq> {} \<and> head_method head = ''OPTIONS'' \<and> rt_options_fallback r \<noteq> None
      then Ready (the (rt_options_fallback r) head (allow_of ms) body)
      else (case method_fallback r of
              Some h \<Rightarrow> h head body
            | None \<Rightarrow> Ready (if tokens = {} then response_empty 405
                else with_allow (response_empty 405) (allow_of ms))))"

definition dispatch_spec :: "'f Router \<Rightarrow> RequestHead \<Rightarrow> bytes \<Rightarrow> 'f HandlerFuture" where
  "dispatch_spec r head body =
     (case routed r head body of Some answer \<Rightarrow> answer | None \<Rightarrow> unrouted r head body)"

lemma unrouted_cong:
  assumes "methods_at r' (head_path head) = methods_at r (head_path head)"
    "rt_fallback r' = rt_fallback r" "rt_options_fallback r' = rt_options_fallback r"
  shows "unrouted r' head body = unrouted r head body"
  unfolding unrouted_def method_fallback_def assms ..

lemma from_methods_single: "from_methods [m] \<noteq> None \<longleftrightarrow> is_method_token m"
  by (simp add: from_methods_def is_method_token_def)

lemma build_allow_spec:
  "build_allow ms = (if {m \<in> set ms. is_method_token m} = {} then None else Some (allow_of (set ms)))"
proof -
  let ?f = "filter is_method_token ms"
  have "remdups_adj (sort ?f) = sorted_list_of_set (set ?f)"
    by (intro sorted_distinct_set_unique) (auto simp: sorted_remdups_adj distinct_remdups_adj_sorted)
  moreover have "set ?f = {m \<in> set ms. is_method_token m}" by auto
  moreover have "\<not> list_ex (\<lambda>m. m = [] \<or> \<not> list_all is_tchar m) ?f"
    by (auto simp: list_ex_iff is_method_token_def)
  moreover have "build_allow ms = from_methods ?f"
    unfolding build_allow_def from_methods_single ..
  ultimately show ?thesis
    by (auto simp: from_methods_def allow_of_def filter_empty_conv)
qed

lemma covers_match:
  assumes "request_target_segments path = Some ts"
  shows "match_segments segs ts path =
    (if covers segs path then Some (PathParams.make (bindings segs (path_segments path))) else None)"
proof -
  have "starts_with ''/'' path" using request_target_segments_Some(1) [OF assms] by (simp add: starts_with_def)
  then show ?thesis by (simp add: match_segments_spec [OF assms] covers_def path_segments_def assms)
qed

lemma not_origin_form: "request_target_segments path = None \<longleftrightarrow> \<not> starts_with ''/'' path"
  by (cases path) (auto simp: request_target_segments_def starts_with_def)

lemma param_scan_spec:
  assumes "request_target_segments (head_path head) = Some ts"
  shows "param_scan head body ts prs acc =
    (case find (\<lambda>pr. pr_method pr = head_method head \<and> covers (pr_segments pr) (head_path head)) prs of
       Some pr \<Rightarrow> Inl (pr_handler pr head
         (PathParams.make (bindings (pr_segments pr) (path_segments (head_path head)))) body)
     | None \<Rightarrow> Inr (acc @ map pr_method (filter (\<lambda>pr. covers (pr_segments pr) (head_path head)) prs)))"
  by (induction prs arbitrary: acc) (auto simp: covers_match [OF assms] split: option.split)

lemma scan_of_dispatch:
  "(case request_target_segments (head_path head) of
      None \<Rightarrow> Inr [] | Some ts \<Rightarrow> param_scan head body ts (rt_param_routes r) []) =
   (case param_route r (head_path head) (head_method head) of
      Some pr \<Rightarrow> Inl (pr_handler pr head
         (PathParams.make (bindings (pr_segments pr) (path_segments (head_path head)))) body)
    | None \<Rightarrow> Inr (map pr_method
         (filter (\<lambda>pr. covers (pr_segments pr) (head_path head)) (rt_param_routes r))))"
proof (cases "request_target_segments (head_path head)")
  case None
  then have "\<not> covers segs (head_path head)" for segs by (simp add: covers_def not_origin_form)
  moreover from this have "param_route r (head_path head) (head_method head) = None"
    unfolding param_route_def find_None_iff by blast
  ultimately show ?thesis using None by simp
next
  case (Some ts)
  then show ?thesis by (simp add: param_scan_spec param_route_def split: option.split)
qed

lemma static_keys_set:
  assumes "iteration_order order" "router_wf r"
  shows "set (case hm_get (rt_routes r) path of None \<Rightarrow> [] | Some ms \<Rightarrow> hm_keys order ms)
      = {m. static_handler r path m \<noteq> None}"
proof (cases "hm_get (rt_routes r) path")
  case (Some ms)
  then have "hm_wf ms" using assms(2) by (auto simp: router_wf_def routes_wf_def)
  then show ?thesis using Some by (simp add: hm_keys_set [OF assms(1)] static_handler_def)
qed (simp add: static_handler_def)

lemma dispatch_unrouted:
  assumes "iteration_order order" "router_wf r" "routed r head body = None"
  shows "dispatch order r head body = unrouted r head body"
proof -
  let ?path = "head_path head"
  define reg where "reg = (case hm_get (rt_routes r) ?path of None \<Rightarrow> [] | Some ms \<Rightarrow> hm_keys order ms) @
    map pr_method (filter (\<lambda>pr. covers (pr_segments pr) ?path) (rt_param_routes r))"
  have s: "static_handler r ?path (head_method head) = None"
    and p: "param_route r ?path (head_method head) = None"
    using assms(3) by (auto simp: routed_def split: option.splits)
  have set: "set reg = methods_at r ?path"
    using static_keys_set [OF assms(1,2), of ?path] by (auto simp: reg_def methods_at_def)
  then have empty: "reg = [] \<longleftrightarrow> methods_at r ?path = {}" by (metis set_empty)
  have mf: "(case rt_fallback r of Some (IncludeMethodNotAllowed, h) \<Rightarrow> h head body | _ \<Rightarrow> d) =
      (case method_fallback r of Some h \<Rightarrow> h head body | None \<Rightarrow> d)" for d
    by (simp add: method_fallback_def split: option.splits prod.splits FallbackPolicy.splits)
  have "dispatch order r head body =
     (if reg = [] then (case rt_fallback r of Some (_, h) \<Rightarrow> h head body | None \<Rightarrow> Ready (response_empty 404))
      else (case build_allow reg of
         None \<Rightarrow> (case method_fallback r of Some h \<Rightarrow> h head body | None \<Rightarrow> Ready (response_empty 405))
       | Some allow \<Rightarrow>
           (case (if head_method head = ''OPTIONS'' then rt_options_fallback r else None) of
              Some fb \<Rightarrow> Ready (fb head allow body)
            | None \<Rightarrow> (case method_fallback r of Some h \<Rightarrow> h head body
                | None \<Rightarrow> Ready (with_allow (response_empty 405) allow)))))"
    using s unfolding dispatch_def scan_of_dispatch p static_handler_def mf reg_def Let_def by simp
  then show ?thesis
    by (auto simp: unrouted_def Let_def build_allow_spec set empty split: option.splits)
qed

lemma dispatch_routed:
  assumes "routed r head body = Some answer"
  shows "dispatch order r head body = answer"
proof (cases "static_handler r (head_path head) (head_method head)")
  case None
  then show ?thesis
    using assms unfolding dispatch_def scan_of_dispatch
    by (auto simp: routed_def static_handler_def)
next
  case (Some h)
  then show ?thesis using assms by (simp add: dispatch_def routed_def static_handler_def)
qed

lemma dispatch_correct:
  "iteration_order order \<Longrightarrow> router_wf r \<Longrightarrow> dispatch order r head body = dispatch_spec r head body"
  by (cases "routed r head body") (simp_all add: dispatch_spec_def dispatch_routed dispatch_unrouted)

lemma rev_iteration_order: "iteration_order rev"
  by (simp add: iteration_order_def)

definition sample_head :: "bytes \<Rightarrow> bytes \<Rightarrow> RequestHead" where
  "sample_head method target = \<lparr>rh_buf = method @ target, rh_method = (0, length method),
     rh_target = (length method, length method + length target), rh_version = Http11, rh_headers = [],
     rh_extensions = extensions_new\<rparr>"

lemma sample_head_simps [simp]:
  "head_method (sample_head m t) = m" "head_target (sample_head m t) = t"
  by (simp_all add: sample_head_def head_method_def head_target_def slice_def)

text \<open>C8. \<^verbatim>\<open>dispatch\<close> of every router that can be built refines its specification, whatever the
  iteration order of the hash maps: a static route for the path and method answers before every
  parameter route; parameter routes answer in registration order; a path nobody registered gets the
  fallback or 404; a path registered for other methods gets the \<^verbatim>\<open>OPTIONS\<close> fallback, the fallback
  that asked for it, or 405 with the sorted list of exactly the registered methods in \<^verbatim>\<open>Allow\<close>.\<close>

theorem dispatch_refines:
  assumes "iteration_order order" "router_built order r"
  shows "dispatch order r head body = dispatch_spec r head body"
  using assms by (intro dispatch_correct router_built_wf)

theorem dispatch_refines_witness:
  "dispatch rev (route ''GET'' ''/a'' (\<lambda>_ b. response_new 200 b) router_new :: unit Router)
     (sample_head ''PUT'' ''/a'') [] = Ready (with_allow (response_empty 405) (allow_of {''GET''}))"
proof -
  let ?r = "route ''GET'' ''/a'' (\<lambda>_ b. response_new 200 b) router_new :: unit Router"
  let ?h = "sample_head ''PUT'' ''/a''"
  have p: "head_path ?h = ''/a''" by (simp add: head_path_def)
  have s: "static_handler ?r ''/a'' m = (if m = ''GET'' then Some (\<lambda>h b. Ready (response_new 200 b)) else None)" for m
    by (simp add: static_handler_def route_def insert_route_def router_new_def hm_insert_def hm_get_def
        or_default_def)
  have pr: "rt_param_routes ?r = []" "rt_fallback ?r = None" "rt_options_fallback ?r = None"
    by (simp_all add: route_def insert_route_def router_new_def)
  have m: "methods_at ?r ''/a'' = {''GET''}" by (auto simp: methods_at_def s pr)
  have t: "is_method_token ''GET''" by code_simp
  have "router_built rev ?r" by (intro built_route built_new)
  from dispatch_refines [OF rev_iteration_order this, of ?h "[]"] show ?thesis
    using t by (auto simp: dispatch_spec_def routed_def p s param_route_def pr unrouted_def m
        method_fallback_def Let_def)
qed

section \<open>What the registrations change\<close>

lemma static_handler_insert:
  "static_handler (insert_route m p h r) path method =
     (if path = p \<and> method = m then Some h else static_handler r path method)"
  by (simp add: static_handler_def insert_route_def hm.get_ins or_default_def split: option.split)

lemma insert_route_fields [simp]:
  "rt_param_routes (insert_route m p h r) = rt_param_routes r"
  "rt_fallback (insert_route m p h r) = rt_fallback r"
  "rt_options_fallback (insert_route m p h r) = rt_options_fallback r"
  by (simp_all add: insert_route_def)

lemma routed_insert_other:
  assumes "head_path head \<noteq> p \<or> head_method head \<noteq> m"
  shows "routed (insert_route m p h r) head body = routed r head body"
proof -
  have "param_route (insert_route m p h r) = param_route r" by (simp add: param_route_def fun_eq_iff)
  moreover have "static_handler (insert_route m p h r) (head_path head) (head_method head)
      = static_handler r (head_path head) (head_method head)"
    using assms by (auto simp: static_handler_insert)
  ultimately show ?thesis by (simp add: routed_def split: option.split)
qed

lemma methods_at_insert:
  "methods_at (insert_route m p h r) path = (if path = p then insert m (methods_at r path) else methods_at r path)"
  by (auto simp: methods_at_def static_handler_insert)

text \<open>Registering a static route changes what it should and nothing else: the request with that
  path and method gets the new handler, also when another one was registered before (the last
  registration wins) and when a parameter route matches; a request for another path is answered as
  before; a request for the same path with another method that had a route keeps it.\<close>

theorem route_registers:
  assumes "iteration_order order" "router_built order r"
  shows "dispatch order (route m p h r) head body =
      (if head_path head = p \<and> head_method head = m then Ready (h head body)
       else if head_path head \<noteq> p \<or> routed r head body \<noteq> None then dispatch order r head body
       else dispatch_spec (route m p h r) head body) \<and>
    (head_path head = p \<longrightarrow> methods_at (route m p h r) p = insert m (methods_at r p))"
proof -
  have wf: "router_wf r" "router_wf (route m p h r)"
    using assms by (auto intro: router_built_wf router_built.intros)
  note d = dispatch_correct [OF assms(1) wf(1)] dispatch_correct [OF assms(1) wf(2)]
  have 1: "head_path head = p \<Longrightarrow> head_method head = m \<Longrightarrow>
      dispatch order (route m p h r) head body = Ready (h head body)"
    unfolding d by (simp add: dispatch_spec_def routed_def route_def static_handler_insert)
  have 2: "head_path head \<noteq> p \<Longrightarrow> dispatch order (route m p h r) head body = dispatch order r head body"
    unfolding d unfolding dispatch_spec_def route_def
    by (subst unrouted_cong [where r = r]) (simp_all add: routed_insert_other methods_at_insert)
  have 3: "head_method head \<noteq> m \<Longrightarrow> routed r head body \<noteq> None \<Longrightarrow>
      dispatch order (route m p h r) head body = dispatch order r head body"
    unfolding d by (auto simp: dispatch_spec_def routed_insert_other route_def)
  have 4: "methods_at (route m p h r) p = insert m (methods_at r p)"
    by (simp add: route_def methods_at_insert)
  show ?thesis using 1 2 3 4 d(2) by auto
qed

theorem route_registers_witness:
  "dispatch rev (route ''GET'' ''/a'' (\<lambda>_ b. response_new 201 b)
       (route ''GET'' ''/a'' (\<lambda>_ b. response_new 200 b) router_new) :: unit Router)
     (sample_head ''GET'' ''/a?q'') ''x'' = Ready (response_new 201 ''x'')"
proof -
  let ?r = "route ''GET'' ''/a'' (\<lambda>_ b. response_new 200 b) router_new :: unit Router"
  have "router_built rev ?r" by (intro built_route built_new)
  from route_registers [OF rev_iteration_order this] show ?thesis by (simp add: head_path_def)
qed

text \<open>Neither fallback can take over a registered route: a request that a static or parameter
  route answers is answered the same way after \<^verbatim>\<open>fallback_with\<close> and \<^verbatim>\<open>options_fallback\<close>, and the
  \<^verbatim>\<open>OPTIONS\<close> fallback never speaks for a path nobody registered.\<close>

theorem fallbacks_never_shadow:
  assumes "iteration_order order" "router_built order r"
  shows "(routed r head body \<noteq> None \<longrightarrow>
      dispatch order (fallback_with pol h r) head body = dispatch order r head body) \<and>
    (routed r head body \<noteq> None \<or> methods_at r (head_path head) = {} \<or> head_method head \<noteq> ''OPTIONS'' \<longrightarrow>
      dispatch order (options_fallback ho r) head body = dispatch order r head body)"
proof -
  let ?f = "fallback_with pol h r" and ?o = "options_fallback ho r"
  have wf: "router_wf r" "router_wf ?f" "router_wf ?o"
    using assms by (auto intro: router_built_wf router_built.intros)
  note d = wf [THEN dispatch_correct [OF assms(1)]]
  have same: "static_handler ?f = static_handler r" "static_handler ?o = static_handler r"
    "rt_param_routes ?f = rt_param_routes r" "rt_param_routes ?o = rt_param_routes r"
    "rt_fallback ?o = rt_fallback r"
    by (auto simp: static_handler_def fallback_with_def options_fallback_def fun_eq_iff)
  have ro: "routed ?f head body = routed r head body" "routed ?o head body = routed r head body"
    by (simp_all add: routed_def param_route_def same split: option.split)
  have f: "routed r head body \<noteq> None \<longrightarrow> dispatch order ?f head body = dispatch order r head body"
    by (auto simp: d dispatch_spec_def ro)
  have "methods_at r (head_path head) = {} \<or> head_method head \<noteq> ''OPTIONS'' \<Longrightarrow>
      unrouted ?o head body = unrouted r head body"
    by (auto simp: unrouted_def methods_at_def method_fallback_def same Let_def)
  then have "routed r head body \<noteq> None \<or> methods_at r (head_path head) = {} \<or>
      head_method head \<noteq> ''OPTIONS'' \<longrightarrow> dispatch order ?o head body = dispatch order r head body"
    by (auto simp: d dispatch_spec_def ro split: option.splits)
  with f show ?thesis ..
qed

theorem fallbacks_never_shadow_witness:
  "dispatch rev (options_fallback (\<lambda>_ _ _. response_empty 204) router_new :: unit Router)
     (sample_head ''OPTIONS'' ''/a'') [] = dispatch rev router_new (sample_head ''OPTIONS'' ''/a'') []"
proof -
  have "methods_at (router_new :: unit Router) (head_path (sample_head ''OPTIONS'' ''/a'')) = {}"
    by (simp add: methods_at_def static_handler_def router_new_def)
  with fallbacks_never_shadow [OF rev_iteration_order built_new] show ?thesis by blast
qed

section \<open>Merging\<close>

lemma static_conflict_None_iff:
  "static_conflict order self kvs = None \<longleftrightarrow>
     (\<forall>(p, ms)\<in>set kvs. \<forall>sm. hm_get self p = Some sm \<longrightarrow>
        (\<forall>m\<in>set (hm_keys order ms). hm_get sm m = None))"
proof (induction kvs)
  case (Cons kv kvs)
  obtain p ms where kv: "kv = (p, ms)" by (cases kv)
  show ?case
  proof (cases "hm_get self p")
    case (Some sm)
    then show ?thesis
      using Cons find_None_iff [of "\<lambda>m. hm_get sm m \<noteq> None" "hm_keys order ms"]
      by (cases "find (\<lambda>m. hm_get sm m \<noteq> None) (hm_keys order ms)") (auto simp: kv)
  qed (use Cons in \<open>simp add: kv\<close>)
qed simp

lemma static_handler_None_iff:
  "static_handler r p m = None \<longleftrightarrow> (\<forall>ms. hm_get (rt_routes r) p = Some ms \<longrightarrow> hm_get ms m = None)"
  by (cases "hm_get (rt_routes r) p") (auto simp: static_handler_def)

lemma static_disjoint:
  assumes "iteration_order order" "router_wf b"
  shows "static_conflict order (rt_routes a) (hm_iter order (rt_routes b)) = None \<longleftrightarrow>
    (\<forall>p m. static_handler a p m = None \<or> static_handler b p m = None)"
proof -
  have wf: "hm_wf (rt_routes b)" using assms(2) by (simp add: router_wf_def routes_wf_def)
  have mem: "(p, ms) \<in> set (hm_iter order (rt_routes b)) \<longleftrightarrow> hm_get (rt_routes b) p = Some ms" for p ms
    using hm_iter_wf [OF assms(1) wf] by (metis map_of_eq_Some_iff)
  have keys: "hm_get (rt_routes b) p = Some ms \<Longrightarrow> set (hm_keys order ms) = {m. hm_get ms m \<noteq> None}" for p ms
    using assms by (intro hm_keys_set) (auto simp: router_wf_def routes_wf_def)
  have "static_conflict order (rt_routes a) (hm_iter order (rt_routes b)) = None \<longleftrightarrow>
      (\<forall>p ms sm. hm_get (rt_routes b) p = Some ms \<longrightarrow> hm_get (rt_routes a) p = Some sm \<longrightarrow>
        (\<forall>m. hm_get ms m \<noteq> None \<longrightarrow> hm_get sm m = None))"
    unfolding static_conflict_None_iff using mem keys by blast
  also have "\<dots> \<longleftrightarrow> (\<forall>p m. static_handler a p m = None \<or> static_handler b p m = None)"
    unfolding static_handler_None_iff by (intro iffI allI impI; metis)
  finally show ?thesis .
qed

lemma param_conflict_None_iff:
  "param_conflict self other = None \<longleftrightarrow>
     (\<forall>o'\<in>set other. \<forall>s\<in>set self. pr_method s = pr_method o' \<longrightarrow>
        \<not> segments_equivalent (pr_segments s) (pr_segments o'))"
proof (induction other)
  case (Cons o' os)
  let ?P = "\<lambda>s. pr_method s = pr_method o' \<and> segments_equivalent (pr_segments s) (pr_segments o')"
  show ?case using Cons find_None_iff [of ?P self] by (cases "find ?P self") auto
qed simp

lemma merge_routes_get:
  assumes o: "iteration_order order" and w: "routes_wf other"
  shows "Option.bind (hm_get (merge_routes order self other) p) (\<lambda>ms. hm_get ms m) =
    opt_or (Option.bind (hm_get other p) (\<lambda>ms. hm_get ms m)) (Option.bind (hm_get self p) (\<lambda>ms. hm_get ms m))"
proof -
  let ?step = "\<lambda>rs (path, methods).
         hm_insert path (hm_extend (or_default (hm_get rs path)) (hm_iter order methods)) rs"
  let ?look = "\<lambda>rs. Option.bind (hm_get rs p) (\<lambda>ms. hm_get ms m)"
  have gen: "\<lbrakk>distinct (map fst kvs); \<And>q ms. (q, ms) \<in> set kvs \<Longrightarrow> hm_wf ms\<rbrakk> \<Longrightarrow>
     ?look (foldl ?step rs kvs) = opt_or (Option.bind (map_of kvs p) (\<lambda>ms. hm_get ms m)) (?look rs)"
    for kvs :: "(bytes \<times> 'a hmap) list" and rs
  proof (induction kvs arbitrary: rs)
    case (Cons kv kvs)
    obtain q ms where kv: "kv = (q, ms)" by (cases kv)
    have "hm_wf ms" using Cons.prems(2) [of q ms] kv by simp
    note it = hm_iter_wf [OF o this]
    have ext: "hm_get (hm_extend (or_default (hm_get rs q)) (hm_iter order ms)) m =
        opt_or (hm_get ms m) (Option.bind (hm_get rs q) (\<lambda>ms. hm_get ms m))"
      by (simp add: hm_extend_eq hm.get_extend it map_of_rev_distinct opt_or_def or_default_def
          split: option.split)
    have IH: "?look (foldl ?step rs' kvs) = opt_or (Option.bind (map_of kvs p) (\<lambda>ms. hm_get ms m)) (?look rs')"
      for rs'
    proof (rule Cons.IH)
      show "distinct (map fst kvs)" using Cons.prems(1) by simp
      show "\<And>q ms. (q, ms) \<in> set kvs \<Longrightarrow> hm_wf ms" using Cons.prems(2) by auto
    qed
    have q: "q = p \<Longrightarrow> map_of kvs p = None"
      using Cons.prems(1) kv by (simp add: map_of_eq_None_iff)
    have "?look (?step rs (q, ms)) = (if q = p then opt_or (hm_get ms m) (?look rs) else ?look rs)"
      using ext by (cases "q = p") (simp_all add: hm.get_ins)
    then show ?case using q unfolding kv foldl_Cons IH by (simp add: opt_or_def)
  qed (simp add: opt_or_def)
  have wf: "hm_wf other" using w by (simp add: routes_wf_def)
  note it = hm_iter_wf [OF o wf]
  have "(q, ms) \<in> set (hm_iter order other) \<Longrightarrow> hm_wf ms" for q ms
    using it w by (metis map_of_eq_Some_iff routes_wf_def)
  from gen [OF it(1) this] show ?thesis by (simp add: merge_routes_def it)
qed

text \<open>Two routers conflict when both claim a static route, both claim the same set of URLs of a method
  by patterns, or both carry a fallback of the same kind.\<close>

definition conflicting :: "'f Router \<Rightarrow> 'f Router \<Rightarrow> bool" where
  "conflicting a b \<longleftrightarrow>
     (\<exists>p m. static_handler a p m \<noteq> None \<and> static_handler b p m \<noteq> None) \<or>
     (\<exists>x\<in>set (rt_param_routes a). \<exists>y\<in>set (rt_param_routes b). pr_method x = pr_method y \<and>
        (\<forall>ts. fits (pr_segments x) ts = fits (pr_segments y) ts)) \<or>
     (rt_fallback a \<noteq> None \<and> rt_fallback b \<noteq> None) \<or>
     (rt_options_fallback a \<noteq> None \<and> rt_options_fallback b \<noteq> None)"

lemma valid_equivalent_iff:
  assumes "valid_pattern a" "valid_pattern b"
  shows "segments_equivalent a b \<longleftrightarrow> (\<forall>ts. fits a ts = fits b ts)"
  using assms fits_determine_shape [of a b] equivalent_fits [of a b]
  by (auto simp: valid_pattern_def wild_last_def)

lemma merge_is_ok:
  "is_ok (merge order a b) \<longleftrightarrow>
     static_conflict order (rt_routes a) (hm_iter order (rt_routes b)) = None \<and>
     param_conflict (rt_param_routes a) (rt_param_routes b) = None \<and>
     \<not> (rt_fallback a \<noteq> None \<and> rt_fallback b \<noteq> None) \<and>
     \<not> (rt_options_fallback a \<noteq> None \<and> rt_options_fallback b \<noteq> None)"
  by (cases "static_conflict order (rt_routes a) (hm_iter order (rt_routes b))";
      cases "param_conflict (rt_param_routes a) (rt_param_routes b)")
    (simp_all add: merge_def del: not_None_eq)

text \<open>\<^verbatim>\<open>merge\<close> fails exactly on conflicts: for routers that can be built it succeeds if and only if
  no path and method has a static route in both, no method has patterns for the same set of URLs in
  both, and neither kind of fallback is registered in both.\<close>

theorem merge_conflicts_exact:
  assumes "iteration_order order" "router_built order a" "router_built order b"
  shows "is_ok (merge order a b) \<longleftrightarrow> \<not> conflicting a b"
proof -
  have wf: "router_wf a" "router_wf b" using assms by (auto intro: router_built_wf)
  then have "param_conflict (rt_param_routes a) (rt_param_routes b) = None \<longleftrightarrow>
      (\<forall>y\<in>set (rt_param_routes b). \<forall>x\<in>set (rt_param_routes a). pr_method x = pr_method y \<longrightarrow>
        \<not> (\<forall>ts. fits (pr_segments x) ts = fits (pr_segments y) ts))"
    unfolding param_conflict_None_iff
    by (intro ball_cong refl imp_cong) (simp add: router_wf_def valid_equivalent_iff)
  then have pc: "param_conflict (rt_param_routes a) (rt_param_routes b) = None \<longleftrightarrow>
      \<not> (\<exists>x\<in>set (rt_param_routes a). \<exists>y\<in>set (rt_param_routes b). pr_method x = pr_method y \<and>
        (\<forall>ts. fits (pr_segments x) ts = fits (pr_segments y) ts))"
    by blast
  have "static_conflict order (rt_routes a) (hm_iter order (rt_routes b)) = None \<longleftrightarrow>
      \<not> (\<exists>p m. static_handler a p m \<noteq> None \<and> static_handler b p m \<noteq> None)"
    unfolding static_disjoint [OF assms(1) wf(2)] by (simp only: not_ex de_Morgan_conj not_not)
  then show ?thesis
    unfolding merge_is_ok pc conflicting_def by (simp only: de_Morgan_disj)
qed

theorem merge_conflicts_exact_witness:
  "is_ok (merge rev (route ''GET'' ''/a'' (\<lambda>_ b. response_new 200 b) router_new) (router_new :: unit Router)) \<and>
   \<not> conflicting (route ''GET'' ''/a'' (\<lambda>_ b. response_new 200 b) router_new) (router_new :: unit Router)"
proof -
  let ?a = "route ''GET'' ''/a'' (\<lambda>_ b. response_new 200 b) router_new :: unit Router"
  have "router_built rev ?a" by (intro built_route built_new)
  from merge_conflicts_exact [OF rev_iteration_order this built_new]
  have "is_ok (merge rev ?a router_new) \<longleftrightarrow> \<not> conflicting ?a router_new" .
  moreover have "\<not> conflicting ?a router_new"
    by (simp add: conflicting_def router_new_def static_handler_def)
  ultimately show ?thesis by blast
qed

lemma merge_views:
  assumes "iteration_order order" "router_wf b" "merge order a b = Ok c"
  shows "static_handler c p m = opt_or (static_handler a p m) (static_handler b p m)"
    "param_route c p m = opt_or (param_route a p m) (param_route b p m)"
    "methods_at c p = methods_at a p \<union> methods_at b p"
proof -
  note c = merge_Ok_D [OF assms(3)]
  have d: "static_handler a p m = None \<or> static_handler b p m = None" for p m
    using c(5) by (simp only: static_disjoint [OF assms(1,2)])
  have st: "static_handler c p m = opt_or (static_handler a p m) (static_handler b p m)" for m
    using merge_routes_get [OF assms(1), of "rt_routes b" "rt_routes a" p m] assms(2) d [of p m]
    by (auto simp: static_handler_def c(1) router_wf_def opt_or_def split: option.splits)
  then show "static_handler c p m = opt_or (static_handler a p m) (static_handler b p m)" .
  have "find P (xs @ ys) = opt_or (find P xs) (find P ys)" for P :: "'a ParamRoute \<Rightarrow> bool" and xs ys
    by (induction xs) (auto simp: opt_or_def)
  then show "param_route c p m = opt_or (param_route a p m) (param_route b p m)"
    by (simp add: param_route_def c(2))
  show "methods_at c p = methods_at a p \<union> methods_at b p"
    unfolding methods_at_def st c(2) by (auto simp: opt_or_def split: option.splits)
qed

text \<open>A successful \<^verbatim>\<open>merge\<close> loses no route of either router: a request that the first router
  routes is answered by it unless the second has a static route for it (static routes come first); a
  request that only the second routes is answered by the second; a request that neither routes finds
  the methods of both.\<close>

theorem merge_combines:
  assumes "iteration_order order" "router_built order a" "router_built order b"
    "merge order a b = Ok c"
  shows "dispatch order c head body =
     (case static_handler b (head_path head) (head_method head) of
        Some h \<Rightarrow> h head body
      | None \<Rightarrow> if routed a head body \<noteq> None then dispatch order a head body
          else if routed b head body \<noteq> None then dispatch order b head body
          else unrouted c head body) \<and>
    methods_at c p = methods_at a p \<union> methods_at b p"
proof -
  let ?p = "head_path head" and ?m = "head_method head"
  have wf: "router_wf a" "router_wf b" "router_wf c"
    using assms router_built.intros(9) by (blast intro: router_built_wf)+
  note v = merge_views [OF assms(1) wf(2) assms(4)]
  note d = wf [THEN dispatch_correct [OF assms(1)]]
  have dis: "static_handler a ?p ?m = None \<or> static_handler b ?p ?m = None"
    using merge_Ok_D(5) [OF assms(4)] by (simp only: static_disjoint [OF assms(1) wf(2)])
  show ?thesis
    using dis unfolding d dispatch_spec_def routed_def v
    by (auto simp: opt_or_def split: option.splits)
qed

theorem merge_combines_witness:
  "\<exists>c. merge rev (route ''GET'' ''/a'' (\<lambda>_ b. response_new 200 b) router_new) (router_new :: unit Router) = Ok c \<and>
     dispatch rev c (sample_head ''GET'' ''/a'') ''x'' = Ready (response_new 200 ''x'')"
proof -
  let ?a = "route ''GET'' ''/a'' (\<lambda>_ b. response_new 200 b) router_new :: unit Router"
  let ?h = "sample_head ''GET'' ''/a''"
  have a: "router_built rev ?a" by (intro built_route built_new)
  have "\<not> conflicting ?a router_new" by (simp add: conflicting_def router_new_def static_handler_def)
  have s: "static_handler (router_new :: unit Router) p m = None" for p m
    by (simp add: router_new_def static_handler_def)
  have ha: "static_handler ?a ''/a'' ''GET'' = Some (\<lambda>h b. Ready (response_new 200 b))"
    by (simp add: route_def static_handler_insert)
  have p: "head_path ?h = ''/a''" by (simp add: head_path_def)
  have r: "routed ?a ?h ''x'' = Some (Ready (response_new 200 ''x''))" by (simp add: routed_def p ha)
  have "is_ok (merge rev ?a router_new)"
    by (simp add: merge_is_ok router_new_def hm_iter_def hm_keys_def map_filter_def)
  then obtain c where c: "merge rev ?a router_new = Ok c" by (auto simp: is_ok_def split: sum.splits)
  have "dispatch rev c ?h ''x'' = dispatch rev ?a ?h ''x''"
    using merge_combines [OF rev_iteration_order a built_new c, of ?h "''x''"] by (simp add: s r)
  then show ?thesis using c dispatch_routed [OF r, of rev] by auto
qed

text \<open>Every router that can be built keeps the invariant: one handler per path and method, no
  path with an empty set of methods, and only well-formed patterns among the parameter routes.\<close>

theorem router_invariant:
  assumes "iteration_order order" "router_built order r"
  shows "router_wf r"
  using assms by (rule router_built_wf)

theorem router_invariant_witness:
  "router_wf (route ''GET'' ''/'' (\<lambda>_ b. response_new 200 b)
     (fallback (\<lambda>_ _. response_empty 404) router_new) :: unit Router)"
  by (rule router_invariant [OF rev_iteration_order]) (intro built_route built_fallback built_new)

end
