(* ===== verification/Sample_Heads.thy ===== *)
theory Sample_Heads
  imports Request_Head
begin

text \<open>
  Request heads with given contents, built directly as a buffer and byte ranges. The theorems about
  gates, plugins and the server are instantiated at such heads; the lemmas here give their accessors.
\<close>

fun place_headers :: "nat \<Rightarrow> (bytes \<times> bytes) list \<Rightarrow> (range \<times> range) list" where
  "place_headers i [] = []"
| "place_headers i ((n, v) # hs) =
     ((i, i + length n), (i + length n, i + length n + length v)) #
       place_headers (i + length n + length v) hs"

definition mk_head :: "bytes \<Rightarrow> bytes \<Rightarrow> HttpVersion \<Rightarrow> (bytes \<times> bytes) list \<Rightarrow> RequestHead" where
  "mk_head m t ver hs = \<lparr>rh_buf = m @ t @ concat (map (\<lambda>(n, v). n @ v) hs), rh_method = (0, length m),
     rh_target = (length m, length m + length t), rh_version = ver,
     rh_headers = place_headers (length m + length t) hs, rh_extensions = extensions_new\<rparr>"

lemma slice_placed: "slice (pre @ x @ post) (length pre, length pre + length x) = x"
  by (simp add: slice_def)

lemma placed_headers:
  "map (\<lambda>(k, v). (slice (pre @ concat (map (\<lambda>(n, v). n @ v) hs)) k, slice (pre @ concat (map (\<lambda>(n, v). n @ v) hs)) v))
     (place_headers (length pre) hs) = hs"
proof (induction hs arbitrary: pre)
  case (Cons h hs)
  obtain n v where h: "h = (n, v)" by (cases h)
  have "slice (pre @ n @ v @ concat (map (\<lambda>(n, v). n @ v) hs)) (length pre, length pre + length n) = n"
    using slice_placed [of pre n] by simp
  moreover have "slice (pre @ n @ v @ concat (map (\<lambda>(n, v). n @ v) hs))
      (length pre + length n, length pre + length n + length v) = v"
    using slice_placed [of "pre @ n" v] by (simp add: add.assoc)
  ultimately show ?case
    using Cons.IH [of "pre @ n @ v"] by (simp add: h add.assoc)
qed simp

lemma mk_head_simps [simp]:
  "head_method (mk_head m t ver hs) = m"
  "head_target (mk_head m t ver hs) = t"
  "headers (mk_head m t ver hs) = hs"
  "rh_version (mk_head m t ver hs) = ver"
  "rh_extensions (mk_head m t ver hs) = extensions_new"
proof -
  let ?h = "mk_head m t ver hs"
  show "head_method ?h = m" by (simp add: mk_head_def head_method_def slice_def)
  show "head_target ?h = t" by (simp add: mk_head_def head_target_def slice_def)
  show "headers ?h = hs"
    using placed_headers [of "m @ t" hs] by (simp add: mk_head_def headers_def)
  show "rh_version ?h = ver" "rh_extensions ?h = extensions_new" by (simp_all add: mk_head_def)
qed

lemma header_headers:
  "header h name = map_option snd (find (\<lambda>(n, _). eq_ignore_ascii_case n name) (headers h))"
proof -
  have "map_option (\<lambda>(_, v). slice b v) (find (\<lambda>(k, _). eq_ignore_ascii_case (slice b k) name) hs) =
      map_option snd (find (\<lambda>(n, _). eq_ignore_ascii_case n name) (map (\<lambda>(k, v). (slice b k, slice b v)) hs))"
    for b hs by (induction hs) auto
  then show ?thesis by (simp add: header_def headers_def)
qed

end
