(* ===== verification/Gates.thy ===== *)
theory Gates
  imports Response Sample_Heads
begin

text \<open>
  \<^verbatim>\<open>crates/core/src/extension.rs\<close> and \<^verbatim>\<open>interceptor.rs\<close>: the extension points that a plugin or an application
  implements. A trait object is a record of its methods. An extension may keep internal state and read
  clocks, so every method also takes the moment of the call (\<open>tick\<close>, a path of numbers): two calls with the same arguments
  may answer differently. Peer addresses (\<^verbatim>\<open>SocketAddr\<close>) are a type parameter.
\<close>

datatype GateOutcome = Allow | Reject Response

definition gate_reject :: "nat \<Rightarrow> bytes \<Rightarrow> GateOutcome" where
  "gate_reject status body = Reject (response_new status body)"

record 'a GateContext =
  gc_peer_addr :: "'a option"

definition gate_context_new :: "'a option \<Rightarrow> 'a GateContext" where
  "gate_context_new peer_addr = \<lparr>gc_peer_addr = peer_addr\<rparr>"

definition gate_peer_addr :: "'a GateContext \<Rightarrow> 'a option" where
  "gate_peer_addr ctx = gc_peer_addr ctx"

type_synonym tick = "nat list"

record 'a RequestGate =
  gate_name :: bytes
  gate_check :: "tick \<Rightarrow> RequestHead \<Rightarrow> 'a GateContext \<Rightarrow> RequestExtensions \<Rightarrow> GateOutcome \<times> RequestExtensions"

record UpgradeHandler =
  uh_name :: bytes
  uh_matches :: "RequestHead \<Rightarrow> bool"

record Interceptor =
  ic_name :: bytes
  ic_intercept :: "tick \<Rightarrow> RequestHead \<Rightarrow> bytes \<Rightarrow> Response option"
  ic_map_response :: "tick \<Rightarrow> RequestHead \<Rightarrow> Response \<Rightarrow> Response"

text \<open>The default methods of the trait.\<close>

definition default_intercept :: "tick \<Rightarrow> RequestHead \<Rightarrow> bytes \<Rightarrow> Response option" where
  "default_intercept t head body = None"

definition default_map_response :: "tick \<Rightarrow> RequestHead \<Rightarrow> Response \<Rightarrow> Response" where
  "default_map_response t head response = response"

text \<open>A middleware only observes; it is identified by its name, and its calls are events of the server's
  trace: \<^verbatim>\<open>on_request\<close>, and \<^verbatim>\<open>on_response_with_status\<close> whose default forwards to \<^verbatim>\<open>on_response\<close>.\<close>

type_synonym Middleware = bytes

end
