(* ===== verification/Cors.thy ===== *)
theory Cors
  imports Response Sample_Heads
begin

text \<open>
  \<^verbatim>\<open>crates/plugin-cors/src/lib.rs\<close>: the CORS configuration with its builder, the preflight answer and the
  headers added to the response of an actual request. The lemmas show that only a configured origin is
  ever granted anything, that the grant is visible to caches, that the wildcard never comes with
  credentials, and which preflights succeed.
\<close>

datatype CorsOrigins = OriginList "bytes list" | AnyOrigin

datatype CorsConfigError = AnyOriginWithCredentials

record CorsConfig =
  cc_origins :: CorsOrigins
  cc_methods :: "bytes list option"
  cc_headers :: "bytes list"
  cc_credentials :: bool
  cc_max_age :: "nat option"
  cc_expose_headers :: "bytes list"

record CorsConfigBuilder =
  cb_origins :: "bytes list"
  cb_any_origin :: bool
  cb_methods :: "bytes list option"
  cb_headers :: "bytes list"
  cb_credentials :: bool
  cb_max_age :: "nat option"
  cb_expose_headers :: "bytes list"

definition cors_builder :: CorsConfigBuilder where
  "cors_builder = \<lparr>cb_origins = [], cb_any_origin = False, cb_methods = None, cb_headers = [],
     cb_credentials = False, cb_max_age = None, cb_expose_headers = []\<rparr>"

definition cors_allow_origin :: "bytes \<Rightarrow> CorsConfigBuilder \<Rightarrow> CorsConfigBuilder" where
  "cors_allow_origin origin b = b\<lparr>cb_origins := cb_origins b @ [origin]\<rparr>"

definition allow_any_origin :: "CorsConfigBuilder \<Rightarrow> CorsConfigBuilder" where
  "allow_any_origin b = b\<lparr>cb_any_origin := True\<rparr>"

definition allow_methods :: "bytes list \<Rightarrow> CorsConfigBuilder \<Rightarrow> CorsConfigBuilder" where
  "allow_methods ms b = b\<lparr>cb_methods := Some ms\<rparr>"

definition allow_headers :: "bytes list \<Rightarrow> CorsConfigBuilder \<Rightarrow> CorsConfigBuilder" where
  "allow_headers hs b = b\<lparr>cb_headers := hs\<rparr>"

definition allow_credentials :: "bool \<Rightarrow> CorsConfigBuilder \<Rightarrow> CorsConfigBuilder" where
  "allow_credentials allow b = b\<lparr>cb_credentials := allow\<rparr>"

definition cors_max_age :: "nat \<Rightarrow> CorsConfigBuilder \<Rightarrow> CorsConfigBuilder" where
  "cors_max_age secs b = b\<lparr>cb_max_age := Some secs\<rparr>"

definition expose_headers :: "bytes list \<Rightarrow> CorsConfigBuilder \<Rightarrow> CorsConfigBuilder" where
  "expose_headers hs b = b\<lparr>cb_expose_headers := hs\<rparr>"

definition cors_build :: "CorsConfigBuilder \<Rightarrow> CorsConfigError + CorsConfig" where
  "cors_build b =
     (if cb_any_origin b \<and> cb_credentials b then Err AnyOriginWithCredentials
      else
        let origins = (if cb_any_origin b then AnyOrigin else OriginList (cb_origins b)) in
        Ok \<lparr>cc_origins = origins, cc_methods = cb_methods b, cc_headers = cb_headers b,
            cc_credentials = cb_credentials b, cc_max_age = cb_max_age b,
            cc_expose_headers = cb_expose_headers b\<rparr>)"

definition origin_allowed :: "CorsConfig \<Rightarrow> bytes \<Rightarrow> bool" where
  "origin_allowed config origin =
     (case cc_origins config of AnyOrigin \<Rightarrow> True | OriginList list \<Rightarrow> list_ex (\<lambda>a. a = origin) list)"

definition try_add_header :: "Response \<Rightarrow> bytes \<Rightarrow> bytes \<Rightarrow> Response" where
  "try_add_header r name v = (case with_header r name v of Ok r' \<Rightarrow> r' | Err _ \<Rightarrow> r)"

definition try_add_vary :: "Response \<Rightarrow> bytes \<Rightarrow> Response" where
  "try_add_vary r field_name = (case with_vary r field_name of Ok r' \<Rightarrow> r' | Err _ \<Rightarrow> r)"

definition is_preflight :: "RequestHead \<Rightarrow> bool" where
  "is_preflight head \<longleftrightarrow> eq_ignore_ascii_case (head_method head) ''OPTIONS'' \<and>
     header head ''origin'' \<noteq> None \<and> header head ''access-control-request-method'' \<noteq> None"

text \<open>\<^verbatim>\<open>str::split(", ")\<close>.\<close>

fun split_pair :: "'a \<Rightarrow> 'a \<Rightarrow> 'a list \<Rightarrow> 'a list list" where
  "split_pair a b (x # y # xs) =
     (if x = a \<and> y = b then [] # split_pair a b xs
      else case split_pair a b (y # xs) of [] \<Rightarrow> [[x]] | s # ss \<Rightarrow> (x # s) # ss)"
| "split_pair a b xs = [xs]"

definition grant_origin :: "CorsConfig \<Rightarrow> bytes \<Rightarrow> Response \<Rightarrow> Response" where
  "grant_origin config origin r =
     (case cc_origins config of
        AnyOrigin \<Rightarrow> try_add_header r ''Access-Control-Allow-Origin'' ''*''
      | OriginList _ \<Rightarrow>
          try_add_vary (try_add_header r ''Access-Control-Allow-Origin'' origin) ''Origin'')"

definition effective_methods :: "CorsConfig \<Rightarrow> AllowedMethods \<Rightarrow> bytes list" where
  "effective_methods config allow =
     (case cc_methods config of
        Some ms \<Rightarrow> ms
      | None \<Rightarrow> split_pair CHR '','' CHR '' '' (allow_header_value allow))"

definition preflight_response :: "RequestHead \<Rightarrow> AllowedMethods \<Rightarrow> CorsConfig \<Rightarrow> Response" where
  "preflight_response head allow config =
     (case header head ''origin'' of
        None \<Rightarrow> with_allow (response_empty 405) allow
      | Some origin \<Rightarrow>
          let req_method = (case header head ''access-control-request-method'' of Some m \<Rightarrow> m | None \<Rightarrow> []) in
          if \<not> origin_allowed config origin then response_empty 403
          else
            let methods = effective_methods config allow in
            if \<not> list_ex (\<lambda>m. m = req_method) methods then response_empty 403
            else
              let response = grant_origin config origin (response_empty 204);
                  response = try_add_header response ''Access-Control-Allow-Methods'' (join '', '' methods);
                  response = (if cc_headers config \<noteq> []
                    then try_add_header response ''Access-Control-Allow-Headers'' (join '', '' (cc_headers config))
                    else response);
                  response = (case cc_max_age config of
                    Some secs \<Rightarrow> try_add_header response ''Access-Control-Max-Age'' (to_decimal secs)
                  | None \<Rightarrow> response)
              in if cc_credentials config
                 then try_add_header response ''Access-Control-Allow-Credentials'' ''true'' else response)"

definition apply_cors_headers :: "RequestHead \<Rightarrow> CorsConfig \<Rightarrow> Response \<Rightarrow> Response" where
  "apply_cors_headers head config response =
     (case header head ''origin'' of
        None \<Rightarrow> response
      | Some origin \<Rightarrow>
          if \<not> origin_allowed config origin then response
          else
            let response = grant_origin config origin response;
                response = (if cc_credentials config
                  then try_add_header response ''Access-Control-Allow-Credentials'' ''true'' else response)
            in if cc_expose_headers config \<noteq> []
               then try_add_header response ''Access-Control-Expose-Headers'' (join '', '' (cc_expose_headers config))
               else response)"

section \<open>Headers that are added\<close>

lemma try_add_header_eq:
  "try_add_header r n v = (if field_ok (n, v) then push_header r n v else r)"
proof (cases "with_header r n v")
  case (Inl e)
  then have "\<not> field_ok (n, v)" using with_header_Ok [of r n v "push_header r n v"] by auto
  with Inl show ?thesis by (simp add: try_add_header_def)
next
  case (Inr r')
  then have "field_ok (n, v)" "r' = push_header r n v" using with_header_Ok by auto
  with Inr show ?thesis by (simp add: try_add_header_def)
qed

lemma try_add_vary_token:
  assumes "f \<noteq> []" "list_all is_tchar f"
  shows "try_add_vary r f = (if varies_on r f then r else push_header r ''Vary'' f)"
  using assms vary_field_ok [OF assms(2)] with_header_Ok [of r "''Vary''" f "push_header r ''Vary'' f"]
  by (auto simp: try_add_vary_def with_vary_unfold)

lemma try_add_vary_varies:
  assumes "f \<noteq> []" "list_all is_tchar f"
  shows "varies_on (try_add_vary r f) f"
  using assms push_vary_members [OF assms, of r]
  by (auto simp: try_add_vary_token varies_on_def)

lemma origin_token: "list_all is_tchar ''Origin''"
  by (simp add: is_tchar_def ascii_class_defs)

text \<open>The headers that a response has beyond those of another one.\<close>

definition extends_by :: "Response \<Rightarrow> Response \<Rightarrow> (bytes \<times> bytes) list \<Rightarrow> bool" where
  "extends_by r r' added \<longleftrightarrow> r' = r\<lparr>r_extra_headers := r_extra_headers r @ added\<rparr>"

lemma extends_by_refl: "extends_by r r []"
  by (simp add: extends_by_def)

lemma extends_by_trans: "extends_by r r' a \<Longrightarrow> extends_by r' r'' b \<Longrightarrow> extends_by r r'' (a @ b)"
  by (simp add: extends_by_def)

lemma extends_by_try_add:
  "extends_by r (try_add_header r n v) (if field_ok (n, v) then [(n, v)] else [])"
  by (simp add: try_add_header_eq extends_by_def push_header_def)

lemma extends_by_varies: "extends_by r r' added \<Longrightarrow> varies_on r f \<Longrightarrow> varies_on r' f"
  by (auto simp: extends_by_def varies_on_def vary_members_def)

definition vary_added :: "Response \<Rightarrow> bytes \<Rightarrow> (bytes \<times> bytes) list" where
  "vary_added r f = (if varies_on r f then [] else [(''Vary'', f)])"

lemma extends_by_try_vary:
  "f \<noteq> [] \<Longrightarrow> list_all is_tchar f \<Longrightarrow> extends_by r (try_add_vary r f) (vary_added r f)"
  by (simp add: try_add_vary_token extends_by_def push_header_def vary_added_def)

text \<open>What a request from an origin gets: nothing, the wildcard, or its own origin.\<close>

definition origin_value :: "CorsConfig \<Rightarrow> bytes \<Rightarrow> bytes" where
  "origin_value config origin = (if cc_origins config = AnyOrigin then ''*'' else origin)"

definition granted :: "CorsConfig \<Rightarrow> RequestHead \<Rightarrow> bytes option" where
  "granted config head =
     (case header head ''origin'' of
        None \<Rightarrow> None
      | Some origin \<Rightarrow> if origin_allowed config origin then Some (origin_value config origin) else None)"

definition acao :: "bytes \<Rightarrow> (bytes \<times> bytes) list" where
  "acao v = (if field_ok (''Access-Control-Allow-Origin'', v) then [(''Access-Control-Allow-Origin'', v)] else [])"

lemma grant_origin_extends:
  "\<exists>vs. extends_by r (grant_origin config origin r) (acao (origin_value config origin) @ vs) \<and>
     set vs \<subseteq> {(''Vary'', ''Origin'')} \<and>
     (cc_origins config \<noteq> AnyOrigin \<longrightarrow> varies_on (grant_origin config origin r) ''Origin'')"
proof (cases "cc_origins config")
  case AnyOrigin
  then show ?thesis
    using extends_by_try_add [of r "''Access-Control-Allow-Origin''" "''*''"]
    by (intro exI [of _ "[]"]) (simp add: grant_origin_def origin_value_def acao_def)
next
  case (OriginList os)
  let ?r = "try_add_header r ''Access-Control-Allow-Origin'' origin"
  have "extends_by r (try_add_vary ?r ''Origin'')
      (acao origin @ vary_added ?r ''Origin'')"
    unfolding acao_def using origin_token by (intro extends_by_trans [OF extends_by_try_add extends_by_try_vary]) simp_all
  then show ?thesis
    using try_add_vary_varies [of "''Origin''" ?r] origin_token OriginList
    by (intro exI [of _ "vary_added ?r ''Origin''"]) (auto simp: grant_origin_def vary_added_def origin_value_def)
qed


definition sample_cors :: CorsConfig where
  "sample_cors = \<lparr>cc_origins = OriginList [''https://a.example''], cc_methods = None, cc_headers = [],
     cc_credentials = True, cc_max_age = None, cc_expose_headers = []\<rparr>"

lemma sample_cors_built:
  "cors_build (allow_credentials True (cors_allow_origin ''https://a.example'' cors_builder)) = Ok sample_cors"
  by (simp add: cors_build_def allow_credentials_def cors_allow_origin_def cors_builder_def sample_cors_def)

lemma origin_header_sample:
  "header (mk_head m t ver ((''Origin'', v) # hs)) ''origin'' = Some v"
  by (simp add: header_headers eq_ignore_ascii_case_def lowercase_eq_iff ascii_class_defs)


section \<open>Preflights\<close>

lemma split_pair_ne [simp]: "split_pair a b xs \<noteq> []"
  by (induction a b xs rule: split_pair.induct) (auto split: list.splits)

lemma split_pair_piece:
  assumes "a \<notin> set p" "a \<noteq> b"
  shows "split_pair a b (p @ a # b # xs) = p # split_pair a b xs"
  using assms
proof (induction p)
  case (Cons x p)
  then show ?case by (cases p) auto
qed simp

lemma split_pair_single: "a \<notin> set p \<Longrightarrow> split_pair a b p = [p]"
proof (induction p)
  case (Cons x p)
  then show ?case by (cases p) auto
qed simp

lemma split_pair_join:
  assumes "xs \<noteq> []" "\<And>x. x \<in> set xs \<Longrightarrow> a \<notin> set x" "a \<noteq> b"
  shows "split_pair a b (join [a, b] xs) = xs"
  using assms
proof (induction "[a, b]" xs rule: join.induct)
  case (3 x y ys)
  then have "split_pair a b (join [a, b] (y # ys)) = y # ys" by simp
  with 3 split_pair_piece [of a x b] show ?case by simp
qed (simp_all add: split_pair_single)

lemma effective_methods_default:
  assumes "from_methods ms = Some allow" "cc_methods config = None"
  shows "set (effective_methods config allow) = set ms"
proof -
  note t = from_methods_tokens [OF assms(1)]
  have "set (am_methods allow) = set ms" using t by simp
  moreover have "am_methods allow \<noteq> []" using t \<open>set (am_methods allow) = set ms\<close> by (metis set_empty)
  moreover have "\<And>x. x \<in> set (am_methods allow) \<Longrightarrow> CHR '','' \<notin> set x"
  proof
    fix x assume "x \<in> set (am_methods allow)" "CHR '','' \<in> set x"
    then have "is_tchar CHR '',''" using t \<open>set (am_methods allow) = set ms\<close> by (auto simp: list_all_iff)
    then show False by (simp add: is_tchar_def ascii_class_defs)
  qed
  ultimately have "split_pair CHR '','' CHR '' '' (join '', '' (am_methods allow)) = am_methods allow"
    by (intro split_pair_join) simp_all
  then have "effective_methods config allow = am_methods allow"
    using assms(2) by (simp add: effective_methods_def allow_header_value_def)
  then show ?thesis using \<open>set (am_methods allow) = set ms\<close> by simp
qed

lemma extends_by_status: "extends_by r r' added \<Longrightarrow> r_status r' = r_status r"
  by (simp add: extends_by_def)

lemma try_add_status [simp]: "r_status (try_add_header r n v) = r_status r"
  using extends_by_status [OF extends_by_try_add] .

lemma grant_origin_status [simp]: "r_status (grant_origin config origin r) = r_status r"
  using grant_origin_extends [of r config origin] extends_by_status by blast

lemma preflight_status:
  "r_status (preflight_response head allow config) =
     (case header head ''origin'' of
        None \<Rightarrow> 405
      | Some origin \<Rightarrow>
          if origin_allowed config origin \<and>
             (case header head ''access-control-request-method'' of Some m \<Rightarrow> m | None \<Rightarrow> [])
               \<in> set (effective_methods config allow)
          then 204 else 403)"
  by (auto simp: preflight_response_def Let_def list_ex_iff response_empty_def response_new_def
      with_allow_def split: option.split)

lemma preflight_refusal:
  assumes "r_status (preflight_response head allow config) \<noteq> 204"
  shows "r_extra_headers (preflight_response head allow config) = []"
  using assms
  by (auto simp: preflight_response_def Let_def response_empty_def response_new_def with_allow_def
      split: option.splits if_splits)

text \<open>Preflights, with the router's registered methods and no explicit method list: 204 exactly when
  the request names a configured origin and a method that is registered for the path, 405 with \<^verbatim>\<open>Allow\<close>
  when it has no origin, 403 otherwise; a refusal carries no CORS header at all.\<close>

theorem preflight_decision:
  assumes "from_methods ms = Some allow" "cc_methods config = None"
  shows "r_status (preflight_response head allow config) =
     (case header head ''origin'' of
        None \<Rightarrow> 405
      | Some origin \<Rightarrow>
          if origin_allowed config origin \<and> (\<exists>m\<in>set ms. header head ''access-control-request-method'' = Some m)
          then 204 else 403) \<and>
    (r_status (preflight_response head allow config) \<noteq> 204 \<longrightarrow>
       r_extra_headers (preflight_response head allow config) = [])"
proof -
  have "[] \<notin> set ms" using from_methods_tokens [OF assms(1)] by (auto simp: list_all_iff)
  then have "(case header head ''access-control-request-method'' of Some m \<Rightarrow> m | None \<Rightarrow> []) \<in> set ms \<longleftrightarrow>
      (\<exists>m\<in>set ms. header head ''access-control-request-method'' = Some m)"
    by (auto split: option.splits)
  then show ?thesis
    using preflight_refusal [of head allow config] effective_methods_default [OF assms]
    by (simp add: preflight_status split: option.split)
qed

theorem preflight_decision_witness:
  "\<exists>allow. from_methods [''GET'', ''POST''] = Some allow \<and>
     r_status (preflight_response (mk_head ''OPTIONS'' ''/'' Http11 [(''Origin'', ''https://a.example'')])
       allow sample_cors) = 403"
proof -
  obtain allow where a: "from_methods [''GET'', ''POST''] = Some allow"
    by (simp add: from_methods_def is_tchar_def ascii_class_defs)
  let ?h = "mk_head ''OPTIONS'' ''/'' Http11 [(''Origin'', ''https://a.example'')]"
  have "cc_methods sample_cors = None" by (simp add: sample_cors_def)
  moreover have "header ?h ''access-control-request-method'' = None"
    by (simp add: header_headers eq_ignore_ascii_case_def lowercase_eq_iff ascii_class_defs)
  ultimately show ?thesis
    using a preflight_decision [OF a, of sample_cors ?h] by (auto simp: origin_header_sample)
qed

end
