(* ===== verification/Compression.thy ===== *)
theory Compression
  imports Cors Body_Framing
begin

text \<open>
  \<^verbatim>\<open>crates/plugin-compression/src/lib.rs\<close>: the configuration, the negotiation of \<^verbatim>\<open>Accept-Encoding\<close>, the
  decision to compress and the replacement of the body. The gzip encoder is the crate \<^verbatim>\<open>flate2\<close> and is a
  parameter: \<open>gz\<close> for a whole body (\<open>None\<close> when it reports an error), and a record of three functions for
  a stream. What the results rely on is that decoding gives back the input.
\<close>

section \<open>Configuration\<close>

definition DEFAULT_COMPRESSIBLE_TYPES :: "bytes list" where
  "DEFAULT_COMPRESSIBLE_TYPES =
     [''text/'', ''application/json'', ''application/javascript'', ''application/xml'',
      ''application/xhtml+xml'', ''image/svg+xml'']"

definition DEFAULT_MIN_SIZE :: nat where "DEFAULT_MIN_SIZE = 1024"
definition DEFAULT_BLOCKING_THRESHOLD :: nat where "DEFAULT_BLOCKING_THRESHOLD = 64 * 1024"

record CompressionConfig =
  gz_min_size :: nat
  gz_compressible_types :: "bytes list"
  gz_compress_streaming :: bool
  gz_blocking_threshold :: nat

record CompressionConfigBuilder =
  gzb_min_size :: nat
  gzb_compressible_types :: "bytes list"
  gzb_compress_streaming :: bool
  gzb_blocking_threshold :: nat

definition compression_builder :: CompressionConfigBuilder where
  "compression_builder = \<lparr>gzb_min_size = DEFAULT_MIN_SIZE,
     gzb_compressible_types = map (map to_ascii_lowercase) DEFAULT_COMPRESSIBLE_TYPES,
     gzb_compress_streaming = False, gzb_blocking_threshold = DEFAULT_BLOCKING_THRESHOLD\<rparr>"

definition min_size :: "nat \<Rightarrow> CompressionConfigBuilder \<Rightarrow> CompressionConfigBuilder" where
  "min_size n b = b\<lparr>gzb_min_size := n\<rparr>"

definition compressible_types :: "bytes list \<Rightarrow> CompressionConfigBuilder \<Rightarrow> CompressionConfigBuilder" where
  "compressible_types types b = b\<lparr>gzb_compressible_types := map (map to_ascii_lowercase) types\<rparr>"

definition add_compressible_type :: "bytes \<Rightarrow> CompressionConfigBuilder \<Rightarrow> CompressionConfigBuilder" where
  "add_compressible_type content_type b =
     b\<lparr>gzb_compressible_types := gzb_compressible_types b @ [map to_ascii_lowercase content_type]\<rparr>"

definition compress_streaming :: "bool \<Rightarrow> CompressionConfigBuilder \<Rightarrow> CompressionConfigBuilder" where
  "compress_streaming enabled b = b\<lparr>gzb_compress_streaming := enabled\<rparr>"

definition blocking_threshold :: "nat \<Rightarrow> CompressionConfigBuilder \<Rightarrow> CompressionConfigBuilder" where
  "blocking_threshold n b = b\<lparr>gzb_blocking_threshold := n\<rparr>"

definition compression_build :: "CompressionConfigBuilder \<Rightarrow> CompressionConfig" where
  "compression_build b = \<lparr>gz_min_size = gzb_min_size b, gz_compressible_types = gzb_compressible_types b,
     gz_compress_streaming = gzb_compress_streaming b, gz_blocking_threshold = gzb_blocking_threshold b\<rparr>"

definition matches_content_type :: "CompressionConfig \<Rightarrow> bytes \<Rightarrow> bool" where
  "matches_content_type config content_type =
     (let essence = map to_ascii_lowercase (str_trim (hd (split_on CHR '';'' content_type))) in
      if essence = [] then False
      else list_ex (\<lambda>pattern.
        case strip_suffix ''/'' pattern of
          Some pre \<Rightarrow> starts_with (pre @ ''/'') essence
        | None \<Rightarrow> essence = pattern) (gz_compressible_types config))"

section \<open>Quality values\<close>

text \<open>\<^verbatim>\<open>str::parse::<f32>\<close>, as far as the caller looks at the result: whether it lies between 0 and 1, and whether
  it is positive. A number is an optional sign, digits with at most one point and at least one digit, and
  an optional exponent (infinities and NaN parse too, and are out of range). The decimal value
  \<open>m * 10 ^ e\<close> is rounded to the nearest single-precision number: it becomes at most one when it is at most
  \<open>1 + 2 ^ -24\<close>, and zero when it is at most \<open>2 ^ -150\<close> (both bounds are ties, broken to even); a negative
  number is in range when it rounds to negative zero.\<close>

definition read_digits :: "bytes \<Rightarrow> bytes \<times> bytes" where
  "read_digits s = (takeWhile is_ascii_digit s, dropWhile is_ascii_digit s)"

definition read_sign :: "bytes \<Rightarrow> bool \<times> bytes" where
  "read_sign s =
     (case s of c # r \<Rightarrow> if c = CHR ''-'' then (True, r) else if c = CHR ''+'' then (False, r) else (False, s)
      | [] \<Rightarrow> (False, s))"

definition read_exponent :: "bytes \<Rightarrow> int option" where
  "read_exponent s =
     (case s of
        [] \<Rightarrow> Some 0
      | c # r \<Rightarrow>
          if c = CHR ''e'' \<or> c = CHR ''E'' then
            (case read_sign r of (neg, ds) \<Rightarrow>
               if ds = [] \<or> \<not> list_all is_ascii_digit ds then None
               else Some (if neg then - int (radix_val 10 ds) else int (radix_val 10 ds)))
          else None)"

definition read_mantissa :: "bytes \<Rightarrow> (nat \<times> nat \<times> bytes) option" where
  "read_mantissa s =
     (case read_digits s of (whole, r) \<Rightarrow>
        case (case strip_prefix ''.'' r of Some r' \<Rightarrow> read_digits r' | None \<Rightarrow> ([], r)) of (frac, r'') \<Rightarrow>
          if whole = [] \<and> frac = [] then None
          else Some (radix_val 10 (whole @ frac), length frac, r''))"

definition rounds_to_at_most_one :: "nat \<Rightarrow> nat \<Rightarrow> bool" where
  "rounds_to_at_most_one num den \<longleftrightarrow> num * 2 ^ 24 \<le> (2 ^ 24 + 1) * den"

definition rounds_to_zero :: "nat \<Rightarrow> nat \<Rightarrow> bool" where
  "rounds_to_zero num den \<longleftrightarrow> num * 2 ^ 150 \<le> den"

text \<open>\<open>None\<close> when the text is no number or out of range, otherwise whether the number is positive.\<close>

definition parse_quality :: "bytes \<Rightarrow> bool option" where
  "parse_quality s =
     (case read_sign s of (neg, r) \<Rightarrow>
        case read_mantissa r of
          None \<Rightarrow> None
        | Some (m, k, rest) \<Rightarrow>
            (case read_exponent rest of
               None \<Rightarrow> None
             | Some e \<Rightarrow>
                 let num = m * 10 ^ nat (e - int k); den = 10 ^ nat (int k - e) in
                 if rounds_to_zero num den then Some False
                 else if neg \<or> \<not> rounds_to_at_most_one num den then None
                 else Some True))"

section \<open>Negotiation\<close>

definition quality_param :: "bytes \<Rightarrow> bytes option" where
  "quality_param param =
     (case strip_prefix ''q='' param of Some raw \<Rightarrow> Some raw | None \<Rightarrow> strip_prefix ''Q='' param)"

fun param_loop :: "bytes list \<Rightarrow> bool \<Rightarrow> bool \<Rightarrow> bool \<times> bool" where
  "param_loop [] q valid = (q, valid)"
| "param_loop (param # parts) q valid =
     (case quality_param (str_trim param) of
        None \<Rightarrow> param_loop parts q valid
      | Some raw \<Rightarrow>
          (case parse_quality (str_trim raw) of
             Some v \<Rightarrow> param_loop parts v valid
           | None \<Rightarrow> param_loop parts q False))"

type_synonym accept_state = "bool option \<times> bool option"

definition accept_token :: "bytes \<Rightarrow> accept_state \<Rightarrow> accept_state" where
  "accept_token token st =
     (let parts = split_on CHR '';'' token; coding = str_trim (hd parts) in
      if coding = [] then st
      else case param_loop (tl parts) True True of (q, valid) \<Rightarrow>
        if \<not> valid then st
        else if eq_ignore_ascii_case coding ''gzip'' \<or> eq_ignore_ascii_case coding ''x-gzip'' then (Some q, snd st)
        else if coding = ''*'' then (fst st, Some q)
        else st)"

definition accept_field :: "bytes \<times> bytes \<Rightarrow> accept_state \<Rightarrow> accept_state" where
  "accept_field field st =
     (case field of (name, val) \<Rightarrow>
        if \<not> eq_ignore_ascii_case name ''accept-encoding'' then st
        else fold accept_token (split_on CHR '','' val) st)"

definition accepts_gzip :: "RequestHead \<Rightarrow> bool" where
  "accepts_gzip head =
     (case fold accept_field (headers head) (None, None) of (gzip_q, star_q) \<Rightarrow>
        case gzip_q of Some q \<Rightarrow> q | None \<Rightarrow> (case star_q of Some q \<Rightarrow> q | None \<Rightarrow> False))"

section \<open>Compressing a response\<close>

definition compression_try_add_header :: "Response \<Rightarrow> bytes \<Rightarrow> bytes \<Rightarrow> Response" where
  "compression_try_add_header r name v = (case with_header r name v of Ok r' \<Rightarrow> r' | Err _ \<Rightarrow> r)"

definition compression_try_add_vary :: "Response \<Rightarrow> bytes \<Rightarrow> Response" where
  "compression_try_add_vary r field_name = (case with_vary r field_name of Ok r' \<Rightarrow> r' | Err _ \<Rightarrow> r)"

definition compress_body :: "(bytes \<Rightarrow> bytes option) \<Rightarrow> bytes \<Rightarrow> bytes" where
  "compress_body gz data = (case gz data of None \<Rightarrow> [] | Some z \<Rightarrow> z)"

datatype CompressionPlan = SkipCompression Response | DoCompress Response

definition content_type_ok :: "CompressionConfig \<Rightarrow> Response \<Rightarrow> bool" where
  "content_type_ok config r =
     (case response_header r ''content-type'' of Some ct \<Rightarrow> matches_content_type config ct | None \<Rightarrow> False)"

definition plan_compression :: "RequestHead \<Rightarrow> CompressionConfig \<Rightarrow> Response \<Rightarrow> CompressionPlan" where
  "plan_compression head config response =
     (if r_status response = 204 \<or> \<not> (200 \<le> r_status response \<and> r_status response < 300)
      then SkipCompression response
      else
        let size_ok = length (r_body response) \<ge> gz_min_size config in
        if \<not> (content_type_ok config response \<and> size_ok) then SkipCompression response
        else
          let response = compression_try_add_vary response ''Accept-Encoding'' in
          if response_header response ''content-encoding'' \<noteq> None then SkipCompression response
          else if \<not> accepts_gzip head then SkipCompression response
          else DoCompress response)"

definition attach_compressed :: "Response \<Rightarrow> bytes \<Rightarrow> Response" where
  "attach_compressed response compressed =
     (if compressed = [] \<or> length compressed \<ge> length (r_body response) then response
      else (compression_try_add_header response ''Content-Encoding'' ''gzip'')\<lparr>r_body := compressed\<rparr>)"

definition apply_compression ::
  "(bytes \<Rightarrow> bytes option) \<Rightarrow> RequestHead \<Rightarrow> CompressionConfig \<Rightarrow> Response \<Rightarrow> Response" where
  "apply_compression gz head config response =
     (case plan_compression head config response of
        SkipCompression response \<Rightarrow> response
      | DoCompress response \<Rightarrow> attach_compressed response (compress_body gz (r_body response)))"

subsection \<open>Streams\<close>

text \<open>The functions of \<^verbatim>\<open>flate2::write::GzEncoder\<close>: a new encoder, writing data and flushing (with the bytes that
  the flush makes available), and finishing.\<close>

record 'z GzEncoder =
  gze_new :: 'z
  gze_write_flush :: "bytes \<Rightarrow> 'z \<Rightarrow> (bytes \<times> 'z) option"
  gze_finish :: "'z \<Rightarrow> bytes option"

definition gzip_encode_chunk :: "'z GzEncoder \<Rightarrow> bytes \<Rightarrow> 'z \<Rightarrow> (bytes \<times> 'z) option" where
  "gzip_encode_chunk E data z = (if data = [] then Some ([], z) else gze_write_flush E data z)"

definition gzip_finish :: "'z GzEncoder \<Rightarrow> 'z \<Rightarrow> bytes option" where
  "gzip_finish E z = gze_finish E z"

definition begin_streaming_compression ::
  "'z GzEncoder \<Rightarrow> RequestHead \<Rightarrow> CompressionConfig \<Rightarrow> Response \<Rightarrow> Response \<times> 'z option" where
  "begin_streaming_compression E head config response =
     (if \<not> gz_compress_streaming config then (response, None)
      else if \<not> (200 \<le> r_status response \<and> r_status response < 300) \<or> is_bodyless_status (r_status response)
      then (response, None)
      else if \<not> content_type_ok config response then (response, None)
      else
        let response = compression_try_add_vary response ''Accept-Encoding'' in
        if response_header response ''content-encoding'' \<noteq> None then (response, None)
        else if \<not> accepts_gzip head then (response, None)
        else (compression_try_add_header response ''Content-Encoding'' ''gzip'', Some (gze_new E)))"

section \<open>The negotiation as a decision on a list\<close>

text \<open>The quality values of a list of parameters, and what they say together: nothing when one of them is
  invalid, the last one otherwise, and acceptance when there is none.\<close>

definition qualities :: "bytes list \<Rightarrow> bool option list" where
  "qualities ps = map (\<lambda>raw. parse_quality (str_trim raw)) (List.map_filter (\<lambda>p. quality_param (str_trim p)) ps)"

definition token_quality :: "bytes list \<Rightarrow> bool option" where
  "token_quality ps = (if None \<in> set (qualities ps) then None else last (Some True # qualities ps))"

definition coding_entry :: "bytes \<Rightarrow> (bytes \<times> bool) option" where
  "coding_entry token =
     (let parts = split_on CHR '';'' token in
      if str_trim (hd parts) = [] then None
      else map_option (Pair (str_trim (hd parts))) (token_quality (tl parts)))"

definition codings :: "RequestHead \<Rightarrow> (bytes \<times> bool) list" where
  "codings head =
     List.map_filter coding_entry (concat (map (split_on CHR '','') (header_values head ''accept-encoding'')))"

definition names_gzip :: "bytes \<Rightarrow> bool" where
  "names_gzip c \<longleftrightarrow> eq_ignore_ascii_case c ''gzip'' \<or> eq_ignore_ascii_case c ''x-gzip''"

definition preference :: "(bytes \<Rightarrow> bool) \<Rightarrow> (bytes \<times> bool) list \<Rightarrow> bool option" where
  "preference P es =
     (let fs = filter (\<lambda>(c, _). P c) es in if fs = [] then None else Some (snd (last fs)))"

lemma map_filter_Cons_simps:
  "List.map_filter f (x # xs) = (case f x of None \<Rightarrow> List.map_filter f xs | Some y \<Rightarrow> y # List.map_filter f xs)"
  "List.map_filter f [] = []"
  by (simp_all add: List.map_filter_def split: option.split)

lemma map_filter_app: "List.map_filter f (xs @ ys) = List.map_filter f xs @ List.map_filter f ys"
  by (simp add: List.map_filter_def)

lemma qualities_Cons:
  "qualities (p # ps) =
     (case quality_param (str_trim p) of None \<Rightarrow> [] | Some raw \<Rightarrow> [parse_quality (str_trim raw)]) @ qualities ps"
  by (simp add: qualities_def map_filter_Cons_simps split: option.split)

lemma param_loop_invalid: "\<not> snd (param_loop ps q False)"
  by (induction ps arbitrary: q) (auto split: option.split)

lemma param_loop_quality:
  "(if snd (param_loop ps q True) then Some (fst (param_loop ps q True)) else None) =
     (if None \<in> set (qualities ps) then None else last (Some q # qualities ps))"
proof (induction ps arbitrary: q)
  case Nil
  then show ?case by (simp add: qualities_def map_filter_Cons_simps)
next
  case (Cons p ps)
  show ?case
  proof (cases "quality_param (str_trim p)")
    case None
    then have "param_loop (p # ps) q True = param_loop ps q True" "qualities (p # ps) = qualities ps"
      by (simp_all add: qualities_Cons)
    with Cons.IH [of q] show ?thesis by (simp only:)
  next
    case (Some raw)
    show ?thesis
    proof (cases "parse_quality (str_trim raw)")
      case None
      with Some param_loop_invalid [of ps q] show ?thesis by (simp add: qualities_Cons)
    next
      case v: (Some v)
      with Some have "param_loop (p # ps) q True = param_loop ps v True"
        "None \<in> set (qualities (p # ps)) \<longleftrightarrow> None \<in> set (qualities ps)"
        "last (Some q # qualities (p # ps)) = last (Some v # qualities ps)"
        by (simp_all add: qualities_Cons)
      with Cons.IH [of v] show ?thesis by (simp only:)
    qed
  qed
qed

lemma accept_token_entry:
  "accept_token token (g, s) =
     (case coding_entry token of
        None \<Rightarrow> (g, s)
      | Some (c, q) \<Rightarrow> if names_gzip c then (Some q, s) else if c = ''*'' then (g, Some q) else (g, s))"
proof -
  obtain q valid where p: "param_loop (tl (split_on CHR '';'' token)) True True = (q, valid)" by fastforce
  then have "token_quality (tl (split_on CHR '';'' token)) = (if valid then Some q else None)"
    using param_loop_quality [of "tl (split_on CHR '';'' token)" True] by (simp only: token_quality_def fst_conv snd_conv)
  with p show ?thesis
    by (cases valid) (simp_all add: accept_token_def coding_entry_def names_gzip_def Let_def)
qed

lemma preference_snoc:
  "preference P (es @ [(c, q)]) = (if P c then Some q else preference P es)"
  by (simp add: preference_def)

definition star :: "bytes \<Rightarrow> bool" where
  "star c \<longleftrightarrow> \<not> names_gzip c \<and> c = ''*''"

lemma star_iff: "star c \<longleftrightarrow> c = ''*''"
  by (auto simp: star_def names_gzip_def eq_ignore_ascii_case_def)

lemma fold_accept_token:
  "fold accept_token ts (preference names_gzip es, preference star es) =
     (preference names_gzip (es @ List.map_filter coding_entry ts), preference star (es @ List.map_filter coding_entry ts))"
proof (induction ts arbitrary: es)
  case (Cons t ts)
  show ?case
  proof (cases "coding_entry t")
    case None
    with Cons.IH [of es] show ?thesis by (simp add: accept_token_entry map_filter_Cons_simps)
  next
    case (Some cq)
    obtain c q where cq: "cq = (c, q)" by (cases cq)
    have "accept_token t (preference names_gzip es, preference star es) =
        (preference names_gzip (es @ [(c, q)]), preference star (es @ [(c, q)]))"
      unfolding preference_snoc accept_token_entry Some cq by (simp add: star_def)
    with Cons.IH [of "es @ [(c, q)]"] Some cq show ?thesis by (simp add: map_filter_Cons_simps)
  qed
qed (simp add: map_filter_Cons_simps)

lemma fold_accept_field:
  "fold accept_field hs (preference names_gzip es, preference star es) =
     (let es' = es @ List.map_filter coding_entry (concat (map (split_on CHR '','')
        (map snd (filter (\<lambda>(n, _). eq_ignore_ascii_case n ''accept-encoding'') hs))))
      in (preference names_gzip es', preference star es'))"
proof (induction hs arbitrary: es)
  case (Cons h hs)
  obtain n v where h: "h = (n, v)" by (cases h)
  show ?case
  proof (cases "eq_ignore_ascii_case n ''accept-encoding''")
    case True
    with Cons.IH [of "es @ List.map_filter coding_entry (split_on CHR '','' v)"] show ?thesis
      by (simp add: h accept_field_def fold_accept_token map_filter_app Let_def)
  next
    case False
    with Cons.IH [of es] show ?thesis by (simp add: h accept_field_def Let_def)
  qed
qed (simp add: map_filter_Cons_simps)

lemma accepts_gzip_codings:
  "accepts_gzip head \<longleftrightarrow>
     (case preference names_gzip (codings head) of Some q \<Rightarrow> q | None \<Rightarrow> preference star (codings head) = Some True)"
proof -
  have e: "(None, None) = (preference names_gzip [], preference star [])" by (simp add: preference_def)
  have "fold accept_field (headers head) (None, None) =
      (preference names_gzip (codings head), preference star (codings head))"
    unfolding e fold_accept_field by (simp add: codings_def header_values_def Let_def)
  then show ?thesis by (auto simp: accepts_gzip_def split: option.split)
qed

text \<open>Negotiation of \<^verbatim>\<open>Accept-Encoding\<close>: over the codings of all fields of that name, in order and without those
  whose quality value is malformed or out of range, the last entry for \<^verbatim>\<open>gzip\<close> or \<^verbatim>\<open>x-gzip\<close> decides; if there is
  none, the last wildcard entry decides; if there is none either, gzip is not acceptable.\<close>

theorem accepts_gzip_last_entry:
  "accepts_gzip head \<longleftrightarrow>
     (let explicit = filter (\<lambda>(c, _). names_gzip c) (codings head);
          wild = filter (\<lambda>(c, _). c = ''*'') (codings head)
      in if explicit \<noteq> [] then snd (last explicit) else wild \<noteq> [] \<and> snd (last wild))"
  by (auto simp: accepts_gzip_codings preference_def star_iff Let_def)

section \<open>Compression is transparent\<close>

lemma compression_try_add:
  "compression_try_add_header r n v = try_add_header r n v"
  "compression_try_add_vary r f = try_add_vary r f"
  by (simp_all add: compression_try_add_header_def try_add_header_def compression_try_add_vary_def try_add_vary_def)

lemma accept_encoding_token: "''Accept-Encoding'' \<noteq> []" "list_all is_tchar ''Accept-Encoding''"
  by (simp_all add: is_tchar_def ascii_class_defs)

lemma gzip_field_ok: "field_ok (''Content-Encoding'', ''gzip'')"
  by (simp add: field_ok_def RESERVED_def eq_ignore_ascii_case_def is_tchar_def ascii_class_defs to_ascii_lowercase_def)

lemma encoding_name: "eq_ignore_ascii_case ''Content-Encoding'' ''content-encoding''"
  "\<not> eq_ignore_ascii_case ''content-encoding'' ''content-type''" "\<not> eq_ignore_ascii_case ''Vary'' ''content-encoding''"
  by code_simp+

lemma find_append: "find P (xs @ ys) = (case find P xs of Some x \<Rightarrow> Some x | None \<Rightarrow> find P ys)"
  by (induction xs) auto

lemma vary_keeps_encoding:
  "response_header (try_add_vary r ''Accept-Encoding'') ''content-encoding'' = response_header r ''content-encoding''"
  using accept_encoding_token encoding_name
  by (auto simp: try_add_vary_token response_header_def push_header_def find_append split: option.split)

lemma vary_keeps:
  "r_status (try_add_vary r ''Accept-Encoding'') = r_status r" "r_body (try_add_vary r ''Accept-Encoding'') = r_body r"
  "r_content_type (try_add_vary r ''Accept-Encoding'') = r_content_type r"
  "r_allow (try_add_vary r ''Accept-Encoding'') = r_allow r"
  using accept_encoding_token by (simp_all add: try_add_vary_token push_header_def)

lemma gzip_encoding_header:
  "response_header r ''content-encoding'' = None \<Longrightarrow>
   response_header (try_add_header r ''Content-Encoding'' ''gzip'') ''content-encoding'' = Some ''gzip''"
  using encoding_name
  by (auto simp: try_add_header_eq gzip_field_ok response_header_def push_header_def find_append split: option.splits)

lemma response_header_body: "response_header (r\<lparr>r_body := b\<rparr>) n = response_header r n"
  by (auto simp: response_header_def)

definition compression_eligible :: "CompressionConfig \<Rightarrow> Response \<Rightarrow> bool" where
  "compression_eligible config r \<longleftrightarrow> 200 \<le> r_status r \<and> r_status r < 300 \<and> r_status r \<noteq> 204 \<and>
     content_type_ok config r \<and> gz_min_size config \<le> length (r_body r)"

lemma apply_compression_cases:
  obtains (ineligible) "\<not> compression_eligible config r" "apply_compression gz head config r = r"
  | (identity) "compression_eligible config r"
      "apply_compression gz head config r = try_add_vary r ''Accept-Encoding''"
  | (gzip) z where "compression_eligible config r" "response_header r ''content-encoding'' = None"
      "accepts_gzip head" "gz (r_body r) = Some z" "length z < length (r_body r)"
      "apply_compression gz head config r =
         (try_add_header (try_add_vary r ''Accept-Encoding'') ''Content-Encoding'' ''gzip'')\<lparr>r_body := z\<rparr>"
proof (cases "compression_eligible config r")
  case False
  moreover from this have "apply_compression gz head config r = r"
    by (auto simp: compression_eligible_def apply_compression_def plan_compression_def Let_def)
  ultimately show ?thesis by (rule ineligible)
next
  case el: True
  let ?r = "try_add_vary r ''Accept-Encoding''"
  have plan: "plan_compression head config r =
      (if response_header r ''content-encoding'' \<noteq> None \<or> \<not> accepts_gzip head then SkipCompression ?r else DoCompress ?r)"
    using el by (auto simp: compression_eligible_def plan_compression_def Let_def compression_try_add vary_keeps_encoding)
  show ?thesis
  proof (cases "response_header r ''content-encoding'' \<noteq> None \<or> \<not> accepts_gzip head \<or>
      compress_body gz (r_body r) = [] \<or> length (compress_body gz (r_body r)) \<ge> length (r_body r)")
    case True
    then have "apply_compression gz head config r = ?r"
      by (auto simp: apply_compression_def plan attach_compressed_def vary_keeps)
    with el show ?thesis by (rule identity)
  next
    case False
    then obtain z where "gz (r_body r) = Some z" "z \<noteq> []" "length z < length (r_body r)"
      by (auto simp: compress_body_def split: option.splits)
    with False el show ?thesis
      by (intro gzip [of z])
        (auto simp: apply_compression_def plan attach_compressed_def vary_keeps compression_try_add compress_body_def)
  qed
qed

text \<open>Compression is transparent. If decoding undoes the gzip encoder, then a response keeps its status, type
  and allowed methods; either its body and \<^verbatim>\<open>Content-Encoding\<close> are unchanged, or it had no encoding before, now
  says gzip, is strictly shorter, decodes to the original body and answers a request that accepts gzip;
  every response that could have been compressed for another client varies on \<^verbatim>\<open>Accept-Encoding\<close>; and a response
  that is not eligible (status, type, size) is not touched at all.\<close>

theorem compression_transparent:
  assumes "\<forall>d z. gz d = Some z \<longrightarrow> gunzip z = d"
    and "r' = apply_compression gz head config r"
  shows "r_status r' = r_status r \<and> r_content_type r' = r_content_type r \<and> r_allow r' = r_allow r \<and>
    (if response_header r' ''content-encoding'' = response_header r ''content-encoding'' then r_body r' = r_body r
     else response_header r ''content-encoding'' = None \<and> response_header r' ''content-encoding'' = Some ''gzip'' \<and>
       gunzip (r_body r') = r_body r \<and> length (r_body r') < length (r_body r) \<and> accepts_gzip head) \<and>
    (if compression_eligible config r then varies_on r' ''Accept-Encoding'' else r' = r)"
proof (cases rule: apply_compression_cases [of config r gz head])
  case ineligible
  then show ?thesis by (simp add: assms(2))
next
  case identity
  then show ?thesis
    using try_add_vary_varies [OF accept_encoding_token] by (simp add: assms(2) vary_keeps vary_keeps_encoding)
next
  case (gzip z)
  have "response_header r' ''content-encoding'' = Some ''gzip''"
    using gzip by (simp add: assms(2) response_header_body gzip_encoding_header vary_keeps_encoding)
  moreover have "varies_on r' ''Accept-Encoding''"
    using try_add_vary_varies [OF accept_encoding_token, of r]
    by (auto simp: assms(2) gzip(6) try_add_header_eq push_header_def varies_on_def vary_members_def)
  ultimately show ?thesis
    using gzip assms by (simp add: try_add_header_eq push_header_def vary_keeps)
qed

definition sample_gz :: "bytes \<Rightarrow> bytes option" where
  "sample_gz d = Some (if d = ''aaaa'' then ''z'' else CHR ''u'' # d)"

definition sample_gunzip :: "bytes \<Rightarrow> bytes" where
  "sample_gunzip z = (if z = ''z'' then ''aaaa'' else tl z)"

lemma sample_accepts: "accepts_gzip (mk_head ''GET'' ''/'' Http11 [(''Accept-Encoding'', ''gzip'')])"
  by (simp add: accepts_gzip_def, code_simp)

lemma sample_essence: "map to_ascii_lowercase (str_trim ''text/plain'') = ''text/plain''"
  by code_simp

lemma sample_pattern: "strip_suffix ''/'' (map to_ascii_lowercase ''text/'') = Some ''text''"
  by code_simp

theorem compression_transparent_witness:
  "sample_gunzip (r_body (apply_compression sample_gz (mk_head ''GET'' ''/'' Http11 [(''Accept-Encoding'', ''gzip'')])
       (compression_build (min_size 1 compression_builder)) (with_content_type (response_new 200 ''aaaa'') ''text/plain''))) = ''aaaa'' \<and>
   response_header (apply_compression sample_gz (mk_head ''GET'' ''/'' Http11 [(''Accept-Encoding'', ''gzip'')])
       (compression_build (min_size 1 compression_builder)) (with_content_type (response_new 200 ''aaaa'') ''text/plain''))
     ''content-encoding'' = Some ''gzip''"
proof -
  let ?r = "with_content_type (response_new 200 ''aaaa'') ''text/plain''"
  let ?r' = "apply_compression sample_gz (mk_head ''GET'' ''/'' Http11 [(''Accept-Encoding'', ''gzip'')])
       (compression_build (min_size 1 compression_builder)) ?r"
  have ct: "content_type_ok (compression_build (min_size 1 compression_builder)) ?r"
    using sample_essence sample_pattern
    by (simp add: content_type_ok_def response_header_def with_content_type_def matches_content_type_def Let_def
        compression_build_def min_size_def compression_builder_def DEFAULT_COMPRESSIBLE_TYPES_def starts_with_def)
  have v: "response_header (try_add_vary ?r ''Accept-Encoding'') ''content-encoding'' = None"
    unfolding vary_keeps_encoding by code_simp
  have "?r' = (try_add_header (try_add_vary ?r ''Accept-Encoding'') ''Content-Encoding'' ''gzip'')\<lparr>r_body := ''z''\<rparr>"
    using ct v sample_accepts
    by (simp add: apply_compression_def plan_compression_def compression_try_add attach_compressed_def compress_body_def
        vary_keeps sample_gz_def with_content_type_def response_new_def compression_build_def min_size_def)
  then have e: "response_header ?r' ''content-encoding'' \<noteq> response_header ?r ''content-encoding''"
    using v gzip_encoding_header [OF v] by (simp add: response_header_body vary_keeps_encoding)
  have gz: "\<forall>d z. sample_gz d = Some z \<longrightarrow> sample_gunzip z = d"
    by (auto simp: sample_gz_def sample_gunzip_def)
  show ?thesis
    using compression_transparent [OF gz refl, of "mk_head ''GET'' ''/'' Http11 [(''Accept-Encoding'', ''gzip'')]"
        "compression_build (min_size 1 compression_builder)" ?r] e
    by (simp add: with_content_type_def response_new_def)
qed

end
