(* ===== verification/Streaming.thy ===== *)
theory Streaming
  imports Recv_Buffer Response
begin

text \<open>
  \<^verbatim>\<open>crates/core/src/streaming.rs\<close> and \<^verbatim>\<open>send_buffer.rs\<close>: streamed responses and the send buffer of a connection.
  The bounded channel between the producer task and the connection is \<^verbatim>\<open>tokio::sync::mpsc\<close>: a parameter,
  seen from the producer as the function that says whether a message was accepted, and from the
  connection as the sequence of results of \<^verbatim>\<open>rx.recv()\<close>, where \<open>None\<close> means that all senders are gone.
\<close>

section \<open>Streamed responses\<close>

definition DEFAULT_CHANNEL_CAPACITY :: nat where "DEFAULT_CHANNEL_CAPACITY = 8"

datatype StreamEvent = ChunkEvent bytes | EndEvent

datatype StreamClosed = StreamClosed

record StreamingResponse =
  sr_status :: nat
  sr_content_type :: "bytes option"
  sr_rx :: "nat \<Rightarrow> StreamEvent option"

text \<open>The channel is made by the function \<open>mpsc\<close> from its capacity: the receiver and the sender.\<close>

definition streaming_channel :: "(nat \<Rightarrow> (nat \<Rightarrow> StreamEvent option) \<times> 'tx) \<Rightarrow> nat \<Rightarrow> bytes option \<Rightarrow> nat \<Rightarrow>
    StreamingResponse \<times> 'tx" where
  "streaming_channel mpsc status content_type capacity =
     (case mpsc (max capacity 1) of (rx, tx) \<Rightarrow>
        (\<lparr>sr_status = status, sr_content_type = content_type, sr_rx = rx\<rparr>, tx))"

definition streaming_new :: "(nat \<Rightarrow> (nat \<Rightarrow> StreamEvent option) \<times> 'tx) \<Rightarrow> nat \<Rightarrow> StreamingResponse \<times> 'tx" where
  "streaming_new mpsc status = streaming_channel mpsc status None DEFAULT_CHANNEL_CAPACITY"

definition body_send :: "(StreamEvent \<Rightarrow> bool) \<Rightarrow> bytes \<Rightarrow> StreamClosed + unit" where
  "body_send accepted data = (if accepted (ChunkEvent data) then Ok () else Err StreamClosed)"

definition body_finish :: "(StreamEvent \<Rightarrow> bool) \<Rightarrow> StreamClosed + unit" where
  "body_finish accepted = (if accepted EndEvent then Ok () else Err StreamClosed)"

datatype RecvOutcome = RecvChunk bytes | RecvEnd | RecvAborted

definition streaming_recv :: "StreamingResponse \<Rightarrow> nat \<Rightarrow> RecvOutcome" where
  "streaming_recv s n =
     (case sr_rx s n of
        Some (ChunkEvent data) \<Rightarrow> RecvChunk data
      | Some EndEvent \<Rightarrow> RecvEnd
      | None \<Rightarrow> RecvAborted)"

section \<open>The send buffer\<close>

text \<open>A vector with its capacity. How far writing a response grows the vector is left to the standard
  library: the parameter \<open>grow\<close> maps the old capacity and the length of the contents to the new capacity.\<close>

record SendBuffer =
  sb_buf :: bytes
  sb_capacity :: nat

definition send_new :: SendBuffer where
  "send_new = \<lparr>sb_buf = [], sb_capacity = 0\<rparr>"

definition serialize_response :: "(nat \<Rightarrow> nat \<Rightarrow> nat) \<Rightarrow> SendBuffer \<Rightarrow> Response \<Rightarrow> bool \<Rightarrow> bytes \<times> SendBuffer" where
  "serialize_response grow b response keep_alive =
     (let out = serialize_into response keep_alive (sb_buf b) in
      (out, \<lparr>sb_buf = out, sb_capacity = grow (sb_capacity b) (length out)\<rparr>))"

definition send_shrink_if_oversized :: "SendBuffer \<Rightarrow> SendBuffer" where
  "send_shrink_if_oversized b =
     (if sb_capacity b \<le> MAX_RETAINED_CAPACITY then b
      else \<lparr>sb_buf = [], sb_capacity = vec_shrink_to (sb_capacity b) 0 MAX_RETAINED_CAPACITY\<rparr>)"

lemma serialize_response_fresh: "fst (serialize_response grow b r ka) = serialize r ka"
  by (simp add: serialize_response_def serialize_def serialize_into_def Let_def)

lemma send_shrink_bound: "sb_capacity (send_shrink_if_oversized b) \<le> MAX_RETAINED_CAPACITY"
  by (auto simp: send_shrink_if_oversized_def vec_shrink_to_def)

end
