(* ===== verification/Server.thy ===== *)
theory Server
  imports Connection Router Gates Compression Streaming
begin

text \<open>
  \<^verbatim>\<open>crates/core/src/server.rs\<close> and \<^verbatim>\<open>plugin.rs\<close>: the server's configuration, the seams through which plugins take part
  in a request, and the loop that serves one connection. What the code asks the outside world for is the
  environment \<open>Env\<close> (clocks, the shutdown flag, whether a deadline fires, how much of a write
  the peer accepts, gzip), the reader and the substring search. Every question carries the moment at which it is asked (the number of the
  request, the place in the code, the iteration), so that answers may differ at every call. What the
  connection does is recorded in a trace of events; \<open>None\<close> stands for not returning.
  Plugins that are not modelled here (WebRTC, GraphQL, static files, WebSocket sessions) are functions.
\<close>

section \<open>The server\<close>

definition DEFAULT_READ_TIMEOUT :: nat where "DEFAULT_READ_TIMEOUT = 30 * 1000"
definition DEFAULT_WRITE_TIMEOUT :: nat where "DEFAULT_WRITE_TIMEOUT = 30 * 1000"
definition DEFAULT_MAX_CONNECTION_LIFETIME :: nat where "DEFAULT_MAX_CONNECTION_LIFETIME = 300 * 1000"
definition DEFAULT_MAX_REQUESTS_PER_CONNECTION :: nat where "DEFAULT_MAX_REQUESTS_PER_CONNECTION = 1000"
definition DEFAULT_MAX_CONNECTIONS :: nat where "DEFAULT_MAX_CONNECTIONS = 10000"
definition DEFAULT_SHUTDOWN_GRACE_PERIOD :: nat where "DEFAULT_SHUTDOWN_GRACE_PERIOD = 30 * 1000"

record Handler =
  h_handle :: "tick \<Rightarrow> RequestHead \<Rightarrow> bytes \<Rightarrow> Response"
  h_streaming :: "tick \<Rightarrow> RequestHead \<Rightarrow> bytes \<Rightarrow> StreamingResponse option"

definition default_handle_streaming :: "tick \<Rightarrow> RequestHead \<Rightarrow> bytes \<Rightarrow> StreamingResponse option" where
  "default_handle_streaming m head body = None"

text \<open>The router as a handler; \<open>run\<close> awaits a boxed future.\<close>

definition await :: "(tick \<Rightarrow> 'f \<Rightarrow> Response) \<Rightarrow> tick \<Rightarrow> 'f HandlerFuture \<Rightarrow> Response" where
  "await run m fut = (case fut of Ready r \<Rightarrow> r | Boxed f \<Rightarrow> run m f)"

definition router_handler ::
  "(tick \<Rightarrow> 'f \<Rightarrow> Response) \<Rightarrow> (bytes list \<Rightarrow> bytes list) \<Rightarrow> 'f Router \<Rightarrow> Handler" where
  "router_handler run order router =
     \<lparr>h_handle = (\<lambda>m head body. await run m (dispatch order router head body)),
      h_streaming = default_handle_streaming\<rparr>"

datatype OpenApiRegistration = OpenApiDisabled | OpenApiEmbedded | OpenApiCustom bytes "bytes option"

text \<open>The answer type of the plugins for WebRTC proxying and GraphQL.\<close>

record PluginResponse =
  pr_status :: nat
  pr_body :: bytes
  pr_content_type :: bytes

record 'a Server =
  middlewares :: "Middleware list"
  gates :: "'a RequestGate list"
  upgrade_handlers :: "UpgradeHandler list"
  interceptors :: "Interceptor list"
  srv_handler :: "Handler option"
  max_connections :: nat
  max_connection_lifetime :: nat
  max_requests_per_connection :: nat
  srv_max_body_bytes :: nat
  srv_read_timeout :: nat
  keep_alive_enabled :: bool
  shutdown_grace_period :: nat
  webrtc_proxy_plugin :: "(tick \<Rightarrow> RequestHead \<Rightarrow> bytes \<Rightarrow> PluginResponse option) option"
  webrtc_plugin :: "(tick \<Rightarrow> RequestHead \<Rightarrow> bytes \<Rightarrow> Response option) option"
  websocket_configs :: "(RequestHead \<Rightarrow> bool) list"
  graphql_plugin :: "(tick \<Rightarrow> RequestHead \<Rightarrow> bytes \<Rightarrow> PluginResponse option) option"
  openapi_registration :: OpenApiRegistration
  cors_config :: "CorsConfig option"
  compression_config :: "CompressionConfig option"
  static_plugin :: "(tick \<Rightarrow> RequestHead \<Rightarrow> Response option) option"

definition server_new :: "'a Server" where
  "server_new = \<lparr>middlewares = [], gates = [], upgrade_handlers = [], interceptors = [], srv_handler = None,
     max_connections = DEFAULT_MAX_CONNECTIONS, max_connection_lifetime = DEFAULT_MAX_CONNECTION_LIFETIME,
     max_requests_per_connection = DEFAULT_MAX_REQUESTS_PER_CONNECTION, srv_max_body_bytes = MAX_BODY_BYTES,
     srv_read_timeout = DEFAULT_READ_TIMEOUT, keep_alive_enabled = True,
     shutdown_grace_period = DEFAULT_SHUTDOWN_GRACE_PERIOD, webrtc_proxy_plugin = None, webrtc_plugin = None,
     websocket_configs = [], graphql_plugin = None, openapi_registration = OpenApiDisabled, cors_config = None,
     compression_config = None, static_plugin = None\<rparr>"

subsection \<open>Building a server\<close>

definition set_max_connections :: "nat \<Rightarrow> 'a Server \<Rightarrow> 'a Server" where
  "set_max_connections n srv = srv\<lparr>max_connections := n\<rparr>"

definition set_max_connection_lifetime :: "nat \<Rightarrow> 'a Server \<Rightarrow> 'a Server" where
  "set_max_connection_lifetime n srv = srv\<lparr>max_connection_lifetime := n\<rparr>"

definition set_max_requests_per_connection :: "nat \<Rightarrow> 'a Server \<Rightarrow> 'a Server" where
  "set_max_requests_per_connection n srv = srv\<lparr>max_requests_per_connection := n\<rparr>"

definition set_max_body_bytes :: "nat \<Rightarrow> 'a Server \<Rightarrow> 'a Server" where
  "set_max_body_bytes n srv = srv\<lparr>srv_max_body_bytes := n\<rparr>"

definition set_read_timeout :: "nat \<Rightarrow> 'a Server \<Rightarrow> 'a Server" where
  "set_read_timeout n srv = srv\<lparr>srv_read_timeout := n\<rparr>"

definition set_keep_alive :: "bool \<Rightarrow> 'a Server \<Rightarrow> 'a Server" where
  "set_keep_alive enabled srv = srv\<lparr>keep_alive_enabled := enabled\<rparr>"

definition set_shutdown_grace_period :: "nat \<Rightarrow> 'a Server \<Rightarrow> 'a Server" where
  "set_shutdown_grace_period n srv = srv\<lparr>shutdown_grace_period := n\<rparr>"

definition add_middleware :: "Middleware \<Rightarrow> 'a Server \<Rightarrow> 'a Server" where
  "add_middleware x srv = srv\<lparr>middlewares := middlewares srv @ [x]\<rparr>"

definition add_gate :: "'a RequestGate \<Rightarrow> 'a Server \<Rightarrow> 'a Server" where
  "add_gate x srv = srv\<lparr>gates := gates srv @ [x]\<rparr>"

definition add_upgrade_handler :: "UpgradeHandler \<Rightarrow> 'a Server \<Rightarrow> 'a Server" where
  "add_upgrade_handler x srv = srv\<lparr>upgrade_handlers := upgrade_handlers srv @ [x]\<rparr>"

definition add_interceptor :: "Interceptor \<Rightarrow> 'a Server \<Rightarrow> 'a Server" where
  "add_interceptor x srv = srv\<lparr>interceptors := interceptors srv @ [x]\<rparr>"

definition set_handler :: "Handler \<Rightarrow> 'a Server \<Rightarrow> 'a Server" where
  "set_handler h srv = srv\<lparr>srv_handler := Some h\<rparr>"

definition websocket_adapter :: "(RequestHead \<Rightarrow> bool) \<Rightarrow> UpgradeHandler" where
  "websocket_adapter matches = \<lparr>uh_name = ''websocket'', uh_matches = matches\<rparr>"

definition add_websocket :: "(RequestHead \<Rightarrow> bool) \<Rightarrow> 'a Server \<Rightarrow> 'a Server" where
  "add_websocket matches srv =
     srv\<lparr>upgrade_handlers := upgrade_handlers srv @ [websocket_adapter matches],
         websocket_configs := websocket_configs srv @ [matches]\<rparr>"

definition set_openapi :: "'a Server \<Rightarrow> 'a Server" where
  "set_openapi srv = srv\<lparr>openapi_registration := OpenApiEmbedded\<rparr>"

definition set_openapi_with :: "bytes \<Rightarrow> bytes option \<Rightarrow> 'a Server \<Rightarrow> 'a Server" where
  "set_openapi_with json yaml srv = srv\<lparr>openapi_registration := OpenApiCustom json yaml\<rparr>"

definition set_cors :: "CorsConfig \<Rightarrow> 'a Server \<Rightarrow> 'a Server" where
  "set_cors config srv = srv\<lparr>cors_config := Some config\<rparr>"

definition set_compression :: "CompressionConfig \<Rightarrow> 'a Server \<Rightarrow> 'a Server" where
  "set_compression config srv = srv\<lparr>compression_config := Some config\<rparr>"

section \<open>The environment and the state of a connection\<close>

record 'z Env =
  env_elapsed :: "tick \<Rightarrow> nat"
  env_shutdown :: "tick \<Rightarrow> bool"
  env_read_expires :: "tick \<Rightarrow> nat \<Rightarrow> bool"
  env_recv_expires :: "tick \<Rightarrow> nat \<Rightarrow> bool"
  env_write :: "tick \<Rightarrow> nat option \<Rightarrow> bytes \<Rightarrow> nat option"
  env_gzip :: "bytes \<Rightarrow> bytes option"
  env_gzip_stream :: "'z GzEncoder"
  env_offload_fails :: "tick \<Rightarrow> bool"
  env_grow :: "nat \<Rightarrow> nat \<Rightarrow> nat"
  env_openapi_json :: bytes
  env_openapi_yaml :: bytes

datatype Event =
    RequestRead Request
  | OnRequest Middleware
  | GateChecked bytes
  | InterceptCalled bytes
  | PluginsCalled
  | StreamingCalled
  | HandlerCalled
  | MapResponseCalled bytes
  | Delegated bytes bool
  | Sent bytes
  | OnResponse Middleware nat

record Conn =
  c_send :: SendBuffer
  c_permit :: bool
  c_trace :: "Event list"

definition log :: "Event list \<Rightarrow> Conn \<Rightarrow> Conn" where
  "log es st = st\<lparr>c_trace := c_trace st @ es\<rparr>"

text \<open>\<^verbatim>\<open>write_all\<close>, possibly under a timeout: the environment answers \<open>None\<close> when everything was written, and
  otherwise how many bytes had been written when it failed or the timeout fired (not all of them: the
  future is only pending, and only fails, while bytes remain).\<close>

definition write_all :: "'z Env \<Rightarrow> tick \<Rightarrow> nat option \<Rightarrow> bytes \<Rightarrow> Conn \<Rightarrow> bool \<times> Conn" where
  "write_all E m timeout bs st =
     (case env_write E m timeout bs of
        None \<Rightarrow> (True, log [Sent bs] st)
      | Some k \<Rightarrow> (False, log [Sent (take (min k (length bs - 1)) bs)] st))"

section \<open>The plugin seams\<close>

definition from_plugin_response :: "PluginResponse \<Rightarrow> Response" where
  "from_plugin_response r = with_content_type (response_new (pr_status r) (pr_body r)) (pr_content_type r)"

definition try_openapi :: "'z Env \<Rightarrow> 'a Server \<Rightarrow> RequestHead \<Rightarrow> Response option" where
  "try_openapi E srv head =
     (let json = (if head_method head = ''GET'' \<and> head_target head = ''/openapi.json'' then
            (case openapi_registration srv of
               OpenApiDisabled \<Rightarrow> None
             | OpenApiEmbedded \<Rightarrow> Some (env_openapi_json E)
             | OpenApiCustom j y \<Rightarrow> Some j)
          else None)
      in case json of
        Some body \<Rightarrow> Some (with_content_type (response_new 200 body) ''application/json'')
      | None \<Rightarrow>
          (let yaml = (if head_method head = ''GET'' \<and> head_target head = ''/openapi.yaml'' then
                 (case openapi_registration srv of
                    OpenApiDisabled \<Rightarrow> None
                  | OpenApiEmbedded \<Rightarrow> Some (env_openapi_yaml E)
                  | OpenApiCustom j y \<Rightarrow> y)
               else None)
           in map_option (\<lambda>body. with_content_type (response_new 200 body) ''application/yaml'') yaml))"

definition try_intercept :: "'z Env \<Rightarrow> 'a Server \<Rightarrow> tick \<Rightarrow> RequestHead \<Rightarrow> bytes \<Rightarrow> Response option" where
  "try_intercept E srv m head body =
     (case Option.bind (webrtc_proxy_plugin srv) (\<lambda>f. f (m @ [0]) head body) of
        Some response \<Rightarrow> Some (from_plugin_response response)
      | None \<Rightarrow>
     (case Option.bind (webrtc_plugin srv) (\<lambda>f. f (m @ [1]) head body) of
        Some response \<Rightarrow> Some response
      | None \<Rightarrow>
     (case Option.bind (graphql_plugin srv) (\<lambda>f. f (m @ [2]) head body) of
        Some response \<Rightarrow> Some (from_plugin_response response)
      | None \<Rightarrow>
     (case try_openapi E srv head of
        Some response \<Rightarrow> Some response
      | None \<Rightarrow> Option.bind (static_plugin srv) (\<lambda>f. f (m @ [3]) head)))))"

text \<open>\<open>True\<close> when a WebSocket configuration took the connection over (with the bytes that had already been
  read and the connection's permit).\<close>

definition try_handle_upgrade :: "'a Server \<Rightarrow> RequestHead \<Rightarrow> bytes \<Rightarrow> Conn \<Rightarrow> bool \<times> Conn" where
  "try_handle_upgrade srv head leftover st =
     (case find (\<lambda>matches. matches head) (websocket_configs srv) of
        Some _ \<Rightarrow> (True, log [Delegated leftover (c_permit st)] (st\<lparr>c_permit := False\<rparr>))
      | None \<Rightarrow> (False, st))"

definition apply_cors :: "'a Server \<Rightarrow> RequestHead \<Rightarrow> Response \<Rightarrow> Response" where
  "apply_cors srv head response =
     (case cors_config srv of
        Some config \<Rightarrow> if \<not> is_preflight head then apply_cors_headers head config response else response
      | None \<Rightarrow> response)"

definition finalize_response :: "'z Env \<Rightarrow> 'a Server \<Rightarrow> tick \<Rightarrow> RequestHead \<Rightarrow> Response \<Rightarrow> Response" where
  "finalize_response E srv m head response =
     (let response = apply_cors srv head response in
      case compression_config srv of
        None \<Rightarrow> response
      | Some config \<Rightarrow>
          (case plan_compression head config response of
             SkipCompression skipped \<Rightarrow> skipped
           | DoCompress planned \<Rightarrow>
               (let body = r_body planned;
                    compressed =
                      (if length body \<ge> gz_blocking_threshold config
                       then (if env_offload_fails E m then [] else compress_body (env_gzip E) body)
                       else compress_body (env_gzip E) body)
                in attach_compressed planned compressed)))"

definition finalize_streaming_head :: "'a Server \<Rightarrow> RequestHead \<Rightarrow> Response \<Rightarrow> Response" where
  "finalize_streaming_head srv head response = apply_cors srv head response"

text \<open>\<^verbatim>\<open>StreamingBodyEncoder\<close>: the identity, or a gzip encoder.\<close>

type_synonym 'z StreamingBodyEncoder = "'z option"

definition transform :: "'z GzEncoder \<Rightarrow> bytes \<Rightarrow> 'z StreamingBodyEncoder \<Rightarrow>
    (bytes \<times> 'z StreamingBodyEncoder) option" where
  "transform G data enc =
     (case enc of
        Some z \<Rightarrow> map_option (\<lambda>(out, z'). (out, Some z')) (gzip_encode_chunk G data z)
      | None \<Rightarrow> Some (data, None))"

definition encoder_finish :: "'z GzEncoder \<Rightarrow> 'z StreamingBodyEncoder \<Rightarrow> bytes option" where
  "encoder_finish G enc = (case enc of Some z \<Rightarrow> gzip_finish G z | None \<Rightarrow> Some [])"

definition prepare_streaming_compression :: "'z GzEncoder \<Rightarrow> 'a Server \<Rightarrow> RequestHead \<Rightarrow> Response \<Rightarrow>
    Response \<times> 'z StreamingBodyEncoder" where
  "prepare_streaming_compression G srv head response =
     (case compression_config srv of
        Some config \<Rightarrow> begin_streaming_compression G head config response
      | None \<Rightarrow> (response, None))"

section \<open>Errors and gates\<close>

definition error_response :: "'e RequestError \<Rightarrow> Response option" where
  "error_response err =
     (case err of
        Parse HeaderSectionTooLarge \<Rightarrow> Some (response_empty 431)
      | Parse TooManyHeaders \<Rightarrow> Some (response_empty 431)
      | Parse InvalidRequestLine \<Rightarrow> Some (response_empty 400)
      | Parse InvalidHeader \<Rightarrow> Some (response_empty 400)
      | Parse UnsupportedVersion \<Rightarrow> Some (response_empty 505)
      | Body BodyTooLargeError \<Rightarrow> Some (response_empty 413)
      | Body TransferEncodingUnsupported \<Rightarrow> Some (response_empty 501)
      | Body DuplicateContentLength \<Rightarrow> Some (response_empty 400)
      | Body InvalidContentLength \<Rightarrow> Some (response_empty 400)
      | Body ContentLengthWithChunked \<Rightarrow> Some (response_empty 400)
      | ChunkedBodyError e \<Rightarrow>
          (if e = BodyTooLarge then Some (response_empty 413) else Some (response_empty 400))
      | UnexpectedEof \<Rightarrow> None
      | Io _ \<Rightarrow> None)"

text \<open>The result also lists the gates that were asked.\<close>

fun first_rejection :: "tick \<Rightarrow> nat \<Rightarrow> 'a RequestGate list \<Rightarrow> RequestHead \<Rightarrow> 'a GateContext \<Rightarrow> RequestExtensions \<Rightarrow>
    Response option \<times> RequestExtensions \<times> Event list" where
  "first_rejection m i [] head ctx ext = (None, ext, [])"
| "first_rejection m i (g # gs) head ctx ext =
     (case gate_check g (m @ [i]) head ctx ext of
        (Reject response, ext) \<Rightarrow> (Some response, ext, [GateChecked (gate_name g)])
      | (Allow, ext) \<Rightarrow>
          (case first_rejection m (Suc i) gs head ctx ext of
             (r, ext, es) \<Rightarrow> (r, ext, GateChecked (gate_name g) # es)))"

fun first_intercept :: "tick \<Rightarrow> nat \<Rightarrow> Interceptor list \<Rightarrow> RequestHead \<Rightarrow> bytes \<Rightarrow> Response option \<times> Event list" where
  "first_intercept m i [] head body = (None, [])"
| "first_intercept m i (c # cs) head body =
     (case ic_intercept c (m @ [i]) head body of
        Some r \<Rightarrow> (Some r, [InterceptCalled (ic_name c)])
      | None \<Rightarrow> (case first_intercept m (Suc i) cs head body of (r, es) \<Rightarrow> (r, InterceptCalled (ic_name c) # es)))"

fun map_response :: "tick \<Rightarrow> nat \<Rightarrow> Interceptor list \<Rightarrow> RequestHead \<Rightarrow> Response \<Rightarrow> Response \<times> Event list" where
  "map_response m i [] head acc = (acc, [])"
| "map_response m i (c # cs) head acc =
     (case map_response m (Suc i) cs head (ic_map_response c (m @ [i]) head acc) of
        (r, es) \<Rightarrow> (r, MapResponseCalled (ic_name c) # es))"

section \<open>Streaming a response\<close>

record StreamingCompletion =
  sc_keep_alive :: bool
  sc_status :: nat

definition remaining_lifetime :: "'z Env \<Rightarrow> 'a Server \<Rightarrow> tick \<Rightarrow> nat" where
  "remaining_lifetime E srv m = max_connection_lifetime srv - env_elapsed E m"

definition write_timeout :: "'z Env \<Rightarrow> 'a Server \<Rightarrow> tick \<Rightarrow> nat" where
  "write_timeout E srv m = min DEFAULT_WRITE_TIMEOUT (remaining_lifetime E srv m)"

definition still_alive :: "'z Env \<Rightarrow> 'a Server \<Rightarrow> tick \<Rightarrow> bool" where
  "still_alive E srv m \<longleftrightarrow> env_elapsed E (m @ [0]) < max_connection_lifetime srv \<and> \<not> env_shutdown E (m @ [1])"

text \<open>The body of a response to an HTTP/1.0 request: the data as it comes, ended by closing. The result is
  \<open>Some True\<close> at the producer's end, and \<open>Some False\<close> where the code returns \<^verbatim>\<open>None\<close>.\<close>

partial_function (option) http10_body_loop ::
  "'z Env \<Rightarrow> 'a Server \<Rightarrow> StreamingResponse \<Rightarrow> tick \<Rightarrow> nat \<Rightarrow> Conn \<Rightarrow> (bool \<times> Conn) option" where
  "http10_body_loop E srv streaming m i st =
     (if env_recv_expires E (m @ [i, 1]) (write_timeout E srv (m @ [i, 0])) then Some (False, st)
      else case streaming_recv streaming i of
        RecvChunk data \<Rightarrow>
          if data = [] then http10_body_loop E srv streaming m (Suc i) st
          else (case write_all E (m @ [i, 3]) (Some (write_timeout E srv (m @ [i, 2]))) data st of
                  (ok, st) \<Rightarrow> if ok then http10_body_loop E srv streaming m (Suc i) st else Some (False, st))
      | RecvEnd \<Rightarrow> Some (True, st)
      | RecvAborted \<Rightarrow> Some (False, st))"

definition chunked_end :: "'z GzEncoder \<Rightarrow> 'z StreamingBodyEncoder \<Rightarrow> bytes option" where
  "chunked_end G enc =
     map_option (\<lambda>residual. encode_terminator (if residual \<noteq> [] then encode_chunk residual [] else []))
       (encoder_finish G enc)"

text \<open>The body of a response to an HTTP/1.1 request: chunks and a terminator.\<close>

partial_function (option) chunked_body_loop ::
  "'z Env \<Rightarrow> 'a Server \<Rightarrow> StreamingResponse \<Rightarrow> tick \<Rightarrow> nat \<Rightarrow> 'z StreamingBodyEncoder \<Rightarrow> Conn \<Rightarrow>
   (bool \<times> Conn) option" where
  "chunked_body_loop E srv streaming m i enc st =
     (if env_recv_expires E (m @ [i, 1]) (write_timeout E srv (m @ [i, 0])) then Some (False, st)
      else case streaming_recv streaming i of
        RecvChunk data \<Rightarrow>
          (case transform (env_gzip_stream E) data enc of
             None \<Rightarrow> Some (False, st)
           | Some (data, enc) \<Rightarrow>
               if encode_chunk data [] = [] then chunked_body_loop E srv streaming m (Suc i) enc st
               else (case write_all E (m @ [i, 3]) (Some (write_timeout E srv (m @ [i, 2]))) (encode_chunk data []) st of
                       (ok, st) \<Rightarrow> if ok then chunked_body_loop E srv streaming m (Suc i) enc st else Some (False, st)))
      | RecvEnd \<Rightarrow>
          (case chunked_end (env_gzip_stream E) enc of
             None \<Rightarrow> Some (False, st)
           | Some terminator \<Rightarrow>
               Some (write_all E (m @ [i, 3]) (Some (write_timeout E srv (m @ [i, 2]))) terminator st))
      | RecvAborted \<Rightarrow> Some (False, st))"

definition streaming_head :: "'a Server \<Rightarrow> tick \<Rightarrow> StreamingResponse \<Rightarrow> RequestHead \<Rightarrow> Response \<times> Event list" where
  "streaming_head srv m streaming head =
     (let r = response_empty (sr_status streaming);
          r = (case sr_content_type streaming of Some ct \<Rightarrow> with_content_type r ct | None \<Rightarrow> r)
      in case map_response m 0 (interceptors srv) head r of
        (r, es) \<Rightarrow> ((finalize_streaming_head srv head r)\<lparr>r_body := []\<rparr>, es))"

definition write_streaming_response ::
  "'z Env \<Rightarrow> 'a Server \<Rightarrow> tick \<Rightarrow> StreamingResponse \<Rightarrow> RequestHead \<Rightarrow> bool \<Rightarrow> Conn \<Rightarrow>
   (StreamingCompletion option \<times> Conn) option" where
  "write_streaming_response E srv m streaming head keep_alive st =
     (case streaming_head srv (m @ [0]) streaming head of
        (head_response, es) \<Rightarrow>
          (let st = log es st; final_status = r_status head_response in
           if rh_version head = Http10 then
             (case write_all E (m @ [2]) (Some (write_timeout E srv (m @ [1])))
                     (serialize_streaming_head_http10 head_response) st of
                (ok, st) \<Rightarrow>
                  if \<not> ok then Some (None, st)
                  else if is_bodyless_status (r_status head_response)
                  then Some (Some \<lparr>sc_keep_alive = False, sc_status = final_status\<rparr>, st)
                  else map_option (\<lambda>(ended, st).
                      (if ended then Some \<lparr>sc_keep_alive = False, sc_status = final_status\<rparr> else None, st))
                    (http10_body_loop E srv streaming (m @ [3]) 0 st))
           else
             (let keep_alive = (keep_alive \<and> still_alive E srv (m @ [4])) in
              case prepare_streaming_compression (env_gzip_stream E) srv head head_response of
                (head_response, enc) \<Rightarrow>
                  (case write_all E (m @ [6]) (Some (write_timeout E srv (m @ [5])))
                          (serialize_chunked_head head_response keep_alive) st of
                     (ok, st) \<Rightarrow>
                       if \<not> ok then Some (None, st)
                       else if is_bodyless_status (r_status head_response)
                       then Some (Some \<lparr>sc_keep_alive = keep_alive \<and> still_alive E srv (m @ [8]),
                                        sc_status = final_status\<rparr>, st)
                       else map_option (\<lambda>(ended, st).
                           (if ended
                            then Some \<lparr>sc_keep_alive = keep_alive \<and> still_alive E srv (m @ [8]),
                                       sc_status = final_status\<rparr>
                            else None, st))
                         (chunked_body_loop E srv streaming (m @ [7]) 0 enc st)))))"

section \<open>Serving a connection\<close>

text \<open>Whether the loop goes on to the next request.\<close>

datatype 'x Flow = Continue 'x | Return 'x

definition log_responses :: "'a Server \<Rightarrow> nat \<Rightarrow> Conn \<Rightarrow> Conn" where
  "log_responses srv status st = log (map (\<lambda>mw. OnResponse mw status) (middlewares srv)) st"

text \<open>Sending a complete response through the send buffer, on the paths that may keep the connection.\<close>

definition send_response :: "'z Env \<Rightarrow> 'a Server \<Rightarrow> tick \<Rightarrow> Response \<Rightarrow> bool \<Rightarrow> Conn \<Rightarrow> Conn Flow" where
  "send_response E srv m response keep_alive st =
     (case serialize_response (env_grow E) (c_send st) response keep_alive of
        (wire, sb) \<Rightarrow>
          (case write_all E m None wire (st\<lparr>c_send := sb\<rparr>) of
             (ok, st) \<Rightarrow>
               if \<not> ok then Return st
               else let st = log_responses srv (r_status response) (st\<lparr>c_send := send_shrink_if_oversized (c_send st)\<rparr>)
                    in if \<not> keep_alive then Return st else Continue st))"

text \<open>The one-shot answers after which the connection is closed in any case.\<close>

definition send_last :: "'z Env \<Rightarrow> tick \<Rightarrow> Response \<Rightarrow> Conn \<Rightarrow> Conn Flow" where
  "send_last E m response st = Return (snd (write_all E m None (serialize response False) st))"

definition initial_keep_alive :: "'z Env \<Rightarrow> 'a Server \<Rightarrow> nat \<Rightarrow> RequestHead \<Rightarrow> bool" where
  "initial_keep_alive E srv served head \<longleftrightarrow>
     keep_alive_enabled srv \<and> should_keep_alive head \<and> served < max (max_requests_per_connection srv) 1 \<and>
     still_alive E srv [served, 2]"

text \<open>\<open>leftover\<close> is what the connection's buffer holds after the request.\<close>

definition upgrade_request :: "'z Env \<Rightarrow> 'a Server \<Rightarrow> nat \<Rightarrow> RequestHead \<Rightarrow> bytes \<Rightarrow> Conn \<Rightarrow> Conn Flow" where
  "upgrade_request E srv served head leftover st =
     (if env_shutdown E [served, 4] then send_last E [served, 5] (response_empty 503) st
      else
        case try_handle_upgrade srv head leftover st of
          (True, st) \<Rightarrow> Return st
        | (False, st) \<Rightarrow> send_last E [served, 5] (response_empty 501) st)"

definition stream_request :: "'z Env \<Rightarrow> 'a Server \<Rightarrow> nat \<Rightarrow> RequestHead \<Rightarrow> bool \<Rightarrow> StreamingResponse \<Rightarrow> Conn \<Rightarrow>
    Conn Flow option" where
  "stream_request E srv served head keep_alive streaming st =
     map_option (\<lambda>(completion, st).
         (case completion of
            Some c \<Rightarrow>
              (let st = log_responses srv (sc_status c) st in
               if sc_keep_alive c then Continue st else Return st)
          | None \<Rightarrow> Return st))
       (write_streaming_response E srv [served, 9] streaming head keep_alive st)"

definition answer_request :: "'z Env \<Rightarrow> 'a Server \<Rightarrow> nat \<Rightarrow> RequestHead \<Rightarrow> bytes \<Rightarrow> bool \<Rightarrow> Conn \<Rightarrow>
    Conn Flow option" where
  "answer_request E srv served head body keep_alive st =
     (case first_intercept [served, 6] 0 (interceptors srv) head body of
        (first, es) \<Rightarrow>
          (let st = log es st;
               st = (if first = None then log [PluginsCalled] st else st);
               intercepted = (case first of
                   Some response \<Rightarrow> Some response
                 | None \<Rightarrow> try_intercept E srv [served, 7] head body);
               st = (if intercepted = None \<and> srv_handler srv \<noteq> None then log [StreamingCalled] st else st)
           in case (if intercepted = None then Option.bind (srv_handler srv) (\<lambda>h. h_streaming h [served, 8] head body)
                    else None) of
                Some streaming \<Rightarrow> stream_request E srv served head keep_alive streaming st
              | None \<Rightarrow>
                  (case (case intercepted of
                           Some response \<Rightarrow> (response, [])
                         | None \<Rightarrow> (case srv_handler srv of
                             Some h \<Rightarrow> (h_handle h [served, 10] head body, [HandlerCalled])
                           | None \<Rightarrow> (response_empty 404, []))) of
                     (response, hs) \<Rightarrow>
                       (case map_response [served, 11] 0 (interceptors srv) head response of
                          (response, ms) \<Rightarrow>
                            (let st = log (hs @ ms) st;
                                 response = finalize_response E srv [served, 12] head response;
                                 keep_alive = (keep_alive \<and> still_alive E srv [served, 13])
                             in Some (send_response E srv [served, 14] response keep_alive st))))))"

definition handle_request :: "'z Env \<Rightarrow> 'a Server \<Rightarrow> 'a GateContext \<Rightarrow> nat \<Rightarrow> Request \<Rightarrow> bytes \<Rightarrow> Conn \<Rightarrow>
    Conn Flow option" where
  "handle_request E srv ctx served request leftover st =
     (let head = req_head request;
          st = log (RequestRead request # map OnRequest (middlewares srv)) st;
          keep_alive = initial_keep_alive E srv served head
      in case first_rejection [served, 3] 0 (gates srv) head ctx extensions_new of
        (rejection, ext, es) \<Rightarrow>
          (let st = log es st in
           case rejection of
             Some response \<Rightarrow> Some (send_response E srv [served, 15] response keep_alive st)
           | None \<Rightarrow>
               (let head = (if \<not> ext_is_empty ext then head\<lparr>rh_extensions := ext\<rparr> else head) in
                if list_ex (\<lambda>h. uh_matches h head) (upgrade_handlers srv)
                then Some (upgrade_request E srv served head leftover st)
                else answer_request E srv served head (req_body request) keep_alive st)))"

text \<open>One turn of the loop. The connection's reader and receive buffer are passed beside the rest of its state.\<close>

definition serve_request :: "search \<Rightarrow> ('s, 'e) reader \<Rightarrow> 'z Env \<Rightarrow> 'a Server \<Rightarrow> 'a GateContext \<Rightarrow> nat \<Rightarrow>
    's \<Rightarrow> RecvBuffer \<Rightarrow> Conn \<Rightarrow> (Conn Flow \<times> 's \<times> RecvBuffer) option" where
  "serve_request mm rd E srv ctx served s b st =
     (let elapsed_since_start = env_elapsed E [served, 0] in
      if elapsed_since_start \<ge> max_connection_lifetime srv then Some (Return st, s, b)
      else
        let remaining = max_connection_lifetime srv - elapsed_since_start;
            timeout = min (srv_read_timeout srv) remaining
        in if env_read_expires E [served, 1] timeout then Some (Return st, s, b)
           else
             case read_request_with_limit mm rd s b (srv_max_body_bytes srv) of
               None \<Rightarrow> None
             | Some (Err err, s, b) \<Rightarrow>
                 (case error_response err of
                    Some response \<Rightarrow> Some (send_last E [served, 16] response st, s, b)
                  | None \<Rightarrow> Some (Return st, s, b))
             | Some (Ok None, s, b) \<Rightarrow> Some (Return st, s, b)
             | Some (Ok (Some request), s, b) \<Rightarrow>
                 map_option (\<lambda>flow. (flow, s, b)) (handle_request E srv ctx (Suc served) request (unread b) st))"

lemma send_response_Continue: "send_response E srv m r ka st = Continue st' \<Longrightarrow> ka"
  by (auto simp: send_response_def Let_def split: prod.splits if_splits)

lemma write_streaming_Some:
  "write_streaming_response E srv m streaming head ka st = Some (Some c, st') \<Longrightarrow> sc_keep_alive c \<Longrightarrow> ka"
  by (auto simp: write_streaming_response_def Let_def split: prod.splits if_splits)

lemma stream_request_Continue:
  "stream_request E srv served head ka streaming st = Some (Continue st') \<Longrightarrow> ka"
  by (auto simp: stream_request_def Let_def split: option.splits if_splits dest: write_streaming_Some)

lemma answer_request_Continue:
  "answer_request E srv served head body ka st = Some (Continue st') \<Longrightarrow> ka"
  by (auto simp: answer_request_def Let_def split: prod.splits option.splits
      dest!: stream_request_Continue send_response_Continue)

lemma upgrade_request_Continue: "upgrade_request E srv served head leftover st \<noteq> Continue st'"
  by (auto simp: upgrade_request_def send_last_def split: prod.splits bool.splits)

lemma handle_request_Continue:
  "handle_request E srv ctx served request leftover st = Some (Continue st') \<Longrightarrow>
     initial_keep_alive E srv served (req_head request)"
  by (auto simp: handle_request_def Let_def upgrade_request_Continue split: prod.splits option.splits if_splits
      dest: send_response_Continue answer_request_Continue)

lemma serve_request_Continue:
  "serve_request mm rd E srv ctx served s b st = Some (Continue st', s', b') \<Longrightarrow>
     Suc served < max (max_requests_per_connection srv) 1"
  by (auto simp: serve_request_def Let_def send_last_def initial_keep_alive_def
      split: if_splits option.splits prod.splits sum.splits dest!: handle_request_Continue)

function serve_connection :: "search \<Rightarrow> ('s, 'e) reader \<Rightarrow> 'z Env \<Rightarrow> 'a Server \<Rightarrow> 'a GateContext \<Rightarrow> nat \<Rightarrow>
    's \<Rightarrow> RecvBuffer \<Rightarrow> Conn \<Rightarrow> (Conn \<times> 's) option" where
  "serve_connection mm rd E srv ctx served s b st =
     (case serve_request mm rd E srv ctx served s b st of
        None \<Rightarrow> None
      | Some (Return st, s, b) \<Rightarrow> Some (st, s)
      | Some (Continue st, s, b) \<Rightarrow> serve_connection mm rd E srv ctx (Suc served) s b st)"
  by pat_completeness auto
termination
  by (relation "measure (\<lambda>(mm, rd, E, srv, ctx, served, s, b, st). max (max_requests_per_connection srv) 1 - served)")
    (auto dest!: serve_request_Continue)

declare serve_connection.simps [simp del]

definition conn_new :: "bool \<Rightarrow> Conn" where
  "conn_new permit = \<lparr>c_send = send_new, c_permit = permit, c_trace = []\<rparr>"

definition handle_connection_with_permit ::
  "search \<Rightarrow> ('s, 'e) reader \<Rightarrow> 'z Env \<Rightarrow> 'a Server \<Rightarrow> 's \<Rightarrow> bool \<Rightarrow> 'a option \<Rightarrow> (Conn \<times> 's) option" where
  "handle_connection_with_permit mm rd E srv s permit peer_addr =
     serve_connection mm rd E srv (gate_context_new peer_addr) 0 s recv_new (conn_new permit)"

end
