(* ===== verification/Streaming_Spec.thy ===== *)
theory Streaming_Spec
  imports Server
begin

text \<open>
  Streamed responses of \<^verbatim>\<open>crates/core/src/server.rs\<close> as the client sees them. The relation \<open>stream_run\<close> is what the body
  loop can do when clocks, writes and encoders are left open; the loop is one of its runs. A response
  that is reported as complete is a head and one message of the chunked grammar that carries exactly what
  the producer sent; a response that is not complete never looks complete.
\<close>

section \<open>Growth of the trace\<close>

definition grows :: "(Event \<Rightarrow> bool) \<Rightarrow> Conn \<Rightarrow> Conn \<Rightarrow> bool" where
  "grows P st st' \<longleftrightarrow> (\<exists>es. c_trace st' = c_trace st @ es \<and> (\<forall>e\<in>set es. P e)) \<and> c_permit st' = c_permit st"

named_theorems grows_intros "how operations extend the trace"

lemma grows_refl [simp]: "grows P st st"
  by (simp add: grows_def)

lemma grows_trans: "grows P st st' \<Longrightarrow> grows P st' st'' \<Longrightarrow> grows P st st''"
  by (auto simp: grows_def)

lemma grows_mono: "grows P st st' \<Longrightarrow> (\<And>e. P e \<Longrightarrow> Q e) \<Longrightarrow> grows Q st st'"
  by (auto simp: grows_def)

lemma grows_log [simp]: "grows P st (log es st) \<longleftrightarrow> (\<forall>e\<in>set es. P e)"
  by (auto simp: grows_def log_def)

lemma grows_log_trans: "\<forall>e\<in>set es. P e \<Longrightarrow> grows P (log es st) st' \<Longrightarrow> grows P st st'"
  using grows_trans grows_log by blast

lemma grows_send [simp]:
  "grows P st (st'\<lparr>c_send := x\<rparr>) \<longleftrightarrow> grows P st st'" "grows P (st\<lparr>c_send := x\<rparr>) st' \<longleftrightarrow> grows P st st'"
  by (simp_all add: grows_def)

definition is_sent :: "Event \<Rightarrow> bool" where
  "is_sent e \<longleftrightarrow> (\<exists>bs. e = Sent bs)"

definition is_write :: "Event \<Rightarrow> bool" where
  "is_write e \<longleftrightarrow> is_sent e \<or> (\<exists>mw status. e = OnResponse mw status)"

lemma is_sent_simps [simp]: "is_sent (Sent bs)" "is_write (Sent bs)" "is_write (OnResponse mw status)"
  by (simp_all add: is_sent_def is_write_def)

lemma write_all_grows: "write_all E m t bs st = (ok, st') \<Longrightarrow> grows is_sent st st'"
  by (auto simp: write_all_def split: option.splits)

lemma log_log [simp]: "log es (log es' st) = log (es' @ es) st" and log_Nil [simp]: "log [] st = st"
  by (simp_all add: log_def)

lemma write_all_log:
  "write_all E m t bs st = (ok, st') \<Longrightarrow> ok \<Longrightarrow> st' = log [Sent bs] st"
  "write_all E m t bs st = (ok, st') \<Longrightarrow> \<not> ok \<Longrightarrow> bs \<noteq> [] \<Longrightarrow>
     \<exists>k<length bs. st' = log [Sent (take k bs)] st"
  by (auto simp: write_all_def min_less_iff_disj split: option.splits intro!: exI [of _ "min _ (length bs - Suc 0)"])

section \<open>Streamed bodies\<close>

text \<open>What a body loop can do, without the clocks: it passes chunks on, and finishes at the producer's end or stops
  (a deadline, a producer that is gone, a failing encoder, a write that fails half-way).\<close>

datatype stream_end = Finished bytes | Stopped bytes

inductive stream_run :: "'z GzEncoder \<Rightarrow> StreamingResponse \<Rightarrow> nat \<Rightarrow> 'z StreamingBodyEncoder \<Rightarrow>
    bytes list \<Rightarrow> bytes list \<Rightarrow> stream_end \<Rightarrow> bool" for G streaming where
  run_stop: "stream_run G streaming i enc [] [] (Stopped [])"
| run_cut: "streaming_recv streaming i = RecvChunk d \<Longrightarrow> transform G d enc = Some (c, enc') \<Longrightarrow>
    k < length (encode_chunk c []) \<Longrightarrow> stream_run G streaming i enc [] [] (Stopped (take k (encode_chunk c [])))"
| run_cut_end: "streaming_recv streaming i = RecvEnd \<Longrightarrow> chunked_end G enc = Some t \<Longrightarrow>
    k < length t \<Longrightarrow> stream_run G streaming i enc [] [] (Stopped (take k t))"
| run_finish: "streaming_recv streaming i = RecvEnd \<Longrightarrow> chunked_end G enc = Some t \<Longrightarrow>
    stream_run G streaming i enc [] [] (Finished t)"
| run_chunk: "streaming_recv streaming i = RecvChunk d \<Longrightarrow> transform G d enc = Some (c, enc') \<Longrightarrow>
    stream_run G streaming (Suc i) enc' ds cs e \<Longrightarrow> stream_run G streaming i enc (d # ds) (c # cs) e"

inductive_cases stream_run_NilE: "stream_run G streaming i enc [] cs e"
inductive_cases stream_run_ConsE: "stream_run G streaming i enc (d # ds) cs e"

fun end_bytes :: "stream_end \<Rightarrow> bytes" where
  "end_bytes (Finished t) = t"
| "end_bytes (Stopped p) = p"

definition sent_of :: "Event list \<Rightarrow> bytes" where
  "sent_of es = concat (List.map_filter (\<lambda>e. case e of Sent bs \<Rightarrow> Some bs | _ \<Rightarrow> None) es)"

lemma sent_of_simps [simp]:
  "sent_of [] = []" "sent_of (Sent bs # es) = bs @ sent_of es" "sent_of (es @ es') = sent_of es @ sent_of es'"
  by (simp_all add: sent_of_def List.map_filter_def)

lemma encode_chunk_Nil_iff: "encode_chunk c [] = [] \<longleftrightarrow> c = []"
  by (simp add: encode_chunk_def)

text \<open>The events of a run that returned \<open>ok\<close>, and their bytes.\<close>

definition body_run :: "'z Env \<Rightarrow> StreamingResponse \<Rightarrow> nat \<Rightarrow> 'z StreamingBodyEncoder \<Rightarrow> Conn \<Rightarrow> bool \<times> Conn \<Rightarrow> bool" where
  "body_run E streaming i enc st r \<longleftrightarrow> (\<exists>ds cs e es. stream_run (env_gzip_stream E) streaming i enc ds cs e \<and>
     snd r = log es st \<and> (\<forall>e\<in>set es. is_sent e) \<and>
     sent_of es = concat (map (\<lambda>c. encode_chunk c []) cs) @ end_bytes e \<and>
     (fst r \<longleftrightarrow> (\<exists>t. e = Finished t)))"

lemma chunked_end_ne: "chunked_end G enc = Some t \<Longrightarrow> t \<noteq> []"
  by (auto simp: chunked_end_def encode_terminator_def)

lemma body_run_chunk:
  assumes "streaming_recv streaming i = RecvChunk d" "transform (env_gzip_stream E) d enc = Some (c, enc')"
    and "body_run E streaming (Suc i) enc' (log es st) r"
    and "sent_of es = encode_chunk c []" "\<forall>e\<in>set es. is_sent e"
  shows "body_run E streaming i enc st r"
proof -
  obtain ds cs e es' where run: "stream_run (env_gzip_stream E) streaming (Suc i) enc' ds cs e"
    and r: "snd r = log es' (log es st)" "\<forall>e\<in>set es'. is_sent e"
      "sent_of es' = concat (map (\<lambda>c. encode_chunk c []) cs) @ end_bytes e" "fst r \<longleftrightarrow> (\<exists>t. e = Finished t)"
    using assms(3) unfolding body_run_def by blast
  show ?thesis
    unfolding body_run_def
    by (rule exI [of _ "d # ds"], rule exI [of _ "c # cs"], rule exI [of _ e], rule exI [of _ "es @ es'"])
      (use run_chunk [OF assms(1,2) run] r assms(4,5) in auto)
qed

lemma body_run_stop: "body_run E streaming i enc st (False, st)"
  unfolding body_run_def
  by (rule exI [of _ "[]"], rule exI [of _ "[]"], rule exI [of _ "Stopped []"], rule exI [of _ "[]"]) (auto intro: run_stop)

lemma body_run_last:
  assumes "stream_run (env_gzip_stream E) streaming i enc [] [] e"
  shows "body_run E streaming i enc st (\<exists>t. e = Finished t, log [Sent (end_bytes e)] st)"
  unfolding body_run_def
  by (rule exI [of _ "[]"], rule exI [of _ "[]"], rule exI [of _ e], rule exI [of _ "[Sent (end_bytes e)]"]) (use assms in auto)

lemma chunked_body_loop_run:
  assumes "chunked_body_loop E srv streaming m i enc st = Some r"
  shows "body_run E streaming i enc st r"
proof (rule chunked_body_loop.raw_induct
    [where P = "\<lambda>E srv streaming m i enc st r. body_run E streaming i enc st r", OF _ assms], goal_cases)
  case (1 loop E srv streaming m i enc st r)
  note IH = 1(1)
  show ?case
  proof (cases "env_recv_expires E (m @ [i, 1]) (write_timeout E srv (m @ [i, 0]))")
    case True
    with 1(2) show ?thesis by (auto simp: body_run_stop)
  next
    case live: False
    show ?thesis
    proof (cases "streaming_recv streaming i")
      case RecvAborted
      with 1(2) live show ?thesis by (auto simp: body_run_stop)
    next
      case RecvEnd
      show ?thesis
      proof (cases "chunked_end (env_gzip_stream E) enc")
        case None
        with 1(2) live RecvEnd show ?thesis by (auto simp: body_run_stop)
      next
        case (Some t)
        obtain ok st' where w: "write_all E (m @ [i, 3]) (Some (write_timeout E srv (m @ [i, 2]))) t st = (ok, st')"
          by fastforce
        with 1(2) live RecvEnd Some have r: "r = (ok, st')" by simp
        show ?thesis
        proof (cases ok)
          case True
          with body_run_last [OF run_finish [OF RecvEnd Some]] w r write_all_log(1) show ?thesis by fastforce
        next
          case False
          then obtain k where k: "k < length t" "st' = log [Sent (take k t)] st"
            using w write_all_log(2) chunked_end_ne [OF Some] by blast
          with body_run_last [OF run_cut_end [OF RecvEnd Some k(1)]] r False show ?thesis by simp
        qed
      qed
    next
      case (RecvChunk d)
      show ?thesis
      proof (cases "transform (env_gzip_stream E) d enc")
        case None
        with 1(2) live RecvChunk show ?thesis by (auto simp: body_run_stop)
      next
        case (Some ce)
        obtain c enc' where ce: "ce = (c, enc')" by (cases ce)
        note t = Some [unfolded ce]
        obtain ok st' where w: "write_all E (m @ [i, 3]) (Some (write_timeout E srv (m @ [i, 2]))) (encode_chunk c []) st = (ok, st')"
          by fastforce
        consider "encode_chunk c [] = []" "loop E srv streaming m (Suc i) enc' st = Some r"
          | "ok" "loop E srv streaming m (Suc i) enc' st' = Some r" | "\<not> ok" "encode_chunk c [] \<noteq> []" "r = (False, st')"
          using 1(2) live RecvChunk t w by (auto split: if_splits)
        then show ?thesis
        proof cases
          case 1
          with IH show ?thesis
            using body_run_chunk [OF RecvChunk t, of "[]" st r] by simp
        next
          case 2
          then have "st' = log [Sent (encode_chunk c [])] st" using w write_all_log(1) by blast
          with 2 IH show ?thesis
            using body_run_chunk [OF RecvChunk t, of "[Sent (encode_chunk c [])]" st r] by simp
        next
          case 3
          then obtain k where k: "k < length (encode_chunk c [])" "st' = log [Sent (take k (encode_chunk c []))] st"
            using w write_all_log(2) by blast
          with body_run_last [OF run_cut [OF RecvChunk t k(1)]] 3 show ?thesis by simp
        qed
      qed
    qed
  qed
qed

section \<open>Messages of the chunked grammar\<close>

lemma line_split:
  assumes "l @ lf # r = l' @ lf # r'" "lf \<notin> set l" "lf \<notin> set l'"
  shows "l = l' \<and> r = r'"
  using assms
proof (induction l arbitrary: l')
  case Nil
  then show ?case by (cases l') auto
next
  case (Cons x l)
  then show ?case by (cases l') auto
qed

lemma size_line_split:
  assumes "size_line l n" "size_line l' n'" "l @ crlf @ r = l' @ crlf @ r'"
  shows "l = l' \<and> n = n' \<and> r = r'"
proof -
  have "(l @ [cr]) @ lf # r = (l' @ [cr]) @ lf # r'" using assms(3) by simp
  then have "l @ [cr] = l' @ [cr] \<and> r = r'"
    using assms(1,2) by (intro line_split) (auto simp: size_line_def)
  with assms(1,2) show ?thesis by (auto simp: size_line_def)
qed

text \<open>No message is a proper prefix of another one.\<close>

lemma chunked_msg_prefix_free:
  "chunked_msg w body \<Longrightarrow> chunked_msg w' body' \<Longrightarrow> w @ x = w' @ x' \<Longrightarrow> w = w' \<and> body = body'"
proof (induction arbitrary: w' body' rule: chunked_msg.induct)
  case (last_chunk l)
  from last_chunk.prems show ?case
  proof (cases rule: chunked_msg.cases)
    case (last_chunk l')
    with \<open>size_line l 0\<close> last_chunk.prems(2) size_line_split [of l 0 l' 0 "crlf @ x" "crlf @ x'"] show ?thesis by simp
  next
    case (one_chunk l' n data w1 body1)
    with \<open>size_line l 0\<close> last_chunk.prems(2)
      size_line_split [of l 0 l' n "crlf @ x" "data @ crlf @ w1 @ x'"] show ?thesis by simp
  qed
next
  case (one_chunk l n data w body)
  from one_chunk.prems(1) show ?case
  proof (cases rule: chunked_msg.cases)
    case (last_chunk l')
    with one_chunk.hyps one_chunk.prems(2)
      size_line_split [of l n l' 0 "data @ crlf @ w @ x" "crlf @ x'"] show ?thesis by simp
  next
    case o: (one_chunk l' n' data' w1 body1)
    have "l = l' \<and> n = n' \<and> data @ crlf @ w @ x = data' @ crlf @ w1 @ x'"
      using o one_chunk.hyps one_chunk.prems(2)
        size_line_split [of l n l' n' "data @ crlf @ w @ x" "data' @ crlf @ w1 @ x'"] by simp
    moreover from this have "data = data' \<and> w @ x = w1 @ x'"
      using one_chunk.hyps o by simp
    ultimately show ?thesis using o one_chunk.IH [of w1 body1] by simp
  qed
qed

abbreviation frames :: "bytes list \<Rightarrow> bytes" where
  "frames cs \<equiv> concat (map (\<lambda>c. encode_chunk c []) cs)"

lemma frames_msg:
  "\<forall>c\<in>set cs. length c \<le> U64_MAX \<Longrightarrow> chunked_msg (frames cs @ encode_terminator []) (concat cs)"
proof (induction cs)
  case Nil
  have "to_hex 0 = ''0''" by code_simp
  then show ?case using chunked_msg.last_chunk [OF size_line_hex [of 0]] by (simp add: encode_terminator_def)
next
  case (Cons c cs)
  then show ?case
    using chunked_msg.one_chunk [OF size_line_hex [of "length c"], of c "frames cs @ encode_terminator []" "concat cs"]
    by (cases "c = []") (auto simp: encode_chunk_def)
qed

definition never_complete :: "bytes \<Rightarrow> bool" where
  "never_complete body \<longleftrightarrow> (\<forall>n data. \<not> chunked_msg (take n body) data)"

lemma proper_prefix_never_complete:
  assumes "chunked_msg (body @ ext) data" "ext \<noteq> []"
  shows "never_complete body"
  unfolding never_complete_def
proof (intro allI notI)
  fix n data' assume m: "chunked_msg (take n body) data'"
  have "take n body @ (drop n body @ ext) = (body @ ext) @ []" by simp
  then have "take n body = body @ ext" using chunked_msg_prefix_free [OF m assms(1)] by blast
  then have "length (take n body) = length body + length ext" by simp
  with assms(2) show False by (simp add: min_def split: if_splits)
qed

section \<open>What runs of the body loop send\<close>

text \<open>Sizes that fit in memory: of the producer's chunks and of the encoder's output.\<close>

definition sized :: "'z GzEncoder \<Rightarrow> StreamingResponse \<Rightarrow> bool" where
  "sized G streaming \<longleftrightarrow> (\<forall>i d. streaming_recv streaming i = RecvChunk d \<longrightarrow> length d \<le> U64_MAX) \<and>
     (\<forall>d z out z'. gze_write_flush G d z = Some (out, z') \<longrightarrow> length out \<le> U64_MAX) \<and>
     (\<forall>z out. gze_finish G z = Some out \<longrightarrow> length out \<le> U64_MAX)"

lemma transform_sized:
  "sized G streaming \<Longrightarrow> streaming_recv streaming i = RecvChunk d \<Longrightarrow> transform G d enc = Some (c, enc') \<Longrightarrow>
   length c \<le> U64_MAX"
  unfolding sized_def by (cases enc; cases "d = []") (auto simp: transform_def gzip_encode_chunk_def, blast)

lemma encode_terminator_app: "encode_terminator out = out @ encode_terminator []"
  by (simp add: encode_terminator_def)

lemma chunked_end_frames:
  "chunked_end G enc = Some t \<Longrightarrow> \<exists>res. encoder_finish G enc = Some res \<and> t = frames [res] @ encode_terminator []"
  using encode_terminator_app [of "encode_chunk _ []"] by (auto simp: chunked_end_def encode_chunk_Nil_iff)

lemma encoder_finish_sized: "sized G streaming \<Longrightarrow> encoder_finish G enc = Some res \<Longrightarrow> length res \<le> U64_MAX"
  by (auto simp: sized_def encoder_finish_def gzip_finish_def split: option.splits)

lemma stream_run_sized:
  "stream_run G streaming i enc ds cs e \<Longrightarrow> sized G streaming \<Longrightarrow> \<forall>c\<in>set cs. length c \<le> U64_MAX"
  by (induction rule: stream_run.induct) (auto dest: transform_sized)

lemma stopped_extends:
  "stream_run G streaming i enc ds cs e \<Longrightarrow> sized G streaming \<Longrightarrow> e = Stopped p \<Longrightarrow>
   \<exists>ext cs'. ext \<noteq> [] \<and> frames cs @ p @ ext = frames (cs @ cs') @ encode_terminator [] \<and>
     (\<forall>c\<in>set cs'. length c \<le> U64_MAX)"
proof (induction rule: stream_run.induct)
  case (run_stop i enc)
  then show ?case by (intro exI [of _ "encode_terminator []"] exI [of _ "[]"]) (simp add: encode_terminator_def)
next
  case (run_cut i d enc c enc' k)
  then show ?case
    using transform_sized [OF run_cut.prems(1) run_cut.hyps(1,2)]
    by (intro exI [of _ "drop k (encode_chunk c []) @ encode_terminator []"] exI [of _ "[c]"]) auto
next
  case (run_cut_end i enc t k)
  obtain res where res: "encoder_finish G enc = Some res" "t = frames [res] @ encode_terminator []"
    using chunked_end_frames [OF run_cut_end.hyps(2)] by blast
  have "take k t @ drop k t = frames [res] @ encode_terminator []" using res(2) by (metis append_take_drop_id)
  moreover have "drop k t \<noteq> []" using run_cut_end.hyps(3) by simp
  moreover have "p = take k t" using run_cut_end.prems(2) by simp
  moreover have "length res \<le> U64_MAX" using encoder_finish_sized [OF run_cut_end.prems(1) res(1)] .
  ultimately show ?case
    by (intro exI [of _ "drop k t"] exI [of _ "[res]"]) (metis append_Nil concat.simps(1) list.simps(8) list.set(1,2) empty_iff insert_iff)
next
  case (run_chunk i d enc c enc' ds cs e)
  then show ?case by auto
qed simp

lemma stopped_never_complete:
  assumes "stream_run G streaming i enc ds cs (Stopped p)" "sized G streaming"
  shows "never_complete (frames cs @ p)"
proof -
  obtain ext cs' where e: "ext \<noteq> []" "frames cs @ p @ ext = frames (cs @ cs') @ encode_terminator []"
    "\<forall>c\<in>set cs'. length c \<le> U64_MAX"
    using stopped_extends [OF assms refl] by blast
  have "chunked_msg (frames (cs @ cs') @ encode_terminator []) (concat (cs @ cs'))"
    using stream_run_sized [OF assms] e(3) by (intro frames_msg) auto
  then have "chunked_msg ((frames cs @ p) @ ext) (concat (cs @ cs'))" using e(2) by (metis append.assoc)
  then show ?thesis using e(1) by (rule proper_prefix_never_complete)
qed

text \<open>The encoder over a list of chunks, and what is expected of it: decoding gives back the input.\<close>

fun gzip_chunks :: "'z GzEncoder \<Rightarrow> bytes list \<Rightarrow> 'z \<Rightarrow> (bytes list \<times> 'z) option" where
  "gzip_chunks G [] z = Some ([], z)"
| "gzip_chunks G (d # ds) z =
     (case gzip_encode_chunk G d z of
        None \<Rightarrow> None
      | Some (c, z) \<Rightarrow> map_option (\<lambda>(cs, z). (c # cs, z)) (gzip_chunks G ds z))"

definition gzip_decodes :: "'z GzEncoder \<Rightarrow> (bytes \<Rightarrow> bytes) \<Rightarrow> bool" where
  "gzip_decodes G gunzip \<longleftrightarrow> (\<forall>ds cs z res. gzip_chunks G ds (gze_new G) = Some (cs, z) \<longrightarrow>
     gzip_finish G z = Some res \<longrightarrow> gunzip (concat cs @ res) = concat ds)"

text \<open>The chunks that a producer sent before it finished.\<close>

definition produced :: "StreamingResponse \<Rightarrow> nat \<Rightarrow> bytes list \<Rightarrow> bool" where
  "produced streaming i ds \<longleftrightarrow> (\<forall>j<length ds. streaming_recv streaming (i + j) = RecvChunk (ds ! j)) \<and>
     streaming_recv streaming (i + length ds) = RecvEnd"

lemma produced_Nil: "produced streaming i [] \<longleftrightarrow> streaming_recv streaming i = RecvEnd"
  by (simp add: produced_def)

lemma produced_Cons:
  "produced streaming i (d # ds) \<longleftrightarrow> streaming_recv streaming i = RecvChunk d \<and> produced streaming (Suc i) ds"
  by (auto simp: produced_def less_Suc_eq_0_disj)

lemma finished_run:
  "stream_run G streaming i enc ds cs e \<Longrightarrow> e = Finished t \<Longrightarrow> produced streaming i ds \<and>
   (\<exists>res. t = frames [res] @ encode_terminator [] \<and>
     (case enc of
        None \<Rightarrow> cs = ds \<and> res = []
      | Some z \<Rightarrow> \<exists>z'. gzip_chunks G ds z = Some (cs, z') \<and> gzip_finish G z' = Some res))"
proof (induction rule: stream_run.induct)
  case (run_finish i enc t')
  then obtain res where "encoder_finish G enc = Some res" "t = frames [res] @ encode_terminator []"
    using chunked_end_frames by blast
  with run_finish show ?case by (cases enc) (auto simp: produced_Nil encoder_finish_def)
next
  case (run_chunk i d enc c enc' ds cs e)
  then obtain res where IH: "produced streaming (Suc i) ds" "t = frames [res] @ encode_terminator []"
    "case enc' of None \<Rightarrow> cs = ds \<and> res = []
     | Some z \<Rightarrow> \<exists>z'. gzip_chunks G ds z = Some (cs, z') \<and> gzip_finish G z' = Some res" by blast
  have "case enc of None \<Rightarrow> c # cs = d # ds \<and> res = []
     | Some z \<Rightarrow> \<exists>z'. gzip_chunks G (d # ds) z = Some (c # cs, z') \<and> gzip_finish G z' = Some res"
    using IH(3) run_chunk.hyps(2) by (cases enc) (auto simp: transform_def)
  with IH(1,2) run_chunk.hyps(1) show ?case by (auto simp: produced_Cons)
qed auto

lemma finished_message:
  assumes "stream_run G streaming 0 enc ds cs (Finished t)" "sized G streaming" "gzip_decodes G gunzip"
    and "enc \<in> {None, Some (gze_new G)}"
  shows "produced streaming 0 ds \<and>
    (\<exists>data. chunked_msg (frames cs @ t) data \<and> (if enc = None then data else gunzip data) = concat ds)"
proof -
  obtain res where p: "produced streaming 0 ds" and t: "t = frames [res] @ encode_terminator []"
    and cs: "case enc of None \<Rightarrow> cs = ds \<and> res = []
     | Some z \<Rightarrow> \<exists>z'. gzip_chunks G ds z = Some (cs, z') \<and> gzip_finish G z' = Some res"
    using finished_run [OF assms(1) refl] by blast
  have "length res \<le> U64_MAX"
    using cs assms(2) encoder_finish_sized [of G streaming "Some _" res]
    by (cases enc) (auto simp: encoder_finish_def)
  then have "chunked_msg (frames (cs @ [res]) @ encode_terminator []) (concat (cs @ [res]))"
    using stream_run_sized [OF assms(1,2)] by (intro frames_msg) auto
  moreover have "(if enc = None then concat (cs @ [res]) else gunzip (concat (cs @ [res]))) = concat ds"
    using cs assms(3,4) by (auto simp: gzip_decodes_def split: option.splits)
  ultimately show ?thesis using p t by auto
qed

section \<open>The response\<close>

lemma prepare_encoder:
  "prepare_streaming_compression G srv head r = (r', enc) \<Longrightarrow> r_status r' = r_status r \<and> enc \<in> {None, Some (gze_new G)}"
  by (auto simp: prepare_streaming_compression_def begin_streaming_compression_def Let_def compression_try_add
      try_add_header_eq try_add_vary_def with_vary_unfold with_header_def push_header_def
      split: option.splits if_splits sum.splits)

lemma prepare_gzip_header:
  "prepare_streaming_compression G srv head r = (r', Some z) \<Longrightarrow> response_header r' ''content-encoding'' = Some ''gzip''"
  by (auto simp: prepare_streaming_compression_def begin_streaming_compression_def Let_def compression_try_add
      gzip_encoding_header split: option.splits if_splits)

lemma sent_of_unsent: "\<forall>e\<in>set es. \<not> is_sent e \<Longrightarrow> sent_of es = []"
proof (induction es)
  case (Cons e es)
  then have "sent_of es = []" by simp
  with Cons.prems show ?case by (cases e) (auto simp: sent_of_def List.map_filter_def is_sent_def)
qed simp

definition is_mapped :: "Event \<Rightarrow> bool" where
  "is_mapped e \<longleftrightarrow> (\<exists>n. e = MapResponseCalled n)"

lemma map_response_events: "map_response m i cs head r = (r', es) \<Longrightarrow> e \<in> set es \<Longrightarrow> is_mapped e"
  by (induction cs arbitrary: i r es) (auto simp: is_mapped_def split: prod.splits)

lemma streaming_head_events: "streaming_head srv m streaming head = (r, es) \<Longrightarrow> e \<in> set es \<Longrightarrow> is_mapped e"
  by (auto simp: streaming_head_def Let_def dest: map_response_events split: prod.splits)

lemma mapped_unsent: "\<forall>e\<in>set es. is_mapped e \<Longrightarrow> sent_of es = []"
  by (rule sent_of_unsent) (auto simp: is_mapped_def is_sent_def)

text \<open>What the client gets of an HTTP/1.1 response whose head is \<open>r\<close>.\<close>

definition delivered :: "(bytes \<Rightarrow> bytes) \<Rightarrow> StreamingResponse \<Rightarrow> Response \<Rightarrow> bool \<Rightarrow> bytes \<Rightarrow> bool" where
  "delivered gunzip streaming r gzipped body \<longleftrightarrow>
     (if is_bodyless_status (r_status r) then body = []
      else \<exists>ds data. produced streaming 0 ds \<and> chunked_msg body data \<and>
        (if gzipped then response_header r ''content-encoding'' = Some ''gzip'' \<and> gunzip data = concat ds
         else data = concat ds))"

definition undelivered :: "bytes \<Rightarrow> bytes \<Rightarrow> bool" where
  "undelivered hdr sent \<longleftrightarrow> (\<exists>k<length hdr. sent = take k hdr) \<or> (\<exists>body. sent = hdr @ body \<and> never_complete body)"

lemma chunked_head_ne: "serialize_chunked_head r ka \<noteq> []"
  by (simp add: serialize_chunked_head_def Let_def)

lemma http11_response:
  assumes run: "write_streaming_response E srv m streaming head ka st = Some (c, st')"
    and v: "rh_version head = Http11"
    and sz: "sized (env_gzip_stream E) streaming" and gz: "gzip_decodes (env_gzip_stream E) gunzip"
  obtains es r ka' gzipped where "st' = log es st" "\<forall>e\<in>set es. is_sent e \<or> is_mapped e"
    "\<forall>d. c = Some d \<longrightarrow> (\<exists>body. sent_of es = serialize_chunked_head r ka' @ body \<and>
        delivered gunzip streaming r gzipped body \<and> r_status r = sc_status d \<and> (sc_keep_alive d \<longrightarrow> ka'))"
    "c = None \<longrightarrow> undelivered (serialize_chunked_head r ka') (sent_of es)"
proof -
  obtain r0 ms where h: "streaming_head srv (m @ [0]) streaming head = (r0, ms)" by fastforce
  have ms: "\<forall>e\<in>set ms. is_mapped e" using streaming_head_events [OF h] by blast
  define ka' where "ka' \<longleftrightarrow> ka \<and> still_alive E srv (m @ [4])"
  obtain r enc where pr: "prepare_streaming_compression (env_gzip_stream E) srv head r0 = (r, enc)" by fastforce
  note enc = prepare_encoder [OF pr]
  let ?hd = "serialize_chunked_head r ka'"
  obtain ok st1 where w: "write_all E (m @ [6]) (Some (write_timeout E srv (m @ [5]))) ?hd (log ms st) = (ok, st1)"
    by fastforce
  let ?done = "\<lparr>sc_keep_alive = ka' \<and> still_alive E srv (m @ [8]), sc_status = r_status r0\<rparr>"
  have eq: "write_streaming_response E srv m streaming head ka st =
      (if \<not> ok then Some (None, st1)
       else if is_bodyless_status (r_status r) then Some (Some ?done, st1)
       else map_option (\<lambda>(ended, st). (if ended then Some ?done else None, st))
         (chunked_body_loop E srv streaming (m @ [7]) 0 enc st1))"
    by (simp add: write_streaming_response_def h v pr w ka'_def [symmetric])
  show thesis
  proof (cases ok)
    case False
    then obtain k where k: "k < length ?hd" "st1 = log [Sent (take k ?hd)] (log ms st)"
      using w write_all_log(2) chunked_head_ne by blast
    with False run eq ms mapped_unsent [OF ms] show thesis
      by (intro that [of "ms @ [Sent (take k ?hd)]" r ka']) (auto simp: undelivered_def)
  next
    case True
    then have st1: "st1 = log (ms @ [Sent ?hd]) st" using w write_all_log(1) by fastforce
    show thesis
    proof (cases "is_bodyless_status (r_status r)")
      case b: True
      with True run eq enc ms mapped_unsent [OF ms] st1 show thesis
        by (intro that [of "ms @ [Sent ?hd]" r ka' False]) (auto simp: delivered_def)
    next
      case b: False
      then obtain ended where l: "chunked_body_loop E srv streaming (m @ [7]) 0 enc st1 = Some (ended, st')"
        and c: "c = (if ended then Some ?done else None)" using True run eq by auto
      obtain ds cs e es where body: "stream_run (env_gzip_stream E) streaming 0 enc ds cs e"
        "st' = log es st1" "\<forall>e\<in>set es. is_sent e" "sent_of es = frames cs @ end_bytes e" "ended \<longleftrightarrow> (\<exists>t. e = Finished t)"
        using chunked_body_loop_run [OF l] unfolding body_run_def by auto
      have sent: "sent_of (ms @ [Sent ?hd] @ es) = ?hd @ frames cs @ end_bytes e"
        using mapped_unsent [OF ms] body(4) by simp
      show thesis
      proof (rule that [of "ms @ [Sent ?hd] @ es" r ka' "enc \<noteq> None"])
        show "st' = log (ms @ [Sent ?hd] @ es) st" using body(2) st1 by simp
        show "\<forall>e\<in>set (ms @ [Sent ?hd] @ es). is_sent e \<or> is_mapped e" using ms body(3) by auto
        show "c = None \<longrightarrow> undelivered ?hd (sent_of (ms @ [Sent ?hd] @ es))"
          using c body(1,5) stopped_never_complete [OF _ sz] sent by (cases e) (auto simp: undelivered_def)
        have "delivered gunzip streaming r (enc \<noteq> None) (frames cs @ t)" if "e = Finished t" for t
          using finished_message [OF body(1) [unfolded that] sz gz] enc b pr prepare_gzip_header
          by (fastforce simp: delivered_def)
        then show "\<forall>d. c = Some d \<longrightarrow> (\<exists>body. sent_of (ms @ [Sent ?hd] @ es) = ?hd @ body \<and>
            delivered gunzip streaming r (enc \<noteq> None) body \<and> r_status r = sc_status d \<and> (sc_keep_alive d \<longrightarrow> ka'))"
          using c body(5) sent enc by (auto split: if_splits)
      qed
    qed
  qed
qed


definition sample_env :: "unit Env" where
  "sample_env = \<lparr>env_elapsed = (\<lambda>_. 0), env_shutdown = (\<lambda>_. False), env_read_expires = (\<lambda>_ _. False),
     env_recv_expires = (\<lambda>_ _. False), env_write = (\<lambda>_ _ _. None), env_gzip = (\<lambda>_. None),
     env_gzip_stream = \<lparr>gze_new = (), gze_write_flush = (\<lambda>_ _. None), gze_finish = (\<lambda>_. None)\<rparr>,
     env_offload_fails = (\<lambda>_. False), env_grow = max, env_openapi_json = ''{}'', env_openapi_yaml = []\<rparr>"

definition sample_stream :: StreamingResponse where
  "sample_stream = \<lparr>sr_status = 200, sr_content_type = None,
     sr_rx = (\<lambda>i. if i = 0 then Some (ChunkEvent ''ab'') else if i = 1 then Some (ChunkEvent ''c'') else Some EndEvent)\<rparr>"

definition sample_server :: "unit Server" where
  "sample_server = server_new"

lemma sample_stream_ok:
  "sized (env_gzip_stream sample_env) sample_stream" "gzip_decodes (env_gzip_stream sample_env) (\<lambda>z. z)"
  by (auto simp: sized_def gzip_decodes_def sample_env_def sample_stream_def streaming_recv_def gzip_finish_def
      split: if_splits)

lemma sample_stream_runs:
  "\<exists>st'. write_streaming_response sample_env sample_server [1, 9] sample_stream (mk_head ''GET'' ''/'' Http11 []) True (conn_new True) =
     Some (Some \<lparr>sc_keep_alive = True, sc_status = 200\<rparr>, st')"
  by (simp add: write_streaming_response_def streaming_head_def sample_server_def server_new_def Let_def
      finalize_streaming_head_def apply_cors_def prepare_streaming_compression_def write_all_def still_alive_def
      sample_env_def sample_stream_def response_empty_def response_new_def is_bodyless_status_def
      DEFAULT_MAX_CONNECTION_LIFETIME_def chunked_body_loop.simps streaming_recv_def transform_def encode_chunk_Nil_iff
      chunked_end_def encoder_finish_def)


end
