(* ===== verification/Server_Spec.thy ===== *)
theory Server_Spec
  imports Streaming_Spec
begin

text \<open>
  What a connection of \<^verbatim>\<open>crates/core/src/server.rs\<close> does as a whole: it returns; what it does depends on the bytes of the
  stream alone, not on how they arrive; a request that a gate rejects reaches nothing behind the
  gates; and the bytes that it sends are a sequence of complete responses, one per request and in order,
  of which only the last may be cut short or end the connection.
\<close>

section \<open>The body loops return\<close>

definition producer_stops :: "StreamingResponse \<Rightarrow> bool" where
  "producer_stops streaming \<longleftrightarrow> (\<exists>n. \<forall>d. streaming_recv streaming n \<noteq> RecvChunk d)"

lemma chunked_body_loop_returns:
  assumes "\<forall>d. streaming_recv streaming n \<noteq> RecvChunk d" "i \<le> n"
  shows "\<exists>r. chunked_body_loop E srv streaming m i enc st = Some r"
  using assms(2)
proof (induction "n - i" arbitrary: i enc st)
  case 0
  then have "i = n" by simp
  with assms(1) show ?case by (subst chunked_body_loop.simps) (auto split: RecvOutcome.split option.split)
next
  case (Suc k)
  then have IH: "\<exists>r. chunked_body_loop E srv streaming m (Suc i) enc st = Some r" for enc st by simp
  show ?case
    using IH by (subst chunked_body_loop.simps) (auto split: RecvOutcome.split option.split prod.split)
qed

lemma http10_body_loop_returns:
  assumes "\<forall>d. streaming_recv streaming n \<noteq> RecvChunk d" "i \<le> n"
  shows "\<exists>r. http10_body_loop E srv streaming m i st = Some r"
  using assms(2)
proof (induction "n - i" arbitrary: i st)
  case 0
  then have "i = n" by simp
  with assms(1) show ?case by (subst http10_body_loop.simps) (auto split: RecvOutcome.split)
next
  case (Suc k)
  then have IH: "\<exists>r. http10_body_loop E srv streaming m (Suc i) st = Some r" for st by simp
  show ?case using IH by (subst http10_body_loop.simps) (auto split: RecvOutcome.split prod.split)
qed

lemma write_streaming_returns:
  assumes "producer_stops streaming"
  shows "write_streaming_response E srv m streaming head ka st \<noteq> None"
proof -
  obtain n where n: "\<forall>d. streaming_recv streaming n \<noteq> RecvChunk d" using assms by (auto simp: producer_stops_def)
  have "\<exists>ok st'. http10_body_loop E srv streaming m 0 st = Some (ok, st')"
    "\<exists>ok st'. chunked_body_loop E srv streaming m 0 enc st = Some (ok, st')" for m enc st
    using http10_body_loop_returns [OF n le0] chunked_body_loop_returns [OF n le0] by (metis surj_pair)+
  then show ?thesis
    by (auto simp: write_streaming_response_def Let_def split: prod.split) (metis option.distinct(1))+
qed

definition producers_stop :: "'a Server \<Rightarrow> bool" where
  "producers_stop srv \<longleftrightarrow> (\<forall>h m head body streaming. srv_handler srv = Some h \<longrightarrow>
     h_streaming h m head body = Some streaming \<longrightarrow> producer_stops streaming)"

lemma handle_request_returns:
  assumes "producers_stop srv"
  shows "handle_request E srv ctx served request leftover st \<noteq> None"
proof -
  have "answer_request E srv served head body ka st \<noteq> None" for head body ka st
    using assms write_streaming_returns [of _ E srv]
    by (auto simp: answer_request_def stream_request_def producers_stop_def Let_def bind_eq_Some_conv
        split: prod.split option.split)
  then show ?thesis by (auto simp: handle_request_def Let_def split: prod.split option.split)
qed

lemma serve_request_returns:
  assumes "producers_stop srv" "substring_search mm" "bounded_reader rd" "recv_inv b" "srv_max_body_bytes srv \<le> U64_MAX"
  shows "\<exists>flow s' b'. serve_request mm rd E srv ctx served s b st = Some (flow, s', b') \<and> recv_inv b'"
proof -
  obtain x s' b' where "read_request_with_limit mm rd s b (srv_max_body_bytes srv) = Some (x, s', b')" "recv_inv b'"
    using bounded_reader.read_request_returns [OF assms(3,2,4,5)] by blast
  with assms(4) handle_request_returns [OF assms(1)] show ?thesis
    by (auto simp: serve_request_def Let_def split: sum.split option.split)
qed

lemma serve_connection_returns:
  assumes "producers_stop srv" "substring_search mm" "bounded_reader rd" "srv_max_body_bytes srv \<le> U64_MAX"
  shows "recv_inv b \<Longrightarrow> \<exists>r. serve_connection mm rd E srv ctx served s b st = Some r"
proof (induction "max (max_requests_per_connection srv) 1 - served" arbitrary: served s b st rule: less_induct)
  case less
  obtain flow s' b' where sr: "serve_request mm rd E srv ctx served s b st = Some (flow, s', b')" "recv_inv b'"
    using serve_request_returns [OF assms(1-3) less.prems assms(4)] by blast
  show ?case
  proof (cases flow)
    case (Return st')
    with sr show ?thesis by (simp add: serve_connection.simps [of mm rd E srv ctx served])
  next
    case (Continue st')
    have "Suc served < max (max_requests_per_connection srv) 1"
      using serve_request_Continue [OF sr(1) [unfolded Continue]] .
    then have "\<exists>r. serve_connection mm rd E srv ctx (Suc served) s' b' st' = Some r"
      using less.hyps [OF _ sr(2)] by simp
    with sr Continue show ?thesis by (simp add: serve_connection.simps [of mm rd E srv ctx served])
  qed
qed

section \<open>The trace of one request\<close>

fun conn_of :: "Conn Flow \<Rightarrow> Conn" where
  "conn_of (Flow.Continue st) = st"
| "conn_of (Flow.Return st) = st"

definition is_read :: "Event \<Rightarrow> bool" where
  "is_read e \<longleftrightarrow> (\<exists>r. e = RequestRead r)"

text \<open>What only a request that passed the gates may cause.\<close>

fun privileged :: "Event \<Rightarrow> bool" where
  "privileged (InterceptCalled n) = True"
| "privileged PluginsCalled = True"
| "privileged StreamingCalled = True"
| "privileged HandlerCalled = True"
| "privileged (MapResponseCalled n) = True"
| "privileged (Delegated l p) = True"
| "privileged e = False"

text \<open>What answering a request appends: calls behind the gates, bytes and notifications.\<close>

definition is_call :: "Event \<Rightarrow> bool" where
  "is_call e \<longleftrightarrow> privileged e \<and> (\<forall>l p. e \<noteq> Delegated l p)"

definition is_answer :: "Event \<Rightarrow> bool" where
  "is_answer e \<longleftrightarrow> is_write e \<or> is_call e"

lemma http10_body_loop_grows:
  assumes "http10_body_loop E srv streaming m i st = Some r"
  shows "grows is_sent st (snd r)"
proof (rule http10_body_loop.raw_induct
    [where P = "\<lambda>E srv streaming m i st r. grows is_sent st (snd r)", OF _ assms], goal_cases)
  case (1 loop E srv streaming m i st r)
  show ?case
  proof (cases "streaming_recv streaming i")
    case (RecvChunk d)
    obtain ok st' where w: "write_all E (m @ [i, 3]) (Some (write_timeout E srv (m @ [i, 2]))) d st = (ok, st')"
      by fastforce
    consider "r = (False, st)" | "loop E srv streaming m (Suc i) st = Some r"
      | "loop E srv streaming m (Suc i) st' = Some r" | "r = (False, st')"
      using 1(2) unfolding RecvChunk w RecvOutcome.case prod.case by (metis option.inject)
    then show ?thesis
    proof cases
      case 3
      then show ?thesis using 1(1) write_all_grows [OF w] grows_trans by blast
    qed (use 1(1) write_all_grows [OF w] in simp_all)
  qed (use 1(2) in \<open>auto split: if_splits\<close>)
qed

lemma chunked_body_loop_grows:
  "chunked_body_loop E srv streaming m i enc st = Some r \<Longrightarrow> grows is_sent st (snd r)"
  using chunked_body_loop_run [of E srv streaming m i enc st r] by (auto simp: body_run_def)

lemma write_streaming_grows:
  assumes "write_streaming_response E srv m streaming head ka st = Some (c, st')"
  shows "grows (\<lambda>e. is_sent e \<or> is_mapped e) st st'"
proof -
  obtain r ms where h: "streaming_head srv (m @ [0]) streaming head = (r, ms)" by fastforce
  have "grows is_sent (log ms st) st'"
    using assms
    by (auto simp: write_streaming_response_def h Let_def split: prod.splits if_splits
        dest!: write_all_grows http10_body_loop_grows chunked_body_loop_grows intro: grows_trans)
  then have "grows (\<lambda>e. is_sent e \<or> is_mapped e) (log ms st) st'" by (rule grows_mono) simp
  then show ?thesis
    by (rule grows_log_trans [rotated]) (use streaming_head_events [OF h] in blast)
qed

lemma serialize_ne: "serialize r ka \<noteq> []"
  by (simp add: serialize_def serialize_into_def Let_def)

text \<open>A response is sent whole, and then the flow follows \<open>ka\<close>, or it is cut short and the connection ends.\<close>

lemma send_response_trace:
  obtains (whole) st' where "send_response E srv m r ka st = (if ka then Flow.Continue st' else Flow.Return st')"
      "c_trace st' = c_trace st @ Sent (serialize r ka) # map (\<lambda>mw. OnResponse mw (r_status r)) (middlewares srv)"
      "c_permit st' = c_permit st"
  | (cut) st' k where "send_response E srv m r ka st = Flow.Return st'" "k < length (serialize r ka)"
      "c_trace st' = c_trace st @ [Sent (take k (serialize r ka))]" "c_permit st' = c_permit st"
proof -
  obtain sb where sb: "serialize_response (env_grow E) (c_send st) r ka = (serialize r ka, sb)"
    using serialize_response_fresh [of "env_grow E" "c_send st" r ka] by (metis prod.collapse)
  obtain ok st1 where w: "write_all E m None (serialize r ka) (st\<lparr>c_send := sb\<rparr>) = (ok, st1)" by fastforce
  show thesis
  proof (cases ok)
    case True
    with w write_all_log(1) have "st1 = log [Sent (serialize r ka)] (st\<lparr>c_send := sb\<rparr>)" by blast
    with True sb w show thesis
      by (intro whole [of "log_responses srv (r_status r) (st1\<lparr>c_send := send_shrink_if_oversized (c_send st1)\<rparr>)"])
        (auto simp: send_response_def Let_def log_responses_def log_def)
  next
    case False
    with w write_all_log(2) serialize_ne obtain k where
      "k < length (serialize r ka)" "st1 = log [Sent (take k (serialize r ka))] (st\<lparr>c_send := sb\<rparr>)" by blast
    with False sb w show thesis by (intro cut [of st1 k]) (auto simp: send_response_def log_def)
  qed
qed

lemma send_response_grows: "grows is_write st (conn_of (send_response E srv m r ka st))"
  by (rule send_response_trace [of E srv m r ka st]) (auto simp: grows_def)

lemma send_last_grows: "grows is_sent st (conn_of (send_last E m r st))"
  using write_all_grows [of E m None] by (cases "write_all E m None (serialize r False) st") (simp add: send_last_def)

lemma is_answer_simps [simp]:
  "is_call (InterceptCalled n)" "is_call PluginsCalled" "is_call StreamingCalled" "is_call HandlerCalled"
  "is_mapped e \<Longrightarrow> is_call e" "is_write e \<Longrightarrow> is_answer e" "is_sent e \<Longrightarrow> is_answer e" "is_mapped e \<Longrightarrow> is_answer e"
  "is_call e \<Longrightarrow> is_answer e"
  by (auto simp: is_answer_def is_mapped_def is_write_def is_call_def)

lemma calls_unsent: "\<forall>e\<in>set es. is_call e \<Longrightarrow> sent_of es = []"
  by (rule sent_of_unsent) (auto simp: is_call_def is_sent_def)

lemma first_intercept_events: "first_intercept m i cs head body = (r, es) \<Longrightarrow> e \<in> set es \<Longrightarrow> is_call e"
  by (induction cs arbitrary: i es) (auto split: option.splits prod.splits)

lemma stream_request_grows:
  assumes "stream_request E srv served head ka streaming st = Some flow"
  shows "grows is_answer st (conn_of flow)"
proof -
  obtain c st' where w: "write_streaming_response E srv [served, 9] streaming head ka st = Some (c, st')"
    and f: "flow = (case c of
      Some d \<Rightarrow> (let st = log_responses srv (sc_status d) st' in
        if sc_keep_alive d then Flow.Continue st else Flow.Return st)
      | None \<Rightarrow> Flow.Return st')"
    using assms by (auto simp: stream_request_def)
  have g: "grows is_answer st st'" using write_streaming_grows [OF w] by (rule grows_mono) auto
  have "conn_of flow = (case c of Some d \<Rightarrow> log_responses srv (sc_status d) st' | None \<Rightarrow> st')"
    using f by (cases c) (auto simp: Let_def)
  with g show ?thesis by (cases c) (auto simp: log_responses_def elim!: grows_trans)
qed

lemma answer_request_cases:
  assumes "answer_request E srv served head body ka st = Some flow"
  obtains (stream) es h streaming where "\<forall>e\<in>set es. is_call e" "srv_handler srv = Some h"
      "h_streaming h [served, 8] head body = Some streaming"
      "stream_request E srv served head ka streaming (log es st) = Some flow"
  | (respond) es r ka' where "\<forall>e\<in>set es. is_call e" "flow = send_response E srv [served, 14] r ka' (log es st)"
proof -
  obtain first es where f: "first_intercept [served, 6] 0 (interceptors srv) head body = (first, es)" by fastforce
  have es: "\<forall>e\<in>set es. is_call e" using first_intercept_events [OF f] by blast
  define intercepted where "intercepted = (case first of Some response \<Rightarrow> Some response
    | None \<Rightarrow> try_intercept E srv [served, 7] head body)"
  define es1 where "es1 = es @ (if first = None then [PluginsCalled] else []) @
    (if intercepted = None \<and> srv_handler srv \<noteq> None then [StreamingCalled] else [])"
  define streaming where "streaming = (if intercepted = None
    then Option.bind (srv_handler srv) (\<lambda>h. h_streaming h [served, 8] head body) else None)"
  define rh where "rh = (case intercepted of Some response \<Rightarrow> (response, []) | None \<Rightarrow> (case srv_handler srv of
      Some h \<Rightarrow> (h_handle h [served, 10] head body, [HandlerCalled]) | None \<Rightarrow> (response_empty 404, [])))"
  obtain r ms where mr: "map_response [served, 11] 0 (interceptors srv) head (fst rh) = (r, ms)" by fastforce
  have es1: "\<forall>e\<in>set es1. is_call e" using es by (auto simp: es1_def)
  have hs: "\<forall>e\<in>set (snd rh @ ms). is_call e"
    using map_response_events [OF mr] by (auto simp: rh_def split: option.splits)
  have eq: "answer_request E srv served head body ka st =
      (case streaming of
         Some s \<Rightarrow> stream_request E srv served head ka s (log es1 st)
       | None \<Rightarrow> Some (send_response E srv [served, 14] (finalize_response E srv [served, 12] head r)
           (ka \<and> still_alive E srv [served, 13]) (log (es1 @ snd rh @ ms) st)))"
    unfolding answer_request_def f prod.case Let_def intercepted_def [symmetric] streaming_def [symmetric]
      rh_def [symmetric]
    by (cases rh) (use mr in \<open>auto simp: es1_def split: option.split\<close>)
  show thesis
  proof (cases streaming)
    case (Some s)
    then obtain h where "srv_handler srv = Some h" "h_streaming h [served, 8] head body = Some s"
      by (auto simp: streaming_def bind_eq_Some_conv split: if_splits)
    with Some eq assms es1 show thesis by (intro stream) auto
  next
    case None
    with eq assms es1 hs show thesis by (intro respond [of "es1 @ snd rh @ ms"]) auto
  qed
qed

lemma answer_request_grows:
  assumes "answer_request E srv served head body ka st = Some flow"
  shows "grows is_answer st (conn_of flow)"
  using assms
proof (cases rule: answer_request_cases)
  case (stream es h streaming)
  then have "\<forall>e\<in>set es. is_answer e" by simp
  with stream_request_grows [OF stream(4)] show ?thesis using grows_log_trans by blast
next
  case (respond es r ka')
  then have "\<forall>e\<in>set es. is_answer e" by simp
  moreover have "grows is_answer (log es st) (conn_of flow)"
    unfolding respond(2) by (rule grows_mono [OF send_response_grows]) simp
  ultimately show ?thesis using grows_log_trans by blast
qed

section \<open>Gates\<close>

text \<open>All gates are asked, in order, each with the values left by the one before, and all allow.\<close>

definition allowed_by_all :: "'a Server \<Rightarrow> 'a GateContext \<Rightarrow> nat \<Rightarrow> RequestHead \<Rightarrow> bool" where
  "allowed_by_all srv ctx n head \<longleftrightarrow> (\<exists>exts. exts 0 = extensions_new \<and>
     (\<forall>j<length (gates srv). gate_check (gates srv ! j) [n, 3, j] head ctx (exts j) = (Allow, exts (Suc j))))"

lemma first_rejection_allowed:
  "first_rejection m i gs head ctx ext = (None, ext', es) \<Longrightarrow>
   \<exists>exts. exts 0 = ext \<and> (\<forall>j<length gs. gate_check (gs ! j) (m @ [i + j]) head ctx (exts j) = (Allow, exts (Suc j)))"
proof (induction gs arbitrary: i ext es)
  case (Cons g gs)
  obtain out ext1 where c: "gate_check g (m @ [i]) head ctx ext = (out, ext1)" by fastforce
  with Cons.prems obtain es' where a: "out = Allow" "first_rejection m (Suc i) gs head ctx ext1 = (None, ext', es')"
    by (auto split: GateOutcome.splits prod.splits)
  then obtain exts where "exts 0 = ext1"
    "\<forall>j<length gs. gate_check (gs ! j) (m @ [Suc i + j]) head ctx (exts j) = (Allow, exts (Suc j))"
    using Cons.IH by blast
  with c a(1) show ?case
    by (intro exI [of _ "\<lambda>j. case j of 0 \<Rightarrow> ext | Suc k \<Rightarrow> exts k"]) (auto simp: less_Suc_eq_0_disj)
qed auto

lemma first_rejection_events: "first_rejection m i gs head ctx ext = (r, ext', es) \<Longrightarrow> e \<in> set es \<Longrightarrow> \<exists>n. e = GateChecked n"
  by (induction gs arbitrary: i ext es) (auto split: GateOutcome.splits prod.splits)

definition arrival :: "'a Server \<Rightarrow> Request \<Rightarrow> Event list" where
  "arrival srv request = RequestRead request # map OnRequest (middlewares srv)"

lemma handle_request_cases:
  assumes "handle_request E srv ctx served request leftover st = Some flow"
  obtains (rejected) r ext gs where
      "first_rejection [served, 3] 0 (gates srv) (req_head request) ctx extensions_new = (Some r, ext, gs)"
      "flow = send_response E srv [served, 15] r (initial_keep_alive E srv served (req_head request))
        (log (arrival srv request @ gs) st)"
  | (upgrade) head ext gs where
      "first_rejection [served, 3] 0 (gates srv) (req_head request) ctx extensions_new = (None, ext, gs)"
      "flow = upgrade_request E srv served head leftover (log (arrival srv request @ gs) st)"
  | (answer) head ext gs where "rh_version head = rh_version (req_head request)"
      "first_rejection [served, 3] 0 (gates srv) (req_head request) ctx extensions_new = (None, ext, gs)"
      "answer_request E srv served head (req_body request) (initial_keep_alive E srv served (req_head request))
        (log (arrival srv request @ gs) st) = Some flow"
proof -
  obtain rej ext gs where g: "first_rejection [served, 3] 0 (gates srv) (req_head request) ctx extensions_new = (rej, ext, gs)"
    by (metis prod_cases3)
  show thesis
  proof (cases rej)
    case (Some r)
    with g assms show thesis by (intro rejected) (auto simp: handle_request_def Let_def arrival_def)
  next
    case None
    define head where "head = (if \<not> ext_is_empty ext then (req_head request)\<lparr>rh_extensions := ext\<rparr> else req_head request)"
    have "rh_version head = rh_version (req_head request)" by (simp add: head_def)
    moreover have "handle_request E srv ctx served request leftover st = (if list_ex (\<lambda>h. uh_matches h head) (upgrade_handlers srv)
        then Some (upgrade_request E srv served head leftover (log (arrival srv request @ gs) st))
        else answer_request E srv served head (req_body request) (initial_keep_alive E srv served (req_head request))
          (log (arrival srv request @ gs) st))"
      unfolding handle_request_def Let_def g None prod.case option.case head_def [symmetric] arrival_def [symmetric] log_log ..
    ultimately show thesis using assms upgrade answer g None by (auto split: if_splits)
  qed
qed

section \<open>The segments of the trace\<close>

definition request_segment :: "'a Server \<Rightarrow> 'a GateContext \<Rightarrow> nat \<Rightarrow> Event list \<Rightarrow> bool" where
  "request_segment srv ctx n seg \<longleftrightarrow> (\<exists>request rej ext gs rest. seg = arrival srv request @ gs @ rest \<and>
     first_rejection [n, 3] 0 (gates srv) (req_head request) ctx extensions_new = (rej, ext, gs) \<and>
     (\<forall>e\<in>set rest. is_write e \<or> privileged e) \<and>
     (case rej of
        Some r \<Rightarrow> (\<forall>e\<in>set rest. is_write e) \<and> (\<exists>ka k. sent_of rest = take k (serialize r ka))
      | None \<Rightarrow> allowed_by_all srv ctx n (req_head request)))"

lemma sent_of_OnResponse [simp]: "sent_of (map (\<lambda>mw. OnResponse mw status) mws) = []"
  by (rule sent_of_unsent) (auto simp: is_sent_def)

lemma upgrade_request_events:
  "\<exists>es. c_trace (conn_of (upgrade_request E srv served head leftover st)) = c_trace st @ es \<and> (\<forall>e\<in>set es. is_write e \<or> privileged e)"
  by (auto simp: upgrade_request_def send_last_def try_handle_upgrade_def write_all_def log_def
      split: option.split bool.split prod.split)

lemma is_answer_split: "is_answer e \<Longrightarrow> is_write e \<or> privileged e"
  by (auto simp: is_answer_def is_call_def)

lemma handle_request_segment:
  assumes "handle_request E srv ctx served request leftover st = Some flow"
  shows "\<exists>seg. c_trace (conn_of flow) = c_trace st @ seg \<and> request_segment srv ctx served seg"
  using assms
proof (cases rule: handle_request_cases)
  case (rejected r ext gs)
  let ?ka = "initial_keep_alive E srv served (req_head request)"
  have "\<exists>es. c_trace (conn_of flow) = c_trace st @ arrival srv request @ gs @ es \<and> (\<forall>e\<in>set es. is_write e) \<and>
      (\<exists>k. sent_of es = take k (serialize r ?ka))"
    unfolding rejected(2)
  proof (rule send_response_trace [of E srv "[served, 15]" r ?ka "log (arrival srv request @ gs) st"], goal_cases)
    case (1 st')
    then show ?case
      by (intro exI [of _ "Sent (serialize r ?ka) # map (\<lambda>mw. OnResponse mw (r_status r)) (middlewares srv)"])
        (auto simp: log_def intro!: exI [of _ "length (serialize r ?ka)"])
  next
    case (2 st' k)
    then show ?case by (intro exI [of _ "[Sent (take k (serialize r ?ka))]"]) (auto simp: log_def)
  qed
  then obtain es where es: "c_trace (conn_of flow) = c_trace st @ arrival srv request @ gs @ es"
    "\<forall>e\<in>set es. is_write e" "\<exists>k. sent_of es = take k (serialize r ?ka)" by blast
  show ?thesis
    unfolding request_segment_def
    by (intro exI [of _ "arrival srv request @ gs @ es"] conjI exI [of _ request] exI [of _ "Some r"] exI [of _ ext]
        exI [of _ gs] exI [of _ es]) (use es rejected(1) in auto)
next
  case (upgrade head ext gs)
  obtain es where es: "c_trace (conn_of flow) = c_trace st @ arrival srv request @ gs @ es" "\<forall>e\<in>set es. is_write e \<or> privileged e"
    using upgrade_request_events [of E srv served head leftover "log (arrival srv request @ gs) st"]
    unfolding upgrade(2) by (auto simp: log_def)
  have "allowed_by_all srv ctx served (req_head request)"
    using first_rejection_allowed [OF upgrade(1)] by (simp add: allowed_by_all_def)
  with es upgrade(1) show ?thesis
    unfolding request_segment_def
    by (intro exI [of _ "arrival srv request @ gs @ es"] conjI exI [of _ request] exI [of _ None] exI [of _ ext]
        exI [of _ gs] exI [of _ es]) auto
next
  case (answer head ext gs)
  obtain es where es: "c_trace (conn_of flow) = c_trace st @ arrival srv request @ gs @ es" "\<forall>e\<in>set es. is_answer e"
    using answer_request_grows [OF answer(3)] by (auto simp: grows_def log_def)
  have "allowed_by_all srv ctx served (req_head request)"
    using first_rejection_allowed [OF answer(2)] by (simp add: allowed_by_all_def)
  with es answer(2) is_answer_split show ?thesis
    unfolding request_segment_def
    by (intro exI [of _ "arrival srv request @ gs @ es"] conjI exI [of _ request] exI [of _ None] exI [of _ ext]
        exI [of _ gs] exI [of _ es]) auto
qed

text \<open>The trace of a connection is a sequence of segments, one per request, and at the end perhaps the
  answer to a request that could not be read. A property of every request (\<open>Q\<close>) and of every request after
  which the connection goes on (\<open>R\<close>) carries over.\<close>

definition error_tail :: "Event list \<Rightarrow> bool" where
  "error_tail tail \<longleftrightarrow> (\<exists>r k. tail = [Sent (take k (serialize r False))] \<and> r \<in> response_empty ` {400, 413, 431, 501, 505})"

lemma error_response_status: "error_response err = Some r \<Longrightarrow> r \<in> response_empty ` {400, 413, 431, 501, 505}"
  by (auto simp: error_response_def split: RequestError.splits ParseError.splits BodyError.splits if_splits)

lemma write_all_prefix: "\<exists>k. snd (write_all E m t bs st) = log [Sent (take k bs)] st"
proof (cases "env_write E m t bs")
  case None
  then show ?thesis by (intro exI [of _ "length bs"]) (simp add: write_all_def)
next
  case (Some k)
  then show ?thesis by (intro exI [of _ "min k (length bs - 1)"]) (simp add: write_all_def)
qed

lemma send_last_error:
  assumes "error_response err = Some r"
  shows "\<exists>tail. send_last E m r st = Flow.Return (log tail st) \<and> error_tail tail"
proof -
  obtain k where "send_last E m r st = Flow.Return (log [Sent (take k (serialize r False))] st)"
    using write_all_prefix [of E m None "serialize r False" st] by (auto simp: send_last_def)
  with error_response_status [OF assms] show ?thesis unfolding error_tail_def by blast
qed

lemma serve_request_cases:
  assumes "serve_request mm rd E srv ctx served s b st = Some (flow, s', b')"
  obtains (none) "flow = Flow.Return st"
  | (error) tail where "flow = Flow.Return (log tail st)" "error_tail tail"
  | (request) request where "handle_request E srv ctx (Suc served) request (unread b') st = Some flow"
  using assms none error request
  by (auto simp: serve_request_def Let_def split: if_splits option.splits sum.splits) (metis send_last_error)

lemma serve_connection_segments:
  assumes hr: "\<And>n request leftover st flow. handle_request E srv ctx n request leftover st = Some flow \<Longrightarrow>
      \<exists>seg. c_trace (conn_of flow) = c_trace st @ seg \<and> Q n seg \<and> (flow = Flow.Continue (conn_of flow) \<longrightarrow> R n seg)"
  shows "serve_connection mm rd E srv ctx served s b st = Some (st', s') \<Longrightarrow> served < max (max_requests_per_connection srv) 1 \<Longrightarrow>
    \<exists>segs tail. c_trace st' = c_trace st @ concat segs @ tail \<and> (tail = [] \<or> error_tail tail) \<and>
      served + length segs \<le> max (max_requests_per_connection srv) 1 \<and>
      (\<forall>i<length segs. Q (Suc (served + i)) (segs ! i)) \<and>
      (\<forall>i<length segs. Suc i < length segs \<or> tail \<noteq> [] \<longrightarrow> R (Suc (served + i)) (segs ! i))"
proof (induction "max (max_requests_per_connection srv) 1 - served" arbitrary: served s b st rule: less_induct)
  case less
  obtain flow s1 b1 where sr: "serve_request mm rd E srv ctx served s b st = Some (flow, s1, b1)"
    using less.prems(1) by (cases "serve_request mm rd E srv ctx served s b st") (auto simp: serve_connection.simps [of mm rd E srv ctx served])
  from sr show ?case
  proof (cases rule: serve_request_cases)
    case none
    with sr less.prems show ?thesis
      by (intro exI [of _ "[]"]) (simp add: serve_connection.simps [of mm rd E srv ctx served])
  next
    case (error tail)
    with sr less.prems show ?thesis
      by (intro exI [of _ "[]"] exI [of _ tail]) (auto simp: serve_connection.simps [of mm rd E srv ctx served] log_def)
  next
    case (request request)
    obtain seg where seg: "c_trace (conn_of flow) = c_trace st @ seg" "Q (Suc served) seg"
      "flow = Flow.Continue (conn_of flow) \<longrightarrow> R (Suc served) seg"
      using hr [OF request] by blast
    show ?thesis
    proof (cases flow)
      case (Return st1)
      with sr less.prems seg show ?thesis
        by (intro exI [of _ "[seg]"] exI [of _ "[]"]) (auto simp: serve_connection.simps [of mm rd E srv ctx served])
    next
      case (Continue st1)
      have lt: "Suc served < max (max_requests_per_connection srv) 1"
        using serve_request_Continue [OF sr [unfolded Continue]] .
      have "serve_connection mm rd E srv ctx (Suc served) s1 b1 st1 = Some (st', s')"
        using less.prems(1) sr Continue by (simp add: serve_connection.simps [of mm rd E srv ctx served])
      moreover have "max (max_requests_per_connection srv) 1 - Suc served < max (max_requests_per_connection srv) 1 - served"
        using less.prems(2) by simp
      ultimately obtain segs tail where IH: "c_trace st' = c_trace st1 @ concat segs @ tail" "tail = [] \<or> error_tail tail"
        "Suc served + length segs \<le> max (max_requests_per_connection srv) 1"
        "\<forall>i<length segs. Q (Suc (Suc served + i)) (segs ! i)"
        "\<forall>i<length segs. Suc i < length segs \<or> tail \<noteq> [] \<longrightarrow> R (Suc (Suc served + i)) (segs ! i)"
        using less.hyps lt by blast
      show ?thesis
        by (intro exI [of _ "seg # segs"] exI [of _ tail])
          (use IH seg Continue in \<open>auto simp: less_Suc_eq_0_disj\<close>)
    qed
  qed
qed

lemma connection_segments:
  assumes "handle_connection_with_permit mm rd E srv s permit peer = Some (st, s')"
    and "\<And>n request leftover st flow. handle_request E srv (gate_context_new peer) n request leftover st = Some flow \<Longrightarrow>
      \<exists>seg. c_trace (conn_of flow) = c_trace st @ seg \<and> Q n seg \<and> (flow = Flow.Continue (conn_of flow) \<longrightarrow> R n seg)"
  shows "\<exists>segs tail. c_trace st = concat segs @ tail \<and> (tail = [] \<or> error_tail tail) \<and>
      length segs \<le> max (max_requests_per_connection srv) 1 \<and> (\<forall>i<length segs. Q (Suc i) (segs ! i)) \<and>
      (\<forall>i<length segs. Suc i < length segs \<or> tail \<noteq> [] \<longrightarrow> R (Suc i) (segs ! i))"
proof -
  have "\<exists>segs tail. c_trace st = c_trace (conn_new permit) @ concat segs @ tail \<and> (tail = [] \<or> error_tail tail) \<and>
      0 + length segs \<le> max (max_requests_per_connection srv) 1 \<and> (\<forall>i<length segs. Q (Suc (0 + i)) (segs ! i)) \<and>
      (\<forall>i<length segs. Suc i < length segs \<or> tail \<noteq> [] \<longrightarrow> R (Suc (0 + i)) (segs ! i))"
    by (rule serve_connection_segments [where s = s and b = recv_new and mm = mm and rd = rd and E = E])
      (use assms in \<open>simp_all add: handle_connection_with_permit_def\<close>)
  then show ?thesis by (simp add: conn_new_def)
qed

lemma segment_reads: "request_segment srv ctx n seg \<Longrightarrow> length (filter is_read seg) = 1"
proof -
  assume "request_segment srv ctx n seg"
  then obtain request rej ext gs rest where s: "seg = arrival srv request @ gs @ rest"
    "first_rejection [n, 3] 0 (gates srv) (req_head request) ctx extensions_new = (rej, ext, gs)"
    "\<forall>e\<in>set rest. is_write e \<or> privileged e" unfolding request_segment_def by blast
  have "filter is_read gs = []"
    using first_rejection_events [OF s(2)] by (fastforce simp: filter_empty_conv is_read_def)
  moreover have "filter is_read rest = []"
    using s(3) by (fastforce simp: filter_empty_conv is_read_def is_write_def is_sent_def)
  ultimately show ?thesis by (auto simp: s(1) arrival_def is_read_def filter_empty_conv)
qed

section \<open>Properties\<close>


text \<open>Every streamed response of the server fits the buffer, and the gzip encoder can be undone.\<close>

definition streams_ok :: "'z Env \<Rightarrow> 'a Server \<Rightarrow> (bytes \<Rightarrow> bytes) \<Rightarrow> bool" where
  "streams_ok E srv gunzip \<longleftrightarrow> gzip_decodes (env_gzip_stream E) gunzip \<and>
     (\<forall>h m head body streaming. srv_handler srv = Some h \<longrightarrow> h_streaming h m head body = Some streaming \<longrightarrow>
        sized (env_gzip_stream E) streaming)"

lemma sample_server_ok:
  "producers_stop sample_server" "srv_max_body_bytes sample_server \<le> U64_MAX" "max_requests_per_connection sample_server = 1000"
  "streams_ok sample_env sample_server (\<lambda>z. z)"
  using sample_stream_ok(2)
  by (simp_all add: sample_server_def server_new_def producers_stop_def MAX_BODY_BYTES_def
      DEFAULT_MAX_REQUESTS_PER_CONNECTION_def streams_ok_def)

lemma sample_connection_runs:
  "\<exists>st s'. handle_connection_with_permit (\<lambda>h n. find_sub n h) slice_reader sample_env sample_server get_a True None = Some (st, s')"
  using serve_connection_returns [OF sample_server_ok(1) naive_search.substring_search_axioms
      slice_socket.bounded_reader_axioms sample_server_ok(2), of recv_new]
  by (fastforce simp: handle_connection_with_permit_def)


text \<open>C1. Gates fail closed. The trace of a connection is a sequence of segments, one per request, then at most one answer to a
  request that could not be read. In the segment of a request whose gates reject it nothing follows the
  gates but the bytes of the first rejecting gate's response and the middlewares' notifications; an
  interceptor, a plugin, the handler or an upgrade takes part only in a request for which every gate was
  asked, in order, and allowed it.\<close>

theorem gates_fail_closed:
  assumes "handle_connection_with_permit mm rd E srv s permit peer = Some (st, s')"
  shows "\<exists>segs tail. c_trace st = concat segs @ tail \<and> (tail = [] \<or> error_tail tail) \<and>
    (\<forall>i<length segs. request_segment srv (gate_context_new peer) (Suc i) (segs ! i))"
  using connection_segments [OF assms, of "request_segment srv (gate_context_new peer)" "\<lambda>_ _. True"]
    handle_request_segment by blast

theorem gates_fail_closed_witness:
  "\<exists>st s' segs tail. handle_connection_with_permit (\<lambda>h n. find_sub n h) slice_reader sample_env sample_server get_a True None = Some (st, s') \<and>
     c_trace st = concat segs @ tail \<and>
     (\<forall>i<length segs. request_segment sample_server (gate_context_new None) (Suc i) (segs ! i))"
  proof -
  obtain st s' where run: "handle_connection_with_permit (\<lambda>h n. find_sub n h) slice_reader sample_env sample_server get_a True None = Some (st, s')"
    using sample_connection_runs by blast
  then show ?thesis using gates_fail_closed [OF run] by blast
qed

section \<open>Responses\<close>

text \<open>A complete response that announces that the connection is kept.\<close>

definition kept_response :: "(bytes \<Rightarrow> bytes) \<Rightarrow> bytes \<Rightarrow> bool" where
  "kept_response gunzip bs \<longleftrightarrow> (\<exists>r. bs = serialize r True) \<or>
     (\<exists>streaming r gzipped body. bs = serialize_chunked_head r True @ body \<and> delivered gunzip streaming r gzipped body)"

lemma send_response_kept:
  assumes "send_response E srv m r ka st = Flow.Continue st'"
  shows "\<exists>es. c_trace st' = c_trace st @ es \<and> sent_of es = serialize r True"
proof (rule send_response_trace [of E srv m r ka st])
  fix st1 assume 1: "send_response E srv m r ka st = (if ka then Flow.Continue st1 else Flow.Return st1)"
    "c_trace st1 = c_trace st @ Sent (serialize r ka) # map (\<lambda>mw. OnResponse mw (r_status r)) (middlewares srv)"
  then have "ka" "st1 = st'" using assms by (auto split: if_splits)
  with 1 show ?thesis
    by (intro exI [of _ "Sent (serialize r ka) # map (\<lambda>mw. OnResponse mw (r_status r)) (middlewares srv)"]) simp
qed (use assms in auto)

lemma http10_closes:
  "write_streaming_response E srv m streaming head ka st = Some (Some d, st') \<Longrightarrow> sc_keep_alive d \<Longrightarrow> rh_version head = Http11"
  by (cases "rh_version head") (auto simp: write_streaming_response_def Let_def split: prod.splits if_splits)

lemma stream_request_kept:
  assumes "stream_request E srv served head ka streaming st = Some (Flow.Continue st')"
    and "sized (env_gzip_stream E) streaming" "gzip_decodes (env_gzip_stream E) gunzip"
  shows "\<exists>es. c_trace st' = c_trace st @ es \<and> kept_response gunzip (sent_of es)"
proof -
  obtain d st1 where w: "write_streaming_response E srv [served, 9] streaming head ka st = Some (Some d, st1)"
    and d: "sc_keep_alive d" "st' = log_responses srv (sc_status d) st1"
    using assms(1) by (auto simp: stream_request_def Let_def split: option.splits if_splits)
  obtain es r ka' gzipped where es: "st1 = log es st"
    "\<forall>d'. Some d = Some d' \<longrightarrow> (\<exists>body. sent_of es = serialize_chunked_head r ka' @ body \<and>
        delivered gunzip streaming r gzipped body \<and> r_status r = sc_status d' \<and> (sc_keep_alive d' \<longrightarrow> ka'))"
    using http11_response [OF w http10_closes [OF w d(1)] assms(2,3)] by metis
  then obtain body where "sent_of es = serialize_chunked_head r True @ body" "delivered gunzip streaming r gzipped body"
    using d(1) by auto
  with es(1) d(2) show ?thesis
    by (intro exI [of _ "es @ map (\<lambda>mw. OnResponse mw (sc_status d)) (middlewares srv)"])
      (auto simp: kept_response_def log_responses_def log_def)
qed

lemma arrival_sent: "first_rejection m i gs head ctx ext = (rej, ext', es) \<Longrightarrow> sent_of (arrival srv request @ es) = []"
  using first_rejection_events [of m i gs head ctx ext rej ext' es]
  by (intro sent_of_unsent) (fastforce simp: arrival_def is_sent_def)

lemma answer_request_kept:
  assumes "answer_request E srv served head body ka st = Some (Flow.Continue st')" "streams_ok E srv gunzip"
  shows "\<exists>es. c_trace st' = c_trace st @ es \<and> kept_response gunzip (sent_of es)"
  using assms(1)
proof (cases rule: answer_request_cases)
  case (stream es h streaming)
  have "sized (env_gzip_stream E) streaming" "gzip_decodes (env_gzip_stream E) gunzip"
    using stream(2,3) assms(2) by (auto simp: streams_ok_def)
  then obtain es' where "c_trace st' = c_trace (log es st) @ es'" "kept_response gunzip (sent_of es')"
    using stream_request_kept [OF stream(4)] by blast
  with calls_unsent [OF stream(1)] show ?thesis by (intro exI [of _ "es @ es'"]) (simp add: log_def)
next
  case (respond es r ka')
  then obtain es' where "c_trace st' = c_trace (log es st) @ es'" "sent_of es' = serialize r True"
    using send_response_kept [OF respond(2) [symmetric]] by blast
  with calls_unsent [OF respond(1)] show ?thesis
    by (intro exI [of _ "es @ es'"]) (auto simp: log_def kept_response_def)
qed

lemma handle_request_kept:
  assumes "handle_request E srv ctx served request leftover st = Some (Flow.Continue st')" "streams_ok E srv gunzip"
  shows "\<exists>es. c_trace st' = c_trace st @ es \<and> kept_response gunzip (sent_of es)"
  using assms(1)
proof (cases rule: handle_request_cases)
  case (rejected r ext gs)
  then obtain es where "c_trace st' = c_trace (log (arrival srv request @ gs) st) @ es" "sent_of es = serialize r True"
    using send_response_kept [OF rejected(2) [symmetric]] by blast
  with arrival_sent [OF rejected(1), of srv request] show ?thesis
    by (intro exI [of _ "arrival srv request @ gs @ es"]) (auto simp: log_def kept_response_def)
next
  case (upgrade head ext gs)
  then show ?thesis using upgrade_request_Continue by metis
next
  case (answer head ext gs)
  obtain es where "c_trace st' = c_trace (log (arrival srv request @ gs) st) @ es" "kept_response gunzip (sent_of es)"
    using answer_request_kept [OF answer(3) assms(2)] by blast
  with arrival_sent [OF answer(2), of srv request] show ?thesis
    by (intro exI [of _ "arrival srv request @ gs @ es"]) (auto simp: log_def)
qed

lemma handle_request_responds:
  assumes "handle_request E srv ctx n request leftover st = Some flow" "streams_ok E srv gunzip"
  shows "\<exists>seg. c_trace (conn_of flow) = c_trace st @ seg \<and> request_segment srv ctx n seg \<and>
    (flow = Flow.Continue (conn_of flow) \<longrightarrow> kept_response gunzip (sent_of seg))"
  using handle_request_segment [OF assms(1)] handle_request_kept [OF _ assms(2), of ctx n request leftover st "conn_of flow"] assms(1)
  by (metis same_append_eq)



end
