(* ===== verification/Server_Stream.thy ===== *)
theory Server_Stream
  imports Server_Spec
begin

text \<open>
  What a connection does is a function of the bytes that the peer sends: two peers that send the same bytes,
  cut into pieces in any two ways, get the same behaviour, event for event. The one thing that depends on the pieces is how much of
  the stream a WebSocket session finds in the buffer and how much on the socket; together they are the same.
\<close>

section \<open>Events that mention unread bytes\<close>

fun relabel :: "(bytes \<Rightarrow> bytes) \<Rightarrow> Event \<Rightarrow> Event" where
  "relabel f (Delegated leftover permit) = Delegated (f leftover) permit"
| "relabel f e = e"

definition relabel_conn :: "(bytes \<Rightarrow> bytes) \<Rightarrow> Conn \<Rightarrow> Conn" where
  "relabel_conn f st = st\<lparr>c_trace := map (relabel f) (c_trace st)\<rparr>"

definition undelegated :: "Conn \<Rightarrow> bool" where
  "undelegated st \<longleftrightarrow> (\<forall>l p. Delegated l p \<notin> set (c_trace st))"

lemma relabel_id: "(\<forall>l p. e \<noteq> Delegated l p) \<Longrightarrow> relabel f e = e"
  by (cases e) auto

lemma relabel_undelegated: "undelegated st \<Longrightarrow> relabel_conn f st = st"
proof -
  assume "undelegated st"
  then have "\<forall>e\<in>set (c_trace st). relabel f e = e" unfolding undelegated_def by (metis relabel_id)
  then have "map (relabel f) (c_trace st) = c_trace st" by (simp add: map_idI)
  then show ?thesis by (simp add: relabel_conn_def)
qed

lemma undelegated_grows:
  "undelegated st \<Longrightarrow> grows P st st' \<Longrightarrow> (\<And>l p. \<not> P (Delegated l p)) \<Longrightarrow> undelegated st'"
  unfolding undelegated_def grows_def by (metis Un_iff set_append)

lemma no_delegation [simp]: "\<not> is_answer (Delegated l p)" "\<not> is_write (Delegated l p)" "\<not> is_sent (Delegated l p)"
  by (auto simp: is_answer_def is_write_def is_sent_def is_call_def)

lemma undelegated_log: "undelegated st \<Longrightarrow> (\<forall>e\<in>set es. \<forall>l p. e \<noteq> Delegated l p) \<Longrightarrow> undelegated (log es st)"
  unfolding undelegated_def log_def by (metis Conn.select_convs(3) Conn.surjective Conn.update_convs(3) Un_iff set_append)

lemma arrival_undelegated:
  "undelegated st \<Longrightarrow> first_rejection m i gs head ctx ext = (rej, ext', es) \<Longrightarrow> undelegated (log (arrival srv request @ es) st)"
  using first_rejection_events [of m i gs head ctx ext rej ext' es]
  by (intro undelegated_log) (auto simp: arrival_def)

lemma upgrade_leftover:
  assumes "undelegated st"
  shows "upgrade_request E srv served head (f leftover) st =
    map_Flow (relabel_conn f) (upgrade_request E srv served head leftover st)"
proof -
  have sl: "relabel_conn f (snd (write_all E m None bs st)) = snd (write_all E m None bs st)" for m bs
    using assms write_all_grows [of E m None bs st] undelegated_grows [of st is_sent]
    by (intro relabel_undelegated) (metis no_delegation(3) prod.collapse)
  have "map (relabel f) (c_trace st) = c_trace st"
    using relabel_undelegated [OF assms, of f] by (metis Conn.select_convs(3) Conn.surjective Conn.update_convs(3) relabel_conn_def)
  with sl show ?thesis
    by (auto simp: upgrade_request_def send_last_def try_handle_upgrade_def relabel_conn_def log_def split: option.split)
qed

lemma flow_relabel: "undelegated (conn_of flow) \<Longrightarrow> map_Flow (relabel_conn f) flow = flow"
  by (cases flow) (simp_all add: relabel_undelegated)

lemma send_response_undelegated: "undelegated st \<Longrightarrow> undelegated (conn_of (send_response E srv m r ka st))"
  by (rule undelegated_grows [OF _ send_response_grows]) simp_all

lemma answer_request_undelegated:
  "undelegated st \<Longrightarrow> answer_request E srv served head body ka st = Some flow \<Longrightarrow> undelegated (conn_of flow)"
  by (rule undelegated_grows [OF _ answer_request_grows]) simp_all

lemma handle_request_leftover:
  assumes "undelegated st"
  shows "handle_request E srv ctx served request (f leftover) st =
    map_option (map_Flow (relabel_conn f)) (handle_request E srv ctx served request leftover st)"
proof -
  obtain rej ext gs where g: "first_rejection [served, 3] 0 (gates srv) (req_head request) ctx extensions_new = (rej, ext, gs)"
    by (metis prod_cases3)
  let ?st = "log (arrival srv request @ gs) st" and ?ka = "initial_keep_alive E srv served (req_head request)"
  define head where "head = (if \<not> ext_is_empty ext then (req_head request)\<lparr>rh_extensions := ext\<rparr> else req_head request)"
  have eq: "handle_request E srv ctx served request l st =
      (case rej of
         Some r \<Rightarrow> Some (send_response E srv [served, 15] r ?ka ?st)
       | None \<Rightarrow> if list_ex (\<lambda>h. uh_matches h head) (upgrade_handlers srv)
           then Some (upgrade_request E srv served head l ?st)
           else answer_request E srv served head (req_body request) ?ka ?st)" for l
    unfolding handle_request_def Let_def g prod.case head_def [symmetric] arrival_def [symmetric] log_log ..
  have u: "undelegated ?st" by (rule arrival_undelegated [OF assms g])
  show ?thesis
    unfolding eq
    by (cases rej; cases "answer_request E srv served head (req_body request) ?ka ?st")
      (auto simp: upgrade_leftover [OF u] flow_relabel send_response_undelegated [OF u] answer_request_undelegated [OF u])
qed

lemma handle_request_undelegated:
  assumes "undelegated st" "handle_request E srv ctx served request leftover st = Some (Flow.Continue st')"
  shows "undelegated st'"
  using assms(2)
proof (cases rule: handle_request_cases)
  case (rejected r ext gs)
  then show ?thesis using send_response_undelegated [OF arrival_undelegated [OF assms(1) rejected(1)]] by (metis conn_of.simps(1))
next
  case (upgrade head ext gs)
  then show ?thesis using upgrade_request_Continue by metis
next
  case (answer head ext gs)
  then show ?thesis using answer_request_undelegated [OF arrival_undelegated [OF assms(1) answer(2)] answer(3)] by simp
qed

section \<open>One turn of the loop\<close>

text \<open>What one turn does to a stream of bytes: the flow, and the bytes that are left.\<close>

definition pure_turn :: "search \<Rightarrow> 'z Env \<Rightarrow> 'a Server \<Rightarrow> 'a GateContext \<Rightarrow> nat \<Rightarrow>
    ('e RequestError + (Request \<times> bytes) option) \<Rightarrow> Conn \<Rightarrow> (Conn Flow \<times> bytes) option" where
  "pure_turn mm E srv ctx served result st =
     (if env_elapsed E [served, 0] \<ge> max_connection_lifetime srv then Some (Flow.Return st, [])
      else if env_read_expires E [served, 1] (min (srv_read_timeout srv) (max_connection_lifetime srv - env_elapsed E [served, 0]))
      then Some (Flow.Return st, [])
      else case result of
        Err err \<Rightarrow> (case error_response err of Some r \<Rightarrow> Some (send_last E [served, 16] r st, []) | None \<Rightarrow> Some (Flow.Return st, []))
      | Ok None \<Rightarrow> Some (Flow.Return st, [])
      | Ok (Some (request, rest)) \<Rightarrow>
          map_option (\<lambda>flow. (flow, rest)) (handle_request E srv ctx (Suc served) request rest st))"

text \<open>The flow as an observer of the bytes sees it: with what a session gets to read.\<close>

definition observe :: "bytes \<Rightarrow> Conn Flow \<Rightarrow> Conn Flow" where
  "observe remaining = map_Flow (relabel_conn (\<lambda>leftover. leftover @ remaining))"

lemma observe_undelegated: "undelegated (conn_of flow) \<Longrightarrow> observe x flow = flow"
  by (simp add: observe_def flow_relabel)

lemma send_last_undelegated: "undelegated st \<Longrightarrow> undelegated (conn_of (send_last E m r st))"
  by (rule undelegated_grows [OF _ send_last_grows]) simp_all

lemma serve_request_turn:
  fixes rd :: "('s, 'e) reader" and result :: "'e RequestError + (Request \<times> bytes) option"
  assumes "substring_search mm" "stream_reader rd stream" "recv_inv b" "srv_max_body_bytes srv \<le> U64_MAX" "undelegated st"
    and result: "result = pure_request mm (srv_max_body_bytes srv) (unread b @ stream s)"
  shows "(serve_request mm rd E srv ctx served s b st = None \<and> pure_turn mm E srv ctx served result st = None) \<or>
    (\<exists>flow s' b' rest. serve_request mm rd E srv ctx served s b st = Some (flow, s', b') \<and> recv_inv b' \<and>
       pure_turn mm E srv ctx served result st = Some (observe (stream s') flow, rest) \<and>
       (\<forall>st'. flow = Flow.Continue st' \<longrightarrow> undelegated st' \<and> unread b' @ stream s' = rest))"
proof (cases "env_elapsed E [served, 0] \<ge> max_connection_lifetime srv \<or>
    env_read_expires E [served, 1] (min (srv_read_timeout srv) (max_connection_lifetime srv - env_elapsed E [served, 0]))")
  case True
  then have "serve_request mm rd E srv ctx served s b st = Some (Flow.Return st, s, b)"
    "pure_turn mm E srv ctx served result st = Some (Flow.Return st, [])"
    by (auto simp: serve_request_def pure_turn_def Let_def)
  with assms(3,5) show ?thesis using observe_undelegated [of "Flow.Return st"] by auto
next
  case False
  obtain s' b' where b': "recv_inv b'" and read: "case result of
      Err e \<Rightarrow> read_request_with_limit mm rd s b (srv_max_body_bytes srv) = Some (Err e, s', b')
    | Ok None \<Rightarrow> read_request_with_limit mm rd s b (srv_max_body_bytes srv) = Some (Ok None, s', b')
    | Ok (Some (req, rest)) \<Rightarrow> read_request_with_limit mm rd s b (srv_max_body_bytes srv) = Some (Ok (Some req), s', b') \<and>
        unread b' @ stream s' = rest"
    using stream_reader.read_request_pure [OF assms(2,1,3,4)] unfolding result by blast
  consider (err) e where "result = Err e" | (none) "result = Ok None" | (req) request rest where "result = Ok (Some (request, rest))"
    by (cases result; cases "projr result") auto
  then show ?thesis
  proof cases
    case err
    then show ?thesis
      using False read b' observe_undelegated [of "Flow.Return st"] observe_undelegated [OF send_last_undelegated [OF assms(5), of E]] assms(5)
      by (cases "error_response e") (auto simp: serve_request_def pure_turn_def Let_def send_last_def)
  next
    case none
    then show ?thesis
      using False read b' observe_undelegated [of "Flow.Return st"] assms(5) by (auto simp: serve_request_def pure_turn_def Let_def)
  next
    case req
    let ?h = "handle_request E srv ctx (Suc served) request (unread b') st"
    have r: "read_request_with_limit mm rd s b (srv_max_body_bytes srv) = Some (Ok (Some request), s', b')"
      "unread b' @ stream s' = rest" using req read by auto
    have h: "handle_request E srv ctx (Suc served) request rest st = map_option (observe (stream s')) ?h"
      using handle_request_leftover [OF assms(5), of E srv ctx "Suc served" request "\<lambda>l. l @ stream s'" "unread b'"]
      unfolding r(2) observe_def .
    have sr: "serve_request mm rd E srv ctx served s b st = map_option (\<lambda>flow. (flow, s', b')) ?h"
      using False r(1) by (simp add: serve_request_def Let_def)
    have pt: "pure_turn mm E srv ctx served result st = map_option (\<lambda>flow. (observe (stream s') flow, rest)) ?h"
      using False req h by (simp add: pure_turn_def option.map_comp comp_def)
    show ?thesis
      using sr pt b' r(2) handle_request_undelegated [OF assms(5)] by (cases ?h) auto
  qed
qed

lemma serve_connection_same:
  fixes rd1 :: "('s, 'e) reader" and rd2 :: "('t, 'e) reader"
  assumes "substring_search mm" "stream_reader rd1 stream1" "stream_reader rd2 stream2" "srv_max_body_bytes srv \<le> U64_MAX"
  shows "recv_inv b1 \<Longrightarrow> recv_inv b2 \<Longrightarrow> unread b1 @ stream1 s1 = unread b2 @ stream2 s2 \<Longrightarrow> undelegated st \<Longrightarrow>
    map_option (\<lambda>(st, s). relabel_conn (\<lambda>l. l @ stream1 s) st) (serve_connection mm rd1 E srv ctx served s1 b1 st) =
    map_option (\<lambda>(st, s). relabel_conn (\<lambda>l. l @ stream2 s) st) (serve_connection mm rd2 E srv ctx served s2 b2 st)"
proof (induction "max (max_requests_per_connection srv) 1 - served" arbitrary: served s1 b1 s2 b2 st rule: less_induct)
  case less
  define result :: "'e RequestError + (Request \<times> bytes) option" where "result = pure_request mm (srv_max_body_bytes srv) (unread b1 @ stream1 s1)"
  note t1 = serve_request_turn [OF assms(1,2) less.prems(1) assms(4) less.prems(4) result_def, of E ctx served]
  note t2 = serve_request_turn [OF assms(1,3) less.prems(2) assms(4) less.prems(4) result_def [unfolded less.prems(3)], of E ctx served]
  show ?case
  proof (cases "pure_turn mm E srv ctx served result st")
    case None
    with t1 t2 show ?thesis
      by (simp add: serve_connection.simps [of mm rd1 E srv ctx served] serve_connection.simps [of mm rd2 E srv ctx served])
  next
    case (Some fr)
    then obtain flow1 s1' b1' rest where 1: "serve_request mm rd1 E srv ctx served s1 b1 st = Some (flow1, s1', b1')" "recv_inv b1'"
      "fr = (observe (stream1 s1') flow1, rest)"
      "\<forall>st'. flow1 = Flow.Continue st' \<longrightarrow> undelegated st' \<and> unread b1' @ stream1 s1' = rest"
      using t1 by auto
    obtain flow2 s2' b2' where 2: "serve_request mm rd2 E srv ctx served s2 b2 st = Some (flow2, s2', b2')" "recv_inv b2'"
      "fr = (observe (stream2 s2') flow2, rest)"
      "\<forall>st'. flow2 = Flow.Continue st' \<longrightarrow> undelegated st' \<and> unread b2' @ stream2 s2' = rest"
      using t2 Some 1(3) by auto
    have same: "observe (stream1 s1') flow1 = observe (stream2 s2') flow2" using 1(3) 2(3) by simp
    note sc = serve_connection.simps [of mm rd1 E srv ctx served s1 b1 st] serve_connection.simps [of mm rd2 E srv ctx served s2 b2 st]
    show ?thesis
    proof (cases flow1)
      case (Return st1)
      then obtain st2 where "flow2 = Flow.Return st2" using same by (cases flow2) (auto simp: observe_def)
      with Return same 1(1) 2(1) show ?thesis by (simp add: sc observe_def)
    next
      case (Continue st1)
      then obtain st2 where f2: "flow2 = Flow.Continue st2" using same by (cases flow2) (auto simp: observe_def)
      have u: "undelegated st1" "undelegated st2" using 1(4) 2(4) Continue f2 by auto
      then have st: "st2 = st1" using same Continue f2 by (simp add: observe_def relabel_undelegated)
      have "max (max_requests_per_connection srv) 1 - Suc served < max (max_requests_per_connection srv) 1 - served"
        using serve_request_Continue [OF 1(1) [unfolded Continue]] by simp
      from less.hyps [OF this 1(2) 2(2) _ u(1)] 1 2 Continue f2 st show ?thesis by (simp add: sc)
    qed
  qed
qed

section \<open>Properties\<close>

text \<open>C4. A connection depends on the bytes, not on the network. If two readers deliver the same bytes, each in pieces of its own
  choice, then, with the same answers from the environment, the connections return or not alike and do
  the same: the same sequence of events (requests read, extension points called, bytes sent, notifications) and the same
  state; only for an upgrade, the part of the unread stream that was already in the buffer may differ,
  and the buffered bytes followed by the rest of the stream are the same.\<close>

theorem connection_depends_on_bytes:
  fixes rd1 :: "('s, 'e) reader" and rd2 :: "('t, 'e) reader"
  assumes "substring_search mm" and "stream_reader rd1 stream1" and "stream_reader rd2 stream2"
    and "srv_max_body_bytes srv \<le> U64_MAX" and "stream1 s1 = stream2 s2"
  shows "map_option (\<lambda>(st, s). relabel_conn (\<lambda>l. l @ stream1 s) st) (handle_connection_with_permit mm rd1 E srv s1 permit peer) =
    map_option (\<lambda>(st, s). relabel_conn (\<lambda>l. l @ stream2 s) st) (handle_connection_with_permit mm rd2 E srv s2 permit peer)"
  using serve_connection_same [OF assms(1-4), of recv_new recv_new s1 s2 "conn_new permit" E "gate_context_new peer" 0] assms(5)
  by (simp add: handle_connection_with_permit_def undelegated_def conn_new_def)

text \<open>A peer whose bytes arrive one by one.\<close>

definition byte_reader :: "(bytes, nat) reader" where
  "byte_reader s n = (Ok (take (min n 1) s), drop (min n 1) s)"

interpretation byte_socket: stream_reader byte_reader "\<lambda>s. s"
  by unfold_locales (auto simp: byte_reader_def)

theorem connection_depends_on_bytes_witness:
  "map_option (\<lambda>(st, s). relabel_conn (\<lambda>l. l @ s) st)
     (handle_connection_with_permit (\<lambda>h n. find_sub n h) slice_reader sample_env sample_server get_a True None) =
   map_option (\<lambda>(st, s). relabel_conn (\<lambda>l. l @ s) st)
     (handle_connection_with_permit (\<lambda>h n. find_sub n h) byte_reader sample_env sample_server get_a True None)"
  by (rule connection_depends_on_bytes [OF naive_search.substring_search_axioms slice_socket.stream_reader_axioms
        byte_socket.stream_reader_axioms])
    (simp_all add: sample_server_def server_new_def MAX_BODY_BYTES_def)

end
