(* ===== verification/Csrf.thy ===== *)
theory Csrf
  imports Gates Body_Framing Sample_Heads
begin

text \<open>
  \<^verbatim>\<open>crates/plugin-csrf/src/config.rs\<close> and \<^verbatim>\<open>gate.rs\<close>: the gate that refuses cross-site state changes, and the
  validation of its configuration, with the parts of the standard library that the validation calls:
  parsing and printing IPv6 addresses and bounded decimal numbers. The lemmas give the exact decision of
  the gate and the shape of the origins that a configuration can hold.
\<close>

section \<open>Configuration\<close>

definition MAX_ALLOWED_ORIGINS :: nat where "MAX_ALLOWED_ORIGINS = 64"
definition MAX_EXEMPT_PATHS :: nat where "MAX_EXEMPT_PATHS = 64"
definition MAX_ENTRY_LEN :: nat where "MAX_ENTRY_LEN = 2048"

datatype CsrfConfigError = InvalidOrigin nat | InvalidExemptPath nat | TooManyOrigins | TooManyExemptPaths

record CsrfGateBuilder =
  csb_origins :: "bytes list"
  csb_exempt :: "bytes list"

record CsrfGate =
  csg_allowed_origins :: "bytes list"
  csg_exempt_paths :: "bytes list"

definition csrf_builder :: CsrfGateBuilder where
  "csrf_builder = \<lparr>csb_origins = [], csb_exempt = []\<rparr>"

definition csrf_gate_new :: "bytes list \<Rightarrow> bytes list \<Rightarrow> CsrfGate" where
  "csrf_gate_new allowed_origins exempt_paths =
     \<lparr>csg_allowed_origins = allowed_origins, csg_exempt_paths = exempt_paths\<rparr>"

definition csrf_allow_origin :: "bytes \<Rightarrow> CsrfGateBuilder \<Rightarrow> CsrfGateBuilder" where
  "csrf_allow_origin origin b = b\<lparr>csb_origins := csb_origins b @ [origin]\<rparr>"

definition exempt_path :: "bytes \<Rightarrow> CsrfGateBuilder \<Rightarrow> CsrfGateBuilder" where
  "exempt_path path b = b\<lparr>csb_exempt := csb_exempt b @ [path]\<rparr>"

subsection \<open>IPv6 addresses of the standard library\<close>

text \<open>\<^verbatim>\<open><Ipv6Addr as FromStr>\<close> on text without a dot (the caller rejects dots, so an embedded IPv4 tail
  never parses): groups of one to four hexadecimal digits separated by colons, at most one double colon
  that stands for at least one group of zeros. \<open>read_groups limit i s\<close> reads up to \<open>limit\<close> groups, each
  but the first after a colon, and returns them with the rest of the text.\<close>

definition read_hex_group :: "bytes \<Rightarrow> (nat \<times> bytes) option" where
  "read_hex_group s =
     (let ds = takeWhile is_ascii_hexdigit s in
      if ds = [] \<or> length ds > 4 then None else Some (radix_val 16 ds, drop (length ds) s))"

fun read_groups :: "nat \<Rightarrow> bool \<Rightarrow> bytes \<Rightarrow> nat list \<times> bytes" where
  "read_groups 0 first s = ([], s)"
| "read_groups (Suc limit) first s =
     (case (if first then Some s else strip_prefix '':'' s) of
        None \<Rightarrow> ([], s)
      | Some s' \<Rightarrow>
          (case read_hex_group s' of
             None \<Rightarrow> ([], s)
           | Some (g, rest) \<Rightarrow>
               (case read_groups limit False rest of (gs, r) \<Rightarrow> (g # gs, r))))"

definition parse_ipv6 :: "bytes \<Rightarrow> nat list option" where
  "parse_ipv6 s =
     (case read_groups 8 True s of (hs, r) \<Rightarrow>
        if length hs = 8 then (if r = [] then Some hs else None)
        else
          (case strip_prefix ''::'' r of
             None \<Rightarrow> None
           | Some r' \<Rightarrow>
               (case read_groups (8 - (length hs + 1)) True r' of (ts, r'') \<Rightarrow>
                  if r'' = [] then Some (hs @ replicate (8 - length hs - length ts) 0 @ ts) else None)))"

text \<open>\<^verbatim>\<open><Ipv6Addr as Display>\<close> for an address that is not IPv4-mapped: the first longest run of at least two
  zero groups is written as a double colon.\<close>

fun zero_run :: "nat list \<Rightarrow> nat" where
  "zero_run [] = 0"
| "zero_run (g # gs) = (if g = 0 then Suc (zero_run gs) else 0)"

fun longest_run :: "nat \<Rightarrow> nat list \<Rightarrow> nat \<times> nat" where
  "longest_run i [] = (0, 0)"
| "longest_run i (g # gs) =
     (case longest_run (Suc i) gs of (start, len) \<Rightarrow>
        if zero_run (g # gs) \<ge> len \<and> zero_run (g # gs) > 0 then (i, zero_run (g # gs)) else (start, len))"

definition print_groups :: "nat list \<Rightarrow> bytes" where
  "print_groups gs = join '':'' (map to_hex gs)"

definition print_ipv6 :: "nat list \<Rightarrow> bytes" where
  "print_ipv6 gs =
     (case longest_run 0 gs of (start, len) \<Rightarrow>
        if len > 1 then print_groups (take start gs) @ ''::'' @ print_groups (drop (start + len) gs)
        else print_groups gs)"

definition is_ipv4_mapped :: "nat list \<Rightarrow> bool" where
  "is_ipv4_mapped gs \<longleftrightarrow> take 6 gs = [0, 0, 0, 0, 0, 0xffff]"

definition valid_ipv6_literal :: "bytes \<Rightarrow> bool" where
  "valid_ipv6_literal inner =
     (if CHR ''.'' \<in> set inner then False
      else
        case parse_ipv6 inner of
          None \<Rightarrow> False
        | Some addr \<Rightarrow>
            let canonical =
              (if is_ipv4_mapped addr then ''::ffff:'' @ to_hex (addr ! 6) @ '':'' @ to_hex (addr ! 7)
               else print_ipv6 addr)
            in canonical = inner)"

subsection \<open>Hosts, ports and paths\<close>

definition last_label :: "bytes \<Rightarrow> bytes" where
  "last_label h = last (split_on CHR ''.'' h)"

definition ends_in_number :: "bytes \<Rightarrow> bool" where
  "ends_in_number h =
     (let lst = last_label h in
      if lst = [] then False
      else if list_all is_ascii_digit lst then True
      else (case strip_prefix ''0x'' lst of Some r \<Rightarrow> list_all is_ascii_hexdigit r | None \<Rightarrow> False))"

definition ipv4_octet :: "bytes \<Rightarrow> bool" where
  "ipv4_octet part \<longleftrightarrow> part \<noteq> [] \<and> length part \<le> 3 \<and> list_all is_ascii_digit part \<and>
     (part = ''0'' \<or> \<not> starts_with ''0'' part) \<and> radix_val 10 part \<le> 255"

definition canonical_ipv4 :: "bytes \<Rightarrow> bool" where
  "canonical_ipv4 h \<longleftrightarrow>
     (let parts = split_on CHR ''.'' h in list_all ipv4_octet parts \<and> length parts = 4)"

definition host_label :: "bytes \<Rightarrow> bool" where
  "host_label label \<longleftrightarrow> label \<noteq> [] \<and>
     list_all (\<lambda>b. is_ascii_lowercase b \<or> is_ascii_digit b \<or> b = CHR ''-'') label"

definition valid_hostname :: "bytes \<Rightarrow> bool" where
  "valid_hostname h =
     (let stripped = strip_suffix ''.'' h;
          had_dot = (stripped \<noteq> None);
          h = (case stripped of Some t \<Rightarrow> t | None \<Rightarrow> h)
      in if ends_in_number h then \<not> had_dot \<and> canonical_ipv4 h
         else h \<noteq> [] \<and> list_all host_label (split_on CHR ''.'' h))"

definition valid_port :: "bytes \<Rightarrow> bytes \<Rightarrow> bool" where
  "valid_port p default_port =
     (if p = [] \<or> length p > 5 \<or> starts_with ''0'' p \<or> p = default_port then False
      else list_all is_ascii_digit p \<and> radix_val 10 p \<le> 65535)"

definition origin_port :: "bytes \<Rightarrow> bytes option option" where
  "origin_port rest =
     (case strip_prefix ''['' rest of
        Some after \<Rightarrow>
          (case split_once CHR '']'' after of
             None \<Rightarrow> None
           | Some (inner, tail) \<Rightarrow>
               if \<not> valid_ipv6_literal inner then None
               else if tail = [] then Some None
               else (case strip_prefix '':'' tail of Some p \<Rightarrow> Some (Some p) | None \<Rightarrow> None))
      | None \<Rightarrow>
          (case (case split_once CHR '':'' rest of Some (h, p) \<Rightarrow> (h, Some p) | None \<Rightarrow> (rest, None)) of
             (host, port) \<Rightarrow> if \<not> valid_hostname host then None else Some port))"

definition valid_origin :: "bytes \<Rightarrow> bool" where
  "valid_origin s =
     (if s = [] \<or> length s > MAX_ENTRY_LEN then False
      else
        case (case strip_prefix ''https://'' s of
                Some r \<Rightarrow> Some (''443'', r)
              | None \<Rightarrow> (case strip_prefix ''http://'' s of Some r \<Rightarrow> Some (''80'', r) | None \<Rightarrow> None)) of
          None \<Rightarrow> False
        | Some (default_port, rest) \<Rightarrow>
            (case origin_port rest of
               None \<Rightarrow> False
             | Some None \<Rightarrow> True
             | Some (Some p) \<Rightarrow> valid_port p default_port))"

definition valid_exempt_path :: "bytes \<Rightarrow> bool" where
  "valid_exempt_path p \<longleftrightarrow> p \<noteq> [] \<and> length p \<le> MAX_ENTRY_LEN \<and> starts_with ''/'' p \<and>
     list_all (\<lambda>b. bval b > 0x20 \<and> bval b < 0x7f \<and> b \<noteq> CHR ''?'' \<and> b \<noteq> CHR ''#'') p"

definition csrf_build :: "CsrfGateBuilder \<Rightarrow> CsrfConfigError + CsrfGate" where
  "csrf_build b =
     (if length (csb_origins b) > MAX_ALLOWED_ORIGINS then Err TooManyOrigins
      else if length (csb_exempt b) > MAX_EXEMPT_PATHS then Err TooManyExemptPaths
      else
        case position (\<lambda>o'. \<not> valid_origin o') (csb_origins b) of
          Some index \<Rightarrow> Err (InvalidOrigin index)
        | None \<Rightarrow>
            (case position (\<lambda>p. \<not> valid_exempt_path p) (csb_exempt b) of
               Some index \<Rightarrow> Err (InvalidExemptPath index)
             | None \<Rightarrow> Ok (csrf_gate_new (csb_origins b) (csb_exempt b))))"

section \<open>The gate\<close>

definition csrf_deny :: GateOutcome where
  "csrf_deny = gate_reject 403 []"

fun count_loop :: "bytes \<Rightarrow> nat \<Rightarrow> bytes option \<Rightarrow> (bytes \<times> bytes) list \<Rightarrow> nat \<times> bytes option" where
  "count_loop name n first [] = (n, first)"
| "count_loop name n first ((k, v) # hs) =
     (if eq_ignore_ascii_case k name
      then count_loop name (min (n + 1) 2) (if n = 0 then Some v else first) hs
      else count_loop name n first hs)"

definition count_header :: "RequestHead \<Rightarrow> bytes \<Rightarrow> nat \<times> bytes option" where
  "count_header head name = count_loop name 0 None (headers head)"

definition csrf_check :: "CsrfGate \<Rightarrow> RequestHead \<Rightarrow> GateOutcome" where
  "csrf_check gate head =
     (if head_method head \<in> {''GET'', ''HEAD'', ''OPTIONS''} then Allow
      else if list_ex (\<lambda>p. p = head_path head) (csg_exempt_paths gate) then Allow
      else
        case count_header head ''sec-fetch-site'' of (n, site) \<Rightarrow>
          if n \<noteq> 0 then
            (if n = 1 \<and> (site = Some ''same-origin'' \<or> site = Some ''none'') then Allow else csrf_deny)
          else
            case count_header head ''origin'' of (k, origin) \<Rightarrow>
              if k = 1 \<and> (case origin of Some v \<Rightarrow> list_ex (\<lambda>a. a = v) (csg_allowed_origins gate) | None \<Rightarrow> False)
              then Allow else csrf_deny)"

definition csrf_gate :: "CsrfGate \<Rightarrow> 'a RequestGate" where
  "csrf_gate gate = \<lparr>gate_name = ''csrf-gate'', gate_check = (\<lambda>t head ctx ext. (csrf_check gate head, ext))\<rparr>"

section \<open>The decision\<close>

lemma count_loop_seen:
  "0 < n \<Longrightarrow> n \<le> 2 \<Longrightarrow> count_loop name n first hs =
     (min 2 (n + length (filter (\<lambda>(k, _). eq_ignore_ascii_case k name) hs)), first)"
  by (induction name n first hs rule: count_loop.induct) (auto simp: min_def)

lemma count_loop_values:
  "count_loop name 0 None hs =
     (let vs = map snd (filter (\<lambda>(k, _). eq_ignore_ascii_case k name) hs) in
      (min 2 (length vs), if vs = [] then None else Some (hd vs)))"
  by (induction hs) (auto simp: Let_def count_loop_seen)

lemma count_header_values:
  "count_header head name = (min 2 (length (header_values head name)),
     if header_values head name = [] then None else Some (hd (header_values head name)))"
  by (simp add: count_header_def count_loop_values header_values_def Let_def)

lemma one_value: "min 2 (length vs) = 1 \<longleftrightarrow> (\<exists>v. vs = [v])"
  by (cases vs; cases "tl vs") (auto simp: min_def)

text \<open>When the gate lets a request pass.\<close>

definition same_site_evidence :: "CsrfGate \<Rightarrow> RequestHead \<Rightarrow> bool" where
  "same_site_evidence gate head \<longleftrightarrow>
     (\<exists>v\<in>{''same-origin'', ''none''}. header_values head ''sec-fetch-site'' = [v]) \<or>
     (header_values head ''sec-fetch-site'' = [] \<and>
      (\<exists>v\<in>set (csg_allowed_origins gate). header_values head ''origin'' = [v]))"

lemma csrf_check_eq:
  "csrf_check gate head =
     (if head_method head \<in> {''GET'', ''HEAD'', ''OPTIONS''} \<or> head_path head \<in> set (csg_exempt_paths gate) \<or>
        same_site_evidence gate head
      then Allow else csrf_deny)"
proof (cases "header_values head ''sec-fetch-site''")
  case Nil
  have "min 2 (length (header_values head ''origin'')) = 1 \<and>
      (case if header_values head ''origin'' = [] then None else Some (hd (header_values head ''origin'')) of
         Some v \<Rightarrow> list_ex (\<lambda>a. a = v) (csg_allowed_origins gate) | None \<Rightarrow> False) \<longleftrightarrow>
      (\<exists>v\<in>set (csg_allowed_origins gate). header_values head ''origin'' = [v])"
    unfolding one_value by (auto simp: list_ex_iff)
  with Nil show ?thesis
    by (auto simp: csrf_check_def count_header_values same_site_evidence_def list_ex_iff)
next
  case (Cons v vs)
  then show ?thesis
    by (cases vs) (auto simp: csrf_check_def count_header_values same_site_evidence_def list_ex_iff min_def)
qed

section \<open>The shape of a configured origin\<close>

definition origin_byte :: "byte \<Rightarrow> bool" where
  "origin_byte b \<longleftrightarrow> is_ascii_lowercase b \<or> is_ascii_digit b \<or> b \<in> set ''-.:[]''"

lemma to_hex_bytes: "list_all origin_byte (to_hex n)"
  unfolding list_all_iff
proof
  fix c assume "c \<in> set (to_hex n)"
  then obtain d where "d < 16" "c = digit_char d"
    using digits_of_lt [of 16 _ n] by (auto simp: fmt_radix_def)
  then show "origin_byte c"
    by (auto simp: origin_byte_def ascii_class_defs digit_char_bval)
qed

lemma join_bytes: "list_all p d \<Longrightarrow> \<forall>x\<in>set xs. list_all p x \<Longrightarrow> list_all p (join d xs)"
  using set_join [of d xs] by (fastforce simp: list_all_iff)

lemma split_bytes: "p d \<Longrightarrow> \<forall>x\<in>set (split_on d s). list_all p x \<Longrightarrow> list_all p s"
  using join_bytes [of p "[d]" "split_on d s"] by simp

lemma print_groups_bytes: "list_all origin_byte (print_groups gs)"
  unfolding print_groups_def using to_hex_bytes by (intro join_bytes) (auto simp: origin_byte_def)

lemma print_ipv6_bytes: "list_all origin_byte (print_ipv6 gs)"
  using print_groups_bytes by (auto simp: print_ipv6_def origin_byte_def split: prod.split)

lemma ipv6_literal_bytes: "valid_ipv6_literal s \<Longrightarrow> list_all origin_byte s"
proof -
  assume v: "valid_ipv6_literal s"
  then obtain addr where p: "parse_ipv6 s = Some addr"
    by (cases "parse_ipv6 s") (simp_all add: valid_ipv6_literal_def split: if_splits)
  have "s = (if is_ipv4_mapped addr
      then ''::ffff:'' @ to_hex (addr ! 6) @ '':'' @ to_hex (addr ! 7) else print_ipv6 addr)"
    using v unfolding valid_ipv6_literal_def Let_def p option.case by (metis (no_types, lifting))
  moreover have "list_all origin_byte ''::ffff:''" "origin_byte CHR '':''"
    by (simp_all add: origin_byte_def ascii_class_defs)
  ultimately show ?thesis
    using to_hex_bytes print_ipv6_bytes by (cases "is_ipv4_mapped addr") simp_all
qed

lemma hostname_bytes: "valid_hostname h \<Longrightarrow> list_all origin_byte h"
proof -
  assume v: "valid_hostname h"
  define t where "t = (case strip_suffix ''.'' h of Some t \<Rightarrow> t | None \<Rightarrow> h)"
  have dot: "origin_byte CHR ''.''" by (simp add: origin_byte_def)
  have "\<forall>x\<in>set (split_on CHR ''.'' t). list_all origin_byte x"
  proof (cases "ends_in_number t")
    case True
    with v have "canonical_ipv4 t"
      by (cases "strip_suffix ''.'' h") (auto simp: valid_hostname_def t_def Let_def)
    then show ?thesis
      by (auto simp: canonical_ipv4_def Let_def ipv4_octet_def list_all_iff origin_byte_def)
  next
    case False
    with v have "list_all host_label (split_on CHR ''.'' t)"
      by (cases "strip_suffix ''.'' h") (auto simp: valid_hostname_def t_def Let_def)
    then show ?thesis by (auto simp: host_label_def list_all_iff origin_byte_def)
  qed
  then have "list_all origin_byte t" using split_bytes [of origin_byte "CHR ''.''"] dot by blast
  moreover have "h = t \<or> h = t @ ''.''"
    by (auto simp: t_def strip_suffix_Some_iff split: option.splits)
  ultimately show ?thesis using dot by auto
qed

lemma port_bytes: "valid_port p d \<Longrightarrow> list_all origin_byte p"
  by (auto simp: valid_port_def list_all_iff origin_byte_def split: if_splits)

lemma valid_origin_shape:
  assumes "valid_origin s"
  shows "\<exists>rest. (s = ''https://'' @ rest \<or> s = ''http://'' @ rest) \<and> rest \<noteq> [] \<and> list_all origin_byte rest"
proof -
  obtain d rest po where s: "s = ''https://'' @ rest \<or> s = ''http://'' @ rest"
    and po: "origin_port rest = Some po" "\<forall>p. po = Some p \<longrightarrow> valid_port p d"
    using assms by (auto simp: valid_origin_def strip_prefix_Some_iff split: if_splits option.splits)
  from po have p: "origin_port rest = Some None \<or> (\<exists>p. origin_port rest = Some (Some p) \<and> valid_port p d)"
    by (cases po) auto
  have "rest \<noteq> [] \<and> list_all origin_byte rest"
  proof (cases "strip_prefix ''['' rest")
    case (Some after)
    then have r: "rest = CHR ''['' # after" by (simp add: strip_prefix_Some_iff)
    with Some p obtain inner tail where so: "split_once CHR '']'' after = Some (inner, tail)"
      and i: "valid_ipv6_literal inner" and t: "tail = [] \<or> (\<exists>p. tail = CHR '':'' # p \<and> valid_port p d)"
      by (auto simp: origin_port_def strip_prefix_Some_iff split: option.splits if_splits)
    have "after = inner @ CHR '']'' # tail" using so by (simp add: split_once_Some_iff)
    then show ?thesis
      using r ipv6_literal_bytes [OF i] t port_bytes by (auto simp: origin_byte_def)
  next
    case None
    with p obtain host where h: "valid_hostname host"
      and t: "rest = host \<or> (\<exists>p. rest = host @ CHR '':'' # p \<and> valid_port p d)"
      by (auto simp: origin_port_def split_once_Some_iff split: option.splits prod.splits if_splits)
    have "host \<noteq> []"
      using h by (auto simp: valid_hostname_def ends_in_number_def last_label_def strip_suffix_def)
    then show ?thesis using t hostname_bytes [OF h] port_bytes by (auto simp: origin_byte_def)
  qed
  with s show ?thesis by blast
qed

section \<open>Properties\<close>

lemma csrf_build_Ok_D:
  assumes "csrf_build b = Ok gate"
  shows "csg_allowed_origins gate = csb_origins b" "csg_exempt_paths gate = csb_exempt b"
    "\<forall>s\<in>set (csb_origins b). valid_origin s" "\<forall>p\<in>set (csb_exempt b). valid_exempt_path p"
    "length (csb_origins b) \<le> 64" "length (csb_exempt b) \<le> 64"
  using assms
  by (auto simp: csrf_build_def csrf_gate_new_def position_None_iff MAX_ALLOWED_ORIGINS_def MAX_EXEMPT_PATHS_def
      split: if_splits option.splits)


definition sample_csrf :: CsrfGateBuilder where
  "sample_csrf = csrf_allow_origin ''https://a.example'' (exempt_path ''/hook'' csrf_builder)"

lemma sample_csrf_builds:
  "csrf_build sample_csrf = Ok (csrf_gate_new [''https://a.example''] [''/hook''])"
  by code_simp


end
