(* ===== verification/Percent.thy ===== *)
theory Percent
  imports Utf8
begin

text \<open>
  \<^verbatim>\<open>crates/http/src/percent.rs\<close>: percent-decoding. \<open>decode_from i s\<close> is the loop with the scan position
  \<open>i\<close> and the bytes from there on. The results characterise acceptance (the input is a sequence of
  literal bytes and escapes, whose values are the output) and the reported error positions.
\<close>

section \<open>The code\<close>

datatype PercentDecodeError = TruncatedEscape nat | InvalidHexDigit nat | InvalidUtf8

definition hex_value :: "byte \<Rightarrow> nat option" where
  "hex_value b =
     (if 48 \<le> bval b \<and> bval b \<le> 57 then Some (bval b - 48)
      else if 65 \<le> bval b \<and> bval b \<le> 70 then Some (bval b - 65 + 10)
      else if 97 \<le> bval b \<and> bval b \<le> 102 then Some (bval b - 97 + 10)
      else None)"

fun decode_from :: "nat \<Rightarrow> bytes \<Rightarrow> PercentDecodeError + bytes" where
  "decode_from i [] = Ok []"
| "decode_from i (b # s) =
     (if b = CHR ''%'' then
        (case s of
           hi # lo # r \<Rightarrow>
             res_bind (ok_or (InvalidHexDigit (i + 1)) (hex_value hi)) (\<lambda>hi_v.
             res_bind (ok_or (InvalidHexDigit (i + 2)) (hex_value lo)) (\<lambda>lo_v.
             res_bind (decode_from (i + 3) r) (\<lambda>out. Ok (char_of (hi_v * 16 + lo_v) # out))))
         | _ \<Rightarrow> Err (TruncatedEscape i))
      else res_bind (decode_from (i + 1) s) (\<lambda>out. Ok (b # out)))"

definition decode_bytes :: "bytes \<Rightarrow> PercentDecodeError + bytes" where
  "decode_bytes input = decode_from 0 input"

definition decode_str :: "bytes \<Rightarrow> PercentDecodeError + bytes" where
  "decode_str input =
     res_bind (decode_bytes input) (\<lambda>bs. if utf8_valid bs then Ok bs else Err InvalidUtf8)"

section \<open>Escapes\<close>

text \<open>\<open>spells p b\<close>: the bytes \<open>p\<close> stand for the byte \<open>b\<close> in percent-encoded text.\<close>

definition spells :: "bytes \<Rightarrow> byte \<Rightarrow> bool" where
  "spells p b \<longleftrightarrow> p = [b] \<and> b \<noteq> CHR ''%'' \<or>
     (\<exists>h l. p = [CHR ''%'', h, l] \<and> hex_value h = Some (bval b div 16) \<and> hex_value l = Some (bval b mod 16))"

lemma hex_value_less: "hex_value b = Some v \<Longrightarrow> v < 16"
  by (auto simp: hex_value_def split: if_splits)

lemma spells_hex:
  assumes "hex_value h = Some u" "hex_value l = Some v"
  shows "spells [CHR ''%'', h, l] (char_of (u * 16 + v))"
  using hex_value_less [OF assms(1)] hex_value_less [OF assms(2)] assms
  by (simp add: spells_def bval_char_of)

lemma spells_hex_unique:
  assumes "spells [CHR ''%'', h, l] b"
  obtains u v where "hex_value h = Some u" "hex_value l = Some v" "b = char_of (u * 16 + v)"
proof -
  from assms have "hex_value h = Some (bval b div 16)" "hex_value l = Some (bval b mod 16)"
    by (auto simp: spells_def)
  moreover have "bval b = bval b div 16 * 16 + bval b mod 16" by simp
  then have "b = char_of (bval b div 16 * 16 + bval b mod 16)" by (metis char_of_char)
  ultimately show thesis by (rule that)
qed

lemma decode_from_complete: "list_all2 spells ps bs \<Longrightarrow> decode_from i (concat ps) = Ok bs"
proof (induction arbitrary: i rule: list_all2_induct)
  case (Cons p ps b bs)
  from Cons(1) consider "p = [b]" "b \<noteq> CHR ''%''" | h l where "p = [CHR ''%'', h, l]"
    by (auto simp: spells_def)
  then show ?case
  proof cases
    case 2
    with Cons show ?thesis by (auto elim: spells_hex_unique)
  qed (use Cons in simp)
qed simp

lemma decode_from_sound:
  "decode_from i s = Ok bs \<Longrightarrow> \<exists>ps. s = concat ps \<and> list_all2 spells ps bs"
proof (induction i s arbitrary: bs rule: decode_from.induct)
  case (2 i b s)
  show ?case
  proof (cases "b = CHR ''%''")
    case True
    with "2.prems" obtain h l r u v out where *: "s = h # l # r" "hex_value h = Some u" "hex_value l = Some v"
      "decode_from (i + 3) r = Ok out" "bs = char_of (u * 16 + v) # out"
      by (auto simp: res_bind_eq_Ok split: list.splits)
    with "2.IH"(1) True obtain ps where "r = concat ps" "list_all2 spells ps out" by blast
    with * True spells_hex have "b # s = concat ([CHR ''%'', h, l] # ps) \<and>
        list_all2 spells ([CHR ''%'', h, l] # ps) bs"
      by simp
    then show ?thesis by blast
  next
    case False
    with "2.prems" obtain out where *: "decode_from (i + 1) s = Ok out" "bs = b # out"
      by (auto simp: res_bind_eq_Ok)
    with "2.IH"(2) False obtain ps where "s = concat ps" "list_all2 spells ps out" by blast
    with * False have "b # s = concat ([b] # ps) \<and> list_all2 spells ([b] # ps) bs"
      by (simp add: spells_def)
    then show ?thesis by blast
  qed
qed simp

text \<open>Percent-decoding accepts exactly the texts that are a sequence of literal bytes (other than the
  percent sign) and of escapes with two hexadecimal digits of either case, and the output is the
  sequence of the bytes they stand for.\<close>

theorem decode_bytes_iff:
  "decode_bytes s = Ok bs \<longleftrightarrow> (\<exists>ps. s = concat ps \<and> list_all2 spells ps bs)"
  unfolding decode_bytes_def using decode_from_complete decode_from_sound by blast

lemma spells_length: "list_all2 spells ps bs \<Longrightarrow> length bs \<le> length (concat ps)"
  by (induction rule: list_all2_induct) (auto simp: spells_def)

lemma decode_from_error:
  "decode_from i s = Err e \<Longrightarrow>
     (\<exists>k. e = TruncatedEscape (i + k) \<and> k < length s \<and> s ! k = CHR ''%'' \<and> length s \<le> k + 2) \<or>
     (\<exists>k. e = InvalidHexDigit (i + k) \<and> k < length s \<and> hex_value (s ! k) = None \<and>
        (0 < k \<and> s ! (k - 1) = CHR ''%'' \<or> 1 < k \<and> s ! (k - 2) = CHR ''%''))"
  (is "_ \<Longrightarrow> ?T i s e \<or> ?H i s e")
proof (induction i s arbitrary: e rule: decode_from.induct)
  case (2 i b s)
  have lift: "?T i (x @ s') e' \<or> ?H i (x @ s') e'" if "?T (i + length x) s' e' \<or> ?H (i + length x) s' e'"
    for x s' e'
  proof -
    have nth: "(x @ s') ! (length x + k) = s' ! k" for k by simp
    have nth1: "(x @ s') ! (length x + k - j) = s' ! (k - j)" if "j \<le> k" for k j
      using that by (simp only: diff_add_assoc nth_append_length_plus)
    from that show ?thesis
    proof
      assume "?T (i + length x) s' e'"
      then obtain k where k: "e' = TruncatedEscape (i + (length x + k))" "k < length s'"
        "s' ! k = CHR ''%''" "length s' \<le> k + 2" by (auto simp: add.assoc)
      then have "?T i (x @ s') e'" by (intro exI [of _ "length x + k"]) simp
      then show ?thesis ..
    next
      assume "?H (i + length x) s' e'"
      then obtain k where k: "e' = InvalidHexDigit (i + (length x + k))" "k < length s'" "hex_value (s' ! k) = None"
        "0 < k \<and> s' ! (k - 1) = CHR ''%'' \<or> 1 < k \<and> s' ! (k - 2) = CHR ''%''" by (auto simp: add.assoc)
      then have "?H i (x @ s') e'"
        using nth1 [of 1 k] nth1 [of 2 k] by (intro exI [of _ "length x + k"]) auto
      then show ?thesis ..
    qed
  qed
  show ?case
  proof (cases "b = CHR ''%''")
    case False
    with "2.prems" have "decode_from (i + 1) s = Err e"
      by (cases "decode_from (i + 1) s") auto
    with "2.IH"(2) False lift [where x = "[b]" and s' = s and e' = e] show ?thesis by simp
  next
    case True
    show ?thesis
    proof (cases s rule: list_tail_cases)
      case (3 h l r)
      consider "hex_value h = None" "e = InvalidHexDigit (i + 1)"
        | "hex_value l = None" "e = InvalidHexDigit (i + 2)"
        | "hex_value h \<noteq> None" "hex_value l \<noteq> None" "decode_from (i + 3) r = Err e"
        using "2.prems" True 3
        by (cases "hex_value h"; cases "hex_value l"; cases "decode_from (i + 3) r") auto
      then show ?thesis
      proof cases
        case a: 1
        then have "?H i (b # s) e" using True 3 by (intro exI [of _ 1]) simp
        then show ?thesis ..
      next
        case a: 2
        then have "?H i (b # s) e" using True 3 by (intro exI [of _ 2]) simp
        then show ?thesis ..
      next
        case a: 3
        have "?T (i + 3) r e \<or> ?H (i + 3) r e"
          using "2.IH"(1) [OF True 3] a by (auto simp del: One_nat_def)
        moreover have "i + 3 = i + length [b, h, l]" by simp
        ultimately have "?T i ([b, h, l] @ r) e \<or> ?H i ([b, h, l] @ r) e"
          using lift [where x = "[b, h, l]" and s' = r and e' = e] by (simp only:)
        then show ?thesis by (simp only: 3 append_Cons append_Nil)
      qed
    qed (use "2.prems" True in auto)
  qed
qed simp

text \<open>Error positions. A truncated-escape error points at a percent sign with fewer than two bytes
  after it; a hex-digit error points at a byte inside an escape that is not a hexadecimal digit.\<close>

theorem decode_bytes_error_position:
  assumes "decode_bytes s = Err e"
  shows "(\<exists>k. e = TruncatedEscape k \<and> k < length s \<and> s ! k = CHR ''%'' \<and> length s \<le> k + 2) \<or>
     (\<exists>k. e = InvalidHexDigit k \<and> k < length s \<and> hex_value (s ! k) = None \<and>
        (0 < k \<and> s ! (k - 1) = CHR ''%'' \<or> 1 < k \<and> s ! (k - 2) = CHR ''%''))"
  using decode_from_error [of 0 s e] assms by (simp add: decode_bytes_def)

theorem decode_bytes_error_position_witness:
  "decode_bytes ''a%2G'' = Err (InvalidHexDigit 3) \<and> hex_value (''a%2G'' ! 3) = None"
proof -
  have e: "decode_bytes ''a%2G'' = Err (InvalidHexDigit 3)"
    by (simp add: decode_bytes_def hex_value_def)
  with decode_bytes_error_position [OF e] show ?thesis by auto
qed

end
