(* ===== verification/Http_Error.thy ===== *)
theory Http_Error
  imports Response Percent
begin

text \<open>
  \<^verbatim>\<open>crates/http/src/error.rs\<close>: errors of handlers as JSON responses. The message is escaped by hand;
  \<open>json_string\<close> is a reader of JSON strings (RFC 8259) against which the escaping is proved.
\<close>

section \<open>The code\<close>

record HttpError =
  he_status :: nat
  he_message :: bytes

definition http_error_new :: "nat \<Rightarrow> bytes \<Rightarrow> HttpError" where
  "http_error_new status message = \<lparr>he_status = status, he_message = message\<rparr>"

definition hex4 :: "nat \<Rightarrow> bytes" where
  "hex4 n = map digit_char [n div 4096 mod 16, n div 256 mod 16, n div 16 mod 16, n mod 16]"

definition escape_char :: "nat \<times> bytes \<Rightarrow> bytes" where
  "escape_char = (\<lambda>(c, bs).
     if c = 0x22 then [backslash, dquote]
     else if c = 0x5C then [backslash, backslash]
     else if c = 0x08 then [backslash, CHR ''b'']
     else if c = 0x0C then [backslash, CHR ''f'']
     else if c = 0x0A then [backslash, CHR ''n'']
     else if c = 0x0D then [backslash, CHR ''r'']
     else if c = 0x09 then [backslash, CHR ''t'']
     else if c < 0x20 then [backslash, CHR ''u''] @ hex4 c
     else bs)"

definition escape_json_string :: "bytes \<Rightarrow> bytes \<Rightarrow> bytes" where
  "escape_json_string input out =
     out @ concat (map escape_char (case utf8_chunks input of Some cs \<Rightarrow> cs | None \<Rightarrow> []))"

definition error_response :: "nat \<Rightarrow> bytes \<Rightarrow> Response" where
  "error_response status message =
     (let body = [CHR ''{'', dquote] @ ''error'' @ [dquote, CHR '':'', dquote];
          body = escape_json_string message body;
          body = body @ [dquote, CHR ''}'']
      in with_content_type (response_new status body) ''application/json'')"

definition http_error_into_response :: "HttpError \<Rightarrow> Response" where
  "http_error_into_response e = error_response (he_status e) (he_message e)"

definition result_into_response :: "HttpError + Response \<Rightarrow> Response" where
  "result_into_response r = (case r of Ok ok \<Rightarrow> ok | Err e \<Rightarrow> http_error_into_response e)"

section \<open>A JSON string reader\<close>

definition simple_escape :: "byte \<Rightarrow> byte option" where
  "simple_escape c = map_of [(dquote, dquote), (backslash, backslash), (CHR ''/'', CHR ''/''),
     (CHR ''b'', CHR 0x08), (CHR ''f'', CHR 0x0C), (CHR ''n'', lf), (CHR ''r'', cr), (CHR ''t'', htab)] c"

definition hex_quad :: "byte \<Rightarrow> byte \<Rightarrow> byte \<Rightarrow> byte \<Rightarrow> nat option" where
  "hex_quad a b c d = (case (hex_value a, hex_value b, hex_value c, hex_value d) of
     (Some i, Some j, Some k, Some l) \<Rightarrow> Some (i * 4096 + j * 256 + k * 16 + l) | _ \<Rightarrow> None)"

text \<open>The text of a string up to its closing quote, and what follows it; escapes for code points from
  128 on are outside what this reader needs and are refused.\<close>

fun json_string :: "bytes \<Rightarrow> (bytes \<times> bytes) option" where
  "json_string [] = None"
| "json_string (b # s) =
     (if b = dquote then Some ([], s)
      else if bval b < 32 then None
      else if b = backslash then
        (case s of
           [] \<Rightarrow> None
         | c # s' \<Rightarrow>
             (case simple_escape c of
                Some x \<Rightarrow> map_option (\<lambda>(t, r). (x # t, r)) (json_string s')
              | None \<Rightarrow>
                  (case s' of
                     h1 # h2 # h3 # h4 # s'' \<Rightarrow>
                       if c = CHR ''u'' then
                         (case hex_quad h1 h2 h3 h4 of
                            Some n \<Rightarrow> if n < 128 then map_option (\<lambda>(t, r). (char_of n # t, r)) (json_string s'') else None
                          | None \<Rightarrow> None)
                       else None
                   | _ \<Rightarrow> None)))
      else map_option (\<lambda>(t, r). (b # t, r)) (json_string s))"

section \<open>Escaping and reading\<close>

definition escape_byte :: "byte \<Rightarrow> bytes" where
  "escape_byte b = escape_char (bval b, [b])"

lemma escape_high: "128 \<le> c \<Longrightarrow> escape_char (c, bs) = bs"
  by (simp add: escape_char_def)

lemma utf8_chunks_step:
  assumes "utf8_chunks s = Some cs" "s \<noteq> []"
  obtains c e r ds where "s = e @ r" "utf8_chunks r = Some ds" "cs = (c, e) # ds" "length r < length s"
    "(\<exists>b. e = [b] \<and> c = bval b) \<or> 128 \<le> c \<and> (\<forall>b\<in>set e. 128 \<le> bval b)"
proof -
  from assms obtain c r ds where c: "utf8_char s = Some (c, r)" "utf8_chunks r = Some ds"
    "cs = (c, take (length s - length r) s) # ds"
    by (auto simp: utf8_chunks.simps [of s] split: option.splits)
  have "\<exists>e. s = e @ r \<and> ((\<exists>b. e = [b] \<and> c = bval b) \<or> 128 \<le> c \<and> (\<forall>b\<in>set e. 128 \<le> bval b))"
    using utf8_char_bytes [OF c(1)] by auto
  then obtain e where e: "s = e @ r"
    "(\<exists>b. e = [b] \<and> c = bval b) \<or> 128 \<le> c \<and> (\<forall>b\<in>set e. 128 \<le> bval b)" by blast
  then have "take (length s - length r) s = e" by simp
  with c e show thesis using that utf8_char_less [OF c(1)] by blast
qed

lemma escape_chunks_bytes:
  "utf8_chunks s = Some cs \<Longrightarrow> concat (map escape_char cs) = concat (map escape_byte s)"
proof (induction "length s" arbitrary: s cs rule: less_induct)
  case less
  show ?case
  proof (cases "s = []")
    case False
    with less.prems obtain c e r ds where *: "s = e @ r" "utf8_chunks r = Some ds" "cs = (c, e) # ds"
      "length r < length s" "(\<exists>b. e = [b] \<and> c = bval b) \<or> 128 \<le> c \<and> (\<forall>b\<in>set e. 128 \<le> bval b)"
      by (rule utf8_chunks_step)
    have high: "concat (map escape_byte e) = e" if "\<forall>b\<in>set e. 128 \<le> bval b" for e
      using that by (induction e) (auto simp: escape_byte_def escape_high)
    have "escape_char (c, e) = concat (map escape_byte e)"
      using *(5) high by (auto simp: escape_byte_def escape_high)
    with less.hyps [OF *(4,2)] show ?thesis by (simp add: * del: concat.simps) simp
  qed (use less.prems in simp)
qed

lemma hex_value_digit: "d < 16 \<Longrightarrow> hex_value (digit_char d) = Some d"
  by (simp add: hex_value_def digit_char_bval)

lemma json_string_escape_byte:
  "json_string (escape_byte b @ t) = map_option (\<lambda>(x, r). (b # x, r)) (json_string t)"
proof -
  have sp: "simple_escape CHR ''u'' = None" "simple_escape dquote = Some dquote"
    "simple_escape backslash = Some backslash" "simple_escape CHR ''b'' = Some CHR 0x08"
    "simple_escape CHR ''f'' = Some CHR 0x0C" "simple_escape CHR ''n'' = Some lf"
    "simple_escape CHR ''r'' = Some cr" "simple_escape CHR ''t'' = Some htab"
    by (simp_all add: simple_escape_def)
  have ev: "bval b = bval c \<longleftrightarrow> b = c" for c by (rule bval_eq_iff)
  consider "b = dquote" | "b = backslash" | "b = CHR 0x08" | "b = CHR 0x0C" | "b = lf" | "b = cr" | "b = htab"
    | "bval b < 32" "b \<notin> {CHR 0x08, CHR 0x0C, lf, cr, htab}"
    | "32 \<le> bval b" "b \<noteq> dquote" "b \<noteq> backslash"
    by (cases "bval b < 32") auto
  then show ?thesis
  proof cases
    case 8
    then have "bval b \<noteq> 0x22" "bval b \<noteq> 0x5C" "bval b \<noteq> 0x08" "bval b \<noteq> 0x0C" "bval b \<noteq> 0x0A"
      "bval b \<noteq> 0x0D" "bval b \<noteq> 0x09"
      using ev [of "CHR 0x08"] ev [of "CHR 0x0C"] ev [of lf] ev [of cr] ev [of htab] by auto
    then have esc: "escape_byte b = [backslash, CHR ''u''] @ hex4 (bval b)"
      using 8(1) by (simp add: escape_byte_def escape_char_def)
    have "hex_quad (digit_char (bval b div 4096 mod 16)) (digit_char (bval b div 256 mod 16))
        (digit_char (bval b div 16 mod 16)) (digit_char (bval b mod 16)) = Some (bval b)"
      using 8(1) by (simp add: hex_quad_def hex_value_digit)
    with 8(1) show ?thesis by (simp add: esc hex4_def sp)
  next
    case 9
    then have "bval b \<noteq> 0x22" "bval b \<noteq> 0x5C" using ev [of dquote] ev [of backslash] by auto
    with 9 show ?thesis by (simp add: escape_byte_def escape_char_def)
  qed (simp_all add: escape_byte_def escape_char_def sp)
qed

lemma json_string_escape: "json_string (concat (map escape_byte s) @ dquote # rest) = Some (s, rest)"
  by (induction s) (simp_all add: json_string_escape_byte del: json_string.simps(2), simp)

text \<open>The error body is well-formed JSON. For every message (any UTF-8 string), the body of an error response is
  the object prefix, then a JSON string that reads back as exactly the message, then the closing
  brace: quotes, backslashes and control characters in the message cannot end the string early.\<close>

theorem error_body_roundtrip:
  assumes "utf8_valid message"
  shows "\<exists>text. r_body (error_response status message) = [CHR ''{'', dquote] @ ''error'' @ [dquote, CHR '':'', dquote] @ text \<and>
    json_string text = Some (message, ''}'') \<and> r_status (error_response status message) = status"
proof -
  obtain cs where "utf8_chunks message = Some cs" using assms by (auto simp: utf8_valid_def)
  then have "escape_json_string message out = out @ concat (map escape_byte message)" for out
    by (simp add: escape_json_string_def escape_chunks_bytes)
  then show ?thesis
    by (intro exI [of _ "concat (map escape_byte message) @ dquote # ''}''"])
      (simp add: error_response_def with_content_type_def response_new_def json_string_escape Let_def)
qed

theorem error_body_roundtrip_witness:
  "\<exists>text. r_body (error_response 404 ''not found'') = [CHR ''{'', dquote] @ ''error'' @ [dquote, CHR '':'', dquote] @ text \<and>
     json_string text = Some (''not found'', ''}'') \<and> r_status (error_response 404 ''not found'') = 404"
  by (rule error_body_roundtrip) (simp add: utf8_valid_ascii)

end
