(* ===== verification/Query.thy ===== *)
theory Query
  imports Prelude
begin

text \<open>
  \<^verbatim>\<open>crates/http/src/query.rs\<close>: the zero-copy splitter of query strings. \<open>pairs_next\<close> is one call of the
  iterator's \<^verbatim>\<open>next\<close> on the text it has not scanned yet, \<open>pairs_collect\<close> the whole iteration.
\<close>

section \<open>The code\<close>

definition MAX_QUERY_BYTES :: nat where "MAX_QUERY_BYTES = 8 * 1024"
definition MAX_QUERY_PAIRS :: nat where "MAX_QUERY_PAIRS = 256"

datatype QueryError = QueryTooLong | QueryTooManyPairs

record QueryPairs =
  remainder :: bytes

definition parse_query_with_limits :: "bytes \<Rightarrow> nat \<Rightarrow> nat \<Rightarrow> QueryError + QueryPairs" where
  "parse_query_with_limits query max_bytes max_pairs =
     (if length query > max_bytes then Err QueryTooLong
      else let pair_count = length (filter (\<lambda>seg. seg \<noteq> []) (split_on CHR ''&'' query)) in
        if pair_count > max_pairs then Err QueryTooManyPairs
        else Ok \<lparr>remainder = query\<rparr>)"

definition parse_query :: "bytes \<Rightarrow> QueryError + QueryPairs" where
  "parse_query query = parse_query_with_limits query MAX_QUERY_BYTES MAX_QUERY_PAIRS"

definition cut_segment :: "bytes \<Rightarrow> bytes \<times> bytes" where
  "cut_segment rem = (case split_once CHR ''&'' rem of Some (seg, rest) \<Rightarrow> (seg, rest) | None \<Rightarrow> (rem, []))"

definition cut_pair :: "bytes \<Rightarrow> bytes \<times> bytes" where
  "cut_pair segment = (case split_once CHR ''='' segment of Some (key, val) \<Rightarrow> (key, val) | None \<Rightarrow> (segment, []))"

lemma cut_segment_less: "rem \<noteq> [] \<Longrightarrow> length (snd (cut_segment rem)) < length rem"
  by (auto simp: cut_segment_def split_once_Some_iff split: option.split)

function pairs_next :: "bytes \<Rightarrow> (bytes \<times> bytes) option \<times> bytes" where
  "pairs_next rem =
     (if rem = [] then (None, [])
      else let (segment, rest) = cut_segment rem in
        if segment = [] then pairs_next rest else (Some (cut_pair segment), rest))"
  by pat_completeness auto
termination
  by (relation "measure length") (auto dest: cut_segment_less simp: prod_eq_iff)

declare pairs_next.simps [simp del]

lemma pairs_next_Nil [simp]: "pairs_next [] = (None, [])"
  by (simp add: pairs_next.simps)

lemma pairs_next_cut:
  "rem \<noteq> [] \<Longrightarrow> cut_segment rem = (seg, r) \<Longrightarrow>
   pairs_next rem = (if seg = [] then pairs_next r else (Some (cut_pair seg), r))"
  by (simp add: pairs_next.simps [of rem])

lemma pairs_next_less: "pairs_next rem = (Some p, rest) \<Longrightarrow> length rest < length rem"
proof (induction "length rem" arbitrary: rem rule: less_induct)
  case less
  then have ne: "rem \<noteq> []" by auto
  obtain seg r where c: "cut_segment rem = (seg, r)" by (cases "cut_segment rem")
  have "length r < length rem" using cut_segment_less [OF ne] c by simp
  with less ne c show ?case by (fastforce simp: pairs_next_cut split: if_splits)
qed

function pairs_collect :: "bytes \<Rightarrow> (bytes \<times> bytes) list" where
  "pairs_collect rem = (case pairs_next rem of (None, _) \<Rightarrow> [] | (Some p, rest) \<Rightarrow> p # pairs_collect rest)"
  by pat_completeness auto
termination
  by (relation "measure length") (auto dest: pairs_next_less [OF sym])

declare pairs_collect.simps [simp del]

section \<open>Properties\<close>

lemma split_on_cut_segment:
  "filter (\<lambda>seg. seg \<noteq> []) (split_on CHR ''&'' rem) =
   filter (\<lambda>seg. seg \<noteq> []) (fst (cut_segment rem) # split_on CHR ''&'' (snd (cut_segment rem)))"
  by (subst split_on_split_once) (auto simp: cut_segment_def split: option.split)

abbreviation segments :: "bytes \<Rightarrow> bytes list" where
  "segments q \<equiv> filter (\<lambda>seg. seg \<noteq> []) (split_on CHR ''&'' q)"

lemma pairs_next_split:
  "pairs_next rem = (x, rest) \<Longrightarrow>
   map cut_pair (segments rem) = (case x of None \<Rightarrow> [] | Some p \<Rightarrow> p # map cut_pair (segments rest))"
proof (induction "length rem" arbitrary: rem rule: less_induct)
  case less
  show ?case
  proof (cases "rem = []")
    case ne: False
    obtain seg r where c: "cut_segment rem = (seg, r)" by (cases "cut_segment rem")
    have "length r < length rem" using cut_segment_less [OF ne] c by simp
    moreover have "segments rem = (if seg = [] then segments r else seg # segments r)"
      using split_on_cut_segment [of rem] c by simp
    ultimately show ?thesis
      using less ne c by (cases "seg = []") (auto simp: pairs_next_cut)
  qed (use less.prems in simp)
qed

lemma pairs_collect_eq: "pairs_collect rem = map cut_pair (segments rem)"
proof (induction rem rule: pairs_collect.induct)
  case (1 rem)
  obtain p r where c: "pairs_next rem = (p, r)" by (cases "pairs_next rem")
  with 1 pairs_next_split [OF c] show ?case
    by (cases p) (simp_all add: pairs_collect.simps [of rem])
qed

text \<open>An accepted query yields, in order, the first-\<^verbatim>\<open>=\<close> splits of its non-empty \<^verbatim>\<open>&\<close>-separated segments, and
  the number of pairs the iterator yields is within the limit that was checked before it was
  created; a query is rejected exactly when it is too long or has too many segments.\<close>

theorem parse_query_yields:
  "(case parse_query_with_limits q max_bytes max_pairs of
      Ok qp \<Rightarrow> pairs_collect (remainder qp) = map cut_pair (filter (\<lambda>seg. seg \<noteq> []) (split_on CHR ''&'' q)) \<and>
        length (pairs_collect (remainder qp)) \<le> max_pairs \<and> length q \<le> max_bytes
    | Err QueryTooLong \<Rightarrow> length q > max_bytes
    | Err QueryTooManyPairs \<Rightarrow> length q \<le> max_bytes \<and>
        length (filter (\<lambda>seg. seg \<noteq> []) (split_on CHR ''&'' q)) > max_pairs)"
  by (simp add: parse_query_with_limits_def pairs_collect_eq Let_def)

definition render_pair :: "bytes \<times> bytes \<Rightarrow> bytes" where
  "render_pair = (\<lambda>(k, v). k @ CHR ''='' # v)"

lemma cut_render_pair: "CHR ''='' \<notin> set k \<Longrightarrow> cut_pair (render_pair (k, v)) = (k, v)"
  by (simp add: cut_pair_def render_pair_def split_once_append)

lemma pairs_collect_render:
  assumes "\<And>k v. (k, v) \<in> set ps \<Longrightarrow> CHR ''&'' \<notin> set k \<and> CHR ''='' \<notin> set k \<and> CHR ''&'' \<notin> set v"
  shows "pairs_collect (join ''&'' (map render_pair ps)) = ps"
proof (cases "ps = []")
  case False
  have "CHR ''&'' \<notin> set s" if "s \<in> set (map render_pair ps)" for s
    using that assms by (fastforce simp: render_pair_def)
  then have "split_on CHR ''&'' (join ''&'' (map render_pair ps)) = map render_pair ps"
    using False by (intro split_on_join) auto
  moreover have "filter (\<lambda>seg. seg \<noteq> []) (map render_pair ps) = map render_pair ps"
    by (rule filter_True) (auto simp: render_pair_def)
  moreover have "map (cut_pair \<circ> render_pair) ps = ps"
    using assms cut_render_pair by (intro map_idI) auto
  ultimately show ?thesis by (simp add: pairs_collect_eq)
qed (simp add: pairs_collect.simps pairs_next.simps)

text \<open>Round trip. Pairs whose keys have no \<^verbatim>\<open>&\<close> and no \<^verbatim>\<open>=\<close> and whose values have no \<^verbatim>\<open>&\<close>, written as
  \<^verbatim>\<open>key=value\<close> joined by \<^verbatim>\<open>&\<close>, are read back in the same order, duplicates and empty keys and values included.\<close>

theorem query_roundtrip:
  assumes "\<And>k v. (k, v) \<in> set ps \<Longrightarrow> CHR ''&'' \<notin> set k \<and> CHR ''='' \<notin> set k \<and> CHR ''&'' \<notin> set v"
    and "length (join ''&'' (map render_pair ps)) \<le> MAX_QUERY_BYTES" and "length ps \<le> MAX_QUERY_PAIRS"
  shows "\<exists>qp. parse_query (join ''&'' (map render_pair ps)) = Ok qp \<and> pairs_collect (remainder qp) = ps"
proof -
  have "length (filter (\<lambda>seg. seg \<noteq> []) (split_on CHR ''&'' (join ''&'' (map render_pair ps)))) = length ps"
    using arg_cong [where f = length, OF pairs_collect_render [OF assms(1)]] by (simp add: pairs_collect_eq)
  then show ?thesis
    using assms(2,3) pairs_collect_render [OF assms(1)]
    by (simp add: parse_query_def parse_query_with_limits_def)
qed

theorem query_roundtrip_witness:
  "\<exists>qp. parse_query (join ''&'' (map render_pair [(''a'', ''1''), (''a'', ''b=c''), ([], [])])) = Ok qp \<and>
     pairs_collect (remainder qp) = [(''a'', ''1''), (''a'', ''b=c''), ([], [])]"
  by (rule query_roundtrip) (auto simp: render_pair_def MAX_QUERY_BYTES_def MAX_QUERY_PAIRS_def)

end
