(* ===== verification/Form.thy ===== *)
theory Form
  imports Http_Error Percent Query
begin

text \<open>
  \<^verbatim>\<open>crates/http/src/form.rs\<close>: URL-encoded form bodies, over the query splitter and the percent decoder.
\<close>

section \<open>The code\<close>

definition MAX_FORM_BYTES :: nat where "MAX_FORM_BYTES = 8 * 1024"
definition MAX_FORM_PAIRS :: nat where "MAX_FORM_PAIRS = 256"

record FormLimits =
  fl_max_bytes :: nat
  fl_max_pairs :: nat

definition form_limits_default :: FormLimits where
  "form_limits_default = \<lparr>fl_max_bytes = MAX_FORM_BYTES, fl_max_pairs = MAX_FORM_PAIRS\<rparr>"

definition with_max_bytes :: "FormLimits \<Rightarrow> nat \<Rightarrow> FormLimits" where
  "with_max_bytes l n = l\<lparr>fl_max_bytes := n\<rparr>"

definition with_max_pairs :: "FormLimits \<Rightarrow> nat \<Rightarrow> FormLimits" where
  "with_max_pairs l n = l\<lparr>fl_max_pairs := n\<rparr>"

datatype FormError = BodyTooLong | FormTooManyPairs | InvalidUtf8Body | FormDecode PercentDecodeError

definition form_error_http :: "FormError \<Rightarrow> HttpError" where
  "form_error_http err = (case err of
     BodyTooLong \<Rightarrow> http_error_new 413 ''form body too large''
   | FormTooManyPairs \<Rightarrow> http_error_new 413 ''too many form fields''
   | InvalidUtf8Body \<Rightarrow> http_error_new 400 ''form body is not valid UTF-8''
   | FormDecode _ \<Rightarrow> http_error_new 400 ''invalid form encoding'')"

definition form_error_into_response :: "FormError \<Rightarrow> Response" where
  "form_error_into_response err = http_error_into_response (form_error_http err)"

definition form_error_of_query :: "QueryError \<Rightarrow> FormError" where
  "form_error_of_query err = (case err of QueryTooLong \<Rightarrow> BodyTooLong | QueryTooManyPairs \<Rightarrow> FormTooManyPairs)"

definition decode_form_component :: "bytes \<Rightarrow> PercentDecodeError + bytes" where
  "decode_form_component component =
     (let space_normalized = map (\<lambda>b. if b = CHR ''+'' then CHR '' '' else b) component
      in decode_str space_normalized)"

definition decode_form_pair :: "bytes \<times> bytes \<Rightarrow> FormError + (bytes \<times> bytes)" where
  "decode_form_pair = (\<lambda>(key, val).
     res_bind (map_err FormDecode (decode_form_component key)) (\<lambda>decoded_key.
     res_bind (map_err FormDecode (decode_form_component val)) (\<lambda>decoded_value.
       Ok (decoded_key, decoded_value))))"

definition parse_form_with_limit :: "bytes \<Rightarrow> FormLimits \<Rightarrow> FormError + (bytes \<times> bytes) list" where
  "parse_form_with_limit body limits =
     (if length body > fl_max_bytes limits then Err BodyTooLong
      else if \<not> utf8_valid body then Err InvalidUtf8Body
      else res_bind (map_err form_error_of_query
          (parse_query_with_limits body (fl_max_bytes limits) (fl_max_pairs limits))) (\<lambda>pairs.
        map_result decode_form_pair (pairs_collect (remainder pairs))))"

definition parse_form :: "bytes \<Rightarrow> FormError + (bytes \<times> bytes) list" where
  "parse_form body = parse_form_with_limit body form_limits_default"

definition is_form_content_type :: "bytes \<Rightarrow> bool" where
  "is_form_content_type content_type =
     (let media_type = str_trim (hd (split_on CHR '';'' content_type))
      in eq_ignore_ascii_case media_type ''application/x-www-form-urlencoded'')"

section \<open>A form encoder\<close>

text \<open>The serialiser of the URL standard: a space becomes a plus sign, letters, digits and four marks stay,
  every other byte becomes an escape.\<close>

definition form_literal :: "byte \<Rightarrow> bool" where
  "form_literal b \<longleftrightarrow> is_ascii_alphanumeric b \<or> b \<in> set ''*-._''"

definition form_byte :: "byte \<Rightarrow> bytes" where
  "form_byte b = (if b = CHR '' '' then ''+'' else if form_literal b then [b]
     else [CHR ''%'', digit_char (bval b div 16), digit_char (bval b mod 16)])"

definition form_text :: "bytes \<Rightarrow> bytes" where
  "form_text s = concat (map form_byte s)"

definition form_body :: "(bytes \<times> bytes) list \<Rightarrow> bytes" where
  "form_body ps = join ''&'' (map render_pair (map (\<lambda>(k, v). (form_text k, form_text v)) ps))"

lemma form_literal_props: "form_literal b \<Longrightarrow> b \<noteq> CHR ''+'' \<and> b \<noteq> CHR ''%'' \<and> b \<noteq> CHR ''&'' \<and> b \<noteq> CHR ''='' \<and> bval b < 128"
proof -
  have "\<not> form_literal CHR ''+''" "\<not> form_literal CHR ''%''" "\<not> form_literal CHR ''&''" "\<not> form_literal CHR ''=''"
    by (simp_all add: form_literal_def ascii_class_defs)
  moreover assume "form_literal b"
  moreover from this have "bval b < 128" by (auto simp: form_literal_def ascii_class_defs)
  ultimately show ?thesis by auto
qed

lemma hex_digit_props:
  "d < 16 \<Longrightarrow> digit_char d \<notin> {CHR ''+'', CHR ''%'', CHR ''&'', CHR ''=''} \<and> bval (digit_char d) < 128"
  using digit_char_bval [of d] by (auto split: if_splits)

lemma bval_high_nibble: "bval b div 16 < 16"
proof (rule less_mult_imp_div_less)
  show "bval b < 16 * 16" using bval_less [of b] by linarith
qed

lemma form_byte_chars:
  assumes "c \<in> set (form_byte b)" shows "c \<noteq> CHR ''&'' \<and> c \<noteq> CHR ''='' \<and> bval c < 128"
proof -
  show ?thesis
    using bval_high_nibble [of b] assms hex_digit_props [of "bval b div 16"] hex_digit_props [of "bval b mod 16"] form_literal_props [of b]
    by (auto simp: form_byte_def split: if_splits)
qed

lemma form_text_chars: "c \<in> set (form_text s) \<Longrightarrow> c \<noteq> CHR ''&'' \<and> c \<noteq> CHR ''='' \<and> bval c < 128"
  using form_byte_chars by (auto simp: form_text_def)

abbreviation unplus :: "bytes \<Rightarrow> bytes" where
  "unplus s \<equiv> map (\<lambda>b. if b = CHR ''+'' then CHR '' '' else b) s"

lemma form_byte_spells: "spells (unplus (form_byte b)) b"
proof -
  have h: "bval b div 16 < 16" "bval b mod 16 < 16" using bval_high_nibble [of b] by simp_all
  have "spells [CHR ''%'', digit_char (bval b div 16), digit_char (bval b mod 16)] b"
    using h by (simp add: spells_def hex_value_digit)
  moreover have "digit_char (bval b div 16) \<noteq> CHR ''+''" "digit_char (bval b mod 16) \<noteq> CHR ''+''"
    using hex_digit_props [OF h(1)] hex_digit_props [OF h(2)] by auto
  ultimately show ?thesis
    using form_literal_props [of b] by (auto simp: form_byte_def spells_def)
qed

lemma decode_form_text: "utf8_valid s \<Longrightarrow> decode_form_component (form_text s) = Ok s"
proof -
  assume u: "utf8_valid s"
  have "list_all2 spells (map (\<lambda>b. unplus (form_byte b)) s) s"
    using form_byte_spells by (simp add: list_all2_map1 list_all2_same)
  moreover have "unplus (form_text s) = concat (map (\<lambda>b. unplus (form_byte b)) s)"
    by (simp add: form_text_def map_concat comp_def)
  ultimately have "decode_bytes (unplus (form_text s)) = Ok s"
    by (simp add: decode_bytes_def decode_from_complete)
  with u show ?thesis by (simp add: decode_form_component_def decode_str_def)
qed

section \<open>Properties\<close>

text \<open>Round trip. A list of key-value pairs of arbitrary UTF-8 text, encoded as a form body within the limits,
  is parsed back unchanged: spaces, plus signs, ampersands, equal signs, percent signs and non-ASCII bytes
  included, duplicates and order kept.\<close>

theorem form_roundtrip:
  assumes "\<And>k v. (k, v) \<in> set ps \<Longrightarrow> utf8_valid k \<and> utf8_valid v"
    and "length (form_body ps) \<le> fl_max_bytes limits" and "length ps \<le> fl_max_pairs limits"
  shows "parse_form_with_limit (form_body ps) limits = Ok ps"
proof -
  define qs where "qs = map (\<lambda>(k, v). (form_text k, form_text v)) ps"
  have qs: "CHR ''&'' \<notin> set k \<and> CHR ''='' \<notin> set k \<and> CHR ''&'' \<notin> set v" if "(k, v) \<in> set qs" for k v
    using that form_text_chars by (fastforce simp: qs_def)
  have collect: "pairs_collect (form_body ps) = qs"
    unfolding form_body_def qs_def [symmetric] by (rule pairs_collect_render [OF qs])
  have "length (segments (form_body ps)) = length ps"
    using arg_cong [where f = length, OF collect] by (simp add: pairs_collect_eq qs_def)
  then have q: "parse_query_with_limits (form_body ps) (fl_max_bytes limits) (fl_max_pairs limits) =
      Ok \<lparr>remainder = form_body ps\<rparr>"
    using assms(2,3) by (simp add: parse_query_with_limits_def)
  have "bval c < 128" if "c \<in> set (form_body ps)" for c
  proof -
    have "set (form_body ps) \<subseteq> set ''&'' \<union> (\<Union>x\<in>set (map render_pair qs). set x)"
      unfolding form_body_def qs_def [symmetric] by (rule set_join)
    with that form_text_chars show ?thesis by (fastforce simp: qs_def render_pair_def)
  qed
  then have "utf8_valid (form_body ps)" by (intro utf8_valid_ascii) blast
  moreover have "map_result decode_form_pair qs = Ok ps"
    using assms(1) decode_form_text
    by (fastforce simp: qs_def map_result_Ok_iff list_all2_map1 list_all2_same decode_form_pair_def)
  ultimately show ?thesis
    using assms(2) q by (simp add: parse_form_with_limit_def collect)
qed

theorem form_roundtrip_witness:
  "parse_form_with_limit (form_body [(''a b'', ''1+1=2 & 100%'')]) form_limits_default = Ok [(''a b'', ''1+1=2 & 100%'')]"
  by (rule form_roundtrip)
    (auto simp: form_limits_default_def MAX_FORM_BYTES_def MAX_FORM_PAIRS_def form_body_def render_pair_def
      form_text_def form_byte_def form_literal_def ascii_class_defs intro!: utf8_valid_ascii)

text \<open>A rejected form is answered with 413 for a limit and 400 for malformed input, and the response
  never contains any byte of the form: it depends on the kind of error alone.\<close>

theorem form_rejection:
  assumes "parse_form_with_limit body limits = Err e"
  shows "(e = BodyTooLong \<and> length body > fl_max_bytes limits \<or>
      e = FormTooManyPairs \<and> length (segments body) > fl_max_pairs limits \<or>
      e = InvalidUtf8Body \<and> \<not> utf8_valid body \<or>
      (\<exists>d. e = FormDecode d \<and> (\<exists>(k, v)\<in>set (pairs_collect body).
         decode_form_component k = Err d \<or> decode_form_component v = Err d))) \<and>
    r_status (form_error_into_response e) = (if e = BodyTooLong \<or> e = FormTooManyPairs then 413 else 400) \<and>
    (\<forall>d d'. form_error_into_response (FormDecode d) = form_error_into_response (FormDecode d'))"
proof -
  have "r_status (form_error_into_response e) = (if e = BodyTooLong \<or> e = FormTooManyPairs then 413 else 400)"
    by (cases e) (simp_all add: form_error_into_response_def form_error_http_def http_error_new_def
        http_error_into_response_def error_response_def with_content_type_def response_new_def Let_def)
  moreover have "form_error_into_response (FormDecode d) = form_error_into_response (FormDecode d')" for d d'
    by (simp add: form_error_into_response_def form_error_http_def)
  moreover have "\<exists>(k, v)\<in>set (pairs_collect body). decode_form_component k = Err d \<or> decode_form_component v = Err d"
    if "map_result decode_form_pair (pairs_collect body) = Err e" "e = FormDecode d" for d
    using map_result_Err_D [OF that(1)] that(2)
    by (fastforce simp: decode_form_pair_def res_bind_def map_err_def split: sum.splits)
  moreover have "\<exists>d. e = FormDecode d" if "map_result decode_form_pair (pairs_collect body) = Err e"
    using map_result_Err_D [OF that] by (auto simp: decode_form_pair_def res_bind_def map_err_def split: sum.splits)
  ultimately show ?thesis
    using assms
    by (auto simp: parse_form_with_limit_def parse_query_with_limits_def form_error_of_query_def Let_def
        split: if_splits)
qed

theorem form_rejection_witness:
  "parse_form_with_limit ''a=%'' form_limits_default = Err (FormDecode (TruncatedEscape 0)) \<and>
   r_status (form_error_into_response (FormDecode (TruncatedEscape 0))) = 400"
proof -
  have "utf8_valid ''a=%''" by (rule utf8_valid_ascii) simp
  then have e: "parse_form_with_limit ''a=%'' form_limits_default = Err (FormDecode (TruncatedEscape 0))"
    by (simp add: parse_form_with_limit_def form_limits_default_def MAX_FORM_BYTES_def MAX_FORM_PAIRS_def
        parse_query_with_limits_def pairs_collect_eq cut_pair_def decode_form_pair_def decode_form_component_def
        decode_str_def decode_bytes_def)
  from form_rejection [OF e] e show ?thesis by simp
qed

end
