(* ===== verification/Static_Files.thy ===== *)
theory Static_Files
  imports Gates
begin

text \<open>
  \<^verbatim>\<open>crates/plugin-static/src/lib.rs\<close> and \<^verbatim>\<open>mime.rs\<close>: serving files below a directory. The file system is a record of the calls
  that the code makes (\<^verbatim>\<open>canonicalize\<close>, \<^verbatim>\<open>metadata\<close>, \<^verbatim>\<open>read\<close>); each takes the moment of the call, so that nothing is assumed
  about what other processes do to the files between two calls. Paths are byte strings with the component
  structure that \<^verbatim>\<open>std::path\<close> gives them on Unix.
\<close>

section \<open>Paths\<close>

datatype Component = RootDir | CurDir | ParentDir | NormalComp bytes

definition piece_component :: "bytes \<Rightarrow> Component" where
  "piece_component s = (if s = ''.'' then CurDir else if s = ''..'' then ParentDir else NormalComp s)"

text \<open>Empty pieces vanish, and so does a dot anywhere but at the start of a relative path.\<close>

definition path_components :: "bytes \<Rightarrow> Component list" where
  "path_components p =
     (let pieces = split_on CHR ''/'' p in
      if starts_with ''/'' p
      then RootDir # map piece_component (filter (\<lambda>s. s \<noteq> [] \<and> s \<noteq> ''.'') pieces)
      else (if hd pieces = ''.'' then [CurDir] else []) @
        map piece_component (filter (\<lambda>s. s \<noteq> [] \<and> s \<noteq> ''.'') pieces))"

definition path_push :: "bytes \<Rightarrow> bytes \<Rightarrow> bytes" where
  "path_push p s =
     (if starts_with ''/'' s then s
      else if p = [] \<or> last p = CHR ''/'' then p @ s
      else p @ ''/'' @ s)"

definition path_starts_with :: "bytes \<Rightarrow> bytes \<Rightarrow> bool" where
  "path_starts_with p base = starts_with (path_components base) (path_components p)"

definition path_strip_prefix :: "bytes \<Rightarrow> bytes \<Rightarrow> Component list option" where
  "path_strip_prefix p base = strip_prefix (path_components base) (path_components p)"

definition path_file_name :: "bytes \<Rightarrow> bytes option" where
  "path_file_name p =
     (if path_components p = [] then None
      else case last (path_components p) of NormalComp s \<Rightarrow> Some s | _ \<Rightarrow> None)"

section \<open>The file system\<close>

datatype FileKind = RegularFile | Directory | SpecialFile

record Metadata =
  md_kind :: FileKind
  md_len :: nat

record 'e FileSystem =
  fs_canonicalize :: "tick \<Rightarrow> bytes \<Rightarrow> 'e + bytes"
  fs_metadata :: "tick \<Rightarrow> bytes \<Rightarrow> 'e + Metadata"
  fs_read :: "tick \<Rightarrow> bytes \<Rightarrow> 'e + bytes"
  fs_task_ok :: "tick \<Rightarrow> bool"

definition path_is_dir :: "'e FileSystem \<Rightarrow> tick \<Rightarrow> bytes \<Rightarrow> bool" where
  "path_is_dir fs t p = (case fs_metadata fs t p of Ok md \<Rightarrow> md_kind md = Directory | Err _ \<Rightarrow> False)"

section \<open>Content types\<close>

definition MIME_TABLE :: "(bytes \<times> bytes) list" where
  "MIME_TABLE =
    [(''html'', ''text/html; charset=utf-8''),
     (''htm'', ''text/html; charset=utf-8''),
     (''css'', ''text/css; charset=utf-8''),
     (''js'', ''text/javascript; charset=utf-8''),
     (''mjs'', ''text/javascript; charset=utf-8''),
     (''json'', ''application/json''),
     (''map'', ''application/json''),
     (''webmanifest'', ''application/manifest+json''),
     (''xml'', ''application/xml''),
     (''txt'', ''text/plain; charset=utf-8''),
     (''md'', ''text/markdown; charset=utf-8''),
     (''svg'', ''image/svg+xml''),
     (''png'', ''image/png''),
     (''jpg'', ''image/jpeg''),
     (''jpeg'', ''image/jpeg''),
     (''gif'', ''image/gif''),
     (''webp'', ''image/webp''),
     (''avif'', ''image/avif''),
     (''ico'', ''image/x-icon''),
     (''wasm'', ''application/wasm''),
     (''woff'', ''font/woff''),
     (''woff2'', ''font/woff2''),
     (''ttf'', ''font/ttf''),
     (''otf'', ''font/otf''),
     (''pdf'', ''application/pdf''),
     (''mp3'', ''audio/mpeg''),
     (''wav'', ''audio/wav''),
     (''ogg'', ''audio/ogg''),
     (''mp4'', ''video/mp4''),
     (''webm'', ''video/webm'')]"

definition DEFAULT_CONTENT_TYPE :: bytes where
  "DEFAULT_CONTENT_TYPE = ''application/octet-stream''"

definition content_type_for_extension :: "bytes \<Rightarrow> (bytes \<times> bytes) list \<Rightarrow> bytes" where
  "content_type_for_extension file_name overrides =
     (let ext = last (split_on CHR ''.'' file_name) in
      if ext = file_name then DEFAULT_CONTENT_TYPE
      else
        let ext_lower = map to_ascii_lowercase ext in
        case find (\<lambda>(key, _). key = ext_lower) overrides of
          Some (_, v) \<Rightarrow> v
        | None \<Rightarrow>
            (case find (\<lambda>(key, _). key = ext_lower) MIME_TABLE of
               Some (_, v) \<Rightarrow> v
             | None \<Rightarrow> DEFAULT_CONTENT_TYPE))"

section \<open>Configuration\<close>

definition DEFAULT_MAX_FILE_BYTES :: nat where
  "DEFAULT_MAX_FILE_BYTES = 8 * 1024 * 1024"

text \<open>The texts of the refusals are named by what they say.\<close>

datatype MountReason = NotRooted | TrailingSlash | DoubleSlash | QueryOrFragment | MountControl

datatype MimeReason = BadExtension bytes | BadContentType bytes

datatype 'e StaticConfigError =
    InvalidMount MountReason | RootNotAccessible 'e | RootNotADirectory | InvalidMimeMapping MimeReason

record StaticFilesConfig =
  sfc_mount :: bytes
  sfc_root :: bytes
  sfc_max_file_bytes :: nat
  sfc_mime_overrides :: "(bytes \<times> bytes) list"
  sfc_fallthrough_on_miss :: bool

text \<open>The builder has the same fields, not yet validated.\<close>

type_synonym StaticFilesConfigBuilder = StaticFilesConfig

definition static_builder :: "bytes \<Rightarrow> bytes \<Rightarrow> StaticFilesConfigBuilder" where
  "static_builder mount root =
     \<lparr>sfc_mount = mount, sfc_root = root, sfc_max_file_bytes = DEFAULT_MAX_FILE_BYTES,
      sfc_mime_overrides = [], sfc_fallthrough_on_miss = False\<rparr>"

definition max_file_bytes :: "nat \<Rightarrow> StaticFilesConfigBuilder \<Rightarrow> StaticFilesConfigBuilder" where
  "max_file_bytes limit b = b\<lparr>sfc_max_file_bytes := limit\<rparr>"

definition mime :: "bytes \<Rightarrow> bytes \<Rightarrow> StaticFilesConfigBuilder \<Rightarrow> StaticFilesConfigBuilder" where
  "mime ext content_type b = b\<lparr>sfc_mime_overrides := sfc_mime_overrides b @ [(ext, content_type)]\<rparr>"

definition fallthrough_on_miss :: "bool \<Rightarrow> StaticFilesConfigBuilder \<Rightarrow> StaticFilesConfigBuilder" where
  "fallthrough_on_miss enabled b = b\<lparr>sfc_fallthrough_on_miss := enabled\<rparr>"

definition control_byte :: "byte \<Rightarrow> bool" where
  "control_byte b \<longleftrightarrow> bval b < 32 \<or> bval b = 127"

definition validate_mount :: "bytes \<Rightarrow> 'e StaticConfigError + bytes" where
  "validate_mount mount =
     (if mount = [] \<or> \<not> starts_with ''/'' mount then Err (InvalidMount NotRooted)
      else if mount \<noteq> ''/'' \<and> strip_suffix ''/'' mount \<noteq> None then Err (InvalidMount TrailingSlash)
      else if find_sub ''//'' mount \<noteq> None then Err (InvalidMount DoubleSlash)
      else if CHR ''?'' \<in> set mount \<or> CHR ''#'' \<in> set mount then Err (InvalidMount QueryOrFragment)
      else if list_ex control_byte mount then Err (InvalidMount MountControl)
      else Ok mount)"

fun mime_loop :: "(bytes \<times> bytes) list \<Rightarrow> (bytes \<times> bytes) list \<Rightarrow> 'e StaticConfigError + (bytes \<times> bytes) list" where
  "mime_loop [] normalized = Ok normalized"
| "mime_loop ((ext, content_type) # raw) normalized =
     (let ext = (case strip_prefix ''.'' ext of Some e \<Rightarrow> e | None \<Rightarrow> ext) in
      if ext = [] \<or> CHR ''.'' \<in> set ext \<or> CHR ''/'' \<in> set ext \<or> backslash \<in> set ext \<or> CHR 0x00 \<in> set ext \<or>
         list_ex control_byte ext
      then Err (InvalidMimeMapping (BadExtension ext))
      else if content_type = [] \<or> list_ex control_byte content_type
      then Err (InvalidMimeMapping (BadContentType ext))
      else let ext_lower = map to_ascii_lowercase ext in
        mime_loop raw (filter (\<lambda>(existing, _). existing \<noteq> ext_lower) normalized @ [(ext_lower, content_type)]))"

definition validate_mime_overrides :: "(bytes \<times> bytes) list \<Rightarrow> 'e StaticConfigError + (bytes \<times> bytes) list" where
  "validate_mime_overrides raw = mime_loop raw []"

definition static_build :: "'e FileSystem \<Rightarrow> tick \<Rightarrow> StaticFilesConfigBuilder \<Rightarrow> 'e StaticConfigError + StaticFilesConfig" where
  "static_build fs m b =
     res_bind (validate_mount (sfc_mount b)) (\<lambda>mount.
     res_bind (map_err RootNotAccessible (fs_canonicalize fs (m @ [0]) (sfc_root b))) (\<lambda>root.
       if \<not> path_is_dir fs (m @ [1]) root then Err RootNotADirectory
       else res_bind (validate_mime_overrides (sfc_mime_overrides b)) (\<lambda>mime_overrides.
         Ok \<lparr>sfc_mount = mount, sfc_root = root, sfc_max_file_bytes = sfc_max_file_bytes b,
             sfc_mime_overrides = mime_overrides, sfc_fallthrough_on_miss = sfc_fallthrough_on_miss b\<rparr>)))"

section \<open>Resolution\<close>

definition strip_mount :: "bytes \<Rightarrow> bytes \<Rightarrow> bytes option" where
  "strip_mount path mount =
     (if mount = ''/'' then strip_prefix ''/'' path
      else if path = mount then Some []
      else Option.bind (strip_prefix mount path) (strip_prefix ''/''))"

definition is_safe_segment :: "bytes \<Rightarrow> bool" where
  "is_safe_segment s \<longleftrightarrow> s \<noteq> [] \<and> s \<noteq> ''.'' \<and> s \<noteq> ''..'' \<and> \<not> starts_with ''.'' s \<and>
     CHR 0x00 \<notin> set s \<and> backslash \<notin> set s \<and> CHR '':'' \<notin> set s"

definition is_safe_segment_relaxed :: "bytes \<Rightarrow> bool" where
  "is_safe_segment_relaxed s \<longleftrightarrow> s \<noteq> [] \<and> s \<noteq> ''.'' \<and> s \<noteq> ''..'' \<and> \<not> starts_with ''.'' s \<and> CHR '':'' \<notin> set s"

definition resolved_path_is_safe :: "bytes \<Rightarrow> bytes \<Rightarrow> bool" where
  "resolved_path_is_safe root resolved =
     (case path_strip_prefix resolved root of
        None \<Rightarrow> False
      | Some remainder \<Rightarrow>
          list_all (\<lambda>c. case c of NormalComp name \<Rightarrow> utf8_valid name \<and> is_safe_segment_relaxed name | _ \<Rightarrow> False)
            remainder)"

text \<open>\<^verbatim>\<open>Result::ok\<close>, then the question mark.\<close>

definition try_ok :: "'e + 'a \<Rightarrow> ('a \<Rightarrow> 'b option) \<Rightarrow> 'b option" where
  "try_ok r f = (case r of Ok v \<Rightarrow> f v | Err _ \<Rightarrow> None)"

definition resolve_final :: "'e FileSystem \<Rightarrow> tick \<Rightarrow> bytes \<Rightarrow> bytes \<Rightarrow> Metadata \<Rightarrow> bytes option" where
  "resolve_final fs m root canonical metadata =
     (if md_kind metadata = Directory then
        try_ok (fs_canonicalize fs (m @ [2]) (path_push canonical ''index.html'')) (\<lambda>index_canonical.
          if \<not> path_starts_with index_canonical root then None
          else if \<not> resolved_path_is_safe root index_canonical then None
          else Some index_canonical)
      else if md_kind metadata = RegularFile then Some canonical
      else None)"

definition resolve_and_read :: "'e FileSystem \<Rightarrow> tick \<Rightarrow> bytes \<Rightarrow> bytes list \<Rightarrow> bool \<Rightarrow> nat \<Rightarrow> (bytes \<times> bytes) list \<Rightarrow>
    (bytes \<times> bytes) option" where
  "resolve_and_read fs m root segments dir_request limit mime_overrides =
     (let candidate = foldl path_push root segments in
      try_ok (fs_canonicalize fs (m @ [0]) candidate) (\<lambda>canonical.
        if \<not> path_starts_with canonical root then None
        else if \<not> resolved_path_is_safe root canonical then None
        else try_ok (fs_metadata fs (m @ [1]) canonical) (\<lambda>metadata.
          if dir_request \<and> md_kind metadata \<noteq> Directory then None
          else Option.bind (resolve_final fs m root canonical metadata) (\<lambda>final_path.
            try_ok (fs_metadata fs (m @ [3]) final_path) (\<lambda>final_metadata.
              if md_kind final_metadata \<noteq> RegularFile \<or> md_len final_metadata > limit then None
              else try_ok (fs_read fs (m @ [4]) final_path) (\<lambda>content.
                if length content > limit then None
                else
                  let file_name = (case path_file_name final_path of
                                     Some name \<Rightarrow> if utf8_valid name then name else []
                                   | None \<Rightarrow> [])
                  in Some (content, content_type_for_extension file_name mime_overrides)))))))"

definition static_try_add_header :: "Response \<Rightarrow> bytes \<Rightarrow> bytes \<Rightarrow> Response" where
  "static_try_add_header r name v = (case with_header r name v of Ok r' \<Rightarrow> r' | Err _ \<Rightarrow> r)"

definition static_miss :: "StaticFilesConfig \<Rightarrow> Response option" where
  "static_miss config = (if sfc_fallthrough_on_miss config then None else Some (response_empty 404))"

text \<open>\<open>fs_task_ok\<close> is false when the blocking task itself failed.\<close>

definition try_handle_static :: "'e FileSystem \<Rightarrow> tick \<Rightarrow> RequestHead \<Rightarrow> StaticFilesConfig \<Rightarrow> Response option" where
  "try_handle_static fs m head config =
     (if \<not> eq_ignore_ascii_case (head_method head) ''GET'' then None
      else
        case strip_mount (head_path head) (sfc_mount config) of
          None \<Rightarrow> None
        | Some tail \<Rightarrow>
            (case (case strip_suffix ''/'' tail of Some stripped \<Rightarrow> (stripped, True) | None \<Rightarrow> (tail, False)) of
               (tail, dir_request) \<Rightarrow>
                 if dir_request \<and> tail = [] then static_miss config
                 else
                   let segments = (if tail = [] then [] else split_on CHR ''/'' tail) in
                   if \<not> list_all is_safe_segment segments then static_miss config
                   else if \<not> fs_task_ok fs m then static_miss config
                   else
                     case resolve_and_read fs m (sfc_root config) segments dir_request
                            (sfc_max_file_bytes config) (sfc_mime_overrides config) of
                       None \<Rightarrow> static_miss config
                     | Some (content, content_type) \<Rightarrow>
                         Some (static_try_add_header (with_content_type (response_new 200 content) content_type)
                           ''X-Content-Type-Options'' ''nosniff'')))"

section \<open>Components of a path\<close>

lemma split_slash_pieces: "s \<in> set (split_on CHR ''/'' p) \<Longrightarrow> CHR ''/'' \<notin> set s"
  by (rule split_on_pieces)

lemma path_components_push:
  assumes "starts_with ''/'' p" and "CHR ''/'' \<notin> set s" and "s \<noteq> []" "s \<noteq> ''.''" "s \<noteq> ''..''"
  shows "path_components (path_push p s) = path_components p @ [NormalComp s]"
    and "starts_with ''/'' (path_push p s)"
proof -
  obtain r where p: "p = CHR ''/'' # r" using assms(1) by (auto simp: starts_with_iff)
  have s: "\<not> starts_with ''/'' s" using assms(2) by (auto simp: starts_with_iff)
  show "starts_with ''/'' (path_push p s)" using p s by (auto simp: path_push_def starts_with_iff)
  have pieces: "filter (\<lambda>s. s \<noteq> [] \<and> s \<noteq> ''.'') (split_on CHR ''/'' (path_push p s)) =
      filter (\<lambda>s. s \<noteq> [] \<and> s \<noteq> ''.'') (split_on CHR ''/'' p) @ [s]"
  proof (cases "last p = CHR ''/''")
    case True
    then obtain q where "p = q @ ''/''" using p by (metis append_butlast_last_id list.distinct(1))
    then show ?thesis
      using assms s p by (simp add: path_push_def split_on_append_delim_gen)
  next
    case False
    then show ?thesis using assms s p by (simp add: path_push_def split_on_append_delim_gen [of _ _ s])
  qed
  show "path_components (path_push p s) = path_components p @ [NormalComp s]"
    using \<open>starts_with ''/'' (path_push p s)\<close> assms pieces
    by (simp add: path_components_def piece_component_def Let_def)
qed

lemma path_components_pushes:
  assumes "starts_with ''/'' p" and "\<forall>s\<in>set segs. is_safe_segment s \<and> CHR ''/'' \<notin> set s"
  shows "path_components (foldl path_push p segs) = path_components p @ map NormalComp segs"
    and "starts_with ''/'' (foldl path_push p segs)"
  using assms
proof (induction segs arbitrary: p)
  case (Cons s segs)
  {
    case 1
    then show ?case using Cons.IH(1) [of "path_push p s"] path_components_push [of p s] by (simp add: is_safe_segment_def)
  next
    case 2
    then show ?case using Cons.IH(2) [of "path_push p s"] path_components_push [of p s] by (simp add: is_safe_segment_def)
  }
qed simp_all

lemma join_ends: "segs \<noteq> [] \<Longrightarrow> \<exists>pre. join d segs = pre @ last segs"
  by (induction d segs rule: join.induct) auto

lemma resolved_path_below:
  assumes "resolved_path_is_safe root p"
  obtains names where "path_components p = path_components root @ map NormalComp names" "list_all is_safe_segment_relaxed names"
proof -
  obtain rest where rest: "path_components p = path_components root @ rest"
    "list_all (\<lambda>c. case c of NormalComp name \<Rightarrow> utf8_valid name \<and> is_safe_segment_relaxed name | _ \<Rightarrow> False) rest"
    using assms by (auto simp: resolved_path_is_safe_def path_strip_prefix_def strip_prefix_Some_iff split: option.splits)
  have "\<exists>names. rest = map NormalComp names \<and> list_all is_safe_segment_relaxed names"
    using rest(2)
  proof (induction rest)
    case (Cons c rest)
    then obtain name names where "c = NormalComp name" "is_safe_segment_relaxed name" "rest = map NormalComp names"
      "list_all is_safe_segment_relaxed names" by (auto split: Component.splits)
    then show ?case by (intro exI [of _ "name # names"]) simp
  qed simp
  then show ?thesis using rest(1) that by blast
qed

lemma resolved_path_is_safe_iff:
  assumes "path_components p = path_components root @ map NormalComp names"
  shows "resolved_path_is_safe root p \<longleftrightarrow> list_all (\<lambda>n. utf8_valid n \<and> is_safe_segment_relaxed n) names"
  using assms by (simp add: resolved_path_is_safe_def path_strip_prefix_def list_all_iff
      strip_prefix_Some_iff [THEN iffD2, of _ _ "map NormalComp names"])

lemma safe_segment_relaxed: "is_safe_segment s \<Longrightarrow> is_safe_segment_relaxed s"
  by (simp add: is_safe_segment_def is_safe_segment_relaxed_def)

section \<open>Content types carry no control bytes\<close>

definition plain_type :: "bytes \<Rightarrow> bool" where
  "plain_type ct \<longleftrightarrow> ct \<noteq> [] \<and> \<not> list_ex control_byte ct"

lemma mime_loop_values:
  assumes "mime_loop raw normalized = Ok out" and "\<forall>ct\<in>snd ` set normalized. plain_type ct"
  shows "\<forall>ct\<in>snd ` set out. plain_type ct"
  using assms
proof (induction raw normalized rule: mime_loop.induct)
  case (2 ext content_type raw normalized)
  let ?ext = "case strip_prefix ''.'' ext of Some e \<Rightarrow> e | None \<Rightarrow> ext"
  let ?kept = "filter (\<lambda>(existing, _). existing \<noteq> map to_ascii_lowercase ?ext) normalized"
  have step: "plain_type content_type"
    "mime_loop raw (?kept @ [(map to_ascii_lowercase ?ext, content_type)]) = (Ok out :: 'a StaticConfigError + _)"
    using 2(2) by (auto simp: Let_def plain_type_def split: if_splits)
  have "\<forall>ct\<in>snd ` set (?kept @ [(map to_ascii_lowercase ?ext, content_type)]). plain_type ct"
    using 2(3) step(1) by auto
  with step(2) show ?case using 2(1) [OF refl _ _ refl] 2(2) by (auto simp: Let_def split: if_splits)
qed simp

lemma mime_table_plain: "\<forall>ct\<in>snd ` set MIME_TABLE. plain_type ct"
  by (simp add: MIME_TABLE_def control_byte_def plain_type_def)

lemma find_in_set: "find P xs = Some x \<Longrightarrow> x \<in> set xs"
  by (auto simp: find_Some_iff)

lemma content_type_plain:
  assumes "\<forall>ct\<in>snd ` set overrides. plain_type ct"
  shows "plain_type (content_type_for_extension name overrides)"
proof -
  have default: "plain_type DEFAULT_CONTENT_TYPE" by (simp add: plain_type_def DEFAULT_CONTENT_TYPE_def control_byte_def)
  have found: "find P xs = Some (k, v) \<Longrightarrow> \<forall>ct\<in>snd ` set xs. plain_type ct \<Longrightarrow> plain_type v" for P :: "bytes \<times> bytes \<Rightarrow> bool" and xs k v
    using find_in_set by force
  show ?thesis
    using default found [OF _ assms] found [OF _ mime_table_plain]
    by (auto simp: content_type_for_extension_def Let_def split: option.split)
qed

lemma static_build_plain:
  assumes "static_build fs m b = Ok config"
  shows "\<forall>ct\<in>snd ` set (sfc_mime_overrides config). plain_type ct"
proof -
  obtain out where "mime_loop (sfc_mime_overrides b) [] = (Ok out :: 'a StaticConfigError + _)" "sfc_mime_overrides config = out"
    using assms by (auto simp: static_build_def validate_mime_overrides_def res_bind_eq_Ok split: if_splits)
  then show ?thesis using mime_loop_values [of "sfc_mime_overrides b" "[]" out] by simp
qed

lemma nosniff_added: "static_try_add_header r ''X-Content-Type-Options'' ''nosniff'' = push_header r ''X-Content-Type-Options'' ''nosniff''"
proof -
  have "list_all is_tchar ''X-Content-Type-Options''" by code_simp
  moreover have "\<not> list_ex (\<lambda>n. eq_ignore_ascii_case ''X-Content-Type-Options'' n) RESERVED" by code_simp
  ultimately show ?thesis by (simp add: static_try_add_header_def with_header_def)
qed

section \<open>What is served\<close>

lemma try_ok_Some: "try_ok r f = Some v \<longleftrightarrow> (\<exists>x. r = Ok x \<and> f x = Some v)"
  by (auto simp: try_ok_def split: sum.splits)

lemma resolve_final_safe:
  assumes "resolve_final fs m root canonical md = Some p" and "resolved_path_is_safe root canonical"
  shows "resolved_path_is_safe root p"
  using assms by (auto simp: resolve_final_def try_ok_Some split: if_splits)

lemma resolve_and_read_Some:
  assumes "resolve_and_read fs m root segs dir limit overrides = Some (content, ct)"
  obtains p md name where "resolved_path_is_safe root p" "fs_metadata fs (m @ [3]) p = Ok md" "md_kind md = RegularFile"
    "fs_read fs (m @ [4]) p = Ok content" "length content \<le> limit" "ct = content_type_for_extension name overrides"
proof -
  obtain canonical md p md' where "resolved_path_is_safe root canonical"
    "resolve_final fs m root canonical md = Some p" "fs_metadata fs (m @ [3]) p = Ok md'" "md_kind md' = RegularFile"
    "fs_read fs (m @ [4]) p = Ok content" "length content \<le> limit" "\<exists>name. ct = content_type_for_extension name overrides"
    using assms
    by (auto simp: resolve_and_read_def Let_def try_ok_Some bind_eq_Some_conv split: if_splits; force)
  then show ?thesis using that resolve_final_safe by blast
qed

text \<open>A file system with one directory and one file.\<close>

definition sample_fs :: "unit FileSystem" where
  "sample_fs = \<lparr>fs_canonicalize = (\<lambda>t p. if p \<in> {''/srv'', ''/srv/a.txt''} then Ok p else Err ()),
     fs_metadata = (\<lambda>t p. if p = ''/srv'' then Ok \<lparr>md_kind = Directory, md_len = 0\<rparr>
        else if p = ''/srv/a.txt'' then Ok \<lparr>md_kind = RegularFile, md_len = 2\<rparr> else Err ()),
     fs_read = (\<lambda>t p. if p = ''/srv/a.txt'' then Ok ''hi'' else Err ()), fs_task_ok = (\<lambda>t. True)\<rparr>"

definition sample_static :: StaticFilesConfig where
  "sample_static = \<lparr>sfc_mount = ''/static'', sfc_root = ''/srv'', sfc_max_file_bytes = 100,
     sfc_mime_overrides = [], sfc_fallthrough_on_miss = False\<rparr>"

lemma sample_static_built:
  "static_build sample_fs [] (max_file_bytes 100 (static_builder ''/static'' ''/srv'')) = Ok sample_static"
  by (simp add: static_build_def max_file_bytes_def static_builder_def validate_mount_def starts_with_def strip_suffix_def
      control_byte_def sample_fs_def path_is_dir_def validate_mime_overrides_def sample_static_def)

definition sample_file_head :: RequestHead where
  "sample_file_head = mk_head ''GET'' ''/static/a.txt'' Http11 []"

definition sample_file_response :: Response where
  "sample_file_response = push_header (with_content_type (response_new 200 ''hi'') ''text/plain; charset=utf-8'')
     ''X-Content-Type-Options'' ''nosniff''"

lemma sample_name: "utf8_valid ''a.txt''" "is_safe_segment ''a.txt''" "is_safe_segment_relaxed ''a.txt''"
  "content_type_for_extension ''a.txt'' [] = ''text/plain; charset=utf-8''"
proof -
  show "utf8_valid ''a.txt''" by (rule utf8_valid_ascii) simp
qed code_simp+

lemma sample_file_path: "eq_ignore_ascii_case (head_method sample_file_head) ''GET''" "head_path sample_file_head = ''/static/a.txt''"
  by code_simp+

lemma sample_components: "path_components ''/srv/a.txt'' = path_components ''/srv'' @ [NormalComp ''a.txt'']"
  "path_components ''/srv'' = [RootDir, NormalComp ''srv'']"
  by code_simp+

lemma sample_file_handled: "try_handle_static sample_fs [] sample_file_head sample_static = Some sample_file_response"
proof -
  have "resolved_path_is_safe ''/srv'' ''/srv/a.txt''"
    using resolved_path_is_safe_iff [of "''/srv/a.txt''" "''/srv''" "[''a.txt'']"] sample_components(1) sample_name by simp
  then have "resolve_and_read sample_fs [] ''/srv'' [''a.txt''] False 100 [] = Some (''hi'', ''text/plain; charset=utf-8'')"
    using sample_name sample_components
    by (simp add: resolve_and_read_def path_push_def starts_with_def sample_fs_def try_ok_def path_starts_with_def
        resolve_final_def path_file_name_def)
  then show ?thesis
    using sample_file_path sample_name
    by (simp add: try_handle_static_def strip_mount_def strip_suffix_def sample_static_def nosniff_added sample_file_response_def
        sample_fs_def)
qed



text \<open>Existing files are served. A request for a file below the mount, named by segments without dots in
  front, separators, colons or NUL, is answered with its content and the type of its extension, if the file
  system finds a regular file there that is not reached through a link and is not longer than the limit.\<close>

theorem static_file_served:
  assumes "eq_ignore_ascii_case (head_method head) ''GET''"
    and "head_path head = (if sfc_mount config = ''/'' then [] else sfc_mount config) @ ''/'' @ join ''/'' segs" and "segs \<noteq> []"
    and "\<forall>s\<in>set segs. is_safe_segment s \<and> CHR ''/'' \<notin> set s \<and> utf8_valid s"
    and "starts_with ''/'' (sfc_root config)" and "p = foldl path_push (sfc_root config) segs"
    and "fs_task_ok fs m" and "fs_canonicalize fs (m @ [0]) p = Ok p"
    and "\<forall>i\<in>{1, 3}. fs_metadata fs (m @ [i]) p = Ok \<lparr>md_kind = RegularFile, md_len = length content\<rparr>"
    and "fs_read fs (m @ [4]) p = Ok content" and "length content \<le> sfc_max_file_bytes config"
  shows "try_handle_static fs m head config =
    Some (push_header (with_content_type (response_new 200 content)
      (content_type_for_extension (last segs) (sfc_mime_overrides config))) ''X-Content-Type-Options'' ''nosniff'')"
proof -
  have comps: "path_components p = path_components (sfc_root config) @ map NormalComp segs"
    using path_components_pushes(1) [of "sfc_root config" segs] assms(4,5,6) by simp
  have safe: "resolved_path_is_safe (sfc_root config) p"
    using assms(4) safe_segment_relaxed by (auto simp: resolved_path_is_safe_iff [OF comps] list_all_iff)
  have below: "path_starts_with p (sfc_root config)" by (auto simp: path_starts_with_def starts_with_iff comps)
  have name: "path_file_name p = Some (last segs)" "utf8_valid (last segs)"
    using assms(3,4) by (simp_all add: path_file_name_def comps last_map)
  have tail: "strip_mount (head_path head) (sfc_mount config) = Some (join ''/'' segs)"
    unfolding assms(2) strip_mount_def
    using strip_prefix_Some_iff [of "sfc_mount config" "sfc_mount config @ ''/'' @ join ''/'' segs" "''/'' @ join ''/'' segs"]
    by auto
  have split: "split_on CHR ''/'' (join ''/'' segs) = segs" by (rule split_on_join) (use assms(3,4) in auto)
  obtain pre where pre: "join ''/'' segs = pre @ last segs" using join_ends [OF assms(3)] by blast
  have last: "last segs \<noteq> []" "CHR ''/'' \<notin> set (last segs)" using assms(3,4) by (auto simp: is_safe_segment_def)
  then have ne: "join ''/'' segs \<noteq> []" using pre by simp
  have nosuf: "strip_suffix ''/'' (join ''/'' segs) = None"
    using last by (cases "last segs" rule: rev_cases) (auto simp: pre strip_suffix_def)
  have "resolve_and_read fs m (sfc_root config) segs False (sfc_max_file_bytes config) (sfc_mime_overrides config) =
      Some (content, content_type_for_extension (last segs) (sfc_mime_overrides config))"
    using assms(8-11) safe below name by (simp add: resolve_and_read_def try_ok_def resolve_final_def assms(6)[symmetric])
  then show ?thesis
    using assms(1,4,7) tail split ne nosuf
    by (auto simp: try_handle_static_def list_all_iff nosniff_added)
qed

theorem static_file_served_witness:
  "try_handle_static sample_fs [] sample_file_head sample_static = Some sample_file_response"
proof -
  have path: "head_path sample_file_head =
      (if sfc_mount sample_static = ''/'' then [] else sfc_mount sample_static) @ ''/'' @ join ''/'' [''a.txt'']"
    using sample_file_path(2) by (simp add: sample_static_def)
  have segs: "[''a.txt''] \<noteq> []" "\<forall>s\<in>set [''a.txt'']. is_safe_segment s \<and> CHR ''/'' \<notin> set s \<and> utf8_valid s"
    using sample_name by simp_all
  have root: "starts_with ''/'' (sfc_root sample_static)" "''/srv/a.txt'' = foldl path_push (sfc_root sample_static) [''a.txt'']"
    by (simp_all add: sample_static_def path_push_def starts_with_def)
  have fs: "fs_task_ok sample_fs []" "fs_canonicalize sample_fs ([] @ [0]) ''/srv/a.txt'' = Ok ''/srv/a.txt''"
    "\<forall>i\<in>{1, 3}. fs_metadata sample_fs ([] @ [i]) ''/srv/a.txt'' = Ok \<lparr>md_kind = RegularFile, md_len = length ''hi''\<rparr>"
    "fs_read sample_fs ([] @ [4]) ''/srv/a.txt'' = Ok ''hi''" "length ''hi'' \<le> sfc_max_file_bytes sample_static"
    by (simp_all add: sample_fs_def sample_static_def)
  show ?thesis
    using static_file_served [OF sample_file_path(1) path segs root fs] sample_name(4)
    by (simp add: sample_file_response_def sample_static_def)
qed

end
