(* ===== verification/Ws_Sender.thy ===== *)
theory Ws_Sender
  imports Request_Head "HOL-Library.Multiset"
begin

text \<open>
  \<^verbatim>\<open>crates/plugin-websocket/src/handler.rs\<close>: the messages of a WebSocket session, what a handler learns about its
  connection, and the bounded queue through which any number of tasks push messages to the session and
  ask it to close. Every critical section of the queue's lock, and every poll of a waiting future, is one operation
  on the shared state; \<open>sender_step\<close> lets them interleave in any order. The bounded queue itself is
  the channel of tokio, with the behaviour its documentation gives.
\<close>

section \<open>Messages\<close>

datatype WsMessage = TextMessage bytes | BinaryMessage bytes

datatype WsOutcome = Reply "WsMessage list" | CloseOutcome

datatype FailureKind = IoFailure | ProtocolFailure | HandlerFailure

datatype CloseReason =
    ClientClose | Eof | IdleTimeout | Cancelled | HandlerClose | MessageTooLarge | Failed FailureKind | SenderClose
  | PongTimeout

datatype OutboundItem = Push WsMessage | CloseItem nat bytes

definition DEFAULT_OUTBOUND_CAPACITY :: nat where "DEFAULT_OUTBOUND_CAPACITY = 8"
definition MAX_CONTEXT_HEADER_VALUE_BYTES :: nat where "MAX_CONTEXT_HEADER_VALUE_BYTES = 1024"
definition MAX_CONTEXT_QUERY_BYTES :: nat where "MAX_CONTEXT_QUERY_BYTES = 2048"
definition MAX_CLOSE_REASON_BYTES :: nat where "MAX_CLOSE_REASON_BYTES = 123"

section \<open>What a handler learns about its connection\<close>

record 'a ConnRequestInfo =
  ci_peer_addr :: "'a option"
  ci_host :: "bytes option"
  ci_origin :: "bytes option"
  ci_user_agent :: "bytes option"
  ci_query :: "bytes option"
  ci_extensions :: RequestExtensions

definition bounded_header_value :: "RequestHead \<Rightarrow> bytes \<Rightarrow> bytes option" where
  "bounded_header_value head name = opt_filter (\<lambda>v. length v \<le> MAX_CONTEXT_HEADER_VALUE_BYTES) (header head name)"

definition conn_info_from_head :: "RequestHead \<Rightarrow> 'a option \<Rightarrow> 'a ConnRequestInfo" where
  "conn_info_from_head head peer_addr =
     \<lparr>ci_peer_addr = peer_addr, ci_host = bounded_header_value head ''host'',
      ci_origin = bounded_header_value head ''origin'', ci_user_agent = bounded_header_value head ''user-agent'',
      ci_query = opt_filter (\<lambda>q. length q \<le> MAX_CONTEXT_QUERY_BYTES) (head_query head),
      ci_extensions = rh_extensions head\<rparr>"

section \<open>The shared state of a sender\<close>

record Channel =
  ch_capacity :: nat
  ch_queue :: "OutboundItem list"
  ch_permits :: nat
  ch_rx_closed :: bool
  ch_closing :: bool
  ch_pending_close_requests :: nat
  ch_close_request_signal :: bool
  ch_closed_signal :: bool

definition channel :: "nat \<Rightarrow> Channel" where
  "channel capacity =
     \<lparr>ch_capacity = max capacity 1, ch_queue = [], ch_permits = 0, ch_rx_closed = False, ch_closing = False,
      ch_pending_close_requests = 0, ch_close_request_signal = False, ch_closed_signal = False\<rparr>"

text \<open>The channel of tokio: a permit is granted while the receiver is open and a place is free, and is given
  back or used for one item.\<close>

datatype TrySendError = TryFull | TryClosed

definition try_reserve :: "Channel \<Rightarrow> TrySendError + Channel" where
  "try_reserve ch =
     (if ch_rx_closed ch then Err TryClosed
      else if ch_capacity ch \<le> length (ch_queue ch) + ch_permits ch then Err TryFull
      else Ok (ch\<lparr>ch_permits := ch_permits ch + 1\<rparr>))"

definition drop_permit :: "Channel \<Rightarrow> Channel" where
  "drop_permit ch = ch\<lparr>ch_permits := ch_permits ch - 1\<rparr>"

definition permit_send :: "OutboundItem \<Rightarrow> Channel \<Rightarrow> Channel" where
  "permit_send item ch = ch\<lparr>ch_permits := ch_permits ch - 1, ch_queue := ch_queue ch @ [item]\<rparr>"

section \<open>The sender's operations\<close>

definition is_sendable_close_code :: "nat \<Rightarrow> bool" where
  "is_sendable_close_code code \<longleftrightarrow> 1000 \<le> code \<and> code \<le> 1003 \<or> 1007 \<le> code \<and> code \<le> 1009 \<or>
     1011 \<le> code \<and> code \<le> 1014 \<or> 3000 \<le> code \<and> code \<le> 4999"

definition close_request_new :: "Channel \<Rightarrow> Channel" where
  "close_request_new ch =
     ch\<lparr>ch_pending_close_requests := ch_pending_close_requests ch + 1, ch_close_request_signal := True\<rparr>"

definition close_request_drop :: "Channel \<Rightarrow> Channel" where
  "close_request_drop ch =
     (let pending = ch_pending_close_requests ch - 1;
          active = (pending > 0 \<or> ch_closing ch)
      in ch\<lparr>ch_pending_close_requests := pending, ch_close_request_signal := active\<rparr>)"

text \<open>The critical section of \<^verbatim>\<open>commit_with\<close>; the flag tells whether the item was queued.\<close>

definition commit_with :: "OutboundItem \<Rightarrow> bool \<Rightarrow> Channel \<Rightarrow> bool \<times> Channel" where
  "commit_with item closing_after ch =
     (if ch_closing ch then (False, drop_permit ch)
      else (True, permit_send item (if closing_after then ch\<lparr>ch_closing := True\<rparr> else ch)))"

definition send_closed_signal :: "Channel \<Rightarrow> Channel" where
  "send_closed_signal ch = ch\<lparr>ch_closed_signal := True\<rparr>"

definition seal_closing :: "Channel \<Rightarrow> Channel" where
  "seal_closing ch = ch\<lparr>ch_closing := True\<rparr>"

definition seal_for_session :: "Channel \<Rightarrow> Channel" where
  "seal_for_session ch = send_closed_signal (seal_closing ch)"

definition close_committed :: "Channel \<Rightarrow> bool" where
  "close_committed ch = ch_closing ch"

text \<open>One poll of \<^verbatim>\<open>reserve_or_closed\<close>: nothing while it has to wait.\<close>

definition reserve_or_closed :: "Channel \<Rightarrow> (unit + Channel) option" where
  "reserve_or_closed ch =
     (if ch_closed_signal ch then Some (Err ())
      else case try_reserve ch of
        Ok ch' \<Rightarrow> Some (Ok ch')
      | Err TryClosed \<Rightarrow> Some (Err ())
      | Err TryFull \<Rightarrow> None)"

definition sender_is_closed :: "Channel \<Rightarrow> bool" where
  "sender_is_closed ch \<longleftrightarrow> ch_closing ch \<or> ch_rx_closed ch"

datatype WsCloseError = InvalidCode | ReasonTooLong | CloseClosed

text \<open>The checks of \<^verbatim>\<open>close\<close> before anything is requested.\<close>

definition close_check :: "nat \<Rightarrow> bytes \<Rightarrow> WsCloseError option" where
  "close_check code reason =
     (if \<not> is_sendable_close_code code then Some InvalidCode
      else if length reason > MAX_CLOSE_REASON_BYTES then Some ReasonTooLong
      else None)"

section \<open>Tasks\<close>

text \<open>Where a call of \<^verbatim>\<open>send\<close>, \<^verbatim>\<open>try_send\<close> or \<^verbatim>\<open>close\<close> stands. \<open>CloseEnding\<close> still owns its close request.\<close>

datatype SenderTask =
    SendWaits WsMessage
  | SendHolds WsMessage
  | TryHolds WsMessage
  | TrySawFull WsMessage
  | CloseWaits nat bytes
  | CloseHolds nat bytes
  | CloseSignals nat bytes
  | CloseEnding nat bytes bool
  | SendReturned WsMessage bool
  | TryReturned WsMessage "TrySendError option"
  | CloseReturned nat bytes "WsCloseError option"
  | TaskDropped

record SenderSystem =
  sys_ch :: Channel
  sys_tasks :: "SenderTask list"
  sys_sealed :: bool
  sys_committed :: "OutboundItem list"
  sys_taken :: "OutboundItem list"
  sys_discarded :: "OutboundItem list"

definition system_new :: "nat \<Rightarrow> SenderSystem" where
  "system_new capacity =
     \<lparr>sys_ch = channel capacity, sys_tasks = [], sys_sealed = False, sys_committed = [], sys_taken = [],
      sys_discarded = []\<rparr>"

definition set_task :: "nat \<Rightarrow> SenderTask \<Rightarrow> Channel \<Rightarrow> SenderSystem \<Rightarrow> SenderSystem" where
  "set_task i t ch s = s\<lparr>sys_ch := ch, sys_tasks := (sys_tasks s)[i := t]\<rparr>"

definition spawn :: "SenderTask \<Rightarrow> Channel \<Rightarrow> SenderSystem \<Rightarrow> SenderSystem" where
  "spawn t ch s = s\<lparr>sys_ch := ch, sys_tasks := sys_tasks s @ [t]\<rparr>"

text \<open>What a commit adds to the items handed to the queue.\<close>

definition record_commit :: "bool \<Rightarrow> OutboundItem \<Rightarrow> SenderSystem \<Rightarrow> SenderSystem" where
  "record_commit ok item s = s\<lparr>sys_committed := sys_committed s @ (if ok then [item] else [])\<rparr>"

inductive sender_step :: "SenderSystem \<Rightarrow> SenderSystem \<Rightarrow> bool" where
  send_starts: "sender_step s (spawn (SendWaits m) (sys_ch s) s)"
| send_reserves: "i < length (sys_tasks s) \<Longrightarrow> sys_tasks s ! i = SendWaits m \<Longrightarrow>
    reserve_or_closed (sys_ch s) = Some (Ok ch) \<Longrightarrow> sender_step s (set_task i (SendHolds m) ch s)"
| send_refused: "i < length (sys_tasks s) \<Longrightarrow> sys_tasks s ! i = SendWaits m \<Longrightarrow>
    reserve_or_closed (sys_ch s) = Some (Err ()) \<Longrightarrow> sender_step s (set_task i (SendReturned m False) (sys_ch s) s)"
| send_commits: "i < length (sys_tasks s) \<Longrightarrow> sys_tasks s ! i = SendHolds m \<Longrightarrow>
    commit_with (Push m) False (sys_ch s) = (ok, ch) \<Longrightarrow>
    sender_step s (record_commit ok (Push m) (set_task i (SendReturned m ok) ch s))"
| try_reserves: "try_reserve (sys_ch s) = Ok ch \<Longrightarrow> sender_step s (spawn (TryHolds m) ch s)"
| try_sees_full: "try_reserve (sys_ch s) = Err TryFull \<Longrightarrow> sender_step s (spawn (TrySawFull m) (sys_ch s) s)"
| try_sees_closed: "try_reserve (sys_ch s) = Err TryClosed \<Longrightarrow>
    sender_step s (spawn (TryReturned m (Some TryClosed)) (sys_ch s) s)"
| try_full: "i < length (sys_tasks s) \<Longrightarrow> sys_tasks s ! i = TrySawFull m \<Longrightarrow>
    sender_step s (set_task i (TryReturned m (Some (if close_committed (sys_ch s) then TryClosed else TryFull))) (sys_ch s) s)"
| try_commits: "i < length (sys_tasks s) \<Longrightarrow> sys_tasks s ! i = TryHolds m \<Longrightarrow>
    commit_with (Push m) False (sys_ch s) = (ok, ch) \<Longrightarrow>
    sender_step s (record_commit ok (Push m) (set_task i (TryReturned m (if ok then None else Some TryClosed)) ch s))"
| close_invalid: "close_check code reason = Some e \<Longrightarrow>
    sender_step s (spawn (CloseReturned code reason (Some e)) (sys_ch s) s)"
| close_requests: "close_check code reason = None \<Longrightarrow>
    sender_step s (spawn (CloseWaits code reason) (close_request_new (sys_ch s)) s)"
| close_reserves: "i < length (sys_tasks s) \<Longrightarrow> sys_tasks s ! i = CloseWaits code reason \<Longrightarrow>
    reserve_or_closed (sys_ch s) = Some (Ok ch) \<Longrightarrow> sender_step s (set_task i (CloseHolds code reason) ch s)"
| close_refused: "i < length (sys_tasks s) \<Longrightarrow> sys_tasks s ! i = CloseWaits code reason \<Longrightarrow>
    reserve_or_closed (sys_ch s) = Some (Err ()) \<Longrightarrow>
    sender_step s (set_task i (CloseEnding code reason False) (sys_ch s) s)"
| close_commits: "i < length (sys_tasks s) \<Longrightarrow> sys_tasks s ! i = CloseHolds code reason \<Longrightarrow>
    commit_with (CloseItem code reason) True (sys_ch s) = (ok, ch) \<Longrightarrow>
    sender_step s (record_commit ok (CloseItem code reason)
      (set_task i (if ok then CloseSignals code reason else CloseEnding code reason False) ch s))"
| close_signals: "i < length (sys_tasks s) \<Longrightarrow> sys_tasks s ! i = CloseSignals code reason \<Longrightarrow>
    sender_step s (set_task i (CloseEnding code reason True) (send_closed_signal (sys_ch s)) s)"
| close_returns: "i < length (sys_tasks s) \<Longrightarrow> sys_tasks s ! i = CloseEnding code reason ok \<Longrightarrow>
    sender_step s (set_task i (CloseReturned code reason (if ok then None else Some CloseClosed))
      (close_request_drop (sys_ch s)) s)"
| send_dropped: "i < length (sys_tasks s) \<Longrightarrow> sys_tasks s ! i = SendWaits m \<Longrightarrow>
    sender_step s (set_task i TaskDropped (sys_ch s) s)"
| close_dropped: "i < length (sys_tasks s) \<Longrightarrow> sys_tasks s ! i = CloseWaits code reason \<Longrightarrow>
    sender_step s (set_task i TaskDropped (close_request_drop (sys_ch s)) s)"
| session_seals: "sender_step s (s\<lparr>sys_ch := seal_closing (sys_ch s), sys_sealed := True\<rparr>)"
| session_signals: "sys_sealed s \<Longrightarrow> sender_step s (s\<lparr>sys_ch := send_closed_signal (sys_ch s)\<rparr>)"
| session_closes_rx: "sys_sealed s \<Longrightarrow> sender_step s (s\<lparr>sys_ch := (sys_ch s)\<lparr>ch_rx_closed := True\<rparr>\<rparr>)"
| session_drops_rx: "sys_sealed s \<Longrightarrow>
    sender_step s (s\<lparr>sys_ch := (sys_ch s)\<lparr>ch_rx_closed := True, ch_queue := []\<rparr>,
      sys_discarded := ch_queue (sys_ch s) @ sys_discarded s\<rparr>)"
| session_takes: "ch_queue (sys_ch s) = item # q \<Longrightarrow>
    sender_step s (s\<lparr>sys_ch := (sys_ch s)\<lparr>ch_queue := q\<rparr>, sys_taken := sys_taken s @ [item]\<rparr>)"

inductive sender_reachable :: "nat \<Rightarrow> SenderSystem \<Rightarrow> bool" where
  reach_system_new: "sender_reachable capacity (system_new capacity)"
| reach_step: "sender_reachable capacity s \<Longrightarrow> sender_step s s' \<Longrightarrow> sender_reachable capacity s'"

section \<open>The invariant of the queue\<close>

definition holds :: "SenderTask \<Rightarrow> nat" where
  "holds t = (case t of SendHolds _ \<Rightarrow> 1 | TryHolds _ \<Rightarrow> 1 | CloseHolds _ _ \<Rightarrow> 1 | _ \<Rightarrow> 0)"

definition requests :: "SenderTask \<Rightarrow> nat" where
  "requests t = (case t of CloseWaits _ _ \<Rightarrow> 1 | CloseHolds _ _ \<Rightarrow> 1 | CloseSignals _ _ \<Rightarrow> 1 | CloseEnding _ _ _ \<Rightarrow> 1 | _ \<Rightarrow> 0)"

text \<open>The item that a call has put into the queue, as it reports.\<close>

definition delivered_by :: "SenderTask \<Rightarrow> OutboundItem multiset" where
  "delivered_by t =
     (case t of
        SendReturned m ok \<Rightarrow> if ok then {#Push m#} else {#}
      | TryReturned m e \<Rightarrow> if e = None then {#Push m#} else {#}
      | CloseSignals code reason \<Rightarrow> {#CloseItem code reason#}
      | CloseEnding code reason ok \<Rightarrow> if ok then {#CloseItem code reason#} else {#}
      | CloseReturned code reason e \<Rightarrow> if e = None then {#CloseItem code reason#} else {#}
      | _ \<Rightarrow> {#})"

definition task_checked :: "SenderTask \<Rightarrow> bool" where
  "task_checked t = (case t of CloseWaits code reason \<Rightarrow> close_check code reason = None
     | CloseHolds code reason \<Rightarrow> close_check code reason = None | _ \<Rightarrow> True)"

definition pushes_only :: "OutboundItem list \<Rightarrow> bool" where
  "pushes_only items = list_all (\<lambda>item. case item of Push _ \<Rightarrow> True | CloseItem _ _ \<Rightarrow> False) items"

text \<open>Messages, then at most one close, whose code and reason were checked.\<close>

definition close_last :: "OutboundItem list \<Rightarrow> bool" where
  "close_last items \<longleftrightarrow> pushes_only items \<or>
     (\<exists>ms code reason. items = ms @ [CloseItem code reason] \<and> pushes_only ms \<and> close_check code reason = None)"

definition counters_ok :: "SenderSystem \<Rightarrow> bool" where
  "counters_ok s \<longleftrightarrow>
     ch_permits (sys_ch s) = sum_list (map holds (sys_tasks s)) \<and>
     length (ch_queue (sys_ch s)) + ch_permits (sys_ch s) \<le> ch_capacity (sys_ch s) \<and>
     ch_pending_close_requests (sys_ch s) = sum_list (map requests (sys_tasks s)) \<and>
     list_all task_checked (sys_tasks s)"

definition signals_ok :: "SenderSystem \<Rightarrow> bool" where
  "signals_ok s \<longleftrightarrow>
     (ch_pending_close_requests (sys_ch s) > 0 \<longrightarrow> ch_close_request_signal (sys_ch s)) \<and>
     (ch_close_request_signal (sys_ch s) \<longrightarrow> ch_pending_close_requests (sys_ch s) > 0 \<or> ch_closing (sys_ch s)) \<and>
     (ch_closed_signal (sys_ch s) \<longrightarrow> ch_closing (sys_ch s)) \<and> (sys_sealed s \<longrightarrow> ch_closing (sys_ch s)) \<and>
     (ch_rx_closed (sys_ch s) \<longrightarrow> sys_sealed s) \<and> (sys_discarded s \<noteq> [] \<longrightarrow> sys_sealed s)"

definition items_ok :: "SenderSystem \<Rightarrow> bool" where
  "items_ok s \<longleftrightarrow>
     sys_committed s = sys_taken s @ ch_queue (sys_ch s) @ sys_discarded s \<and>
     (sys_discarded s \<noteq> [] \<longrightarrow> ch_queue (sys_ch s) = [] \<and> ch_closing (sys_ch s)) \<and>
     mset (sys_committed s) = sum_list (map delivered_by (sys_tasks s)) \<and>
     (\<not> ch_closing (sys_ch s) \<longrightarrow> pushes_only (sys_committed s)) \<and> close_last (sys_committed s)"

lemma sum_list_map_update:
  fixes f :: "'t \<Rightarrow> 'm :: cancel_comm_monoid_add"
  shows "i < length xs \<Longrightarrow> sum_list (map f (xs[i := x])) + f (xs ! i) = sum_list (map f xs) + f x"
proof (induction xs arbitrary: i)
  case (Cons y xs)
  then show ?case
  proof (cases i)
    case (Suc j)
    then show ?thesis using Cons.IH [of j] Cons.prems by (simp add: ac_simps)
  qed (simp add: ac_simps)
qed simp

lemmas task_defs = holds_def requests_def delivered_by_def task_checked_def
lemmas channel_defs = try_reserve_def drop_permit_def permit_send_def close_request_new_def close_request_drop_def
  commit_with_def send_closed_signal_def seal_closing_def close_committed_def
lemmas system_defs = set_task_def spawn_def record_commit_def

lemma task_checked_update:
  "list_all task_checked ts \<Longrightarrow> task_checked t \<Longrightarrow> list_all task_checked (ts[i := t])"
  by (auto simp: list_all_iff dest: set_update_subset_insert [THEN subsetD])

lemma task_checked_nth: "list_all task_checked ts \<Longrightarrow> i < length ts \<Longrightarrow> task_checked (ts ! i)"
  by (simp add: list_all_length)

lemma counters_set_task:
  assumes "counters_ok s" and "i < length (sys_tasks s)" and "task_checked t"
    and "ch_permits ch + holds (sys_tasks s ! i) = ch_permits (sys_ch s) + holds t"
    and "ch_pending_close_requests ch + requests (sys_tasks s ! i) = ch_pending_close_requests (sys_ch s) + requests t"
    and "length (ch_queue ch) + ch_permits ch \<le> ch_capacity ch"
  shows "counters_ok (set_task i t ch s)"
  using assms sum_list_map_update [of i "sys_tasks s" holds t] sum_list_map_update [of i "sys_tasks s" requests t]
  by (auto simp: counters_ok_def set_task_def task_checked_update)

lemma counters_record: "counters_ok (record_commit ok item s) = counters_ok s"
  by (simp add: counters_ok_def record_commit_def)

lemma counters_le:
  assumes "counters_ok s" "i < length (sys_tasks s)"
  shows "holds (sys_tasks s ! i) \<le> ch_permits (sys_ch s)" "requests (sys_tasks s ! i) \<le> ch_pending_close_requests (sys_ch s)"
    "task_checked (sys_tasks s ! i)" "length (ch_queue (sys_ch s)) + ch_permits (sys_ch s) \<le> ch_capacity (sys_ch s)"
proof -
  have nth: "f (sys_tasks s ! i) \<in> set (map f (sys_tasks s))" for f :: "SenderTask \<Rightarrow> nat" using assms(2) by auto
  show "holds (sys_tasks s ! i) \<le> ch_permits (sys_ch s)" "requests (sys_tasks s ! i) \<le> ch_pending_close_requests (sys_ch s)"
    using member_le_sum_list [OF nth [of holds]] member_le_sum_list [OF nth [of requests]] assms(1) by (simp_all add: counters_ok_def)
qed (use assms task_checked_nth in \<open>auto simp: counters_ok_def\<close>)

lemma reserve_or_closed_Ok:
  "reserve_or_closed ch = Some (Ok ch') \<longleftrightarrow> \<not> ch_closed_signal ch \<and> \<not> ch_rx_closed ch \<and>
     length (ch_queue ch) + ch_permits ch < ch_capacity ch \<and> ch' = ch\<lparr>ch_permits := ch_permits ch + 1\<rparr>"
  by (auto simp: reserve_or_closed_def try_reserve_def)

lemma counters_ok_step: "sender_step s s' \<Longrightarrow> counters_ok s \<Longrightarrow> counters_ok s'"
proof (induction rule: sender_step.induct)
  case (session_drops_rx s)
  then show ?case by (simp add: counters_ok_def)
qed ((simp only: counters_record)?,
    ((rule counters_set_task, assumption, assumption; (frule (1) counters_le(1), frule (1) counters_le(2),
         frule (1) counters_le(3), frule (1) counters_le(4))?;
         auto simp: reserve_or_closed_Ok channel_defs task_defs Let_def split: if_splits; fail) |
      (auto simp: counters_ok_def channel_defs spawn_def task_defs split: if_splits; fail)))+

lemma pushes_only_simps [simp]:
  "pushes_only []" "pushes_only (xs @ ys) \<longleftrightarrow> pushes_only xs \<and> pushes_only ys" "pushes_only [Push m]" "\<not> pushes_only [CloseItem code reason]"
  by (simp_all add: pushes_only_def)

lemma signalling_closing:
  assumes "items_ok s" "i < length (sys_tasks s)" "sys_tasks s ! i = CloseSignals code reason"
  shows "ch_closing (sys_ch s)"
proof -
  have "sum_list (map delivered_by (sys_tasks s)) =
      sum_list (map delivered_by ((sys_tasks s)[i := TaskDropped])) + {#CloseItem code reason#}"
    using sum_list_map_update [OF assms(2), of delivered_by TaskDropped] assms(3) by (simp add: delivered_by_def)
  moreover have "mset (sys_committed s) = sum_list (map delivered_by (sys_tasks s))"
    "\<not> ch_closing (sys_ch s) \<longrightarrow> pushes_only (sys_committed s)" using assms(1) unfolding items_ok_def by blast+
  ultimately have "CloseItem code reason \<in># mset (sys_committed s)" by simp
  then have "\<not> pushes_only (sys_committed s)" by (force simp: pushes_only_def list_all_iff)
  then show ?thesis using \<open>\<not> ch_closing (sys_ch s) \<longrightarrow> pushes_only (sys_committed s)\<close> by blast
qed

lemma signals_ok_step: "sender_step s s' \<Longrightarrow> items_ok s \<Longrightarrow> signals_ok s \<Longrightarrow> signals_ok s'"
  by (induction rule: sender_step.induct)
    (auto simp: signals_ok_def reserve_or_closed_Ok channel_defs system_defs Let_def signalling_closing split: if_splits)

lemma items_cong:
  assumes "items_ok s" "sys_committed s' = sys_committed s" "sys_taken s' = sys_taken s" "sys_discarded s' = sys_discarded s"
    "ch_queue (sys_ch s') = ch_queue (sys_ch s)" "ch_closing (sys_ch s) \<longrightarrow> ch_closing (sys_ch s')"
    "sum_list (map delivered_by (sys_tasks s')) = sum_list (map delivered_by (sys_tasks s))"
  shows "items_ok s'"
  unfolding items_ok_def assms(2-5) assms(7) using assms(1,6) unfolding items_ok_def by blast

text \<open>A task that starts, or changes its state, without handing an item over.\<close>

lemma items_set_task:
  assumes "items_ok s" "i < length (sys_tasks s)" "delivered_by t = delivered_by (sys_tasks s ! i)"
    "ch_queue ch = ch_queue (sys_ch s)" "ch_closing ch = ch_closing (sys_ch s)"
  shows "items_ok (set_task i t ch s)"
  using assms sum_list_map_update [OF assms(2), of delivered_by t] by (intro items_cong [OF assms(1)]) (auto simp: set_task_def)

lemma items_spawn:
  assumes "items_ok s" "delivered_by t = {#}" "ch_queue ch = ch_queue (sys_ch s)" "ch_closing ch = ch_closing (sys_ch s)"
  shows "items_ok (spawn t ch s)"
  using assms by (intro items_cong [OF assms(1)]) (auto simp: spawn_def)

text \<open>A task that commits an item.\<close>

lemma record_commit_False: "record_commit False item s = s"
  by (simp add: record_commit_def)

lemma items_commit:
  assumes "items_ok s" "i < length (sys_tasks s)" "commit_with item closing (sys_ch s) = (ok, ch)"
    "delivered_by (sys_tasks s ! i) = {#}" "delivered_by t = (if ok then {#item#} else {#})"
    "if closing then \<exists>code reason. item = CloseItem code reason \<and> close_check code reason = None else \<exists>m. item = Push m"
  shows "items_ok (record_commit ok item (set_task i t ch s))"
proof (cases ok)
  case True
  then have ch: "\<not> ch_closing (sys_ch s)" "ch_queue ch = ch_queue (sys_ch s) @ [item]" "ch_closing ch = closing"
    using assms(3) by (auto simp: commit_with_def permit_send_def split: if_splits)
  have "mset (sys_committed s @ [item]) = sum_list (map delivered_by ((sys_tasks s)[i := t]))"
    using sum_list_map_update [OF assms(2), of delivered_by t] assms(1,4,5) True by (auto simp: items_ok_def)
  moreover have "close_last (sys_committed s @ [item])"
    using assms(1,6) ch(1) by (cases closing) (auto simp: items_ok_def close_last_def)
  ultimately show ?thesis
    using assms(1,6) ch True by (auto simp: items_ok_def record_commit_def set_task_def)
next
  case False
  then have ch: "ch_queue ch = ch_queue (sys_ch s)" "ch_closing ch = ch_closing (sys_ch s)"
    using assms(3) by (auto simp: commit_with_def drop_permit_def split: if_splits)
  then show ?thesis using items_set_task [OF assms(1,2), of t ch] assms(4,5) False by (simp add: record_commit_False)
qed

lemma items_ok_step: "sender_step s s' \<Longrightarrow> items_ok s \<Longrightarrow> signals_ok s \<Longrightarrow> counters_ok s \<Longrightarrow> items_ok s'"
proof (induction rule: sender_step.induct)
  case (close_commits i s code reason ok ch)
  then have "close_check code reason = None" using counters_le(3) [of s i] by (simp add: task_checked_def)
  with close_commits show ?case by (intro items_commit) (auto simp: delivered_by_def)
next
  case (send_commits i s m ok ch)
  then show ?case by (intro items_commit) (auto simp: delivered_by_def)
next
  case (try_commits i s m ok ch)
  then show ?case by (intro items_commit) (auto simp: delivered_by_def)
next
  case (session_drops_rx s)
  then have "ch_closing (sys_ch s)" by (simp add: signals_ok_def)
  moreover have "sys_committed s = sys_taken s @ ch_queue (sys_ch s) @ sys_discarded s"
    "mset (sys_committed s) = sum_list (map delivered_by (sys_tasks s))" "close_last (sys_committed s)"
    using session_drops_rx(2) unfolding items_ok_def by blast+
  ultimately show ?case unfolding items_ok_def by simp
next
  case (session_takes s item q)
  then have "sys_committed s = sys_taken s @ (item # q) @ sys_discarded s" "sys_discarded s = []"
    "mset (sys_committed s) = sum_list (map delivered_by (sys_tasks s))"
    "\<not> ch_closing (sys_ch s) \<longrightarrow> pushes_only (sys_committed s)" "close_last (sys_committed s)"
    unfolding items_ok_def by auto
  then show ?case unfolding items_ok_def by simp
qed (((rule items_set_task, assumption, assumption; auto simp: reserve_or_closed_Ok channel_defs delivered_by_def Let_def; fail) |
      (rule items_spawn, assumption; auto simp: channel_defs delivered_by_def split: if_splits; fail) |
      (rule items_cong, assumption; auto simp: channel_defs; fail)))+

definition sender_inv :: "nat \<Rightarrow> SenderSystem \<Rightarrow> bool" where
  "sender_inv capacity s \<longleftrightarrow> counters_ok s \<and> signals_ok s \<and> items_ok s \<and> ch_capacity (sys_ch s) = max capacity 1"

lemma capacity_step: "sender_step s s' \<Longrightarrow> ch_capacity (sys_ch s') = ch_capacity (sys_ch s)"
  by (induction rule: sender_step.induct)
    (auto simp: reserve_or_closed_Ok channel_defs system_defs Let_def split: if_splits)

lemma sender_reachable_inv: "sender_reachable capacity s \<Longrightarrow> sender_inv capacity s"
proof (induction rule: sender_reachable.induct)
  case (reach_system_new capacity)
  show ?case
    by (simp add: sender_inv_def counters_ok_def signals_ok_def items_ok_def system_new_def channel_def close_last_def)
next
  case (reach_step capacity s s')
  then show ?case
    using counters_ok_step signals_ok_step items_ok_step capacity_step by (simp add: sender_inv_def)
qed

text \<open>C22. The outbound queue of a session. However the calls of any number of senders and the session interleave:
  the items that reached the queue are exactly those of the calls that succeed; the session receives
  them in that order, and nothing is lost unless it discards what is left after it sealed the queue; at most one of the items is a
  close, the last one, with a code and a reason that may be sent; the queue never holds more
  than its capacity; and while a close is requested the session can see it.\<close>

theorem sender_queue_delivers:
  assumes "sender_reachable capacity s"
  shows "mset (sys_committed s) = sum_list (map delivered_by (sys_tasks s)) \<and>
    sys_committed s = sys_taken s @ ch_queue (sys_ch s) @ sys_discarded s \<and>
    (sys_discarded s \<noteq> [] \<longrightarrow> sys_sealed s) \<and>
    close_last (sys_committed s) \<and> length (ch_queue (sys_ch s)) + ch_permits (sys_ch s) \<le> max capacity 1 \<and>
    (0 < sum_list (map requests (sys_tasks s)) \<longrightarrow> ch_close_request_signal (sys_ch s))"
  using sender_reachable_inv [OF assms]
  by (auto simp: sender_inv_def counters_ok_def signals_ok_def items_ok_def)

text \<open>One message is sent, and then the session is asked to close.\<close>

lemma sample_sender_run:
  "\<exists>s. sender_reachable 1 s \<and> sys_committed s = [Push (TextMessage ''a'')] \<and> sys_taken s = [] \<and>
     sum_list (map requests (sys_tasks s)) = 1"
proof -
  let ?m = "TextMessage ''a''"
  let ?s1 = "spawn (SendWaits ?m) (channel 1) (system_new 1)"
  let ?c2 = "(channel 1)\<lparr>ch_permits := 1\<rparr>"
  let ?s2 = "set_task 0 (SendHolds ?m) ?c2 ?s1"
  let ?s3 = "record_commit True (Push ?m) (set_task 0 (SendReturned ?m True) (permit_send (Push ?m) ?c2) ?s2)"
  let ?s4 = "spawn (CloseWaits 1000 []) (close_request_new (sys_ch ?s3)) ?s3"
  have "sender_reachable 1 ?s1"
    using reach_step [OF reach_system_new send_starts [of "system_new 1" ?m]] by (simp add: system_new_def)
  moreover have "sender_step ?s1 ?s2"
    by (rule send_reserves) (simp_all add: spawn_def system_new_def channel_def reserve_or_closed_Ok)
  moreover have "sender_step ?s2 ?s3"
    by (rule send_commits) (simp_all add: spawn_def system_new_def channel_def set_task_def commit_with_def)
  moreover have "sender_step ?s3 ?s4"
    by (rule close_requests) (simp add: close_check_def is_sendable_close_code_def)
  ultimately have "sender_reachable 1 ?s4" by (blast intro: reach_step)
  then show ?thesis
    by (rule_tac exI [of _ ?s4]) (simp add: system_defs system_new_def requests_def)
qed

theorem sender_queue_delivers_witness:
  "\<exists>s. sender_reachable 1 s \<and> sys_committed s = [Push (TextMessage ''a'')] \<and>
     ch_queue (sys_ch s) @ sys_discarded s = [Push (TextMessage ''a'')] \<and> ch_close_request_signal (sys_ch s)"
proof -
  obtain s where s: "sender_reachable 1 s" "sys_committed s = [Push (TextMessage ''a'')]" "sys_taken s = []"
    "sum_list (map requests (sys_tasks s)) = 1"
    using sample_sender_run by blast
  with sender_queue_delivers [OF s(1)] show ?thesis by auto
qed

end
