(* ===== verification/Ws_Pattern.thy ===== *)
theory Ws_Pattern
  imports Ascii
begin

text \<open>
  \<^verbatim>\<open>crates/plugin-websocket/src/pattern.rs\<close>: the path patterns of WebSocket endpoints. A text without braces is compared
  as it is; a text with braces is split into literal segments and parameters, checked when it is built.
\<close>

section \<open>Patterns\<close>

definition MAX_PATTERN_SEGMENTS :: nat where "MAX_PATTERN_SEGMENTS = 32"
definition MAX_SEGMENT_BYTES :: nat where "MAX_SEGMENT_BYTES = 256"

datatype PathPatternError =
    MissingLeadingSlash | EmptyParamName | InvalidParamName bytes | MixedSegment bytes | DuplicateParamName bytes
  | EmptySegment | TooManySegments | SegmentTooLong

datatype WsSegment = WsLiteral bytes | WsParam bytes

datatype PathPattern = Exact bytes | Segments "WsSegment list"

definition ws_name_char :: "byte \<Rightarrow> bool" where
  "ws_name_char c \<longleftrightarrow> is_ascii_alphanumeric c \<or> c = CHR ''_''"

fun ws_segment_loop :: "bytes list \<Rightarrow> bytes list \<Rightarrow> WsSegment list \<Rightarrow> PathPatternError + WsSegment list" where
  "ws_segment_loop [] seen_names segments = Ok segments"
| "ws_segment_loop (raw # raws) seen_names segments =
     (if raw = [] then Err EmptySegment
      else if length raw > MAX_SEGMENT_BYTES then Err SegmentTooLong
      else if starts_with ''{'' raw \<and> last raw = CHR ''}'' \<and> length raw \<ge> 2 then
        (let name = butlast (tl raw) in
         if name = [] then Err EmptyParamName
         else if \<not> list_all ws_name_char name then Err (InvalidParamName name)
         else if name \<in> set seen_names then Err (DuplicateParamName name)
         else ws_segment_loop raws (seen_names @ [name]) (segments @ [WsParam name]))
      else if CHR ''{'' \<in> set raw \<or> CHR ''}'' \<in> set raw then Err (MixedSegment raw)
      else ws_segment_loop raws seen_names (segments @ [WsLiteral raw]))"

definition path_pattern_parse :: "bytes \<Rightarrow> PathPatternError + PathPattern" where
  "path_pattern_parse pat =
     (if CHR ''{'' \<notin> set pat \<and> CHR ''}'' \<notin> set pat then Ok (Exact pat)
      else if \<not> starts_with ''/'' pat then Err MissingLeadingSlash
      else
        let raw_segments = split_on CHR ''/'' (case strip_prefix ''/'' pat of Some r \<Rightarrow> r | None \<Rightarrow> pat) in
        if length raw_segments > MAX_PATTERN_SEGMENTS then Err TooManySegments
        else res_bind (ws_segment_loop raw_segments [] []) (\<lambda>segments. Ok (Segments segments)))"

section \<open>Matching\<close>

definition is_safe_segment_value :: "bytes \<Rightarrow> bool" where
  "is_safe_segment_value v \<longleftrightarrow> v \<noteq> [] \<and> v \<noteq> ''.'' \<and> v \<noteq> ''..'' \<and> CHR ''?'' \<notin> set v \<and> CHR ''#'' \<notin> set v \<and>
     length v \<le> MAX_SEGMENT_BYTES"

type_synonym WsPathParams = "(bytes \<times> bytes) list"

fun ws_match_loop :: "WsSegment list \<Rightarrow> bytes list \<Rightarrow> WsPathParams \<Rightarrow> WsPathParams option" where
  "ws_match_loop [] rest params = (if rest \<noteq> [] then None else Some params)"
| "ws_match_loop (segment # segments) [] params = None"
| "ws_match_loop (segment # segments) (v # rest) params =
     (case segment of
        WsLiteral lit \<Rightarrow> if lit \<noteq> v then None else ws_match_loop segments rest params
      | WsParam name \<Rightarrow>
          if \<not> is_safe_segment_value v then None else ws_match_loop segments rest (params @ [(name, v)]))"

definition ws_match_segments :: "WsSegment list \<Rightarrow> bytes \<Rightarrow> WsPathParams option" where
  "ws_match_segments segments path =
     Option.bind (strip_prefix ''/'' path) (\<lambda>stripped. ws_match_loop segments (split_on CHR ''/'' stripped) [])"

definition match_path :: "PathPattern \<Rightarrow> bytes \<Rightarrow> WsPathParams option" where
  "match_path pat path =
     (case pat of
        Exact exact \<Rightarrow> if path = exact then Some [] else None
      | Segments segments \<Rightarrow> ws_match_segments segments path)"

definition ws_params_get :: "WsPathParams \<Rightarrow> bytes \<Rightarrow> bytes option" where
  "ws_params_get params name = map_option snd (find (\<lambda>(k, _). k = name) params)"

section \<open>What a pattern is\<close>

fun ws_render :: "WsSegment \<Rightarrow> bytes" where
  "ws_render (WsLiteral lit) = lit"
| "ws_render (WsParam name) = ''{'' @ name @ ''}''"

fun ws_segment_ok :: "WsSegment \<Rightarrow> bool" where
  "ws_segment_ok (WsLiteral lit) \<longleftrightarrow> lit \<noteq> [] \<and> CHR ''/'' \<notin> set lit \<and> CHR ''{'' \<notin> set lit \<and> CHR ''}'' \<notin> set lit"
| "ws_segment_ok (WsParam name) \<longleftrightarrow> name \<noteq> [] \<and> list_all ws_name_char name"

definition ws_param_names :: "WsSegment list \<Rightarrow> bytes list" where
  "ws_param_names segs = List.map_filter (\<lambda>s. case s of WsParam name \<Rightarrow> Some name | WsLiteral _ \<Rightarrow> None) segs"

text \<open>A list of segments that can be written as a pattern.\<close>

definition ws_pattern_ok :: "WsSegment list \<Rightarrow> bool" where
  "ws_pattern_ok segs \<longleftrightarrow> segs \<noteq> [] \<and> length segs \<le> MAX_PATTERN_SEGMENTS \<and> list_all ws_segment_ok segs \<and>
     list_all (\<lambda>s. length (ws_render s) \<le> MAX_SEGMENT_BYTES) segs \<and> distinct (ws_param_names segs) \<and> ws_param_names segs \<noteq> []"

definition ws_pattern_text :: "WsSegment list \<Rightarrow> bytes" where
  "ws_pattern_text segs = CHR ''/'' # join ''/'' (map ws_render segs)"

text \<open>When a segment of the pattern accepts a segment of the path, and what is bound.\<close>

fun ws_fits :: "WsSegment \<Rightarrow> bytes \<Rightarrow> bool" where
  "ws_fits (WsLiteral lit) v \<longleftrightarrow> v = lit"
| "ws_fits (WsParam name) v \<longleftrightarrow> is_safe_segment_value v"

definition ws_bindings :: "WsSegment list \<Rightarrow> bytes list \<Rightarrow> WsPathParams" where
  "ws_bindings segs vals =
     List.map_filter (\<lambda>(s, v). case s of WsParam name \<Rightarrow> Some (name, v) | WsLiteral _ \<Rightarrow> None) (zip segs vals)"

lemma ws_map_filter_simps:
  "ws_param_names [] = []" "ws_param_names (WsLiteral l # segs) = ws_param_names segs"
  "ws_param_names (WsParam n # segs) = n # ws_param_names segs"
  "ws_bindings [] vals = []" "ws_bindings (WsLiteral l # segs) (v # vals) = ws_bindings segs vals"
  "ws_bindings (WsParam n # segs) (v # vals) = (n, v) # ws_bindings segs vals"
  by (simp_all add: ws_param_names_def ws_bindings_def List.map_filter_def)

lemma ws_match_loop_spec:
  "ws_match_loop segs vals params = Some out \<longleftrightarrow> list_all2 ws_fits segs vals \<and> out = params @ ws_bindings segs vals"
  by (induction segs vals params rule: ws_match_loop.induct)
    (auto simp: ws_map_filter_simps split: WsSegment.split)

lemma ws_fits_no_slash: "v \<in> set (split_on CHR ''/'' s) \<Longrightarrow> CHR ''/'' \<notin> set v"
  by (rule split_on_pieces)

lemma ws_match_segments_spec:
  "ws_match_segments segs path = Some out \<longleftrightarrow>
     (\<exists>vals. vals \<noteq> [] \<and> (\<forall>v\<in>set vals. CHR ''/'' \<notin> set v) \<and> path = CHR ''/'' # join ''/'' vals \<and>
        list_all2 ws_fits segs vals \<and> out = ws_bindings segs vals)"
  (is "?l \<longleftrightarrow> ?r")
proof
  assume ?l
  then obtain r where "path = CHR ''/'' # r" "ws_match_loop segs (split_on CHR ''/'' r) [] = Some out"
    by (auto simp: ws_match_segments_def bind_eq_Some_conv strip_prefix_Some_iff)
  then show ?r
    by (intro exI [of _ "split_on CHR ''/'' r"]) (auto simp: ws_match_loop_spec join_split_on dest: split_on_pieces)
next
  assume ?r
  then obtain vals where "vals \<noteq> []" "\<forall>v\<in>set vals. CHR ''/'' \<notin> set v" "path = CHR ''/'' # join ''/'' vals"
    "list_all2 ws_fits segs vals" "out = ws_bindings segs vals" by blast
  then show ?l
    by (simp add: ws_match_segments_def split_on_join ws_match_loop_spec)
qed

section \<open>What the parser accepts\<close>

lemma ws_name_char_plain: "ws_name_char c \<Longrightarrow> c \<noteq> CHR ''/'' \<and> c \<noteq> CHR ''{'' \<and> c \<noteq> CHR ''}''"
  by (auto simp: ws_name_char_def ascii_class_defs)

lemma ws_name_plain: "list_all ws_name_char name \<Longrightarrow> CHR ''/'' \<notin> set name \<and> CHR ''{'' \<notin> set name \<and> CHR ''}'' \<notin> set name"
  using ws_name_char_plain by (auto simp: list_all_iff)

lemma braces_iff:
  "starts_with ''{'' raw \<and> last raw = CHR ''}'' \<and> length raw \<ge> 2 \<longleftrightarrow> (\<exists>name. raw = ''{'' @ name @ ''}'')"
  (is "?l \<longleftrightarrow> ?r")
proof
  assume l: ?l
  then obtain r where r: "raw = CHR ''{'' # r" by (auto simp: starts_with_iff)
  with l have "r = butlast r @ ''}''" by (cases r rule: rev_cases) auto
  with r show ?r by auto
qed (auto simp: starts_with_def)

lemma ws_loop_param:
  assumes "name \<noteq> []" "list_all ws_name_char name" "length (''{'' @ name @ ''}'') \<le> MAX_SEGMENT_BYTES"
  shows "ws_segment_loop ((''{'' @ name @ ''}'') # raws) seen segs =
    (if name \<in> set seen then Err (DuplicateParamName name)
     else ws_segment_loop raws (seen @ [name]) (segs @ [WsParam name]))"
  using assms braces_iff [of "''{'' @ name @ ''}''"] by (simp add: butlast_append starts_with_def)

lemma ws_loop_literal:
  assumes "lit \<noteq> []" "CHR ''{'' \<notin> set lit" "CHR ''}'' \<notin> set lit" "length lit \<le> MAX_SEGMENT_BYTES"
  shows "ws_segment_loop (lit # raws) seen segs = ws_segment_loop raws seen (segs @ [WsLiteral lit])"
proof -
  have "\<not> starts_with ''{'' lit" using assms(2) by (auto simp: starts_with_iff)
  then show ?thesis using assms by simp
qed

lemma ws_loop_complete:
  assumes "list_all ws_segment_ok new" "list_all (\<lambda>s. length (ws_render s) \<le> MAX_SEGMENT_BYTES) new"
    "distinct (seen @ ws_param_names new)"
  shows "ws_segment_loop (map ws_render new) seen segs = Ok (segs @ new)"
  using assms
proof (induction new arbitrary: seen segs)
  case (Cons s new)
  show ?case
  proof (cases s)
    case (WsLiteral lit)
    then show ?thesis
      using Cons.prems Cons.IH [of seen "segs @ [s]"] ws_loop_literal [of lit "map ws_render new" seen segs]
      by (simp add: ws_map_filter_simps)
  next
    case (WsParam name)
    then have "name \<notin> set seen" using Cons.prems(3) by (auto simp: ws_map_filter_simps)
    then show ?thesis
      using Cons.prems Cons.IH [of "seen @ [name]" "segs @ [s]"] ws_loop_param [of name "map ws_render new" seen segs] WsParam
      by (simp add: ws_map_filter_simps)
  qed
qed simp

lemma ws_loop_sound:
  assumes "ws_segment_loop raws seen segs = Ok out" "\<forall>raw\<in>set raws. CHR ''/'' \<notin> set raw" "distinct seen"
  shows "\<exists>new. out = segs @ new \<and> raws = map ws_render new \<and> list_all ws_segment_ok new \<and>
    list_all (\<lambda>s. length (ws_render s) \<le> MAX_SEGMENT_BYTES) new \<and> distinct (seen @ ws_param_names new)"
  using assms
proof (induction raws arbitrary: seen segs)
  case Nil
  then show ?case by (simp add: ws_map_filter_simps)
next
  case (Cons raw raws)
  have raw: "raw \<noteq> []" "length raw \<le> MAX_SEGMENT_BYTES" "CHR ''/'' \<notin> set raw" using Cons.prems by (auto split: if_splits)
  show ?case
  proof (cases "starts_with ''{'' raw \<and> last raw = CHR ''}'' \<and> length raw \<ge> 2")
    case True
    then obtain name where name: "raw = ''{'' @ name @ ''}''" unfolding braces_iff by blast
    with True Cons.prems(1) raw(2) have ok: "name \<noteq> []" "list_all ws_name_char name" "name \<notin> set seen"
      "ws_segment_loop raws (seen @ [name]) (segs @ [WsParam name]) = Ok out"
      by (auto simp: Let_def butlast_append split: if_splits)
    from Cons.IH [OF ok(4)] Cons.prems(2,3) ok(3) obtain new where "out = (segs @ [WsParam name]) @ new"
      "raws = map ws_render new" "list_all ws_segment_ok new" "list_all (\<lambda>s. length (ws_render s) \<le> MAX_SEGMENT_BYTES) new"
      "distinct ((seen @ [name]) @ ws_param_names new)" by auto
    then show ?thesis using ok(1,2) name raw(2)
      by (intro exI [of _ "WsParam name # new"]) (auto simp: ws_map_filter_simps)
  next
    case False
    then have lit: "CHR ''{'' \<notin> set raw" "CHR ''}'' \<notin> set raw"
      "ws_segment_loop raws seen (segs @ [WsLiteral raw]) = Ok out"
      using Cons.prems(1) by (auto split: if_splits)
    from Cons.IH [OF lit(3)] Cons.prems(2,3) obtain new where "out = (segs @ [WsLiteral raw]) @ new"
      "raws = map ws_render new" "list_all ws_segment_ok new" "list_all (\<lambda>s. length (ws_render s) \<le> MAX_SEGMENT_BYTES) new"
      "distinct (seen @ ws_param_names new)" by auto
    then show ?thesis using raw lit(1,2)
      by (intro exI [of _ "WsLiteral raw # new"]) (auto simp: ws_map_filter_simps)
  qed
qed

lemma ws_render_no_slash: "ws_segment_ok s \<Longrightarrow> CHR ''/'' \<notin> set (ws_render s)"
  using ws_name_plain by (cases s) auto

lemma subset_join: "x \<in> set xs \<Longrightarrow> set x \<subseteq> set (join d xs)"
  by (induction d xs rule: join.induct) auto

lemma ws_braces_iff: "list_all ws_segment_ok segs \<Longrightarrow>
  (CHR ''{'' \<in> set (ws_pattern_text segs) \<or> CHR ''}'' \<in> set (ws_pattern_text segs)) \<longleftrightarrow> ws_param_names segs \<noteq> []"
proof -
  have "list_all ws_segment_ok segs \<Longrightarrow> (\<exists>s\<in>set segs. CHR ''{'' \<in> set (ws_render s) \<or> CHR ''}'' \<in> set (ws_render s)) \<longleftrightarrow> ws_param_names segs \<noteq> []"
  proof (induction segs)
    case (Cons s segs)
    then show ?case by (cases s) (auto simp: ws_map_filter_simps)
  qed (simp add: ws_map_filter_simps)
  moreover have "x \<in> set (join ''/'' (map ws_render segs)) \<Longrightarrow> x \<noteq> CHR ''/'' \<Longrightarrow> \<exists>s\<in>set segs. x \<in> set (ws_render s)" for x
    using set_join [of "''/''" "map ws_render segs"] by auto
  moreover have "s \<in> set segs \<Longrightarrow> x \<in> set (ws_render s) \<Longrightarrow> x \<in> set (join ''/'' (map ws_render segs))" for s x
    using subset_join [of "ws_render s" "map ws_render segs" "''/''"] by auto
  ultimately show "list_all ws_segment_ok segs \<Longrightarrow> ?thesis" by (auto simp: ws_pattern_text_def)
qed

text \<open>Patterns of WebSocket endpoints. A text without braces is accepted as it is. A text with braces is
  accepted exactly if it is the text of a list of at most 32 segments, non-empty and of at most 256 bytes,
  each a literal or a parameter with a name of its own, and that list is then the pattern.\<close>

theorem path_pattern_parse_exact:
  "path_pattern_parse s = Ok p \<longleftrightarrow>
     (CHR ''{'' \<notin> set s \<and> CHR ''}'' \<notin> set s \<and> p = Exact s) \<or>
     (\<exists>segs. ws_pattern_ok segs \<and> s = ws_pattern_text segs \<and> p = Segments segs)"
  (is "?l \<longleftrightarrow> ?plain \<or> ?r")
proof (cases "CHR ''{'' \<notin> set s \<and> CHR ''}'' \<notin> set s")
  case True
  then have "\<not> ?r" using ws_braces_iff by (auto simp: ws_pattern_ok_def)
  with True show ?thesis by (auto simp: path_pattern_parse_def)
next
  case braces: False
  have "?l \<longleftrightarrow> (\<exists>r segs. s = CHR ''/'' # r \<and> length (split_on CHR ''/'' r) \<le> MAX_PATTERN_SEGMENTS \<and>
      ws_segment_loop (split_on CHR ''/'' r) [] [] = Ok segs \<and> p = Segments segs)"
    using braces by (auto simp: path_pattern_parse_def Let_def starts_with_iff res_bind_eq_Ok)
  also have "\<dots> \<longleftrightarrow> ?r"
  proof
    assume "\<exists>r segs. s = CHR ''/'' # r \<and> length (split_on CHR ''/'' r) \<le> MAX_PATTERN_SEGMENTS \<and>
      ws_segment_loop (split_on CHR ''/'' r) [] [] = Ok segs \<and> p = Segments segs"
    then obtain r segs where r: "s = CHR ''/'' # r" "length (split_on CHR ''/'' r) \<le> MAX_PATTERN_SEGMENTS"
      "ws_segment_loop (split_on CHR ''/'' r) [] [] = Ok segs" "p = Segments segs" by blast
    then have new: "split_on CHR ''/'' r = map ws_render segs" "list_all ws_segment_ok segs"
      "list_all (\<lambda>s. length (ws_render s) \<le> MAX_SEGMENT_BYTES) segs" "distinct (ws_param_names segs)"
      using ws_loop_sound [OF r(3)] split_on_pieces [of _ "CHR ''/''" r] by auto
    then have "s = ws_pattern_text segs" using r(1) join_split_on [of "CHR ''/''" r] by (simp add: ws_pattern_text_def)
    moreover from this have "ws_param_names segs \<noteq> []" using braces ws_braces_iff [OF new(2)] by blast
    moreover have "segs \<noteq> []" "length segs \<le> MAX_PATTERN_SEGMENTS" using new(1) r(2) by (metis list.map_disc_iff split_on_ne, metis length_map)
    ultimately show ?r using new r(4) by (auto simp: ws_pattern_ok_def)
  next
    assume ?r
    then obtain segs where segs: "ws_pattern_ok segs" "s = ws_pattern_text segs" "p = Segments segs" by blast
    then have "split_on CHR ''/'' (join ''/'' (map ws_render segs)) = map ws_render segs"
      using ws_render_no_slash by (intro split_on_join) (auto simp: ws_pattern_ok_def list_all_iff)
    with segs show "\<exists>r segs. s = CHR ''/'' # r \<and> length (split_on CHR ''/'' r) \<le> MAX_PATTERN_SEGMENTS \<and>
      ws_segment_loop (split_on CHR ''/'' r) [] [] = Ok segs \<and> p = Segments segs"
      using ws_loop_complete [of segs "[]" "[]"]
      by (intro exI [of _ "join ''/'' (map ws_render segs)"] exI [of _ segs]) (simp add: ws_pattern_text_def ws_pattern_ok_def)
  qed
  finally show ?thesis using braces by blast
qed

text \<open>Matching of WebSocket paths. A pattern with parameters matches exactly the paths with as many
  segments, equal to the literals and safe (not empty, no dot segment, no query or fragment, bounded)
  at the parameters, and binds each name to the bytes of its segment.\<close>

theorem match_path_exact:
  "match_path (Segments segs) path = Some params \<longleftrightarrow>
     (\<exists>vals. vals \<noteq> [] \<and> list_all (\<lambda>v. CHR ''/'' \<notin> set v) vals \<and> path = CHR ''/'' # join ''/'' vals \<and>
        list_all2 ws_fits segs vals \<and> params = ws_bindings segs vals)"
  by (simp add: match_path_def ws_match_segments_spec list_all_iff)

end
