(* ===== verification/Ws_Session.thy ===== *)
theory Ws_Session
  imports Ws_Sender Ws_Pattern Gates
begin

text \<open>
  \<^verbatim>\<open>crates/plugin-websocket/src/session.rs\<close> and \<^verbatim>\<open>config.rs\<close>: the loop that serves one WebSocket session. The framing
  library (tungstenite), the clock, the client, the application's handler and the tasks that push messages are the
  environment \<open>WsEnv\<close>: for every await it says what was ready at the poll that completed it, and the
  code's polling order decides which of the ready branches is taken. An await at which nothing ever becomes
  ready does not return (the value \<open>None\<close>). What the session does is recorded in a trace.
\<close>

section \<open>Configuration\<close>

record PingKeepalive =
  pk_interval :: nat
  pk_pong_timeout :: nat

record ('h, 'c) WebSocketConfig =
  wsc_path :: bytes
  wsc_max_message_size :: nat
  wsc_max_frame_size :: nat
  wsc_idle_timeout :: "nat option"
  wsc_close_grace :: nat
  wsc_handler :: 'h
  wsc_pattern :: "PathPattern option"
  wsc_outbound_capacity :: nat
  wsc_ping :: "PingKeepalive option"
  wsc_handshake_check :: "'c option"

text \<open>Durations are in nanoseconds.\<close>

definition secs :: "nat \<Rightarrow> nat" where "secs n = n * 1000000000"

definition MAX_OUTBOUND_CAPACITY :: nat where "MAX_OUTBOUND_CAPACITY = 4096"

definition ws_config_default :: "'h \<Rightarrow> ('h, 'c) WebSocketConfig" where
  "ws_config_default echo =
     \<lparr>wsc_path = ''/ws'', wsc_max_message_size = 1024 * 1024, wsc_max_frame_size = 256 * 1024,
      wsc_idle_timeout = Some (secs 60), wsc_close_grace = secs 10, wsc_handler = echo, wsc_pattern = None,
      wsc_outbound_capacity = DEFAULT_OUTBOUND_CAPACITY, wsc_ping = None, wsc_handshake_check = None\<rparr>"

datatype OutboundCapacityError = ZeroCapacity | CapacityTooLarge
datatype PingIntervalError = ZeroInterval | ZeroPongTimeout

definition with_path :: "bytes \<Rightarrow> ('h, 'c) WebSocketConfig \<Rightarrow> ('h, 'c) WebSocketConfig" where
  "with_path path c = c\<lparr>wsc_path := path, wsc_pattern := None\<rparr>"

definition with_path_pattern :: "bytes \<Rightarrow> ('h, 'c) WebSocketConfig \<Rightarrow> PathPatternError + ('h, 'c) WebSocketConfig" where
  "with_path_pattern pat c =
     res_bind (path_pattern_parse pat) (\<lambda>parsed. Ok (c\<lparr>wsc_path := pat, wsc_pattern := Some parsed\<rparr>))"

definition with_max_message_size :: "nat \<Rightarrow> ('h, 'c) WebSocketConfig \<Rightarrow> ('h, 'c) WebSocketConfig" where
  "with_max_message_size n c = c\<lparr>wsc_max_message_size := n\<rparr>"

definition with_max_frame_size :: "nat \<Rightarrow> ('h, 'c) WebSocketConfig \<Rightarrow> ('h, 'c) WebSocketConfig" where
  "with_max_frame_size n c = c\<lparr>wsc_max_frame_size := n\<rparr>"

definition with_idle_timeout :: "nat \<Rightarrow> ('h, 'c) WebSocketConfig \<Rightarrow> ('h, 'c) WebSocketConfig" where
  "with_idle_timeout d c = c\<lparr>wsc_idle_timeout := Some d\<rparr>"

definition without_idle_timeout :: "('h, 'c) WebSocketConfig \<Rightarrow> ('h, 'c) WebSocketConfig" where
  "without_idle_timeout c = c\<lparr>wsc_idle_timeout := None\<rparr>"

definition with_close_grace :: "nat \<Rightarrow> ('h, 'c) WebSocketConfig \<Rightarrow> ('h, 'c) WebSocketConfig" where
  "with_close_grace d c = c\<lparr>wsc_close_grace := d\<rparr>"

definition with_handler :: "'h \<Rightarrow> ('h, 'c) WebSocketConfig \<Rightarrow> ('h, 'c) WebSocketConfig" where
  "with_handler h c = c\<lparr>wsc_handler := h\<rparr>"

definition with_outbound_capacity ::
  "nat \<Rightarrow> ('h, 'c) WebSocketConfig \<Rightarrow> OutboundCapacityError + ('h, 'c) WebSocketConfig" where
  "with_outbound_capacity capacity c =
     (if capacity = 0 then Err ZeroCapacity
      else if capacity > MAX_OUTBOUND_CAPACITY then Err CapacityTooLarge
      else Ok (c\<lparr>wsc_outbound_capacity := capacity\<rparr>))"

definition with_ping_interval ::
  "nat \<Rightarrow> nat \<Rightarrow> ('h, 'c) WebSocketConfig \<Rightarrow> PingIntervalError + ('h, 'c) WebSocketConfig" where
  "with_ping_interval interval pong_timeout c =
     (if interval = 0 then Err ZeroInterval
      else if pong_timeout = 0 then Err ZeroPongTimeout
      else Ok (c\<lparr>wsc_ping := Some \<lparr>pk_interval = interval, pk_pong_timeout = pong_timeout\<rparr>\<rparr>))"

definition without_ping_interval :: "('h, 'c) WebSocketConfig \<Rightarrow> ('h, 'c) WebSocketConfig" where
  "without_ping_interval c = c\<lparr>wsc_ping := None\<rparr>"

definition with_handshake_check :: "'c \<Rightarrow> ('h, 'c) WebSocketConfig \<Rightarrow> ('h, 'c) WebSocketConfig" where
  "with_handshake_check check c = c\<lparr>wsc_handshake_check := Some check\<rparr>"

definition without_handshake_check :: "('h, 'c) WebSocketConfig \<Rightarrow> ('h, 'c) WebSocketConfig" where
  "without_handshake_check c = c\<lparr>wsc_handshake_check := None\<rparr>"

section \<open>Frames and errors of the framing library\<close>

datatype WsFrame =
    TextFrame bytes | BinaryFrame bytes | PingFrame bytes | PongFrame bytes | CloseFrame "(nat \<times> bytes) option" | RawFrame

text \<open>The errors that the code tells apart.\<close>

datatype LibError =
    LibCapacity | LibIo | LibResetWithoutClosing | LibSendAfterClosing | LibConnectionClosed | LibAlreadyClosed | LibOther

datatype 'x WsError = InvalidHandshake bytes | UnsupportedVersion | WsIo | WsProtocol LibError | WsHandler 'x

definition to_tungstenite_message :: "WsMessage \<Rightarrow> WsFrame" where
  "to_tungstenite_message msg = (case msg of TextMessage t \<Rightarrow> TextFrame t | BinaryMessage b \<Rightarrow> BinaryFrame b)"

record 'x SessionFailure =
  sf_reason :: CloseReason
  sf_error :: "'x WsError"

definition failure_recv :: "LibError \<Rightarrow> 'x SessionFailure" where
  "failure_recv err =
     \<lparr>sf_reason = (case err of LibCapacity \<Rightarrow> MessageTooLarge | LibIo \<Rightarrow> Failed IoFailure
        | LibResetWithoutClosing \<Rightarrow> Eof | _ \<Rightarrow> Failed ProtocolFailure),
      sf_error = WsProtocol err\<rparr>"

definition failure_send :: "LibError \<Rightarrow> 'x SessionFailure" where
  "failure_send err =
     \<lparr>sf_reason = (case err of LibIo \<Rightarrow> Failed IoFailure | _ \<Rightarrow> Failed ProtocolFailure), sf_error = WsProtocol err\<rparr>"

definition failure_handler :: "'x \<Rightarrow> 'x SessionFailure" where
  "failure_handler err = \<lparr>sf_reason = Failed HandlerFailure, sf_error = WsHandler err\<rparr>"

section \<open>The environment and the trace\<close>

text \<open>What is ready when an await completes: the cancellation, the next item of the client's stream
  (\<open>Some None\<close> at its end), an item of the outbound queue (\<open>Some None\<close> when every sender is gone), the result of
  a write, of a read that is thrown away, and of the handler.\<close>

record 'x Ready =
  rd_cancel :: bool
  rd_next :: "(LibError + WsFrame) option option"
  rd_recv :: "OutboundItem option option"
  rd_written :: "(LibError + unit) option"
  rd_linger :: "(LibError + nat) option"
  rd_handler :: "('x + WsOutcome) option"

datatype TryRecv = TryItem OutboundItem | TryEmpty | TryDisconnected

text \<open>\<open>we_elapsed\<close>: whether a sleep until an instant is over; \<open>we_stalled\<close>: whether a sleep that started
  with the await is; \<open>we_observed\<close>: the close request signal and the time at each poll of the close bound during
  an await.\<close>

record 'x WsEnv =
  we_ready :: "tick \<Rightarrow> 'x Ready"
  we_now :: "tick \<Rightarrow> nat"
  we_elapsed :: "tick \<Rightarrow> nat \<Rightarrow> bool"
  we_stalled :: "tick \<Rightarrow> nat \<Rightarrow> bool"
  we_observed :: "tick \<Rightarrow> (bool \<times> nat) list"
  we_try_recv :: "tick \<Rightarrow> TryRecv"
  we_close_requested :: "tick \<Rightarrow> bool"
  we_close_committed :: "tick \<Rightarrow> bool"
  we_instant_max :: nat

datatype 'x WsEvent =
    Received WsFrame
  | Took OutboundItem
  | HandlerCalled WsMessage
  | HandlerReturned "'x + WsOutcome"
  | ReplyStarts "WsMessage list"
  | SendFrame WsFrame bool
  | Sealed
  | RxReleased
  | CloseStarted "(nat \<times> bytes) option"
  | OnClose CloseReason

section \<open>Keepalive\<close>

text \<open>\<^verbatim>\<open>Instant::checked_add\<close> is nothing beyond the last instant the platform can represent.\<close>

definition instant_checked_add :: "nat \<Rightarrow> nat \<Rightarrow> nat \<Rightarrow> nat option" where
  "instant_checked_add limit now d = (if now + d \<le> limit then Some (now + d) else None)"

function bisect_deadline :: "nat \<Rightarrow> nat \<Rightarrow> nat \<Rightarrow> nat \<Rightarrow> nat" where
  "bisect_deadline limit now lo hi =
     (if hi - lo > secs 1 then
        let mid = lo + (hi - lo) div 2 in
        if instant_checked_add limit now mid \<noteq> None then bisect_deadline limit now mid hi
        else bisect_deadline limit now lo mid
      else lo)"
  by auto
termination
  by (relation "measure (\<lambda>(limit, now, lo, hi). hi - lo)") (auto simp: secs_def)

declare bisect_deadline.simps [simp del]

definition checked_deadline :: "nat \<Rightarrow> nat \<Rightarrow> nat \<Rightarrow> nat" where
  "checked_deadline limit now duration =
     (case instant_checked_add limit now duration of
        Some deadline \<Rightarrow> deadline
      | None \<Rightarrow>
          (case instant_checked_add limit now (bisect_deadline limit now 0 duration) of
             Some deadline \<Rightarrow> deadline
           | None \<Rightarrow> now))"

record PendingPing =
  pp_deadline :: nat
  pp_payload :: bytes

record Keepalive =
  ka_interval :: nat
  ka_pong_timeout :: nat
  ka_next_ping_at :: nat
  ka_pending :: "PendingPing option"
  ka_next_seq :: nat

datatype TimerKind = IdleTimer | PongDeadline | PingDue

definition keepalive_new :: "nat \<Rightarrow> nat \<Rightarrow> PingKeepalive \<Rightarrow> Keepalive" where
  "keepalive_new limit now config =
     \<lparr>ka_interval = pk_interval config, ka_pong_timeout = pk_pong_timeout config,
      ka_next_ping_at = checked_deadline limit now (pk_interval config), ka_pending = None, ka_next_seq = 0\<rparr>"

definition timer_leg :: "Keepalive \<Rightarrow> nat \<times> TimerKind" where
  "timer_leg ka =
     (case ka_pending ka of
        Some pending \<Rightarrow> (pp_deadline pending, PongDeadline)
      | None \<Rightarrow> (ka_next_ping_at ka, PingDue))"

text \<open>\<^verbatim>\<open>u64::to_be_bytes\<close>.\<close>

definition to_be_bytes :: "nat \<Rightarrow> bytes" where
  "to_be_bytes n = map (\<lambda>i. char_of (n div 256 ^ (7 - i) mod 256)) [0..<8]"

definition next_payload :: "Keepalive \<Rightarrow> bytes \<times> Keepalive" where
  "next_payload ka = (to_be_bytes (ka_next_seq ka), ka\<lparr>ka_next_seq := (ka_next_seq ka + 1) mod 2 ^ 64\<rparr>)"

section \<open>The state of a session\<close>

record 'x Session =
  ss_rx :: bool
  ss_close_deadline :: "nat option"
  ss_idle_deadline :: "nat option"
  ss_keepalive :: "Keepalive option"
  ss_prefer_outbound :: bool
  ss_trace :: "'x WsEvent list"

definition ws_log :: "'x WsEvent list \<Rightarrow> 'x Session \<Rightarrow> 'x Session" where
  "ws_log es st = st\<lparr>ss_trace := ss_trace st @ es\<rparr>"

text \<open>\<^verbatim>\<open>OutboundGuard\<close>: the queue is sealed before the receiver is given up.\<close>

definition guard_seal :: "'x Session \<Rightarrow> 'x Session" where
  "guard_seal st = ws_log [Sealed] st"

definition guard_release :: "'x Session \<Rightarrow> 'x Session" where
  "guard_release st = (guard_seal st)\<lparr>ss_rx := False, ss_trace := ss_trace (guard_seal st) @ [RxReleased]\<rparr>"

text \<open>\<^verbatim>\<open>CloseBound\<close>: from the first time a close request is seen the session has \<^verbatim>\<open>close_grace\<close> to end.\<close>

definition close_observe :: "nat \<Rightarrow> bool \<Rightarrow> nat \<Rightarrow> nat option \<Rightarrow> nat option" where
  "close_observe close_grace requested now deadline =
     (if requested then (if deadline = None then Some (now + close_grace) else deadline) else None)"

definition close_bound_observe :: "'x WsEnv \<Rightarrow> ('h, 'c) WebSocketConfig \<Rightarrow> tick \<Rightarrow> 'x Session \<Rightarrow> 'x Session" where
  "close_bound_observe E cfg m st =
     st\<lparr>ss_close_deadline := close_observe (wsc_close_grace cfg) (we_close_requested E m) (we_now E m) (ss_close_deadline st)\<rparr>"

definition close_bound_deadline :: "'x WsEnv \<Rightarrow> ('h, 'c) WebSocketConfig \<Rightarrow> tick \<Rightarrow> 'x Session \<Rightarrow> nat \<times> 'x Session" where
  "close_bound_deadline E cfg m st =
     (let st = close_bound_observe E cfg m st in
      (case ss_close_deadline st of Some d \<Rightarrow> d | None \<Rightarrow> we_now E m + wsc_close_grace cfg, st))"

definition close_bound_polled :: "'x WsEnv \<Rightarrow> ('h, 'c) WebSocketConfig \<Rightarrow> tick \<Rightarrow> 'x Session \<Rightarrow> 'x Session" where
  "close_bound_polled E cfg m st =
     st\<lparr>ss_close_deadline := fold (\<lambda>(requested, now). close_observe (wsc_close_grace cfg) requested now) (we_observed E m)
          (ss_close_deadline st)\<rparr>"

section \<open>Sending\<close>

datatype SendOutcome = Sent | SendCancelled | SendGraceExpired | SendStalled | SendFailed LibError

text \<open>Cancellation first, then the write, then the two bounds.\<close>

definition send_bounded :: "'x WsEnv \<Rightarrow> ('h, 'c) WebSocketConfig \<Rightarrow> tick \<Rightarrow> WsFrame \<Rightarrow> 'x Session \<Rightarrow>
    (SendOutcome \<times> 'x Session) option" where
  "send_bounded E cfg m frame st =
     (let r = we_ready E m;
          st = close_bound_polled E cfg m st
      in if rd_cancel r then Some (SendCancelled, ws_log [SendFrame frame False] st)
         else case rd_written r of
           Some (Ok _) \<Rightarrow> Some (Sent, ws_log [SendFrame frame True] st)
         | Some (Err err) \<Rightarrow> Some (SendFailed err, ws_log [SendFrame frame False] st)
         | None \<Rightarrow>
             if (case ss_close_deadline st of Some d \<Rightarrow> we_elapsed E m d | None \<Rightarrow> False)
             then Some (SendGraceExpired, ws_log [SendFrame frame False] st)
             else if (case wsc_ping cfg of Some p \<Rightarrow> we_stalled E m (pk_pong_timeout p) | None \<Rightarrow> False)
             then Some (SendStalled, ws_log [SendFrame frame False] st)
             else None)"

datatype SessionFlow =
    FlowContinue | FlowClosed | FlowCancelled | FlowSenderClose nat bytes nat | FlowGraceExpired | FlowStalled

type_synonym 'x flow = "('x SessionFailure + SessionFlow) \<times> 'x Session"

text \<open>What the callers inside a handler's turn make of a send that did not succeed.\<close>

definition send_flow :: "SendOutcome \<Rightarrow> ('x SessionFailure + SessionFlow) option" where
  "send_flow outcome =
     (case outcome of
        Sent \<Rightarrow> None
      | SendCancelled \<Rightarrow> Some (Ok FlowCancelled)
      | SendGraceExpired \<Rightarrow> Some (Ok FlowGraceExpired)
      | SendStalled \<Rightarrow> Some (Ok FlowStalled)
      | SendFailed err \<Rightarrow> Some (Err (failure_send err)))"

fun send_replies :: "'x WsEnv \<Rightarrow> ('h, 'c) WebSocketConfig \<Rightarrow> tick \<Rightarrow> nat \<Rightarrow> WsMessage list \<Rightarrow> 'x Session \<Rightarrow> 'x flow option" where
  "send_replies E cfg m i [] st = Some (Ok FlowContinue, st)"
| "send_replies E cfg m i (msg # msgs) st =
     Option.bind (send_bounded E cfg (m @ [i]) (to_tungstenite_message msg) st) (\<lambda>(outcome, st).
       case send_flow outcome of
         Some flow \<Rightarrow> Some (flow, st)
       | None \<Rightarrow> send_replies E cfg m (Suc i) msgs st)"

section \<open>Draining the outbound queue\<close>

text \<open>\<open>Ok None\<close>: drained as far as asked for.\<close>

type_synonym 'x drained = "('x SessionFailure + SessionFlow option) \<times> 'x Session"

fun drain_before_reply :: "'x WsEnv \<Rightarrow> ('h, 'c) WebSocketConfig \<Rightarrow> tick \<Rightarrow> nat \<Rightarrow> 'x Session \<Rightarrow> 'x drained option" where
  "drain_before_reply E cfg m 0 st = Some (Ok None, st)"
| "drain_before_reply E cfg m (Suc left) st =
     (if \<not> ss_rx st then Some (Ok None, st)
      else case we_try_recv E (m @ [left, 0]) of
        TryItem (Push msg) \<Rightarrow>
          Option.bind (send_bounded E cfg (m @ [left, 1]) (to_tungstenite_message msg) (ws_log [Took (Push msg)] st)) (\<lambda>(outcome, st).
            case send_flow outcome of
              Some flow \<Rightarrow> Some (map_sum id Some flow, st)
            | None \<Rightarrow> drain_before_reply E cfg m left st)
      | TryItem (CloseItem code reason) \<Rightarrow>
          (case close_bound_deadline E cfg (m @ [left, 2]) (ws_log [Took (CloseItem code reason)] st) of
             (deadline, st) \<Rightarrow> Some (Ok (Some (FlowSenderClose code reason deadline)), st))
      | TryEmpty \<Rightarrow> Some (Ok None, st)
      | TryDisconnected \<Rightarrow> Some (Ok None, guard_release st))"

partial_function (option) drain_to_close ::
  "'x WsEnv \<Rightarrow> ('h, 'c) WebSocketConfig \<Rightarrow> tick \<Rightarrow> nat \<Rightarrow> 'x Session \<Rightarrow> 'x drained option" where
  "drain_to_close E cfg m i st =
     (if \<not> ss_rx st then Some (Ok None, st)
      else case we_try_recv E (m @ [i, 0]) of
        TryItem (Push msg) \<Rightarrow>
          Option.bind (send_bounded E cfg (m @ [i, 1]) (to_tungstenite_message msg) (ws_log [Took (Push msg)] st)) (\<lambda>(outcome, st).
            case send_flow outcome of
              Some flow \<Rightarrow> Some (map_sum id Some flow, st)
            | None \<Rightarrow> drain_to_close E cfg m (Suc i) st)
      | TryItem (CloseItem code reason) \<Rightarrow>
          (case close_bound_deadline E cfg (m @ [i, 2]) (ws_log [Took (CloseItem code reason)] st) of
             (deadline, st) \<Rightarrow> Some (Ok (Some (FlowSenderClose code reason deadline)), st))
      | TryEmpty \<Rightarrow> Some (Ok None, st)
      | TryDisconnected \<Rightarrow> Some (Ok None, guard_release st))"

datatype FlushOutcome = FlushDone | FlushCancelled | FlushTimedOut | FlushSenderClose nat bytes nat

text \<open>The loop of \<^verbatim>\<open>flush_outbound\<close>: the cancellation, then the write, then the deadline of the whole drain.\<close>

partial_function (option) flush_loop ::
  "'x WsEnv \<Rightarrow> tick \<Rightarrow> nat \<Rightarrow> nat \<Rightarrow> 'x Session \<Rightarrow> (('x SessionFailure + FlushOutcome) \<times> 'x Session) option" where
  "flush_loop E m i deadline st =
     (case we_try_recv E (m @ [i, 0]) of
        TryItem (Push msg) \<Rightarrow>
          (let frame = to_tungstenite_message msg;
               st = ws_log [Took (Push msg)] st;
               r = we_ready E (m @ [i, 1])
           in if rd_cancel r then Some (Ok FlushCancelled, ws_log [SendFrame frame False] st)
              else case rd_written r of
                Some (Ok _) \<Rightarrow> flush_loop E m (Suc i) deadline (ws_log [SendFrame frame True] st)
              | Some (Err err) \<Rightarrow> Some (Err (failure_send err), ws_log [SendFrame frame False] st)
              | None \<Rightarrow>
                  if we_elapsed E (m @ [i, 1]) deadline then Some (Ok FlushTimedOut, ws_log [SendFrame frame False] st)
                  else None)
      | TryItem (CloseItem code reason) \<Rightarrow>
          Some (Ok (FlushSenderClose code reason deadline), ws_log [Took (CloseItem code reason)] st)
      | _ \<Rightarrow> Some (Ok FlushDone, st))"

definition flush_outbound :: "'x WsEnv \<Rightarrow> ('h, 'c) WebSocketConfig \<Rightarrow> tick \<Rightarrow> nat \<Rightarrow> 'x Session \<Rightarrow>
    (('x SessionFailure + FlushOutcome) \<times> 'x Session) option" where
  "flush_outbound E cfg m close_deadline st =
     (let st = close_bound_observe E cfg (m @ [0]) st;
          deadline = (case ss_close_deadline st of Some observed \<Rightarrow> min observed close_deadline | None \<Rightarrow> close_deadline);
          st = guard_seal st
      in if \<not> ss_rx st then Some (Ok FlushDone, st)
         else flush_loop E (m @ [1]) 0 deadline st)"

section \<open>The turn of a handler\<close>

definition apply_reply :: "'x WsEnv \<Rightarrow> ('h, 'c) WebSocketConfig \<Rightarrow> tick \<Rightarrow> WsMessage list \<Rightarrow> 'x Session \<Rightarrow> 'x flow option" where
  "apply_reply E cfg m messages st =
     Option.bind (if we_close_committed E (m @ [0]) then drain_to_close E cfg (m @ [1]) 0 st else Some (Ok None, st))
       (\<lambda>(drained, st).
          case drained of
            Err failure \<Rightarrow> Some (Err failure, st)
          | Ok (Some flow) \<Rightarrow> Some (Ok flow, st)
          | Ok None \<Rightarrow> send_replies E cfg (m @ [2]) 0 messages (ws_log [ReplyStarts messages] st))"

definition apply_close :: "'x WsEnv \<Rightarrow> ('h, 'c) WebSocketConfig \<Rightarrow> tick \<Rightarrow> nat \<Rightarrow> 'x Session \<Rightarrow> 'x flow option" where
  "apply_close E cfg m close_deadline st =
     Option.bind (flush_outbound E cfg (m @ [0]) close_deadline st) (\<lambda>(flushed, st).
       case flushed of
         Err failure \<Rightarrow> Some (Err failure, st)
       | Ok FlushCancelled \<Rightarrow> Some (Ok FlowCancelled, st)
       | Ok FlushTimedOut \<Rightarrow> Some (Ok FlowClosed, st)
       | Ok (FlushSenderClose code reason deadline) \<Rightarrow> Some (Ok (FlowSenderClose code reason deadline), st)
       | Ok FlushDone \<Rightarrow>
           (let st = ws_log [CloseStarted None] st;
                r = we_ready E (m @ [1])
            in if rd_cancel r then Some (Ok FlowCancelled, st)
               else case rd_written r of
                 Some (Ok _) \<Rightarrow> Some (Ok FlowClosed, st)
               | Some (Err err) \<Rightarrow> Some (Err (failure_send err), st)
               | None \<Rightarrow> if we_elapsed E (m @ [1]) close_deadline then Some (Ok FlowClosed, st) else None))"

definition apply_outcome :: "'x WsEnv \<Rightarrow> ('h, 'c) WebSocketConfig \<Rightarrow> tick \<Rightarrow> WsOutcome \<Rightarrow> nat \<Rightarrow> 'x Session \<Rightarrow> 'x flow option" where
  "apply_outcome E cfg m outcome close_deadline st =
     (case outcome of
        Reply messages \<Rightarrow> apply_reply E cfg m messages st
      | CloseOutcome \<Rightarrow> apply_close E cfg m close_deadline st)"

definition after_handler :: "'x WsEnv \<Rightarrow> ('h, 'c) WebSocketConfig \<Rightarrow> tick \<Rightarrow> 'x + WsOutcome \<Rightarrow> 'x Session \<Rightarrow> 'x flow option" where
  "after_handler E cfg m outcome st =
     (case outcome of
        Ok (Reply messages) \<Rightarrow>
          Option.bind (drain_before_reply E cfg (m @ [0]) (wsc_outbound_capacity cfg) st) (\<lambda>(drained, st).
            case drained of
              Err failure \<Rightarrow> Some (Err failure, st)
            | Ok (Some flow) \<Rightarrow> Some (Ok flow, st)
            | Ok None \<Rightarrow> apply_outcome E cfg (m @ [2]) (Reply messages) (we_now E (m @ [1]) + wsc_close_grace cfg) st)
      | Ok CloseOutcome \<Rightarrow> apply_outcome E cfg (m @ [2]) CloseOutcome (we_now E (m @ [1]) + wsc_close_grace cfg) st
      | Err err \<Rightarrow>
          Option.bind (flush_outbound E cfg (m @ [2]) (we_now E (m @ [1]) + wsc_close_grace cfg) st) (\<lambda>(flushed, st).
            case flushed of
              Ok FlushCancelled \<Rightarrow> Some (Ok FlowCancelled, st)
            | Ok (FlushSenderClose code reason deadline) \<Rightarrow> Some (Ok (FlowSenderClose code reason deadline), st)
            | _ \<Rightarrow> Some (Err (failure_handler err), st)))"

text \<open>While the handler runs, pushes are sent; the cancellation comes first, then the handler, then the queue.\<close>

partial_function (option) run_handler_with_outbound_drain ::
  "'x WsEnv \<Rightarrow> ('h, 'c) WebSocketConfig \<Rightarrow> tick \<Rightarrow> nat \<Rightarrow> 'x Session \<Rightarrow> 'x flow option" where
  "run_handler_with_outbound_drain E cfg m i st =
     (let r = we_ready E (m @ [i, 0]) in
      if rd_cancel r then Some (Ok FlowCancelled, st)
      else case rd_handler r of
        Some outcome \<Rightarrow> after_handler E cfg (m @ [i, 1]) outcome (ws_log [HandlerReturned outcome] st)
      | None \<Rightarrow>
          (case (if ss_rx st then rd_recv r else None) of
             Some (Some (Push msg)) \<Rightarrow>
               Option.bind (send_bounded E cfg (m @ [i, 2]) (to_tungstenite_message msg) (ws_log [Took (Push msg)] st)) (\<lambda>(outcome, st).
                 case send_flow outcome of
                   Some flow \<Rightarrow> Some (flow, st)
                 | None \<Rightarrow> run_handler_with_outbound_drain E cfg m (Suc i) st)
           | Some (Some (CloseItem code reason)) \<Rightarrow>
               (case close_bound_deadline E cfg (m @ [i, 3]) (ws_log [Took (CloseItem code reason)] st) of
                  (deadline, st) \<Rightarrow> Some (Ok (FlowSenderClose code reason deadline), st))
           | Some None \<Rightarrow> run_handler_with_outbound_drain E cfg m (Suc i) (guard_release st)
           | None \<Rightarrow> None))"

section \<open>Closing\<close>

partial_function (option) drain_peer ::
  "'x WsEnv \<Rightarrow> tick \<Rightarrow> nat \<Rightarrow> nat \<Rightarrow> 'x Session \<Rightarrow> (('x WsError + unit) \<times> 'x Session) option" where
  "drain_peer E m i deadline st =
     (case rd_next (we_ready E (m @ [i])) of
        Some (Some (Ok frame)) \<Rightarrow> drain_peer E m (Suc i) deadline (ws_log [Received frame] st)
      | Some (Some (Err err)) \<Rightarrow>
          if err = LibConnectionClosed \<or> err = LibAlreadyClosed then Some (Ok (), st) else Some (Err (WsProtocol err), st)
      | Some None \<Rightarrow> Some (Ok (), st)
      | None \<Rightarrow> if we_elapsed E (m @ [i]) deadline then Some (Ok (), st) else None)"

definition close_and_drain :: "'x WsEnv \<Rightarrow> tick \<Rightarrow> (nat \<times> bytes) option \<Rightarrow> nat \<Rightarrow> 'x Session \<Rightarrow>
    (('x WsError + unit) \<times> 'x Session) option" where
  "close_and_drain E m close_frame deadline st =
     (let st = ws_log [CloseStarted close_frame] st in
      case rd_written (we_ready E (m @ [0])) of
        Some (Ok _) \<Rightarrow> drain_peer E (m @ [1]) 0 deadline st
      | Some (Err err) \<Rightarrow>
          if err = LibConnectionClosed \<or> err = LibAlreadyClosed then Some (Ok (), st)
          else if err = LibSendAfterClosing then drain_peer E (m @ [1]) 0 deadline st
          else Some (Err (WsProtocol err), st)
      | None \<Rightarrow> if we_elapsed E (m @ [0]) deadline then Some (Ok (), st) else None)"

definition close_normally :: "'x WsEnv \<Rightarrow> ('h, 'c) WebSocketConfig \<Rightarrow> tick \<Rightarrow> 'x Session \<Rightarrow> (('x WsError + unit) \<times> 'x Session) option" where
  "close_normally E cfg m st = close_and_drain E (m @ [1]) None (we_now E (m @ [0]) + wsc_close_grace cfg) st"

definition handle_cancellation :: "'x WsEnv \<Rightarrow> ('h, 'c) WebSocketConfig \<Rightarrow> tick \<Rightarrow> 'x Session \<Rightarrow>
    (('x WsError + unit) \<times> 'x Session) option" where
  "handle_cancellation E cfg m st =
     close_and_drain E (m @ [1]) (Some (1001, ''going away'')) (we_now E (m @ [0]) + wsc_close_grace cfg) st"

definition LINGER_IDLE :: nat where "LINGER_IDLE = secs 2"
definition LINGER_TOTAL :: nat where "LINGER_TOTAL = secs 3"

text \<open>What is read after an oversized message is thrown away; \<open>deadline\<close> bounds the whole sequence.\<close>

partial_function (option) linger_loop :: "'x WsEnv \<Rightarrow> tick \<Rightarrow> nat \<Rightarrow> nat \<Rightarrow> nat \<Rightarrow> unit option" where
  "linger_loop E m i linger_deadline deadline =
     (let read_until = min (we_now E (m @ [i, 0]) + LINGER_IDLE) linger_deadline in
      case rd_linger (we_ready E (m @ [i, 1])) of
        Some (Ok n) \<Rightarrow>
          if n = 0 then Some ()
          else if we_now E (m @ [i, 2]) \<ge> linger_deadline then Some ()
          else linger_loop E m (Suc i) linger_deadline deadline
      | Some (Err _) \<Rightarrow> Some ()
      | None \<Rightarrow>
          if we_elapsed E (m @ [i, 1]) read_until \<or> we_elapsed E (m @ [i, 1]) deadline then Some () else None)"

definition handle_message_too_big :: "'x WsEnv \<Rightarrow> tick \<Rightarrow> nat \<Rightarrow> 'x Session \<Rightarrow> 'x Session option" where
  "handle_message_too_big E m deadline st =
     (let st = ws_log [CloseStarted (Some (1009, ''message too big''))] st in
      case rd_written (we_ready E (m @ [0])) of
        None \<Rightarrow> if we_elapsed E (m @ [0]) deadline then Some st else None
      | Some _ \<Rightarrow>
          (case rd_written (we_ready E (m @ [1])) of
             None \<Rightarrow> if we_elapsed E (m @ [1]) deadline then Some st else None
           | Some _ \<Rightarrow>
               map_option (\<lambda>_. st)
                 (linger_loop E (m @ [3]) 0 (min deadline (we_now E (m @ [2]) + LINGER_TOTAL)) deadline)))"

section \<open>The loop\<close>

type_synonym 'x ended = "CloseReason \<times> ('x WsError + unit) \<times> 'x Session"

definition failure_parts :: "'x SessionFailure \<Rightarrow> 'x Session \<Rightarrow> 'x ended" where
  "failure_parts failure st = (sf_reason failure, Err (sf_error failure), st)"

definition end_cancelled :: "'x WsEnv \<Rightarrow> ('h, 'c) WebSocketConfig \<Rightarrow> tick \<Rightarrow> 'x Session \<Rightarrow> 'x ended option" where
  "end_cancelled E cfg m st = map_option (\<lambda>(res, st). (Cancelled, res, st)) (handle_cancellation E cfg m st)"

text \<open>The ends of a send in the loop itself, and of a handler's turn.\<close>

definition end_send :: "'x WsEnv \<Rightarrow> ('h, 'c) WebSocketConfig \<Rightarrow> tick \<Rightarrow> SendOutcome \<Rightarrow> 'x Session \<Rightarrow> 'x ended option" where
  "end_send E cfg m outcome st =
     (case outcome of
        SendCancelled \<Rightarrow> end_cancelled E cfg m (guard_release st)
      | SendGraceExpired \<Rightarrow> Some (SenderClose, Ok (), guard_release st)
      | SendStalled \<Rightarrow> Some (PongTimeout, Ok (), guard_release st)
      | SendFailed err \<Rightarrow> Some (failure_parts (failure_send err) st)
      | Sent \<Rightarrow> None)"

definition end_sender_close :: "'x WsEnv \<Rightarrow> tick \<Rightarrow> nat \<Rightarrow> bytes \<Rightarrow> nat \<Rightarrow> 'x Session \<Rightarrow> 'x ended option" where
  "end_sender_close E m code reason deadline st =
     map_option (\<lambda>(res, st). (SenderClose, res, st)) (close_and_drain E m (Some (code, reason)) deadline (guard_release st))"

definition end_flow :: "'x WsEnv \<Rightarrow> ('h, 'c) WebSocketConfig \<Rightarrow> tick \<Rightarrow> 'x SessionFailure + SessionFlow \<Rightarrow> 'x Session \<Rightarrow> 'x ended option" where
  "end_flow E cfg m flow st =
     (case flow of
        Ok FlowClosed \<Rightarrow> Some (HandlerClose, Ok (), st)
      | Ok FlowCancelled \<Rightarrow> end_cancelled E cfg m (guard_release st)
      | Ok (FlowSenderClose code reason deadline) \<Rightarrow> end_sender_close E m code reason deadline st
      | Ok FlowGraceExpired \<Rightarrow> Some (SenderClose, Ok (), guard_release st)
      | Ok FlowStalled \<Rightarrow> Some (PongTimeout, Ok (), guard_release st)
      | Err failure \<Rightarrow> Some (failure_parts failure st)
      | Ok FlowContinue \<Rightarrow> None)"

text \<open>Whether the loop goes on, with the new state, or has ended.\<close>

datatype 'x Turn = Again "'x Session" | Ended "'x ended"

definition ping_due :: "'x WsEnv \<Rightarrow> tick \<Rightarrow> 'x Session \<Rightarrow> Keepalive option" where
  "ping_due E m st =
     (case ss_keepalive st of
        Some ka \<Rightarrow> if ka_pending ka = None \<and> we_now E m \<ge> ka_next_ping_at ka then Some ka else None
      | None \<Rightarrow> None)"

definition ping_turn :: "'x WsEnv \<Rightarrow> ('h, 'c) WebSocketConfig \<Rightarrow> tick \<Rightarrow> 'x Session \<Rightarrow> 'x Turn option" where
  "ping_turn E cfg m st =
     (case ping_due E (m @ [0]) st of
        None \<Rightarrow> Some (Again st)
      | Some ka \<Rightarrow>
          (case next_payload ka of
             (payload, ka) \<Rightarrow>
               Option.bind (send_bounded E cfg (m @ [1]) (PingFrame payload) (st\<lparr>ss_keepalive := Some ka\<rparr>)) (\<lambda>(outcome, st).
                 if outcome = Sent then
                   let now = we_now E (m @ [2]) in
                   Some (Again (st\<lparr>ss_keepalive := Some (ka\<lparr>
                     ka_pending := Some \<lparr>pp_deadline = checked_deadline (we_instant_max E) now (ka_pong_timeout ka), pp_payload = payload\<rparr>,
                     ka_next_ping_at := checked_deadline (we_instant_max E) now (ka_interval ka)\<rparr>)\<rparr>))
                 else map_option Ended (end_send E cfg (m @ [3]) outcome st))))"

definition wait_leg :: "'x Session \<Rightarrow> (nat \<times> TimerKind) option" where
  "wait_leg st =
     (case (map_option (\<lambda>d. (d, IdleTimer)) (ss_idle_deadline st), map_option timer_leg (ss_keepalive st)) of
        (Some a, Some b) \<Rightarrow> Some (if fst a \<le> fst b then a else b)
      | (Some a, None) \<Rightarrow> Some a
      | (None, b) \<Rightarrow> b)"

datatype InboundEvent =
    InMessage "(LibError + WsFrame) option" | InTimer TimerKind | InOutbound OutboundItem | InSendersGone

definition inbound_ready :: "'x WsEnv \<Rightarrow> tick \<Rightarrow> (nat \<times> TimerKind) option \<Rightarrow> InboundEvent option" where
  "inbound_ready E m leg =
     (case rd_next (we_ready E m) of
        Some message \<Rightarrow> Some (InMessage message)
      | None \<Rightarrow>
          (case leg of
             Some (deadline, kind) \<Rightarrow> if we_elapsed E m deadline then Some (InTimer kind) else None
           | None \<Rightarrow> None))"

definition outbound_ready :: "'x WsEnv \<Rightarrow> tick \<Rightarrow> InboundEvent option" where
  "outbound_ready E m =
     map_option (\<lambda>item. case item of Some item \<Rightarrow> InOutbound item | None \<Rightarrow> InSendersGone) (rd_recv (we_ready E m))"

text \<open>\<^verbatim>\<open>race2\<close> in the order given.\<close>

definition race2 :: "'b option \<Rightarrow> 'b option \<Rightarrow> 'b option" where
  "race2 a b = (case a of Some v \<Rightarrow> Some v | None \<Rightarrow> b)"

text \<open>The state with the preference turned round, and the event (\<open>None\<close> inside: cancelled).\<close>

definition session_wait :: "'x WsEnv \<Rightarrow> tick \<Rightarrow> 'x Session \<Rightarrow> (InboundEvent option \<times> 'x Session) option" where
  "session_wait E m st =
     (let inbound = inbound_ready E m (wait_leg st) in
      if ss_rx st then
        let st = st\<lparr>ss_prefer_outbound := \<not> ss_prefer_outbound st\<rparr> in
        if rd_cancel (we_ready E m) then Some (None, st)
        else map_option (\<lambda>ev. (Some ev, st))
          (if ss_prefer_outbound st then race2 (outbound_ready E m) inbound else race2 inbound (outbound_ready E m))
      else if rd_cancel (we_ready E m) then Some (None, st)
      else map_option (\<lambda>ev. (Some ev, st)) inbound)"

definition session_message :: "'x WsEnv \<Rightarrow> ('h, 'c) WebSocketConfig \<Rightarrow> tick \<Rightarrow> WsFrame \<Rightarrow> 'x Session \<Rightarrow> 'x Turn option" where
  "session_message E cfg m frame st =
     (let st = ws_log [Received frame] st;
          again = (\<lambda>st. Again (st\<lparr>ss_idle_deadline := map_option (\<lambda>d. we_now E (m @ [1]) + d) (wsc_idle_timeout cfg)\<rparr>));
          handle = (\<lambda>msg. Option.bind (run_handler_with_outbound_drain E cfg (m @ [0]) 0 (ws_log [HandlerCalled msg] st))
            (\<lambda>(flow, st). if flow = Ok FlowContinue then Some (again st) else map_option Ended (end_flow E cfg (m @ [2]) flow st)))
      in case frame of
        TextFrame t \<Rightarrow> handle (TextMessage t)
      | BinaryFrame b \<Rightarrow> handle (BinaryMessage b)
      | CloseFrame _ \<Rightarrow> Some (Ended (ClientClose, Ok (), st))
      | PongFrame payload \<Rightarrow>
          Some (again (case ss_keepalive st of
            Some ka \<Rightarrow>
              (case ka_pending ka of
                 Some p \<Rightarrow> if pp_payload p = payload then st\<lparr>ss_keepalive := Some (ka\<lparr>ka_pending := None\<rparr>)\<rparr> else st
               | None \<Rightarrow> st)
          | None \<Rightarrow> st))
      | _ \<Rightarrow> Some (again st))"

definition session_event :: "'x WsEnv \<Rightarrow> ('h, 'c) WebSocketConfig \<Rightarrow> tick \<Rightarrow> InboundEvent \<Rightarrow> 'x Session \<Rightarrow> 'x Turn option" where
  "session_event E cfg m event st =
     (case event of
        InSendersGone \<Rightarrow> Some (Again (guard_release st))
      | InTimer IdleTimer \<Rightarrow>
          map_option (\<lambda>(res, st). Ended (IdleTimeout, res, st)) (close_normally E cfg (m @ [0]) (guard_release st))
      | InTimer PongDeadline \<Rightarrow>
          map_option (\<lambda>(res, st). Ended (PongTimeout, res, st)) (close_normally E cfg (m @ [0]) (guard_release st))
      | InTimer PingDue \<Rightarrow> Some (Again st)
      | InOutbound (Push msg) \<Rightarrow>
          Option.bind (send_bounded E cfg (m @ [0]) (to_tungstenite_message msg) (ws_log [Took (Push msg)] st)) (\<lambda>(outcome, st).
            if outcome = Sent then Some (Again st) else map_option Ended (end_send E cfg (m @ [1]) outcome st))
      | InOutbound (CloseItem code reason) \<Rightarrow>
          (case close_bound_deadline E cfg (m @ [0]) (ws_log [Took (CloseItem code reason)] st) of
             (deadline, st) \<Rightarrow> map_option Ended (end_sender_close E (m @ [1]) code reason deadline st))
      | InMessage None \<Rightarrow> Some (Ended (Eof, Ok (), st))
      | InMessage (Some (Err err)) \<Rightarrow>
          (if sf_reason (failure_recv err :: 'x SessionFailure) = MessageTooLarge then
             (case close_bound_deadline E cfg (m @ [0]) st of
                (deadline, st) \<Rightarrow>
                  map_option (\<lambda>st. Ended (failure_parts (failure_recv err) st))
                    (handle_message_too_big E (m @ [1]) deadline (guard_release st)))
           else Some (Ended (failure_parts (failure_recv err) st)))
      | InMessage (Some (Ok frame)) \<Rightarrow> session_message E cfg m frame st)"

definition session_turn :: "'x WsEnv \<Rightarrow> ('h, 'c) WebSocketConfig \<Rightarrow> nat \<Rightarrow> 'x Session \<Rightarrow> 'x Turn option" where
  "session_turn E cfg n st =
     Option.bind (ping_turn E cfg [n, 0] st) (\<lambda>turn.
       case turn of
         Ended e \<Rightarrow> Some (Ended e)
       | Again st \<Rightarrow>
           Option.bind (session_wait E [n, 1] st) (\<lambda>(event, st).
             case event of
               None \<Rightarrow> map_option Ended (end_cancelled E cfg [n, 2] (if ss_rx st then guard_release st else st))
             | Some event \<Rightarrow> session_event E cfg [n, 3] event st))"

partial_function (option) session_loop :: "'x WsEnv \<Rightarrow> ('h, 'c) WebSocketConfig \<Rightarrow> nat \<Rightarrow> 'x Session \<Rightarrow> 'x ended option" where
  "session_loop E cfg n st =
     Option.bind (session_turn E cfg n st) (\<lambda>turn.
       case turn of Ended e \<Rightarrow> Some e | Again st \<Rightarrow> session_loop E cfg (Suc n) st)"

definition session_new :: "'x WsEnv \<Rightarrow> ('h, 'c) WebSocketConfig \<Rightarrow> bool \<Rightarrow> 'x Session" where
  "session_new E cfg outbound =
     \<lparr>ss_rx = outbound, ss_close_deadline = None,
      ss_idle_deadline = map_option (\<lambda>d. we_now E [0, 0] + d) (wsc_idle_timeout cfg),
      ss_keepalive = map_option (keepalive_new (we_instant_max E) (we_now E [0, 1])) (wsc_ping cfg),
      ss_prefer_outbound = False, ss_trace = []\<rparr>"

definition run_session_inner :: "'x WsEnv \<Rightarrow> ('h, 'c) WebSocketConfig \<Rightarrow> bool \<Rightarrow> 'x ended option" where
  "run_session_inner E cfg outbound = session_loop E cfg 1 (session_new E cfg outbound)"

text \<open>The guard seals the queue again when it goes out of scope; then the handler learns of the end.\<close>

definition run_session :: "'x WsEnv \<Rightarrow> ('h, 'c) WebSocketConfig \<Rightarrow> bool \<Rightarrow> (('x WsError + unit) \<times> 'x Session) option" where
  "run_session E cfg outbound =
     map_option (\<lambda>(reason, result, st). (result, ws_log [OnClose reason] (guard_seal st))) (run_session_inner E cfg outbound)"

end
