(* ===== verification/Ws_Session_Spec.thy ===== *)
theory Ws_Session_Spec
  imports Ws_Session
begin

text \<open>
  What a WebSocket session puts on the wire, in which order, and how it ends: properties of the traces of
  \<open>run_session\<close>, for every environment.
\<close>

section \<open>Shapes of traces\<close>

fun is_ping :: "WsFrame \<Rightarrow> bool" where
  "is_ping (PingFrame _) = True"
| "is_ping _ = False"

definition data_of :: "WsFrame \<Rightarrow> WsFrame list" where
  "data_of f = (if is_ping f then [] else [f])"

text \<open>The data frames that were written completely, and the frames that the pushes taken from the queue and the replies
  of the handler ask for.\<close>

fun data_sent1 :: "'x WsEvent \<Rightarrow> WsFrame list" where
  "data_sent1 (SendFrame f ok) = (if ok then data_of f else [])"
| "data_sent1 _ = []"

fun expected1 :: "'x WsEvent \<Rightarrow> WsFrame list" where
  "expected1 (Took (Push m)) = [to_tungstenite_message m]"
| "expected1 (ReplyStarts ms) = map to_tungstenite_message ms"
| "expected1 _ = []"

definition data_sent :: "'x WsEvent list \<Rightarrow> WsFrame list" where
  "data_sent es = concat (map data_sent1 es)"

definition expected :: "'x WsEvent list \<Rightarrow> WsFrame list" where
  "expected es = concat (map expected1 es)"

text \<open>Events of a session that is still open, and of one that only closes.\<close>

fun open_event :: "'x WsEvent \<Rightarrow> bool" where
  "open_event (SendFrame f ok) = ok"
| "open_event (Took (CloseItem _ _)) = False"
| "open_event (CloseStarted _) = False"
| "open_event (OnClose _) = False"
| "open_event _ = True"

fun closing_event :: "'x WsEvent \<Rightarrow> bool" where
  "closing_event (Received _) = True"
| "closing_event Sealed = True"
| "closing_event RxReleased = True"
| "closing_event (CloseStarted _) = True"
| "closing_event _ = False"

definition balanced :: "'x WsEvent list \<Rightarrow> bool" where
  "balanced es \<longleftrightarrow> list_all open_event es \<and> data_sent es = expected es"

text \<open>A send that did not complete; what was sent before it is a part, in order, of what was asked for.\<close>

definition broken :: "'x WsEvent list \<Rightarrow> bool" where
  "broken es \<longleftrightarrow> (\<exists>pre f rest. es = pre @ [SendFrame f False] \<and> list_all open_event pre \<and>
     expected pre = data_sent pre @ data_of f @ rest)"

definition last_part :: "(nat \<times> bytes) option \<Rightarrow> 'x WsEvent list \<Rightarrow> bool" where
  "last_part c es =
     (case c of Some (code, reason) \<Rightarrow> es = [Took (CloseItem code reason)] | None \<Rightarrow> es = [] \<or> broken es)"

definition stopped :: "(nat \<times> bytes) option \<Rightarrow> 'x WsEvent list \<Rightarrow> bool" where
  "stopped c es \<longleftrightarrow> (\<exists>bal final quiet. es = bal @ final @ quiet \<and> balanced bal \<and> last_part c final \<and> list_all closing_event quiet)"

lemma events_simps [simp]:
  "data_sent [] = []" "data_sent (e # es) = data_sent1 e @ data_sent es" "data_sent (es @ fs) = data_sent es @ data_sent fs"
  "expected [] = []" "expected (e # es) = expected1 e @ expected es" "expected (es @ fs) = expected es @ expected fs"
  by (simp_all add: data_sent_def expected_def)

lemma is_ping_message [simp]: "data_of (to_tungstenite_message m) = [to_tungstenite_message m]"
  by (simp add: to_tungstenite_message_def data_of_def split: WsMessage.split)

lemma balanced_Nil [simp]: "balanced []"
  by (simp add: balanced_def)

lemma balanced_append: "balanced a \<Longrightarrow> balanced b \<Longrightarrow> balanced (a @ b)"
  by (simp add: balanced_def)

lemma stopped_prepend: "balanced a \<Longrightarrow> stopped c b \<Longrightarrow> stopped c (a @ b)"
  unfolding stopped_def by (metis append.assoc balanced_append)

lemma stopped_extend: "stopped c a \<Longrightarrow> list_all closing_event b \<Longrightarrow> stopped c (a @ b)"
  unfolding stopped_def by (metis append.assoc list_all_append)

lemma stopped_broken: "broken es \<Longrightarrow> stopped None es"
  unfolding stopped_def by (intro exI [of _ "[]"] exI [of _ es]) (simp add: last_part_def)

lemma stopped_close: "stopped (Some (code, reason)) [Took (CloseItem code reason)]"
  unfolding stopped_def by (intro exI [of _ "[]"] exI [of _ "[Took (CloseItem code reason)]"]) (simp add: last_part_def)

lemma stopped_quiet: "list_all closing_event es \<Longrightarrow> stopped None es"
  unfolding stopped_def by (intro exI [of _ "[]"] exI [of _ es]) (simp add: last_part_def)

section \<open>Additions to the trace\<close>

fun no_ping :: "'x WsEvent \<Rightarrow> bool" where
  "no_ping (SendFrame f _) = (\<not> is_ping f)"
| "no_ping (Received _) = False"
| "no_ping _ = True"

definition adds :: "'x Session \<Rightarrow> 'x Session \<Rightarrow> 'x WsEvent list \<Rightarrow> bool" where
  "adds st st' es \<longleftrightarrow> ss_trace st' = ss_trace st @ es \<and> ss_keepalive st' = ss_keepalive st"

lemma adds_refl [simp]: "adds st st []"
  by (simp add: adds_def)

lemma adds_trans: "adds st st1 es \<Longrightarrow> adds st1 st2 fs \<Longrightarrow> adds st st2 (es @ fs)"
  by (simp add: adds_def)

lemma adds_log [simp]: "adds st (ws_log es st) es"
  by (simp add: adds_def ws_log_def)

lemma adds_release: "adds st (guard_release st) [Sealed, RxReleased]"
  by (simp add: adds_def guard_release_def guard_seal_def ws_log_def)

lemma send_bounded_adds:
  "send_bounded E cfg m f st = Some (outcome, st') \<Longrightarrow> adds st st' [SendFrame f (outcome = Sent)]"
  by (auto simp: send_bounded_def Let_def adds_def ws_log_def close_bound_polled_def split: if_splits option.splits sum.splits)

lemma deadline_adds: "close_bound_deadline E cfg m st = (d, st') \<Longrightarrow> adds st st' []"
  by (auto simp: close_bound_deadline_def Let_def close_bound_observe_def adds_def)

text \<open>What a handler's turn has added when it ends with a flow.\<close>

definition flow_close :: "'x SessionFailure + SessionFlow \<Rightarrow> (nat \<times> bytes) option" where
  "flow_close flow = (case flow of Ok (FlowSenderClose code reason _) \<Rightarrow> Some (code, reason) | _ \<Rightarrow> None)"

definition flow_trace :: "'x SessionFailure + SessionFlow \<Rightarrow> 'x WsEvent list \<Rightarrow> bool" where
  "flow_trace flow es \<longleftrightarrow> list_all no_ping es \<and> (if flow = Ok FlowContinue then balanced es else stopped (flow_close flow) es)"

lemma flow_trace_prepend: "balanced a \<Longrightarrow> list_all no_ping a \<Longrightarrow> flow_trace flow b \<Longrightarrow> flow_trace flow (a @ b)"
  by (auto simp: flow_trace_def balanced_append stopped_prepend)

lemma send_flow_close: "send_flow outcome = Some flow \<Longrightarrow> outcome \<noteq> Sent \<and> flow_close flow = None \<and> flow \<noteq> Ok FlowContinue"
  by (auto simp: send_flow_def flow_close_def split: SendOutcome.splits)

lemma message_not_ping [simp]: "\<not> is_ping (to_tungstenite_message m)"
  by (simp add: to_tungstenite_message_def split: WsMessage.split)

lemma push_balanced: "balanced [Took (Push msg), SendFrame (to_tungstenite_message msg) True]"
  by (simp add: balanced_def)

lemma push_broken: "broken [Took (Push msg), SendFrame (to_tungstenite_message msg) False]"
  unfolding broken_def by (intro exI [of _ "[Took (Push msg)]"]) simp

text \<open>A push that was taken and sent, or not.\<close>

lemma push_adds:
  assumes "send_bounded E cfg m (to_tungstenite_message msg) (ws_log [Took (Push msg)] st) = Some (outcome, st')"
  shows "adds st st' [Took (Push msg), SendFrame (to_tungstenite_message msg) (outcome = Sent)]"
    and "send_flow outcome = Some flow \<Longrightarrow> flow_trace flow [Took (Push msg), SendFrame (to_tungstenite_message msg) (outcome = Sent)]"
  using adds_trans [OF adds_log send_bounded_adds [OF assms]] stopped_broken [OF push_broken, of msg]
  by (auto simp: flow_trace_def dest: send_flow_close)

lemma send_flow_None [simp]: "send_flow outcome = None \<longleftrightarrow> outcome = Sent"
  by (auto simp: send_flow_def split: SendOutcome.splits)

section \<open>Replies\<close>

lemma send_replies_adds:
  fixes flow :: "'x SessionFailure + SessionFlow"
  assumes "send_replies E cfg m i msgs st = Some (flow, st')"
  shows "if flow = Ok FlowContinue then adds st st' (map (\<lambda>msg. SendFrame (to_tungstenite_message msg) True) msgs)
    else flow_close flow = None \<and> (\<exists>done msg rest. msgs = done @ msg # rest \<and>
      adds st st' (map (\<lambda>msg. SendFrame (to_tungstenite_message msg) True) done @ [SendFrame (to_tungstenite_message msg) False]))"
  using assms
proof (induction E cfg m i msgs st rule: send_replies.induct)
  case (2 E cfg m i msg msgs st)
  obtain outcome st1 where send: "send_bounded E cfg (m @ [i]) (to_tungstenite_message msg) st = Some (outcome, st1)"
    and cont: "(case send_flow outcome of Some flow \<Rightarrow> Some (flow, st1) | None \<Rightarrow> send_replies E cfg m (Suc i) msgs st1) = Some (flow, st')"
    using 2(2) by (auto simp: bind_eq_Some_conv)
  show ?case
  proof (cases "send_flow outcome :: ('x SessionFailure + SessionFlow) option")
    case None
    then have "outcome = Sent" by (auto simp: send_flow_def split: SendOutcome.splits)
    then have first: "adds st st1 [SendFrame (to_tungstenite_message msg) True]" using send_bounded_adds [OF send] by simp
    have IH: "if flow = Ok FlowContinue then adds st1 st' (map (\<lambda>msg. SendFrame (to_tungstenite_message msg) True) msgs)
      else flow_close flow = None \<and> (\<exists>done msg rest. msgs = done @ msg # rest \<and>
        adds st1 st' (map (\<lambda>msg. SendFrame (to_tungstenite_message msg) True) done @ [SendFrame (to_tungstenite_message msg) False]))"
      using 2(1) [OF send refl None] cont None by simp
    then show ?thesis
      using adds_trans [OF first] by (fastforce split: if_splits intro: exI [of _ "msg # _"])
  next
    case (Some flow')
    then have "flow = flow'" "st' = st1" using cont by auto
    then show ?thesis
      using send_bounded_adds [OF send] send_flow_close [OF Some] by (auto intro!: exI [of _ "[]"])
  qed
qed simp

lemma replies_balanced: "balanced (ReplyStarts ms # map (\<lambda>msg. SendFrame (to_tungstenite_message msg) True) ms)"
  by (induction ms) (auto simp: balanced_def)

lemma replies_broken:
  "broken (ReplyStarts (done @ msg # rest) # map (\<lambda>msg. SendFrame (to_tungstenite_message msg) True) done @
     [SendFrame (to_tungstenite_message msg) False])"
proof -
  let ?pre = "ReplyStarts (done @ msg # rest) # map (\<lambda>msg. SendFrame (to_tungstenite_message msg) True) done"
  have "data_sent (map (\<lambda>msg. SendFrame (to_tungstenite_message msg) True :: 'a WsEvent) done) = map to_tungstenite_message done"
    "expected (map (\<lambda>msg. SendFrame (to_tungstenite_message msg) True :: 'a WsEvent) done) = []"
    by (induction "done") simp_all
  then show ?thesis
    unfolding broken_def
    by (intro exI [of _ ?pre] exI [of _ "to_tungstenite_message msg"] exI [of _ "map to_tungstenite_message rest"])
      (simp add: list_all_iff)
qed

lemma replies_no_ping: "list_all no_ping (map (\<lambda>msg. SendFrame (to_tungstenite_message msg) True :: 'x WsEvent) ms)"
  by (simp add: list_all_iff)

lemma send_replies_flow:
  assumes "send_replies E cfg m i msgs (ws_log [ReplyStarts msgs] st) = Some (flow, st')"
  shows "\<exists>es. adds st st' es \<and> flow_trace flow es"
proof (cases "flow = Ok FlowContinue")
  case True
  then show ?thesis
    using adds_trans [OF adds_log] send_replies_adds [OF assms] replies_balanced [of msgs] replies_no_ping [of msgs]
    by (fastforce simp: flow_trace_def)
next
  case False
  then obtain ds msg rest where m: "msgs = ds @ msg # rest" "flow_close flow = None"
    "adds (ws_log [ReplyStarts msgs] st) st' (map (\<lambda>msg. SendFrame (to_tungstenite_message msg) True) ds @ [SendFrame (to_tungstenite_message msg) False])"
    using send_replies_adds [OF assms] by auto
  then show ?thesis
    using adds_trans [OF adds_log m(3)] False stopped_broken [OF replies_broken [of ds msg rest]] replies_no_ping [of ds]
    by (fastforce simp: flow_trace_def)
qed

section \<open>Drains\<close>

definition drained_trace :: "'x SessionFailure + SessionFlow option \<Rightarrow> 'x WsEvent list \<Rightarrow> bool" where
  "drained_trace drained es =
     (case drained of
        Ok None \<Rightarrow> balanced es \<and> list_all no_ping es
      | Ok (Some flow) \<Rightarrow> flow \<noteq> FlowContinue \<and> flow_trace (Ok flow :: 'x SessionFailure + SessionFlow) es
      | Err failure \<Rightarrow> flow_trace (Err failure) es)"

lemma drained_prepend:
  "balanced a \<Longrightarrow> list_all no_ping a \<Longrightarrow> drained_trace drained b \<Longrightarrow> drained_trace drained (a @ b)"
  by (auto simp: drained_trace_def balanced_append intro: flow_trace_prepend split: sum.splits option.splits)

lemma drained_of_flow: "flow_trace flow es \<Longrightarrow> flow \<noteq> Ok FlowContinue \<Longrightarrow> drained_trace (map_sum id Some flow) es"
  by (cases flow) (auto simp: drained_trace_def)

lemma close_item_flow:
  assumes "close_bound_deadline E cfg m (ws_log [Took (CloseItem code reason)] st) = (d, st')"
  shows "adds st st' [Took (CloseItem code reason)]"
    and "flow_trace (Ok (FlowSenderClose code reason d)) [Took (CloseItem code reason)]"
  using adds_trans [OF adds_log deadline_adds [OF assms]] stopped_close [of code reason] by (simp_all add: flow_trace_def flow_close_def)

lemma release_balanced: "balanced [Sealed, RxReleased]" "list_all no_ping [Sealed, RxReleased]"
  by (simp_all add: balanced_def)

lemma push_event_facts: "balanced [Took (Push msg), SendFrame (to_tungstenite_message msg) True]"
  "list_all no_ping [Took (Push msg), SendFrame (to_tungstenite_message msg) ok]"
  using push_balanced by simp_all

text \<open>One item of the queue, in the form in which the drains treat it.\<close>

lemma drain_push:
  fixes k :: "'x Session \<Rightarrow> 'x drained option"
  assumes "Option.bind (send_bounded E cfg m (to_tungstenite_message msg) (ws_log [Took (Push msg)] st)) (\<lambda>(outcome, st).
      case send_flow outcome of Some flow \<Rightarrow> Some (map_sum id Some flow, st) | None \<Rightarrow> k st) = Some (drained, st')"
    and "\<And>st1. k st1 = Some (drained, st') \<Longrightarrow> \<exists>es. adds st1 st' es \<and> drained_trace drained es"
  shows "\<exists>es. adds st st' es \<and> drained_trace drained es"
proof -
  obtain outcome st1 where send: "send_bounded E cfg m (to_tungstenite_message msg) (ws_log [Took (Push msg)] st) = Some (outcome, st1)"
    and cont: "(case send_flow outcome of Some flow \<Rightarrow> Some (map_sum id Some flow, st1) | None \<Rightarrow> k st1) = Some (drained, st')"
    using assms(1) by (auto simp: bind_eq_Some_conv)
  show ?thesis
  proof (cases "send_flow outcome :: ('x SessionFailure + SessionFlow) option")
    case None
    then have "adds st st1 [Took (Push msg), SendFrame (to_tungstenite_message msg) True]"
      using push_adds(1) [OF send] by simp
    moreover obtain es where "adds st1 st' es" "drained_trace drained es" using assms(2) [of st1] cont None by auto
    ultimately show ?thesis using adds_trans drained_prepend [OF push_event_facts] by blast
  next
    case (Some flow)
    then show ?thesis
      using push_adds(1,2) [OF send] cont drained_of_flow send_flow_close [OF Some] by fastforce
  qed
qed

lemma drain_step:
  fixes k :: "'x Session \<Rightarrow> 'x drained option"
  assumes "(if \<not> ss_rx st then Some (Ok None, st)
      else case tried of
        TryItem (Push msg) \<Rightarrow>
          Option.bind (send_bounded E cfg m (to_tungstenite_message msg) (ws_log [Took (Push msg)] st)) (\<lambda>(outcome, st).
            case send_flow outcome of Some flow \<Rightarrow> Some (map_sum id Some flow, st) | None \<Rightarrow> k st)
      | TryItem (CloseItem code reason) \<Rightarrow>
          (case close_bound_deadline E cfg m' (ws_log [Took (CloseItem code reason)] st) of
             (deadline, st) \<Rightarrow> Some (Ok (Some (FlowSenderClose code reason deadline)), st))
      | TryEmpty \<Rightarrow> Some (Ok None, st)
      | TryDisconnected \<Rightarrow> Some (Ok None, guard_release st)) = Some (drained, st')"
    and "\<And>st1. k st1 = Some (drained, st') \<Longrightarrow> \<exists>es. adds st1 st' es \<and> drained_trace drained es"
  shows "\<exists>es. adds st st' es \<and> drained_trace drained es"
proof (cases "ss_rx st")
  case rx: True
  show ?thesis
  proof (cases tried)
    case (TryItem item)
    show ?thesis
    proof (cases item)
      case (Push msg)
      then show ?thesis using drain_push [OF _ assms(2)] assms(1) rx TryItem by auto
    next
      case (CloseItem code reason)
      obtain d st1 where d: "close_bound_deadline E cfg m' (ws_log [Took (CloseItem code reason)] st) = (d, st1)" by fastforce
      then show ?thesis using close_item_flow [OF d] assms(1) rx TryItem CloseItem by (auto simp: drained_trace_def)
    qed
  next
    case TryDisconnected
    then show ?thesis using assms(1) rx adds_release [of st] release_balanced by (auto simp: drained_trace_def)
  qed (use assms(1) rx in \<open>auto simp: drained_trace_def intro: exI [of _ "[]"]\<close>)
qed (use assms(1) in \<open>auto simp: drained_trace_def intro: exI [of _ "[]"]\<close>)

lemma drain_before_reply_adds:
  "drain_before_reply E cfg m left st = Some (drained, st') \<Longrightarrow> \<exists>es. adds st st' es \<and> drained_trace drained es"
proof (induction left arbitrary: st)
  case 0
  then show ?case by (auto simp: drained_trace_def intro: exI [of _ "[]"])
next
  case (Suc left)
  then show ?case using drain_step [OF Suc.prems [unfolded drain_before_reply.simps] Suc.IH] by blast
qed

lemma drain_to_close_adds:
  assumes "drain_to_close E cfg m i st = Some (drained, st')"
  shows "\<exists>es. adds st st' es \<and> drained_trace drained es"
proof -
  let ?P = "\<lambda>E cfg m i st out. \<exists>es. adds st (snd out) es \<and> drained_trace (fst out) es"
  have "?P E cfg m i st (drained, st')"
  proof (rule drain_to_close.raw_induct [where P = ?P, OF _ assms], goal_cases)
    case (1 f E cfg m i st out)
    obtain drained st' where out: "out = (drained, st')" by fastforce
    then show ?case using drain_step [OF 1(2) [unfolded out]] 1(1) by fastforce
  qed
  then show ?thesis by simp
qed

definition flush_trace :: "'x SessionFailure + FlushOutcome \<Rightarrow> 'x WsEvent list \<Rightarrow> bool" where
  "flush_trace flushed es \<longleftrightarrow> list_all no_ping es \<and>
     (case flushed of
        Ok FlushDone \<Rightarrow> balanced es
      | Ok (FlushSenderClose code reason _) \<Rightarrow> stopped (Some (code, reason)) es
      | _ \<Rightarrow> stopped None es)"

lemma flush_prepend: "balanced a \<Longrightarrow> list_all no_ping a \<Longrightarrow> flush_trace flushed b \<Longrightarrow> flush_trace flushed (a @ b)"
  by (auto simp: flush_trace_def balanced_append stopped_prepend split: sum.splits FlushOutcome.splits)

lemma adds_log_eq: "adds (ws_log es st) st' fs \<Longrightarrow> adds st st' (es @ fs)"
  using adds_trans [OF adds_log] .

lemma flush_loop_adds:
  assumes "flush_loop E m i d st = Some (flushed, st')"
  shows "\<exists>es. adds st st' es \<and> flush_trace flushed es"
proof -
  let ?P = "\<lambda>E m i d st out. \<exists>es. adds st (snd out) es \<and> flush_trace (fst out) es"
  have "?P E m i d st (flushed, st')"
  proof (rule flush_loop.raw_induct [where P = ?P, OF _ assms], goal_cases)
    case (1 f E m i d st out)
    show ?case
    proof (cases "\<exists>msg. we_try_recv E (m @ [i, 0]) = TryItem (Push msg)")
      case True
      then obtain msg where msg: "we_try_recv E (m @ [i, 0]) = TryItem (Push msg)" by blast
      let ?f = "to_tungstenite_message msg" and ?r = "we_ready E (m @ [i, 1])"
      have cut: "\<exists>es. adds st (ws_log [SendFrame ?f False] (ws_log [Took (Push msg)] st)) es \<and>
          (\<forall>flushed :: _ + FlushOutcome. flushed \<in> {Ok FlushCancelled, Ok FlushTimedOut} \<union> range Inl \<longrightarrow> flush_trace flushed es)"
        using adds_log_eq [OF adds_log [of "ws_log [Took (Push msg)] st" "[SendFrame ?f False]"]] stopped_broken [OF push_broken, of msg]
        by (auto simp: flush_trace_def)
      show ?thesis
      proof (cases "\<not> rd_cancel ?r \<and> (\<exists>u. rd_written ?r = Some (Ok u))")
        case True
        then have "f E m (Suc i) d (ws_log [SendFrame ?f True] (ws_log [Took (Push msg)] st)) = Some out"
          using 1(2) msg by (auto simp: Let_def)
        from 1(1) [OF this] obtain es where "adds (ws_log [SendFrame ?f True] (ws_log [Took (Push msg)] st)) (snd out) es" "flush_trace (fst out) es"
          by blast
        then have "adds st (snd out) ([Took (Push msg), SendFrame ?f True] @ es)" "flush_trace (fst out) ([Took (Push msg), SendFrame ?f True] @ es)"
          using adds_log_eq [OF adds_log_eq] flush_prepend [OF push_event_facts(1) push_event_facts(2)] by force+
        then show ?thesis by blast
      next
        case False
        then have "snd out = ws_log [SendFrame ?f False] (ws_log [Took (Push msg)] st) \<and>
            fst out \<in> {Ok FlushCancelled, Ok FlushTimedOut} \<union> range Inl"
          using 1(2) msg by (auto simp: Let_def split: if_splits option.splits sum.splits)
        with cut show ?thesis by metis
      qed
    next
      case False
      show ?thesis
      proof (cases "\<exists>code reason. we_try_recv E (m @ [i, 0]) = TryItem (CloseItem code reason)")
        case True
        then obtain code reason where "we_try_recv E (m @ [i, 0]) = TryItem (CloseItem code reason)" by blast
        then have "out = (Ok (FlushSenderClose code reason d), ws_log [Took (CloseItem code reason)] st)" using 1(2) by simp
        then show ?thesis
          by (intro exI [of _ "[Took (CloseItem code reason)]"]) (simp add: flush_trace_def stopped_close)
      next
        case False
        with \<open>\<nexists>msg. we_try_recv E (m @ [i, 0]) = TryItem (Push msg)\<close> have "out = (Ok FlushDone, st)"
          using 1(2) by (auto split: TryRecv.splits OutboundItem.splits)
        then show ?thesis by (intro exI [of _ "[]"]) (simp add: flush_trace_def)
      qed
    qed
  qed
  then show ?thesis by simp
qed

lemma flush_outbound_adds:
  assumes "flush_outbound E cfg m d st = Some (flushed, st')"
  shows "\<exists>es. adds st st' es \<and> flush_trace flushed es"
proof -
  let ?st = "guard_seal (close_bound_observe E cfg (m @ [0]) st)"
  have seal: "adds st ?st [Sealed]" by (simp add: adds_def guard_seal_def ws_log_def close_bound_observe_def)
  have sealed: "balanced [Sealed]" "list_all no_ping [Sealed]" by (simp_all add: balanced_def)
  show ?thesis
  proof (cases "ss_rx ?st")
    case True
    then have "flush_loop E (m @ [1]) 0 (case ss_close_deadline (close_bound_observe E cfg (m @ [0]) st) of
        Some observed \<Rightarrow> min observed d | None \<Rightarrow> d) ?st = Some (flushed, st')"
      using assms unfolding flush_outbound_def Let_def by simp
    from flush_loop_adds [OF this] show ?thesis using adds_trans [OF seal] flush_prepend [OF sealed] by blast
  next
    case False
    then have "st' = ?st" "flushed = Ok FlushDone" using assms unfolding flush_outbound_def Let_def by simp_all
    then show ?thesis using seal sealed by (intro exI [of _ "[Sealed]"]) (simp add: flush_trace_def)
  qed
qed

section \<open>The handler's turn\<close>

lemma apply_close_adds:
  assumes "apply_close E cfg m d st = Some (flow, st')"
  shows "\<exists>es. adds st st' es \<and> flow_trace flow es"
proof -
  obtain flushed st1 where flush: "flush_outbound E cfg (m @ [0]) d st = Some (flushed, st1)"
    and cont: "(case flushed of
         Err failure \<Rightarrow> Some (Err failure, st1)
       | Ok FlushCancelled \<Rightarrow> Some (Ok FlowCancelled, st1)
       | Ok FlushTimedOut \<Rightarrow> Some (Ok FlowClosed, st1)
       | Ok (FlushSenderClose code reason deadline) \<Rightarrow> Some (Ok (FlowSenderClose code reason deadline), st1)
       | Ok FlushDone \<Rightarrow>
           (let st = ws_log [CloseStarted None] st1;
                r = we_ready E (m @ [1])
            in if rd_cancel r then Some (Ok FlowCancelled, st)
               else case rd_written r of
                 Some (Ok _) \<Rightarrow> Some (Ok FlowClosed, st)
               | Some (Err err) \<Rightarrow> Some (Err (failure_send err), st)
               | None \<Rightarrow> if we_elapsed E (m @ [1]) d then Some (Ok FlowClosed, st) else None)) = Some (flow, st')"
    using assms by (auto simp: apply_close_def bind_eq_Some_conv)
  obtain es where es: "adds st st1 es" "flush_trace flushed es" using flush_outbound_adds [OF flush] by blast
  show ?thesis
  proof (cases "flushed = Ok FlushDone")
    case True
    then have "st' = ws_log [CloseStarted None] st1" "flow_close flow = None" "flow \<noteq> Ok FlowContinue"
      using cont by (auto simp: Let_def flow_close_def split: if_splits option.splits sum.splits)
    moreover have "stopped None (es @ [CloseStarted None])"
      using es(2) True stopped_prepend [OF _ stopped_quiet [of "[CloseStarted None]"], of es] by (simp add: flush_trace_def)
    ultimately show ?thesis
      using adds_trans [OF es(1) adds_log [of st1 "[CloseStarted None]"]] es(2)
      by (intro exI [of _ "es @ [CloseStarted None]"]) (auto simp: flow_trace_def flush_trace_def)
  next
    case False
    then show ?thesis
      using cont es by (intro exI [of _ es]) (auto simp: flow_trace_def flush_trace_def flow_close_def split: sum.splits FlushOutcome.splits)
  qed
qed

text \<open>A drain, and what follows it when nothing stopped it.\<close>

lemma after_drain:
  assumes "Option.bind x (\<lambda>(drained, st). case drained of
      Err failure \<Rightarrow> Some (Err failure, st) | Ok (Some flow) \<Rightarrow> Some (Ok flow, st) | Ok None \<Rightarrow> k st) = Some (flow, st')"
    and "\<And>drained st1. x = Some (drained, st1) \<Longrightarrow> \<exists>es. adds st st1 es \<and> drained_trace drained es"
    and "\<And>st1. k st1 = Some (flow, st') \<Longrightarrow> \<exists>es. adds st1 st' es \<and> flow_trace flow es"
  shows "\<exists>es. adds st st' es \<and> flow_trace flow es"
proof -
  obtain drained st1 where x: "x = Some (drained, st1)" and cont: "(case drained of
      Err failure \<Rightarrow> Some (Err failure, st1) | Ok (Some flow) \<Rightarrow> Some (Ok flow, st1) | Ok None \<Rightarrow> k st1) = Some (flow, st')"
    using assms(1) by (auto simp: bind_eq_Some_conv)
  obtain es where es: "adds st st1 es" "drained_trace drained es" using assms(2) [OF x] by blast
  show ?thesis
  proof (cases "drained = Ok None")
    case True
    then obtain fs where "adds st1 st' fs" "flow_trace flow fs" using assms(3) [of st1] cont by auto
    then show ?thesis using es True adds_trans flow_trace_prepend by (fastforce simp: drained_trace_def)
  next
    case False
    then show ?thesis using es cont by (auto simp: drained_trace_def split: sum.splits option.splits)
  qed
qed

lemma apply_reply_adds:
  assumes "apply_reply E cfg m messages st = Some (flow, st')"
  shows "\<exists>es. adds st st' es \<and> flow_trace flow es"
proof (rule after_drain [OF assms [unfolded apply_reply_def]])
  fix drained st1
  assume "(if we_close_committed E (m @ [0]) then drain_to_close E cfg (m @ [1]) 0 st else Some (Ok None, st)) = Some (drained, st1)"
  then show "\<exists>es. adds st st1 es \<and> drained_trace drained es"
    using drain_to_close_adds by (fastforce split: if_splits simp: drained_trace_def intro: exI [of _ "[]"])
qed (rule send_replies_flow)

lemma apply_outcome_adds:
  "apply_outcome E cfg m outcome d st = Some (flow, st') \<Longrightarrow> \<exists>es. adds st st' es \<and> flow_trace flow es"
  using apply_reply_adds apply_close_adds by (fastforce simp: apply_outcome_def split: WsOutcome.splits)

lemma after_handler_adds:
  assumes "after_handler E cfg m outcome st = Some (flow, st')"
  shows "\<exists>es. adds st st' es \<and> flow_trace flow es"
proof (cases outcome)
  case (Inl err)
  then obtain flushed st1 where flush: "flush_outbound E cfg (m @ [2]) (we_now E (m @ [1]) + wsc_close_grace cfg) st = Some (flushed, st1)"
    and cont: "(case flushed of Ok FlushCancelled \<Rightarrow> Some (Ok FlowCancelled, st1)
       | Ok (FlushSenderClose code reason deadline) \<Rightarrow> Some (Ok (FlowSenderClose code reason deadline), st1)
       | _ \<Rightarrow> Some (Err (failure_handler err), st1)) = Some (flow, st')"
    using assms by (auto simp: after_handler_def bind_eq_Some_conv)
  obtain es where es: "adds st st1 es" "flush_trace flushed es" using flush_outbound_adds [OF flush] by blast
  have "balanced es \<Longrightarrow> stopped None es" using stopped_prepend [OF _ stopped_quiet [of "[]"], of es] by simp
  then show ?thesis
    using cont es by (intro exI [of _ es]) (auto simp: flow_trace_def flush_trace_def flow_close_def split: sum.splits FlushOutcome.splits)
next
  case (Inr out)
  show ?thesis
  proof (cases out)
    case (Reply messages)
    then have "Option.bind (drain_before_reply E cfg (m @ [0]) (wsc_outbound_capacity cfg) st) (\<lambda>(drained, st).
        case drained of Err failure \<Rightarrow> Some (Err failure, st) | Ok (Some flow) \<Rightarrow> Some (Ok flow, st)
        | Ok None \<Rightarrow> apply_outcome E cfg (m @ [2]) (Reply messages) (we_now E (m @ [1]) + wsc_close_grace cfg) st) = Some (flow, st')"
      using assms Inr by (simp add: after_handler_def)
    then show ?thesis by (rule after_drain) (use drain_before_reply_adds apply_outcome_adds in blast)+
  next
    case CloseOutcome
    then show ?thesis using assms Inr apply_outcome_adds by (fastforce simp: after_handler_def)
  qed
qed

lemma log_then_flow:
  assumes "\<exists>es. adds (ws_log a st) st' es \<and> flow_trace flow es" "balanced a" "list_all no_ping a"
  shows "\<exists>es. adds st st' es \<and> flow_trace flow es"
  using assms adds_log_eq flow_trace_prepend by blast

lemma push_then:
  fixes flow :: "'x SessionFailure + SessionFlow" and k :: "'x Session \<Rightarrow> 'x flow option"
  assumes "Option.bind (send_bounded E cfg m (to_tungstenite_message msg) (ws_log [Took (Push msg)] st)) (\<lambda>(outcome, st).
      case send_flow outcome of Some flow \<Rightarrow> Some (flow, st) | None \<Rightarrow> k st) = Some (flow, st')"
    and "\<And>st1. k st1 = Some (flow, st') \<Longrightarrow> \<exists>es. adds st1 st' es \<and> flow_trace flow es"
  shows "\<exists>es. adds st st' es \<and> flow_trace flow es"
proof -
  obtain outcome st1 where send: "send_bounded E cfg m (to_tungstenite_message msg) (ws_log [Took (Push msg)] st) = Some (outcome, st1)"
    and cont: "(case send_flow outcome of Some flow \<Rightarrow> Some (flow, st1) | None \<Rightarrow> k st1) = Some (flow, st')"
    using assms(1) by (auto simp: bind_eq_Some_conv)
  show ?thesis
  proof (cases "send_flow outcome :: ('x SessionFailure + SessionFlow) option")
    case None
    then have "adds st st1 [Took (Push msg), SendFrame (to_tungstenite_message msg) True]" using push_adds(1) [OF send] by simp
    moreover obtain es where "adds st1 st' es" "flow_trace flow es" using assms(2) [of st1] cont None by auto
    ultimately show ?thesis using adds_trans flow_trace_prepend [OF push_event_facts] by blast
  next
    case (Some flow')
    then show ?thesis using push_adds(1,2) [OF send] cont by fastforce
  qed
qed

lemma handler_step:
  fixes flow :: "'x SessionFailure + SessionFlow" and k :: "nat \<Rightarrow> 'x Session \<Rightarrow> 'x flow option"
  assumes "(case received of
       Some (Some (Push msg)) \<Rightarrow>
         Option.bind (send_bounded E cfg m (to_tungstenite_message msg) (ws_log [Took (Push msg)] st)) (\<lambda>(outcome, st).
           case send_flow outcome of Some flow \<Rightarrow> Some (flow, st) | None \<Rightarrow> k 1 st)
     | Some (Some (CloseItem code reason)) \<Rightarrow>
         (case close_bound_deadline E cfg m' (ws_log [Took (CloseItem code reason)] st) of
            (deadline, st) \<Rightarrow> Some (Ok (FlowSenderClose code reason deadline), st))
     | Some None \<Rightarrow> k 2 (guard_release st)
     | None \<Rightarrow> None) = Some (flow, st')"
    and "\<And>j st1. k j st1 = Some (flow, st') \<Longrightarrow> \<exists>es. adds st1 st' es \<and> flow_trace flow es"
  shows "\<exists>es. adds st st' es \<and> flow_trace flow es"
proof (cases received)
  case (Some r)
  show ?thesis
  proof (cases r)
    case None
    then show ?thesis
      using assms(1) assms(2) [of 2 "guard_release st"] \<open>received = Some r\<close> adds_trans [OF adds_release [of st]]
        flow_trace_prepend [OF release_balanced] by fastforce
  next
    case item: (Some item)
    show ?thesis
    proof (cases item)
      case (Push msg)
      then show ?thesis using push_then [OF _ assms(2)] assms(1) Some item by auto
    next
      case (CloseItem code reason)
      obtain d st1 where d: "close_bound_deadline E cfg m' (ws_log [Took (CloseItem code reason)] st) = (d, st1)" by fastforce
      then show ?thesis using close_item_flow [OF d] assms(1) Some item CloseItem by auto
    qed
  qed
qed (use assms(1) in simp)

lemma run_handler_adds:
  fixes flow :: "'x SessionFailure + SessionFlow"
  assumes "run_handler_with_outbound_drain E cfg m i st = Some (flow, st')"
  shows "\<exists>es. adds st st' es \<and> flow_trace flow es"
proof -
  let ?P = "\<lambda>E cfg m i st out. \<exists>es. adds st (snd out) es \<and> flow_trace (fst out) es"
  have "?P E cfg m i st (flow, st')"
  proof (rule run_handler_with_outbound_drain.raw_induct [where P = ?P, OF _ assms], goal_cases)
    case (1 f E cfg m i st out)
    let ?r = "we_ready E (m @ [i, 0])"
    obtain flow st' where out: "out = (flow, st')" by fastforce
    show ?case
    proof (cases "rd_cancel ?r")
      case True
      then have "out = (Ok FlowCancelled, st)" using 1(2) by simp
      then show ?thesis using stopped_quiet [of "[]"] by (intro exI [of _ "[]"]) (simp add: flow_trace_def flow_close_def)
    next
      case go: False
      show ?thesis
      proof (cases "rd_handler ?r")
        case None
        then show ?thesis
          using handler_step [where received = "if ss_rx st then rd_recv ?r else None" and k = "\<lambda>_. f E cfg m (Suc i)" and E = E
              and cfg = cfg and m = "m @ [i, 2]" and m' = "m @ [i, 3]" and st = st and flow = flow and st' = st']
            1(1) 1(2) go out by (fastforce simp: Let_def)
      next
        case (Some outcome)
        then have "after_handler E cfg (m @ [i, 1]) outcome (ws_log [HandlerReturned outcome] st) = Some (flow, st')"
          using 1(2) go out by simp
        from log_then_flow [OF after_handler_adds [OF this]] out show ?thesis by (simp add: balanced_def)
      qed
    qed
  qed
  then show ?thesis by simp
qed

section \<open>The end of a session\<close>

lemma drain_peer_adds:
  assumes "drain_peer E m i d st = Some (res, st')"
  shows "\<exists>fs. adds st st' (map Received fs)"
proof -
  let ?P = "\<lambda>E m i d st out. \<exists>fs. adds st (snd out) (map Received fs)"
  have "?P E m i d st (res, st')"
  proof (rule drain_peer.raw_induct [where P = ?P, OF _ assms], goal_cases)
    case (1 f E m i d st out)
    show ?case
    proof (cases "\<exists>frame. rd_next (we_ready E (m @ [i])) = Some (Some (Ok frame))")
      case True
      then obtain frame where frame: "rd_next (we_ready E (m @ [i])) = Some (Some (Ok frame))" by blast
      then obtain fs where "adds (ws_log [Received frame] st) (snd out) (map Received fs)"
        using 1(1) [of E m "Suc i" d "ws_log [Received frame] st" out] 1(2) by auto
      then show ?thesis using adds_log_eq by (intro exI [of _ "frame # fs"]) fastforce
    next
      case False
      then have "snd out = st" using 1(2) by (auto split: option.splits sum.splits if_splits)
      then show ?thesis by (intro exI [of _ "[]"]) simp
    qed
  qed
  then show ?thesis by simp
qed

lemma close_and_drain_adds:
  assumes "close_and_drain E m frame d st = Some (res, st')"
  shows "\<exists>fs. adds st st' (CloseStarted frame # map Received fs)"
proof -
  consider "st' = ws_log [CloseStarted frame] st" | "drain_peer E (m @ [1]) 0 d (ws_log [CloseStarted frame] st) = Some (res, st')"
    using assms by (auto simp: close_and_drain_def Let_def split: option.splits sum.splits if_splits)
  then show ?thesis
  proof cases
    case 1
    then show ?thesis by (intro exI [of _ "[]"]) simp
  next
    case 2
    then show ?thesis using drain_peer_adds [OF 2] adds_log_eq [of "[CloseStarted frame]" st st'] by auto
  qed
qed

text \<open>The release of the queue, then a close.\<close>

lemma release_close_adds:
  assumes "close_and_drain E m frame d (guard_release st) = Some (res, st')"
  shows "\<exists>fs. adds st st' (Sealed # RxReleased # CloseStarted frame # map Received fs)"
  using close_and_drain_adds [OF assms] adds_trans [OF adds_release [of st]] by force

definition end_trace :: "(nat \<times> bytes) option \<Rightarrow> CloseReason \<Rightarrow> 'x WsEvent list \<Rightarrow> bool" where
  "end_trace c reason es \<longleftrightarrow> list_all closing_event es \<and>
     (case c of Some (code, r) \<Rightarrow> reason = SenderClose \<and> CloseStarted (Some (code, r)) \<in> set es | None \<Rightarrow> True)"

lemma closing_Received [simp]: "list_all closing_event (map Received fs)"
  by (simp add: list_all_iff)

lemma end_cancelled_adds:
  assumes "end_cancelled E cfg m (if b then guard_release st else st) = Some (reason, res, st')"
  shows "\<exists>es. adds st st' es \<and> end_trace None reason es"
  using assms close_and_drain_adds [of E "m @ [1]" "Some (1001, ''going away'')" _ st res st']
    release_close_adds [of E "m @ [1]" "Some (1001, ''going away'')" _ st res st']
  by (fastforce simp: end_cancelled_def handle_cancellation_def end_trace_def split: if_splits)

lemma end_send_adds:
  assumes "end_send E cfg m outcome st = Some (reason, res, st')"
  shows "\<exists>es. adds st st' es \<and> end_trace None reason es"
  using assms end_cancelled_adds [of E cfg m True st] adds_release [of st]
  by (auto simp: end_send_def failure_parts_def end_trace_def split: SendOutcome.splits intro: exI [of _ "[]"])

lemma end_sender_close_adds:
  assumes "end_sender_close E m code r d st = Some (reason, res, st')"
  shows "\<exists>es. adds st st' es \<and> end_trace (Some (code, r)) reason es"
  using assms release_close_adds [of E m "Some (code, r)" d st] by (fastforce simp: end_sender_close_def end_trace_def)

lemma end_flow_adds:
  assumes "end_flow E cfg m flow st = Some (reason, res, st')"
  shows "\<exists>es. adds st st' es \<and> end_trace (flow_close flow) reason es"
  using assms end_cancelled_adds [of E cfg m True st] adds_release [of st] end_sender_close_adds [of E m _ _ _ st]
  by (auto simp: end_flow_def failure_parts_def flow_close_def end_trace_def split: sum.splits SessionFlow.splits intro: exI [of _ "[]"])

section \<open>A turn of the loop\<close>

definition extends :: "'x Session \<Rightarrow> 'x Session \<Rightarrow> 'x WsEvent list \<Rightarrow> bool" where
  "extends st st' es \<longleftrightarrow> ss_trace st' = ss_trace st @ es"

definition ended_trace :: "CloseReason \<Rightarrow> 'x WsEvent list \<Rightarrow> bool" where
  "ended_trace reason es \<longleftrightarrow> (\<exists>c. stopped c es \<and>
     (\<forall>code r. c = Some (code, r) \<longrightarrow> reason = SenderClose \<and> CloseStarted (Some (code, r)) \<in> set es))"

definition turn_trace :: "'x Session \<Rightarrow> 'x Turn \<Rightarrow> bool" where
  "turn_trace st turn =
     (case turn of
        Again st' \<Rightarrow> \<exists>es. extends st st' es \<and> balanced es
      | Ended (reason, _, st') \<Rightarrow> \<exists>es. extends st st' es \<and> ended_trace reason es)"

lemma adds_extends: "adds st st' es \<Longrightarrow> extends st st' es"
  by (simp add: adds_def extends_def)

lemma turn_trace_prepend:
  assumes "extends st st1 es" "balanced es" "turn_trace st1 turn"
  shows "turn_trace st turn"
proof (cases turn)
  case (Again st')
  then show ?thesis using assms balanced_append by (fastforce simp: turn_trace_def extends_def)
next
  case (Ended e)
  then show ?thesis
    using assms stopped_prepend by (cases e) (fastforce simp: turn_trace_def extends_def ended_trace_def)
qed

lemma ended_of_end:
  assumes "stopped c a" "end_trace c reason b"
  shows "ended_trace reason (a @ b)"
  using assms stopped_extend unfolding ended_trace_def end_trace_def by (intro exI [of _ c]) auto

lemma ended_quiet: "list_all closing_event es \<Longrightarrow> ended_trace reason es"
  using stopped_quiet unfolding ended_trace_def by blast

lemma end_none_trace: "end_trace None reason es \<Longrightarrow> ended_trace reason es"
  using ended_quiet by (simp add: end_trace_def)

lemma ping_balanced: "balanced [SendFrame (PingFrame p) True]" "broken [SendFrame (PingFrame p) False]"
  by (simp_all add: balanced_def broken_def data_of_def)

lemma ping_turn_trace:
  assumes "ping_turn E cfg m st = Some turn"
  shows "turn_trace st turn"
proof (cases "ping_due E (m @ [0]) st")
  case None
  then show ?thesis using assms by (auto simp: ping_turn_def turn_trace_def extends_def intro: exI [of _ "[]"])
next
  case (Some ka)
  obtain payload ka' where pay: "next_payload ka = (payload, ka')" by fastforce
  let ?st = "st\<lparr>ss_keepalive := Some ka'\<rparr>"
  obtain outcome st1 where send: "send_bounded E cfg (m @ [1]) (PingFrame payload) ?st = Some (outcome, st1)"
    using assms Some pay by (auto simp: ping_turn_def bind_eq_Some_conv)
  have tr: "extends st st1 [SendFrame (PingFrame payload) (outcome = Sent)]"
    using send_bounded_adds [OF send] by (simp add: adds_def extends_def)
  show ?thesis
  proof (cases "outcome = Sent")
    case True
    then obtain st' where "turn = Again st'" "ss_trace st' = ss_trace st1" using assms Some pay send by (auto simp: ping_turn_def Let_def)
    then show ?thesis using tr True ping_balanced(1) by (auto simp: turn_trace_def extends_def)
  next
    case False
    then obtain reason res st' where fin: "turn = Ended (reason, res, st')" "end_send E cfg (m @ [3]) outcome st1 = Some (reason, res, st')"
      using assms Some pay send by (auto simp: ping_turn_def)
    obtain es where es: "adds st1 st' es" "end_trace None reason es" using end_send_adds [OF fin(2)] by blast
    then show ?thesis
      using fin(1) tr False ended_of_end [OF stopped_broken [OF ping_balanced(2)] es(2), of payload]
      by (auto simp: turn_trace_def extends_def adds_def)
  qed
qed

lemma turn_again: "ss_trace st' = ss_trace st @ es \<Longrightarrow> balanced es \<Longrightarrow> turn_trace st (Again st')"
  by (auto simp: turn_trace_def extends_def)

lemma turn_ended: "adds st st' es \<Longrightarrow> ended_trace reason es \<Longrightarrow> turn_trace st (Ended (reason, res, st'))"
  by (auto simp: turn_trace_def extends_def adds_def)

text \<open>A turn in which no ping is sent, no frame arrives while the session is open, and the keepalive is left alone.\<close>

fun not_ping :: "'x WsEvent \<Rightarrow> bool" where
  "not_ping (SendFrame f _) = (\<not> is_ping f)"
| "not_ping _ = True"

definition quiet_turn :: "'x Session \<Rightarrow> 'x Turn \<Rightarrow> bool" where
  "quiet_turn st turn =
     (case turn of
        Again st' \<Rightarrow> \<exists>es. adds st st' es \<and> balanced es \<and> list_all no_ping es
      | Ended (reason, _, st') \<Rightarrow> \<exists>es. adds st st' es \<and> ended_trace reason es \<and> list_all not_ping es)"

lemma quiet_turn_trace: "quiet_turn st turn \<Longrightarrow> turn_trace st turn"
  by (auto simp: quiet_turn_def turn_trace_def adds_def extends_def split: Turn.splits)

lemma quiet_again: "adds st st' es \<Longrightarrow> balanced es \<Longrightarrow> list_all no_ping es \<Longrightarrow> quiet_turn st (Again st')"
  by (auto simp: quiet_turn_def)

lemma quiet_ended: "adds st st' es \<Longrightarrow> ended_trace reason es \<Longrightarrow> list_all not_ping es \<Longrightarrow> quiet_turn st (Ended (reason, res, st'))"
  by (auto simp: quiet_turn_def)

lemma closing_not_ping: "list_all closing_event es \<Longrightarrow> list_all not_ping es"
proof -
  have "closing_event e \<Longrightarrow> not_ping e" for e :: "'a WsEvent" by (cases e) auto
  then show "list_all closing_event es \<Longrightarrow> list_all not_ping es" by (auto simp: list_all_iff)
qed

lemma end_not_ping: "end_trace c reason es \<Longrightarrow> list_all not_ping es"
  by (simp add: end_trace_def closing_not_ping)

lemma quiet_end: "adds st st' es \<Longrightarrow> end_trace None reason es \<Longrightarrow> quiet_turn st (Ended (reason, res, st'))"
  using quiet_ended end_none_trace end_not_ping by blast

lemma handled_turn:
  assumes "Option.bind (run_handler_with_outbound_drain E cfg m 0 (ws_log [HandlerCalled msg] st))
      (\<lambda>(flow, st). if flow = Ok FlowContinue then Some (Again (g st)) else map_option Ended (end_flow E cfg m' flow st)) = Some turn"
    and "\<And>st. ss_trace (g st) = ss_trace st"
  shows "turn_trace st turn"
proof -
  obtain flow st1 where run: "run_handler_with_outbound_drain E cfg m 0 (ws_log [HandlerCalled msg] st) = Some (flow, st1)"
    and cont: "(if flow = Ok FlowContinue then Some (Again (g st1)) else map_option Ended (end_flow E cfg m' flow st1)) = Some turn"
    using assms(1) by (auto simp: bind_eq_Some_conv)
  obtain es where es: "adds st st1 es" "flow_trace flow es"
    using log_then_flow [OF run_handler_adds [OF run]] by (auto simp: balanced_def)
  show ?thesis
  proof (cases "flow = Ok FlowContinue")
    case True
    then show ?thesis using cont es assms(2) by (auto simp: flow_trace_def adds_def intro: turn_again)
  next
    case False
    then obtain reason res st' where fin: "turn = Ended (reason, res, st')" "end_flow E cfg m' flow st1 = Some (reason, res, st')"
      using cont by auto
    obtain fs where fs: "adds st1 st' fs" "end_trace (flow_close flow) reason fs" using end_flow_adds [OF fin(2)] by blast
    have "stopped (flow_close flow) es" using es(2) False by (simp add: flow_trace_def)
    then show ?thesis unfolding fin(1) using turn_ended [OF adds_trans [OF es(1) fs(1)]] ended_of_end fs(2) by blast
  qed
qed

lemma received_balanced: "balanced [Received frame]"
  by (simp add: balanced_def)

lemma session_message_trace:
  assumes "session_message E cfg m frame st = Some turn"
  shows "turn_trace st turn"
proof (rule turn_trace_prepend [OF adds_extends [OF adds_log] received_balanced])
  let ?st = "ws_log [Received frame] st"
  let ?idle = "\<lambda>st. st\<lparr>ss_idle_deadline := map_option (\<lambda>d. we_now E (m @ [1]) + d) (wsc_idle_timeout cfg)\<rparr>"
  have handled: "Option.bind (run_handler_with_outbound_drain E cfg (m @ [0]) 0 (ws_log [HandlerCalled msg] ?st))
      (\<lambda>(flow, st). if flow = Ok FlowContinue then Some (Again (?idle st)) else map_option Ended (end_flow E cfg (m @ [2]) flow st)) =
        Some turn \<Longrightarrow> turn_trace ?st turn" for msg
    by (erule handled_turn [where g = ?idle]) simp
  show "turn_trace ?st turn"
  proof (cases frame)
    case (TextFrame t)
    then show ?thesis using assms handled by (simp add: session_message_def Let_def del: One_nat_def)
  next
    case (BinaryFrame b)
    then show ?thesis using assms handled by (simp add: session_message_def Let_def del: One_nat_def)
  next
    case (CloseFrame c)
    then show ?thesis using assms turn_ended [OF adds_refl ended_quiet] by (auto simp: session_message_def)
  qed (use assms turn_again [of _ ?st "[]"] in \<open>auto simp: session_message_def Let_def split: option.splits if_splits\<close>)
qed

lemma too_big_adds:
  "handle_message_too_big E m d st = Some st' \<Longrightarrow> adds st st' [CloseStarted (Some (1009, ''message too big''))]"
  using adds_log [of st "[CloseStarted (Some (1009, ''message too big''))]"]
  by (auto simp: handle_message_too_big_def Let_def split: option.splits if_splits)

lemma recv_error_quiet:
  assumes "session_event E cfg m (InMessage (Some (Err err))) st = Some turn"
  shows "quiet_turn st turn"
proof (cases "err = LibCapacity")
  case True
  obtain d st1 where d: "close_bound_deadline E cfg (m @ [0]) st = (d, st1)" by fastforce
  with assms True obtain st' where fin: "handle_message_too_big E (m @ [1]) d (guard_release st1) = Some st'"
    "turn = Ended (failure_parts (failure_recv err) st')"
    by (auto simp: session_event_def failure_recv_def)
  have "adds st st' ([] @ [Sealed, RxReleased] @ [CloseStarted (Some (1009, ''message too big''))])"
    using adds_trans [OF deadline_adds [OF d] adds_trans [OF adds_release too_big_adds [OF fin(1)]]] .
  then show ?thesis unfolding fin(2) failure_parts_def by (rule quiet_end) (simp add: end_trace_def)
next
  case False
  then have "turn = Ended (failure_parts (failure_recv err) st)"
    using assms by (cases err) (auto simp: session_event_def failure_recv_def)
  then show ?thesis using quiet_end [OF adds_refl] by (simp add: failure_parts_def end_trace_def)
qed

lemma timer_quiet:
  assumes "session_event E cfg m (InTimer kind) st = Some turn"
  shows "quiet_turn st turn"
proof -
  have closed: "close_normally E cfg (m @ [0]) (guard_release st) = Some (res, st') \<Longrightarrow> quiet_turn st (Ended (reason, res, st'))"
    for res st' reason
    using release_close_adds [of E "m @ [0, 1]" None _ st res st'] quiet_end
    by (fastforce simp: close_normally_def end_trace_def)
  show ?thesis
    using assms closed quiet_again [OF adds_refl, of st] by (cases kind) (auto simp: session_event_def)
qed

lemma outbound_quiet:
  assumes "session_event E cfg m (InOutbound item) st = Some turn"
  shows "quiet_turn st turn"
proof (cases item)
  case (Push msg)
  obtain outcome st1 where send: "send_bounded E cfg (m @ [0]) (to_tungstenite_message msg) (ws_log [Took (Push msg)] st) = Some (outcome, st1)"
    and cont: "(if outcome = Sent then Some (Again st1) else map_option Ended (end_send E cfg (m @ [1]) outcome st1)) = Some turn"
    using assms Push by (auto simp: session_event_def bind_eq_Some_conv)
  show ?thesis
  proof (cases "outcome = Sent")
    case True
    then show ?thesis using cont quiet_again [OF push_adds(1) [OF send]] push_event_facts by auto
  next
    case False
    then obtain reason res st' where fin: "turn = Ended (reason, res, st')" "end_send E cfg (m @ [1]) outcome st1 = Some (reason, res, st')"
      using cont by auto
    obtain es where es: "adds st1 st' es" "end_trace None reason es" using end_send_adds [OF fin(2)] by blast
    then show ?thesis
      unfolding fin(1) using False
      by (intro quiet_ended [OF adds_trans [OF push_adds(1) [OF send] es(1)]])
        (auto intro: ended_of_end [OF stopped_broken [OF push_broken] es(2), simplified] end_not_ping)
  qed
next
  case (CloseItem code r)
  obtain d st1 where d: "close_bound_deadline E cfg (m @ [0]) (ws_log [Took (CloseItem code r)] st) = (d, st1)" by fastforce
  with assms CloseItem obtain reason res st' where fin: "turn = Ended (reason, res, st')"
    "end_sender_close E (m @ [1]) code r d st1 = Some (reason, res, st')"
    by (auto simp: session_event_def)
  obtain es where es: "adds st1 st' es" "end_trace (Some (code, r)) reason es" using end_sender_close_adds [OF fin(2)] by blast
  show ?thesis
    unfolding fin(1)
    by (rule quiet_ended [OF adds_trans [OF close_item_flow(1) [OF d] es(1)] ended_of_end [OF stopped_close es(2)]])
      (simp add: end_not_ping [OF es(2)])
qed

lemma session_event_quiet:
  assumes "session_event E cfg m event st = Some turn" "\<And>frame. event \<noteq> InMessage (Some (Ok frame))"
  shows "quiet_turn st turn"
proof (cases event)
  case (InMessage msg)
  show ?thesis
  proof (cases msg)
    case None
    then show ?thesis using assms InMessage quiet_end [OF adds_refl] by (auto simp: session_event_def end_trace_def)
  next
    case (Some r)
    then show ?thesis using assms InMessage recv_error_quiet by (cases r) auto
  qed
next
  case InSendersGone
  then show ?thesis using assms quiet_again [OF adds_release] release_balanced by (auto simp: session_event_def)
qed (use assms timer_quiet outbound_quiet in auto)

lemma session_event_trace:
  assumes "session_event E cfg m event st = Some turn"
  shows "turn_trace st turn"
proof (cases "\<exists>frame. event = InMessage (Some (Ok frame))")
  case True
  then show ?thesis using assms session_message_trace by (auto simp: session_event_def)
next
  case False
  then show ?thesis using quiet_turn_trace [OF session_event_quiet [OF assms]] by blast
qed

lemma wait_cancelled_quiet:
  assumes "end_cancelled E cfg m (if ss_rx st then guard_release st else st) = Some e"
  shows "quiet_turn st (Ended e)"
  using assms end_cancelled_adds [of E cfg m "ss_rx st" st] quiet_end by (cases e) fastforce

lemma session_turn_trace:
  assumes "session_turn E cfg n st = Some turn"
  shows "turn_trace st turn"
proof -
  obtain t where ping: "ping_turn E cfg [n, 0] st = Some t"
    and cont: "(case t of Ended e \<Rightarrow> Some (Ended e)
      | Again st \<Rightarrow> Option.bind (session_wait E [n, 1] st) (\<lambda>(event, st). case event of
          None \<Rightarrow> map_option Ended (end_cancelled E cfg [n, 2] (if ss_rx st then guard_release st else st))
        | Some event \<Rightarrow> session_event E cfg [n, 3] event st)) = Some turn"
    using assms by (auto simp: session_turn_def bind_eq_Some_conv)
  show ?thesis
  proof (cases t)
    case (Ended e)
    then show ?thesis using ping_turn_trace [OF ping] cont by simp
  next
    case (Again st1)
    obtain es where es: "extends st st1 es" "balanced es" using ping_turn_trace [OF ping] Again by (auto simp: turn_trace_def)
    obtain event st2 where wait: "session_wait E [n, 1] st1 = Some (event, st2)"
      and fin: "(case event of None \<Rightarrow> map_option Ended (end_cancelled E cfg [n, 2] (if ss_rx st2 then guard_release st2 else st2))
        | Some event \<Rightarrow> session_event E cfg [n, 3] event st2) = Some turn"
      using cont Again by (auto simp: bind_eq_Some_conv)
    have "ss_trace st2 = ss_trace st1" using wait by (auto simp: session_wait_def Let_def split: if_splits)
    then have "extends st st2 es" using es(1) by (simp add: extends_def)
    moreover have "turn_trace st2 turn"
    proof (cases event)
      case None
      then obtain e where e: "turn = Ended e" "end_cancelled E cfg [n, 2] (if ss_rx st2 then guard_release st2 else st2) = Some e" using fin by auto
      then show ?thesis using quiet_turn_trace [OF wait_cancelled_quiet] by blast
    qed (use fin session_event_trace in auto)
    ultimately show ?thesis using turn_trace_prepend es(2) by blast
  qed
qed

section \<open>The conversation\<close>

lemma session_loop_trace:
  assumes "session_loop E cfg n st = Some (reason, res, st')"
  shows "\<exists>es. extends st st' es \<and> ended_trace reason es"
proof -
  let ?P = "\<lambda>E cfg n st out. turn_trace st (Ended out)"
  have "?P E cfg n st (reason, res, st')"
  proof (rule session_loop.raw_induct [where P = ?P, OF _ assms], goal_cases)
    case (1 f E cfg n st out)
    then obtain turn where turn: "session_turn E cfg n st = Some turn"
      and cont: "(case turn of Ended e \<Rightarrow> Some e | Again st \<Rightarrow> f E cfg (Suc n) st) = Some out"
      by (auto simp: bind_eq_Some_conv)
    show ?case
    proof (cases turn)
      case (Again st1)
      then obtain es where "extends st st1 es" "balanced es" using session_turn_trace [OF turn] by (auto simp: turn_trace_def)
      then show ?thesis using 1(1) [of E cfg "Suc n" st1 out] cont Again turn_trace_prepend by auto
    next
      case (Ended e)
      then show ?thesis using session_turn_trace [OF turn] cont by simp
    qed
  qed
  then show ?thesis by (simp add: turn_trace_def)
qed

lemma run_session_ends:
  assumes "run_session E cfg outbound = Some (result, st)"
  obtains reason res st1 where "session_loop E cfg 1 (session_new E cfg outbound) = Some (reason, res, st1)"
    "ss_trace st = ss_trace st1 @ [Sealed, OnClose reason]"
  using assms by (auto simp: run_session_def run_session_inner_def guard_seal_def ws_log_def)

lemma close_started_quiet:
  assumes "CloseStarted fr \<in> set (bal @ final @ quiet)" "balanced bal" "last_part c final"
  shows "CloseStarted fr \<in> set quiet"
proof -
  have "CloseStarted fr \<notin> set es" if "list_all open_event es" for es :: "'a WsEvent list"
    using that by (auto simp: list_all_iff)
  then have "CloseStarted fr \<notin> set bal" "CloseStarted fr \<notin> set final"
    using assms(2,3) by (auto simp: balanced_def last_part_def broken_def split: option.splits)
  then show ?thesis using assms(1) by auto
qed


text \<open>A session in which a pushed message is written, a text of the client is answered and the client closes.\<close>

definition idle_ready :: "nat Ready" where
  "idle_ready = \<lparr>rd_cancel = False, rd_next = None, rd_recv = None, rd_written = Some (Ok ()), rd_linger = None, rd_handler = None\<rparr>"

definition sample_ready :: "tick \<Rightarrow> nat Ready" where
  "sample_ready m =
     (if m = [1, 1] then idle_ready\<lparr>rd_recv := Some (Some (Push (TextMessage ''news'')))\<rparr>
      else if m = [2, 1] then idle_ready\<lparr>rd_next := Some (Some (Ok (TextFrame ''hello'')))\<rparr>
      else if m = [3, 1] then idle_ready\<lparr>rd_next := Some (Some (Ok (CloseFrame None)))\<rparr>
      else idle_ready\<lparr>rd_handler := Some (Ok (Reply [TextMessage ''hello'']))\<rparr>)"

definition sample_ws_env :: "nat WsEnv" where
  "sample_ws_env = \<lparr>we_ready = sample_ready, we_now = (\<lambda>m. secs (hd m)), we_elapsed = (\<lambda>_ _. False), we_stalled = (\<lambda>_ _. False),
     we_observed = (\<lambda>_. []), we_try_recv = (\<lambda>_. TryEmpty), we_close_requested = (\<lambda>_. False), we_close_committed = (\<lambda>_. False),
     we_instant_max = 2 ^ 64\<rparr>"

definition sample_ws_config :: "(unit, unit) WebSocketConfig" where
  "sample_ws_config = ws_config_default ()"

lemma loop_goes_on: "session_turn E cfg n st = Some (Again st') \<Longrightarrow> session_loop E cfg n st = session_loop E cfg (Suc n) st'"
  by (subst session_loop.simps) simp

lemma loop_ends: "session_turn E cfg n st = Some (Ended e) \<Longrightarrow> session_loop E cfg n st = Some e"
  by (subst session_loop.simps) simp

lemma handler_returns:
  "\<lbrakk>\<not> rd_cancel (we_ready E (m @ [i, 0])); rd_handler (we_ready E (m @ [i, 0])) = Some outcome\<rbrakk> \<Longrightarrow>
   run_handler_with_outbound_drain E cfg m i st = after_handler E cfg (m @ [i, 1]) outcome (ws_log [HandlerReturned outcome] st)"
  by (subst run_handler_with_outbound_drain.simps) (simp add: Let_def)

lemma drain_nothing: "we_try_recv E (m @ [n - 1, 0]) = TryEmpty \<Longrightarrow> drain_before_reply E cfg m n st = Some (Ok None, st)"
  by (cases n) auto

lemmas sample_turns = drain_nothing session_turn_def ping_turn_def ping_due_def session_wait_def inbound_ready_def outbound_ready_def race2_def
  session_event_def session_message_def send_bounded_def close_bound_polled_def wait_leg_def to_tungstenite_message_def
  handler_returns after_handler_def apply_outcome_def apply_reply_def send_flow_def ws_log_def guard_seal_def

lemmas sample_evaluation = sample_ws_env_def sample_ready_def idle_ready_def

lemma sample_session:
  "\<exists>st. run_session sample_ws_env sample_ws_config True = Some (Ok (), st) \<and> ss_trace st =
     [Took (Push (TextMessage ''news'')), SendFrame (TextFrame ''news'') True, Received (TextFrame ''hello''),
      HandlerCalled (TextMessage ''hello''), HandlerReturned (Ok (Reply [TextMessage ''hello''])), ReplyStarts [TextMessage ''hello''],
      SendFrame (TextFrame ''hello'') True, Received (CloseFrame None), Sealed, OnClose ClientClose]"
  by (simp add: run_session_def run_session_inner_def session_new_def sample_ws_config_def ws_config_default_def DEFAULT_OUTBOUND_CAPACITY_def
     sample_turns sample_evaluation loop_goes_on loop_ends del: One_nat_def)


end
