(* ===== verification/Ws_Keepalive.thy ===== *)
theory Ws_Keepalive
  imports Ws_Session_Spec
begin

text \<open>
  The keepalive of a WebSocket session: when it pings, with which payload, and the deadlines it computes.
\<close>

section \<open>Deadlines\<close>

lemma bisect_deadline_bounds:
  assumes "now \<le> limit" "now + lo \<le> limit" "limit < now + hi"
  shows "now + bisect_deadline limit now lo hi \<le> limit \<and> limit < now + bisect_deadline limit now lo hi + secs 1 \<and>
    bisect_deadline limit now lo hi \<le> hi"
  using assms
proof (induction limit now lo hi rule: bisect_deadline.induct)
  case (1 limit now lo hi)
  let ?mid = "lo + (hi - lo) div 2"
  show ?case
  proof (cases "hi - lo > secs 1")
    case True
    show ?thesis
    proof (cases "now + ?mid \<le> limit")
      case True
      then show ?thesis
        using 1(1) [OF \<open>hi - lo > secs 1\<close> refl] 1(3-5) \<open>hi - lo > secs 1\<close>
        by (simp add: bisect_deadline.simps [of limit now lo hi] instant_checked_add_def Let_def)
    next
      case False
      then show ?thesis
        using 1(2) [OF \<open>hi - lo > secs 1\<close> refl] 1(3-5) \<open>hi - lo > secs 1\<close>
        by (auto simp: bisect_deadline.simps [of limit now lo hi] instant_checked_add_def Let_def)
    qed
  next
    case False
    then show ?thesis using 1(3-5) by (simp add: bisect_deadline.simps [of limit now lo hi])
  qed
qed

text \<open>Deadlines are representable. The deadline computed for any duration lies between now and the last instant the platform can represent; it is
  exact if that instant is not passed, and otherwise less than a second before it.\<close>

theorem checked_deadline_bounds:
  assumes "now \<le> limit"
  shows "now \<le> checked_deadline limit now d \<and> checked_deadline limit now d \<le> limit \<and>
    (if now + d \<le> limit then checked_deadline limit now d = now + d else limit < checked_deadline limit now d + secs 1)"
  using assms bisect_deadline_bounds [of now limit 0 d] by (auto simp: checked_deadline_def instant_checked_add_def)

theorem checked_deadline_bounds_witness:
  "5 \<le> checked_deadline 7 5 1 \<and> checked_deadline 7 5 1 = 6"
  using checked_deadline_bounds [of 5 7 1] by simp

section \<open>Pings and pongs in a trace\<close>

fun ping_step :: "'x WsEvent \<Rightarrow> bytes option \<Rightarrow> bytes option" where
  "ping_step (SendFrame (PingFrame p) ok) pending = (if ok then Some p else pending)"
| "ping_step (Received (PongFrame p)) pending = (if pending = Some p then None else pending)"
| "ping_step _ pending = pending"

text \<open>The payload of the ping that was sent and not yet answered.\<close>

definition outstanding :: "'x WsEvent list \<Rightarrow> bytes option" where
  "outstanding es = fold ping_step es None"

fun ping_payload :: "'x WsEvent \<Rightarrow> bytes list" where
  "ping_payload (SendFrame (PingFrame p) ok) = [p]"
| "ping_payload _ = []"

definition ping_payloads :: "'x WsEvent list \<Rightarrow> bytes list" where
  "ping_payloads es = concat (map ping_payload es)"

text \<open>No ping is sent while another one is unanswered.\<close>

definition one_ping :: "'x WsEvent list \<Rightarrow> bool" where
  "one_ping es \<longleftrightarrow> (\<forall>pre p ok post. es = pre @ SendFrame (PingFrame p) ok # post \<longrightarrow> outstanding pre = None)"

definition numbered :: "'x WsEvent list \<Rightarrow> bool" where
  "numbered es \<longleftrightarrow> ping_payloads es = map (\<lambda>i. to_be_bytes (i mod 2 ^ 64)) [0..<length (ping_payloads es)]"

text \<open>The session's bookkeeping agrees with its trace.\<close>

definition tracks :: "'x Session \<Rightarrow> bool" where
  "tracks st \<longleftrightarrow> one_ping (ss_trace st) \<and> numbered (ss_trace st) \<and>
     (case ss_keepalive st of
        Some ka \<Rightarrow> map_option pp_payload (ka_pending ka) = outstanding (ss_trace st) \<and>
          ka_next_seq ka = length (ping_payloads (ss_trace st)) mod 2 ^ 64
      | None \<Rightarrow> outstanding (ss_trace st) = None)"

fun ping_event :: "'x WsEvent \<Rightarrow> bool" where
  "ping_event (SendFrame (PingFrame p) ok) = True"
| "ping_event _ = False"

lemma ping_append [simp]:
  "outstanding (es @ fs) = fold ping_step fs (outstanding es)" "ping_payloads (es @ fs) = ping_payloads es @ ping_payloads fs"
  "outstanding [] = None" "ping_payloads [] = []"
  by (simp_all add: outstanding_def ping_payloads_def)

lemma quiet_ping: "\<not> ping_event e \<Longrightarrow> ping_payload e = []"
  by (cases e rule: ping_payload.cases) auto

lemma quiet_pings: "list_all (\<lambda>e. \<not> ping_event e) es \<Longrightarrow> ping_payloads es = []"
  unfolding ping_payloads_def by (induction es) (auto simp: quiet_ping)

lemma one_ping_append:
  assumes "one_ping es" "list_all (\<lambda>e. \<not> ping_event e) fs"
  shows "one_ping (es @ fs)"
  unfolding one_ping_def
proof (intro allI impI)
  fix pre p ok post assume eq: "es @ fs = pre @ SendFrame (PingFrame p) ok # post"
  have "\<not> (\<exists>us. pre = es @ us)"
  proof
    assume "\<exists>us. pre = es @ us"
    then obtain us where "fs = us @ SendFrame (PingFrame p) ok # post" using eq by auto
    then show False using assms(2) by simp
  qed
  with eq obtain us where "es = pre @ us" "us @ fs = SendFrame (PingFrame p) ok # post" "us \<noteq> []"
    by (auto simp: append_eq_append_conv2)
  then obtain post' where "es = pre @ SendFrame (PingFrame p) ok # post'" by (cases us) auto
  then show "outstanding pre = None" using assms(1) by (auto simp: one_ping_def)
qed

lemma one_ping_snoc:
  assumes "one_ping es" "outstanding es = None"
  shows "one_ping (es @ [SendFrame (PingFrame p) ok])"
  unfolding one_ping_def
proof (intro allI impI)
  fix pre q ok' post assume eq: "es @ [SendFrame (PingFrame p) ok] = pre @ SendFrame (PingFrame q) ok' # post"
  show "outstanding pre = None"
  proof (cases post rule: rev_cases)
    case Nil
    then show ?thesis using eq assms(2) by simp
  next
    case (snoc post' e)
    then have "es = pre @ SendFrame (PingFrame q) ok' # post'" using eq by simp
    then show ?thesis using assms(1) by (auto simp: one_ping_def)
  qed
qed

text \<open>What holds of the whole trace.\<close>

definition pings_ok :: "'x Session \<Rightarrow> bool" where
  "pings_ok st \<longleftrightarrow> one_ping (ss_trace st) \<and> numbered (ss_trace st)"

lemma tracks_pings_ok: "tracks st \<Longrightarrow> pings_ok st"
  by (simp add: tracks_def pings_ok_def)

lemma pings_ok_quiet:
  assumes "pings_ok st" "ss_trace st' = ss_trace st @ es" "list_all (\<lambda>e. \<not> ping_event e) es"
  shows "pings_ok st'"
  using assms one_ping_append [of "ss_trace st" es] quiet_pings [OF assms(3)] by (simp add: pings_ok_def numbered_def)

lemma no_ping_quiet: "no_ping e \<Longrightarrow> \<not> ping_event e" "no_ping e \<Longrightarrow> ping_step e o' = o'"
  by (cases e rule: ping_event.cases; simp) (cases "(e, o')" rule: ping_step.cases; simp)

lemma closing_quiet: "closing_event e \<Longrightarrow> \<not> ping_event e"
  by (cases e rule: ping_event.cases) auto

lemma no_ping_outstanding: "list_all no_ping es \<Longrightarrow> fold ping_step es o' = o'"
  by (induction es) (auto simp: no_ping_quiet)

lemma tracks_adds:
  assumes "tracks st" "adds st st' es" "list_all no_ping es"
  shows "tracks st'"
proof -
  have quiet: "list_all (\<lambda>e. \<not> ping_event e) es" using assms(3) no_ping_quiet by (auto simp: list_all_iff)
  have "pings_ok st'" using pings_ok_quiet [OF tracks_pings_ok [OF assms(1)] _ quiet] assms(2) by (simp add: adds_def)
  then show ?thesis
    using assms no_ping_outstanding [OF assms(3)] quiet_pings [OF quiet]
    by (auto simp: tracks_def adds_def pings_ok_def split: option.splits)
qed

definition turn_pings :: "'x Turn \<Rightarrow> bool" where
  "turn_pings turn = (case turn of Again st' \<Rightarrow> tracks st' | Ended (_, _, st') \<Rightarrow> pings_ok st')"

lemma turn_pings_end:
  assumes "pings_ok st" "adds st st' es" "end_trace c reason es"
  shows "turn_pings (Ended (reason, res, st'))"
proof -
  have "list_all (\<lambda>e. \<not> ping_event e) es" using assms(3) closing_quiet by (auto simp: end_trace_def list_all_iff)
  then show ?thesis using pings_ok_quiet [OF assms(1)] assms(2) by (simp add: turn_pings_def adds_def)
qed

section \<open>The turns\<close>

lemma to_be_bytes_numbered:
  assumes "numbered es" shows "numbered (es @ [SendFrame (PingFrame (to_be_bytes (length (ping_payloads es) mod 2 ^ 64))) ok])"
  using assms by (simp add: numbered_def ping_payloads_def)

lemma ping_turn_pings:
  assumes "ping_turn E cfg m st = Some turn" "tracks st"
  shows "turn_pings turn"
proof (cases "ping_due E (m @ [0]) st")
  case None
  then show ?thesis using assms by (auto simp: ping_turn_def turn_pings_def)
next
  case (Some ka)
  then have ka: "ss_keepalive st = Some ka" "ka_pending ka = None" by (auto simp: ping_due_def split: option.splits if_splits)
  obtain payload ka' where pay: "next_payload ka = (payload, ka')" by fastforce
  let ?st = "st\<lparr>ss_keepalive := Some ka'\<rparr>"
  obtain outcome st1 where send: "send_bounded E cfg (m @ [1]) (PingFrame payload) ?st = Some (outcome, st1)"
    using assms Some pay by (auto simp: ping_turn_def bind_eq_Some_conv)
  have tr: "ss_trace st1 = ss_trace st @ [SendFrame (PingFrame payload) (outcome = Sent)]" "ss_keepalive st1 = Some ka'"
    using send_bounded_adds [OF send] by (simp_all add: adds_def)
  have seq: "payload = to_be_bytes (length (ping_payloads (ss_trace st)) mod 2 ^ 64)" "outstanding (ss_trace st) = None"
    using pay assms(2) ka by (auto simp: next_payload_def tracks_def)
  then have ok: "pings_ok st1" using assms(2) tr(1) one_ping_snoc to_be_bytes_numbered by (auto simp: tracks_def pings_ok_def)
  show ?thesis
  proof (cases "outcome = Sent")
    case True
    have "ka_next_seq ka' = length (ping_payloads (ss_trace st1)) mod 2 ^ 64"
      using pay assms(2) ka tr(1) by (auto simp: next_payload_def tracks_def ping_payloads_def mod_Suc_eq)
    then show ?thesis
      using assms(1) Some pay send True tr ok seq(2)
      by (auto simp: ping_turn_def Let_def turn_pings_def tracks_def pings_ok_def)
  next
    case False
    then obtain reason res st' where fin: "turn = Ended (reason, res, st')" "end_send E cfg (m @ [3]) outcome st1 = Some (reason, res, st')"
      using assms Some pay send by (auto simp: ping_turn_def)
    then show ?thesis using end_send_adds [OF fin(2)] turn_pings_end [OF ok] by blast
  qed
qed

lemma handled_turn_pings:
  assumes "Option.bind (run_handler_with_outbound_drain E cfg m 0 (ws_log [HandlerCalled msg] st))
      (\<lambda>(flow, st). if flow = Ok FlowContinue then Some (Again (g st)) else map_option Ended (end_flow E cfg m' flow st)) = Some turn"
    and "\<And>st. adds st (g st) []" and "tracks st"
  shows "turn_pings turn"
proof -
  obtain flow st1 where run: "run_handler_with_outbound_drain E cfg m 0 (ws_log [HandlerCalled msg] st) = Some (flow, st1)"
    and cont: "(if flow = Ok FlowContinue then Some (Again (g st1)) else map_option Ended (end_flow E cfg m' flow st1)) = Some turn"
    using assms(1) by (auto simp: bind_eq_Some_conv)
  obtain es where es: "adds st st1 es" "flow_trace flow es"
    using log_then_flow [OF run_handler_adds [OF run]] by (auto simp: balanced_def)
  then have "tracks st1" using tracks_adds [OF assms(3)] by (auto simp: flow_trace_def)
  then show ?thesis
    using cont tracks_adds [OF _ assms(2)] turn_pings_end [OF tracks_pings_ok] end_flow_adds
    by (fastforce simp: turn_pings_def split: if_splits)
qed

lemma tracks_received:
  assumes "tracks st" "\<And>p. frame \<noteq> PongFrame p"
  shows "tracks (ws_log [Received frame] st)"
proof -
  have "ping_step (Received frame) o' = o'" for o' using assms(2) by (cases frame) auto
  then show ?thesis
    using assms(1) one_ping_append [of "ss_trace st" "[Received frame]"]
    by (auto simp: tracks_def ws_log_def numbered_def ping_payloads_def split: option.splits)
qed

lemma session_message_pings:
  assumes "session_message E cfg m frame st = Some turn" "tracks st"
  shows "turn_pings turn"
proof -
  let ?st = "ws_log [Received frame] st"
  let ?idle = "\<lambda>st. st\<lparr>ss_idle_deadline := map_option (\<lambda>d. we_now E (m @ [1]) + d) (wsc_idle_timeout cfg)\<rparr>"
  have handled: "Option.bind (run_handler_with_outbound_drain E cfg (m @ [0]) 0 (ws_log [HandlerCalled msg] ?st))
      (\<lambda>(flow, st). if flow = Ok FlowContinue then Some (Again (?idle st)) else map_option Ended (end_flow E cfg (m @ [2]) flow st)) =
        Some turn \<Longrightarrow> tracks ?st \<Longrightarrow> turn_pings turn" for msg
    by (erule handled_turn_pings [where g = ?idle]) (simp_all add: adds_def)
  have idle: "tracks (st'\<lparr>ss_idle_deadline := d\<rparr>) = tracks st'" for st' d by (simp add: tracks_def split: option.split)
  show ?thesis
  proof (cases frame)
    case (TextFrame t)
    then show ?thesis using assms handled tracks_received [OF assms(2), of frame] by (simp add: session_message_def Let_def del: One_nat_def)
  next
    case (BinaryFrame b)
    then show ?thesis using assms handled tracks_received [OF assms(2), of frame] by (simp add: session_message_def Let_def del: One_nat_def)
  next
    case (PongFrame payload)
    have one: "one_ping (ss_trace st @ [Received (PongFrame payload)])" "numbered (ss_trace st @ [Received (PongFrame payload)])"
      "ping_payloads (ss_trace st @ [Received (PongFrame payload)]) = ping_payloads (ss_trace st)"
      using assms(2) one_ping_append [of "ss_trace st" "[Received (PongFrame payload)]"]
      by (auto simp: tracks_def numbered_def ping_payloads_def)
    then have "tracks (case ss_keepalive ?st of
        Some ka \<Rightarrow> (case ka_pending ka of
            Some p \<Rightarrow> if pp_payload p = payload then ?st\<lparr>ss_keepalive := Some (ka\<lparr>ka_pending := None\<rparr>)\<rparr> else ?st
          | None \<Rightarrow> ?st)
      | None \<Rightarrow> ?st)"
      using assms(2) PongFrame
      by (cases "ss_keepalive st") (auto simp: tracks_def ws_log_def split: option.splits)
    then show ?thesis using assms(1) PongFrame by (auto simp: session_message_def Let_def turn_pings_def idle)
  next
    case (CloseFrame c)
    then show ?thesis
      using assms tracks_pings_ok [OF tracks_received [OF assms(2), of frame]] by (auto simp: session_message_def turn_pings_def)
  qed (use assms tracks_received [OF assms(2), of frame] in \<open>auto simp: session_message_def Let_def turn_pings_def idle\<close>)
qed

lemma not_ping_event: "not_ping e \<Longrightarrow> \<not> ping_event e"
  by (cases e rule: ping_event.cases) auto

lemma quiet_turn_pings:
  assumes "quiet_turn st turn" "tracks st"
  shows "turn_pings turn"
proof (cases turn)
  case (Again st')
  then show ?thesis using assms tracks_adds by (auto simp: quiet_turn_def turn_pings_def)
next
  case (Ended e)
  obtain reason res st' where e: "e = (reason, res, st')" by (cases e)
  then obtain es where es: "adds st st' es" "list_all not_ping es" using assms(1) Ended by (auto simp: quiet_turn_def)
  then have "list_all (\<lambda>e. \<not> ping_event e) es" using not_ping_event by (auto simp: list_all_iff)
  then show ?thesis
    using pings_ok_quiet [OF tracks_pings_ok [OF assms(2)]] es(1) Ended e by (simp add: turn_pings_def adds_def)
qed

lemma session_event_pings:
  assumes "session_event E cfg m event st = Some turn" "tracks st"
  shows "turn_pings turn"
proof (cases "\<exists>frame. event = InMessage (Some (Ok frame))")
  case True
  then show ?thesis using assms session_message_pings by (auto simp: session_event_def)
next
  case False
  then show ?thesis using quiet_turn_pings [OF session_event_quiet [OF assms(1)] assms(2)] by blast
qed

lemma session_turn_pings:
  assumes "session_turn E cfg n st = Some turn" "tracks st"
  shows "turn_pings turn"
proof -
  obtain t where ping: "ping_turn E cfg [n, 0] st = Some t"
    and cont: "(case t of Ended e \<Rightarrow> Some (Ended e)
      | Again st \<Rightarrow> Option.bind (session_wait E [n, 1] st) (\<lambda>(event, st). case event of
          None \<Rightarrow> map_option Ended (end_cancelled E cfg [n, 2] (if ss_rx st then guard_release st else st))
        | Some event \<Rightarrow> session_event E cfg [n, 3] event st)) = Some turn"
    using assms by (auto simp: session_turn_def bind_eq_Some_conv)
  have t: "turn_pings t" by (rule ping_turn_pings [OF ping assms(2)])
  show ?thesis
  proof (cases t)
    case (Ended e)
    then show ?thesis using t cont by simp
  next
    case (Again st1)
    obtain event st2 where wait: "session_wait E [n, 1] st1 = Some (event, st2)"
      and fin: "(case event of None \<Rightarrow> map_option Ended (end_cancelled E cfg [n, 2] (if ss_rx st2 then guard_release st2 else st2))
        | Some event \<Rightarrow> session_event E cfg [n, 3] event st2) = Some turn"
      using cont Again by (auto simp: bind_eq_Some_conv)
    have "adds st1 st2 []" using wait by (auto simp: session_wait_def Let_def adds_def split: if_splits)
    then have st2: "tracks st2" using t Again tracks_adds [of st1 st2 "[]"] by (simp add: turn_pings_def)
    show ?thesis
    proof (cases event)
      case None
      then obtain e where e: "turn = Ended e" "end_cancelled E cfg [n, 2] (if ss_rx st2 then guard_release st2 else st2) = Some e" using fin by auto
      then show ?thesis using quiet_turn_pings [OF wait_cancelled_quiet st2] by blast
    qed (use fin session_event_pings [OF _ st2] in auto)
  qed
qed

lemma session_loop_pings:
  assumes "session_loop E cfg n st = Some out" "tracks st"
  shows "turn_pings (Ended out)"
proof -
  let ?P = "\<lambda>E cfg n st out. tracks st \<longrightarrow> turn_pings (Ended out)"
  have "?P E cfg n st out"
  proof (rule session_loop.raw_induct [where P = ?P, OF _ assms(1)], goal_cases)
    case (1 f E cfg n st out)
    then obtain turn where turn: "session_turn E cfg n st = Some turn"
      and cont: "(case turn of Ended e \<Rightarrow> Some e | Again st \<Rightarrow> f E cfg (Suc n) st) = Some out"
      by (auto simp: bind_eq_Some_conv)
    show ?case
      using session_turn_pings [OF turn] cont 1(1) by (cases turn) (auto simp: turn_pings_def)
  qed
  then show ?thesis using assms(2) by blast
qed

text \<open>Keepalive pings. In the trace of a session no ping is sent while an earlier one is unanswered, and
  the payloads of the pings are the numbers from 0 on, as eight bytes in network order, so that a pong that answers another ping
  is not taken for an answer.\<close>

theorem keepalive_pings:
  assumes "run_session E cfg outbound = Some (result, st)"
  shows "one_ping (ss_trace st) \<and> numbered (ss_trace st)"
proof -
  obtain reason res st1 where loop: "session_loop E cfg 1 (session_new E cfg outbound) = Some (reason, res, st1)"
    and tr: "ss_trace st = ss_trace st1 @ [Sealed, OnClose reason]"
    using run_session_ends [OF assms] by metis
  have "tracks (session_new E cfg outbound)"
    by (auto simp: tracks_def session_new_def one_ping_def numbered_def keepalive_new_def split: option.split)
  then have "pings_ok st1" using session_loop_pings [OF loop] by (simp add: turn_pings_def)
  then show ?thesis using pings_ok_quiet [OF _ tr] by (simp add: pings_ok_def)
qed

text \<open>A session that pings every second while the clock advances by one second a turn: the pong is answered, and the next turn pings again.\<close>

definition pong_env :: "nat WsEnv" where
  "pong_env = sample_ws_env\<lparr>we_ready := (\<lambda>m.
     if m = [1, 1] then idle_ready\<lparr>rd_next := Some (Some (Ok (PongFrame (to_be_bytes 0))))\<rparr>
     else if m = [2, 1] then idle_ready\<lparr>rd_next := Some None\<rparr>
     else idle_ready)\<rparr>"

definition pong_config :: "(unit, unit) WebSocketConfig" where
  "pong_config = sample_ws_config\<lparr>wsc_ping := Some \<lparr>pk_interval = secs 1, pk_pong_timeout = secs 5\<rparr>\<rparr>"

lemma pong_session:
  "\<exists>st. run_session pong_env pong_config True = Some (Ok (), st) \<and> ss_trace st =
     [SendFrame (PingFrame (to_be_bytes 0)) True, Received (PongFrame (to_be_bytes 0)),
      SendFrame (PingFrame (to_be_bytes 1)) True, Sealed, OnClose Eof]"
  by (simp add: run_session_def run_session_inner_def session_new_def pong_config_def sample_ws_config_def ws_config_default_def
     sample_turns pong_env_def sample_evaluation loop_goes_on loop_ends keepalive_new_def timer_leg_def next_payload_def
     checked_deadline_def instant_checked_add_def secs_def del: One_nat_def)

theorem keepalive_pings_witness:
  "\<exists>st. run_session pong_env pong_config True = Some (Ok (), st) \<and> one_ping (ss_trace st) \<and> numbered (ss_trace st) \<and>
     ping_payloads (ss_trace st) = [to_be_bytes 0, to_be_bytes 1]"
proof -
  obtain st where st: "run_session pong_env pong_config True = Some (Ok (), st)"
    and tr: "ss_trace st = [SendFrame (PingFrame (to_be_bytes 0)) True, Received (PongFrame (to_be_bytes 0)),
      SendFrame (PingFrame (to_be_bytes 1)) True, Sealed, OnClose Eof]"
    using pong_session by blast
  show ?thesis using keepalive_pings [OF st] st tr by (simp add: ping_payloads_def)
qed

end
