(* ===== verification/Ws_Handshake.thy ===== *)
theory Ws_Handshake
  imports Ws_Session_Spec Connection
begin

text \<open>
  \<^verbatim>\<open>crates/plugin-websocket/src/handshake.rs\<close> and \<^verbatim>\<open>lib.rs\<close>: from a request to upgrade to a running session. The digest of
  RFC 6455 (\<^verbatim>\<open>derive_accept_key\<close> of tungstenite) is the parameter \<open>derive\<close>. The main result is that the protocol is
  switched, the handler told and the session run only for a valid handshake that the application's check
  accepted, and in that order.
\<close>

section \<open>The request\<close>

definition match_config_path :: "RequestHead \<Rightarrow> ('h, 'c) WebSocketConfig \<Rightarrow> WsPathParams option" where
  "match_config_path head config =
     (let path = hd (split_on CHR ''?'' (head_target head)) in
      case wsc_pattern config of
        Some pattern \<Rightarrow> match_path pattern path
      | None \<Rightarrow> if path = wsc_path config then Some [] else None)"

definition asks_for_websocket :: "RequestHead \<Rightarrow> bool" where
  "asks_for_websocket head = (case header head ''upgrade'' of Some v \<Rightarrow> eq_ignore_ascii_case v ''websocket'' | None \<Rightarrow> False)"

definition ws_matches :: "RequestHead \<Rightarrow> ('h, 'c) WebSocketConfig \<Rightarrow> bool" where
  "ws_matches head config \<longleftrightarrow> match_config_path head config \<noteq> None \<and> head_method head = ''GET'' \<and> asks_for_websocket head"

definition connection_contains_upgrade :: "RequestHead \<Rightarrow> bool" where
  "connection_contains_upgrade head =
     list_ex (\<lambda>token. eq_ignore_ascii_case (str_trim token) ''upgrade'')
       (concat (map (\<lambda>(_, val). split_on CHR '','' val)
         (filter (\<lambda>(name, _). eq_ignore_ascii_case name ''connection'') (headers head))))"

definition is_valid_base64_key :: "bytes \<Rightarrow> bool" where
  "is_valid_base64_key key \<longleftrightarrow> length key = 24 \<and>
     list_all (\<lambda>b. is_ascii_alphanumeric b \<or> b = CHR ''+'' \<or> b = CHR ''/'' \<or> b = CHR ''='') key"

definition validate :: "(bytes \<Rightarrow> bytes) \<Rightarrow> RequestHead \<Rightarrow> 'x WsError + bytes" where
  "validate derive head =
     (if head_method head \<noteq> ''GET'' then Err (InvalidHandshake ''method must be GET'')
      else if rh_version head \<noteq> Http11 then Err (InvalidHandshake ''version must be HTTP/1.1'')
      else if \<not> asks_for_websocket head then Err (InvalidHandshake ''missing Upgrade: websocket'')
      else if \<not> connection_contains_upgrade head
      then Err (InvalidHandshake (''Connection header must contain '' @ [CHR 0x27] @ ''upgrade'' @ [CHR 0x27]))
      else if header head ''sec-websocket-version'' \<noteq> Some ''13'' then Err WsError.UnsupportedVersion
      else case header head ''sec-websocket-key'' of
        None \<Rightarrow> Err (InvalidHandshake ''missing Sec-WebSocket-Key'')
      | Some key \<Rightarrow>
          if \<not> is_valid_base64_key key then Err (InvalidHandshake ''invalid Sec-WebSocket-Key'')
          else Ok (derive key))"

section \<open>The answers\<close>

definition serialize_101 :: "bytes \<Rightarrow> bytes" where
  "serialize_101 accept_key =
     ''HTTP/1.1 101 Switching Protocols'' @ crlf @ ''Upgrade: websocket'' @ crlf @ ''Connection: Upgrade'' @ crlf @
     ''Sec-WebSocket-Accept: '' @ accept_key @ crlf @ crlf"

definition serialize_400 :: bytes where
  "serialize_400 = ''HTTP/1.1 400 Bad Request'' @ crlf @ ''Connection: close'' @ crlf @ ''Content-Length: 0'' @ crlf @ crlf"

definition serialize_426 :: bytes where
  "serialize_426 = ''HTTP/1.1 426 Upgrade Required'' @ crlf @ ''Sec-WebSocket-Version: 13'' @ crlf @ ''Connection: close'' @ crlf @
     ''Content-Length: 0'' @ crlf @ crlf"

section \<open>The check of the application\<close>

record 'a WsHandshakeContext =
  whc_head :: RequestHead
  whc_params :: WsPathParams
  whc_peer_addr :: "'a option"

definition handshake_header :: "'a WsHandshakeContext \<Rightarrow> bytes \<Rightarrow> bytes option" where
  "handshake_header ctx name =
     (case map snd (filter (\<lambda>(k, _). eq_ignore_ascii_case k name) (headers (whc_head ctx))) of
        [] \<Rightarrow> None
      | first # rest \<Rightarrow> if rest \<noteq> [] then None else Some first)"

definition handshake_param :: "'a WsHandshakeContext \<Rightarrow> bytes \<Rightarrow> bytes option" where
  "handshake_param ctx name = ws_params_get (whc_params ctx) name"

type_synonym 'a WsHandshakeCheck = "'a WsHandshakeContext \<Rightarrow> Response + unit"

definition normalize_rejection :: "Response \<Rightarrow> Response" where
  "normalize_rejection response =
     (if 300 \<le> r_status response \<and> r_status response < 600 \<and> \<not> is_bodyless_status (r_status response) then response
      else response_empty 400)"

section \<open>What a handler is told\<close>

text \<open>\<^verbatim>\<open>WsOpenContext\<close> and \<^verbatim>\<open>WsConnContext\<close> have the same fields; the sender is a handle of the channel made for the session.\<close>

record 'a WsOpenContext =
  woc_conn_id :: nat
  woc_sender :: Channel
  woc_params :: "(bytes \<times> bytes) list"
  woc_info :: "'a ConnRequestInfo"

text \<open>\<^verbatim>\<open>AtomicU64::fetch_add\<close>: the identifier, and what the counter is afterwards.\<close>

definition conn_id_next :: "nat \<Rightarrow> nat \<times> nat" where
  "conn_id_next counter = (counter, (counter + 1) mod 2 ^ 64)"

definition open_param :: "'a WsOpenContext \<Rightarrow> bytes \<Rightarrow> bytes option" where
  "open_param ctx name = map_option snd (find (\<lambda>(k, _). k = name) (woc_params ctx))"

definition echo_on_message :: "WsMessage \<Rightarrow> 'x + WsOutcome" where
  "echo_on_message msg = Ok (Reply [msg])"

section \<open>The upgrade\<close>

text \<open>What the environment does: whether the cancellation is ready, and what a write that completes returns (\<open>None\<close>: it
  does not), and the session's own environment.\<close>

record 'x UpgradeEnv =
  ue_cancelled :: "tick \<Rightarrow> bool"
  ue_written :: "tick \<Rightarrow> (unit + unit) option"
  ue_conn_counter :: nat
  ue_session :: "'x WsEnv"

datatype ('a, 'x) UpgradeEvent =
    CheckCalled "'a WsHandshakeContext" "Response + unit"
  | UpWrote bytes bool
  | OnOpen "'a WsOpenContext"
  | SessionRan "'x Session"

text \<open>The cancellation is polled first. \<open>None\<close>: neither is ever ready.\<close>

definition race_cancel :: "bool \<Rightarrow> 'b option \<Rightarrow> 'b option option" where
  "race_cancel cancelled fut = (if cancelled then Some None else map_option Some fut)"

text \<open>The event says whether all of the bytes were written.\<close>

definition write_racing_cancel :: "'x UpgradeEnv \<Rightarrow> tick \<Rightarrow> bytes \<Rightarrow> (('x WsError + bool) \<times> ('a, 'x) UpgradeEvent list) option" where
  "write_racing_cancel U m out =
     map_option (\<lambda>outcome. case outcome of
         None \<Rightarrow> (Ok True, [UpWrote out False])
       | Some (Ok _) \<Rightarrow> (Ok False, [UpWrote out True])
       | Some (Err _) \<Rightarrow> (Err WsIo, [UpWrote out False]))
       (race_cancel (ue_cancelled U m) (ue_written U m))"

text \<open>The answer to a request that is turned down: \<open>result\<close> unless the write failed.\<close>

definition turn_down :: "'x UpgradeEnv \<Rightarrow> tick \<Rightarrow> bytes \<Rightarrow> 'x WsError + unit \<Rightarrow>
    (('x WsError + unit) \<times> ('a, 'x) UpgradeEvent list) option" where
  "turn_down U m out result =
     map_option (\<lambda>(written, es). (case written of Err e \<Rightarrow> Err e | Ok _ \<Rightarrow> result, es)) (write_racing_cancel U m out)"

definition run_check :: "('h, 'a WsHandshakeCheck) WebSocketConfig \<Rightarrow> 'a WsHandshakeContext \<Rightarrow> Response option \<times> ('a, 'x) UpgradeEvent list" where
  "run_check config ctx =
     (case wsc_handshake_check config of
        None \<Rightarrow> (None, [])
      | Some check \<Rightarrow>
          (case check ctx of Err rejection \<Rightarrow> (Some rejection, [CheckCalled ctx (Err rejection)]) | Ok u \<Rightarrow> (None, [CheckCalled ctx (Ok u)])))"

definition open_context :: "'x UpgradeEnv \<Rightarrow> ('h, 'c) WebSocketConfig \<Rightarrow> WsPathParams \<Rightarrow> RequestHead \<Rightarrow> 'a option \<Rightarrow> 'a WsOpenContext" where
  "open_context U config params head peer_addr =
     \<lparr>woc_conn_id = fst (conn_id_next (ue_conn_counter U)), woc_sender = channel (wsc_outbound_capacity config), woc_params = params,
      woc_info = conn_info_from_head head peer_addr\<rparr>"

definition establish :: "'x UpgradeEnv \<Rightarrow> bytes \<Rightarrow> ('h, 'c) WebSocketConfig \<Rightarrow> 'a WsOpenContext \<Rightarrow>
    (('x WsError + unit) \<times> ('a, 'x) UpgradeEvent list) option" where
  "establish U accept_key config ctx =
     Option.bind (write_racing_cancel U [2] (serialize_101 accept_key)) (\<lambda>(written, es).
       case written of
         Err e \<Rightarrow> Some (Err e, es)
       | Ok cancelled \<Rightarrow>
           if cancelled then Some (Ok (), es)
           else map_option (\<lambda>(result, st). (result, es @ [OnOpen ctx, SessionRan st])) (run_session (ue_session U) config True))"

definition handle_upgrade_with_peer_addr :: "(bytes \<Rightarrow> bytes) \<Rightarrow> 'x UpgradeEnv \<Rightarrow> RequestHead \<Rightarrow> ('h, 'a WsHandshakeCheck) WebSocketConfig \<Rightarrow>
    'a option \<Rightarrow> (('x WsError + unit) \<times> ('a, 'x) UpgradeEvent list) option" where
  "handle_upgrade_with_peer_addr derive U head config peer_addr =
     (if ue_cancelled U [0] then Some (Ok (), [])
      else case validate derive head of
        Err WsError.UnsupportedVersion \<Rightarrow> turn_down U [1] serialize_426 (Err WsError.UnsupportedVersion)
      | Err (InvalidHandshake reason) \<Rightarrow> turn_down U [1] serialize_400 (Err (InvalidHandshake reason))
      | Err err \<Rightarrow> Some (Err err, [])
      | Ok accept_key \<Rightarrow>
          (let matched_params = (case match_config_path head config of Some params \<Rightarrow> params | None \<Rightarrow> []);
               ctx = \<lparr>whc_head = head, whc_params = matched_params, whc_peer_addr = peer_addr\<rparr>
           in case run_check config ctx of
                (Some rejection, checked) \<Rightarrow>
                  map_option (\<lambda>(result, es). (result, checked @ es))
                    (turn_down U [1] (serialize (normalize_rejection rejection) False) (Ok ()))
              | (None, checked) \<Rightarrow>
                  map_option (\<lambda>(result, es). (result, checked @ es))
                    (establish U accept_key config (open_context U config matched_params head peer_addr))))"

definition handle_upgrade :: "(bytes \<Rightarrow> bytes) \<Rightarrow> 'x UpgradeEnv \<Rightarrow> RequestHead \<Rightarrow> ('h, 'a WsHandshakeCheck) WebSocketConfig \<Rightarrow>
    (('x WsError + unit) \<times> ('a, 'x) UpgradeEvent list) option" where
  "handle_upgrade derive U head config = handle_upgrade_with_peer_addr derive U head config None"

section \<open>Valid requests\<close>

text \<open>The opening handshake of RFC 6455, section 4.2.1, as the server requires it.\<close>

definition rfc6455_request :: "RequestHead \<Rightarrow> bytes \<Rightarrow> bool" where
  "rfc6455_request head key \<longleftrightarrow>
     head_method head = ''GET'' \<and> rh_version head = Http11 \<and>
     (\<exists>v. header head ''upgrade'' = Some v \<and> eq_ignore_ascii_case v ''websocket'') \<and>
     list_ex (\<lambda>token. eq_ignore_ascii_case token ''upgrade'') (connection_tokens head) \<and>
     header head ''sec-websocket-version'' = Some ''13'' \<and>
     header head ''sec-websocket-key'' = Some key \<and> is_valid_base64_key key"

definition accepted :: "('h, 'a WsHandshakeCheck) WebSocketConfig \<Rightarrow> 'a WsHandshakeContext \<Rightarrow> bool" where
  "accepted config ctx = (case wsc_handshake_check config of Some check \<Rightarrow> check ctx = Ok () | None \<Rightarrow> True)"

definition offered :: "RequestHead \<Rightarrow> ('h, 'c) WebSocketConfig \<Rightarrow> 'a option \<Rightarrow> 'a WsHandshakeContext" where
  "offered head config peer_addr =
     \<lparr>whc_head = head, whc_params = (case match_config_path head config of Some params \<Rightarrow> params | None \<Rightarrow> []), whc_peer_addr = peer_addr\<rparr>"

lemma connection_upgrade_tokens:
  "connection_contains_upgrade head = list_ex (\<lambda>token. eq_ignore_ascii_case token ''upgrade'') (connection_tokens head)"
  by (auto simp: connection_contains_upgrade_def connection_tokens_def list_ex_iff)

lemma validate_ok: "validate derive head = Ok a \<longleftrightarrow> (\<exists>key. rfc6455_request head key \<and> a = derive key)"
  by (auto simp: validate_def rfc6455_request_def asks_for_websocket_def connection_upgrade_tokens split: option.splits if_splits)

lemma validate_err:
  assumes "validate derive head = Err e"
  shows "e = WsError.UnsupportedVersion \<or> (\<exists>reason. e = InvalidHandshake reason)"
  using assms by (auto simp: validate_def split: option.splits if_splits)

lemma run_check_accepted:
  "run_check config ctx = (None, es) \<Longrightarrow> accepted config ctx"
  "run_check config ctx = (Some rejection, es) \<Longrightarrow> \<not> accepted config ctx"
  by (auto simp: run_check_def accepted_def split: option.splits sum.splits)

section \<open>A refusal is not a switch of protocols\<close>

lemma status_digits:
  assumes "100 \<le> n" "n < 1000"
  shows "dec_loop n [] = [char_of (48 + n div 100), char_of (48 + n div 10 mod 10), char_of (48 + n mod 10)]"
proof -
  have "n div 10 \<noteq> 0" "n div 100 \<noteq> 0" "n div 1000 = 0" "n div 100 < 10" using assms by auto
  then show ?thesis by (simp add: dec_loop.simps [of n] dec_loop.simps [of "n div 10"] dec_loop.simps [of "n div 100"] div_mult2_eq [symmetric] Let_def)
qed

lemma refusal_status: "300 \<le> r_status (normalize_rejection r)" "r_status (normalize_rejection r) < 600"
  by (auto simp: normalize_rejection_def response_empty_def response_new_def)

lemma serialize_starts: "\<exists>rest. serialize r keep_alive = ''HTTP/1.1 '' @ dec_loop (r_status r) [] @ rest"
proof -
  have fields: "\<exists>rest. write_fields r out = out @ rest" for out
  proof -
    have "\<exists>rest. foldl (\<lambda>out (name, val).
           if r_content_type r \<noteq> None \<and> eq_ignore_ascii_case name ''content-type'' then out
           else if r_allow r \<noteq> None \<and> eq_ignore_ascii_case name ''allow'' then out
           else write_field out name val) out' hs = out' @ rest" for out' hs
    proof (induction hs arbitrary: out')
      case (Cons h hs)
      obtain name val where h: "h = (name, val)" by (cases h)
      show ?case using Cons.IH [of out'] Cons.IH [of "write_field out' name val"] by (auto simp: h write_field_def)
    qed simp
    moreover have "\<exists>rest. (case r_allow r of Some a \<Rightarrow> write_field out' ''Allow'' (allow_header_value a) | None \<Rightarrow> out') = out' @ rest" for out'
      by (auto simp: write_field_def split: option.split)
    moreover have "\<exists>rest. (case r_content_type r of Some ct \<Rightarrow> write_field out' ''Content-Type'' ct | None \<Rightarrow> out') = out' @ rest" for out'
      by (auto simp: write_field_def split: option.split)
    ultimately show ?thesis unfolding write_fields_def Let_def by (metis append_assoc)
  qed
  obtain rest where "write_fields r (''HTTP/1.1 '' @ dec_loop (r_status r) [] @ '' '' @ reason_phrase (r_status r) @ crlf) =
      (''HTTP/1.1 '' @ dec_loop (r_status r) [] @ '' '' @ reason_phrase (r_status r) @ crlf) @ rest"
    using fields by blast
  then show ?thesis by (simp add: serialize_def serialize_into_def write_decimal_def write_field_def Let_def)
qed

lemma refusal_not_101:
  "\<not> prefix ''HTTP/1.1 101'' (serialize (normalize_rejection r) False)"
  "\<not> prefix ''HTTP/1.1 101'' serialize_400" "\<not> prefix ''HTTP/1.1 101'' serialize_426"
proof -
  let ?n = "r_status (normalize_rejection r)"
  have "char_of (48 + ?n div 100) \<noteq> CHR ''1''"
  proof
    assume "char_of (48 + ?n div 100) = CHR ''1''"
    then have "of_char (char_of (48 + ?n div 100) :: char) = (49 :: nat)" by simp
    then show False using refusal_status [of r] by auto
  qed
  moreover have "dec_loop ?n [] = [char_of (48 + ?n div 100), char_of (48 + ?n div 10 mod 10), char_of (48 + ?n mod 10)]"
    using refusal_status [of r] by (intro status_digits) auto
  ultimately show "\<not> prefix ''HTTP/1.1 101'' (serialize (normalize_rejection r) False)"
    using serialize_starts [of "normalize_rejection r" False] by auto
qed (simp_all add: serialize_400_def serialize_426_def)

section \<open>The upgrade fails closed\<close>

lemma write_racing_cancel_event:
  assumes "write_racing_cancel U m out = Some (written, es)"
  shows "es = [UpWrote out (written = Ok False)]"
  using assms by (auto simp: write_racing_cancel_def race_cancel_def map_option_case split: if_splits sum.splits option.splits)

lemma turn_down_writes:
  assumes "turn_down U m out res = Some (result, es)"
  shows "\<exists>ok. es = [UpWrote out ok]"
proof -
  obtain written where "write_racing_cancel U m out = Some (written, es)" using assms by (auto simp: turn_down_def)
  then show ?thesis using write_racing_cancel_event by blast
qed

lemma establish_writes:
  fixes es :: "('a, 'x) UpgradeEvent list"
  assumes "establish U key config ctx = Some (result, es)"
  shows "es = [UpWrote (serialize_101 key) False] \<or>
    (\<exists>st. es = [UpWrote (serialize_101 key) True, OnOpen ctx, SessionRan st] \<and> run_session (ue_session U) config True = Some (result, st))"
proof -
  obtain written and es' :: "('a, 'x) UpgradeEvent list" where w: "write_racing_cancel U [2] (serialize_101 key) = Some (written, es')"
    using assms by (auto simp: establish_def bind_eq_Some_conv)
  show ?thesis using assms w write_racing_cancel_event [OF w] by (auto simp: establish_def split: sum.splits if_splits)
qed

text \<open>C15. An upgrade fails closed. Unless it was cancelled before it began, exactly one answer is written. It is not an answer 101
  when the request is not an opening handshake of RFC 6455 or the application's check rejected it, whatever response the
  check returned. Otherwise it is the answer 101 for the client's key, and only when it was written completely the handler is told of the
  connection and then the session runs, once each.\<close>

theorem upgrade_fail_closed:
  fixes es :: "('a, 'x) UpgradeEvent list"
  assumes "handle_upgrade_with_peer_addr derive U head config peer_addr = Some (result, es)"
  shows "ue_cancelled U [0] \<and> es = [] \<and> result = Ok () \<or>
    \<not> ue_cancelled U [0] \<and>
    (\<exists>checked. list_all (\<lambda>e. \<exists>answer. e = CheckCalled (offered head config peer_addr) answer) checked \<and>
      (((\<nexists>key. rfc6455_request head key) \<or> \<not> accepted config (offered head config peer_addr)) \<and>
        (\<exists>out ok. es = checked @ [UpWrote out ok] \<and> \<not> prefix ''HTTP/1.1 101'' out) \<or>
       (\<exists>key. rfc6455_request head key \<and> accepted config (offered head config peer_addr) \<and>
        (es = checked @ [UpWrote (serialize_101 (derive key)) False] \<or>
         (\<exists>ctx st. es = checked @ [UpWrote (serialize_101 (derive key)) True, OnOpen ctx, SessionRan st] \<and>
           woc_params ctx = whc_params (offered head config peer_addr) \<and> woc_info ctx = conn_info_from_head head peer_addr \<and>
           run_session (ue_session U) config True = Some (result, st))))))"
proof (cases "ue_cancelled U [0]")
  case True
  then show ?thesis using assms by (simp add: handle_upgrade_with_peer_addr_def)
next
  case False
  let ?ctx = "offered head config peer_addr"
  show ?thesis
  proof (cases "validate derive head :: 'x WsError + bytes")
    case (Inl e)
    then have none: "\<nexists>key. rfc6455_request head key" using validate_ok [of derive head, where 'a = 'x] by (metis Inl_Inr_False)
    have "\<exists>out ok. es = [UpWrote out ok] \<and> \<not> prefix ''HTTP/1.1 101'' out"
      using validate_err [OF Inl] assms False Inl turn_down_writes refusal_not_101(2,3)
      by (fastforce simp: handle_upgrade_with_peer_addr_def)
    with none show ?thesis by - (rule disjI2, rule conjI [OF False], rule exI [of _ "[]"], auto)
  next
    case (Inr accept_key)
    then obtain key where key: "rfc6455_request head key" "accept_key = derive key" using validate_ok by blast
    obtain rejection and checked :: "('a, 'x) UpgradeEvent list" where check: "run_check config ?ctx = (rejection, checked)" by fastforce
    then have checks: "list_all (\<lambda>e. \<exists>answer. e = CheckCalled ?ctx answer) checked"
      by (auto simp: run_check_def split: option.splits sum.splits)
    show ?thesis
    proof (cases rejection)
      case None
      obtain es' where es': "es = checked @ es'" "establish U accept_key config (open_context U config (whc_params ?ctx) head peer_addr) = Some (result, es')"
        using assms False Inr check None by (auto simp: handle_upgrade_with_peer_addr_def offered_def Let_def)
      have "woc_params (open_context U config (whc_params ?ctx) head peer_addr) = whc_params ?ctx"
        "woc_info (open_context U config (whc_params ?ctx) head peer_addr) = conn_info_from_head head peer_addr"
        by (simp_all add: open_context_def)
      then show ?thesis
        using False checks key(1) run_check_accepted(1) [OF check [unfolded None]] establish_writes [OF es'(2)] unfolding es'(1) key(2)
        by blast
    next
      case (Some r)
      obtain es' where es': "es = checked @ es'" "turn_down U [1] (serialize (normalize_rejection r) False) (Ok ()) = Some (result, es')"
        using assms False Inr check Some by (auto simp: handle_upgrade_with_peer_addr_def offered_def Let_def simp del: One_nat_def)
      obtain ok where "es = checked @ [UpWrote (serialize (normalize_rejection r) False) ok]" using turn_down_writes [OF es'(2)] es'(1) by blast
      then show ?thesis
        using run_check_accepted(2) [OF check [unfolded Some]] refusal_not_101(1) [of r]
        by - (rule disjI2, rule conjI [OF False], rule exI [of _ checked], rule conjI [OF checks], rule disjI1, blast)
    qed
  qed
qed

text \<open>The handshake of RFC 6455, section 1.3, with a digest that returns the key.\<close>

definition sample_ws_head :: RequestHead where
  "sample_ws_head = mk_head ''GET'' ''/ws?x=1'' Http11 [(''Host'', ''a''), (''Upgrade'', ''WebSocket''), (''Connection'', ''keep-alive, Upgrade''),
     (''Sec-WebSocket-Version'', ''13''), (''Sec-WebSocket-Key'', ''dGhlIHNhbXBsZSBub25jZQ=='')]"

definition sample_upgrade_env :: "nat UpgradeEnv" where
  "sample_upgrade_env = \<lparr>ue_cancelled = (\<lambda>_. False), ue_written = (\<lambda>_. Some (Ok ())), ue_conn_counter = 1, ue_session = sample_ws_env\<rparr>"

definition sample_upgrade_config :: "(unit, nat WsHandshakeCheck) WebSocketConfig" where
  "sample_upgrade_config = ws_config_default ()"

lemma sample_validate: "(validate (\<lambda>k. k) sample_ws_head :: nat WsError + bytes) = Ok ''dGhlIHNhbXBsZSBub25jZQ==''"
  by code_simp

lemma sample_upgrade_session:
  "\<exists>st. run_session sample_ws_env sample_upgrade_config True = Some (Ok (), st)"
  by (simp add: run_session_def run_session_inner_def session_new_def sample_upgrade_config_def ws_config_default_def DEFAULT_OUTBOUND_CAPACITY_def
     sample_turns sample_evaluation loop_goes_on loop_ends del: One_nat_def)

lemma sample_upgrade: 
  "\<exists>st. handle_upgrade_with_peer_addr (\<lambda>k. k) sample_upgrade_env sample_ws_head sample_upgrade_config (Some 7) =
     Some (Ok (), [UpWrote (serialize_101 ''dGhlIHNhbXBsZSBub25jZQ=='') True,
       OnOpen (open_context sample_upgrade_env sample_upgrade_config
         (case match_config_path sample_ws_head sample_upgrade_config of Some params \<Rightarrow> params | None \<Rightarrow> []) sample_ws_head (Some 7)), SessionRan st])"
proof -
  have "wsc_handshake_check sample_upgrade_config = None" by (simp add: sample_upgrade_config_def ws_config_default_def)
  then show ?thesis
    using sample_upgrade_session
    by (auto simp: sample_validate handle_upgrade_with_peer_addr_def sample_upgrade_env_def run_check_def establish_def write_racing_cancel_def race_cancel_def Let_def)
qed

theorem upgrade_fail_closed_witness:
  "\<exists>key ctx st. rfc6455_request sample_ws_head key \<and>
     handle_upgrade_with_peer_addr (\<lambda>k. k) sample_upgrade_env sample_ws_head sample_upgrade_config (Some 7) =
       Some (Ok (), [UpWrote (serialize_101 key) True, OnOpen ctx, SessionRan st])"
proof -
  obtain ctx st where run: "handle_upgrade_with_peer_addr (\<lambda>k. k) sample_upgrade_env sample_ws_head sample_upgrade_config (Some 7) =
     Some (Ok (), [UpWrote (serialize_101 ''dGhlIHNhbXBsZSBub25jZQ=='') True, OnOpen ctx, SessionRan st])"
    using sample_upgrade by blast
  show ?thesis using upgrade_fail_closed [OF run] run by (auto simp: sample_upgrade_env_def append_eq_Cons_conv)
qed

end
