(* ===== verification/Jwt_Policy.thy ===== *)
theory Jwt_Policy
  imports Ascii
begin

text \<open>
  \<^verbatim>\<open>crates/plugin-jwt/src/policy.rs\<close>: what a resource server requires of an access token. A \<^verbatim>\<open>Duration\<close> is a number of
  nanoseconds.
\<close>

section \<open>Durations\<close>

definition NANOS_PER_SEC :: nat where "NANOS_PER_SEC = 1000000000"

definition from_secs :: "nat \<Rightarrow> nat" where "from_secs n = n * NANOS_PER_SEC"

definition as_secs :: "nat \<Rightarrow> nat" where "as_secs d = d div NANOS_PER_SEC"

text \<open>\<^verbatim>\<open>u64::saturating_add\<close>; \<^verbatim>\<open>saturating_sub\<close> is the subtraction of natural numbers.\<close>

definition saturating_add :: "nat \<Rightarrow> nat \<Rightarrow> nat" where
  "saturating_add a b = min (a + b) U64_MAX"

section \<open>Issuer and audiences\<close>

definition MAX_CLOCK_SKEW :: nat where "MAX_CLOCK_SKEW = from_secs 300"
definition MAX_CLAIM_VALUE_LEN :: nat where "MAX_CLAIM_VALUE_LEN = 1024"
definition MAX_AUDIENCES :: nat where "MAX_AUDIENCES = 16"

datatype PolicyError =
    EmptyIssuer | EmptyAudience | TooManyAudiences | ClaimValueTooLong | NoAllowedAlgorithms | ClockSkewTooLarge

definition check_claim_value :: "bytes \<Rightarrow> PolicyError + unit" where
  "check_claim_value val = (if length val > MAX_CLAIM_VALUE_LEN then Err ClaimValueTooLong else Ok ())"

type_synonym Issuer = bytes
type_synonym Audiences = "bytes list"

definition issuer_new :: "bytes \<Rightarrow> PolicyError + Issuer" where
  "issuer_new val =
     (if val = [] then Err EmptyIssuer else res_bind (check_claim_value val) (\<lambda>_. Ok val))"

fun audiences_loop :: "bytes list \<Rightarrow> bytes list \<Rightarrow> PolicyError + bytes list" where
  "audiences_loop [] out = Ok out"
| "audiences_loop (v # vs) out =
     (if v = [] then Err EmptyAudience
      else res_bind (check_claim_value v) (\<lambda>_.
        if list_ex (\<lambda>e. e = v) out then audiences_loop vs out
        else if length out \<ge> MAX_AUDIENCES then Err TooManyAudiences
        else audiences_loop vs (out @ [v])))"

definition audiences_new :: "bytes list \<Rightarrow> PolicyError + Audiences" where
  "audiences_new vs =
     res_bind (audiences_loop vs []) (\<lambda>out. if out = [] then Err EmptyAudience else Ok out)"

definition audiences_single :: "bytes \<Rightarrow> PolicyError + Audiences" where
  "audiences_single v = audiences_new [v]"

definition audiences_contains :: "Audiences \<Rightarrow> bytes \<Rightarrow> bool" where
  "audiences_contains auds aud = list_ex (\<lambda>a. a = aud) auds"

section \<open>Algorithms\<close>

datatype Algorithm = Rs256 | Es256

definition as_jose_name :: "Algorithm \<Rightarrow> bytes" where
  "as_jose_name a = (case a of Rs256 \<Rightarrow> ''RS256'' | Es256 \<Rightarrow> ''ES256'')"

definition from_jose_name :: "bytes \<Rightarrow> Algorithm option" where
  "from_jose_name name =
     (if name = ''RS256'' then Some Rs256 else if name = ''ES256'' then Some Es256 else None)"

type_synonym AllowedAlgorithms = "Algorithm list"

fun allowed_loop :: "Algorithm list \<Rightarrow> Algorithm list \<Rightarrow> Algorithm list" where
  "allowed_loop [] out = out"
| "allowed_loop (a # as) out = allowed_loop as (if a \<notin> set out then out @ [a] else out)"

definition allowed_algorithms_new :: "Algorithm list \<Rightarrow> PolicyError + AllowedAlgorithms" where
  "allowed_algorithms_new algs =
     (let out = allowed_loop algs [] in if out = [] then Err NoAllowedAlgorithms else Ok out)"

definition allowed_only :: "Algorithm \<Rightarrow> AllowedAlgorithms" where
  "allowed_only alg = [alg]"

definition algorithms_contains :: "AllowedAlgorithms \<Rightarrow> Algorithm \<Rightarrow> bool" where
  "algorithms_contains algs alg \<longleftrightarrow> alg \<in> set algs"

section \<open>The policy\<close>

datatype TokenType = AccessToken

definition matches_header :: "TokenType \<Rightarrow> bytes \<Rightarrow> bool" where
  "matches_header t typ =
     (case t of AccessToken \<Rightarrow> eq_ignore_ascii_case typ ''at+jwt'' \<or> eq_ignore_ascii_case typ ''application/at+jwt'')"

record JwtPolicy =
  jp_issuer :: Issuer
  jp_audiences :: Audiences
  jp_algorithms :: AllowedAlgorithms
  jp_token_type :: TokenType
  jp_clock_skew :: nat

definition jwt_policy_new :: "Issuer \<Rightarrow> Audiences \<Rightarrow> AllowedAlgorithms \<Rightarrow> TokenType \<Rightarrow> JwtPolicy" where
  "jwt_policy_new issuer audiences algorithms token_type =
     \<lparr>jp_issuer = issuer, jp_audiences = audiences, jp_algorithms = algorithms, jp_token_type = token_type, jp_clock_skew = 0\<rparr>"

definition with_clock_skew :: "JwtPolicy \<Rightarrow> nat \<Rightarrow> PolicyError + JwtPolicy" where
  "with_clock_skew p skew =
     (if skew > MAX_CLOCK_SKEW then Err ClockSkewTooLarge else Ok (p\<lparr>jp_clock_skew := skew\<rparr>))"

section \<open>What a policy guarantees\<close>

lemma from_jose_name_iff: "from_jose_name name = Some a \<longleftrightarrow> name = as_jose_name a"
  by (cases a) (auto simp: from_jose_name_def as_jose_name_def)

lemma as_jose_name_inj: "as_jose_name a = as_jose_name b \<longleftrightarrow> a = b"
  by (cases a; cases b) (auto simp: as_jose_name_def)

lemma audiences_loop_ok:
  assumes "audiences_loop vs out = Ok res" "distinct out" "length out \<le> MAX_AUDIENCES"
  shows "distinct res \<and> length res \<le> MAX_AUDIENCES \<and> set res = set out \<union> set vs \<and>
    (\<forall>v\<in>set vs. v \<noteq> [] \<and> length v \<le> MAX_CLAIM_VALUE_LEN)"
  using assms
proof (induction vs arbitrary: out)
  case (Cons v vs)
  have v: "v \<noteq> []" "length v \<le> MAX_CLAIM_VALUE_LEN"
    using Cons.prems(1) by (auto simp: check_claim_value_def split: if_splits)
  show ?case
  proof (cases "v \<in> set out")
    case True
    then have "audiences_loop vs out = Ok res" using Cons.prems(1) v by (simp add: check_claim_value_def list_ex_iff)
    then show ?thesis using Cons.IH [OF _ Cons.prems(2,3)] v True by auto
  next
    case False
    then have "audiences_loop vs (out @ [v]) = Ok res" "length out < MAX_AUDIENCES"
      using Cons.prems(1) v by (simp_all add: check_claim_value_def list_ex_iff split: if_splits)
    then show ?thesis using Cons.IH [of "out @ [v]"] Cons.prems(2) v False by auto
  qed
qed simp

lemma audiences_new_ok:
  assumes "audiences_new vs = Ok auds"
  shows "auds \<noteq> []" "distinct auds" "length auds \<le> MAX_AUDIENCES" "set auds = set vs"
    "\<forall>v\<in>set auds. v \<noteq> [] \<and> length v \<le> MAX_CLAIM_VALUE_LEN"
  using assms audiences_loop_ok [of vs "[]"] by (auto simp: audiences_new_def res_bind_eq_Ok split: if_splits)

lemma allowed_loop_set: "set (allowed_loop algs out) = set out \<union> set algs"
  by (induction algs out rule: allowed_loop.induct) auto

lemma allowed_algorithms_ok: "allowed_algorithms_new algs = Ok res \<Longrightarrow> res \<noteq> [] \<and> set res = set algs"
  using allowed_loop_set [of algs "[]"] by (auto simp: allowed_algorithms_new_def Let_def split: if_splits)

end
