(* ===== verification/Jwt_Keys.thy ===== *)
theory Jwt_Keys
  imports Jwt_Policy
begin

text \<open>
  \<^verbatim>\<open>crates/plugin-jwt/src/jwks.rs\<close>: the key set of an identity provider. The JSON deserialiser (\<^verbatim>\<open>serde_json\<close>, which
  delivers the members of every key) and base64url decoding (the crate \<^verbatim>\<open>base64\<close>) are parameters. The main result is what holds
  of every key of an accepted document.
\<close>

section \<open>Keys\<close>

definition MAX_JWKS_DOC_LEN :: nat where "MAX_JWKS_DOC_LEN = 64 * 1024"
definition MAX_KEYS :: nat where "MAX_KEYS = 32"
definition MAX_KEYS_PER_KID :: nat where "MAX_KEYS_PER_KID = 3"
definition MAX_KID_LEN :: nat where "MAX_KID_LEN = 256"
definition MAX_RSA_N_LEN :: nat where "MAX_RSA_N_LEN = 1024"
definition MAX_RSA_E_LEN :: nat where "MAX_RSA_E_LEN = 8"
definition EC_P256_COORD_LEN :: nat where "EC_P256_COORD_LEN = 32"

datatype JwksError =
    DocumentTooLarge | InvalidJson | TooManyKeys | TooManyKeysForKeyId | MissingKeyId | KeyIdTooLong | MissingAlgorithm
  | KeyAlgorithmMismatch | UnsupportedCurve | ForbiddenAlgorithm | SymmetricKey | PrivateKeyMaterial | MissingKeyComponent
  | InvalidKeyEncoding | KeyTooLarge | InvalidKeyLength | DuplicateKey | NoUsableKeys

datatype KeyMaterial = Rsa bytes bytes | EcP256 bytes

record Jwk =
  jwk_kid :: bytes
  jwk_alg :: Algorithm
  jwk_material :: KeyMaterial

record KeySet =
  ks_keys :: "Jwk list"
  ks_skipped :: nat

definition keyset_empty :: KeySet where
  "keyset_empty = \<lparr>ks_keys = [], ks_skipped = 0\<rparr>"

definition keys_for :: "KeySet \<Rightarrow> bytes \<Rightarrow> Jwk list" where
  "keys_for ks kid = filter (\<lambda>k. jwk_kid k = kid) (ks_keys ks)"

text \<open>The members of a key as the deserialiser delivers them; the members of private and of symmetric keys only as present or not.\<close>

record RawJwk =
  rj_kty :: "bytes option"
  rj_kid :: "bytes option"
  rj_alg :: "bytes option"
  rj_use :: "bytes option"
  rj_crv :: "bytes option"
  rj_n :: "bytes option"
  rj_e :: "bytes option"
  rj_x :: "bytes option"
  rj_y :: "bytes option"
  rj_d :: bool
  rj_p :: bool
  rj_q :: bool
  rj_dp :: bool
  rj_dq :: bool
  rj_qi :: bool
  rj_oth :: bool
  rj_k :: bool

definition SKIPPABLE_RSA_ALGS :: "bytes list" where
  "SKIPPABLE_RSA_ALGS = [''RS384'', ''RS512'', ''PS256'', ''PS384'', ''PS512'', ''RSA1_5'', ''RSA-OAEP'', ''RSA-OAEP-256'']"

definition SKIPPABLE_EC_ALGS :: "bytes list" where
  "SKIPPABLE_EC_ALGS = [''ECDH-ES'', ''ECDH-ES+A128KW'', ''ECDH-ES+A192KW'', ''ECDH-ES+A256KW'']"

section \<open>Key components\<close>

definition encoded_cap :: "nat \<Rightarrow> nat" where
  "encoded_cap n = n * 4 div 3 + 4"

definition decode_rsa :: "(bytes \<Rightarrow> bytes option) \<Rightarrow> bytes option \<Rightarrow> nat \<Rightarrow> JwksError + bytes" where
  "decode_rsa decode s limit =
     res_bind (ok_or MissingKeyComponent s) (\<lambda>s.
       if length s > encoded_cap limit + 8 then Err KeyTooLarge
       else res_bind (ok_or InvalidKeyEncoding (decode s)) (\<lambda>content.
         let trimmed = dropWhile (\<lambda>b. b = CHR 0x00) content in
         if trimmed = [] then Err InvalidKeyEncoding
         else if length trimmed > limit then Err KeyTooLarge
         else Ok trimmed))"

definition decode_coord :: "(bytes \<Rightarrow> bytes option) \<Rightarrow> bytes option \<Rightarrow> JwksError + bytes" where
  "decode_coord decode s =
     res_bind (ok_or MissingKeyComponent s) (\<lambda>s.
       if length s > encoded_cap EC_P256_COORD_LEN then Err InvalidKeyLength
       else res_bind (ok_or InvalidKeyEncoding (decode s)) (\<lambda>content.
         if length content = EC_P256_COORD_LEN then Ok content else Err InvalidKeyLength))"

section \<open>One key\<close>

definition private_members :: "RawJwk \<Rightarrow> bool" where
  "private_members raw \<longleftrightarrow> rj_d raw \<or> rj_p raw \<or> rj_q raw \<or> rj_dp raw \<or> rj_dq raw \<or> rj_qi raw \<or> rj_oth raw \<or> rj_k raw"

text \<open>The key types that an algorithm name allows; \<open>None\<close>: any.\<close>

definition required_kty :: "bytes \<Rightarrow> bytes list option" where
  "required_kty a =
     (if starts_with ''RS'' a \<or> starts_with ''PS'' a \<or> starts_with ''RSA'' a then Some [''RSA'']
      else if starts_with ''ECDH-ES'' a then Some [''EC'', ''OKP'']
      else if starts_with ''ES'' a then Some [''EC'']
      else None)"

definition required_crv :: "bytes \<Rightarrow> bytes option" where
  "required_crv a =
     (if a = ''ES256'' then Some ''P-256'' else if a = ''ES384'' then Some ''P-384''
      else if a = ''ES512'' then Some ''P-521'' else None)"

definition alg_fits_key :: "bytes \<Rightarrow> bytes \<Rightarrow> bytes option \<Rightarrow> JwksError + unit" where
  "alg_fits_key a kty crv =
     (if (case required_kty a of Some req \<Rightarrow> kty \<notin> set req | None \<Rightarrow> False) then Err KeyAlgorithmMismatch
      else if (case required_crv a of Some rc \<Rightarrow> kty = ''EC'' \<and> crv \<noteq> Some rc | None \<Rightarrow> False)
      then Err (if a = ''ES256'' then UnsupportedCurve else KeyAlgorithmMismatch)
      else Ok ())"

definition usable_key :: "(bytes \<Rightarrow> bytes option) \<Rightarrow> RawJwk \<Rightarrow> Algorithm \<Rightarrow> JwksError + Jwk" where
  "usable_key decode raw algorithm =
     res_bind (ok_or MissingKeyId (case rj_kid raw of Some k \<Rightarrow> if k = [] then None else Some k | None \<Rightarrow> None)) (\<lambda>kid.
       if length kid > MAX_KID_LEN then Err KeyIdTooLong
       else res_bind (ok_or MissingAlgorithm (rj_alg raw)) (\<lambda>alg.
         if alg \<noteq> as_jose_name algorithm then Err KeyAlgorithmMismatch
         else res_bind
           (case algorithm of
              Rs256 \<Rightarrow> res_bind (decode_rsa decode (rj_n raw) MAX_RSA_N_LEN) (\<lambda>n.
                res_bind (decode_rsa decode (rj_e raw) MAX_RSA_E_LEN) (\<lambda>e. Ok (Rsa n e)))
            | Es256 \<Rightarrow> res_bind (decode_coord decode (rj_x raw)) (\<lambda>x.
                res_bind (decode_coord decode (rj_y raw)) (\<lambda>y. Ok (EcP256 (CHR 0x04 # x @ y)))))
           (\<lambda>material. Ok \<lparr>jwk_kid = kid, jwk_alg = algorithm, jwk_material = material\<rparr>)))"

text \<open>The first half of \<^verbatim>\<open>classify\<close>: what makes the whole document unacceptable.\<close>

definition entry_allowed :: "RawJwk \<Rightarrow> bytes \<Rightarrow> JwksError + unit" where
  "entry_allowed raw kty =
     (if kty = ''oct'' then Err SymmetricKey
      else if (case rj_alg raw of Some a \<Rightarrow> eq_ignore_ascii_case a ''none'' \<or> a \<in> {''HS256'', ''HS384'', ''HS512''} | None \<Rightarrow> False)
      then Err ForbiddenAlgorithm
      else if private_members raw then Err PrivateKeyMaterial
      else case rj_alg raw of Some a \<Rightarrow> alg_fits_key a kty (rj_crv raw) | None \<Rightarrow> Ok ())"

text \<open>The second half: which keys are of use here.\<close>

definition adopt :: "(bytes \<Rightarrow> bytes option) \<Rightarrow> RawJwk \<Rightarrow> bytes \<Rightarrow> JwksError + Jwk option" where
  "adopt decode raw kty =
     (if (case rj_use raw of Some u \<Rightarrow> u \<noteq> ''sig'' | None \<Rightarrow> False) then Ok None
      else
        let is_rsa = (kty = ''RSA''); is_ec = (kty = ''EC'') in
        if is_ec \<and> rj_crv raw = None then Err UnsupportedCurve
        else if \<not> (is_rsa \<or> is_ec \<and> rj_crv raw = Some ''P-256'') then Ok None
        else
          let algorithm = (if is_rsa then Rs256 else Es256);
              skippable = (if is_rsa then SKIPPABLE_RSA_ALGS else SKIPPABLE_EC_ALGS)
          in if (case rj_alg raw of Some a \<Rightarrow> a \<noteq> as_jose_name algorithm \<and> a \<in> set skippable | None \<Rightarrow> False) then Ok None
             else res_bind (usable_key decode raw algorithm) (\<lambda>k. Ok (Some k)))"

definition classify :: "(bytes \<Rightarrow> bytes option) \<Rightarrow> RawJwk \<Rightarrow> JwksError + Jwk option" where
  "classify decode raw =
     res_bind (ok_or InvalidJson (rj_kty raw)) (\<lambda>kty. res_bind (entry_allowed raw kty) (\<lambda>_. adopt decode raw kty))"

section \<open>The document\<close>

fun classify_all :: "(bytes \<Rightarrow> bytes option) \<Rightarrow> RawJwk list \<Rightarrow> Jwk list \<Rightarrow> nat \<Rightarrow> JwksError + Jwk list \<times> nat" where
  "classify_all decode [] keys skipped = Ok (keys, skipped)"
| "classify_all decode (entry # entries) keys skipped =
     res_bind (classify decode entry) (\<lambda>c. case c of
       Some jwk \<Rightarrow> classify_all decode entries (keys @ [jwk]) skipped
     | None \<Rightarrow> classify_all decode entries keys (Suc skipped))"

fun check_keys :: "Jwk list \<Rightarrow> Jwk list \<Rightarrow> Jwk list \<Rightarrow> JwksError + unit" where
  "check_keys keys before [] = Ok ()"
| "check_keys keys before (a # rest) =
     (if length (filter (\<lambda>b. jwk_kid b = jwk_kid a) keys) > MAX_KEYS_PER_KID then Err TooManyKeysForKeyId
      else if list_ex (\<lambda>b. b = a) before then Err DuplicateKey
      else check_keys keys (before @ [a]) rest)"

definition keyset_from_json :: "(bytes \<Rightarrow> RawJwk list option) \<Rightarrow> (bytes \<Rightarrow> bytes option) \<Rightarrow> bytes \<Rightarrow> JwksError + KeySet" where
  "keyset_from_json parse decode json =
     (if length json > MAX_JWKS_DOC_LEN then Err DocumentTooLarge
      else res_bind (ok_or InvalidJson (parse json)) (\<lambda>entries.
        res_bind (classify_all decode entries [] 0) (\<lambda>(keys, skipped).
          if length keys > MAX_KEYS then Err TooManyKeys
          else res_bind (check_keys keys [] keys) (\<lambda>_.
            if length entries > 0 \<and> keys = [] then Err NoUsableKeys
            else Ok \<lparr>ks_keys = keys, ks_skipped = skipped\<rparr>))))"

section \<open>What an accepted key is\<close>

fun material_ok :: "Algorithm \<Rightarrow> KeyMaterial \<Rightarrow> bool" where
  "material_ok Rs256 (Rsa n e) \<longleftrightarrow> n \<noteq> [] \<and> length n \<le> MAX_RSA_N_LEN \<and> hd n \<noteq> CHR 0x00 \<and>
     e \<noteq> [] \<and> length e \<le> MAX_RSA_E_LEN \<and> hd e \<noteq> CHR 0x00"
| "material_ok Es256 (EcP256 point) \<longleftrightarrow> length point = 65 \<and> hd point = CHR 0x04"
| "material_ok _ _ \<longleftrightarrow> False"

definition jwk_ok :: "Jwk \<Rightarrow> bool" where
  "jwk_ok k \<longleftrightarrow> jwk_kid k \<noteq> [] \<and> length (jwk_kid k) \<le> MAX_KID_LEN \<and> material_ok (jwk_alg k) (jwk_material k)"

definition entry_public :: "RawJwk \<Rightarrow> bool" where
  "entry_public raw \<longleftrightarrow> rj_kty raw \<noteq> None \<and> rj_kty raw \<noteq> Some ''oct'' \<and> \<not> private_members raw \<and>
     (\<forall>a. rj_alg raw = Some a \<longrightarrow> \<not> eq_ignore_ascii_case a ''none'' \<and> a \<notin> {''HS256'', ''HS384'', ''HS512''})"

definition entry_yields :: "RawJwk \<Rightarrow> Jwk \<Rightarrow> bool" where
  "entry_yields raw k \<longleftrightarrow> rj_kid raw = Some (jwk_kid k) \<and> rj_alg raw = Some (as_jose_name (jwk_alg k)) \<and>
     rj_use raw \<in> {None, Some ''sig''} \<and>
     (jwk_alg k = Rs256 \<and> rj_kty raw = Some ''RSA'' \<or> jwk_alg k = Es256 \<and> rj_kty raw = Some ''EC'' \<and> rj_crv raw = Some ''P-256'')"

lemma decode_rsa_ok:
  assumes "decode_rsa decode s limit = Ok v"
  shows "v \<noteq> [] \<and> length v \<le> limit \<and> hd v \<noteq> CHR 0x00"
proof -
  obtain s' content where s': "s = Some s'" "decode s' = Some content"
    using assms unfolding decode_rsa_def by (cases s; cases "decode (the s)") (simp_all split: if_split_asm)
  let ?trimmed = "dropWhile (\<lambda>b. b = CHR 0x00) content"
  have "?trimmed \<noteq> []" "length ?trimmed \<le> limit" "v = ?trimmed"
    using assms unfolding decode_rsa_def Let_def s' by (simp_all add: s' split: if_split_asm)
  then show ?thesis using hd_dropWhile [of "\<lambda>b. b = CHR 0x00" content] by simp
qed

lemma decode_coord_ok: "decode_coord decode s = Ok v \<Longrightarrow> length v = EC_P256_COORD_LEN"
  by (auto simp: decode_coord_def res_bind_eq_Ok split: if_splits)

lemma usable_key_ok:
  assumes "usable_key decode raw algorithm = Ok k"
  shows "jwk_ok k \<and> jwk_alg k = algorithm \<and> rj_kid raw = Some (jwk_kid k) \<and> rj_alg raw = Some (as_jose_name algorithm)"
proof -
  let ?material = "case algorithm of
              Rs256 \<Rightarrow> res_bind (decode_rsa decode (rj_n raw) MAX_RSA_N_LEN) (\<lambda>n.
                res_bind (decode_rsa decode (rj_e raw) MAX_RSA_E_LEN) (\<lambda>e. Ok (Rsa n e)))
            | Es256 \<Rightarrow> res_bind (decode_coord decode (rj_x raw)) (\<lambda>x.
                res_bind (decode_coord decode (rj_y raw)) (\<lambda>y. Ok (EcP256 (CHR 0x04 # x @ y))))"
  have rest: "(if length kid > MAX_KID_LEN then Err KeyIdTooLong
       else res_bind (ok_or MissingAlgorithm (rj_alg raw)) (\<lambda>alg.
         if alg \<noteq> as_jose_name algorithm then Err KeyAlgorithmMismatch
         else res_bind ?material (\<lambda>material. Ok \<lparr>jwk_kid = kid, jwk_alg = algorithm, jwk_material = material\<rparr>))) = Ok k \<longleftrightarrow>
    length kid \<le> MAX_KID_LEN \<and> rj_alg raw = Some (as_jose_name algorithm) \<and>
    (\<exists>material. ?material = Ok material \<and> k = \<lparr>jwk_kid = kid, jwk_alg = algorithm, jwk_material = material\<rparr>)" for kid
    by (cases "rj_alg raw"; cases ?material) auto
  obtain kid where kid: "rj_kid raw = Some kid" "kid \<noteq> []" and k: "length kid \<le> MAX_KID_LEN"
      "rj_alg raw = Some (as_jose_name algorithm)"
      "\<exists>material. ?material = Ok material \<and> k = \<lparr>jwk_kid = kid, jwk_alg = algorithm, jwk_material = material\<rparr>"
    using assms unfolding usable_key_def rest by (cases "rj_kid raw") (auto simp: rest split: if_splits)
  have "material_ok algorithm material" if "?material = Ok material" for material
    using that by (cases algorithm) (auto simp: res_bind_eq_Ok EC_P256_COORD_LEN_def dest!: decode_rsa_ok decode_coord_ok)
  then show ?thesis using kid k by (auto simp: jwk_ok_def)
qed

lemma entry_allowed_public:
  assumes "entry_allowed raw kty = Ok u" "rj_kty raw = Some kty"
  shows "entry_public raw"
  using assms by (auto simp: entry_allowed_def entry_public_def split: if_splits option.splits)

lemma adopt_ok:
  assumes "adopt decode raw kty = Ok (Some k)" "rj_kty raw = Some kty"
  shows "jwk_ok k \<and> entry_yields raw k"
proof -
  let ?algorithm = "if kty = ''RSA'' then Rs256 else Es256"
  have "res_bind (usable_key decode raw ?algorithm) (\<lambda>k. Ok (Some k)) = Ok (Some k)"
    "kty = ''RSA'' \<or> kty = ''EC'' \<and> rj_crv raw = Some ''P-256''" "rj_use raw \<in> {None, Some ''sig''}"
    using assms(1) unfolding adopt_def Let_def by (auto split: if_splits option.splits)
  then show ?thesis using usable_key_ok [of decode raw ?algorithm k] assms(2) by (auto simp: res_bind_eq_Ok entry_yields_def)
qed

lemma classify_ok:
  assumes "classify decode raw = Ok c"
  shows "entry_public raw \<and> (\<forall>k. c = Some k \<longrightarrow> jwk_ok k \<and> entry_yields raw k)"
  using assms entry_allowed_public adopt_ok by (fastforce simp: classify_def res_bind_eq_Ok)

lemma classify_all_ok:
  assumes "classify_all decode entries keys skipped = Ok (keys', skipped')"
  shows "\<exists>new. keys' = keys @ new \<and> list_all jwk_ok new \<and> list_all entry_public entries \<and>
    (\<forall>k\<in>set new. \<exists>raw\<in>set entries. entry_yields raw k) \<and> length new + skipped' = length entries + skipped"
  using assms
proof (induction entries arbitrary: keys skipped)
  case (Cons entry entries)
  obtain c where c: "classify decode entry = Ok c" using Cons.prems by (auto simp: res_bind_eq_Ok)
  show ?case
  proof (cases c)
    case None
    then have "classify_all decode entries keys (Suc skipped) = Ok (keys', skipped')" using Cons.prems c by simp
    then show ?thesis using Cons.IH [of keys "Suc skipped"] classify_ok [OF c] by fastforce
  next
    case (Some k)
    then have "classify_all decode entries (keys @ [k]) skipped = Ok (keys', skipped')" using Cons.prems c by simp
    then obtain new where "keys' = (keys @ [k]) @ new" "list_all jwk_ok new" "list_all entry_public entries"
      "\<forall>k\<in>set new. \<exists>raw\<in>set entries. entry_yields raw k" "length new + skipped' = length entries + skipped"
      using Cons.IH by blast
    then show ?thesis using classify_ok [OF c] Some by (intro exI [of _ "k # new"]) auto
  qed
qed simp

lemma check_keys_ok:
  assumes "check_keys keys before rest = Ok ()" "distinct before"
  shows "distinct (before @ rest) \<and> (\<forall>a\<in>set rest. length (filter (\<lambda>b. jwk_kid b = jwk_kid a) keys) \<le> MAX_KEYS_PER_KID)"
  using assms
proof (induction rest arbitrary: before)
  case (Cons a rest)
  then have "a \<notin> set before" "check_keys keys (before @ [a]) rest = Ok ()"
    "length (filter (\<lambda>b. jwk_kid b = jwk_kid a) keys) \<le> MAX_KEYS_PER_KID"
    by (auto simp: list_ex_iff split: if_splits)
  then show ?case using Cons.IH [of "before @ [a]"] Cons.prems(2) by auto
qed simp


text \<open>A document with an encryption key, which is skipped, and a signature key on P-256.\<close>

definition raw_key :: "bytes \<Rightarrow> RawJwk" where
  "raw_key kty = \<lparr>rj_kty = Some kty, rj_kid = None, rj_alg = None, rj_use = None, rj_crv = None, rj_n = None, rj_e = None,
     rj_x = None, rj_y = None, rj_d = False, rj_p = False, rj_q = False, rj_dp = False, rj_dq = False, rj_qi = False, rj_oth = False, rj_k = False\<rparr>"

definition sample_coord :: bytes where
  "sample_coord = replicate 32 (CHR ''a'')"

definition sample_entries :: "RawJwk list" where
  "sample_entries = [(raw_key ''RSA'')\<lparr>rj_use := Some ''enc''\<rparr>,
     (raw_key ''EC'')\<lparr>rj_kid := Some ''k1'', rj_alg := Some ''ES256'', rj_crv := Some ''P-256'', rj_x := Some sample_coord, rj_y := Some sample_coord\<rparr>]"

definition sample_jwk :: Jwk where
  "sample_jwk = \<lparr>jwk_kid = ''k1'', jwk_alg = Es256, jwk_material = EcP256 (CHR 0x04 # sample_coord @ sample_coord)\<rparr>"

lemma sample_key_components: "decode_coord Some (Some sample_coord) = Ok sample_coord"
  by (simp add: decode_coord_def encoded_cap_def EC_P256_COORD_LEN_def sample_coord_def)

lemma sample_classified:
  "classify Some ((raw_key ''RSA'')\<lparr>rj_use := Some ''enc''\<rparr>) = Ok None"
  "classify Some ((raw_key ''EC'')\<lparr>rj_kid := Some ''k1'', rj_alg := Some ''ES256'', rj_crv := Some ''P-256'', rj_x := Some sample_coord,
     rj_y := Some sample_coord\<rparr>) = Ok (Some sample_jwk)"
  by (simp_all add: classify_def entry_allowed_def adopt_def raw_key_def private_members_def alg_fits_key_def required_kty_def required_crv_def
    usable_key_def MAX_KID_LEN_def as_jose_name_def SKIPPABLE_EC_ALGS_def sample_key_components sample_jwk_def starts_with_def
    eq_ignore_ascii_case_def)

lemma sample_keyset:
  "keyset_from_json (\<lambda>_. Some sample_entries) Some ''{}'' = Ok \<lparr>ks_keys = [sample_jwk], ks_skipped = 1\<rparr>"
  by (simp add: keyset_from_json_def MAX_JWKS_DOC_LEN_def MAX_KEYS_def MAX_KEYS_PER_KID_def sample_entries_def sample_classified)


end
