(* ===== verification/Jwt_Verify.thy ===== *)
theory Jwt_Verify
  imports Jwt_Keys
begin

text \<open>
  \<^verbatim>\<open>crates/plugin-jwt/src/verify.rs\<close>: verification of an access token. The crates behind it are parameters, gathered in the record
  \<open>JoseLib\<close>: base64url, SHA-256 and the two signature schemes of \<^verbatim>\<open>ring\<close>, and the JSON deserialiser for each of the
  types read. The main results say exactly which tokens are accepted, and that the key set, the clock and the policy decide
  nothing but what they should.
\<close>

section \<open>What is read from a token\<close>

definition MAX_TOKEN_LEN :: nat where "MAX_TOKEN_LEN = 8192"
definition MAX_TOKEN_AUDIENCES :: nat where "MAX_TOKEN_AUDIENCES = 16"

record RawHeader =
  rh_alg :: bytes
  rh_kid :: "bytes option"
  rh_typ :: "bytes option"
  rh_crit :: bool

text \<open>The JSON value of \<^verbatim>\<open>aud\<close>: a string, an array (\<open>None\<close>: an element that is not a string) or something else.\<close>

datatype AudJson = AudString bytes | AudArray "bytes option list" | AudOther

text \<open>The JSON value of \<^verbatim>\<open>cnf\<close>: not there, an object with its member \<^verbatim>\<open>jkt\<close> (\<open>Some None\<close>: not a string), or something else.\<close>

datatype CnfJson = CnfMissing | CnfObject "bytes option option" | CnfOther

record ClaimsJson =
  cj_iss :: "bytes option"
  cj_sub :: "bytes option"
  cj_aud :: "AudJson option"
  cj_exp :: "nat option"
  cj_nbf :: "nat option"
  cj_iat :: "nat option"
  cj_jti :: "bytes option"
  cj_client_id :: "bytes option"
  cj_scope :: "bytes option"
  cj_cnf :: CnfJson

datatype Confirmation = ConfAbsent | Jkt bytes | Unusable

record RawClaims =
  rc_iss :: "bytes option"
  rc_sub :: "bytes option"
  rc_aud :: "bytes list option"
  rc_exp :: "nat option"
  rc_nbf :: "nat option"
  rc_iat :: "nat option"
  rc_jti :: "bytes option"
  rc_client_id :: "bytes option"
  rc_scope :: "bytes option"
  rc_cnf :: Confirmation

record 'x Claims =
  cl_iss :: bytes
  cl_sub :: "bytes option"
  cl_aud :: "bytes list"
  cl_exp :: nat
  cl_nbf :: "nat option"
  cl_iat :: "nat option"
  cl_jti :: "bytes option"
  cl_client_id :: "bytes option"
  cl_scope :: "bytes option"
  cl_cnf :: Confirmation
  cl_extra :: 'x

record 'x JoseLib =
  jl_decode :: "bytes \<Rightarrow> bytes option"
  jl_encode :: "bytes \<Rightarrow> bytes"
  jl_sha256 :: "bytes \<Rightarrow> bytes"
  jl_rsa_verify :: "bytes \<Rightarrow> bytes \<Rightarrow> bytes \<Rightarrow> bytes \<Rightarrow> bool"
  jl_ec_verify :: "bytes \<Rightarrow> bytes \<Rightarrow> bytes \<Rightarrow> bool"
  jl_header :: "bytes \<Rightarrow> RawHeader option"
  jl_claims :: "bytes \<Rightarrow> ClaimsJson option"
  jl_extra :: "bytes \<Rightarrow> 'x option"

text \<open>The visitor of \<^verbatim>\<open>AudClaim\<close>: a string, or at most 16 strings.\<close>

fun aud_seq :: "bytes option list \<Rightarrow> bytes list \<Rightarrow> bytes list option" where
  "aud_seq [] out = Some out"
| "aud_seq (None # js) out = None"
| "aud_seq (Some s # js) out = (if length out \<ge> MAX_TOKEN_AUDIENCES then None else aud_seq js (out @ [s]))"

definition aud_claim :: "AudJson \<Rightarrow> bytes list option" where
  "aud_claim j = (case j of AudString s \<Rightarrow> Some [s] | AudArray js \<Rightarrow> aud_seq js [] | AudOther \<Rightarrow> None)"

definition lenient_cnf :: "CnfJson \<Rightarrow> Confirmation" where
  "lenient_cnf j =
     (case j of
        CnfMissing \<Rightarrow> ConfAbsent
      | CnfObject (Some (Some s)) \<Rightarrow> Jkt s
      | _ \<Rightarrow> Unusable)"

definition raw_claims :: "'x JoseLib \<Rightarrow> bytes \<Rightarrow> RawClaims option" where
  "raw_claims L payload =
     Option.bind (jl_claims L payload) (\<lambda>j.
       Option.bind (case cj_aud j of None \<Rightarrow> Some None | Some a \<Rightarrow> map_option Some (aud_claim a)) (\<lambda>aud.
         Some \<lparr>rc_iss = cj_iss j, rc_sub = cj_sub j, rc_aud = aud, rc_exp = cj_exp j, rc_nbf = cj_nbf j, rc_iat = cj_iat j,
           rc_jti = cj_jti j, rc_client_id = cj_client_id j, rc_scope = cj_scope j, rc_cnf = lenient_cnf (cj_cnf j)\<rparr>))"

section \<open>Verification\<close>

datatype DpopError =
    MissingProof | ProofTooLong | ProofMalformed | ProofInvalidType | ProofAlgorithmNotAllowed | ProofCriticalHeader | MissingJwk
  | ProofPrivateKey | UnsupportedKey | ProofKeyAlgorithmMismatch | InvalidKey | ProofInvalidSignature | ProofMissingClaim | InvalidJti
  | MethodMismatch | UriMismatch | AccessTokenHashMismatch | IssuedAtOutOfWindow | InvalidRequestTarget | Replayed
  | ReplayStoreFull | MultipleProofs | ThumbprintMismatch | BoundTokenAsBearer | UnboundToken

datatype VerifyError =
    MissingToken | TooLong | Malformed | AlgorithmNotAllowed | NoKeyId | UnknownKeyId | WrongKeyAlgorithm
  | InvalidSignature | CriticalHeader | InvalidType | IssuerMismatch | AudienceMismatch | Expired | NotYetValid | MissingClaim
  | InvalidExtraClaims | Dpop DpopError

text \<open>\<^verbatim>\<open>u8::is_ascii_whitespace\<close>.\<close>

definition is_ascii_whitespace :: "byte \<Rightarrow> bool" where
  "is_ascii_whitespace b \<longleftrightarrow> b \<in> {CHR '' '', htab, lf, CHR 0x0C, cr}"

definition require_json_object :: "bytes \<Rightarrow> VerifyError + unit" where
  "require_json_object bs =
     (case dropWhile is_ascii_whitespace bs of b # _ \<Rightarrow> if b = CHR ''{'' then Ok () else Err Malformed | [] \<Rightarrow> Err Malformed)"

definition token_b64 :: "'x JoseLib \<Rightarrow> bytes \<Rightarrow> VerifyError + bytes" where
  "token_b64 L s = ok_or Malformed (jl_decode L s)"

definition signature_ok :: "'x JoseLib \<Rightarrow> Algorithm \<Rightarrow> KeyMaterial \<Rightarrow> bytes \<Rightarrow> bytes \<Rightarrow> bool" where
  "signature_ok L alg material msg sig =
     (case (alg, material) of
        (Rs256, Rsa n e) \<Rightarrow> jl_rsa_verify L n e msg sig
      | (Es256, EcP256 point) \<Rightarrow> jl_ec_verify L point msg sig
      | _ \<Rightarrow> False)"

definition token_parts :: "bytes \<Rightarrow> VerifyError + bytes \<times> bytes \<times> bytes" where
  "token_parts token =
     (if token = [] then Err MissingToken
      else if length token > MAX_TOKEN_LEN then Err TooLong
      else case split_on CHR ''.'' token of
        [h, p, s] \<Rightarrow> if h = [] \<or> p = [] \<or> s = [] then Err Malformed else Ok (h, p, s)
      | _ \<Rightarrow> Err Malformed)"

text \<open>The header: the algorithm, the key identifier and the type.\<close>

definition token_header :: "'x JoseLib \<Rightarrow> JwtPolicy \<Rightarrow> bytes \<Rightarrow> VerifyError + Algorithm \<times> bytes \<times> bytes option" where
  "token_header L policy h =
     res_bind (token_b64 L h) (\<lambda>header_bytes.
     res_bind (require_json_object header_bytes) (\<lambda>_.
     res_bind (ok_or Malformed (jl_header L header_bytes)) (\<lambda>header.
       if rh_crit header then Err CriticalHeader
       else res_bind (ok_or AlgorithmNotAllowed
           (case from_jose_name (rh_alg header) of
              Some a \<Rightarrow> if algorithms_contains (jp_algorithms policy) a then Some a else None
            | None \<Rightarrow> None)) (\<lambda>alg.
         case rh_kid header of
           None \<Rightarrow> Err NoKeyId
         | Some k \<Rightarrow>
             if k = [] then Err NoKeyId
             else if length k > MAX_KID_LEN then Err Malformed
             else Ok (alg, k, rh_typ header)))))"

text \<open>The claims of a token whose signature is good.\<close>

definition check_claims :: "'x JoseLib \<Rightarrow> JwtPolicy \<Rightarrow> nat \<Rightarrow> bytes \<Rightarrow> VerifyError + 'x Claims" where
  "check_claims L policy now_unix p =
     res_bind (token_b64 L p) (\<lambda>payload.
     res_bind (require_json_object payload) (\<lambda>_.
     res_bind (ok_or Malformed (raw_claims L payload)) (\<lambda>raw.
     res_bind (ok_or MissingClaim (rc_iss raw)) (\<lambda>iss.
       if iss \<noteq> jp_issuer policy then Err IssuerMismatch
       else res_bind (ok_or MissingClaim (rc_aud raw)) (\<lambda>aud.
         if \<not> list_ex (\<lambda>a. audiences_contains (jp_audiences policy) a) aud then Err AudienceMismatch
         else res_bind (ok_or MissingClaim (rc_exp raw)) (\<lambda>expiry.
           let leeway = as_secs (jp_clock_skew policy) in
           if now_unix - leeway \<ge> expiry then Err Expired
           else if (case rc_nbf raw of Some nbf \<Rightarrow> saturating_add now_unix leeway < nbf | None \<Rightarrow> False) then Err NotYetValid
           else res_bind (ok_or InvalidExtraClaims (jl_extra L payload)) (\<lambda>extra.
             Ok \<lparr>cl_iss = iss, cl_sub = rc_sub raw, cl_aud = aud, cl_exp = expiry, cl_nbf = rc_nbf raw, cl_iat = rc_iat raw,
               cl_jti = rc_jti raw, cl_client_id = rc_client_id raw, cl_scope = rc_scope raw, cl_cnf = rc_cnf raw, cl_extra = extra\<rparr>)))))))"

text \<open>The result, and the key identifier for which the callback \<^verbatim>\<open>on_unknown_kid\<close> was called.\<close>

definition verify_inner :: "'x JoseLib \<Rightarrow> bytes \<Rightarrow> KeySet \<Rightarrow> JwtPolicy \<Rightarrow> nat \<Rightarrow> (VerifyError + 'x Claims) \<times> bytes option" where
  "verify_inner L token keys policy now_unix =
     (case res_bind (token_parts token) (\<lambda>(h, p, s). res_bind (token_header L policy h) (\<lambda>hd. Ok (h, p, s, hd))) of
        Err e \<Rightarrow> (Err e, None)
      | Ok (h, p, s, alg, kid, typ) \<Rightarrow>
          let candidates = filter (\<lambda>k. jwk_alg k = alg) (keys_for keys kid) in
          if candidates = [] then
            (if keys_for keys kid \<noteq> [] then (Err WrongKeyAlgorithm, None) else (Err UnknownKeyId, Some kid))
          else
            (res_bind (token_b64 L s) (\<lambda>sig.
               if \<not> list_ex (\<lambda>k. signature_ok L alg (jwk_material k) (take (length h + 1 + length p) token) sig) candidates
               then Err InvalidSignature
               else if (case typ of Some t \<Rightarrow> \<not> matches_header (jp_token_type policy) t | None \<Rightarrow> True) then Err InvalidType
               else check_claims L policy now_unix p), None))"

definition verify :: "'x JoseLib \<Rightarrow> bytes \<Rightarrow> KeySet \<Rightarrow> JwtPolicy \<Rightarrow> nat \<Rightarrow> VerifyError + 'x Claims" where
  "verify L token keys policy now_unix = fst (verify_inner L token keys policy now_unix)"

section \<open>Which tokens are accepted\<close>

definition is_json_object :: "bytes \<Rightarrow> bool" where
  "is_json_object bs \<longleftrightarrow> (\<exists>ws rest. bs = ws @ CHR ''{'' # rest \<and> list_all is_ascii_whitespace ws)"

text \<open>A header that names an allowed algorithm, a key and a type, and demands nothing the code does not know.\<close>

definition header_accepted :: "'x JoseLib \<Rightarrow> JwtPolicy \<Rightarrow> bytes \<Rightarrow> Algorithm \<Rightarrow> bytes \<Rightarrow> bytes option \<Rightarrow> bool" where
  "header_accepted L policy h alg kid typ \<longleftrightarrow>
     (\<exists>bs header. jl_decode L h = Some bs \<and> is_json_object bs \<and> jl_header L bs = Some header \<and> \<not> rh_crit header \<and>
        rh_alg header = as_jose_name alg \<and> alg \<in> set (jp_algorithms policy) \<and>
        rh_kid header = Some kid \<and> kid \<noteq> [] \<and> length kid \<le> MAX_KID_LEN \<and> rh_typ header = typ)"

text \<open>Claims from the trusted issuer, for one of the audiences.\<close>

definition claims_of :: "'x JoseLib \<Rightarrow> JwtPolicy \<Rightarrow> bytes \<Rightarrow> 'x Claims \<Rightarrow> bool" where
  "claims_of L policy p c \<longleftrightarrow>
     (\<exists>bs raw. jl_decode L p = Some bs \<and> is_json_object bs \<and> raw_claims L bs = Some raw \<and> jl_extra L bs = Some (cl_extra c) \<and>
        rc_iss raw = Some (cl_iss c) \<and> cl_iss c = jp_issuer policy \<and>
        rc_aud raw = Some (cl_aud c) \<and> set (cl_aud c) \<inter> set (jp_audiences policy) \<noteq> {} \<and>
        rc_exp raw = Some (cl_exp c) \<and> rc_nbf raw = cl_nbf c \<and>
        rc_sub raw = cl_sub c \<and> rc_iat raw = cl_iat c \<and> rc_jti raw = cl_jti c \<and> rc_client_id raw = cl_client_id c \<and>
        rc_scope raw = cl_scope c \<and> rc_cnf raw = cl_cnf c)"

definition in_time :: "JwtPolicy \<Rightarrow> nat \<Rightarrow> 'x Claims \<Rightarrow> bool" where
  "in_time policy now_unix c \<longleftrightarrow>
     now_unix - as_secs (jp_clock_skew policy) < cl_exp c \<and>
     (case cl_nbf c of Some nbf \<Rightarrow> nbf \<le> saturating_add now_unix (as_secs (jp_clock_skew policy)) | None \<Rightarrow> True)"

definition token_accepted :: "'x JoseLib \<Rightarrow> bytes \<Rightarrow> KeySet \<Rightarrow> JwtPolicy \<Rightarrow> nat \<Rightarrow> 'x Claims \<Rightarrow> bool" where
  "token_accepted L token keys policy now_unix c \<longleftrightarrow>
     (\<exists>h p s k sig typ. token = h @ ''.'' @ p @ ''.'' @ s \<and> length token \<le> MAX_TOKEN_LEN \<and>
        list_all (\<lambda>part. part \<noteq> [] \<and> CHR ''.'' \<notin> set part) [h, p, s] \<and>
        k \<in> set (ks_keys keys) \<and> header_accepted L policy h (jwk_alg k) (jwk_kid k) (Some typ) \<and>
        matches_header (jp_token_type policy) typ \<and>
        jl_decode L s = Some sig \<and> signature_ok L (jwk_alg k) (jwk_material k) (h @ ''.'' @ p) sig \<and>
        claims_of L policy p c \<and> in_time policy now_unix c)"

lemma require_json_object_eq: "require_json_object bs = (if is_json_object bs then Ok () else Err Malformed)"
proof -
  have "(\<exists>rest. dropWhile is_ascii_whitespace bs = CHR ''{'' # rest) \<longleftrightarrow> is_json_object bs"
    unfolding is_json_object_def
  proof
    assume "\<exists>rest. dropWhile is_ascii_whitespace bs = CHR ''{'' # rest"
    then obtain rest where "dropWhile is_ascii_whitespace bs = CHR ''{'' # rest" by blast
    then have "bs = takeWhile is_ascii_whitespace bs @ CHR ''{'' # rest" by (metis takeWhile_dropWhile_id)
    moreover have "list_all is_ascii_whitespace (takeWhile is_ascii_whitespace bs)" by (auto simp: list_all_iff dest: set_takeWhileD)
    ultimately show "\<exists>ws rest. bs = ws @ CHR ''{'' # rest \<and> list_all is_ascii_whitespace ws" by blast
  next
    assume "\<exists>ws rest. bs = ws @ CHR ''{'' # rest \<and> list_all is_ascii_whitespace ws"
    then obtain ws rest where "bs = ws @ CHR ''{'' # rest" "list_all is_ascii_whitespace ws" by blast
    moreover have "\<not> is_ascii_whitespace (CHR ''{'')" by (simp add: is_ascii_whitespace_def)
    ultimately have "dropWhile is_ascii_whitespace bs = CHR ''{'' # rest" by (simp add: dropWhile_append2 list_all_iff)
    then show "\<exists>rest. dropWhile is_ascii_whitespace bs = CHR ''{'' # rest" by blast
  qed
  then show ?thesis
    by (cases "dropWhile is_ascii_whitespace bs") (auto simp: require_json_object_def simp del: dropWhile_eq_Nil_conv)
qed

lemma three_parts: "split_on d xs = [h, p, s] \<longleftrightarrow> xs = h @ [d] @ p @ [d] @ s \<and> d \<notin> set h \<and> d \<notin> set p \<and> d \<notin> set s"
proof
  assume split: "split_on d xs = [h, p, s]"
  have "xs = join [d] [h, p, s]" using join_split_on [of d xs] unfolding split by simp
  moreover have "\<forall>part\<in>{h, p, s}. d \<notin> set part" using split_on_pieces [of _ d xs] split by auto
  ultimately show "xs = h @ [d] @ p @ [d] @ s \<and> d \<notin> set h \<and> d \<notin> set p \<and> d \<notin> set s" by simp
next
  assume "xs = h @ [d] @ p @ [d] @ s \<and> d \<notin> set h \<and> d \<notin> set p \<and> d \<notin> set s"
  then show "split_on d xs = [h, p, s]" using split_on_join [of "[h, p, s]" d] by fastforce
qed

lemma token_parts_ok:
  "token_parts token = Ok (h, p, s) \<longleftrightarrow> token = h @ ''.'' @ p @ ''.'' @ s \<and> length token \<le> MAX_TOKEN_LEN \<and>
     list_all (\<lambda>part. part \<noteq> [] \<and> CHR ''.'' \<notin> set part) [h, p, s]"
proof -
  have "token_parts token = Ok (h, p, s) \<longleftrightarrow> token \<noteq> [] \<and> length token \<le> MAX_TOKEN_LEN \<and>
      split_on CHR ''.'' token = [h, p, s] \<and> h \<noteq> [] \<and> p \<noteq> [] \<and> s \<noteq> []"
    by (auto simp: token_parts_def split: list.splits if_splits)
  then show ?thesis unfolding three_parts by auto
qed

lemma token_header_ok:
  "token_header L policy h = Ok (alg, kid, typ') \<longleftrightarrow> header_accepted L policy h alg kid typ'"
proof -
  let ?alg = "\<lambda>header. case from_jose_name (rh_alg header) of
      Some a \<Rightarrow> if algorithms_contains (jp_algorithms policy) a then Some a else None | None \<Rightarrow> None"
  have alg: "?alg header = Some a \<longleftrightarrow> rh_alg header = as_jose_name a \<and> a \<in> set (jp_algorithms policy)" for header a
    by (auto simp: algorithms_contains_def simp flip: from_jose_name_iff split: option.splits)
  have kid: "(case rh_kid header of None \<Rightarrow> Err NoKeyId
      | Some k \<Rightarrow> if k = [] then Err NoKeyId else if length k > MAX_KID_LEN then Err Malformed else Ok (a, k, rh_typ header)) =
        Ok (alg, kid, typ') \<longleftrightarrow>
      a = alg \<and> rh_kid header = Some kid \<and> kid \<noteq> [] \<and> length kid \<le> MAX_KID_LEN \<and> rh_typ header = typ'" for header a
    by (cases "rh_kid header") auto
  have rest: "(if rh_crit header then Err CriticalHeader
       else res_bind (ok_or AlgorithmNotAllowed (?alg header)) (\<lambda>a.
         case rh_kid header of None \<Rightarrow> Err NoKeyId
      | Some k \<Rightarrow> if k = [] then Err NoKeyId else if length k > MAX_KID_LEN then Err Malformed else Ok (a, k, rh_typ header))) =
        Ok (alg, kid, typ') \<longleftrightarrow>
      \<not> rh_crit header \<and> rh_alg header = as_jose_name alg \<and> alg \<in> set (jp_algorithms policy) \<and>
      rh_kid header = Some kid \<and> kid \<noteq> [] \<and> length kid \<le> MAX_KID_LEN \<and> rh_typ header = typ'" for header
    unfolding res_bind_eq_Ok ok_or_eq_Ok alg kid by (cases "rh_crit header") (auto simp: res_bind_eq_Ok alg kid)
  show ?thesis
    unfolding token_header_def header_accepted_def token_b64_def require_json_object_eq
    by (auto simp: res_bind_eq_Ok rest simp del: ok_or_eq_Err split: if_splits)
qed

lemma check_claims_ok: "check_claims L policy now_unix p = Ok c \<longleftrightarrow> claims_of L policy p c \<and> in_time policy now_unix c"
proof -
  have aud: "list_ex (\<lambda>a. audiences_contains (jp_audiences policy) a) aud \<longleftrightarrow> set aud \<inter> set (jp_audiences policy) \<noteq> {}" for aud
    by (auto simp: list_ex_iff audiences_contains_def)
  have late: "\<not> (case n of Some nbf \<Rightarrow> t < nbf | None \<Rightarrow> False) \<longleftrightarrow> (case n of Some nbf \<Rightarrow> nbf \<le> (t :: nat) | None \<Rightarrow> True)" for n t
    by (cases n) auto
  let ?leeway = "as_secs (jp_clock_skew policy)"
  have rest: "res_bind (ok_or MissingClaim (rc_iss raw)) (\<lambda>iss.
       if iss \<noteq> jp_issuer policy then Err IssuerMismatch
       else res_bind (ok_or MissingClaim (rc_aud raw)) (\<lambda>aud.
         if \<not> list_ex (\<lambda>a. audiences_contains (jp_audiences policy) a) aud then Err AudienceMismatch
         else res_bind (ok_or MissingClaim (rc_exp raw)) (\<lambda>expiry.
           if now_unix - ?leeway \<ge> expiry then Err Expired
           else if (case rc_nbf raw of Some nbf \<Rightarrow> saturating_add now_unix ?leeway < nbf | None \<Rightarrow> False) then Err NotYetValid
           else res_bind (ok_or InvalidExtraClaims (jl_extra L bs)) (\<lambda>extra.
             Ok \<lparr>cl_iss = iss, cl_sub = rc_sub raw, cl_aud = aud, cl_exp = expiry, cl_nbf = rc_nbf raw, cl_iat = rc_iat raw,
               cl_jti = rc_jti raw, cl_client_id = rc_client_id raw, cl_scope = rc_scope raw, cl_cnf = rc_cnf raw, cl_extra = extra\<rparr>)))) = Ok c \<longleftrightarrow>
      jl_extra L bs = Some (cl_extra c) \<and> rc_iss raw = Some (cl_iss c) \<and> cl_iss c = jp_issuer policy \<and>
        rc_aud raw = Some (cl_aud c) \<and> set (cl_aud c) \<inter> set (jp_audiences policy) \<noteq> {} \<and>
        rc_exp raw = Some (cl_exp c) \<and> rc_nbf raw = cl_nbf c \<and>
        rc_sub raw = cl_sub c \<and> rc_iat raw = cl_iat c \<and> rc_jti raw = cl_jti c \<and> rc_client_id raw = cl_client_id c \<and>
        rc_scope raw = cl_scope c \<and> rc_cnf raw = cl_cnf c \<and> in_time policy now_unix c" for bs raw
    unfolding in_time_def late [symmetric] aud
    by (cases "rc_iss raw"; cases "rc_aud raw"; cases "rc_exp raw"; cases "jl_extra L bs"; cases c) auto
  show ?thesis
    unfolding check_claims_def claims_of_def token_b64_def require_json_object_eq Let_def
    by (cases "jl_decode L p"; cases "is_json_object (the (jl_decode L p))"; cases "raw_claims L (the (jl_decode L p))") (simp_all add: rest)
qed

text \<open>C19. Token verification. A token is accepted, with given claims, exactly when it consists of three non-empty parts within the length limit, its header
  names an allowed algorithm, a key of the set and the type of an access token and has no critical extension, that key,
  used with the algorithm it is registered for, verifies the signature over the first two parts, and its claims name the issuer of the
  policy, one of its audiences and a period of validity that contains the present with the tolerance of the policy.\<close>

theorem verify_exact: "verify L token keys policy now_unix = Ok c \<longleftrightarrow> token_accepted L token keys policy now_unix c"
proof
  assume ok: "verify L token keys policy now_unix = Ok c"
  obtain h p s alg kid ty where parts: "token_parts token = Ok (h, p, s)" "token_header L policy h = Ok (alg, kid, ty)"
    using ok by (cases "token_parts token"; cases "token_header L policy (fst (projr (token_parts token)))")
      (auto simp: verify_def verify_inner_def)
  obtain sig k ty' where k: "k \<in> set (ks_keys keys)" "jwk_kid k = kid" "jwk_alg k = alg" "jl_decode L s = Some sig"
      "signature_ok L alg (jwk_material k) (take (length h + 1 + length p) token) sig"
      "ty = Some ty'" "matches_header (jp_token_type policy) ty'" "check_claims L policy now_unix p = Ok c"
    using ok parts
    by (auto simp: verify_def verify_inner_def Let_def keys_for_def list_ex_iff res_bind_eq_Ok token_b64_def split: if_splits option.splits)
  have msg: "take (length h + 1 + length p) token = h @ ''.'' @ p" using parts(1) by (simp add: token_parts_ok)
  have header: "header_accepted L policy h (jwk_alg k) (jwk_kid k) (Some ty')"
    and claims: "claims_of L policy p c" "in_time policy now_unix c"
    using parts(2) k unfolding token_header_ok check_claims_ok by simp_all
  show "token_accepted L token keys policy now_unix c"
    using parts(1) header claims k(1,4,5,7) unfolding token_parts_ok token_accepted_def msg k(3) [symmetric] by blast
next
  assume "token_accepted L token keys policy now_unix c"
  then obtain h p s k sig ty where ok: "token = h @ ''.'' @ p @ ''.'' @ s" "length token \<le> MAX_TOKEN_LEN"
      "list_all (\<lambda>part. part \<noteq> [] \<and> CHR ''.'' \<notin> set part) [h, p, s]" "k \<in> set (ks_keys keys)"
      "header_accepted L policy h (jwk_alg k) (jwk_kid k) (Some ty)" "matches_header (jp_token_type policy) ty"
      "jl_decode L s = Some sig" "signature_ok L (jwk_alg k) (jwk_material k) (h @ ''.'' @ p) sig"
      "claims_of L policy p c" "in_time policy now_unix c"
    unfolding token_accepted_def by blast
  have parts: "token_parts token = Ok (h, p, s)" "token_header L policy h = Ok (jwk_alg k, jwk_kid k, Some ty)"
    "check_claims L policy now_unix p = Ok c"
    using ok unfolding token_parts_ok token_header_ok check_claims_ok by simp_all
  have k: "k \<in> set (filter (\<lambda>k'. jwk_alg k' = jwk_alg k) (keys_for keys (jwk_kid k)))" using ok(4) by (simp add: keys_for_def)
  moreover have "take (length h + 1 + length p) token = h @ ''.'' @ p" using ok(1) by simp
  ultimately show "verify L token keys policy now_unix = Ok c"
    using ok parts by (auto simp: verify_def verify_inner_def Let_def list_ex_iff token_b64_def filter_empty_conv)
qed

section \<open>Time\<close>

text \<open>Everything but the two checks against the clock, which a cache repeats.\<close>

definition time_ok :: "nat \<Rightarrow> nat \<Rightarrow> 'x Claims \<Rightarrow> VerifyError + unit" where
  "time_ok now_unix leeway c =
     (if now_unix - leeway \<ge> cl_exp c then Err Expired
      else if (case cl_nbf c of Some nbf \<Rightarrow> saturating_add now_unix leeway < nbf | None \<Rightarrow> False) then Err NotYetValid
      else Ok ())"

lemma check_claims_time:
  assumes "check_claims L policy now\<^sub>0 p = Ok c"
  shows "check_claims L policy now_unix p = (case time_ok now_unix (as_secs (jp_clock_skew policy)) c of Err e \<Rightarrow> Err e | Ok _ \<Rightarrow> Ok c)"
proof -
  obtain payload raw iss aud expiry extra where "token_b64 L p = Ok payload" "require_json_object payload = Ok ()" "raw_claims L payload = Some raw"
      "rc_iss raw = Some iss" "iss = jp_issuer policy" "rc_aud raw = Some aud" "list_ex (\<lambda>a. audiences_contains (jp_audiences policy) a) aud"
      "rc_exp raw = Some expiry" "jl_extra L payload = Some extra"
    and "c = \<lparr>cl_iss = iss, cl_sub = rc_sub raw, cl_aud = aud, cl_exp = expiry, cl_nbf = rc_nbf raw, cl_iat = rc_iat raw,
      cl_jti = rc_jti raw, cl_client_id = rc_client_id raw, cl_scope = rc_scope raw, cl_cnf = rc_cnf raw, cl_extra = extra\<rparr>"
    using assms by (auto simp: check_claims_def res_bind_eq_Ok Let_def split: if_splits)
  then show ?thesis by (simp add: check_claims_def time_ok_def Let_def)
qed

text \<open>Verification at another time differs only in the checks against the clock.\<close>

lemma verify_time:
  assumes "verify_inner L token keys policy now\<^sub>0 = (Ok c, u)"
  shows "verify_inner L token keys policy now_unix =
    (case time_ok now_unix (as_secs (jp_clock_skew policy)) c of Err e \<Rightarrow> Err e | Ok _ \<Rightarrow> Ok c, None)"
proof -
  obtain h p s alg kid ty where parts: "token_parts token = Ok (h, p, s)" "token_header L policy h = Ok (alg, kid, ty)"
    using assms by (cases "token_parts token"; cases "token_header L policy (fst (projr (token_parts token)))")
      (auto simp: verify_inner_def)
  have "check_claims L policy now\<^sub>0 p = Ok c"
    using assms parts by (auto simp: verify_inner_def Let_def res_bind_eq_Ok split: if_splits)
  then show ?thesis
    using assms parts check_claims_time by (auto simp: verify_inner_def Let_def res_bind_eq_Ok split: if_splits)
qed

end
