(* ===== verification/Jwt_Origin.thy ===== *)
theory Jwt_Origin
  imports Jwt_Verify Substring_Search
begin

text \<open>
  \<^verbatim>\<open>crates/plugin-jwt/src/dpop/origin.rs\<close>: the public origin of the server, the URI that a DPoP proof has to name and the
  normalisation of the URI that it does name. The main result is that the expected URI is its own normal form, so that a client that
  names it literally is not refused.
\<close>

section \<open>Strings\<close>

text \<open>\<^verbatim>\<open>str::split_once\<close> with a string, \<^verbatim>\<open>str::rsplit_once\<close> with a character, \<^verbatim>\<open>u8::to_ascii_uppercase\<close>, and \<^verbatim>\<open>str::replace("%2E", ".")\<close>.\<close>

definition split_once_str :: "bytes \<Rightarrow> bytes \<Rightarrow> (bytes \<times> bytes) option" where
  "split_once_str pat s = map_option (\<lambda>i. (take i s, drop (i + length pat) s)) (find_sub pat s)"

definition rsplit_once :: "byte \<Rightarrow> bytes \<Rightarrow> (bytes \<times> bytes) option" where
  "rsplit_once d s = map_option (\<lambda>i. (take i s, drop (Suc i) s)) (rposition (\<lambda>c. c = d) s)"

definition to_ascii_uppercase :: "byte \<Rightarrow> byte" where
  "to_ascii_uppercase b = (if is_ascii_lowercase b then char_of (bval b - 32) else b)"

fun replace_dots :: "bytes \<Rightarrow> bytes" where
  "replace_dots (a # b # c # cs) =
     (if [a, b, c] = ''%2E'' then CHR ''.'' # replace_dots cs else a # replace_dots (b # c # cs))"
| "replace_dots cs = cs"

section \<open>Origins\<close>

definition MAX_ORIGIN_LEN :: nat where "MAX_ORIGIN_LEN = 512"
definition MAX_HTU_LEN :: nat where "MAX_HTU_LEN = 4096"

datatype OriginError =
    OriginTooLong | InvalidScheme | InvalidHost | InvalidPort | UserInfo | PathNotAllowed | OriginQueryOrFragment

definition parse_scheme :: "bytes \<Rightarrow> OriginError + bytes \<times> nat" where
  "parse_scheme scheme =
     (if eq_ignore_ascii_case scheme ''https'' then Ok (''https'', 443)
      else if eq_ignore_ascii_case scheme ''http'' then Ok (''http'', 80)
      else Err InvalidScheme)"

text \<open>The host in lower case, and the text of the port.\<close>

definition parse_authority :: "bytes \<Rightarrow> OriginError + bytes \<times> bytes option" where
  "parse_authority authority =
     (if starts_with ''['' authority then
        res_bind (ok_or InvalidHost (position (\<lambda>c. c = CHR '']'') authority)) (\<lambda>close.
          let inner = slice authority (1, close) in
          if \<not> (inner \<noteq> [] \<and> CHR '':'' \<in> set inner \<and>
            list_all (\<lambda>b. is_ascii_hexdigit b \<or> b = CHR '':'' \<or> b = CHR ''.'') inner) then Err InvalidHost
          else
            let tail = drop (close + 1) authority in
            res_bind (if tail = [] then Ok None
                      else res_bind (ok_or InvalidHost (strip_prefix '':'' tail)) (\<lambda>p. Ok (Some p))) (\<lambda>port.
              Ok (map to_ascii_lowercase (take (close + 1) authority), port)))
      else
        let (h, p) = (case rsplit_once CHR '':'' authority of Some (h, p) \<Rightarrow> (h, Some p) | None \<Rightarrow> (authority, None)) in
        if \<not> (h \<noteq> [] \<and> length h \<le> 253 \<and> list_all (\<lambda>b. is_ascii_alphanumeric b \<or> b = CHR ''.'' \<or> b = CHR ''-'') h)
        then Err InvalidHost
        else Ok (map to_ascii_lowercase h, p))"

definition parse_port :: "nat \<Rightarrow> bytes option \<Rightarrow> OriginError + nat option" where
  "parse_port default_port port_str =
     (case port_str of
        None \<Rightarrow> Ok None
      | Some p \<Rightarrow>
          if p = [] \<or> length p > 5 \<or> \<not> list_all is_ascii_digit p then Err InvalidPort
          else
            let n = radix_val 10 p in
            if n > 65535 \<or> n = 0 then Err InvalidPort
            else Ok (if n \<noteq> default_port then Some n else None))"

definition is_authority_end :: "byte \<Rightarrow> bool" where
  "is_authority_end c \<longleftrightarrow> c = CHR ''/'' \<or> c = CHR ''?'' \<or> c = CHR ''#''"

definition render_origin :: "bytes \<Rightarrow> bytes \<Rightarrow> nat option \<Rightarrow> bytes" where
  "render_origin scheme host port =
     scheme @ ''://'' @ host @ (case port of Some n \<Rightarrow> '':'' @ to_decimal n | None \<Rightarrow> [])"

definition parse_origin :: "bytes \<Rightarrow> OriginError + bytes \<times> bytes" where
  "parse_origin s =
     res_bind (ok_or InvalidScheme (split_once_str ''://'' s)) (\<lambda>(scheme, after).
     res_bind (parse_scheme scheme) (\<lambda>(scheme, default_port).
       let stop = (case position is_authority_end after of Some i \<Rightarrow> i | None \<Rightarrow> length after);
           authority = take stop after;
           rest = drop stop after
       in if CHR ''@'' \<in> set authority then Err UserInfo
          else res_bind (parse_authority authority) (\<lambda>(host, port_str).
            res_bind (parse_port default_port port_str) (\<lambda>port. Ok (render_origin scheme host port, rest)))))"

section \<open>Paths\<close>

text \<open>The loop over the bytes; percent escapes get upper-case digits.\<close>

fun normalize_bytes :: "bytes \<Rightarrow> bytes option" where
  "normalize_bytes [] = Some []"
| "normalize_bytes (b # bs) =
     (if \<not> (0x21 \<le> bval b \<and> bval b \<le> 0x7E) \<or> b = backslash then None
      else if b = CHR ''%'' then
        (case bs of
           h1 # h2 # bs' \<Rightarrow>
             if is_ascii_hexdigit h1 \<and> is_ascii_hexdigit h2
             then map_option (\<lambda>out. CHR ''%'' # to_ascii_uppercase h1 # to_ascii_uppercase h2 # out) (normalize_bytes bs')
             else None
         | _ \<Rightarrow> None)
      else map_option (\<lambda>out. b # out) (normalize_bytes bs))"

definition dot_segment :: "bytes \<Rightarrow> bool" where
  "dot_segment seg \<longleftrightarrow> replace_dots seg = ''.'' \<or> replace_dots seg = ''..''"

definition normalize_path :: "bytes \<Rightarrow> bytes option" where
  "normalize_path path =
     (if path = [] then Some ''/''
      else if \<not> starts_with ''/'' path then None
      else Option.bind (normalize_bytes path) (\<lambda>out.
        if list_ex dot_segment (split_on CHR ''/'' out) then None else Some out))"

section \<open>Origin and URIs\<close>

type_synonym PublicOrigin = bytes

definition origin_new :: "bytes \<Rightarrow> OriginError + PublicOrigin" where
  "origin_new origin =
     (if length origin > MAX_ORIGIN_LEN then Err OriginTooLong
      else res_bind (parse_origin origin) (\<lambda>(normalized, rest).
        if rest = [] \<or> rest = ''/'' then Ok normalized
        else if CHR ''?'' \<in> set rest \<or> CHR ''#'' \<in> set rest then Err OriginQueryOrFragment
        else Err PathNotAllowed))"

definition expected_htu :: "PublicOrigin \<Rightarrow> bytes \<Rightarrow> DpopError + bytes" where
  "expected_htu origin path =
     (if \<not> starts_with ''/'' path \<or> CHR ''?'' \<in> set path \<or> CHR ''#'' \<in> set path then Err InvalidRequestTarget
      else res_bind (ok_or InvalidRequestTarget (normalize_path path)) (\<lambda>path.
        let full = origin @ path in
        if length full > MAX_HTU_LEN then Err InvalidRequestTarget else Ok full))"

definition normalize_proof_htu :: "bytes \<Rightarrow> bytes option" where
  "normalize_proof_htu htu =
     (if length htu > MAX_HTU_LEN then None
      else case parse_origin htu of
        Err _ \<Rightarrow> None
      | Ok (origin, rest) \<Rightarrow>
          let rest = hd (split_on CHR ''#'' rest); rest = hd (split_on CHR ''?'' rest)
          in Option.bind (normalize_path rest) (\<lambda>path. Some (origin @ path)))"

section \<open>Normal paths\<close>

lemma uppercase_hex: "is_ascii_hexdigit b \<Longrightarrow> is_ascii_hexdigit (to_ascii_uppercase b)"
  "to_ascii_uppercase (to_ascii_uppercase b) = to_ascii_uppercase b"
  by (auto simp: to_ascii_uppercase_def ascii_class_defs bval_char_of)

lemma uppercase_hex_neq: "is_ascii_hexdigit b \<Longrightarrow> to_ascii_uppercase b \<noteq> CHR ''?'' \<and> to_ascii_uppercase b \<noteq> CHR ''#''"
  using uppercase_hex(1) [of b] by (auto simp: ascii_class_defs)

lemma normalize_bytes_step:
  "normalize_bytes (CHR ''%'' # h1 # h2 # bs) =
     (if is_ascii_hexdigit h1 \<and> is_ascii_hexdigit h2
      then map_option (\<lambda>out. CHR ''%'' # to_ascii_uppercase h1 # to_ascii_uppercase h2 # out) (normalize_bytes bs) else None)"
  by simp

lemma normalize_bytes_idem:
  assumes "normalize_bytes p = Some out"
  shows "normalize_bytes out = Some out \<and> (CHR ''?'' \<notin> set p \<longrightarrow> CHR ''?'' \<notin> set out) \<and> (CHR ''#'' \<notin> set p \<longrightarrow> CHR ''#'' \<notin> set out)"
  using assms
proof (induction p arbitrary: out rule: normalize_bytes.induct)
  case (2 b bs)
  show ?case
  proof (cases "b = CHR ''%''")
    case True
    then obtain h1 h2 bs' out' where bs: "bs = h1 # h2 # bs'" "is_ascii_hexdigit h1" "is_ascii_hexdigit h2"
        "normalize_bytes bs' = Some out'" "out = CHR ''%'' # to_ascii_uppercase h1 # to_ascii_uppercase h2 # out'"
      using "2.prems" by (auto split: list.splits if_splits)
    have "normalize_bytes out' = Some out' \<and> (CHR ''?'' \<notin> set bs' \<longrightarrow> CHR ''?'' \<notin> set out') \<and> (CHR ''#'' \<notin> set bs' \<longrightarrow> CHR ''#'' \<notin> set out')"
      using "2.IH"(1) [of h1 "h2 # bs'" h2 bs' out'] True bs by simp
    then show ?thesis
      using bs uppercase_hex uppercase_hex_neq [OF bs(2)] uppercase_hex_neq [OF bs(3)] by (auto simp: normalize_bytes_step simp del: normalize_bytes.simps)
  next
    case False
    then obtain out' where "normalize_bytes bs = Some out'" "out = b # out'" "0x21 \<le> bval b" "bval b \<le> 0x7E" "b \<noteq> backslash"
      using "2.prems" by (auto split: if_splits)
    then show ?thesis using "2.IH"(2) False by auto
  qed
qed simp

lemma normalize_bytes_slash: "normalize_bytes (CHR ''/'' # p) = map_option (\<lambda>out. CHR ''/'' # out) (normalize_bytes p)"
  by simp

lemma normalize_path_idem:
  assumes "normalize_path p = Some out"
  shows "normalize_path out = Some out" "\<exists>q. out = CHR ''/'' # q"
    "CHR ''?'' \<notin> set p \<Longrightarrow> CHR ''?'' \<notin> set out" "CHR ''#'' \<notin> set p \<Longrightarrow> CHR ''#'' \<notin> set out"
proof -
  have "normalize_path out = Some out \<and> (\<exists>q. out = CHR ''/'' # q) \<and> (CHR ''?'' \<notin> set p \<longrightarrow> CHR ''?'' \<notin> set out) \<and>
      (CHR ''#'' \<notin> set p \<longrightarrow> CHR ''#'' \<notin> set out)"
  proof (cases "p = []")
    case True
    then have "out = ''/''" using assms by (simp add: normalize_path_def)
    then show ?thesis by (simp add: normalize_path_def starts_with_iff dot_segment_def)
  next
    case False
    then obtain p' where p': "p = CHR ''/'' # p'" "normalize_bytes p = Some out" "\<not> list_ex dot_segment (split_on CHR ''/'' out)"
      using assms by (auto simp: normalize_path_def starts_with_iff bind_eq_Some_conv simp del: normalize_bytes.simps split: if_splits)
    then have "\<exists>q. out = CHR ''/'' # q" by (auto simp: normalize_bytes_slash simp del: normalize_bytes.simps)
    then show ?thesis
      using p' normalize_bytes_idem [OF p'(2)] by (auto simp: normalize_path_def starts_with_iff simp del: normalize_bytes.simps)
  qed
  then show "normalize_path out = Some out" "\<exists>q. out = CHR ''/'' # q"
    "CHR ''?'' \<notin> set p \<Longrightarrow> CHR ''?'' \<notin> set out" "CHR ''#'' \<notin> set p \<Longrightarrow> CHR ''#'' \<notin> set out" by blast+
qed

section \<open>Canonical origins\<close>

definition host_byte :: "byte \<Rightarrow> bool" where
  "host_byte b \<longleftrightarrow> is_ascii_alphanumeric b \<or> b = CHR ''.'' \<or> b = CHR ''-''"

definition ipv6_byte :: "byte \<Rightarrow> bool" where
  "ipv6_byte b \<longleftrightarrow> is_ascii_hexdigit b \<or> b = CHR '':'' \<or> b = CHR ''.''"

definition plain_host :: "bytes \<Rightarrow> bool" where
  "plain_host h \<longleftrightarrow> h \<noteq> [] \<and> length h \<le> 253 \<and> list_all host_byte h"

definition ipv6_host :: "bytes \<Rightarrow> bool" where
  "ipv6_host h \<longleftrightarrow> (\<exists>inner. h = ''['' @ inner @ '']'' \<and> inner \<noteq> [] \<and> CHR '':'' \<in> set inner \<and> list_all ipv6_byte inner)"

definition canonical_host :: "bytes \<Rightarrow> bool" where
  "canonical_host h \<longleftrightarrow> map to_ascii_lowercase h = h \<and> (plain_host h \<or> ipv6_host h)"

definition canonical_port :: "nat \<Rightarrow> nat option \<Rightarrow> bool" where
  "canonical_port default_port port = (case port of Some n \<Rightarrow> 0 < n \<and> n \<le> 65535 \<and> n \<noteq> default_port | None \<Rightarrow> True)"

definition canonical_origin :: "bytes \<Rightarrow> bool" where
  "canonical_origin u \<longleftrightarrow> (\<exists>scheme default_port host port. (scheme, default_port) \<in> {(''https'', 443), (''http'', 80)} \<and>
     canonical_host host \<and> canonical_port default_port port \<and> u = render_origin scheme host port)"

lemma lowercase_byte: "to_ascii_lowercase (to_ascii_lowercase b) = to_ascii_lowercase b"
  "host_byte b \<Longrightarrow> host_byte (to_ascii_lowercase b)" "ipv6_byte b \<Longrightarrow> ipv6_byte (to_ascii_lowercase b)"
  by (auto simp: to_ascii_lowercase_def host_byte_def ipv6_byte_def ascii_class_defs bval_char_of)

lemma host_byte_plain:
  "host_byte b \<Longrightarrow> \<not> is_authority_end b \<and> b \<noteq> CHR ''@'' \<and> b \<noteq> CHR '':'' \<and> b \<noteq> CHR ''[''"
  by (auto simp: host_byte_def is_authority_end_def ascii_class_defs)

lemma ipv6_byte_plain:
  "ipv6_byte b \<Longrightarrow> \<not> is_authority_end b \<and> b \<noteq> CHR ''@'' \<and> b \<noteq> CHR '']''"
  by (auto simp: ipv6_byte_def is_authority_end_def ascii_class_defs)

lemma digit_plain: "is_ascii_digit b \<Longrightarrow> \<not> is_authority_end b \<and> b \<noteq> CHR ''@'' \<and> b \<noteq> CHR '':''"
  by (auto simp: is_authority_end_def ascii_class_defs)

lemma parse_authority_canonical:
  assumes "parse_authority authority = Ok (host, port)"
  shows "canonical_host host"
proof (cases "starts_with ''['' authority")
  case True
  obtain close where close: "position (\<lambda>c. c = CHR '']'') authority = Some close"
    using assms True by (auto simp: parse_authority_def res_bind_eq_Ok)
  obtain rest where auth: "authority = CHR ''['' # rest" using True by (auto simp: starts_with_iff)
  then have c: "0 < close" "close < length authority" "authority ! close = CHR '']''"
    using close by (auto simp: position_Some_iff gr0_conv_Suc)
  let ?inner = "slice authority (1, close)"
  have inner: "?inner \<noteq> []" "CHR '':'' \<in> set ?inner" "list_all ipv6_byte ?inner"
    and host: "host = map to_ascii_lowercase (take (close + 1) authority)"
    using assms True close by (auto simp: parse_authority_def res_bind_eq_Ok Let_def ipv6_byte_def list_all_iff split: if_splits)
  have "take (close + 1) authority = ''['' @ ?inner @ '']''"
    using c auth by (cases close) (auto simp: slice_def take_Suc_conv_app_nth)
  then have "host = ''['' @ map to_ascii_lowercase ?inner @ '']''"
    unfolding host by (simp add: to_ascii_lowercase_def is_ascii_uppercase_def)
  moreover have "CHR '':'' \<in> set (map to_ascii_lowercase ?inner)"
    using imageI [OF inner(2), of to_ascii_lowercase] by (simp add: to_ascii_lowercase_def is_ascii_uppercase_def)
  moreover have "list_all ipv6_byte (map to_ascii_lowercase ?inner)" using inner(3) lowercase_byte(3) by (simp add: list_all_iff)
  ultimately have "ipv6_host host" using inner(1) unfolding ipv6_host_def by blast
  then show ?thesis by (simp add: canonical_host_def host lowercase_byte(1) comp_def)
next
  case False
  then obtain h where "host = map to_ascii_lowercase h" "plain_host h"
    using assms by (auto simp: parse_authority_def Let_def plain_host_def host_byte_def list_all_iff split: if_splits option.splits)
  then show ?thesis using lowercase_byte by (auto simp: canonical_host_def plain_host_def list_all_iff)
qed

lemma parse_port_canonical: "parse_port default_port p = Ok port \<Longrightarrow> canonical_port default_port port"
  by (auto simp: parse_port_def canonical_port_def Let_def split: option.splits if_splits)

lemma parse_origin_canonical:
  assumes "parse_origin s = Ok (u, rest)"
  shows "canonical_origin u"
proof -
  obtain sch scheme default_port host port_str port where "parse_scheme sch = Ok (scheme, default_port)"
      "parse_port default_port port_str = Ok port" "\<exists>authority. parse_authority authority = Ok (host, port_str)"
      "u = render_origin scheme host port"
    using assms by (clarsimp simp: parse_origin_def res_bind_eq_Ok Let_def split: if_splits) blast
  then show ?thesis
    using parse_authority_canonical parse_port_canonical
    by (fastforce simp: canonical_origin_def parse_scheme_def split: if_splits)
qed

section \<open>A canonical origin is its own normal form\<close>

definition port_text :: "nat option \<Rightarrow> bytes" where
  "port_text port = (case port of Some n \<Rightarrow> '':'' @ to_decimal n | None \<Rightarrow> [])"

lemma authority_bytes:
  assumes "canonical_host host"
  shows "\<forall>b\<in>set (host @ port_text port). \<not> is_authority_end b \<and> b \<noteq> CHR ''@''"
proof -
  have "\<not> is_authority_end b \<and> b \<noteq> CHR ''@''" if "b \<in> set host" for b
    using assms that host_byte_plain ipv6_byte_plain [of b]
    by (auto simp: canonical_host_def plain_host_def ipv6_host_def list_all_iff is_authority_end_def)
  moreover have "\<not> is_authority_end b \<and> b \<noteq> CHR ''@''" if "b \<in> set (port_text port)" for b
    using that digit_plain fmt_dec_digits by (auto simp: port_text_def is_authority_end_def split: option.splits)
  ultimately show ?thesis by auto
qed

lemma rsplit_once_last:
  assumes "d \<notin> set q"
  shows "rsplit_once d (p @ d # q) = Some (p, q)"
proof -
  have "position (\<lambda>c. c = d) (rev q @ d # rev p) = Some (length q)" using position_append_mid [of "rev q" "\<lambda>c. c = d" d "rev p"] assms by auto
  then show ?thesis by (simp add: rsplit_once_def rposition_def)
qed

lemma rsplit_once_none: "d \<notin> set p \<Longrightarrow> rsplit_once d p = None"
  by (auto simp: rsplit_once_def rposition_def position_None_iff)

lemma parse_authority_plain:
  assumes "plain_host host" "map to_ascii_lowercase host = host"
  shows "parse_authority (host @ port_text port) = Ok (host, map_option to_decimal port)"
proof -
  have no: "CHR '':'' \<notin> set host" "\<not> starts_with ''['' (host @ port_text port)"
    using assms(1) host_byte_plain by (cases host; auto simp: plain_host_def list_all_iff starts_with_iff)+
  have split: "(case rsplit_once CHR '':'' (host @ port_text port) of Some (h, p) \<Rightarrow> (h, Some p) | None \<Rightarrow> (host @ port_text port, None)) =
      (host, map_option to_decimal port)"
  proof (cases port)
    case (Some n)
    have "CHR '':'' \<notin> set (to_decimal n)" using fmt_dec_digits digit_plain by blast
    then show ?thesis using rsplit_once_last [of "CHR '':''" "to_decimal n" host] Some by (simp add: port_text_def)
  qed (simp add: port_text_def rsplit_once_none no(1))
  have "h \<noteq> [] \<and> length h \<le> 253 \<and> list_all (\<lambda>b. is_ascii_alphanumeric b \<or> b = CHR ''.'' \<or> b = CHR ''-'') h" if "h = host" for h
    using assms(1) that by (simp add: plain_host_def list_all_iff host_byte_def)
  then show ?thesis using no(2) assms(2) unfolding parse_authority_def Let_def split by simp
qed

lemma parse_authority_ipv6:
  assumes "ipv6_host host" "map to_ascii_lowercase host = host"
  shows "parse_authority (host @ port_text port) = Ok (host, map_option to_decimal port)"
proof -
  obtain inner where inner: "host = CHR ''['' # inner @ '']''" "inner \<noteq> []" "CHR '':'' \<in> set inner" "list_all ipv6_byte inner"
    using assms(1) by (auto simp: ipv6_host_def)
  let ?authority = "host @ port_text port"
  have close: "position (\<lambda>c. c = CHR '']'') ?authority = Some (Suc (length inner))"
    using position_append_mid [of inner "\<lambda>c. c = CHR '']''" "CHR '']''" "port_text port"] inner(1,4) ipv6_byte_plain
    by (auto simp: list_all_iff)
  have parts: "slice ?authority (1, Suc (length inner)) = inner" "drop (Suc (length inner) + 1) ?authority = port_text port"
    "take (Suc (length inner) + 1) ?authority = host" "starts_with ''['' ?authority"
    using inner(1) by (auto simp: slice_def starts_with_iff)
  have tail: "(if port_text port = [] then Ok None
        else res_bind (ok_or InvalidHost (strip_prefix '':'' (port_text port))) (\<lambda>p. Ok (Some p))) = Ok (map_option to_decimal port)"
    by (cases port) (auto simp: port_text_def)
  have ok: "list_all (\<lambda>b. is_ascii_hexdigit b \<or> b = CHR '':'' \<or> b = CHR ''.'') inner" using inner(4) by (simp add: ipv6_byte_def list_all_iff)
  show ?thesis
    using inner(2,3) assms(2) parts(4) unfolding parse_authority_def close Let_def ok_or_simps res_bind_simps parts(1-3) tail by (simp add: ok)
qed

lemma parse_port_decimal:
  assumes "canonical_port default_port port"
  shows "parse_port default_port (map_option to_decimal port) = Ok port"
proof (cases port)
  case (Some n)
  have "length (to_decimal n) \<le> 5" using assms Some length_to_decimal [of n 5] by (simp add: canonical_port_def)
  moreover have "list_all is_ascii_digit (to_decimal n)" using fmt_dec_digits by (auto simp: list_all_iff)
  ultimately show ?thesis using assms Some by (simp add: parse_port_def canonical_port_def Let_def radix_val_fmt)
qed (simp add: parse_port_def)

lemma parse_origin_again:
  assumes "canonical_origin u" "rest = [] \<or> is_authority_end (hd rest)"
  shows "parse_origin (u @ rest) = Ok (u, rest)"
proof -
  obtain scheme default_port host port where u: "(scheme, default_port) \<in> {(''https'', 443), (''http'', 80)}" "canonical_host host"
      "canonical_port default_port port" "u = render_origin scheme host port"
    using assms(1) unfolding canonical_origin_def by blast
  let ?authority = "host @ port_text port"
  have shape: "u @ rest = scheme @ ''://'' @ ?authority @ rest" using u(4) by (simp add: render_origin_def port_text_def)
  have "find_sub ''://'' (u @ rest) = map_option (\<lambda>i. length scheme + i) (find_sub ''://'' (''://'' @ ?authority @ rest))"
    unfolding shape using u(1) by (intro find_sub_skip) auto
  then have split: "split_once_str ''://'' (u @ rest) = Some (scheme, ?authority @ rest)"
    by (simp add: split_once_str_def shape starts_with_def)
  have scheme: "parse_scheme scheme = Ok (scheme, default_port)"
    using u(1) by (auto simp: parse_scheme_def eq_ignore_ascii_case_def)
  have stop: "(case position is_authority_end (?authority @ rest) of Some i \<Rightarrow> i | None \<Rightarrow> length (?authority @ rest)) = length ?authority"
  proof (cases rest)
    case Nil
    then have "position is_authority_end (?authority @ rest) = None"
      using authority_bytes [OF u(2), of port] by (simp add: position_None_iff)
    then show ?thesis using Nil by simp
  next
    case (Cons c cs)
    then show ?thesis
      using authority_bytes [OF u(2), of port] assms(2) position_append_mid [of ?authority is_authority_end c cs] by simp
  qed
  have auth: "parse_authority ?authority = Ok (host, map_option to_decimal port)"
    using u(2) parse_authority_plain parse_authority_ipv6 by (auto simp: canonical_host_def)
  have "CHR ''@'' \<notin> set ?authority" using authority_bytes [OF u(2), of port] by blast
  then show ?thesis
    unfolding parse_origin_def split ok_or_simps res_bind_simps prod.case scheme Let_def stop
    using auth parse_port_decimal [OF u(3)] u(4) by (simp del: append_assoc)
qed

text \<open>The URI of a DPoP proof. The URI that the server expects, its configured origin followed by the normalised path of the
  request, is what the normalisation of a proof's URI makes of it, also when the client adds a query or a
  fragment.\<close>

theorem expected_htu_normal:
  assumes "origin_new o' = Ok origin" and "expected_htu origin path = Ok htu"
    and "extra = [] \<or> hd extra = CHR ''?'' \<or> hd extra = CHR ''#''" and "length (htu @ extra) \<le> MAX_HTU_LEN"
  shows "normalize_proof_htu (htu @ extra) = Some htu"
proof -
  obtain rest where "parse_origin o' = Ok (origin, rest)" using assms(1) by (auto simp: origin_new_def res_bind_eq_Ok split: if_splits)
  then have origin: "canonical_origin origin" by (rule parse_origin_canonical)
  obtain q where q: "normalize_path path = Some q" "htu = origin @ q" "CHR ''?'' \<notin> set path" "CHR ''#'' \<notin> set path"
    using assms(2) by (auto simp: expected_htu_def res_bind_eq_Ok Let_def split: if_splits)
  have norm: "normalize_path q = Some q" "CHR ''?'' \<notin> set q" "CHR ''#'' \<notin> set q" and "\<exists>q'. q = CHR ''/'' # q'"
    using normalize_path_idem [OF q(1)] q(3,4) by auto
  then have "parse_origin (origin @ q @ extra) = Ok (origin, q @ extra)"
    by (intro parse_origin_again [OF origin]) (auto simp: is_authority_end_def)
  moreover have "hd (split_on CHR ''?'' (hd (split_on CHR ''#'' (q @ extra)))) = q"
  proof (cases "CHR ''#'' \<in> set extra")
    case True
    then obtain a b where ab: "extra = a @ CHR ''#'' # b" "CHR ''#'' \<notin> set a" by (metis split_list_first)
    then have "hd (split_on CHR ''#'' (q @ extra)) = q @ a" using norm(3) split_on_append_delim [of "CHR ''#''" "q @ a" b] by simp
    moreover have "a = [] \<or> hd a = CHR ''?''" using assms(3) ab by (cases a) auto
    ultimately show ?thesis using norm(2) split_on_append_delim [of "CHR ''?''" q "tl a"] by (cases a) auto
  next
    case False
    then have "hd (split_on CHR ''#'' (q @ extra)) = q @ extra" using norm(3) by simp
    moreover have "extra = [] \<or> hd extra = CHR ''?''" using assms(3) False by (cases extra) auto
    ultimately show ?thesis using norm(2) split_on_append_delim [of "CHR ''?''" q "tl extra"] by (cases extra) auto
  qed
  ultimately show ?thesis using assms(4) q(2) norm(1) by (simp add: normalize_proof_htu_def Let_def)
qed

theorem expected_htu_normal_witness:
  "origin_new ''HTTPS://Api.example:443/'' = Ok ''https://api.example'' \<and>
   expected_htu ''https://api.example'' ''/a%2fb'' = Ok ''https://api.example/a%2Fb'' \<and>
   normalize_proof_htu ''https://api.example/a%2Fb?x=1'' = Some ''https://api.example/a%2Fb''"
proof -
  have pieces: "split_once_str ''://'' ''HTTPS://Api.example:443/'' = Some (''HTTPS'', ''Api.example:443/'')"
    "parse_authority ''Api.example:443'' = Ok (''api.example'', Some ''443'')" "position is_authority_end ''Api.example:443/'' = Some 15"
    "radix_val 10 ''443'' = 443" "list_all is_ascii_digit ''443''" "normalize_path ''/a%2fb'' = Some ''/a%2Fb''"
    by code_simp+
  have scheme: "parse_scheme ''HTTPS'' = Ok (''https'', 443)" by code_simp
  have port: "parse_port 443 (Some ''443'') = Ok None" using pieces(4,5) unfolding parse_port_def option.case Let_def by simp
  have "parse_origin ''HTTPS://Api.example:443/'' = Ok (''https://api.example'', ''/'')"
    using pieces(1-3) scheme port by (simp add: parse_origin_def render_origin_def)
  then have origin: "origin_new ''HTTPS://Api.example:443/'' = Ok ''https://api.example''" by (simp add: origin_new_def MAX_ORIGIN_LEN_def)
  have htu: "expected_htu ''https://api.example'' ''/a%2fb'' = Ok ''https://api.example/a%2Fb''"
    by (simp add: expected_htu_def MAX_HTU_LEN_def starts_with_def pieces)
  have "normalize_proof_htu (''https://api.example/a%2Fb'' @ ''?x=1'') = Some ''https://api.example/a%2Fb''"
    by (rule expected_htu_normal [OF origin htu]) (simp_all add: MAX_HTU_LEN_def)
  then show ?thesis using origin htu by simp
qed

end
