(* ===== verification/Jwt_Replay.thy ===== *)
theory Jwt_Replay
  imports Jwt_Verify "HOL-Library.AList" "HOL-Library.Multiset" "HOL-Library.List_Lexorder" "HOL-Library.Char_ord"
    "HOL-Library.Product_Lexorder"
begin

text \<open>
  \<^verbatim>\<open>crates/plugin-jwt/src/dpop/replay.rs\<close> and the time window of \<^verbatim>\<open>dpop.rs\<close>: the store of the DPoP proofs that were used. The hash map is an
  association list with distinct keys, the binary heap the sorted list of its elements. The store is shown to implement the
  map of the proofs that are still valid, and to refuse a proof that is presented a second time.
\<close>

section \<open>The window\<close>

definition DEFAULT_IAT_PAST :: nat where "DEFAULT_IAT_PAST = from_secs 60"
definition MAX_IAT_PAST :: nat where "MAX_IAT_PAST = from_secs 300"
definition DEFAULT_IAT_FUTURE :: nat where "DEFAULT_IAT_FUTURE = from_secs 5"
definition MAX_IAT_FUTURE :: nat where "MAX_IAT_FUTURE = from_secs 60"

datatype DpopConfigError = IatPastZero | IatPastTooLarge | IatFutureTooLarge | ReplayCapacityZero | ReplayCapacityTooLarge

record IatWindow =
  iw_past :: nat
  iw_future :: nat

definition iat_window_new :: "nat \<Rightarrow> nat \<Rightarrow> DpopConfigError + IatWindow" where
  "iat_window_new past future =
     (if as_secs past = 0 then Err IatPastZero
      else if past > MAX_IAT_PAST then Err IatPastTooLarge
      else if future > MAX_IAT_FUTURE then Err IatFutureTooLarge
      else Ok \<lparr>iw_past = past, iw_future = future\<rparr>)"

definition iat_window_default :: IatWindow where
  "iat_window_default = \<lparr>iw_past = DEFAULT_IAT_PAST, iw_future = DEFAULT_IAT_FUTURE\<rparr>"

section \<open>The store\<close>

definition DEFAULT_REPLAY_CAPACITY :: nat where "DEFAULT_REPLAY_CAPACITY = 131072"
definition MAX_REPLAY_CAPACITY :: nat where "MAX_REPLAY_CAPACITY = 4194304"

record ReplayStore =
  rs_map :: "(bytes \<times> nat) list"
  rs_heap :: "(nat \<times> bytes) list"
  rs_past_secs :: nat
  rs_capacity :: nat

definition replay_new :: "IatWindow \<Rightarrow> ReplayStore" where
  "replay_new window =
     \<lparr>rs_map = [], rs_heap = [], rs_past_secs = as_secs (iw_past window), rs_capacity = DEFAULT_REPLAY_CAPACITY\<rparr>"

definition replay_with_capacity :: "IatWindow \<Rightarrow> nat \<Rightarrow> DpopConfigError + ReplayStore" where
  "replay_with_capacity window capacity =
     (if capacity = 0 then Err ReplayCapacityZero
      else if capacity > MAX_REPLAY_CAPACITY then Err ReplayCapacityTooLarge
      else Ok ((replay_new window)\<lparr>rs_capacity := capacity\<rparr>))"

text \<open>The loop that forgets what has expired.\<close>

fun forget_expired :: "nat \<Rightarrow> (nat \<times> bytes) list \<Rightarrow> (bytes \<times> nat) list \<Rightarrow> (nat \<times> bytes) list \<times> (bytes \<times> nat) list" where
  "forget_expired now_unix [] m = ([], m)"
| "forget_expired now_unix ((expiry, k) # heap) m =
     (if expiry \<ge> now_unix then ((expiry, k) # heap, m)
      else forget_expired now_unix heap (if map_of m k = Some expiry then AList.delete k m else m))"

definition register_key :: "ReplayStore \<Rightarrow> bytes \<Rightarrow> nat \<Rightarrow> nat \<Rightarrow> (DpopError + unit) \<times> ReplayStore" where
  "register_key st key iat now_unix =
     (let expiry = saturating_add iat (rs_past_secs st);
          (heap, m) = forget_expired now_unix (rs_heap st) (rs_map st);
          st = st\<lparr>rs_heap := heap, rs_map := m\<rparr>
      in if map_of m key \<noteq> None then (Err Replayed, st)
         else if length m \<ge> rs_capacity st then (Err ReplayStoreFull, st)
         else (Ok (), st\<lparr>rs_heap := insort (expiry, key) heap, rs_map := AList.update key expiry m\<rparr>))"

definition replay_key :: "(bytes \<Rightarrow> bytes) \<Rightarrow> bytes \<Rightarrow> bytes \<Rightarrow> bytes" where
  "replay_key sha256 thumbprint jti = sha256 (thumbprint @ jti)"

definition replay_len :: "ReplayStore \<Rightarrow> nat" where
  "replay_len st = length (rs_map st)"

text \<open>Attempts to register: key, time of issue and time of the attempt, one after the other.\<close>

fun register_all :: "ReplayStore \<Rightarrow> (bytes \<times> nat \<times> nat) list \<Rightarrow> (DpopError + unit) list \<times> ReplayStore" where
  "register_all st [] = ([], st)"
| "register_all st ((key, iat, now_unix) # attempts) =
     (let (r, st) = register_key st key iat now_unix; (rs, st) = register_all st attempts in (r # rs, st))"

section \<open>Invariant\<close>

definition replay_inv :: "ReplayStore \<Rightarrow> bool" where
  "replay_inv st \<longleftrightarrow> distinct (map fst (rs_map st)) \<and> sorted (rs_heap st) \<and>
     mset (rs_heap st) = mset (map prod.swap (rs_map st)) \<and> length (rs_map st) \<le> rs_capacity st"

text \<open>What the store stands for: the proofs that were registered, with their expiry.\<close>

definition live :: "nat \<Rightarrow> (bytes \<rightharpoonup> nat) \<Rightarrow> (bytes \<rightharpoonup> nat)" where
  "live now_unix m = (\<lambda>k. case m k of Some e \<Rightarrow> if now_unix \<le> e then Some e else None | None \<Rightarrow> None)"

definition spec_register :: "nat \<Rightarrow> nat \<Rightarrow> bytes \<Rightarrow> nat \<Rightarrow> nat \<Rightarrow> (bytes \<rightharpoonup> nat) \<Rightarrow> (DpopError + unit) \<times> (bytes \<rightharpoonup> nat)" where
  "spec_register past capacity key iat now_unix m =
     (let valid = live now_unix m in
      if key \<in> dom valid then (Err Replayed, valid)
      else if card (dom valid) \<ge> capacity then (Err ReplayStoreFull, valid)
      else (Ok (), valid(key \<mapsto> saturating_add iat past)))"

lemma map_of_filter_live:
  "distinct (map fst m) \<Longrightarrow> map_of (filter (\<lambda>(k, e). now_unix \<le> e) m) = live now_unix (map_of m)"
proof (induction m)
  case (Cons p m)
  obtain k e where p: "p = (k, e)" by (cases p)
  have "map_of m k = None" using Cons.prems p by (simp add: map_of_eq_None_iff)
  then have "live now_unix (map_of m) k = None" by (simp add: live_def)
  then show ?case using Cons p by (auto simp: live_def fun_eq_iff)
qed (simp add: live_def fun_eq_iff)

lemma forget_expired_spec:
  assumes "distinct (map fst m)" "sorted heap" "mset heap = mset (map prod.swap m)"
  shows "forget_expired now_unix heap m = (filter (\<lambda>(e, k). now_unix \<le> e) heap, filter (\<lambda>(k, e). now_unix \<le> e) m)"
  using assms
proof (induction heap arbitrary: m)
  case Nil
  then show ?case by simp
next
  case (Cons x heap)
  obtain e k where x: "x = (e, k)" by (cases x)
  have mem: "(k, e) \<in> set m"
  proof -
    have "(e, k) \<in># mset (map prod.swap m)" unfolding Cons.prems(3) [symmetric] x by simp
    then show ?thesis by auto
  qed
  show ?case
  proof (cases "now_unix \<le> e")
    case True
    have later: "now_unix \<le> e'" if "(e', k') \<in> set (x # heap)" for e' k'
      using Cons.prems(2) that True x by (auto simp: less_eq_prod_def)
    have "now_unix \<le> e'" if "(k', e') \<in> set m" for k' e'
    proof -
      have "(e', k') \<in># mset (map prod.swap m)" using that by force
      then have "(e', k') \<in> set (x # heap)" unfolding Cons.prems(3) [symmetric] by simp
      then show ?thesis by (rule later)
    qed
    then have "filter (\<lambda>(k, e). now_unix \<le> e) m = m" "filter (\<lambda>(e, k). now_unix \<le> e) (x # heap) = x # heap"
      using later by (auto intro!: filter_True)
    then show ?thesis using True x by simp
  next
    case False
    let ?m = "AList.delete k m"
    have found: "map_of m k = Some e" using mem Cons.prems(1) by simp
    have del: "mset (map prod.swap m) = add_mset (e, k) (mset (map prod.swap ?m))"
      using mem Cons.prems(1)
    proof (induction m)
      case (Cons p m)
      show ?case
      proof (cases "p = (k, e)")
        case True
        then have "k \<notin> fst ` set m" using Cons.prems(2) by auto
        then show ?thesis using True by (simp add: delete_id)
      next
        case False
        then have "(k, e) \<in> set m" using Cons.prems(1) by simp
        then have "fst p \<noteq> k" using Cons.prems(2) by (auto simp: rev_image_eqI)
        then show ?thesis using Cons.IH \<open>(k, e) \<in> set m\<close> Cons.prems(2) by (cases p) simp
      qed
    qed simp
    have "mset heap = mset (map prod.swap ?m)" using Cons.prems(3) del x by simp
    moreover have "distinct (map fst ?m)" using Cons.prems(1) by (rule distinct_delete)
    ultimately have IH: "forget_expired now_unix heap ?m = (filter (\<lambda>(e, k). now_unix \<le> e) heap, filter (\<lambda>(k, e). now_unix \<le> e) ?m)"
      using Cons.IH Cons.prems(2) by simp
    have "filter (\<lambda>(k, e). now_unix \<le> e) ?m = filter (\<lambda>(k, e). now_unix \<le> e) m"
    proof -
      have "p \<in> set m \<Longrightarrow> fst p = k \<Longrightarrow> p = (k, e)" for p using mem Cons.prems(1) by (metis eq_key_imp_eq_value prod.collapse)
      then show ?thesis unfolding AList.delete_eq filter_filter using False by (intro filter_cong) auto
    qed
    then show ?thesis using IH False x found by simp
  qed
qed

lemma update_nonmem_conv: "k \<notin> fst ` set m \<Longrightarrow> AList.update k v m = m @ [(k, v)]"
  by (induction m) auto

section \<open>The store implements the map of the valid proofs\<close>

lemma sorted_filter_heap: "sorted heap \<Longrightarrow> sorted (filter p (heap :: (nat \<times> bytes) list))"
  using sorted_filter [of "\<lambda>x. x" heap p] by simp

lemma length_map_of: "distinct (map fst m) \<Longrightarrow> card (dom (map_of m)) = length m"
  using distinct_card [of "map fst m"] by (simp add: dom_map_of_conv_image_fst)

lemma register_key_inv:
  assumes "replay_inv st"
  shows "replay_inv (snd (register_key st key iat now_unix))"
    "fst (register_key st key iat now_unix) = fst (spec_register (rs_past_secs st) (rs_capacity st) key iat now_unix (map_of (rs_map st)))"
    "map_of (rs_map (snd (register_key st key iat now_unix))) =
      snd (spec_register (rs_past_secs st) (rs_capacity st) key iat now_unix (map_of (rs_map st)))"
    "rs_past_secs (snd (register_key st key iat now_unix)) = rs_past_secs st"
    "rs_capacity (snd (register_key st key iat now_unix)) = rs_capacity st"
proof -
  let ?m = "filter (\<lambda>(k, e). now_unix \<le> e) (rs_map st)" and ?heap = "filter (\<lambda>(e, k). now_unix \<le> e) (rs_heap st)"
  have inv: "distinct (map fst (rs_map st))" "sorted (rs_heap st)" "mset (rs_heap st) = mset (map prod.swap (rs_map st))"
    "length (rs_map st) \<le> rs_capacity st"
    using assms by (auto simp: replay_inv_def)
  have forget: "forget_expired now_unix (rs_heap st) (rs_map st) = (?heap, ?m)" using inv by (intro forget_expired_spec)
  have live: "map_of ?m = live now_unix (map_of (rs_map st))" using inv(1) by (rule map_of_filter_live)
  have distinct: "distinct (map fst ?m)" using inv(1) by (simp add: distinct_map_filter)
  have card: "card (dom (live now_unix (map_of (rs_map st)))) = length ?m" using length_map_of [OF distinct] by (simp add: live)
  have "mset ?heap = mset (filter (\<lambda>(e, k). now_unix \<le> e) (map prod.swap (rs_map st)))" unfolding mset_filter inv(3) ..
  moreover have "filter (\<lambda>(e, k). now_unix \<le> e) (map prod.swap (rs_map st)) = map prod.swap ?m"
    unfolding filter_map by (simp add: comp_def case_prod_unfold)
  ultimately have heap: "mset ?heap = mset (map prod.swap ?m)" by (simp only:)
  have len: "length ?m \<le> rs_capacity st" using inv(4) length_filter_le [of "\<lambda>(k, e). now_unix \<le> e" "rs_map st"] by linarith
  have upd: "AList.update key v ?m = ?m @ [(key, v)]" if "map_of ?m key = None" for v
    using that unfolding map_of_eq_None_iff by (rule update_nonmem_conv)
  show "replay_inv (snd (register_key st key iat now_unix))"
    using distinct heap len sorted_filter_heap [OF inv(2)] upd
    by (auto simp: replay_inv_def register_key_def forget Let_def sorted_insort map_of_eq_None_iff)
  show "fst (register_key st key iat now_unix) = fst (spec_register (rs_past_secs st) (rs_capacity st) key iat now_unix (map_of (rs_map st)))"
    using live card by (auto simp: register_key_def forget Let_def spec_register_def domIff)
  show "map_of (rs_map (snd (register_key st key iat now_unix))) =
      snd (spec_register (rs_past_secs st) (rs_capacity st) key iat now_unix (map_of (rs_map st)))"
    using live card by (auto simp: register_key_def forget Let_def spec_register_def domIff update_conv')
  show "rs_past_secs (snd (register_key st key iat now_unix)) = rs_past_secs st"
    "rs_capacity (snd (register_key st key iat now_unix)) = rs_capacity st"
    by (simp_all add: register_key_def forget Let_def)
qed

lemma register_all_inv:
  assumes "replay_inv st"
  shows "replay_inv (snd (register_all st attempts)) \<and> rs_past_secs (snd (register_all st attempts)) = rs_past_secs st \<and>
    rs_capacity (snd (register_all st attempts)) = rs_capacity st"
  using assms
proof (induction attempts arbitrary: st)
  case (Cons a attempts)
  obtain key iat now_unix where a: "a = (key, iat, now_unix)" by (cases a)
  show ?case
    using Cons.IH [OF register_key_inv(1) [OF Cons.prems, of key iat now_unix]] register_key_inv(4,5) [OF Cons.prems, of key iat now_unix]
    by (simp add: a Let_def split_beta)
qed simp

lemma replay_start: "replay_inv (replay_new window)" "replay_with_capacity window capacity = Ok st \<Longrightarrow> replay_inv st"
  by (auto simp: replay_inv_def replay_new_def replay_with_capacity_def split: if_splits)

lemma entry_kept:
  assumes "replay_inv st" "map_of (rs_map st) key = Some e" "list_all (\<lambda>(k, iat, now_unix). now_unix \<le> e) attempts"
  shows "map_of (rs_map (snd (register_all st attempts))) key = Some e"
  using assms
proof (induction attempts arbitrary: st)
  case (Cons a attempts)
  obtain k iat now_unix where a: "a = (k, iat, now_unix)" by (cases a)
  have "map_of (rs_map (snd (register_key st k iat now_unix))) key = Some e"
    unfolding register_key_inv(3) [OF Cons.prems(1)] using Cons.prems(2,3) a
    by (auto simp: spec_register_def live_def Let_def domIff)
  then show ?case
    using Cons.IH [OF register_key_inv(1) [OF Cons.prems(1), of k iat now_unix]] Cons.prems(3) by (simp add: a Let_def split_beta)
qed simp

text \<open>C32. The replay store refines a map. After any attempts to register, the answer to the next one and the proofs then held are those of
  a map from proofs to their expiry: what has expired is forgotten, a proof that is held is refused as a replay, and
  otherwise it is held until its time of issue plus the window, unless the store is full of proofs that are still valid. The store never holds
  more than its capacity.\<close>

theorem replay_store_refines:
  assumes "replay_with_capacity window capacity = Ok st\<^sub>0" and "register_all st\<^sub>0 attempts = (results, st)"
    and "register_key st key iat now_unix = (result, st')"
  shows "(result, map_of (rs_map st')) = spec_register (as_secs (iw_past window)) capacity key iat now_unix (map_of (rs_map st)) \<and>
    replay_len st' \<le> capacity \<and> replay_len st' = card (dom (map_of (rs_map st')))"
proof -
  have st\<^sub>0: "replay_inv st\<^sub>0" "rs_past_secs st\<^sub>0 = as_secs (iw_past window)" "rs_capacity st\<^sub>0 = capacity"
    using assms(1) replay_start(2) [OF assms(1)] by (auto simp: replay_with_capacity_def replay_new_def split: if_splits)
  have st: "replay_inv st" "rs_past_secs st = as_secs (iw_past window)" "rs_capacity st = capacity"
    using register_all_inv [OF st\<^sub>0(1), of attempts] st\<^sub>0 assms(2) by auto
  have "replay_inv st'" "rs_capacity st' = capacity" using register_key_inv(1,5) [OF st(1), of key iat now_unix] assms(3) st(3) by auto
  then have "replay_len st' \<le> capacity" "replay_len st' = card (dom (map_of (rs_map st')))"
    by (auto simp: replay_inv_def replay_len_def length_map_of)
  then show ?thesis using register_key_inv(2,3) [OF st(1), of key iat now_unix] assms(3) st by (simp add: prod_eq_iff)
qed

theorem replay_store_refines_witness:
  "snd (register_all (replay_new iat_window_default\<lparr>rs_capacity := 1\<rparr>) [(''a'', 100, 100)]) =
     \<lparr>rs_map = [(''a'', 160)], rs_heap = [(160, ''a'')], rs_past_secs = 60, rs_capacity = 1\<rparr> \<and>
   spec_register 60 1 ''b'' 101 101 [''a'' \<mapsto> 160] = (Err ReplayStoreFull, [''a'' \<mapsto> 160])"
proof -
  let ?st = "\<lparr>rs_map = [(''a'', 160)], rs_heap = [(160, ''a'')], rs_past_secs = 60, rs_capacity = 1\<rparr>"
  have window: "as_secs (iw_past iat_window_default) = 60"
    by (simp add: iat_window_default_def DEFAULT_IAT_PAST_def from_secs_def as_secs_def NANOS_PER_SEC_def)
  have start: "replay_with_capacity iat_window_default 1 = Ok (replay_new iat_window_default\<lparr>rs_capacity := 1\<rparr>)"
    by (simp add: replay_with_capacity_def MAX_REPLAY_CAPACITY_def)
  have all: "register_all (replay_new iat_window_default\<lparr>rs_capacity := 1\<rparr>) [(''a'', 100, 100)] = ([Ok ()], ?st)"
    by (simp add: register_key_def replay_new_def window saturating_add_def)
  have more: "register_key ?st ''b'' 101 101 = (Err ReplayStoreFull, ?st)" by (simp add: register_key_def)
  show ?thesis using replay_store_refines [OF start all more] all window by simp
qed

lemma register_all_append: "snd (register_all st (as @ bs)) = snd (register_all (snd (register_all st as)) bs)"
proof (induction as arbitrary: st)
  case (Cons a as)
  show ?case by (cases a) (simp add: Let_def split_beta Cons.IH)
qed simp

text \<open>A registered proof is refused while it is valid.\<close>

lemma registered_refused:
  assumes "replay_inv st" "fst (register_key st key iat now\<^sub>1) = Ok ()"
    and "list_all (\<lambda>(k, iat, now_unix). now_unix \<le> now\<^sub>3) attempts" "now\<^sub>3 \<le> saturating_add iat (rs_past_secs st)"
  shows "fst (register_key (snd (register_all (snd (register_key st key iat now\<^sub>1)) attempts)) key iat now\<^sub>3) = Err Replayed"
proof -
  let ?e = "saturating_add iat (rs_past_secs st)" and ?st = "snd (register_key st key iat now\<^sub>1)"
  have st: "replay_inv ?st" "map_of (rs_map ?st) key = Some ?e"
    using register_key_inv(1-3) [OF assms(1), of key iat now\<^sub>1] assms(2) by (auto simp: spec_register_def Let_def split: if_splits)
  have "list_all (\<lambda>(k, iat, now_unix). now_unix \<le> ?e) attempts" using assms(3,4) by (auto simp: list_all_iff)
  then have "map_of (rs_map (snd (register_all ?st attempts))) key = Some ?e" "replay_inv (snd (register_all ?st attempts))"
    using entry_kept [OF st, of attempts] register_all_inv [OF st(1), of attempts] by simp_all
  then show ?thesis using register_key_inv(2) assms(4) by (simp add: spec_register_def live_def Let_def domIff)
qed

end
