(* ===== verification/Jwt_Dpop.thy ===== *)
theory Jwt_Dpop
  imports Jwt_Origin Jwt_Replay
begin

text \<open>
  \<^verbatim>\<open>crates/plugin-jwt/src/dpop.rs\<close>, \<^verbatim>\<open>dpop/key.rs\<close> and \<^verbatim>\<open>dpop/config.rs\<close>: DPoP proofs (RFC 9449). The record of library functions is extended by
  the deserialisers for the header, the claims and the key of a proof. The main result says exactly which proofs are
  accepted.
\<close>

section \<open>Configuration\<close>

datatype DpopMode = DpopRequired | AllowUnboundBearer

record DpopConfig =
  dc_mode :: DpopMode
  dc_origin :: PublicOrigin
  dc_algs :: AllowedAlgorithms
  dc_window :: IatWindow
  dc_replay_capacity :: "nat option"

definition dpop_config_new :: "DpopMode \<Rightarrow> PublicOrigin \<Rightarrow> AllowedAlgorithms \<Rightarrow> DpopConfig" where
  "dpop_config_new mode origin algs =
     \<lparr>dc_mode = mode, dc_origin = origin, dc_algs = algs, dc_window = iat_window_default, dc_replay_capacity = None\<rparr>"

definition with_iat_window :: "DpopConfig \<Rightarrow> IatWindow \<Rightarrow> DpopConfig" where
  "with_iat_window c window = c\<lparr>dc_window := window\<rparr>"

definition with_replay_capacity :: "DpopConfig \<Rightarrow> nat \<Rightarrow> DpopConfigError + DpopConfig" where
  "with_replay_capacity c capacity =
     (if capacity = 0 then Err ReplayCapacityZero
      else if capacity > MAX_REPLAY_CAPACITY then Err ReplayCapacityTooLarge
      else Ok (c\<lparr>dc_replay_capacity := Some capacity\<rparr>))"

section \<open>Proofs as read\<close>

definition MAX_PROOF_LEN :: nat where "MAX_PROOF_LEN = MAX_TOKEN_LEN"
definition MAX_JTI_LEN :: nat where "MAX_JTI_LEN = 256"
definition EC_COORD_LEN :: nat where "EC_COORD_LEN = 32"
definition RSA_N_MIN :: nat where "RSA_N_MIN = 256"
definition RSA_N_MAX :: nat where "RSA_N_MAX = 1024"
definition RSA_E_MAX :: nat where "RSA_E_MAX = 8"

text \<open>The members of the key of a proof are those of a key of a key set, except for the key identifier, which is not read.\<close>

record RawProofHeader =
  ph_alg :: "bytes option"
  ph_typ :: "bytes option"
  ph_crit :: bool
  ph_jwk :: "RawJwk option"

record RawProofClaims =
  pc_jti :: "bytes option"
  pc_htm :: "bytes option"
  pc_htu :: "bytes option"
  pc_iat :: "nat option"
  pc_ath :: "bytes option"

record 'x DpopLib = "'x JoseLib" +
  dl_proof_header :: "bytes \<Rightarrow> RawProofHeader option"
  dl_proof_claims :: "bytes \<Rightarrow> RawProofClaims option"
  dl_jwk :: "bytes \<Rightarrow> RawJwk option"

section \<open>The key of a proof\<close>

record ProofKey =
  pk_material :: KeyMaterial
  pk_thumbprint :: bytes

definition canonical_int :: "'x DpopLib \<Rightarrow> bytes option \<Rightarrow> nat \<Rightarrow> nat \<Rightarrow> DpopError + bytes" where
  "canonical_int L s lo hi =
     res_bind (ok_or InvalidKey s) (\<lambda>s.
       if length s > encoded_cap hi then Err InvalidKey
       else res_bind (ok_or InvalidKey (jl_decode L s)) (\<lambda>content.
         if length content < lo \<or> length content > hi \<or> starts_with [CHR 0x00] content then Err InvalidKey
         else Ok content))"

definition fixed_coord :: "'x DpopLib \<Rightarrow> bytes option \<Rightarrow> DpopError + bytes" where
  "fixed_coord L s =
     res_bind (ok_or InvalidKey s) (\<lambda>s.
       if length s > encoded_cap EC_COORD_LEN then Err InvalidKey
       else res_bind (ok_or InvalidKey (jl_decode L s)) (\<lambda>content.
         if length content = EC_COORD_LEN then Ok content else Err InvalidKey))"

definition quoted :: "bytes \<Rightarrow> bytes" where
  "quoted s = dquote # s @ [dquote]"

definition member :: "bytes \<Rightarrow> bytes \<Rightarrow> bytes" where
  "member name val = quoted name @ '':'' @ quoted val"

definition rsa_json :: "'x DpopLib \<Rightarrow> bytes \<Rightarrow> bytes \<Rightarrow> bytes" where
  "rsa_json L n e =
     ''{'' @ member ''e'' (jl_encode L e) @ '','' @ member ''kty'' ''RSA'' @ '','' @ member ''n'' (jl_encode L n) @ ''}''"

definition ec_json :: "'x DpopLib \<Rightarrow> bytes \<Rightarrow> bytes \<Rightarrow> bytes" where
  "ec_json L x y =
     ''{'' @ member ''crv'' ''P-256'' @ '','' @ member ''kty'' ''EC'' @ '','' @ member ''x'' (jl_encode L x) @ '','' @ member ''y'' (jl_encode L y) @ ''}''"

definition thumbprint_of :: "'x DpopLib \<Rightarrow> bytes \<Rightarrow> bytes" where
  "thumbprint_of L canonical_json = jl_encode L (jl_sha256 L canonical_json)"

definition proof_key_alg :: "RawJwk \<Rightarrow> Algorithm option \<Rightarrow> DpopError + Algorithm" where
  "proof_key_alg j header_alg =
     (if private_members j then Err ProofPrivateKey
      else res_bind (ok_or UnsupportedKey (rj_kty j)) (\<lambda>kty.
        res_bind (if kty = ''RSA'' then Ok Rs256 else if kty = ''EC'' then Ok Es256 else Err UnsupportedKey) (\<lambda>key_alg.
          if (case header_alg of Some a \<Rightarrow> a \<noteq> key_alg | None \<Rightarrow> False) then Err ProofKeyAlgorithmMismatch
          else if (case rj_alg j of Some a \<Rightarrow> a \<noteq> as_jose_name key_alg | None \<Rightarrow> False) then Err ProofKeyAlgorithmMismatch
          else if (case rj_use j of Some u \<Rightarrow> u \<noteq> ''sig'' | None \<Rightarrow> False) then Err UnsupportedKey
          else Ok key_alg)))"

definition build_proof_key :: "'x DpopLib \<Rightarrow> RawJwk \<Rightarrow> Algorithm option \<Rightarrow> DpopError + ProofKey" where
  "build_proof_key L j header_alg =
     res_bind (proof_key_alg j header_alg) (\<lambda>key_alg.
       case key_alg of
         Rs256 \<Rightarrow>
           res_bind (canonical_int L (rj_n j) RSA_N_MIN RSA_N_MAX) (\<lambda>n.
           res_bind (canonical_int L (rj_e j) 1 RSA_E_MAX) (\<lambda>e.
             Ok \<lparr>pk_material = Rsa n e, pk_thumbprint = thumbprint_of L (rsa_json L n e)\<rparr>))
       | Es256 \<Rightarrow>
           if rj_crv j \<noteq> Some ''P-256'' then Err UnsupportedKey
           else
             res_bind (fixed_coord L (rj_x j)) (\<lambda>x.
             res_bind (fixed_coord L (rj_y j)) (\<lambda>y.
               Ok \<lparr>pk_material = EcP256 (CHR 0x04 # x @ y), pk_thumbprint = thumbprint_of L (ec_json L x y)\<rparr>)))"

definition jwk_thumbprint :: "'x DpopLib \<Rightarrow> bytes \<Rightarrow> DpopError + bytes" where
  "jwk_thumbprint L jwk_json =
     (if length jwk_json > MAX_PROOF_LEN then Err ProofTooLong
      else res_bind (ok_or ProofMalformed (dl_jwk L jwk_json)) (\<lambda>jwk.
        res_bind (build_proof_key L jwk None) (\<lambda>k. Ok (pk_thumbprint k))))"

section \<open>Verification of a proof\<close>

record ProofContext =
  px_method :: bytes
  px_htu :: bytes
  px_access_token :: bytes
  px_algs :: AllowedAlgorithms
  px_window :: IatWindow

record VerifiedProof =
  vp_thumbprint :: bytes
  vp_jti :: bytes
  vp_iat :: nat

definition is_token_side :: "DpopError \<Rightarrow> bool" where
  "is_token_side e \<longleftrightarrow> e = BoundTokenAsBearer \<or> e = UnboundToken"

definition proof_b64 :: "'x DpopLib \<Rightarrow> bytes \<Rightarrow> DpopError + bytes" where
  "proof_b64 L s = ok_or ProofMalformed (jl_decode L s)"

definition proof_json_object :: "bytes \<Rightarrow> DpopError + unit" where
  "proof_json_object bs =
     (case dropWhile is_ascii_whitespace bs of b # _ \<Rightarrow> if b = CHR ''{'' then Ok () else Err ProofMalformed | [] \<Rightarrow> Err ProofMalformed)"

definition typ_is_dpop :: "bytes \<Rightarrow> bool" where
  "typ_is_dpop t =
     (let pre = ''application/'' in
      eq_ignore_ascii_case
        (if length t \<ge> length pre \<and> eq_ignore_ascii_case (take (length pre) t) pre then drop (length pre) t else t)
        ''dpop+jwt'')"

definition proof_parts :: "bytes \<Rightarrow> DpopError + bytes \<times> bytes \<times> bytes" where
  "proof_parts proof' =
     (if proof' = [] then Err MissingProof
      else if length proof' > MAX_PROOF_LEN then Err ProofTooLong
      else case split_on CHR ''.'' proof' of
        [h, p, s] \<Rightarrow> if h = [] \<or> p = [] \<or> s = [] then Err ProofMalformed else Ok (h, p, s)
      | _ \<Rightarrow> Err ProofMalformed)"

text \<open>The header of a proof: the algorithm and the key.\<close>

definition proof_header :: "'x DpopLib \<Rightarrow> ProofContext \<Rightarrow> bytes \<Rightarrow> DpopError + Algorithm \<times> ProofKey" where
  "proof_header L ctx h =
     res_bind (proof_b64 L h) (\<lambda>header_bytes.
     res_bind (proof_json_object header_bytes) (\<lambda>_.
     res_bind (ok_or ProofMalformed (dl_proof_header L header_bytes)) (\<lambda>header.
       if ph_crit header then Err ProofCriticalHeader
       else if \<not> (case ph_typ header of Some t \<Rightarrow> typ_is_dpop t | None \<Rightarrow> False) then Err ProofInvalidType
       else res_bind (ok_or ProofAlgorithmNotAllowed
           (case Option.bind (ph_alg header) from_jose_name of
              Some a \<Rightarrow> if algorithms_contains (px_algs ctx) a then Some a else None
            | None \<Rightarrow> None)) (\<lambda>alg.
         res_bind (ok_or MissingJwk (ph_jwk header)) (\<lambda>jwk.
         res_bind (build_proof_key L jwk (Some alg)) (\<lambda>key. Ok (alg, key)))))))"

text \<open>The claims of a proof whose signature is good.\<close>

definition proof_claims :: "'x DpopLib \<Rightarrow> ProofContext \<Rightarrow> nat \<Rightarrow> bytes \<Rightarrow> DpopError + bytes \<times> nat" where
  "proof_claims L ctx now_unix p =
     res_bind (proof_b64 L p) (\<lambda>payload_bytes.
     res_bind (proof_json_object payload_bytes) (\<lambda>_.
     res_bind (ok_or ProofMalformed (dl_proof_claims L payload_bytes)) (\<lambda>claims.
       case (pc_jti claims, pc_htm claims, pc_htu claims, pc_iat claims, pc_ath claims) of
         (Some jti, Some htm, Some htu, Some iat, Some ath) \<Rightarrow>
           if jti = [] \<or> length jti > MAX_JTI_LEN then Err InvalidJti
           else if htm \<noteq> px_method ctx then Err MethodMismatch
           else if normalize_proof_htu htu \<noteq> Some (px_htu ctx) then Err UriMismatch
           else
             let lo = now_unix - as_secs (iw_past (px_window ctx));
                 hi = saturating_add now_unix (as_secs (iw_future (px_window ctx)))
             in if iat < lo \<or> iat > hi then Err IssuedAtOutOfWindow
                else if ath \<noteq> jl_encode L (jl_sha256 L (px_access_token ctx)) then Err AccessTokenHashMismatch
                else Ok (jti, iat)
       | _ \<Rightarrow> Err ProofMissingClaim)))"

definition verify_proof :: "'x DpopLib \<Rightarrow> bytes \<Rightarrow> ProofContext \<Rightarrow> nat \<Rightarrow> DpopError + VerifiedProof" where
  "verify_proof L proof' ctx now_unix =
     res_bind (proof_parts proof') (\<lambda>(h, p, s).
     res_bind (proof_header L ctx h) (\<lambda>(alg, key).
     res_bind (proof_b64 L s) (\<lambda>sig.
       if \<not> signature_ok (JoseLib.truncate L) alg (pk_material key) (take (length h + 1 + length p) proof') sig
       then Err ProofInvalidSignature
       else res_bind (proof_claims L ctx now_unix p) (\<lambda>(jti, iat).
         Ok \<lparr>vp_thumbprint = pk_thumbprint key, vp_jti = jti, vp_iat = iat\<rparr>))))"

definition replay_register :: "'x DpopLib \<Rightarrow> ReplayStore \<Rightarrow> VerifiedProof \<Rightarrow> nat \<Rightarrow> (DpopError + unit) \<times> ReplayStore" where
  "replay_register L st p now_unix = register_key st (replay_key (jl_sha256 L) (vp_thumbprint p) (vp_jti p)) (vp_iat p) now_unix"

section \<open>Which proofs are accepted\<close>

text \<open>An integer in its shortest big-endian form, and a coordinate, as the text of a member of a key.\<close>

definition canonical_of :: "'x DpopLib \<Rightarrow> bytes option \<Rightarrow> nat \<Rightarrow> nat \<Rightarrow> bytes \<Rightarrow> bool" where
  "canonical_of L s lo hi content \<longleftrightarrow>
     (\<exists>t. s = Some t \<and> length t \<le> encoded_cap hi \<and> jl_decode L t = Some content \<and> lo \<le> length content \<and> length content \<le> hi \<and>
        \<not> starts_with [CHR 0x00] content)"

definition coord_of :: "'x DpopLib \<Rightarrow> bytes option \<Rightarrow> bytes \<Rightarrow> bool" where
  "coord_of L s content \<longleftrightarrow>
     (\<exists>t. s = Some t \<and> length t \<le> encoded_cap EC_COORD_LEN \<and> jl_decode L t = Some content \<and> length content = EC_COORD_LEN)"

text \<open>The public key a JSON Web Key denotes for an algorithm, with its thumbprint (RFC 7638).\<close>

definition public_key_of :: "'x DpopLib \<Rightarrow> RawJwk \<Rightarrow> Algorithm \<Rightarrow> ProofKey \<Rightarrow> bool" where
  "public_key_of L j alg key \<longleftrightarrow>
     \<not> private_members j \<and> (\<forall>a. rj_alg j = Some a \<longrightarrow> a = as_jose_name alg) \<and> (\<forall>u. rj_use j = Some u \<longrightarrow> u = ''sig'') \<and>
     (case alg of
        Rs256 \<Rightarrow> rj_kty j = Some ''RSA'' \<and>
          (\<exists>n e. canonical_of L (rj_n j) RSA_N_MIN RSA_N_MAX n \<and> canonical_of L (rj_e j) 1 RSA_E_MAX e \<and>
             key = \<lparr>pk_material = Rsa n e, pk_thumbprint = thumbprint_of L (rsa_json L n e)\<rparr>)
      | Es256 \<Rightarrow> rj_kty j = Some ''EC'' \<and> rj_crv j = Some ''P-256'' \<and>
          (\<exists>x y. coord_of L (rj_x j) x \<and> coord_of L (rj_y j) y \<and>
             key = \<lparr>pk_material = EcP256 (CHR 0x04 # x @ y), pk_thumbprint = thumbprint_of L (ec_json L x y)\<rparr>))"

definition proof_header_accepted :: "'x DpopLib \<Rightarrow> ProofContext \<Rightarrow> bytes \<Rightarrow> Algorithm \<Rightarrow> ProofKey \<Rightarrow> bool" where
  "proof_header_accepted L ctx h alg key \<longleftrightarrow>
     (\<exists>bs header t jwk. jl_decode L h = Some bs \<and> is_json_object bs \<and> dl_proof_header L bs = Some header \<and> \<not> ph_crit header \<and>
        ph_typ header = Some t \<and> typ_is_dpop t \<and> ph_alg header = Some (as_jose_name alg) \<and> alg \<in> set (px_algs ctx) \<and>
        ph_jwk header = Some jwk \<and> public_key_of L jwk alg key)"

definition iat_in_window :: "IatWindow \<Rightarrow> nat \<Rightarrow> nat \<Rightarrow> bool" where
  "iat_in_window w now_unix iat \<longleftrightarrow> now_unix - as_secs (iw_past w) \<le> iat \<and> iat \<le> saturating_add now_unix (as_secs (iw_future w))"

definition proof_claims_accepted :: "'x DpopLib \<Rightarrow> ProofContext \<Rightarrow> nat \<Rightarrow> bytes \<Rightarrow> bytes \<Rightarrow> nat \<Rightarrow> bool" where
  "proof_claims_accepted L ctx now_unix p jti iat \<longleftrightarrow>
     (\<exists>bs claims htu. jl_decode L p = Some bs \<and> is_json_object bs \<and> dl_proof_claims L bs = Some claims \<and>
        pc_jti claims = Some jti \<and> jti \<noteq> [] \<and> length jti \<le> MAX_JTI_LEN \<and>
        pc_htm claims = Some (px_method ctx) \<and> pc_htu claims = Some htu \<and> normalize_proof_htu htu = Some (px_htu ctx) \<and>
        pc_iat claims = Some iat \<and> iat_in_window (px_window ctx) now_unix iat \<and>
        pc_ath claims = Some (jl_encode L (jl_sha256 L (px_access_token ctx))))"

definition proof_accepted :: "'x DpopLib \<Rightarrow> bytes \<Rightarrow> ProofContext \<Rightarrow> nat \<Rightarrow> VerifiedProof \<Rightarrow> bool" where
  "proof_accepted L proof' ctx now_unix v \<longleftrightarrow>
     (\<exists>h p s alg key sig. proof' = h @ ''.'' @ p @ ''.'' @ s \<and> length proof' \<le> MAX_PROOF_LEN \<and>
        list_all (\<lambda>part. part \<noteq> [] \<and> CHR ''.'' \<notin> set part) [h, p, s] \<and>
        proof_header_accepted L ctx h alg key \<and> vp_thumbprint v = pk_thumbprint key \<and>
        jl_decode L s = Some sig \<and> signature_ok (JoseLib.truncate L) alg (pk_material key) (h @ ''.'' @ p) sig \<and>
        proof_claims_accepted L ctx now_unix p (vp_jti v) (vp_iat v))"

lemma canonical_int_ok: "canonical_int L s lo hi = Ok content \<longleftrightarrow> canonical_of L s lo hi content"
  by (cases s; cases "jl_decode L (the s)") (auto simp: canonical_int_def canonical_of_def)

lemma fixed_coord_ok: "fixed_coord L s = Ok content \<longleftrightarrow> coord_of L s content"
  by (cases s; cases "jl_decode L (the s)") (auto simp: fixed_coord_def coord_of_def)

lemma proof_key_alg_ok:
  "proof_key_alg j (Some alg) = Ok a \<longleftrightarrow> a = alg \<and> \<not> private_members j \<and>
     rj_kty j = Some (case alg of Rs256 \<Rightarrow> ''RSA'' | Es256 \<Rightarrow> ''EC'') \<and>
     (\<forall>n. rj_alg j = Some n \<longrightarrow> n = as_jose_name alg) \<and> (\<forall>u. rj_use j = Some u \<longrightarrow> u = ''sig'')"
  by (cases "rj_kty j"; cases "rj_alg j"; cases "rj_use j"; cases alg; cases a) (auto simp: proof_key_alg_def)

lemma build_proof_key_ok: "build_proof_key L j (Some alg) = Ok key \<longleftrightarrow> public_key_of L j alg key"
proof (cases alg)
  case Rs256
  show ?thesis
    unfolding build_proof_key_def res_bind_eq_Ok proof_key_alg_ok public_key_of_def Rs256
    by (auto simp: res_bind_eq_Ok canonical_int_ok)
next
  case Es256
  show ?thesis
    unfolding build_proof_key_def res_bind_eq_Ok proof_key_alg_ok public_key_of_def Es256
    by (auto simp: res_bind_eq_Ok fixed_coord_ok)
qed

lemma proof_json_object_eq: "proof_json_object bs = (if is_json_object bs then Ok () else Err ProofMalformed)"
proof -
  have "proof_json_object bs = (case require_json_object bs of Ok _ \<Rightarrow> Ok () | Err _ \<Rightarrow> Err ProofMalformed)"
    by (cases "dropWhile is_ascii_whitespace bs") (simp_all add: proof_json_object_def require_json_object_def del: dropWhile_eq_Nil_conv)
  then show ?thesis by (simp add: require_json_object_eq)
qed

lemma proof_parts_ok:
  "proof_parts proof' = Ok (h, p, s) \<longleftrightarrow> proof' = h @ ''.'' @ p @ ''.'' @ s \<and> length proof' \<le> MAX_PROOF_LEN \<and>
     list_all (\<lambda>part. part \<noteq> [] \<and> CHR ''.'' \<notin> set part) [h, p, s]"
proof -
  have "proof_parts proof' = Ok (h, p, s) \<longleftrightarrow> token_parts proof' = Ok (h, p, s)"
    by (auto simp: proof_parts_def token_parts_def MAX_PROOF_LEN_def split: list.splits if_splits)
  then show ?thesis unfolding token_parts_ok MAX_PROOF_LEN_def .
qed

lemma proof_header_ok: "proof_header L ctx h = Ok (alg, key) \<longleftrightarrow> proof_header_accepted L ctx h alg key"
proof -
  let ?alg = "\<lambda>header. case Option.bind (ph_alg header) from_jose_name of
      Some a \<Rightarrow> if algorithms_contains (px_algs ctx) a then Some a else None | None \<Rightarrow> None"
  have alg: "?alg header = Some a \<longleftrightarrow> ph_alg header = Some (as_jose_name a) \<and> a \<in> set (px_algs ctx)" for header a
    by (cases "ph_alg header") (auto simp: algorithms_contains_def simp flip: from_jose_name_iff split: option.splits)
  have rest: "(if ph_crit header then Err ProofCriticalHeader
       else if \<not> (case ph_typ header of Some t \<Rightarrow> typ_is_dpop t | None \<Rightarrow> False) then Err ProofInvalidType
       else res_bind (ok_or ProofAlgorithmNotAllowed (?alg header)) (\<lambda>alg.
         res_bind (ok_or MissingJwk (ph_jwk header)) (\<lambda>jwk.
         res_bind (build_proof_key L jwk (Some alg)) (\<lambda>key. Ok (alg, key))))) = Ok (alg, key) \<longleftrightarrow>
      \<not> ph_crit header \<and> (\<exists>t. ph_typ header = Some t \<and> typ_is_dpop t) \<and> ph_alg header = Some (as_jose_name alg) \<and> alg \<in> set (px_algs ctx) \<and>
        (\<exists>jwk. ph_jwk header = Some jwk \<and> public_key_of L jwk alg key)" for header
    by (cases "ph_crit header"; cases "ph_typ header"; cases "ph_jwk header") (auto simp: res_bind_eq_Ok alg build_proof_key_ok)
  show ?thesis
    unfolding proof_header_def proof_header_accepted_def proof_b64_def proof_json_object_eq
    by (cases "jl_decode L h"; cases "is_json_object (the (jl_decode L h))"; cases "dl_proof_header L (the (jl_decode L h))")
      (simp_all add: rest, blast)
qed

lemma proof_claims_ok: "proof_claims L ctx now_unix p = Ok (jti, iat) \<longleftrightarrow> proof_claims_accepted L ctx now_unix p jti iat"
  unfolding proof_claims_def proof_claims_accepted_def proof_b64_def proof_json_object_eq iat_in_window_def Let_def
  by (cases "jl_decode L p"; cases "is_json_object (the (jl_decode L p))"; cases "dl_proof_claims L (the (jl_decode L p))")
    (auto split: option.splits)

text \<open>C30. Proofs of possession. A DPoP proof is accepted, with a given thumbprint, identifier and time of issue, exactly when it consists of
  three non-empty parts within the length limit; its header has the type of a proof and no critical extension and carries a public key, with no private
  member, for the allowed algorithm it names, whose thumbprint is the one reported; that key verifies the signature over the first two
  parts; and its claims have an identifier of acceptable length, the method and the normalised address of the request, a time of issue within the
  window, and the hash of the access token presented with it.\<close>

theorem verify_proof_exact: "verify_proof L proof' ctx now_unix = Ok v \<longleftrightarrow> proof_accepted L proof' ctx now_unix v"
proof
  assume ok: "verify_proof L proof' ctx now_unix = Ok v"
  then obtain h p s alg key where parts: "proof_parts proof' = Ok (h, p, s)" "proof_header L ctx h = Ok (alg, key)"
    unfolding verify_proof_def res_bind_eq_Ok by (auto simp: res_bind_eq_Ok)
  obtain sig jti iat where rest: "jl_decode L s = Some sig"
      "signature_ok (JoseLib.truncate L) alg (pk_material key) (take (length h + 1 + length p) proof') sig"
      "proof_claims L ctx now_unix p = Ok (jti, iat)" "v = \<lparr>vp_thumbprint = pk_thumbprint key, vp_jti = jti, vp_iat = iat\<rparr>"
    using ok parts by (auto simp: verify_proof_def proof_b64_def res_bind_eq_Ok split: if_splits)
  have msg: "take (length h + 1 + length p) proof' = h @ ''.'' @ p" using parts(1) by (simp add: proof_parts_ok)
  show "proof_accepted L proof' ctx now_unix v"
    using parts rest unfolding proof_parts_ok proof_header_ok proof_claims_ok msg proof_accepted_def by fastforce
next
  assume "proof_accepted L proof' ctx now_unix v"
  then obtain h p s alg key sig where ok: "proof' = h @ ''.'' @ p @ ''.'' @ s" "length proof' \<le> MAX_PROOF_LEN"
      "list_all (\<lambda>part. part \<noteq> [] \<and> CHR ''.'' \<notin> set part) [h, p, s]" "proof_header_accepted L ctx h alg key"
      "vp_thumbprint v = pk_thumbprint key" "jl_decode L s = Some sig"
      "signature_ok (JoseLib.truncate L) alg (pk_material key) (h @ ''.'' @ p) sig"
      "proof_claims_accepted L ctx now_unix p (vp_jti v) (vp_iat v)"
    unfolding proof_accepted_def by blast
  have "proof_parts proof' = Ok (h, p, s)" using ok(1-3) by (simp add: proof_parts_ok)
  moreover have "take (length h + 1 + length p) proof' = h @ ''.'' @ p" using ok(1) by simp
  ultimately show "verify_proof L proof' ctx now_unix = Ok v"
    using ok(4-8) by (simp add: verify_proof_def proof_b64_def flip: proof_header_ok proof_claims_ok)
qed

end
