(* ===== verification/Jwt_Cache.thy ===== *)
theory Jwt_Cache
  imports Jwt_Dpop
begin

text \<open>
  The shared state of an authenticator (\<^verbatim>\<open>crates/plugin-jwt/src\<close>): the handle of the current key set (\<^verbatim>\<open>SharedKeySet\<close> of
  \<^verbatim>\<open>jwks.rs\<close>), the cache of verified tokens (\<^verbatim>\<open>TokenCache\<close> of \<^verbatim>\<open>auth.rs\<close>) and the throttle of notifications
  (\<^verbatim>\<open>notify.rs\<close>). A \<^verbatim>\<open>HashMap\<close> is an association list with distinct keys. An \<^verbatim>\<open>Arc<KeySet>\<close> is its content and
  the address that \<^verbatim>\<open>Arc::ptr_eq\<close> compares; an allocation takes an address that no earlier one had, since the cache keeps what it
  compares with alive. The locale \<open>forgetful_cache\<close> is the contract the authenticator relies on: the cache may lose entries but
  never answers with one that was not inserted.
\<close>

section \<open>The current key set\<close>

record ArcKeySet =
  arc_address :: nat
  arc_set :: KeySet

record SharedKeySet =
  sk_current :: ArcKeySet
  sk_fresh :: nat

definition shared_new :: "KeySet \<Rightarrow> SharedKeySet" where
  "shared_new ks = \<lparr>sk_current = \<lparr>arc_address = 0, arc_set = ks\<rparr>, sk_fresh = 1\<rparr>"

definition snapshot :: "SharedKeySet \<Rightarrow> ArcKeySet" where
  "snapshot s = sk_current s"

definition shared_set :: "SharedKeySet \<Rightarrow> KeySet \<Rightarrow> SharedKeySet" where
  "shared_set s ks = \<lparr>sk_current = \<lparr>arc_address = sk_fresh s, arc_set = ks\<rparr>, sk_fresh = Suc (sk_fresh s)\<rparr>"

section \<open>The cache\<close>

definition CACHE_CAPACITY :: nat where "CACHE_CAPACITY = 1024"

definition cache_key :: "'x DpopLib \<Rightarrow> bytes \<Rightarrow> bytes" where
  "cache_key L token = jl_sha256 L token"

record 'x Entry =
  en_claims :: "'x Claims"
  en_verified_against :: ArcKeySet

record 'x CacheState =
  cs_map :: "(bytes \<times> 'x Entry) list"
  cs_order :: "bytes list"

datatype 'x Lookup = Hit "'x Claims" | Invalid VerifyError | Miss

definition cache_new :: "'x CacheState" where
  "cache_new = \<lparr>cs_map = [], cs_order = []\<rparr>"

definition cache_get :: "'x CacheState \<Rightarrow> bytes \<Rightarrow> ArcKeySet \<Rightarrow> nat \<Rightarrow> nat \<Rightarrow> 'x Lookup" where
  "cache_get g key current now_unix leeway =
     (case map_of (cs_map g) key of
        None \<Rightarrow> Miss
      | Some entry \<Rightarrow>
          if arc_address (en_verified_against entry) \<noteq> arc_address current then Miss
          else
            let c = en_claims entry in
            if now_unix - leeway \<ge> cl_exp c then Invalid Expired
            else if (case cl_nbf c of Some nbf \<Rightarrow> saturating_add now_unix leeway < nbf | None \<Rightarrow> False) then Invalid NotYetValid
            else Hit c)"

definition cache_remove :: "'x CacheState \<Rightarrow> bytes \<Rightarrow> 'x CacheState" where
  "cache_remove g key =
     (if map_of (cs_map g) key \<noteq> None
      then \<lparr>cs_map = AList.delete key (cs_map g), cs_order = filter (\<lambda>k. k \<noteq> key) (cs_order g)\<rparr>
      else g)"

fun evict_oldest :: "bytes list \<Rightarrow> (bytes \<times> 'x Entry) list \<Rightarrow> bytes list \<times> (bytes \<times> 'x Entry) list" where
  "evict_oldest order m =
     (if length m \<ge> CACHE_CAPACITY
      then (case order of [] \<Rightarrow> ([], m) | oldest # order' \<Rightarrow> evict_oldest order' (AList.delete oldest m))
      else (order, m))"

definition make_room :: "'x CacheState \<Rightarrow> nat \<Rightarrow> nat \<Rightarrow> 'x CacheState" where
  "make_room g now_unix leeway =
     (if length (cs_map g) \<ge> CACHE_CAPACITY then
        let m = filter (\<lambda>(_, e). now_unix - leeway < cl_exp (en_claims e)) (cs_map g);
            order = filter (\<lambda>k. map_of m k \<noteq> None) (cs_order g);
            (order, m) = evict_oldest order m
        in \<lparr>cs_map = m, cs_order = order\<rparr>
      else g)"

definition cache_insert :: "'x CacheState \<Rightarrow> bytes \<Rightarrow> 'x Claims \<Rightarrow> ArcKeySet \<Rightarrow> nat \<Rightarrow> nat \<Rightarrow> 'x CacheState" where
  "cache_insert g key claims keys now_unix leeway =
     (let entry = \<lparr>en_claims = claims, en_verified_against = keys\<rparr> in
      if map_of (cs_map g) key \<noteq> None then g\<lparr>cs_map := AList.update key entry (cs_map g)\<rparr>
      else
        let g = make_room g now_unix leeway
        in \<lparr>cs_map = AList.update key entry (cs_map g), cs_order = cs_order g @ [key]\<rparr>)"

section \<open>The throttle\<close>

definition DEFAULT_UNKNOWN_KEY_MIN_INTERVAL :: nat where "DEFAULT_UNKNOWN_KEY_MIN_INTERVAL = from_secs 10"

record NotifyThrottle =
  nt_next_allowed_unix :: nat
  nt_suppressed :: nat
  nt_interval_secs :: nat

definition throttle_new :: "nat \<Rightarrow> NotifyThrottle" where
  "throttle_new interval = \<lparr>nt_next_allowed_unix = 0, nt_suppressed = 0, nt_interval_secs = as_secs interval\<rparr>"

text \<open>An atomic counter of 64 bits.\<close>

definition fetch_incr :: "nat \<Rightarrow> nat" where
  "fetch_incr n = (n + 1) mod 2 ^ 64"

text \<open>The argument \<open>seen\<close> is the value loaded before the exchange, which fails when another thread has changed it since.\<close>

definition try_acquire :: "NotifyThrottle \<Rightarrow> nat \<Rightarrow> nat \<Rightarrow> nat option \<times> NotifyThrottle" where
  "try_acquire th seen now_unix =
     (let refused = (None, th\<lparr>nt_suppressed := fetch_incr (nt_suppressed th)\<rparr>) in
      if now_unix = U64_MAX then refused
      else if seen = U64_MAX \<and> nt_interval_secs th > 0 \<or> now_unix < seen \<or> nt_next_allowed_unix th \<noteq> seen then refused
      else (Some (nt_suppressed th),
        th\<lparr>nt_next_allowed_unix := saturating_add now_unix (nt_interval_secs th), nt_suppressed := 0\<rparr>))"

section \<open>The contract of the cache\<close>

locale forgetful_cache =
  fixes inv :: "'c \<Rightarrow> bool"
    and look :: "'c \<Rightarrow> 'k \<Rightarrow> 'v option"
    and remove :: "'c \<Rightarrow> 'k \<Rightarrow> 'c"
    and insert :: "'c \<Rightarrow> 'k \<Rightarrow> 'v \<Rightarrow> 'p \<Rightarrow> 'c"
  assumes inv_remove: "inv c \<Longrightarrow> inv (remove c k)"
    and inv_insert: "inv c \<Longrightarrow> inv (insert c k v p)"
    and look_remove: "inv c \<Longrightarrow> look (remove c k) k' = (if k' = k then None else look c k')"
    and look_insert_same: "inv c \<Longrightarrow> look (insert c k v p) k = Some v"
    and look_insert_other: "inv c \<Longrightarrow> k' \<noteq> k \<Longrightarrow> look (insert c k v p) k' = Some w \<Longrightarrow> look c k' = Some w"
begin

text \<open>Whatever holds of every entry keeps holding when only entries with it are inserted.\<close>

definition entries_sound :: "('k \<Rightarrow> 'v \<Rightarrow> bool) \<Rightarrow> 'c \<Rightarrow> bool" where
  "entries_sound P c \<longleftrightarrow> (\<forall>k v. look c k = Some v \<longrightarrow> P k v)"

lemma sound_remove: "inv c \<Longrightarrow> entries_sound P c \<Longrightarrow> entries_sound P (remove c k)"
  by (auto simp: entries_sound_def look_remove split: if_splits)

lemma sound_insert:
  assumes "inv c" "entries_sound P c" "P k v"
  shows "entries_sound P (insert c k v p)"
  unfolding entries_sound_def
proof (intro allI impI)
  fix k' w assume "look (insert c k v p) k' = Some w"
  then show "P k' w"
    using assms look_insert_same [of c k v p] look_insert_other [of c k' k v p w] by (cases "k' = k") (auto simp: entries_sound_def)
qed

lemma sound_weaken: "entries_sound P c \<Longrightarrow> (\<And>k v. P k v \<Longrightarrow> Q k v) \<Longrightarrow> entries_sound Q c"
  by (auto simp: entries_sound_def)

end

text \<open>The map and the order of insertion have the same keys, each once, and there are never more than the capacity.\<close>

definition cache_inv :: "'x CacheState \<Rightarrow> bool" where
  "cache_inv g \<longleftrightarrow> distinct (map fst (cs_map g)) \<and> distinct (cs_order g) \<and> set (cs_order g) = fst ` set (cs_map g) \<and>
     length (cs_map g) \<le> CACHE_CAPACITY"

definition cache_look :: "'x CacheState \<Rightarrow> bytes \<Rightarrow> 'x Entry option" where
  "cache_look g key = map_of (cs_map g) key"

declare evict_oldest.simps [simp del]

lemma keys_delete: "fst ` set (AList.delete k m) = fst ` set m - {k}"
  by (force simp: AList.delete_eq)

lemma evict_oldest_inv:
  assumes "distinct (map fst m)" "distinct order" "set order = fst ` set m"
  shows "case evict_oldest order m of (order', m') \<Rightarrow> distinct (map fst m') \<and> distinct order' \<and> set order' = fst ` set m' \<and>
    length m' < CACHE_CAPACITY \<and> (\<forall>k v. map_of m' k = Some v \<longrightarrow> map_of m k = Some v)"
  using assms
proof (induction order m rule: evict_oldest.induct)
  case (1 order m)
  show ?case
  proof (cases "length m \<ge> CACHE_CAPACITY")
    case False
    then show ?thesis using 1 by (simp add: evict_oldest.simps)
  next
    case True
    then have "m \<noteq> []" by (auto simp: CACHE_CAPACITY_def)
    then obtain k ks where order: "order = k # ks" using "1.prems"(3) by (cases order) auto
    have "distinct (map fst (AList.delete k m))" using "1.prems"(1) by (rule distinct_delete)
    moreover have "set ks = fst ` set (AList.delete k m)"
      using "1.prems"(2,3) unfolding order keys_delete by auto
    ultimately have IH: "case evict_oldest ks (AList.delete k m) of (order', m') \<Rightarrow> distinct (map fst m') \<and> distinct order' \<and>
        set order' = fst ` set m' \<and> length m' < CACHE_CAPACITY \<and> (\<forall>j v. map_of m' j = Some v \<longrightarrow> map_of (AList.delete k m) j = Some v)"
      using "1.IH" [OF True order] "1.prems"(2) order by simp
    have "map_of (AList.delete k m) j = Some v \<Longrightarrow> map_of m j = Some v" for j v by (simp add: delete_conv' split: if_splits)
    moreover have eq: "evict_oldest order m = evict_oldest ks (AList.delete k m)"
      using True unfolding order by (subst evict_oldest.simps) simp
    ultimately show ?thesis using IH unfolding eq by (cases "evict_oldest ks (AList.delete k m)") auto
  qed
qed

lemma map_of_filterD:
  "distinct (map fst m) \<Longrightarrow> map_of (filter p m) k = Some v \<Longrightarrow> map_of m k = Some v"
  by (auto simp: distinct_map_filter)

lemma make_room_inv:
  assumes "cache_inv g"
  shows "cache_inv (make_room g now_unix leeway)" "length (cs_map (make_room g now_unix leeway)) < CACHE_CAPACITY"
    "cache_look (make_room g now_unix leeway) k = Some v \<Longrightarrow> cache_look g k = Some v"
proof -
  let ?m = "filter (\<lambda>(_, e). now_unix - leeway < cl_exp (en_claims e)) (cs_map g)"
  let ?order = "filter (\<lambda>k. map_of ?m k \<noteq> None) (cs_order g)"
  have dist: "distinct (map fst (cs_map g))" "distinct (cs_order g)" "set (cs_order g) = fst ` set (cs_map g)"
    using assms by (auto simp: cache_inv_def)
  have "set ?order = fst ` set ?m" using dist(3) by (auto simp: map_of_eq_None_iff rev_image_eqI)
  then have ev: "case evict_oldest ?order ?m of (order', m') \<Rightarrow> distinct (map fst m') \<and> distinct order' \<and> set order' = fst ` set m' \<and>
      length m' < CACHE_CAPACITY \<and> (\<forall>k v. map_of m' k = Some v \<longrightarrow> map_of ?m k = Some v)"
    using dist(1,2) by (intro evict_oldest_inv) (auto simp: distinct_map_filter)
  note keep = map_of_filterD [OF dist(1), of "\<lambda>(_, e). now_unix - leeway < cl_exp (en_claims e)"]
  show "cache_inv (make_room g now_unix leeway)"
    using assms ev by (auto simp: make_room_def cache_inv_def Let_def split: prod.splits)
  show "length (cs_map (make_room g now_unix leeway)) < CACHE_CAPACITY"
    using ev by (auto simp: make_room_def Let_def split: prod.splits)
  show "cache_look (make_room g now_unix leeway) k = Some v \<Longrightarrow> cache_look g k = Some v"
    using ev keep by (auto simp: make_room_def cache_look_def Let_def split: prod.splits if_splits)
qed

lemma length_update_same: "k \<in> fst ` set m \<Longrightarrow> length (AList.update k v m) = length m"
  by (induction m) auto

lemma cache_inv_insert:
  assumes "cache_inv g" shows "cache_inv (cache_insert g key claims keys now_unix leeway)"
proof (cases "map_of (cs_map g) key")
  case None
  let ?g = "make_room g now_unix leeway"
  have "map_of (cs_map ?g) key = None"
    using make_room_inv(3) [OF assms, of now_unix leeway key] None by (cases "map_of (cs_map ?g) key") (auto simp: cache_look_def)
  then have new: "key \<notin> fst ` set (cs_map ?g)" by (simp add: map_of_eq_None_iff)
  then show ?thesis
    using None make_room_inv(1,2) [OF assms, of now_unix leeway]
    by (auto simp: cache_insert_def cache_inv_def Let_def update_nonmem_conv)
next
  case (Some e)
  then have "key \<in> fst ` set (cs_map g)" by (metis map_of_eq_None_iff option.distinct(1))
  then have "length (AList.update key v (cs_map g)) = length (cs_map g)" "insert key (fst ` set (cs_map g)) = fst ` set (cs_map g)" for v
    by (auto simp: length_update_same)
  then show ?thesis
    using Some assms unfolding cache_insert_def cache_inv_def Let_def by (simp add: distinct_update dom_update)
qed

interpretation tokens: forgetful_cache cache_inv cache_look cache_remove
  "\<lambda>g key e (now_unix, leeway). cache_insert g key (en_claims e) (en_verified_against e) now_unix leeway"
proof unfold_locales
  fix g :: "'a CacheState" and k k' and v w :: "'a Entry" and p :: "nat \<times> nat"
  assume inv: "cache_inv g"
  let ?insert = "case p of (now_unix, leeway) \<Rightarrow> cache_insert g k (en_claims v) (en_verified_against v) now_unix leeway"
  show "cache_inv (cache_remove g k)"
    using inv unfolding cache_inv_def cache_remove_def
    by (auto simp: AList.delete_eq distinct_map_filter intro: order_trans [OF length_filter_le] rev_image_eqI)
  show "cache_inv ?insert" using inv by (cases p) (simp add: cache_inv_insert)
  show "cache_look (cache_remove g k) k' = (if k' = k then None else cache_look g k')"
    by (auto simp: cache_look_def cache_remove_def delete_conv')
  show "cache_look ?insert k = Some v"
    by (cases p) (simp add: cache_look_def cache_insert_def Let_def update_conv')
  show "k' \<noteq> k \<Longrightarrow> cache_look ?insert k' = Some w \<Longrightarrow> cache_look g k' = Some w"
    using make_room_inv(3) [OF inv, of "fst p" "snd p" k' w]
    by (cases p) (auto simp: cache_look_def cache_insert_def Let_def update_conv' split: if_splits)
qed

end
