(* ===== verification/Jwt_Auth.thy ===== *)
theory Jwt_Auth
  imports Jwt_Cache Gates Http_Error
begin

text \<open>
  \<^verbatim>\<open>crates/plugin-jwt/src/auth.rs\<close> and \<^verbatim>\<open>gate.rs\<close>: the authenticator, which composes the cache, the verification of tokens and
  proofs and the replay store, and the gate in front of the handlers. The state of an authenticator is passed explicitly; the
  calls of the notifier and of the refresh trigger are events. The relation \<open>cache_reachable\<close> interleaves the atomic steps of any number of
  concurrent requests with changes of the key set.
\<close>

section \<open>Credentials\<close>

text \<open>\<^verbatim>\<open>find(' ')\<close>, the part before it, and \<^verbatim>\<open>trim_start_matches(' ')\<close> of the rest.\<close>

definition authorization :: "RequestHead \<Rightarrow> (bytes \<times> bytes) option" where
  "authorization head =
     (case filter (\<lambda>(n, _). eq_ignore_ascii_case n ''authorization'') (headers head) of
        [(_, value)] \<Rightarrow>
          if CHR '' '' \<notin> set value then None
          else
            let scheme = takeWhile (\<lambda>b. b \<noteq> CHR '' '') value;
                token = dropWhile (\<lambda>b. b = CHR '' '') (drop (length scheme) value)
            in if token = [] then None else Some (scheme, token)
      | _ \<Rightarrow> None)"

definition bearer_token :: "RequestHead \<Rightarrow> bytes option" where
  "bearer_token head =
     (case authorization head of
        Some (scheme, token) \<Rightarrow> if eq_ignore_ascii_case scheme ''bearer'' then Some token else None
      | None \<Rightarrow> None)"

datatype Scheme = SchemeBearer | SchemeDpop

definition credentials :: "RequestHead \<Rightarrow> (Scheme \<times> bytes) option" where
  "credentials head =
     (case authorization head of
        Some (scheme, token) \<Rightarrow>
          if eq_ignore_ascii_case scheme ''bearer'' then Some (SchemeBearer, token)
          else if eq_ignore_ascii_case scheme ''dpop'' then Some (SchemeDpop, token)
          else None
      | None \<Rightarrow> None)"

section \<open>Responses\<close>

definition BODY_INVALID_TOKEN :: bytes where
  "BODY_INVALID_TOKEN = ''{'' @ quoted ''error'' @ '':'' @ quoted ''invalid_token'' @ ''}''"

definition BODY_INVALID_DPOP_PROOF :: bytes where
  "BODY_INVALID_DPOP_PROOF = ''{'' @ quoted ''error'' @ '':'' @ quoted ''invalid_dpop_proof'' @ ''}''"

definition CHALLENGE_BEARER_NO_TOKEN :: bytes where "CHALLENGE_BEARER_NO_TOKEN = ''Bearer''"
definition CHALLENGE_BEARER_INVALID :: bytes where "CHALLENGE_BEARER_INVALID = ''Bearer error='' @ quoted ''invalid_token''"

fun add_challenges :: "Response \<Rightarrow> Response \<Rightarrow> bytes list \<Rightarrow> Response" where
  "add_challenges base r [] = r"
| "add_challenges base r (c # cs) =
     (case with_header r ''WWW-Authenticate'' c of Ok r' \<Rightarrow> add_challenges base r' cs | Err _ \<Rightarrow> base)"

definition unauthorized :: "bytes \<Rightarrow> bytes list \<Rightarrow> Response" where
  "unauthorized body challenges =
     (let base = with_content_type (response_new 401 body) ''application/json'' in add_challenges base base challenges)"

section \<open>The authenticator\<close>

record DpopState =
  ds_config :: DpopConfig
  ds_replay :: ReplayStore
  ds_challenge_algs :: bytes

record 'x Inner =
  in_keys :: SharedKeySet
  in_policy :: JwtPolicy
  in_cache :: "'x CacheState"
  in_notifier :: bool
  in_refresh_trigger :: bool
  in_dpop :: "DpopState option"
  in_throttle :: NotifyThrottle
  in_hits :: nat
  in_misses :: nat

record JwtAuthenticatorBuilder =
  jb_keys :: SharedKeySet
  jb_policy :: JwtPolicy
  jb_notifier :: bool
  jb_refresh_trigger :: bool
  jb_dpop :: "DpopConfig option"
  jb_min_interval :: nat

definition auth_builder :: "SharedKeySet \<Rightarrow> JwtPolicy \<Rightarrow> JwtAuthenticatorBuilder" where
  "auth_builder keys policy =
     \<lparr>jb_keys = keys, jb_policy = policy, jb_notifier = False, jb_refresh_trigger = False, jb_dpop = None,
      jb_min_interval = DEFAULT_UNKNOWN_KEY_MIN_INTERVAL\<rparr>"

definition unknown_key_notifier :: "JwtAuthenticatorBuilder \<Rightarrow> JwtAuthenticatorBuilder" where
  "unknown_key_notifier b = b\<lparr>jb_notifier := True\<rparr>"

definition unknown_key_min_interval :: "JwtAuthenticatorBuilder \<Rightarrow> nat \<Rightarrow> JwtAuthenticatorBuilder" where
  "unknown_key_min_interval b d = b\<lparr>jb_min_interval := d\<rparr>"

definition jwks_refresh_trigger :: "JwtAuthenticatorBuilder \<Rightarrow> JwtAuthenticatorBuilder" where
  "jwks_refresh_trigger b = b\<lparr>jb_refresh_trigger := True\<rparr>"

definition with_dpop :: "JwtAuthenticatorBuilder \<Rightarrow> DpopConfig \<Rightarrow> JwtAuthenticatorBuilder" where
  "with_dpop b cfg = b\<lparr>jb_dpop := Some cfg\<rparr>"

definition dpop_state :: "DpopConfig \<Rightarrow> DpopState" where
  "dpop_state config =
     (let window = dc_window config;
          replay = (case dc_replay_capacity config of
              Some c \<Rightarrow> (case replay_with_capacity window c of Ok st \<Rightarrow> st | Err _ \<Rightarrow> replay_new window)
            | None \<Rightarrow> replay_new window);
          challenge_algs = join '' '' (map as_jose_name (filter (algorithms_contains (dc_algs config)) [Es256, Rs256]))
      in \<lparr>ds_config = config, ds_replay = replay, ds_challenge_algs = challenge_algs\<rparr>)"

definition auth_build :: "JwtAuthenticatorBuilder \<Rightarrow> 'x Inner" where
  "auth_build b =
     \<lparr>in_keys = jb_keys b, in_policy = jb_policy b, in_cache = cache_new, in_notifier = jb_notifier b,
      in_refresh_trigger = jb_refresh_trigger b, in_dpop = map_option dpop_state (jb_dpop b),
      in_throttle = throttle_new (jb_min_interval b), in_hits = 0, in_misses = 0\<rparr>"

datatype AuthEvent = RefreshFired | UnknownKeyNotified bytes nat

text \<open>What happens when the key of a token is unknown: the trigger fires, and the notifier is called unless throttled.\<close>

definition report_unknown :: "'x Inner \<Rightarrow> bytes option \<Rightarrow> nat \<Rightarrow> AuthEvent list \<times> 'x Inner" where
  "report_unknown inner unknown now_unix =
     (let fired = (if unknown \<noteq> None \<and> in_refresh_trigger inner then [RefreshFired] else []) in
      case unknown of
        Some kid \<Rightarrow>
          if in_notifier inner then
            (case try_acquire (in_throttle inner) (nt_next_allowed_unix (in_throttle inner)) now_unix of
               (Some suppressed, th) \<Rightarrow> (fired @ [UnknownKeyNotified kid suppressed], inner\<lparr>in_throttle := th\<rparr>)
             | (None, th) \<Rightarrow> (fired, inner\<lparr>in_throttle := th\<rparr>))
          else (fired, inner)
      | None \<Rightarrow> (fired, inner))"

definition verify_token_cached :: "'x DpopLib \<Rightarrow> 'x Inner \<Rightarrow> bytes \<Rightarrow> nat \<Rightarrow> (VerifyError + 'x Claims) \<times> AuthEvent list \<times> 'x Inner" where
  "verify_token_cached L inner token now_unix =
     (let key = cache_key L token;
          current = snapshot (in_keys inner);
          leeway = as_secs (jp_clock_skew (in_policy inner))
      in case cache_get (in_cache inner) key current now_unix leeway of
           Hit c \<Rightarrow> (Ok c, [], inner\<lparr>in_hits := fetch_incr (in_hits inner)\<rparr>)
         | Invalid e \<Rightarrow> (Err e, [], inner\<lparr>in_cache := cache_remove (in_cache inner) key\<rparr>)
         | Miss \<Rightarrow>
             let inner = inner\<lparr>in_cache := cache_remove (in_cache inner) key, in_misses := fetch_incr (in_misses inner)\<rparr>;
                 (result, unknown) = verify_inner (JoseLib.truncate L) token (arc_set current) (in_policy inner) now_unix;
                 (events, inner) = report_unknown inner unknown now_unix
             in case result of
                  Err e \<Rightarrow> (Err e, events, inner)
                | Ok claims \<Rightarrow>
                    (Ok claims, events, inner\<lparr>in_cache := cache_insert (in_cache inner) key claims current now_unix leeway\<rparr>))"

definition is_thumbprint_shape :: "bytes \<Rightarrow> bool" where
  "is_thumbprint_shape s \<longleftrightarrow>
     length s = 43 \<and> list_all (\<lambda>b. is_ascii_alphanumeric b \<or> b = CHR ''-'' \<or> b = CHR ''_'') s"

text \<open>The scheme, the binding of the token and the mode: no proof needed (\<open>None\<close>), or a proof for a thumbprint.\<close>

definition binding :: "Scheme \<Rightarrow> Confirmation \<Rightarrow> DpopMode \<Rightarrow> VerifyError + bytes option" where
  "binding scheme cnf mode =
     res_bind
       (case cnf of
          ConfAbsent \<Rightarrow> Ok None
        | Jkt j \<Rightarrow> if is_thumbprint_shape j then Ok (Some j) else Err Malformed
        | Unusable \<Rightarrow> Err Malformed)
       (\<lambda>jkt. case (scheme, jkt, mode) of
          (SchemeBearer, Some _, _) \<Rightarrow> Err (Dpop BoundTokenAsBearer)
        | (SchemeBearer, None, AllowUnboundBearer) \<Rightarrow> Ok None
        | (SchemeBearer, None, DpopRequired) \<Rightarrow> Err (Dpop UnboundToken)
        | (SchemeDpop, None, _) \<Rightarrow> Err (Dpop UnboundToken)
        | (SchemeDpop, Some j, _) \<Rightarrow> Ok (Some j))"

text \<open>The proof that comes with a request for a token bound to a thumbprint.\<close>

definition proof_of_request :: "'x DpopLib \<Rightarrow> DpopConfig \<Rightarrow> RequestHead \<Rightarrow> bytes \<Rightarrow> bytes \<Rightarrow> nat \<Rightarrow> DpopError + VerifiedProof" where
  "proof_of_request L config head token jkt now_unix =
     (case map snd (filter (\<lambda>(n, _). eq_ignore_ascii_case n ''dpop'') (headers head)) of
        [] \<Rightarrow> Err MissingProof
      | proof' # others \<Rightarrow>
          if others \<noteq> [] then Err MultipleProofs
          else
            res_bind (expected_htu (dc_origin config) (head_path head)) (\<lambda>htu.
            res_bind (verify_proof L proof'
                \<lparr>px_method = head_method head, px_htu = htu, px_access_token = token, px_algs = dc_algs config, px_window = dc_window config\<rparr>
                now_unix) (\<lambda>verified.
              if vp_thumbprint verified \<noteq> jkt then Err ThumbprintMismatch else Ok verified)))"

definition authenticate_dpop :: "'x DpopLib \<Rightarrow> 'x Inner \<Rightarrow> DpopState \<Rightarrow> RequestHead \<Rightarrow> nat \<Rightarrow> (VerifyError + 'x Claims) \<times> AuthEvent list \<times> 'x Inner" where
  "authenticate_dpop L inner d head now_unix =
     (case credentials head of
        None \<Rightarrow> (Err MissingToken, [], inner)
      | Some (scheme, token) \<Rightarrow>
          (case verify_token_cached L inner token now_unix of
             (Err e, events, inner) \<Rightarrow> (Err e, events, inner)
           | (Ok claims, events, inner) \<Rightarrow>
               (case binding scheme (cl_cnf claims) (dc_mode (ds_config d)) of
                  Err e \<Rightarrow> (Err e, events, inner)
                | Ok None \<Rightarrow> (Ok claims, events, inner)
                | Ok (Some jkt) \<Rightarrow>
                    (case proof_of_request L (ds_config d) head token jkt now_unix of
                       Err e \<Rightarrow> (Err (Dpop e), events, inner)
                     | Ok verified \<Rightarrow>
                         (case replay_register L (ds_replay d) verified now_unix of
                            (r, replay) \<Rightarrow>
                              (res_bind (map_err Dpop r) (\<lambda>_. Ok claims), events, inner\<lparr>in_dpop := Some (d\<lparr>ds_replay := replay\<rparr>)\<rparr>))))))"

definition authenticate_at :: "'x DpopLib \<Rightarrow> 'x Inner \<Rightarrow> RequestHead \<Rightarrow> nat \<Rightarrow> (VerifyError + 'x Claims) \<times> AuthEvent list \<times> 'x Inner" where
  "authenticate_at L inner head now_unix =
     (case in_dpop inner of
        Some d \<Rightarrow> authenticate_dpop L inner d head now_unix
      | None \<Rightarrow>
          (case bearer_token head of
             None \<Rightarrow> (Err MissingToken, [], inner)
           | Some token \<Rightarrow> verify_token_cached L inner token now_unix))"

text \<open>The clock reads the seconds since the epoch, or fails when it is before the epoch.\<close>

definition unix_now :: "nat option \<Rightarrow> nat" where
  "unix_now clock = (case clock of Some secs \<Rightarrow> secs | None \<Rightarrow> U64_MAX)"

definition authenticate :: "'x DpopLib \<Rightarrow> 'x Inner \<Rightarrow> RequestHead \<Rightarrow> nat option \<Rightarrow> (VerifyError + 'x Claims) \<times> AuthEvent list \<times> 'x Inner" where
  "authenticate L inner head clock = authenticate_at L inner head (unix_now clock)"

definition allows_bearer :: "DpopState \<Rightarrow> bool" where
  "allows_bearer d \<longleftrightarrow> dc_mode (ds_config d) = AllowUnboundBearer"

definition dpop_unauthorized :: "DpopState \<Rightarrow> RequestHead \<Rightarrow> VerifyError \<Rightarrow> Response" where
  "dpop_unauthorized d head err =
     (let (code, on_dpop) =
            (case err of
               MissingToken \<Rightarrow> (None, True)
             | Dpop e \<Rightarrow> if is_token_side e then (Some ''invalid_token'', True) else (Some ''invalid_dpop_proof'', True)
             | _ \<Rightarrow>
                 let bearer = (case credentials head of Some (SchemeBearer, _) \<Rightarrow> True | _ \<Rightarrow> False)
                 in (Some ''invalid_token'', \<not> (bearer \<and> allows_bearer d)));
          algs = ''algs='' @ quoted (ds_challenge_algs d);
          dpop_line = (case (code, on_dpop) of
              (Some c, True) \<Rightarrow> ''DPoP error='' @ quoted c @ '', '' @ algs
            | _ \<Rightarrow> ''DPoP '' @ algs);
          bearer_line = (case (code, on_dpop) of (Some c, False) \<Rightarrow> ''Bearer error='' @ quoted c | _ \<Rightarrow> ''Bearer'');
          body = (case err of
              Dpop e \<Rightarrow> if is_token_side e then BODY_INVALID_TOKEN else BODY_INVALID_DPOP_PROOF
            | _ \<Rightarrow> BODY_INVALID_TOKEN)
      in if allows_bearer d then unauthorized body [dpop_line, bearer_line] else unauthorized body [dpop_line])"

definition unauthorized_response :: "'x Inner \<Rightarrow> RequestHead \<Rightarrow> VerifyError \<Rightarrow> Response" where
  "unauthorized_response inner head err =
     (case in_dpop inner of
        Some d \<Rightarrow> dpop_unauthorized d head err
      | None \<Rightarrow>
          unauthorized BODY_INVALID_TOKEN [case err of MissingToken \<Rightarrow> CHALLENGE_BEARER_NO_TOKEN | _ \<Rightarrow> CHALLENGE_BEARER_INVALID])"

definition dpop_mode :: "'x Inner \<Rightarrow> DpopMode option" where
  "dpop_mode inner = map_option (\<lambda>d. dc_mode (ds_config d)) (in_dpop inner)"

section \<open>The gate\<close>

text \<open>The type of the verified claims is \<open>tid\<close>; \<open>ident\<close> is the identity of the value that holds given claims.\<close>

definition jwt_check :: "'x DpopLib \<Rightarrow> type_id \<Rightarrow> ('x Claims \<Rightarrow> nat) \<Rightarrow> 'x Inner \<Rightarrow> nat option \<Rightarrow> RequestHead \<Rightarrow> RequestExtensions \<Rightarrow>
    GateOutcome \<times> RequestExtensions \<times> AuthEvent list \<times> 'x Inner" where
  "jwt_check L tid ident inner clock head ext =
     (case authenticate L inner head clock of
        (Ok claims, events, inner) \<Rightarrow>
          (case ext_insert ext (Any tid (ident claims)) of
             (Ok _, ext) \<Rightarrow> (Allow, ext, events, inner)
           | (Err _, ext) \<Rightarrow> (Reject (error_response 500 ''internal_error''), ext, events, inner))
      | (Err e, events, inner) \<Rightarrow> (Reject (unauthorized_response inner head e), ext, events, inner))"

definition gate_verified :: "type_id \<Rightarrow> RequestHead \<Rightarrow> any_value option" where
  "gate_verified tid head = ext_get (rh_extensions head) tid"

end
