(* ===== verification/Jwt_Samples.thy ===== *)
theory Jwt_Samples
  imports Jwt_Auth "HOL-Library.Code_Target_Nat"
begin

text \<open>
  A concrete authenticator of the JWT plugin, with functions in the place of the libraries, at which the theorems about
  authentication are instantiated.
\<close>

text \<open>Stand-ins for the libraries: texts encode themselves, every signature is good, and there is one header, one set of claims and one key.\<close>

definition sample_thumbprint :: bytes where "sample_thumbprint = replicate 43 CHR ''A''"

definition sample_proof_jwk :: RawJwk where
  "sample_proof_jwk = \<lparr>rj_kty = Some ''EC'', rj_kid = None, rj_alg = None, rj_use = None, rj_crv = Some ''P-256'', rj_n = None, rj_e = None,
     rj_x = Some (replicate 32 CHR ''x''), rj_y = Some (replicate 32 CHR ''y''), rj_d = False, rj_p = False, rj_q = False, rj_dp = False,
     rj_dq = False, rj_qi = False, rj_oth = False, rj_k = False\<rparr>"

definition sample_lib_with :: "'x \<Rightarrow> 'x DpopLib" where
  "sample_lib_with extra =
     \<lparr>jl_decode = Some, jl_encode = (\<lambda>s. s), jl_sha256 = (\<lambda>s. sample_thumbprint), jl_rsa_verify = (\<lambda>n e m s. True), jl_ec_verify = (\<lambda>p m s. True),
      jl_header = (\<lambda>s. Some \<lparr>rh_alg = ''ES256'', rh_kid = Some ''k'', rh_typ = Some ''at+jwt'', rh_crit = False\<rparr>),
      jl_claims = (\<lambda>s. Some \<lparr>cj_iss = Some ''i'', cj_sub = None, cj_aud = Some (AudString ''api''), cj_exp = Some 200, cj_nbf = None, cj_iat = None,
        cj_jti = None, cj_client_id = None, cj_scope = None, cj_cnf = CnfObject (Some (Some sample_thumbprint))\<rparr>),
      jl_extra = (\<lambda>s. Some extra),
      dl_proof_header = (\<lambda>s. Some \<lparr>ph_alg = Some ''ES256'', ph_typ = Some ''dpop+jwt'', ph_crit = False, ph_jwk = Some sample_proof_jwk\<rparr>),
      dl_proof_claims = (\<lambda>s. Some \<lparr>pc_jti = Some ''j'', pc_htm = Some ''GET'', pc_htu = Some ''https://api.example/'', pc_iat = Some 100,
        pc_ath = Some sample_thumbprint\<rparr>),
      dl_jwk = (\<lambda>s. Some sample_proof_jwk)\<rparr>"

definition sample_lib :: "unit DpopLib" where
  "sample_lib = sample_lib_with ()"

definition sample_builder :: JwtAuthenticatorBuilder where
  "sample_builder =
     with_dpop (auth_builder (shared_new \<lparr>ks_keys = [\<lparr>jwk_kid = ''k'', jwk_alg = Es256, jwk_material = EcP256 []\<rparr>], ks_skipped = 0\<rparr>)
         (jwt_policy_new ''i'' [''api''] [Es256] AccessToken))
       (dpop_config_new DpopRequired ''https://api.example'' [Es256])"

definition sample_request :: RequestHead where
  "sample_request = mk_head ''GET'' ''/'' Http11 [(''Authorization'', ''DPoP {h.{p.s''), (''DPoP'', ''{h.{p.s'')]"

definition sample_claims :: "unit Claims" where
  "sample_claims = \<lparr>cl_iss = ''i'', cl_sub = None, cl_aud = [''api''], cl_exp = 200, cl_nbf = None, cl_iat = None, cl_jti = None,
     cl_client_id = None, cl_scope = None, cl_cnf = Jkt sample_thumbprint, cl_extra = ()\<rparr>"

definition sample_token :: bytes where "sample_token = ''{h.{p.s''"

lemma sample_accepted: "fst (authenticate_at sample_lib (auth_build sample_builder) sample_request 110) = Ok sample_claims"
  by code_simp

lemma sample_credentials: "credentials sample_request = Some (SchemeDpop, sample_token)"
  by code_simp

end
