(* ===== verification/Jwt_Auth_Spec.thy ===== *)
theory Jwt_Auth_Spec
  imports Jwt_Samples Body_Framing
begin

text \<open>
  What the authenticator of the JWT plugin promises: the cache of verified tokens never changes an answer, whatever requests run
  at the same time and however the keys change; a request is accepted exactly when its token, and the proof of possession
  where one is needed, are good; an accepted proof is not accepted again; and the gate admits nothing else.
\<close>

section \<open>The cache under concurrent requests\<close>

text \<open>
  The atomic steps of concurrent calls of \<^verbatim>\<open>verify_token_cached\<close> and of \<^verbatim>\<open>SharedKeySet::set\<close>. A call takes a snapshot of the key
  set and looks into the cache; it may remove an entry; when verification against its snapshot succeeded, it
  inserts the result, at some later moment: what is still to be inserted is the last argument. \<open>T\<close> holds the tokens that are presented.
\<close>

inductive cache_reachable :: "'x DpopLib \<Rightarrow> JwtPolicy \<Rightarrow> bytes set \<Rightarrow> SharedKeySet \<Rightarrow> 'x CacheState \<Rightarrow> (bytes \<times> 'x Entry \<times> nat) list \<Rightarrow> bool"
  for L policy T where
  start: "cache_reachable L policy T (shared_new ks) cache_new []"
| rotate: "cache_reachable L policy T sk g pend \<Longrightarrow> cache_reachable L policy T (shared_set sk ks) g pend"
| dropped: "cache_reachable L policy T sk g pend \<Longrightarrow> cache_reachable L policy T sk (cache_remove g key) pend"
| verified: "cache_reachable L policy T sk g pend \<Longrightarrow> token \<in> T \<Longrightarrow>
    verify_inner (JoseLib.truncate L) token (arc_set (snapshot sk)) policy now_unix = (Ok claims, u) \<Longrightarrow>
    cache_reachable L policy T sk g ((cache_key L token, \<lparr>en_claims = claims, en_verified_against = snapshot sk\<rparr>, now_unix) # pend)"
| inserted: "cache_reachable L policy T sk g (pend @ (key, e, now_unix) # pend') \<Longrightarrow>
    cache_reachable L policy T sk
      (cache_insert g key (en_claims e) (en_verified_against e) now_unix (as_secs (jp_clock_skew policy))) (pend @ pend')"

text \<open>An entry is the result of a verification of a token with its key against its key set, and addresses identify key sets.\<close>

definition entry_sound :: "'x DpopLib \<Rightarrow> JwtPolicy \<Rightarrow> bytes set \<Rightarrow> SharedKeySet \<Rightarrow> bytes \<Rightarrow> 'x Entry \<Rightarrow> bool" where
  "entry_sound L policy T sk key e \<longleftrightarrow>
     (\<exists>token\<in>T. key = cache_key L token \<and>
        (\<exists>now_unix u. verify_inner (JoseLib.truncate L) token (arc_set (en_verified_against e)) policy now_unix = (Ok (en_claims e), u))) \<and>
     arc_address (en_verified_against e) < sk_fresh sk \<and>
     (arc_address (en_verified_against e) = arc_address (snapshot sk) \<longrightarrow> en_verified_against e = snapshot sk)"

lemma entry_sound_rotate: "entry_sound L policy T sk key e \<Longrightarrow> entry_sound L policy T (shared_set sk ks) key e"
  by (auto simp: entry_sound_def shared_set_def snapshot_def)

lemma cache_reachable_sound:
  assumes "cache_reachable L policy T sk g pend"
  shows "cache_inv g" "tokens.entries_sound (entry_sound L policy T sk) g" "arc_address (snapshot sk) < sk_fresh sk"
    "\<forall>(key, e, now_unix) \<in> set pend. entry_sound L policy T sk key e"
  using assms
proof (induction rule: cache_reachable.induct)
  case (start ks)
  show "cache_inv cache_new" "tokens.entries_sound (entry_sound L policy T (shared_new ks)) cache_new"
    by (simp_all add: cache_inv_def cache_new_def tokens.entries_sound_def cache_look_def)
  show "arc_address (snapshot (shared_new ks)) < sk_fresh (shared_new ks)" by (simp add: shared_new_def snapshot_def)
next
  case (rotate sk g pend ks)
  show "tokens.entries_sound (entry_sound L policy T (shared_set sk ks)) g"
    by (rule tokens.sound_weaken [OF rotate.IH(2) entry_sound_rotate])
  show "arc_address (snapshot (shared_set sk ks)) < sk_fresh (shared_set sk ks)" by (simp add: shared_set_def snapshot_def)
  show "\<forall>(key, e, now_unix) \<in> set pend. entry_sound L policy T (shared_set sk ks) key e"
    using rotate.IH(4) entry_sound_rotate by fast
qed (auto simp: tokens.inv_remove tokens.sound_remove entry_sound_def [of _ _ _ _ "cache_key _ _"] cache_inv_insert
    intro!: tokens.sound_insert [where p = "(_, _)", simplified])

text \<open>What the cache answers is what verification against the current key set would answer.\<close>

lemma cache_get_sound:
  fixes now_unix :: nat
  assumes reach: "cache_reachable L policy T sk g pend" and inj: "inj_on (jl_sha256 L) T" and token: "token \<in> T"
  defines "fresh \<equiv> verify (JoseLib.truncate L) token (arc_set (snapshot sk)) policy now_unix"
  shows "case cache_get g (cache_key L token) (snapshot sk) now_unix (as_secs (jp_clock_skew policy)) of
    Hit c \<Rightarrow> fresh = Ok c | Invalid e \<Rightarrow> fresh = Err e | Miss \<Rightarrow> True"
proof (cases "map_of (cs_map g) (cache_key L token)")
  case None
  then show ?thesis by (simp add: cache_get_def)
next
  case (Some e)
  show ?thesis
  proof (cases "arc_address (en_verified_against e) = arc_address (snapshot sk)")
    case False
    then show ?thesis using Some by (simp add: cache_get_def)
  next
    case True
    have "entry_sound L policy T sk (cache_key L token) e"
      using cache_reachable_sound(2) [OF reach] Some by (simp add: tokens.entries_sound_def cache_look_def)
    then obtain token' now\<^sub>0 u where t: "token' \<in> T" "cache_key L token = cache_key L token'"
      "verify_inner (JoseLib.truncate L) token' (arc_set (snapshot sk)) policy now\<^sub>0 = (Ok (en_claims e), u)"
      using True by (auto simp: entry_sound_def)
    have "token' = token" using inj_onD [OF inj] t(1,2) token by (simp add: cache_key_def)
    then have "fresh = (case time_ok now_unix (as_secs (jp_clock_skew policy)) (en_claims e) of Err err \<Rightarrow> Err err | Ok _ \<Rightarrow> Ok (en_claims e))"
      using verify_time [OF t(3), of now_unix] by (simp add: fresh_def verify_def)
    then show ?thesis using Some True by (simp add: cache_get_def time_ok_def Let_def)
  qed
qed

lemma verify_token_cached_fresh:
  assumes "cache_reachable L (in_policy inner) T (in_keys inner) (in_cache inner) pend" "inj_on (jl_sha256 L) T" "token \<in> T"
    and "verify_token_cached L inner token now_unix = (r, events, inner')"
  shows "r = verify (JoseLib.truncate L) token (arc_set (snapshot (in_keys inner))) (in_policy inner) now_unix"
  using cache_get_sound [OF assms(1-3), of now_unix] assms(4)
  by (auto simp: verify_token_cached_def verify_def Let_def split: Lookup.splits sum.splits prod.splits)

lemma report_unknown_keeps:
  "report_unknown inner unknown now_unix = (events, inner') \<Longrightarrow>
     in_keys inner' = in_keys inner \<and> in_policy inner' = in_policy inner \<and> in_cache inner' = in_cache inner \<and> in_dpop inner' = in_dpop inner"
  by (auto simp: report_unknown_def Let_def split: option.splits if_splits prod.splits)

lemma verify_token_cached_keeps:
  "verify_token_cached L inner token now_unix = (r, events, inner') \<Longrightarrow>
     in_keys inner' = in_keys inner \<and> in_policy inner' = in_policy inner \<and> in_dpop inner' = in_dpop inner"
  by (auto simp: verify_token_cached_def Let_def split: Lookup.splits sum.splits prod.splits dest!: report_unknown_keeps)

text \<open>A call of an authenticator is a sequence of the atomic steps.\<close>

lemma verify_token_cached_reachable:
  assumes reach: "cache_reachable L (in_policy inner) T (in_keys inner) (in_cache inner) pend" and token: "token \<in> T"
    and call: "verify_token_cached L inner token now_unix = (r, events, inner')"
  shows "cache_reachable L (in_policy inner') T (in_keys inner') (in_cache inner') pend"
proof -
  let ?key = "cache_key L token" and ?current = "snapshot (in_keys inner)" and ?leeway = "as_secs (jp_clock_skew (in_policy inner))"
  obtain result unknown where v: "verify_inner (JoseLib.truncate L) token (arc_set ?current) (in_policy inner) now_unix = (result, unknown)"
    by fastforce
  have removed: "cache_reachable L (in_policy inner) T (in_keys inner) (cache_remove (in_cache inner) ?key) pend"
    by (rule cache_reachable.dropped [OF reach])
  have stored: "cache_reachable L (in_policy inner) T (in_keys inner)
      (cache_insert (cache_remove (in_cache inner) ?key) ?key c ?current now_unix ?leeway) pend" if "result = Ok c" for c
    using cache_reachable.inserted [where pend = "[]", simplified, OF cache_reachable.verified [OF removed token v [unfolded that]]]
    by simp
  show ?thesis
    using call reach removed stored verify_token_cached_keeps [OF call] v
    by (auto simp: verify_token_cached_def Let_def split: Lookup.splits sum.splits prod.splits dest!: report_unknown_keeps)
qed

text \<open>C20. The cache of verified tokens is transparent. Whatever concurrent requests and changes of the key set came before, a call answers exactly what
  verification of the token against the current key set answers at that time, as long as no two of the presented tokens have the same
  hash; and the cache never holds more entries than its capacity, in step with its queue of insertions.\<close>

theorem cache_transparent:
  assumes "cache_reachable L (in_policy inner) T (in_keys inner) (in_cache inner) pend"
    and "inj_on (jl_sha256 L) T" and "token \<in> T"
    and "verify_token_cached L inner token now_unix = (r, events, inner')"
  shows "r = verify (JoseLib.truncate L) token (arc_set (snapshot (in_keys inner))) (in_policy inner) now_unix \<and>
    length (cs_map (in_cache inner')) \<le> CACHE_CAPACITY \<and> set (cs_order (in_cache inner')) = dom (cache_look (in_cache inner'))"
proof -
  have "r = verify (JoseLib.truncate L) token (arc_set (snapshot (in_keys inner))) (in_policy inner) now_unix"
    by (rule verify_token_cached_fresh [OF assms])
  moreover have "cache_inv (in_cache inner')"
    by (rule cache_reachable_sound(1) [OF verify_token_cached_reachable [OF assms(1,3,4)]])
  ultimately show ?thesis by (simp add: cache_inv_def cache_look_def [abs_def] dom_map_of_conv_image_fst)
qed

lemma sample_reachable:
  "cache_reachable sample_lib (in_policy (auth_build sample_builder :: unit Inner)) {sample_token}
     (in_keys (auth_build sample_builder :: unit Inner)) (in_cache (auth_build sample_builder :: unit Inner)) []"
  by (simp add: auth_build_def sample_builder_def with_dpop_def auth_builder_def cache_reachable.start)

theorem cache_transparent_witness:
  "case verify_token_cached sample_lib (auth_build sample_builder) sample_token 110 of (_, _, inner) \<Rightarrow>
     in_misses inner = 1 \<and> (case verify_token_cached sample_lib inner sample_token 150 of (r, _, inner') \<Rightarrow>
       r = verify (JoseLib.truncate sample_lib) sample_token (arc_set (snapshot (in_keys inner))) (in_policy inner) 150 \<and> in_hits inner' = 1)"
proof (cases "verify_token_cached sample_lib (auth_build sample_builder) sample_token 110")
  case first: (fields r events inner)
  show ?thesis
  proof (cases "verify_token_cached sample_lib inner sample_token 150")
    case second: (fields r' events' inner')
    have "case verify_token_cached sample_lib (auth_build sample_builder) sample_token 110 of (_, _, inner) \<Rightarrow>
        in_misses inner = 1 \<and> (case verify_token_cached sample_lib inner sample_token 150 of (_, _, inner') \<Rightarrow> in_hits inner' = 1)"
      by code_simp
    then show ?thesis
      using cache_transparent [OF verify_token_cached_reachable [OF sample_reachable _ first] _ _ second] first second by simp
  qed
qed

section \<open>Which requests are accepted\<close>

text \<open>A request with a good token that is bound to no key where that is allowed, or bound to the key of the one good and unused proof it carries.\<close>

definition proof_context :: "DpopConfig \<Rightarrow> RequestHead \<Rightarrow> bytes \<Rightarrow> bytes \<Rightarrow> ProofContext" where
  "proof_context config head token htu =
     \<lparr>px_method = head_method head, px_htu = htu, px_access_token = token, px_algs = dc_algs config, px_window = dc_window config\<rparr>"

definition request_authorized :: "'x DpopLib \<Rightarrow> 'x Inner \<Rightarrow> RequestHead \<Rightarrow> nat \<Rightarrow> 'x Claims \<Rightarrow> bool" where
  "request_authorized L inner head now_unix c \<longleftrightarrow>
     (\<exists>scheme token. credentials head = Some (scheme, token) \<and>
        verify (JoseLib.truncate L) token (arc_set (snapshot (in_keys inner))) (in_policy inner) now_unix = Ok c \<and>
        (case in_dpop inner of
           None \<Rightarrow> scheme = SchemeBearer
         | Some d \<Rightarrow>
             (case scheme of
                SchemeBearer \<Rightarrow> cl_cnf c = ConfAbsent \<and> dc_mode (ds_config d) = AllowUnboundBearer
              | SchemeDpop \<Rightarrow>
                  (\<exists>proof' htu v. header_values head ''dpop'' = [proof'] \<and>
                     expected_htu (dc_origin (ds_config d)) (head_path head) = Ok htu \<and>
                     verify_proof L proof' (proof_context (ds_config d) head token htu) now_unix = Ok v \<and>
                     cl_cnf c = Jkt (vp_thumbprint v) \<and> is_thumbprint_shape (vp_thumbprint v) \<and>
                     fst (replay_register L (ds_replay d) v now_unix) = Ok ()))))"

lemma binding_ok:
  "binding scheme cnf mode = Ok None \<longleftrightarrow> scheme = SchemeBearer \<and> cnf = ConfAbsent \<and> mode = AllowUnboundBearer"
  "binding scheme cnf mode = Ok (Some j) \<longleftrightarrow> scheme = SchemeDpop \<and> cnf = Jkt j \<and> is_thumbprint_shape j"
  by (auto simp: binding_def split: Confirmation.splits Scheme.splits DpopMode.splits)

lemma proof_of_request_ok:
  "proof_of_request L config head token jkt now_unix = Ok v \<longleftrightarrow>
     (\<exists>proof' htu. header_values head ''dpop'' = [proof'] \<and> expected_htu (dc_origin config) (head_path head) = Ok htu \<and>
        verify_proof L proof' (proof_context config head token htu) now_unix = Ok v \<and> vp_thumbprint v = jkt)"
  unfolding proof_of_request_def header_values_def [symmetric] proof_context_def [symmetric]
  by (cases "header_values head ''dpop''") (auto simp: res_bind_eq_Ok split: if_splits)

lemma authenticate_dpop_ok:
  "fst (authenticate_dpop L inner d head now_unix) = Ok c \<longleftrightarrow>
     (\<exists>scheme token events inner'. credentials head = Some (scheme, token) \<and>
        verify_token_cached L inner token now_unix = (Ok c, events, inner') \<and>
        (binding scheme (cl_cnf c) (dc_mode (ds_config d)) = Ok None \<or>
         (\<exists>jkt v. binding scheme (cl_cnf c) (dc_mode (ds_config d)) = Ok (Some jkt) \<and>
            proof_of_request L (ds_config d) head token jkt now_unix = Ok v \<and> fst (replay_register L (ds_replay d) v now_unix) = Ok ())))"
proof (cases "credentials head")
  case (Some cred)
  obtain scheme token where cred: "cred = (scheme, token)" by fastforce
  obtain r events inner' where v: "verify_token_cached L inner token now_unix = (r, events, inner')" by (cases "verify_token_cached L inner token now_unix")
  show ?thesis
  proof (cases r)
    case (Inr c')
    show ?thesis
      using Some cred v Inr
      by (auto simp: authenticate_dpop_def res_bind_eq_Ok map_err_def split: sum.splits option.splits prod.splits)
  qed (simp add: authenticate_dpop_def Some cred v)
qed (simp add: authenticate_dpop_def)

lemma bearer_credentials: "bearer_token head = Some token \<longleftrightarrow> credentials head = Some (SchemeBearer, token)"
  by (auto simp: bearer_token_def credentials_def split: option.splits if_splits)

lemma authenticated_iff:
  assumes "cache_reachable L (in_policy inner) T (in_keys inner) (in_cache inner) pend"
    and "inj_on (jl_sha256 L) T" and "\<forall>scheme token. credentials head = Some (scheme, token) \<longrightarrow> token \<in> T"
  shows "fst (authenticate_at L inner head now_unix) = Ok c \<longleftrightarrow> request_authorized L inner head now_unix c"
proof -
  have fresh: "(\<exists>events inner'. verify_token_cached L inner token now_unix = (Ok c, events, inner')) \<longleftrightarrow>
      verify (JoseLib.truncate L) token (arc_set (snapshot (in_keys inner))) (in_policy inner) now_unix = Ok c"
    if "credentials head = Some (scheme, token)" for scheme token
    using verify_token_cached_fresh [OF assms(1,2), of token now_unix] assms(3) that
    by (cases "verify_token_cached L inner token now_unix") auto
  show ?thesis
  proof (cases "in_dpop inner")
    case None
    have "fst (authenticate_at L inner head now_unix) = Ok c \<longleftrightarrow>
        (\<exists>token. credentials head = Some (SchemeBearer, token) \<and> (\<exists>events inner'. verify_token_cached L inner token now_unix = (Ok c, events, inner')))"
      using None by (cases "bearer_token head") (auto simp: authenticate_at_def prod_eq_iff simp flip: bearer_credentials intro: prod.collapse)
    then show ?thesis unfolding request_authorized_def None using fresh by fastforce
  next
    case (Some d)
    show ?thesis
    proof (cases "credentials head")
      case (Some cred)
      obtain scheme token where cred: "credentials head = Some (scheme, token)" using Some by (cases cred) simp
      show ?thesis
        unfolding authenticate_at_def request_authorized_def \<open>in_dpop inner = Some d\<close> option.case authenticate_dpop_ok binding_ok proof_of_request_ok
        using fresh [OF cred] cred by (cases scheme) auto
    qed (simp add: authenticate_at_def authenticate_dpop_def request_authorized_def \<open>in_dpop inner = Some d\<close>)
  qed
qed

text \<open>C17. Which requests are accepted. Without DPoP, a request is accepted exactly when it presents one bearer token that verification against the
  current keys accepts. With DPoP, exactly when it presents such a token that is not bound to a key, as a bearer token where the
  configuration allows it, or one that is bound to the key of the single proof it carries, where that proof is valid for this request and this token and
  has not been used. A bound token is never accepted without a proof.\<close>

theorem authenticate_exact:
  assumes "cache_reachable L (in_policy inner) T (in_keys inner) (in_cache inner) pend"
    and "inj_on (jl_sha256 L) T" and "\<forall>scheme token. credentials head = Some (scheme, token) \<longrightarrow> token \<in> T"
  shows "fst (authenticate_at L inner head now_unix) = Ok c \<longleftrightarrow> request_authorized L inner head now_unix c"
  using assms by (rule authenticated_iff)

theorem authenticate_exact_witness:
  "fst (authenticate_at sample_lib (auth_build sample_builder) sample_request 110) = Ok sample_claims \<and>
     request_authorized sample_lib (auth_build sample_builder) sample_request 110 sample_claims"
  using authenticate_exact [OF sample_reachable, of sample_request 110 sample_claims] sample_accepted sample_credentials by simp

end
