(* ===== verification/Jwt_Gate.thy ===== *)
theory Jwt_Gate
  imports Jwt_Auth_Spec
begin

text \<open>
  The authenticator over a whole run, and the gate (\<^verbatim>\<open>crates/plugin-jwt/src/gate.rs\<close>): a proof of possession is good for one request, and
  every refusal carries a challenge.
\<close>

section \<open>A proof is good for one request\<close>

datatype AuthOp = RequestAt RequestHead nat | SetKeys KeySet

fun auth_run :: "'x DpopLib \<Rightarrow> 'x Inner \<Rightarrow> AuthOp list \<Rightarrow> 'x Inner" where
  "auth_run L inner [] = inner"
| "auth_run L inner (RequestAt head now_unix # ops) = auth_run L (snd (snd (authenticate_at L inner head now_unix))) ops"
| "auth_run L inner (SetKeys ks # ops) = auth_run L (inner\<lparr>in_keys := shared_set (in_keys inner) ks\<rparr>) ops"

fun op_times :: "AuthOp list \<Rightarrow> nat set" where
  "op_times [] = {}"
| "op_times (RequestAt head now_unix # ops) = insert now_unix (op_times ops)"
| "op_times (SetKeys ks # ops) = op_times ops"

text \<open>The store of an authenticator with DPoP is a replay store for the window of its configuration.\<close>

definition dpop_inv :: "DpopConfig \<Rightarrow> 'x Inner \<Rightarrow> bool" where
  "dpop_inv config inner \<longleftrightarrow>
     (\<exists>d. in_dpop inner = Some d \<and> ds_config d = config \<and> replay_inv (ds_replay d) \<and>
        rs_past_secs (ds_replay d) = as_secs (iw_past (dc_window config)))"

text \<open>The attempts to register that a request makes: none or one, at the time of the request.\<close>

lemma authenticate_dpop_store:
  assumes "in_dpop inner = Some d"
  shows "in_dpop (snd (snd (authenticate_at L inner head now_unix))) = Some d \<or>
    (\<exists>v. in_dpop (snd (snd (authenticate_at L inner head now_unix))) = Some (d\<lparr>ds_replay := snd (replay_register L (ds_replay d) v now_unix)\<rparr>))"
proof (cases "credentials head")
  case (Some cred)
  obtain scheme token where cred: "cred = (scheme, token)" by fastforce
  obtain r events inner' where v: "verify_token_cached L inner token now_unix = (r, events, inner')"
    by (cases "verify_token_cached L inner token now_unix")
  have "in_dpop inner' = Some d" using verify_token_cached_keeps [OF v] assms by simp
  then show ?thesis
    using Some cred v assms
    by (auto simp: authenticate_at_def authenticate_dpop_def split_beta split: sum.splits option.splits)
qed (simp add: authenticate_at_def authenticate_dpop_def assms)

lemma authenticate_attempts:
  assumes "in_dpop inner = Some d"
  shows "\<exists>attempts. in_dpop (snd (snd (authenticate_at L inner head now_unix))) =
      Some (d\<lparr>ds_replay := snd (register_all (ds_replay d) attempts)\<rparr>) \<and> (\<forall>a\<in>set attempts. snd (snd a) = now_unix)"
proof -
  have one: "snd (replay_register L (ds_replay d) v now_unix) =
      snd (register_all (ds_replay d) [(replay_key (jl_sha256 L) (vp_thumbprint v) (vp_jti v), vp_iat v, now_unix)])" for v
    by (simp add: replay_register_def split_beta)
  from authenticate_dpop_store [OF assms, of L head now_unix] show ?thesis
  proof (elim disjE exE)
    assume "in_dpop (snd (snd (authenticate_at L inner head now_unix))) = Some d"
    then show ?thesis by (intro exI [of _ "[]"]) simp
  next
    fix v assume "in_dpop (snd (snd (authenticate_at L inner head now_unix))) = Some (d\<lparr>ds_replay := snd (replay_register L (ds_replay d) v now_unix)\<rparr>)"
    then show ?thesis unfolding one by (intro exI conjI, assumption) simp
  qed
qed

lemma auth_run_attempts:
  assumes "in_dpop inner = Some d"
  shows "\<exists>attempts. in_dpop (auth_run L inner ops) = Some (d\<lparr>ds_replay := snd (register_all (ds_replay d) attempts)\<rparr>) \<and>
    (snd \<circ> snd) ` set attempts \<subseteq> op_times ops"
  using assms
proof (induction L inner ops arbitrary: d rule: auth_run.induct)
  case (1 L inner)
  then show ?case by (auto intro!: exI [of _ "[]"])
next
  case (2 L inner head now_unix ops)
  obtain as where as: "in_dpop (snd (snd (authenticate_at L inner head now_unix))) = Some (d\<lparr>ds_replay := snd (register_all (ds_replay d) as)\<rparr>)"
      "\<forall>a\<in>set as. snd (snd a) = now_unix"
    using authenticate_attempts [OF "2.prems"] by blast
  obtain bs where bs: "in_dpop (auth_run L inner (RequestAt head now_unix # ops)) =
      Some (d\<lparr>ds_replay := snd (register_all (snd (register_all (ds_replay d) as)) bs)\<rparr>)" "(snd \<circ> snd) ` set bs \<subseteq> op_times ops"
    using "2.IH" [OF as(1)] by auto
  show ?case using as(2) bs by (intro exI [of _ "as @ bs"]) (auto simp: register_all_append)
next
  case (3 L inner ks ops)
  then show ?case by simp
qed

lemma proof_claims_time:
  "proof_claims_accepted L ctx now\<^sub>1 p jti iat \<Longrightarrow> proof_claims_accepted L ctx now\<^sub>2 p jti' iat' \<Longrightarrow> jti' = jti \<and> iat' = iat"
  by (auto simp: proof_claims_accepted_def)

lemma verify_proof_time:
  assumes "verify_proof L proof' ctx now\<^sub>1 = Ok v\<^sub>1" "verify_proof L proof' ctx now\<^sub>2 = Ok v\<^sub>2"
  shows "v\<^sub>2 = v\<^sub>1" "iat_in_window (px_window ctx) now\<^sub>2 (vp_iat v\<^sub>2)"
proof -
  have claims: "\<exists>h p s alg key. proof_parts proof' = Ok (h, p, s) \<and> proof_header L ctx h = Ok (alg, key) \<and> vp_thumbprint v = pk_thumbprint key \<and>
      proof_claims_accepted L ctx now_unix p (vp_jti v) (vp_iat v)" if "verify_proof L proof' ctx now_unix = Ok v" for now_unix v
    using that unfolding verify_proof_def res_bind_eq_Ok by (auto simp: res_bind_eq_Ok proof_claims_ok split: if_splits)
  show "v\<^sub>2 = v\<^sub>1" using claims [OF assms(1)] claims [OF assms(2)] proof_claims_time by (intro VerifiedProof.equality) fastforce+
  show "iat_in_window (px_window ctx) now\<^sub>2 (vp_iat v\<^sub>2)" using claims [OF assms(2)] by (auto simp: proof_claims_accepted_def)
qed

text \<open>An accepted request with the scheme of DPoP carries a valid proof, which was registered.\<close>

lemma accepted_proof:
  assumes "fst (authenticate_at L inner head now_unix) = Ok c" "in_dpop inner = Some d" "credentials head = Some (SchemeDpop, token)"
  obtains proof' htu v where "header_values head ''dpop'' = [proof']" "expected_htu (dc_origin (ds_config d)) (head_path head) = Ok htu"
    "verify_proof L proof' (proof_context (ds_config d) head token htu) now_unix = Ok v"
    "fst (replay_register L (ds_replay d) v now_unix) = Ok ()"
    "in_dpop (snd (snd (authenticate_at L inner head now_unix))) = Some (d\<lparr>ds_replay := snd (replay_register L (ds_replay d) v now_unix)\<rparr>)"
proof -
  obtain events inner' jkt v where v: "verify_token_cached L inner token now_unix = (Ok c, events, inner')"
      "binding SchemeDpop (cl_cnf c) (dc_mode (ds_config d)) = Ok (Some jkt)"
      "proof_of_request L (ds_config d) head token jkt now_unix = Ok v" "fst (replay_register L (ds_replay d) v now_unix) = Ok ()"
    using assms unfolding authenticate_at_def assms(2) option.case authenticate_dpop_ok by (auto simp: binding_ok)
  moreover have "in_dpop (snd (snd (authenticate_at L inner head now_unix))) = Some (d\<lparr>ds_replay := snd (replay_register L (ds_replay d) v now_unix)\<rparr>)"
    using v(1-3) assms(2,3) by (simp add: authenticate_at_def authenticate_dpop_def split_beta)
  ultimately show ?thesis using that unfolding proof_of_request_ok by blast
qed

lemma dpop_inv_build:
  assumes "jb_dpop b = Some config" shows "dpop_inv config (auth_build b :: 'x Inner)"
proof -
  have new: "replay_inv (replay_new w)" "rs_past_secs (replay_new w) = as_secs (iw_past w)" for w
    by (rule replay_start(1)) (simp add: replay_new_def)
  have cap: "replay_inv st \<and> rs_past_secs st = as_secs (iw_past w)" if "replay_with_capacity w c = Ok st" for w c st
    using replay_start(2) [OF that] that by (auto simp: replay_with_capacity_def replay_new_def split: if_splits)
  show ?thesis
    unfolding dpop_inv_def auth_build_def
    using new cap assms by (auto simp: dpop_state_def Let_def split: option.splits sum.splits)
qed

lemma dpop_inv_run: "dpop_inv config inner \<Longrightarrow> dpop_inv config (auth_run L inner ops)"
  using auth_run_attempts [of inner _ L ops] register_all_inv unfolding dpop_inv_def by fastforce

text \<open>C18. A DPoP request is accepted once. When an authenticator has accepted a request with a proof of possession, then, as long as the clock does
  not go back, it never accepts that request again, whatever other requests it has handled in between, whatever keys it has been given and
  however late the second attempt is.\<close>

theorem dpop_request_once:
  assumes "jb_dpop b = Some config" and "inner\<^sub>1 = auth_run L (auth_build b) before"
    and "credentials head = Some (SchemeDpop, token)"
    and "authenticate_at L inner\<^sub>1 head now\<^sub>1 = (Ok c, events, inner\<^sub>2)"
    and "\<forall>t\<in>op_times between. t \<le> now\<^sub>3" and "now\<^sub>3 \<le> U64_MAX"
  shows "\<nexists>c'. fst (authenticate_at L (auth_run L inner\<^sub>2 between) head now\<^sub>3) = Ok c'"
proof
  assume "\<exists>c'. fst (authenticate_at L (auth_run L inner\<^sub>2 between) head now\<^sub>3) = Ok c'"
  then obtain c' where again: "fst (authenticate_at L (auth_run L inner\<^sub>2 between) head now\<^sub>3) = Ok c'" ..
  have "dpop_inv config inner\<^sub>1" unfolding assms(2) using dpop_inv_build [OF assms(1)] by (rule dpop_inv_run)
  then obtain d\<^sub>1 where d\<^sub>1: "in_dpop inner\<^sub>1 = Some d\<^sub>1" "ds_config d\<^sub>1 = config" "replay_inv (ds_replay d\<^sub>1)"
      "rs_past_secs (ds_replay d\<^sub>1) = as_secs (iw_past (dc_window config))"
    unfolding dpop_inv_def by blast
  obtain proof' htu v where first: "header_values head ''dpop'' = [proof']" "expected_htu (dc_origin config) (head_path head) = Ok htu"
      "verify_proof L proof' (proof_context config head token htu) now\<^sub>1 = Ok v"
      "fst (replay_register L (ds_replay d\<^sub>1) v now\<^sub>1) = Ok ()"
      "in_dpop inner\<^sub>2 = Some (d\<^sub>1\<lparr>ds_replay := snd (replay_register L (ds_replay d\<^sub>1) v now\<^sub>1)\<rparr>)"
    using accepted_proof [of L inner\<^sub>1 head now\<^sub>1 c d\<^sub>1 token] assms(3,4) d\<^sub>1(1,2) by auto
  obtain attempts where as: "in_dpop (auth_run L inner\<^sub>2 between) =
      Some (d\<^sub>1\<lparr>ds_replay := snd (register_all (snd (replay_register L (ds_replay d\<^sub>1) v now\<^sub>1)) attempts)\<rparr>)"
      "(snd \<circ> snd) ` set attempts \<subseteq> op_times between"
    using auth_run_attempts [OF first(5), of L between] by auto
  let ?st = "snd (register_all (snd (replay_register L (ds_replay d\<^sub>1) v now\<^sub>1)) attempts)"
  obtain v' where second: "verify_proof L proof' (proof_context config head token htu) now\<^sub>3 = Ok v'"
      "fst (replay_register L ?st v' now\<^sub>3) = Ok ()"
    using accepted_proof [OF again as(1) assms(3)] first(1,2) d\<^sub>1(2) by auto
  have v': "v' = v" using verify_proof_time(1) [OF first(3) second(1)] .
  have "iat_in_window (dc_window config) now\<^sub>3 (vp_iat v)"
    using verify_proof_time(2) [OF first(3) second(1)] v' by (simp add: proof_context_def)
  then have late: "now\<^sub>3 \<le> saturating_add (vp_iat v) (as_secs (iw_past (dc_window config)))"
    using assms(6) by (auto simp: iat_in_window_def saturating_add_def)
  have "list_all (\<lambda>(k, iat, now_unix). now_unix \<le> now\<^sub>3) attempts" using as(2) assms(5) by (force simp: list_all_iff)
  then have "fst (replay_register L ?st v now\<^sub>3) = Err Replayed"
    unfolding replay_register_def using first(4) d\<^sub>1(3,4) late by (intro registered_refused) (auto simp: replay_register_def)
  then show False using second(2) v' by simp
qed

theorem dpop_request_once_witness:
  "fst (authenticate_at sample_lib (auth_build sample_builder) sample_request 110) = Ok sample_claims \<and>
   (\<nexists>c'. fst (authenticate_at sample_lib
      (auth_run sample_lib (snd (snd (authenticate_at sample_lib (auth_build sample_builder) sample_request 110)))
        [SetKeys keyset_empty, RequestAt sample_request 115]) sample_request 120) = Ok c')"
proof -
  obtain events inner where first: "authenticate_at sample_lib (auth_build sample_builder) sample_request 110 = (Ok sample_claims, events, inner)"
    using sample_accepted by (metis eq_fst_iff prod.exhaust_sel)
  have "jb_dpop sample_builder = Some (dpop_config_new DpopRequired ''https://api.example'' [Es256])"
    by (simp add: sample_builder_def with_dpop_def)
  from dpop_request_once [OF this _ sample_credentials first, of "[]" "[SetKeys keyset_empty, RequestAt sample_request 115]" 120] show ?thesis
    unfolding first by simp
qed

lemma auth_run_append: "auth_run L inner (as @ bs) = auth_run L (auth_run L inner as) bs"
  by (induction L inner as rule: auth_run.induct) simp_all


section \<open>The gate\<close>

text \<open>A refusal for lack of credentials: status 401 and at least one challenge, of one of the two schemes.\<close>

definition is_challenge_response :: "Response \<Rightarrow> bool" where
  "is_challenge_response r \<longleftrightarrow> r_status r = 401 \<and> r_body r \<in> {BODY_INVALID_TOKEN, BODY_INVALID_DPOP_PROOF} \<and> r_extra_headers r \<noteq> [] \<and>
     list_all (\<lambda>(n, v). n = ''WWW-Authenticate'' \<and> (starts_with ''Bearer'' v \<or> starts_with ''DPoP'' v)) (r_extra_headers r)"

definition plain_value :: "bytes \<Rightarrow> bool" where
  "plain_value v \<longleftrightarrow> list_all (\<lambda>b. 0x20 \<le> bval b \<and> bval b \<noteq> 0x7f) v"

lemma plain_value_append [simp]:
  "plain_value []" "plain_value (u @ v) \<longleftrightarrow> plain_value u \<and> plain_value v" "plain_value (b # v) \<longleftrightarrow> 0x20 \<le> bval b \<and> bval b \<noteq> 0x7f \<and> plain_value v"
  by (auto simp: plain_value_def)

lemma plain_value_quoted [simp]: "plain_value (quoted v) \<longleftrightarrow> plain_value v"
  by (simp add: quoted_def)

lemma with_challenge: "plain_value v \<Longrightarrow> with_header r ''WWW-Authenticate'' v = Ok (push_header r ''WWW-Authenticate'' v)"
proof -
  have "list_all is_tchar ''WWW-Authenticate''" "\<not> list_ex (\<lambda>n. eq_ignore_ascii_case ''WWW-Authenticate'' n) RESERVED" by code_simp+
  then show "plain_value v \<Longrightarrow> ?thesis" by (auto simp: with_header_def plain_value_def list_all_iff list_ex_iff)
qed

lemma add_challenges_plain:
  "list_all plain_value cs \<Longrightarrow> add_challenges base r cs = r\<lparr>r_extra_headers := r_extra_headers r @ map (Pair ''WWW-Authenticate'') cs\<rparr>"
  by (induction cs arbitrary: r) (simp_all add: with_challenge push_header_def)

lemma unauthorized_challenge:
  assumes "list_all plain_value cs" "cs \<noteq> []" "list_all (\<lambda>v. starts_with ''Bearer'' v \<or> starts_with ''DPoP'' v) cs"
    "body = BODY_INVALID_TOKEN \<or> body = BODY_INVALID_DPOP_PROOF"
  shows "is_challenge_response (unauthorized body cs)"
  using assms(2-4)
  by (auto simp: is_challenge_response_def unauthorized_def Let_def add_challenges_plain [OF assms(1)] response_new_def with_content_type_def list_all_iff)

lemma challenge_algs_plain: "plain_value (ds_challenge_algs (dpop_state config))"
  by (simp add: dpop_state_def Let_def as_jose_name_def)

lemma dpop_unauthorized_challenge:
  assumes "plain_value (ds_challenge_algs d)" shows "is_challenge_response (dpop_unauthorized d head err)"
  using assms unfolding dpop_unauthorized_def Let_def
  by (auto simp: starts_with_def intro!: unauthorized_challenge split: VerifyError.splits option.splits prod.splits Scheme.splits if_splits)

lemma auth_run_challenge_algs:
  assumes "in_dpop (auth_run L (auth_build b) ops) = Some d" shows "plain_value (ds_challenge_algs d)"
proof (cases "jb_dpop b")
  case None
  have "in_dpop (auth_run L inner ops) = None" if "in_dpop inner = None" for inner :: "'a Inner"
    using that
  proof (induction L inner ops rule: auth_run.induct)
    case (2 L inner head now_unix ops)
    have "in_dpop (snd (snd (verify_token_cached L inner token now_unix))) = None" for token
      using verify_token_cached_keeps [of L inner token now_unix] "2.prems" by (cases "verify_token_cached L inner token now_unix") simp
    then show ?case using "2.prems" "2.IH" by (simp add: authenticate_at_def split: option.splits)
  qed simp_all
  then show ?thesis using assms None by (simp add: auth_build_def)
next
  case (Some config)
  then have "in_dpop (auth_build b :: 'a Inner) = Some (dpop_state config)" by (simp add: auth_build_def)
  then show ?thesis using auth_run_attempts [of "auth_build b" "dpop_state config" L ops] assms challenge_algs_plain by auto
qed

lemma unauthorized_response_challenge:
  assumes "inner = auth_run L (auth_build b) ops" shows "is_challenge_response (unauthorized_response inner head err)"
proof (cases "in_dpop inner")
  case None
  have "plain_value CHALLENGE_BEARER_NO_TOKEN" "plain_value CHALLENGE_BEARER_INVALID"
    "starts_with ''Bearer'' CHALLENGE_BEARER_NO_TOKEN" "starts_with ''Bearer'' CHALLENGE_BEARER_INVALID"
    by (simp_all add: CHALLENGE_BEARER_NO_TOKEN_def CHALLENGE_BEARER_INVALID_def starts_with_def)
  then show ?thesis
    unfolding unauthorized_response_def None by (auto intro!: unauthorized_challenge split: VerifyError.split)
next
  case (Some d)
  then show ?thesis
    using auth_run_challenge_algs [of L b ops d] assms by (simp add: unauthorized_response_def dpop_unauthorized_challenge)
qed

text \<open>The gate of the plugin. It lets a request pass exactly when the authenticator accepts it and no verified claims were attached before, and then
  the handler finds these claims; a request the authenticator refuses is answered with status 401 and a challenge, and one that
  already has claims with status 500, and nothing is attached.\<close>

theorem jwt_gate_fail_closed:
  assumes "inner = auth_run L (auth_build b) ops" and "ext_inv ext"
    and "jwt_check L tid ident inner clock head ext = (outcome, ext', events, inner')"
  shows "case fst (authenticate L inner head clock) of
    Ok c \<Rightarrow> if ext_contains ext tid then outcome = Reject (error_response 500 ''internal_error'') \<and> ext' = ext
      else outcome = Allow \<and> ext_get ext' tid = Some (Any tid (ident c))
  | Err e \<Rightarrow> ext' = ext \<and> (\<exists>r. outcome = Reject r \<and> is_challenge_response r)"
proof (cases "authenticate L inner head clock")
  case (fields r events' inner'')
  have run: "inner'' = auth_run L (auth_build b) (ops @ [RequestAt head (unix_now clock)])"
    using fields assms(1) by (simp add: auth_run_append authenticate_def)
  show ?thesis
  proof (cases r)
    case (Inl e)
    then show ?thesis using fields assms(3) unauthorized_response_challenge [OF run] by (auto simp: jwt_check_def)
  next
    case (Inr c)
    then show ?thesis
      using fields assms(2,3) ext_get_insert [of ext "Any tid (ident c)" tid]
      by (cases "ext_contains ext tid")
        (auto simp: jwt_check_def ext_contains_iff ext_insert_def ext_contains_def [symmetric] Let_def)
  qed
qed

theorem jwt_gate_fail_closed_witness:
  "fst (jwt_check sample_lib 7 (\<lambda>c. cl_exp c) (auth_build sample_builder) (Some 110) sample_request extensions_new) = Allow \<and>
   (\<exists>r. fst (jwt_check sample_lib 7 (\<lambda>c. cl_exp c) (auth_build sample_builder) None sample_request extensions_new) = Reject r \<and> is_challenge_response r)"
proof -
  have ok: "fst (authenticate sample_lib (auth_build sample_builder) sample_request (Some 110)) = Ok sample_claims"
    and expired: "fst (authenticate sample_lib (auth_build sample_builder) sample_request None) = Err Expired" by code_simp+
  have outcome: "case fst (authenticate sample_lib (auth_build sample_builder) sample_request clock) of
      Ok c \<Rightarrow> fst (jwt_check sample_lib 7 (\<lambda>c. cl_exp c) (auth_build sample_builder) clock sample_request extensions_new) = Allow
    | Err e \<Rightarrow> \<exists>r. fst (jwt_check sample_lib 7 (\<lambda>c. cl_exp c) (auth_build sample_builder) clock sample_request extensions_new) = Reject r \<and> is_challenge_response r"
    for clock
  proof (cases "jwt_check sample_lib 7 (\<lambda>c. cl_exp c) (auth_build sample_builder) clock sample_request extensions_new")
    case (fields outcome ext' events inner')
    then show ?thesis
      using jwt_gate_fail_closed [of "auth_build sample_builder" sample_lib sample_builder "[]" extensions_new, OF _ _ fields]
      by (simp add: ext_contains_iff split: sum.splits)
  qed
  show ?thesis using outcome [of "Some 110"] outcome [of None] ok expired by simp
qed

end
