(* ===== verification/Hub_Wiring.thy ===== *)
theory Hub_Wiring
  imports Jwt_Gate
begin

text \<open>
  \<^verbatim>\<open>crates/plugin-hub-wiring/src\<close>: the tenant gate on top of the JWT authenticator (\<^verbatim>\<open>auth.rs\<close>, \<^verbatim>\<open>gate.rs\<close>), the audit of attempts to reach
  another tenant's data (\<^verbatim>\<open>audit.rs\<close>), the store of consents (\<^verbatim>\<open>consent.rs\<close>) and the outbox (\<^verbatim>\<open>outbox.rs\<close>). The stores are behind a mutex, so
  a sequence of operations describes any use of them. The locale \<open>tenant_store\<close> is what the two stores have in common: what a
  tenant sees is a function of its own operations.
\<close>

section \<open>The tenant of a request\<close>

record HubClaims =
  hc_org_id :: "bytes option"

datatype AuthError = AuthJwt VerifyError | MissingOrgId

record TenantClaims =
  tc_org_id :: bytes
  tc_claims :: "HubClaims Claims"

type_synonym Authenticator = "HubClaims Inner"

definition authenticator_new :: "SharedKeySet \<Rightarrow> JwtPolicy \<Rightarrow> Authenticator" where
  "authenticator_new keys policy = auth_build (auth_builder keys policy)"

definition tenant_of :: "HubClaims Claims \<Rightarrow> AuthError + TenantClaims" where
  "tenant_of claims =
     res_bind (ok_or MissingOrgId (opt_filter (\<lambda>s. s \<noteq> []) (map_option str_trim (hc_org_id (cl_extra claims))))) (\<lambda>org_id.
       Ok \<lparr>tc_org_id = org_id, tc_claims = claims\<rparr>)"

definition hub_authenticate ::
    "HubClaims DpopLib \<Rightarrow> Authenticator \<Rightarrow> RequestHead \<Rightarrow> nat option \<Rightarrow> (AuthError + TenantClaims) \<times> AuthEvent list \<times> Authenticator" where
  "hub_authenticate L auth head clock =
     (case authenticate L auth head clock of
        (Err e, events, auth) \<Rightarrow> (Err (AuthJwt e), events, auth)
      | (Ok claims, events, auth) \<Rightarrow> (tenant_of claims, events, auth))"

definition UNAUTHORIZED_BODY :: bytes where "UNAUTHORIZED_BODY = ''{'' @ quoted ''error'' @ '':'' @ quoted ''invalid_token'' @ ''}''"
definition FORBIDDEN_BODY :: bytes where "FORBIDDEN_BODY = ''{'' @ quoted ''error'' @ '':'' @ quoted ''tenant_scope_required'' @ ''}''"

definition reject_json :: "nat \<Rightarrow> bytes \<Rightarrow> GateOutcome" where
  "reject_json status body = Reject (with_content_type (response_new status body) ''application/json'')"

definition tenant_check :: "HubClaims DpopLib \<Rightarrow> type_id \<Rightarrow> (TenantClaims \<Rightarrow> nat) \<Rightarrow> Authenticator \<Rightarrow> nat option \<Rightarrow> RequestHead \<Rightarrow> RequestExtensions \<Rightarrow>
    GateOutcome \<times> RequestExtensions \<times> AuthEvent list \<times> Authenticator" where
  "tenant_check L tid ident auth clock head ext =
     (case hub_authenticate L auth head clock of
        (Ok tenant, events, auth) \<Rightarrow>
          (case ext_insert ext (Any tid (ident tenant)) of
             (Ok _, ext) \<Rightarrow> (Allow, ext, events, auth)
           | (Err _, ext) \<Rightarrow> (Reject (error_response 500 ''internal_error''), ext, events, auth))
      | (Err MissingOrgId, events, auth) \<Rightarrow> (reject_json 403 FORBIDDEN_BODY, ext, events, auth)
      | (Err (AuthJwt e), events, auth) \<Rightarrow>
          if dpop_mode auth \<noteq> None then (Reject (unauthorized_response auth head e), ext, events, auth)
          else (reject_json 401 UNAUTHORIZED_BODY, ext, events, auth))"

definition tenant_verified :: "type_id \<Rightarrow> RequestHead \<Rightarrow> any_value option" where
  "tenant_verified tid head = ext_get (rh_extensions head) tid"

section \<open>Audit\<close>

datatype AuditCategory = CrossTenantAttempt

record AuditContext =
  ax_org_id :: bytes
  ax_method :: bytes
  ax_path :: bytes
  ax_source :: bytes

definition audit_context_new :: "bytes \<Rightarrow> bytes \<Rightarrow> bytes \<Rightarrow> bytes \<Rightarrow> AuditContext" where
  "audit_context_new org_id method raw_path source =
     \<lparr>ax_org_id = org_id, ax_method = method,
      ax_path = (case split_once CHR ''?'' raw_path of Some (path, _) \<Rightarrow> path | None \<Rightarrow> raw_path), ax_source = source\<rparr>"

record AuditEvent =
  ae_category :: AuditCategory
  ae_occurred_at_unix :: nat
  ae_org_id :: bytes
  ae_method :: bytes
  ae_path :: bytes
  ae_source :: bytes

definition cross_tenant_attempt :: "AuditContext \<Rightarrow> nat \<Rightarrow> AuditEvent" where
  "cross_tenant_attempt ctx occurred_at_unix =
     \<lparr>ae_category = CrossTenantAttempt, ae_occurred_at_unix = occurred_at_unix, ae_org_id = ax_org_id ctx, ae_method = ax_method ctx,
      ae_path = ax_path ctx, ae_source = ax_source ctx\<rparr>"

text \<open>\<^verbatim>\<open>MemoryAuditSink::record\<close>.\<close>

definition sink_record :: "AuditEvent list \<Rightarrow> AuditEvent \<Rightarrow> AuditEvent list" where
  "sink_record events event = events @ [event]"

datatype 'a TenantLookupOutcome = LookupFound 'a | LookupNotFound | LookupCrossTenant

definition lookup_resolve :: "'a TenantLookupOutcome \<Rightarrow> AuditEvent list \<Rightarrow> AuditContext \<Rightarrow> nat \<Rightarrow> 'a option \<times> AuditEvent list" where
  "lookup_resolve outcome sink ctx occurred_at_unix =
     (case outcome of
        LookupFound value \<Rightarrow> (Some value, sink)
      | LookupNotFound \<Rightarrow> (None, sink)
      | LookupCrossTenant \<Rightarrow> (None, sink_record sink (cross_tenant_attempt ctx occurred_at_unix)))"

section \<open>Consents\<close>

type_synonym ConsentKey = "bytes \<times> bytes \<times> bytes"
type_synonym ConsentStore = "(ConsentKey \<times> bool) list"

definition consent_grant :: "ConsentStore \<Rightarrow> bytes \<Rightarrow> bytes \<Rightarrow> bytes \<Rightarrow> ConsentStore" where
  "consent_grant grants org_id service info_type = AList.update (org_id, service, info_type) True grants"

definition consent_revoke :: "ConsentStore \<Rightarrow> bytes \<Rightarrow> bytes \<Rightarrow> bytes \<Rightarrow> ConsentStore" where
  "consent_revoke grants org_id service info_type = AList.update (org_id, service, info_type) False grants"

definition is_granted :: "ConsentStore \<Rightarrow> bytes \<Rightarrow> bytes \<Rightarrow> bytes \<Rightarrow> bool" where
  "is_granted grants org_id service info_type =
     (if org_id = [] then False else case map_of grants (org_id, service, info_type) of Some b \<Rightarrow> b | None \<Rightarrow> False)"

section \<open>The outbox\<close>

record OutboxEvent =
  oe_id :: bytes
  oe_org_id :: bytes
  oe_event_type :: bytes
  oe_payload :: bytes

definition outbox_enqueue :: "OutboxEvent list \<Rightarrow> OutboxEvent \<Rightarrow> OutboxEvent list" where
  "outbox_enqueue events event = events @ [event]"

definition list_for_org :: "OutboxEvent list \<Rightarrow> bytes option \<Rightarrow> OutboxEvent list" where
  "list_for_org events org_id =
     (case opt_filter (\<lambda>i. i \<noteq> []) org_id of
        None \<Rightarrow> []
      | Some org_id \<Rightarrow> filter (\<lambda>event. oe_org_id event = org_id) events)"

section \<open>What a tenant sees\<close>

text \<open>A store of operations that each belong to a tenant: an operation of another tenant changes nothing that a tenant sees.\<close>

locale tenant_store =
  fixes empty :: 's
    and apply_op :: "'s \<Rightarrow> 'op \<Rightarrow> 's"
    and owner :: "'op \<Rightarrow> bytes"
    and view :: "'s \<Rightarrow> bytes \<Rightarrow> 'v"
  assumes other: "owner op \<noteq> org \<Longrightarrow> view (apply_op s op) org = view s org"
    and own: "owner op = org \<Longrightarrow> view s org = view s' org \<Longrightarrow> view (apply_op s op) org = view (apply_op s' op) org"
begin

definition run :: "'op list \<Rightarrow> 's" where
  "run ops = foldl apply_op empty ops"

lemma run_snoc: "run (ops @ [op]) = apply_op (run ops) op"
  by (simp add: run_def)

lemma view_own: "view (run ops) org = view (run (filter (\<lambda>op. owner op = org) ops)) org"
proof (induction ops rule: rev_induct)
  case Nil
  show ?case by simp
next
  case (snoc op ops)
  show ?case
  proof (cases "owner op = org")
    case True
    then show ?thesis using own [OF True snoc] by (simp add: run_snoc)
  next
    case False
    then show ?thesis using snoc by (simp add: run_snoc other)
  qed
qed

end

datatype ConsentOp = Grant ConsentKey | Revoke ConsentKey

fun consent_key :: "ConsentOp \<Rightarrow> ConsentKey" where
  "consent_key (Grant k) = k"
| "consent_key (Revoke k) = k"

fun consent_op :: "ConsentStore \<Rightarrow> ConsentOp \<Rightarrow> ConsentStore" where
  "consent_op grants (Grant (org_id, service, info_type)) = consent_grant grants org_id service info_type"
| "consent_op grants (Revoke (org_id, service, info_type)) = consent_revoke grants org_id service info_type"

lemma consent_op_update: "consent_op grants op = AList.update (consent_key op) (op = Grant (consent_key op)) grants"
  by (cases op rule: consent_key.cases; cases "consent_key op") (auto simp: consent_grant_def consent_revoke_def)

interpretation consents: tenant_store "[]" consent_op "\<lambda>op. fst (consent_key op)" "\<lambda>grants org (service, info_type). is_granted grants org service info_type"
proof
  fix op org s
  assume "fst (consent_key op) \<noteq> org"
  then show "(\<lambda>(service, info_type). is_granted (consent_op s op) org service info_type) = (\<lambda>(service, info_type). is_granted s org service info_type)"
    by (cases "consent_key op") (auto simp: fun_eq_iff is_granted_def consent_op_update update_conv')
next
  fix op org s s'
  assume "fst (consent_key op) = org"
    and eq: "(\<lambda>(service, info_type). is_granted s org service info_type) = (\<lambda>(service, info_type). is_granted s' org service info_type)"
  have "is_granted s org service info_type = is_granted s' org service info_type" for service info_type
    using fun_cong [OF eq, of "(service, info_type)"] by simp
  then show "(\<lambda>(service, info_type). is_granted (consent_op s op) org service info_type) =
      (\<lambda>(service, info_type). is_granted (consent_op s' op) org service info_type)"
    by (auto simp: fun_eq_iff is_granted_def consent_op_update update_conv')
qed

interpretation outbox: tenant_store "[]" outbox_enqueue oe_org_id "\<lambda>events org. list_for_org events (Some org)"
  by unfold_locales (auto simp: list_for_org_def outbox_enqueue_def opt_filter_def)

text \<open>The last operation on a consent decides.\<close>

lemma consent_last:
  "map_of (foldl consent_op [] ops) k = Some True \<longleftrightarrow> (\<exists>before after. ops = before @ Grant k # after \<and> k \<notin> consent_key ` set after)"
proof (induction ops rule: rev_induct)
  case Nil
  show ?case by simp
next
  case (snoc op ops)
  have step: "map_of (foldl consent_op [] (ops @ [op])) k = (if consent_key op = k then Some (op = Grant k) else map_of (foldl consent_op [] ops) k)"
    by (simp add: consent_op_update update_conv')
  show ?case
  proof (cases "consent_key op = k")
    case True
    have "op = Grant k \<longleftrightarrow> (\<exists>before after. ops @ [op] = before @ Grant k # after \<and> k \<notin> consent_key ` set after)"
    proof
      assume "op = Grant k"
      then show "\<exists>before after. ops @ [op] = before @ Grant k # after \<and> k \<notin> consent_key ` set after" by force
    next
      assume "\<exists>before after. ops @ [op] = before @ Grant k # after \<and> k \<notin> consent_key ` set after"
      then obtain before after where "ops @ [op] = before @ Grant k # after" "k \<notin> consent_key ` set after" by blast
      then show "op = Grant k" using True by (cases after rule: rev_cases) auto
    qed
    then show ?thesis unfolding step using True by simp
  next
    case False
    have "(\<exists>before after. ops @ [op] = before @ Grant k # after \<and> k \<notin> consent_key ` set after) \<longleftrightarrow>
        (\<exists>before after. ops = before @ Grant k # after \<and> k \<notin> consent_key ` set after)" (is "?l \<longleftrightarrow> ?r")
    proof
      assume ?l
      then obtain before after where split: "ops @ [op] = before @ Grant k # after" "k \<notin> consent_key ` set after" by blast
      then obtain after' where "after = after' @ [op]" using False by (cases after rule: rev_cases) auto
      then show ?r using split by auto
    next
      assume ?r
      then obtain before after where split: "ops = before @ Grant k # after" "k \<notin> consent_key ` set after" by blast
      then show ?l using False by (intro exI [of _ before] exI [of _ "after @ [op]"]) auto
    qed
    then show ?thesis unfolding step using False snoc by simp
  qed
qed

text \<open>Tenants are separated. After any operations of any tenants, a service has the consent of a tenant exactly when the last operation on that
  consent granted it, and an empty tenant has none; the outbox gives a tenant exactly its own events, in order, and an absent or empty tenant
  nothing; in particular both depend only on what was done for that tenant.\<close>

theorem tenant_stores_exact:
  "(is_granted (foldl consent_op [] ops) org service info_type \<longleftrightarrow>
      org \<noteq> [] \<and> (\<exists>before after. ops = before @ Grant (org, service, info_type) # after \<and> (org, service, info_type) \<notin> consent_key ` set after)) \<and>
   is_granted (foldl consent_op [] ops) org service info_type =
      is_granted (foldl consent_op [] (filter (\<lambda>op. fst (consent_key op) = org) ops)) org service info_type \<and>
   list_for_org (foldl outbox_enqueue [] events) (Some org) = (if org = [] then [] else filter (\<lambda>e. oe_org_id e = org) events) \<and>
   list_for_org (foldl outbox_enqueue [] events) None = []"
proof (intro conjI)
  have granted: "is_granted grants org service info_type \<longleftrightarrow> org \<noteq> [] \<and> map_of grants (org, service, info_type) = Some True" for grants
    by (auto simp: is_granted_def split: option.splits)
  show "is_granted (foldl consent_op [] ops) org service info_type \<longleftrightarrow>
      org \<noteq> [] \<and> (\<exists>before after. ops = before @ Grant (org, service, info_type) # after \<and> (org, service, info_type) \<notin> consent_key ` set after)"
    unfolding granted consent_last ..
  show "is_granted (foldl consent_op [] ops) org service info_type =
      is_granted (foldl consent_op [] (filter (\<lambda>op. fst (consent_key op) = org) ops)) org service info_type"
    using fun_cong [OF consents.view_own [of ops org], of "(service, info_type)"] by (simp add: consents.run_def)
  have all: "foldl outbox_enqueue acc events = acc @ events" for acc
    by (induction events arbitrary: acc) (simp_all add: outbox_enqueue_def)
  show "list_for_org (foldl outbox_enqueue [] events) (Some org) = (if org = [] then [] else filter (\<lambda>e. oe_org_id e = org) events)"
    "list_for_org (foldl outbox_enqueue [] events) None = []"
    by (simp_all add: all list_for_org_def opt_filter_def)
qed

section \<open>The tenant gate\<close>

text \<open>C40. The tenant gate. A request passes exactly when the authenticator accepts it with an organisation that is not blank and no tenant was attached
  before; then the handler finds that tenant, with the organisation of the signed claims without surrounding white space. Everything else is
  refused without attaching anything: 403 for a good token without organisation, 401 for a token or proof that is not accepted, with a
  challenge where proofs are configured, and 500 for a second admission.\<close>

theorem tenant_gate_decision:
  assumes "auth = auth_run L (auth_build b) ops" and "ext_inv ext"
    and "tenant_check L tid ident auth clock head ext = (outcome, ext', events, auth')"
  shows "case fst (authenticate L auth head clock) of
      Err e \<Rightarrow> ext' = ext \<and> (\<exists>r. outcome = Reject r \<and> r_status r = 401 \<and> (jb_dpop b \<noteq> None \<longrightarrow> is_challenge_response r))
    | Ok claims \<Rightarrow>
        (case map_option str_trim (hc_org_id (cl_extra claims)) of
           Some (c # cs) \<Rightarrow>
             if ext_contains ext tid then outcome = Reject (error_response 500 ''internal_error'') \<and> ext' = ext
             else outcome = Allow \<and> ext_get ext' tid = Some (Any tid (ident \<lparr>tc_org_id = c # cs, tc_claims = claims\<rparr>))
         | _ \<Rightarrow> outcome = reject_json 403 FORBIDDEN_BODY \<and> ext' = ext)"
proof (cases "authenticate L auth head clock")
  case (fields r events' auth'')
  have run: "auth'' = auth_run L (auth_build b) (ops @ [RequestAt head (unix_now clock)])"
    using fields assms(1) by (simp add: auth_run_append authenticate_def)
  show ?thesis
  proof (cases r)
    case (Inl e)
    have "jb_dpop b \<noteq> None \<Longrightarrow> dpop_mode auth'' \<noteq> None"
      using dpop_inv_run [OF dpop_inv_build] unfolding run by (fastforce simp: dpop_inv_def dpop_mode_def)
    then show ?thesis
      using fields Inl assms(3) unauthorized_response_challenge [OF run, of head e]
      by (auto simp: tenant_check_def hub_authenticate_def reject_json_def with_content_type_def response_new_def is_challenge_response_def
          split: if_splits)
  next
    case (Inr claims)
    have tenant: "hub_authenticate L auth head clock = (tenant_of claims, events', auth'')" using fields Inr by (simp add: hub_authenticate_def)
    show ?thesis
    proof (cases "map_option str_trim (hc_org_id (cl_extra claims))")
      case None
      then show ?thesis using tenant fields Inr assms(3) by (simp add: tenant_check_def tenant_of_def opt_filter_def)
    next
      case (Some org)
      then show ?thesis
        using tenant fields Inr assms(2,3) ext_get_insert [of ext "Any tid (ident \<lparr>tc_org_id = org, tc_claims = claims\<rparr>)" tid]
        by (cases org; cases "ext_contains ext tid")
          (auto simp: tenant_check_def tenant_of_def opt_filter_def ext_contains_iff ext_insert_def ext_contains_def [symmetric] Let_def)
    qed
  qed
qed

theorem tenant_gate_decision_witness:
  "fst (tenant_check (sample_lib_with \<lparr>hc_org_id = Some '' acme ''\<rparr>) 7 (\<lambda>t. length (tc_org_id t)) (auth_build sample_builder) (Some 110) sample_request extensions_new) = Allow \<and>
   fst (tenant_check (sample_lib_with \<lparr>hc_org_id = Some ''  ''\<rparr>) 7 (\<lambda>t. length (tc_org_id t)) (auth_build sample_builder) (Some 110) sample_request extensions_new) =
     reject_json 403 FORBIDDEN_BODY"
proof -
  have outcome: "case authenticate (sample_lib_with \<lparr>hc_org_id = Some org\<rparr>) (auth_build sample_builder) sample_request (Some 110) of (r, _) \<Rightarrow>
      is_ok r \<and> hc_org_id (cl_extra (projr r)) = Some org \<longrightarrow>
      fst (tenant_check (sample_lib_with \<lparr>hc_org_id = Some org\<rparr>) 7 (\<lambda>t. length (tc_org_id t)) (auth_build sample_builder) (Some 110) sample_request extensions_new) =
        (if str_trim org = [] then reject_json 403 FORBIDDEN_BODY else Allow)" for org
  proof (cases "tenant_check (sample_lib_with \<lparr>hc_org_id = Some org\<rparr>) 7 (\<lambda>t. length (tc_org_id t)) (auth_build sample_builder) (Some 110) sample_request extensions_new")
    case (fields outcome ext' events auth')
    then show ?thesis
      using tenant_gate_decision [of "auth_build sample_builder" "sample_lib_with \<lparr>hc_org_id = Some org\<rparr>" sample_builder "[]" extensions_new, OF _ _ fields]
      by (cases "str_trim org") (auto simp: ext_contains_iff is_ok_def split: sum.splits prod.splits)
  qed
  have "case authenticate (sample_lib_with \<lparr>hc_org_id = Some '' acme ''\<rparr>) (auth_build sample_builder) sample_request (Some 110) of (r, _) \<Rightarrow>
      is_ok r \<and> hc_org_id (cl_extra (projr r)) = Some '' acme ''" "str_trim '' acme '' \<noteq> []"
    "case authenticate (sample_lib_with \<lparr>hc_org_id = Some ''  ''\<rparr>) (auth_build sample_builder) sample_request (Some 110) of (r, _) \<Rightarrow>
      is_ok r \<and> hc_org_id (cl_extra (projr r)) = Some ''  ''" "str_trim ''  '' = []"
    by code_simp+
  then show ?thesis using outcome [of "'' acme ''"] outcome [of "''  ''"] by (simp split: prod.splits)
qed

end
