(* ===== verification/Jwt_Server.thy ===== *)
theory Jwt_Server
  imports Server_Spec Hub_Wiring
begin

text \<open>
  The JWT gate and the tenant gate registered at a server (\<^verbatim>\<open>Server::gate\<close>). The authenticator is shared by all connections, so its
  state when a gate is asked is a function of the moment of the call, as is the clock. Whatever the other gates, plugins and
  handlers are, nothing but the refusal happens for a request that is not authenticated.
\<close>

definition jwt_gate :: "'x DpopLib \<Rightarrow> type_id \<Rightarrow> ('x Claims \<Rightarrow> nat) \<Rightarrow> (tick \<Rightarrow> 'x Inner) \<Rightarrow> (tick \<Rightarrow> nat option) \<Rightarrow> 'a RequestGate" where
  "jwt_gate L tid ident auth clock =
     \<lparr>gate_name = ''jwt-gate'',
      gate_check = (\<lambda>t head ctx ext. case jwt_check L tid ident (auth t) (clock t) head ext of (outcome, ext, _, _) \<Rightarrow> (outcome, ext))\<rparr>"

definition tenant_gate :: "HubClaims DpopLib \<Rightarrow> type_id \<Rightarrow> (TenantClaims \<Rightarrow> nat) \<Rightarrow> (tick \<Rightarrow> Authenticator) \<Rightarrow> (tick \<Rightarrow> nat option) \<Rightarrow> 'a RequestGate" where
  "tenant_gate L tid ident auth clock =
     \<lparr>gate_name = ''hub-tenant-gate'',
      gate_check = (\<lambda>t head ctx ext. case tenant_check L tid ident (auth t) (clock t) head ext of (outcome, ext, _, _) \<Rightarrow> (outcome, ext))\<rparr>"

text \<open>The states an authenticator can be in: its cache is the result of concurrent requests for the tokens in \<open>T\<close> and of changes of the keys.\<close>

definition auth_reachable :: "'x DpopLib \<Rightarrow> bytes set \<Rightarrow> 'x Inner \<Rightarrow> bool" where
  "auth_reachable L T inner \<longleftrightarrow> (\<exists>pend. cache_reachable L (in_policy inner) T (in_keys inner) (in_cache inner) pend)"

lemma jwt_check_allow:
  assumes "jwt_check L tid ident inner clock head ext = (Allow, ext', events, inner')"
  obtains c where "fst (authenticate_at L inner head (unix_now clock)) = Ok c"
  using assms by (auto simp: jwt_check_def authenticate_def split: prod.splits sum.splits)

lemma tenant_check_allow:
  assumes "tenant_check L tid ident auth clock head ext = (Allow, ext', events, auth')"
  obtains c where "fst (authenticate_at L auth head (unix_now clock)) = Ok c" "is_ok (tenant_of c)"
  using assms
  by (auto simp: tenant_check_def hub_authenticate_def authenticate_def reject_json_def split: prod.splits sum.splits AuthError.splits if_splits)

text \<open>A segment with an event of a handler, a plugin, an interceptor or an upgrade belongs to a request that every gate allowed.\<close>

lemma privileged_segment:
  assumes "request_segment srv ctx n seg" "e \<in> set seg" "privileged e" "k < length (gates srv)"
  obtains request ext ext' where "RequestRead request \<in> set seg" "gate_check (gates srv ! k) [n, 3, k] (req_head request) ctx ext = (Allow, ext')"
proof -
  obtain request rej ext gs rest where s: "seg = arrival srv request @ gs @ rest"
      "first_rejection [n, 3] 0 (gates srv) (req_head request) ctx extensions_new = (rej, ext, gs)"
      "case rej of Some r \<Rightarrow> (\<forall>e\<in>set rest. is_write e) \<and> (\<exists>ka k. sent_of rest = take k (serialize r ka))
        | None \<Rightarrow> allowed_by_all srv ctx n (req_head request)"
    using assms(1) unfolding request_segment_def by blast
  have "e \<notin> set gs" using first_rejection_events [OF s(2)] assms(3) by fastforce
  then have "rej = None" using assms(2,3) s by (cases rej) (auto simp: arrival_def is_write_def is_sent_def)
  then have "allowed_by_all srv ctx n (req_head request)" using s(3) by simp
  then show ?thesis using assms(4) that s(1) by (auto simp: allowed_by_all_def arrival_def)
qed

text \<open>What a connection shows of a request that reached application code.\<close>

definition authenticated_segments :: "Event list \<Rightarrow> (nat \<Rightarrow> RequestHead \<Rightarrow> bool) \<Rightarrow> bool" where
  "authenticated_segments trace authorized \<longleftrightarrow>
     (\<exists>segs tail. trace = concat segs @ tail \<and> (tail = [] \<or> error_tail tail) \<and>
        (\<forall>i<length segs. \<forall>e\<in>set (segs ! i). privileged e \<longrightarrow>
           (\<exists>request. RequestRead request \<in> set (segs ! i) \<and> authorized (Suc i) (req_head request))))"

lemma guarded_connection:
  assumes "handle_connection_with_permit mm rd E srv s permit peer = Some (st, s')" "k < length (gates srv)"
    and "\<And>n request ext ext'. RequestRead request \<in> set (c_trace st) \<Longrightarrow>
      gate_check (gates srv ! k) [n, 3, k] (req_head request) (gate_context_new peer) ext = (Allow, ext') \<Longrightarrow> authorized n (req_head request)"
  shows "authenticated_segments (c_trace st) authorized"
proof -
  obtain segs tail where segs: "c_trace st = concat segs @ tail" "tail = [] \<or> error_tail tail"
      "\<forall>i<length segs. request_segment srv (gate_context_new peer) (Suc i) (segs ! i)"
    using connection_segments [OF assms(1), of "request_segment srv (gate_context_new peer)" "\<lambda>_ _. True"] handle_request_segment by blast
  have "\<exists>request. RequestRead request \<in> set (segs ! i) \<and> authorized (Suc i) (req_head request)"
    if i: "i < length segs" "e \<in> set (segs ! i)" "privileged e" for i e
  proof (rule privileged_segment [OF segs(3) [rule_format, OF i(1)] i(2,3) assms(2)])
    fix request ext ext'
    assume allow: "RequestRead request \<in> set (segs ! i)"
      "gate_check (gates srv ! k) [Suc i, 3, k] (req_head request) (gate_context_new peer) ext = (Allow, ext')"
    have "RequestRead request \<in> set (c_trace st)" using allow(1) i(1) segs(1) nth_mem [of i segs] by auto
    then show ?thesis using assms(3) allow by blast
  qed
  then show ?thesis unfolding authenticated_segments_def using segs(1,2) by blast
qed


text \<open>With the tenant gate, moreover, the signed claims name an organisation.\<close>

lemma tenant_server_authenticated:
  assumes "handle_connection_with_permit mm rd E srv s permit peer = Some (st, s')"
    and "k < length (gates srv)" and "gates srv ! k = tenant_gate L tid ident auth clock"
    and "\<forall>t. auth_reachable L T (auth t)" and "inj_on (jl_sha256 L) T"
    and "\<forall>request scheme token. RequestRead request \<in> set (c_trace st) \<longrightarrow> credentials (req_head request) = Some (scheme, token) \<longrightarrow> token \<in> T"
  shows "authenticated_segments (c_trace st)
    (\<lambda>n head. \<exists>c. request_authorized L (auth [n, 3, k]) head (unix_now (clock [n, 3, k])) c \<and> is_ok (tenant_of c))"
proof (rule guarded_connection [OF assms(1,2)])
  fix n and request :: Request and ext ext'
  let ?head = "req_head request"
  assume read: "RequestRead request \<in> set (c_trace st)"
    and "gate_check (gates srv ! k) [n, 3, k] ?head (gate_context_new peer) ext = (Allow, ext')"
  then obtain events inner' where "tenant_check L tid ident (auth [n, 3, k]) (clock [n, 3, k]) ?head ext = (Allow, ext', events, inner')"
    unfolding assms(3) by (auto simp: tenant_gate_def split: prod.splits)
  then obtain c where "fst (authenticate_at L (auth [n, 3, k]) ?head (unix_now (clock [n, 3, k]))) = Ok c" "is_ok (tenant_of c)"
    by (rule tenant_check_allow)
  then show "\<exists>c. request_authorized L (auth [n, 3, k]) ?head (unix_now (clock [n, 3, k])) c \<and> is_ok (tenant_of c)"
    using assms(4-6) read authenticated_iff unfolding auth_reachable_def by metis
qed

text \<open>The sample server with the gate of the sample authenticator; here texts are their own hashes.\<close>

definition guarded_lib :: "unit DpopLib" where
  "guarded_lib = sample_lib\<lparr>jl_sha256 := (\<lambda>s. s)\<rparr>"

definition guarded_server :: "unit Server" where
  "guarded_server = sample_server\<lparr>gates := [jwt_gate guarded_lib 7 (\<lambda>c. cl_exp c) (\<lambda>t. auth_build sample_builder) (\<lambda>t. Some 110)]\<rparr>"


end
