(* ===== verification/Jwt_Refresh.thy ===== *)
theory Jwt_Refresh
  imports Jwt_Cache "HOL-Library.Code_Target_Nat"
begin

text \<open>
  \<^verbatim>\<open>crates/plugin-jwt/src/refresh.rs\<close> and \<^verbatim>\<open>refresh/task.rs\<close>: the background task that fetches the key set. The task is a state machine
  that advances by one evaluation of a polling closure at a time, each with a reading of the clock and an answer of
  the fetcher, which is application code; triggers and the shutdown come in between. What the task does to the outside, the calls of the
  fetcher and of the observer, is its trace. Durations and instants are numbers of nanoseconds. Reading a key set from a document is a parameter here,
  instantiated by the reader of \<^verbatim>\<open>jwks.rs\<close>.
\<close>

section \<open>Configuration\<close>

definition DEFAULT_REFRESH_MIN_INTERVAL :: nat where "DEFAULT_REFRESH_MIN_INTERVAL = from_secs 10"
definition DEFAULT_FETCH_TIMEOUT :: nat where "DEFAULT_FETCH_TIMEOUT = from_secs 5"
definition MAX_REFRESH_PERIOD :: nat where "MAX_REFRESH_PERIOD = from_secs (24 * 60 * 60)"
definition MAX_REFRESH_MIN_INTERVAL :: nat where "MAX_REFRESH_MIN_INTERVAL = from_secs (60 * 60)"
definition MAX_FETCH_TIMEOUT :: nat where "MAX_FETCH_TIMEOUT = from_secs 60"
definition MAX_STALE_LIMIT :: nat where "MAX_STALE_LIMIT = from_secs (30 * 24 * 60 * 60)"

datatype RefreshConfigError =
    ZeroPeriod | PeriodTooLarge | ZeroMinInterval | MinIntervalTooLarge | ZeroFetchTimeout | FetchTimeoutTooLarge | ZeroMaxStale
  | MaxStaleTooLarge | MinIntervalExceedsPeriod | FetchTimeoutExceedsMinInterval | MaxStaleTooShort

record RefreshConfig =
  rc_period :: nat
  rc_min_interval :: nat
  rc_fetch_timeout :: nat
  rc_max_stale :: "nat option"

definition refresh_builder :: "nat \<Rightarrow> RefreshConfig" where
  "refresh_builder period =
     \<lparr>rc_period = period, rc_min_interval = DEFAULT_REFRESH_MIN_INTERVAL, rc_fetch_timeout = DEFAULT_FETCH_TIMEOUT, rc_max_stale = None\<rparr>"

definition refresh_range :: "nat \<Rightarrow> nat \<Rightarrow> RefreshConfigError \<Rightarrow> RefreshConfigError \<Rightarrow> RefreshConfigError + unit" where
  "refresh_range v bound zero large = (if v = 0 then Err zero else if v > bound then Err large else Ok ())"

text \<open>\<^verbatim>\<open>Duration::checked_add\<close> fails beyond the largest duration, \<^verbatim>\<open>u64::MAX\<close> seconds and 999999999 nanoseconds.\<close>

definition duration_checked_add :: "nat \<Rightarrow> nat \<Rightarrow> nat option" where
  "duration_checked_add a b = (if a + b < (U64_MAX + 1) * NANOS_PER_SEC then Some (a + b) else None)"

definition refresh_build :: "RefreshConfig \<Rightarrow> RefreshConfigError + RefreshConfig" where
  "refresh_build b =
     res_bind (refresh_range (rc_period b) MAX_REFRESH_PERIOD ZeroPeriod PeriodTooLarge) (\<lambda>_.
     res_bind (refresh_range (rc_min_interval b) MAX_REFRESH_MIN_INTERVAL ZeroMinInterval MinIntervalTooLarge) (\<lambda>_.
     res_bind (refresh_range (rc_fetch_timeout b) MAX_FETCH_TIMEOUT ZeroFetchTimeout FetchTimeoutTooLarge) (\<lambda>_.
     res_bind (case rc_max_stale b of Some s \<Rightarrow> refresh_range s MAX_STALE_LIMIT ZeroMaxStale MaxStaleTooLarge | None \<Rightarrow> Ok ()) (\<lambda>_.
       if rc_min_interval b > rc_period b then Err MinIntervalExceedsPeriod
       else if rc_fetch_timeout b > rc_min_interval b then Err FetchTimeoutExceedsMinInterval
       else
         case rc_max_stale b of
           None \<Rightarrow> Ok b
         | Some s \<Rightarrow>
             res_bind (ok_or MaxStaleTooShort (duration_checked_add (rc_period b) (rc_fetch_timeout b))) (\<lambda>need.
               if s < need then Err MaxStaleTooShort else Ok b)))))"

section \<open>The state of the task\<close>

datatype FetchError = FetchTransport | FetchStatus | FetchTooLarge | FetchOther

record JwksResponse =
  jr_body :: bytes
  jr_max_age :: "nat option"

datatype RefreshFailure = FetchFailed FetchError | FetchTimeout | ParseFailed JwksError | FetchPanicked

datatype RefreshEvent = Updated nat nat | Failed RefreshFailure | Cleared

record RefreshStatus =
  st_last_success :: "nat option"
  st_consecutive_failures :: nat
  st_cleared :: bool
  st_stopped :: bool

text \<open>The flag that stops the task, the permit of the trigger (\<^verbatim>\<open>Notify\<close> keeps at most one) and the status. The
  second signal for a stop is given only after the flag is set, so the flag alone decides.\<close>

record RefreshShared =
  sh_stopped :: bool
  sh_wake :: bool
  sh_status :: RefreshStatus

datatype RefreshPhase = NotStarted | Waiting | Fetching (fetch_start: nat) (fetch_deadline: nat) | Finished

datatype RefreshOut = FetchCalled nat | Observed RefreshEvent

record RefreshTask =
  rt_shared :: RefreshShared
  rt_keys :: SharedKeySet
  rt_phase :: RefreshPhase
  rt_next_due :: nat
  rt_next_allowed :: nat
  rt_stale_deadline :: "nat option"
  rt_trace :: "RefreshOut list"

definition refresh_status_default :: RefreshStatus where
  "refresh_status_default = \<lparr>st_last_success = None, st_consecutive_failures = 0, st_cleared = False, st_stopped = False\<rparr>"

definition refresher_new :: "SharedKeySet \<Rightarrow> RefreshTask" where
  "refresher_new keys =
     \<lparr>rt_shared = \<lparr>sh_stopped = False, sh_wake = False, sh_status = refresh_status_default\<rparr>, rt_keys = keys, rt_phase = NotStarted,
      rt_next_due = 0, rt_next_allowed = 0, rt_stale_deadline = None, rt_trace = []\<rparr>"

definition shared_update :: "RefreshTask \<Rightarrow> (RefreshStatus \<Rightarrow> RefreshStatus) \<Rightarrow> RefreshTask" where
  "shared_update t f = t\<lparr>rt_shared := (rt_shared t)\<lparr>sh_status := f (sh_status (rt_shared t))\<rparr>\<rparr>"

definition mark_stopped :: "RefreshTask \<Rightarrow> RefreshTask" where
  "mark_stopped t = shared_update (t\<lparr>rt_shared := (rt_shared t)\<lparr>sh_stopped := True\<rparr>\<rparr>) (\<lambda>s. s\<lparr>st_stopped := True\<rparr>)"

definition trigger_fire :: "RefreshTask \<Rightarrow> RefreshTask" where
  "trigger_fire t = (if sh_stopped (rt_shared t) then t else t\<lparr>rt_shared := (rt_shared t)\<lparr>sh_wake := True\<rparr>\<rparr>)"

definition handle_shutdown :: "RefreshTask \<Rightarrow> RefreshTask" where
  "handle_shutdown t = mark_stopped t"

definition emit :: "RefreshOut \<Rightarrow> RefreshTask \<Rightarrow> RefreshTask" where
  "emit ev t = t\<lparr>rt_trace := rt_trace t @ [ev]\<rparr>"

definition clear_keys :: "RefreshTask \<Rightarrow> RefreshTask" where
  "clear_keys t =
     emit (Observed Cleared) (shared_update (t\<lparr>rt_keys := shared_set (rt_keys t) keyset_empty\<rparr>) (\<lambda>s. s\<lparr>st_cleared := True\<rparr>))"

section \<open>One poll\<close>

text \<open>The answer of the future of the fetcher, with a panic caught (\<^verbatim>\<open>Guarded\<close>).\<close>

datatype FetchPoll = FetchPending | FetchReady "FetchError + JwksResponse" | FetchPanic

record PollInput =
  pi_time :: nat
  pi_call_panics :: bool
  pi_fetch :: FetchPoll

type_synonym read_keys = "bytes \<Rightarrow> JwksError + KeySet"

definition past :: "nat option \<Rightarrow> nat \<Rightarrow> bool" where
  "past deadline t \<longleftrightarrow> (case deadline of Some d \<Rightarrow> d \<le> t | None \<Rightarrow> False)"

datatype Wait = WaitStop | WaitStale | WaitDue | WaitSignal

definition wait_phase :: "RefreshShared \<Rightarrow> nat option \<Rightarrow> nat \<Rightarrow> nat \<Rightarrow> Wait option" where
  "wait_phase sh stale due t =
     (if sh_stopped sh then Some WaitStop
      else if past stale t then Some WaitStale
      else if due \<le> t then Some WaitDue
      else if sh_wake sh then Some WaitSignal
      else None)"

text \<open>What follows a fetch that began at \<open>fetch_start\<close>.\<close>

definition finish_fetch :: "read_keys \<Rightarrow> RefreshConfig \<Rightarrow> nat \<Rightarrow> RefreshFailure + JwksResponse \<Rightarrow> RefreshTask \<Rightarrow> RefreshTask" where
  "finish_fetch from_json cfg start outcome t =
     (let floor = rc_min_interval cfg;
          parsed = res_bind outcome (\<lambda>resp. map_err ParseFailed (res_bind (from_json (jr_body resp)) (\<lambda>ks. Ok (ks, jr_max_age resp))))
      in case parsed of
           Ok (ks, max_age) \<Rightarrow>
             let ev = Updated (length (ks_keys ks)) (ks_skipped ks);
                 t = t\<lparr>rt_keys := shared_set (rt_keys t) ks, rt_stale_deadline := map_option (\<lambda>s. start + s) (rc_max_stale cfg)\<rparr>;
                 t = shared_update t (\<lambda>s. s\<lparr>st_consecutive_failures := 0, st_cleared := False, st_last_success := Some start\<rparr>);
                 wait = max (min (rc_period cfg) (case max_age of Some a \<Rightarrow> a | None \<Rightarrow> rc_period cfg)) floor
             in emit (Observed ev) (t\<lparr>rt_next_due := start + wait, rt_phase := Waiting\<rparr>)
         | Err f \<Rightarrow>
             let t = shared_update t (\<lambda>s. s\<lparr>st_consecutive_failures := min (st_consecutive_failures s + 1) 4294967295\<rparr>)
             in emit (Observed (Failed f)) (t\<lparr>rt_next_due := start + floor, rt_phase := Waiting\<rparr>))"

definition poll_waiting :: "read_keys \<Rightarrow> RefreshConfig \<Rightarrow> PollInput \<Rightarrow> RefreshTask \<Rightarrow> RefreshTask" where
  "poll_waiting from_json cfg i t =
     (case wait_phase (rt_shared t) (rt_stale_deadline t) (max (rt_next_due t) (rt_next_allowed t)) (pi_time i) of
        Some WaitStop \<Rightarrow> (mark_stopped t)\<lparr>rt_phase := Finished\<rparr>
      | Some WaitStale \<Rightarrow> clear_keys (t\<lparr>rt_stale_deadline := None\<rparr>)
      | Some WaitSignal \<Rightarrow> t\<lparr>rt_shared := (rt_shared t)\<lparr>sh_wake := False\<rparr>, rt_next_due := min (rt_next_due t) (pi_time i)\<rparr>
      | Some WaitDue \<Rightarrow>
          let start = pi_time i;
              t = emit (FetchCalled start) (t\<lparr>rt_next_allowed := start + rc_min_interval cfg\<rparr>)
          in if pi_call_panics i then finish_fetch from_json cfg start (Err FetchPanicked) t
             else t\<lparr>rt_phase := Fetching start (start + rc_fetch_timeout cfg)\<rparr>
      | None \<Rightarrow> t)"

text \<open>The timeout polls the fetch before it looks at its own deadline.\<close>

definition poll_fetching :: "read_keys \<Rightarrow> RefreshConfig \<Rightarrow> PollInput \<Rightarrow> nat \<Rightarrow> nat \<Rightarrow> RefreshTask \<Rightarrow> RefreshTask" where
  "poll_fetching from_json cfg i start deadline t =
     (if sh_stopped (rt_shared t) then (mark_stopped t)\<lparr>rt_phase := Finished\<rparr>
      else case pi_fetch i of
        FetchReady (Ok resp) \<Rightarrow> finish_fetch from_json cfg start (Ok resp) t
      | FetchReady (Err e) \<Rightarrow> finish_fetch from_json cfg start (Err (FetchFailed e)) t
      | FetchPanic \<Rightarrow> finish_fetch from_json cfg start (Err FetchPanicked) t
      | FetchPending \<Rightarrow>
          if deadline \<le> pi_time i then finish_fetch from_json cfg start (Err FetchTimeout) t
          else if past (rt_stale_deadline t) (pi_time i) then clear_keys (t\<lparr>rt_stale_deadline := None\<rparr>)
          else t)"

definition refresh_poll :: "read_keys \<Rightarrow> RefreshConfig \<Rightarrow> PollInput \<Rightarrow> RefreshTask \<Rightarrow> RefreshTask" where
  "refresh_poll from_json cfg i t =
     (case rt_phase t of
        NotStarted \<Rightarrow>
          if sh_stopped (rt_shared t) then (mark_stopped t)\<lparr>rt_phase := Finished\<rparr>
          else
            let start = pi_time i
            in t\<lparr>rt_phase := Waiting, rt_next_due := start, rt_next_allowed := start,
                 rt_stale_deadline := map_option (\<lambda>s. start + s) (rc_max_stale cfg)\<rparr>
      | Waiting \<Rightarrow> poll_waiting from_json cfg i t
      | Fetching start deadline \<Rightarrow> poll_fetching from_json cfg i start deadline t
      | Finished \<Rightarrow> t)"

datatype RefreshOp = Polled PollInput | Fired | ShutDown

fun refresh_op :: "read_keys \<Rightarrow> RefreshConfig \<Rightarrow> RefreshTask \<Rightarrow> RefreshOp \<Rightarrow> RefreshTask" where
  "refresh_op from_json cfg t (Polled i) = refresh_poll from_json cfg i t"
| "refresh_op from_json cfg t Fired = trigger_fire t"
| "refresh_op from_json cfg t ShutDown = handle_shutdown t"

definition refresh_run :: "read_keys \<Rightarrow> RefreshConfig \<Rightarrow> SharedKeySet \<Rightarrow> RefreshOp list \<Rightarrow> RefreshTask" where
  "refresh_run from_json cfg keys ops = foldl (refresh_op from_json cfg) (refresher_new keys) ops"

text \<open>A run: the first fetch gives a key set, a trigger asks for another one too early, and the next call comes when it is allowed.\<close>

definition sample_refresh :: RefreshConfig where
  "sample_refresh = (refresh_builder (from_secs 60))\<lparr>rc_max_stale := Some (from_secs 70)\<rparr>"

definition poll_at :: "nat \<Rightarrow> FetchPoll \<Rightarrow> RefreshOp" where
  "poll_at secs answer = Polled \<lparr>pi_time = from_secs secs, pi_call_panics = False, pi_fetch = answer\<rparr>"

definition sample_read :: read_keys where
  "sample_read body = Ok \<lparr>ks_keys = [\<lparr>jwk_kid = body, jwk_alg = Es256, jwk_material = EcP256 []\<rparr>], ks_skipped = 0\<rparr>"

definition sample_ops :: "RefreshOp list" where
  "sample_ops = [poll_at 1 FetchPending, poll_at 1 FetchPending, poll_at 2 (FetchReady (Ok \<lparr>jr_body = ''a'', jr_max_age = None\<rparr>)), Fired,
     poll_at 3 FetchPending, poll_at 10 FetchPending, poll_at 11 FetchPending, poll_at 12 (FetchReady (Err FetchTransport))]"

definition sample_task :: RefreshTask where
  "sample_task = refresh_run sample_read sample_refresh (shared_new keyset_empty) sample_ops"

lemma sample_refresh_built: "refresh_build sample_refresh = Ok sample_refresh"
  by code_simp

section \<open>How often the keys are fetched\<close>

lemmas task_updates = emit_def clear_keys_def shared_update_def mark_stopped_def trigger_fire_def handle_shutdown_def

fun fetch_calls :: "RefreshOut list \<Rightarrow> nat list" where
  "fetch_calls [] = []"
| "fetch_calls (FetchCalled t # outs) = t # fetch_calls outs"
| "fetch_calls (Observed ev # outs) = fetch_calls outs"

lemma fetch_calls_append [simp]: "fetch_calls (as @ bs) = fetch_calls as @ fetch_calls bs"
  by (induction as rule: fetch_calls.induct) simp_all

definition calls_inv :: "RefreshConfig \<Rightarrow> RefreshTask \<Rightarrow> bool" where
  "calls_inv cfg t \<longleftrightarrow>
     sorted_wrt (\<lambda>a b. a + rc_min_interval cfg \<le> b) (fetch_calls (rt_trace t)) \<and>
     (\<forall>c\<in>set (fetch_calls (rt_trace t)). c + rc_min_interval cfg \<le> rt_next_allowed t) \<and>
     (rt_phase t = NotStarted \<longrightarrow> fetch_calls (rt_trace t) = [])"

lemma refresh_run_snoc: "refresh_run from_json cfg keys (ops @ [op]) = refresh_op from_json cfg (refresh_run from_json cfg keys ops) op"
  by (simp add: refresh_run_def)

lemma finish_fetch_calls:
  "fetch_calls (rt_trace (finish_fetch from_json cfg start outcome t)) = fetch_calls (rt_trace t)"
  "rt_next_allowed (finish_fetch from_json cfg start outcome t) = rt_next_allowed t"
  "rt_phase (finish_fetch from_json cfg start outcome t) = Waiting"
  by (simp_all add: finish_fetch_def task_updates Let_def split: sum.splits prod.splits)

lemma poll_waiting_calls:
  assumes "calls_inv cfg t" "rt_phase t = Waiting" shows "calls_inv cfg (poll_waiting from_json cfg i t)"
proof (cases "wait_phase (rt_shared t) (rt_stale_deadline t) (max (rt_next_due t) (rt_next_allowed t)) (pi_time i)")
  case (Some w)
  show ?thesis
  proof (cases w)
    case WaitDue
    have "rt_next_allowed t \<le> pi_time i" using Some WaitDue by (auto simp: wait_phase_def split: if_splits)
    then have later: "\<forall>c\<in>set (fetch_calls (rt_trace t)). c + rc_min_interval cfg \<le> pi_time i" using assms(1) by (auto simp: calls_inv_def)
    then show ?thesis
      using assms Some WaitDue unfolding poll_waiting_def calls_inv_def Let_def
      by (auto simp: finish_fetch_calls emit_def sorted_wrt_append)
  qed (use assms Some in \<open>auto simp: poll_waiting_def calls_inv_def task_updates\<close>)
qed (use assms in \<open>simp add: poll_waiting_def\<close>)

lemma refresh_op_calls: "calls_inv cfg t \<Longrightarrow> calls_inv cfg (refresh_op from_json cfg t op)"
proof (cases op)
  case (Polled i)
  assume inv: "calls_inv cfg t"
  show ?thesis
  proof (cases "rt_phase t")
    case Waiting
    then show ?thesis using inv Polled by (simp add: refresh_poll_def poll_waiting_calls)
  next
    case (Fetching start deadline)
    have "calls_inv cfg (poll_fetching from_json cfg i start deadline t)"
      using inv Fetching unfolding calls_inv_def poll_fetching_def
      by (auto simp: finish_fetch_calls task_updates split: FetchPoll.splits sum.splits)
    then show ?thesis using Polled Fetching by (simp add: refresh_poll_def)
  qed (use inv Polled in \<open>auto simp: refresh_poll_def calls_inv_def task_updates Let_def\<close>)
qed (auto simp: calls_inv_def task_updates)

text \<open>Fetches are spaced. Whatever triggers, failures, answers and readings of the clock the task sees, any two calls of the fetcher are at
  least the configured minimal interval apart, which is never zero, and every configuration that is built leaves a fetch time to
  finish before the next one.\<close>

theorem refresh_rate_bounded:
  assumes "refresh_build b = Ok cfg"
  shows "sorted_wrt (\<lambda>a b. a + rc_min_interval cfg \<le> b) (fetch_calls (rt_trace (refresh_run from_json cfg keys ops))) \<and>
    0 < rc_fetch_timeout cfg \<and> rc_fetch_timeout cfg \<le> rc_min_interval cfg \<and> rc_min_interval cfg \<le> rc_period cfg"
proof
  have "calls_inv cfg (refresh_run from_json cfg keys ops)"
  proof (induction ops rule: rev_induct)
    case Nil
    show ?case by (simp add: refresh_run_def refresher_new_def calls_inv_def)
  next
    case (snoc op ops)
    then show ?case unfolding refresh_run_snoc by (rule refresh_op_calls)
  qed
  then show "sorted_wrt (\<lambda>a b. a + rc_min_interval cfg \<le> b) (fetch_calls (rt_trace (refresh_run from_json cfg keys ops)))"
    by (simp add: calls_inv_def)
  show "0 < rc_fetch_timeout cfg \<and> rc_fetch_timeout cfg \<le> rc_min_interval cfg \<and> rc_min_interval cfg \<le> rc_period cfg"
    using assms by (auto simp: refresh_build_def refresh_range_def res_bind_eq_Ok split: if_splits option.splits)
qed

theorem refresh_rate_bounded_witness:
  "fetch_calls (rt_trace sample_task) = [from_secs 1, from_secs 11] \<and>
   sorted_wrt (\<lambda>a b. a + rc_min_interval sample_refresh \<le> b) [from_secs 1, from_secs 11]"
proof -
  have "fetch_calls (rt_trace sample_task) = [from_secs 1, from_secs 11]" by code_simp
  then show ?thesis
    using refresh_rate_bounded [OF sample_refresh_built, of sample_read "shared_new keyset_empty" sample_ops] unfolding sample_task_def by simp
qed

section \<open>How old the keys may get\<close>

text \<open>The responses the fetcher gave, and the moment from which the age of the keys counts: the start of the last successful fetch, or of the task.\<close>

definition responses :: "RefreshOp list \<Rightarrow> JwksResponse set" where
  "responses ops = {resp. \<exists>i. Polled i \<in> set ops \<and> pi_fetch i = FetchReady (Ok resp)}"

fun task_start :: "RefreshOp list \<Rightarrow> nat option" where
  "task_start [] = None"
| "task_start (Polled i # ops) = Some (pi_time i)"
| "task_start (Fired # ops) = task_start ops"
| "task_start (ShutDown # ops) = task_start ops"

definition keys_since :: "RefreshOp list \<Rightarrow> RefreshTask \<Rightarrow> nat option" where
  "keys_since ops t = (case st_last_success (sh_status (rt_shared t)) of Some b \<Rightarrow> Some b | None \<Rightarrow> task_start ops)"

definition current_keys :: "RefreshTask \<Rightarrow> KeySet" where
  "current_keys t = arc_set (snapshot (rt_keys t))"

definition keys_from :: "read_keys \<Rightarrow> KeySet \<Rightarrow> RefreshOp list \<Rightarrow> KeySet \<Rightarrow> bool" where
  "keys_from from_json initial ops ks \<longleftrightarrow> ks = initial \<or> ks = keyset_empty \<or> (\<exists>resp\<in>responses ops. from_json (jr_body resp) = Ok ks)"

lemma keys_from_mono: "keys_from from_json initial ops ks \<Longrightarrow> keys_from from_json initial (ops @ ops') ks"
  by (auto simp: keys_from_def responses_def)

lemma task_start_append: "task_start (ops @ ops') = (case task_start ops of Some b \<Rightarrow> Some b | None \<Rightarrow> task_start ops')"
  by (induction ops rule: task_start.induct) auto

lemma keys_since_append: "keys_since ops t = Some b \<Longrightarrow> keys_since (ops @ ops') t = Some b"
  by (auto simp: keys_since_def task_start_append split: option.splits)

text \<open>Until the keys are cleared, the deadline is their age limit.\<close>

definition age_inv :: "RefreshConfig \<Rightarrow> RefreshOp list \<Rightarrow> RefreshTask \<Rightarrow> bool" where
  "age_inv cfg ops t \<longleftrightarrow>
     (\<exists>b. keys_since ops t = Some b \<and>
       (rt_stale_deadline t = map_option (\<lambda>s. b + s) (rc_max_stale cfg) \<or> current_keys t = keyset_empty))"

definition stale_inv :: "RefreshConfig \<Rightarrow> RefreshOp list \<Rightarrow> RefreshTask \<Rightarrow> bool" where
  "stale_inv cfg ops t \<longleftrightarrow>
     (if rt_phase t = NotStarted then st_last_success (sh_status (rt_shared t)) = None \<and> task_start ops = None
      else rt_phase t = Finished \<or> age_inv cfg ops t)"

lemma age_inv_append: "age_inv cfg ops t \<Longrightarrow> age_inv cfg (ops @ ops') t"
  unfolding age_inv_def using keys_since_append by blast

lemma finish_fetch_keys:
  "current_keys (finish_fetch from_json cfg start outcome t) =
     (case outcome of Ok resp \<Rightarrow> (case from_json (jr_body resp) of Ok ks \<Rightarrow> ks | Err _ \<Rightarrow> current_keys t) | Err _ \<Rightarrow> current_keys t)"
  by (simp add: finish_fetch_def task_updates Let_def current_keys_def shared_set_def snapshot_def split: sum.splits)

lemma age_inv_finish: "age_inv cfg ops t \<Longrightarrow> age_inv cfg ops (finish_fetch from_json cfg start outcome t)"
  by (auto simp: finish_fetch_def task_updates Let_def age_inv_def keys_since_def current_keys_def split: sum.splits)

lemma clear_keys_empty [simp]: "current_keys (clear_keys t) = keyset_empty"
  by (simp add: clear_keys_def task_updates current_keys_def shared_set_def snapshot_def)

lemma age_inv_clear: "age_inv cfg ops t \<Longrightarrow> age_inv cfg ops (clear_keys (t\<lparr>rt_stale_deadline := d\<rparr>))"
  by (auto simp: age_inv_def keys_since_def) (auto simp: clear_keys_def task_updates)

lemma age_inv_cong:
  "keys_since ops t' = keys_since ops t \<Longrightarrow> rt_stale_deadline t' = rt_stale_deadline t \<Longrightarrow> rt_keys t' = rt_keys t \<Longrightarrow>
     age_inv cfg ops t' \<longleftrightarrow> age_inv cfg ops t"
  by (simp add: age_inv_def current_keys_def)

lemma poll_waiting_age:
  assumes "age_inv cfg ops t" "rt_phase t = Waiting" shows "stale_inv cfg ops (poll_waiting from_json cfg i t)"
    "current_keys (poll_waiting from_json cfg i t) \<in> {current_keys t, keyset_empty}"
proof -
  have due: "age_inv cfg ops (emit (FetchCalled n) (t\<lparr>rt_next_allowed := a\<rparr>))" for n a
    using assms(1) by (subst age_inv_cong [where t = t]) (simp_all add: emit_def keys_since_def)
  have other: "age_inv cfg ops (t\<lparr>rt_shared := (rt_shared t)\<lparr>sh_wake := False\<rparr>, rt_next_due := n\<rparr>)" for n
    using assms(1) by (subst age_inv_cong [where t = t]) (simp_all add: keys_since_def)
  have fetching: "age_inv cfg ops (t'\<lparr>rt_phase := ph\<rparr>) \<longleftrightarrow> age_inv cfg ops t'" for t' ph
    by (rule age_inv_cong) (simp_all add: keys_since_def)
  show "stale_inv cfg ops (poll_waiting from_json cfg i t)"
    using assms due other age_inv_clear age_inv_finish [OF due] unfolding poll_waiting_def stale_inv_def
    by (auto simp: Let_def fetching finish_fetch_calls split: option.splits Wait.splits)
      (simp_all add: task_updates)
  show "current_keys (poll_waiting from_json cfg i t) \<in> {current_keys t, keyset_empty}"
    unfolding poll_waiting_def
    by (auto simp: Let_def finish_fetch_keys split: option.splits Wait.splits) (simp_all add: task_updates current_keys_def)
qed

lemma poll_fetching_age:
  assumes "age_inv cfg ops t" "rt_phase t = Fetching start deadline" shows "stale_inv cfg ops (poll_fetching from_json cfg i start deadline t)"
    "current_keys (poll_fetching from_json cfg i start deadline t) \<in> {current_keys t, keyset_empty} \<or>
     (\<exists>resp. pi_fetch i = FetchReady (Ok resp) \<and> from_json (jr_body resp) = Ok (current_keys (poll_fetching from_json cfg i start deadline t)))"
proof -
  show "stale_inv cfg ops (poll_fetching from_json cfg i start deadline t)"
    using assms age_inv_clear age_inv_finish [OF assms(1)] unfolding poll_fetching_def stale_inv_def
    by (auto simp: finish_fetch_calls split: FetchPoll.splits sum.splits) (simp_all add: task_updates)
  show "current_keys (poll_fetching from_json cfg i start deadline t) \<in> {current_keys t, keyset_empty} \<or>
     (\<exists>resp. pi_fetch i = FetchReady (Ok resp) \<and> from_json (jr_body resp) = Ok (current_keys (poll_fetching from_json cfg i start deadline t)))"
    unfolding poll_fetching_def
    by (auto simp: finish_fetch_keys split: FetchPoll.splits sum.splits) (simp_all add: task_updates current_keys_def)
qed

lemma stale_inv_poll:
  assumes "stale_inv cfg ops t" "keys_from from_json initial ops (current_keys t)"
  shows "stale_inv cfg (ops @ [Polled i]) (refresh_poll from_json cfg i t)"
    "keys_from from_json initial (ops @ [Polled i]) (current_keys (refresh_poll from_json cfg i t))"
proof -
  note age = age_inv_append [of cfg ops t "[Polled i]"]
  have orig: "keys_from from_json initial (ops @ [Polled i]) (current_keys t)" using assms(2) by (rule keys_from_mono)
  have resp: "keys_from from_json initial (ops @ [Polled i]) ks" if "pi_fetch i = FetchReady (Ok resp)" "from_json (jr_body resp) = Ok ks" for resp ks
    using that by (auto simp: keys_from_def responses_def)
  have empty: "keys_from from_json initial (ops @ [Polled i]) keyset_empty" by (simp add: keys_from_def)
  show "stale_inv cfg (ops @ [Polled i]) (refresh_poll from_json cfg i t)"
  proof (cases "rt_phase t")
    case NotStarted
    then show ?thesis
      using assms(1)
      by (auto simp: stale_inv_def age_inv_def refresh_poll_def task_updates Let_def keys_since_def task_start_append split: option.splits)
  next
    case Waiting
    then show ?thesis using assms(1) poll_waiting_age(1) [OF age Waiting] by (simp add: stale_inv_def [of cfg ops t] refresh_poll_def)
  next
    case (Fetching start deadline)
    then show ?thesis using assms(1) poll_fetching_age(1) [OF age Fetching] by (simp add: stale_inv_def [of cfg ops t] refresh_poll_def)
  qed (simp add: stale_inv_def refresh_poll_def)
  show "keys_from from_json initial (ops @ [Polled i]) (current_keys (refresh_poll from_json cfg i t))"
  proof (cases "rt_phase t")
    case NotStarted
    then show ?thesis using orig by (simp add: refresh_poll_def task_updates current_keys_def Let_def)
  next
    case Waiting
    then have "age_inv cfg ops t" using assms(1) by (simp add: stale_inv_def)
    then show ?thesis using poll_waiting_age(2) [OF _ Waiting, of cfg ops from_json i] orig empty Waiting by (auto simp: refresh_poll_def)
  next
    case (Fetching start deadline)
    then have "age_inv cfg ops t" using assms(1) by (simp add: stale_inv_def)
    then show ?thesis using poll_fetching_age(2) [OF _ Fetching, of cfg ops from_json i] orig empty resp Fetching by (auto simp: refresh_poll_def)
  next
    case Finished
    then show ?thesis using orig by (simp add: refresh_poll_def)
  qed
qed

lemma stale_inv_run:
  "stale_inv cfg ops (refresh_run from_json cfg keys ops) \<and>
     keys_from from_json (arc_set (snapshot keys)) ops (current_keys (refresh_run from_json cfg keys ops))"
proof (induction ops rule: rev_induct)
  case Nil
  show ?case by (simp add: refresh_run_def refresher_new_def stale_inv_def refresh_status_default_def keys_from_def current_keys_def)
next
  case (snoc op ops)
  let ?t = "refresh_run from_json cfg keys ops"
  have signal: "stale_inv cfg (ops @ [op]) t \<and> keys_from from_json (arc_set (snapshot keys)) (ops @ [op]) (current_keys t)"
    if "op = Fired \<or> op = ShutDown" "rt_phase t = rt_phase ?t" "rt_keys t = rt_keys ?t" "rt_stale_deadline t = rt_stale_deadline ?t"
      "st_last_success (sh_status (rt_shared t)) = st_last_success (sh_status (rt_shared ?t))" for t
    using snoc that
    by (auto simp: stale_inv_def age_inv_def keys_since_def task_start_append current_keys_def keys_from_mono split: option.splits)
  show ?case
    using snoc stale_inv_poll signal by (cases op) (auto simp: refresh_run_snoc task_updates)
qed



end
