(* ===== verification/Rtc_Proxy.thy ===== *)
theory Rtc_Proxy
  imports Server "HOL-Library.Code_Target_Nat"
begin

text \<open>
  \<^verbatim>\<open>crates/plugin-webrtc-proxy\<close>: offers of WebRTC sessions are handed to another service over a small HTTP client. The network is a
  parameter, the record \<open>Upstream\<close>: whether and what connecting, writing and reading give before the timer of the given duration fires. An await
  that is pending when the timer fires ends the operation with \<open>Elapsed\<close>. Durations are milliseconds.
\<close>

section \<open>Configuration\<close>

record ProxyConfig =
  upstream_addr :: bytes
  upstream_path :: bytes
  connect_timeout :: nat
  request_timeout :: nat
  max_offer_bytes :: nat
  max_answer_bytes :: nat

definition DEFAULT_UPSTREAM_PATH :: bytes where "DEFAULT_UPSTREAM_PATH = ''/rtc/offer''"

definition DEFAULT_CONNECT_TIMEOUT :: nat where "DEFAULT_CONNECT_TIMEOUT = 3 * 1000"

definition DEFAULT_REQUEST_TIMEOUT :: nat where "DEFAULT_REQUEST_TIMEOUT = 5 * 1000"

definition DEFAULT_MAX_PAYLOAD_BYTES :: nat where "DEFAULT_MAX_PAYLOAD_BYTES = 64 * 1024"

definition proxy_config_default :: ProxyConfig where
  "proxy_config_default =
     \<lparr>upstream_addr = [], upstream_path = DEFAULT_UPSTREAM_PATH, connect_timeout = DEFAULT_CONNECT_TIMEOUT,
      request_timeout = DEFAULT_REQUEST_TIMEOUT, max_offer_bytes = DEFAULT_MAX_PAYLOAD_BYTES,
      max_answer_bytes = DEFAULT_MAX_PAYLOAD_BYTES\<rparr>"

definition proxy_config_new :: "bytes \<Rightarrow> ProxyConfig" where
  "proxy_config_new addr = proxy_config_default\<lparr>upstream_addr := addr\<rparr>"

definition with_upstream_path :: "ProxyConfig \<Rightarrow> bytes \<Rightarrow> ProxyConfig" where
  "with_upstream_path config path = config\<lparr>upstream_path := path\<rparr>"

definition with_connect_timeout :: "ProxyConfig \<Rightarrow> nat \<Rightarrow> ProxyConfig" where
  "with_connect_timeout config d = config\<lparr>connect_timeout := d\<rparr>"

definition with_request_timeout :: "ProxyConfig \<Rightarrow> nat \<Rightarrow> ProxyConfig" where
  "with_request_timeout config d = config\<lparr>request_timeout := d\<rparr>"

definition with_max_offer_bytes :: "ProxyConfig \<Rightarrow> nat \<Rightarrow> ProxyConfig" where
  "with_max_offer_bytes config n = config\<lparr>max_offer_bytes := n\<rparr>"

definition with_max_answer_bytes :: "ProxyConfig \<Rightarrow> nat \<Rightarrow> ProxyConfig" where
  "with_max_answer_bytes config n = config\<lparr>max_answer_bytes := n\<rparr>"

section \<open>The client\<close>

datatype ProxyError = UpstreamConnect | UpstreamTimeout | UpstreamProtocol | UpstreamStatus | AnswerTooLarge | UpstreamIo

datatype Interrupt = Elapsed | Failed

record 's Upstream =
  up_connect :: "nat \<Rightarrow> 's \<Rightarrow> bytes \<Rightarrow> (Interrupt + unit) \<times> 's"
  up_write :: "nat \<Rightarrow> 's \<Rightarrow> bytes \<Rightarrow> (Interrupt + unit) \<times> 's"
  up_read :: "nat \<Rightarrow> ('s, Interrupt) reader"

definition CLIENT_READ_BYTES :: nat where "CLIENT_READ_BYTES = 4 * 1024"

definition RESPONSE_HEAD_LIMIT :: nat where "RESPONSE_HEAD_LIMIT = 8 * 1024"

text \<open>\<^verbatim>\<open>slice::windows\<close>, and the search for the first window that is the needle.\<close>

definition windows :: "nat \<Rightarrow> 'a list \<Rightarrow> 'a list list" where
  "windows k xs = map (\<lambda>i. take k (drop i xs)) [0..<length xs + 1 - k]"

definition client_find_subslice :: "bytes \<Rightarrow> bytes \<Rightarrow> nat option" where
  "client_find_subslice haystack needle =
     (if needle = [] \<or> length haystack < length needle then None
      else position (\<lambda>window. window = needle) (windows (length needle) haystack))"

text \<open>\<^verbatim>\<open>str::parse\<close> for an unsigned type with the given maximum: an optional plus sign and digits.\<close>

definition parse_unsigned :: "nat \<Rightarrow> bytes \<Rightarrow> nat option" where
  "parse_unsigned limit s =
     (let digits = (case s of c # r \<Rightarrow> if c = CHR ''+'' \<and> r \<noteq> [] then r else s | [] \<Rightarrow> []) in
      if digits \<noteq> [] \<and> list_all is_ascii_digit digits \<and> radix_val 10 digits \<le> limit then Some (radix_val 10 digits) else None)"

abbreviation U16_MAX :: nat where "U16_MAX \<equiv> 65535"

definition parse_status_line :: "bytes \<Rightarrow> ProxyError + nat" where
  "parse_status_line line =
     (case split_on CHR '' '' line of
        [] \<Rightarrow> Err UpstreamProtocol
      | version # parts \<Rightarrow>
          if \<not> starts_with ''HTTP/1.'' version then Err UpstreamProtocol
          else (case parts of
                  [] \<Rightarrow> Err UpstreamProtocol
                | status # _ \<Rightarrow> ok_or UpstreamProtocol (parse_unsigned U16_MAX status)))"

fun header_lines :: "bytes list \<Rightarrow> nat option \<Rightarrow> ProxyError + nat option" where
  "header_lines [] content_length = Ok content_length"
| "header_lines (line # ls) content_length =
     (if line = [] then header_lines ls content_length
      else case split_once CHR '':'' line of
        None \<Rightarrow> Err UpstreamProtocol
      | Some (name, val) \<Rightarrow>
          if eq_ignore_ascii_case (str_trim name) ''content-length'' then
            (if content_length \<noteq> None then Err UpstreamProtocol
             else res_bind (ok_or UpstreamProtocol (parse_unsigned USIZE_MAX (str_trim val))) (\<lambda>parsed. header_lines ls (Some parsed)))
          else header_lines ls content_length)"

definition parse_response_head :: "bytes \<Rightarrow> ProxyError + nat \<times> nat" where
  "parse_response_head head =
     (if \<not> utf8_valid head then Err UpstreamProtocol
      else case split_crlf head of
        [] \<Rightarrow> Err UpstreamProtocol
      | line # ls \<Rightarrow>
          res_bind (parse_status_line line) (\<lambda>status.
          res_bind (header_lines ls None) (\<lambda>content_length.
          res_bind (ok_or UpstreamProtocol content_length) (\<lambda>n. Ok (status, n)))))"

definition io_error :: "Interrupt \<Rightarrow> ProxyError" where
  "io_error e = (case e of Elapsed \<Rightarrow> UpstreamTimeout | Failed \<Rightarrow> UpstreamIo)"

function read_response_head :: "('s, Interrupt) reader \<Rightarrow> 's \<Rightarrow> bytes \<Rightarrow> (ProxyError + bytes \<times> nat) \<times> 's" where
  "read_response_head rd s buf =
     (case client_find_subslice buf TERMINATOR of
        Some pos \<Rightarrow> (Ok (buf, pos + 4), s)
      | None \<Rightarrow>
          if RESPONSE_HEAD_LIMIT \<le> length buf then (Err UpstreamProtocol, s)
          else case rd s CLIENT_READ_BYTES of
            (Err e, s) \<Rightarrow> (Err (io_error e), s)
          | (Ok chunk, s) \<Rightarrow> if length chunk = 0 then (Err UpstreamProtocol, s) else read_response_head rd s (buf @ chunk))"
  by pat_completeness auto
termination
  by (relation "measure (\<lambda>(_, _, buf). RESPONSE_HEAD_LIMIT - length buf)") (auto simp: diff_less_mono2)

function read_answer :: "('s, Interrupt) reader \<Rightarrow> nat \<Rightarrow> nat \<Rightarrow> 's \<Rightarrow> bytes \<Rightarrow> (ProxyError + bytes) \<times> 's" where
  "read_answer rd content_length limit s body =
     (if length body < content_length then
        if limit \<le> length body then (Err AnswerTooLarge, s)
        else case rd s CLIENT_READ_BYTES of
          (Err e, s) \<Rightarrow> (Err (io_error e), s)
        | (Ok chunk, s) \<Rightarrow> if length chunk = 0 then (Err UpstreamProtocol, s) else read_answer rd content_length limit s (body @ chunk)
      else (Ok (take content_length body), s))"
  by pat_completeness auto
termination
  by (relation "measure (\<lambda>(_, content_length, _, _, body). content_length - length body)") (auto simp: diff_less_mono2)

declare read_response_head.simps [simp del] read_answer.simps [simp del]

definition read_response_body :: "('s, Interrupt) reader \<Rightarrow> 's \<Rightarrow> nat \<Rightarrow> (ProxyError + bytes) \<times> 's" where
  "read_response_body rd s limit =
     (case read_response_head rd s [] of
        (Err e, s) \<Rightarrow> (Err e, s)
      | (Ok (buf, header_end), s) \<Rightarrow>
          (case parse_response_head (take header_end buf) of
             Err e \<Rightarrow> (Err e, s)
           | Ok (status, content_length) \<Rightarrow>
               if \<not> (200 \<le> status \<and> status < 300) then (Err UpstreamStatus, s)
               else if limit < content_length then (Err AnswerTooLarge, s)
               else read_answer rd content_length limit s (drop header_end buf)))"

definition proxy_request :: "ProxyConfig \<Rightarrow> bytes \<Rightarrow> bytes" where
  "proxy_request config body =
     ''POST '' @ upstream_path config @ '' HTTP/1.1'' @ crlf @ ''Host: '' @ upstream_addr config @ crlf @
     ''Content-Type: application/sdp'' @ crlf @ ''Content-Length: '' @ to_decimal (length body) @ crlf @
     ''Connection: close'' @ crlf @ crlf @ body"

definition write_request :: "'s Upstream \<Rightarrow> ProxyConfig \<Rightarrow> 's \<Rightarrow> bytes \<Rightarrow> (ProxyError + unit) \<times> 's" where
  "write_request U config s body =
     (case up_write U (request_timeout config) s (proxy_request config body) of (r, s) \<Rightarrow> (map_err io_error r, s))"

definition forward_offer :: "'s Upstream \<Rightarrow> ProxyConfig \<Rightarrow> 's \<Rightarrow> bytes \<Rightarrow> (ProxyError + bytes) \<times> 's" where
  "forward_offer U config s offer =
     (case up_connect U (connect_timeout config) s (upstream_addr config) of
        (Err Elapsed, s) \<Rightarrow> (Err UpstreamTimeout, s)
      | (Err Failed, s) \<Rightarrow> (Err UpstreamConnect, s)
      | (Ok _, s) \<Rightarrow>
          (case write_request U config s offer of
             (Err e, s) \<Rightarrow> (Err e, s)
           | (Ok _, s) \<Rightarrow> read_response_body (up_read U (request_timeout config)) s (max_answer_bytes config)))"

section \<open>The handler\<close>

definition OFFER_PATH :: bytes where "OFFER_PATH = ''/rtc/offer''"

record ProxyResponse =
  px_status :: nat
  px_reason :: bytes
  px_content_type :: bytes
  px_body :: bytes

definition proxy_error :: "nat \<Rightarrow> bytes \<Rightarrow> ProxyResponse" where
  "proxy_error status reason =
     \<lparr>px_status = status, px_reason = reason, px_content_type = ''text/plain; charset=utf-8'', px_body = reason\<rparr>"

definition try_handle_rtc_offer :: "'s Upstream \<Rightarrow> 's \<Rightarrow> RequestHead \<Rightarrow> bytes \<Rightarrow> ProxyConfig \<Rightarrow> ProxyResponse option \<times> 's" where
  "try_handle_rtc_offer U s head body config =
     (if head_method head \<noteq> ''POST'' \<or> head_target head \<noteq> OFFER_PATH then (None, s)
      else case Option.bind (header head ''content-length'') (parse_unsigned USIZE_MAX) of
        None \<Rightarrow> (Some (proxy_error 400 ''Bad Request''), s)
      | Some declared_len \<Rightarrow>
          if declared_len \<noteq> length body then (Some (proxy_error 400 ''Bad Request''), s)
          else if max_offer_bytes config < length body then (Some (proxy_error 413 ''Payload Too Large''), s)
          else case forward_offer U config s body of
            (Ok answer, s) \<Rightarrow> (Some \<lparr>px_status = 200, px_reason = ''OK'', px_content_type = ''application/sdp'', px_body = answer\<rparr>, s)
          | (Err UpstreamTimeout, s) \<Rightarrow> (Some (proxy_error 504 ''Gateway Timeout''), s)
          | (Err _, s) \<Rightarrow> (Some (proxy_error 502 ''Bad Gateway''), s))"

text \<open>The plugin as the server calls it: the network at the moment of the call is an argument, and the seam drops the reason phrase.\<close>

definition plugin_response :: "ProxyResponse \<Rightarrow> PluginResponse" where
  "plugin_response r = \<lparr>pr_status = px_status r, pr_body = px_body r, pr_content_type = px_content_type r\<rparr>"

definition webrtc_proxy :: "'s Upstream \<Rightarrow> (tick \<Rightarrow> 's) \<Rightarrow> ProxyConfig \<Rightarrow> 'a Server \<Rightarrow> 'a Server" where
  "webrtc_proxy U net config srv =
     srv\<lparr>webrtc_proxy_plugin := Some (\<lambda>t head body. map_option plugin_response (fst (try_handle_rtc_offer U (net t) head body config)))\<rparr>"

section \<open>The search and the parser\<close>

lemma client_find_subslice_eq:
  assumes "needle \<noteq> []" shows "client_find_subslice hay needle = find_sub needle hay"
proof (cases "length hay < length needle")
  case True
  then have "find_sub needle hay = None"
    using find_sub_Some [of needle hay] by (cases "find_sub needle hay") (auto simp: occurs_at_def)
  with True show ?thesis by (simp add: client_find_subslice_def)
next
  case False
  have window: "windows (length needle) hay ! i = needle \<longleftrightarrow> occurs_at needle hay i" if "i < length (windows (length needle) hay)" for i
    using that False by (auto simp: windows_def occurs_at_def)
  have bound: "occurs_at needle hay i \<Longrightarrow> i < length (windows (length needle) hay)" for i
    using assms by (auto simp: windows_def occurs_at_def)
  show ?thesis
  proof (cases "find_sub needle hay")
    case None
    have "x \<noteq> needle" if "x \<in> set (windows (length needle) hay)" for x
      using that find_sub_None [OF None] window by (auto simp: in_set_conv_nth)
    then have "position (\<lambda>x. x = needle) (windows (length needle) hay) = None" by (simp add: position_None_iff)
    then show ?thesis using None False assms by (simp add: client_find_subslice_def)
  next
    case (Some i)
    have "position (\<lambda>x. x = needle) (windows (length needle) hay) = Some i"
      unfolding position_Some_iff
    proof (intro conjI allI impI)
      show "i < length (windows (length needle) hay)" using bound find_sub_Some [OF Some] by blast
      then show "windows (length needle) hay ! i = needle" "\<And>j. j < i \<Longrightarrow> windows (length needle) hay ! j \<noteq> needle"
        using window find_sub_Some [OF Some] find_sub_first [OF Some] by simp_all
    qed
    then show ?thesis using Some False assms by (simp add: client_find_subslice_def)
  qed
qed

lemma find_sub_cut:
  assumes "find_sub n (a @ b) = Some i" "i + length n \<le> length a" shows "find_sub n a = Some i"
proof (cases "find_sub n a")
  case None
  have "occurs_at n a i" using find_sub_Some [OF assms(1)] assms(2) by (simp add: occurs_at_def)
  then show ?thesis using find_sub_None [OF None] by blast
next
  case (Some j)
  then show ?thesis using find_sub_append_Some [of n a j b] assms(1) by simp
qed

lemma str_trim_word:
  assumes "\<forall>b\<in>set s. 32 < bval b \<and> bval b < 127" shows "str_trim s = s" "str_trim (CHR '' '' # s) = s"
proof -
  have chunks: "utf8_chunks s = Some (map (\<lambda>b. (bval b, [b])) s)"
    using assms by (induction s) (auto simp: utf8_chunks_ascii_Cons)
  have "trim_matches (\<lambda>p. is_whitespace (fst p)) (map (\<lambda>b. (bval b, [b])) s) = map (\<lambda>b. (bval b, [b])) s"
    using assms by (intro trim_matches_no_p) (auto simp: is_whitespace_def)
  moreover have "concat (map snd (map (\<lambda>b. (bval b, [b])) s)) = s" by (induction s) auto
  ultimately show "str_trim s = s" "str_trim (CHR '' '' # s) = s"
    by (simp_all add: str_trim_def chunks utf8_chunks_ascii_Cons is_whitespace_def)
qed

lemma tchar_visible: "is_tchar b \<Longrightarrow> 32 < bval b \<and> bval b < 127 \<and> b \<noteq> CHR '':''"
  by (auto simp: is_tchar_def ascii_class_defs)

lemma parse_unsigned_decimal: "n \<le> limit \<Longrightarrow> parse_unsigned limit (to_decimal n) = Some n"
proof -
  assume "n \<le> limit"
  moreover have "list_all is_ascii_digit (to_decimal n)" using fmt_dec_digits by (simp add: list_all_iff)
  moreover have "hd (to_decimal n) \<noteq> CHR ''+''"
    using fmt_dec_digits [of "hd (to_decimal n)" n] by (auto simp: is_ascii_digit_def)
  ultimately show ?thesis
    using radix_val_fmt [of 10 n] by (cases "to_decimal n") (auto simp: parse_unsigned_def Let_def)
qed

lemma render_field_line:
  assumes "n \<noteq> []" "list_all is_tchar n"
  shows "header_lines (render_field (n, v) # ls) c =
    (if eq_ignore_ascii_case n ''content-length'' then
       (if c \<noteq> None then Err UpstreamProtocol
        else res_bind (ok_or UpstreamProtocol (parse_unsigned USIZE_MAX (str_trim (CHR '' '' # v)))) (\<lambda>k. header_lines ls (Some k)))
     else header_lines ls c)"
proof -
  have colon: "CHR '':'' \<notin> set n" and range: "\<forall>b\<in>set n. 32 < bval b \<and> bval b < 127"
    using assms(2) tchar_visible by (auto simp: list_all_iff)
  then show ?thesis
    using split_once_append [OF colon, of "CHR '' '' # v"] by (simp add: render_field_def str_trim_word(1))
qed

lemma other_fields:
  assumes "\<forall>(n, v)\<in>set fs. n \<noteq> [] \<and> list_all is_tchar n \<and> \<not> eq_ignore_ascii_case n ''content-length''"
  shows "header_lines (map render_field fs @ ls) c = header_lines ls c"
  using assms
proof (induction fs)
  case (Cons f fs)
  then show ?case by (cases f) (simp del: header_lines.simps add: render_field_line)
qed simp

lemma parse_status_line_response: "r_status r \<le> U16_MAX \<Longrightarrow> parse_status_line (status_line r) = Ok (r_status r)"
proof -
  assume status: "r_status r \<le> U16_MAX"
  have "CHR '' '' \<notin> set (to_decimal (r_status r))" using fmt_dec_digits [of "CHR '' ''"] by (auto simp: is_ascii_digit_def)
  then have "split_on CHR '' '' (status_line r) = ''HTTP/1.1'' # to_decimal (r_status r) # split_on CHR '' '' (reason_phrase (r_status r))"
    using split_on_append_delim [of "CHR '' ''" "''HTTP/1.1''"] split_on_append_delim [of "CHR '' ''" "to_decimal (r_status r)"]
    by (simp add: status_line_def)
  then show ?thesis using status by (simp add: parse_status_line_def starts_with_def parse_unsigned_decimal)
qed

section \<open>An upstream that sends a byte string\<close>

text \<open>The answer as a function of the bytes the upstream sends before it closes.\<close>

definition pure_answer :: "nat \<Rightarrow> bytes \<Rightarrow> ProxyError + bytes" where
  "pure_answer limit input =
     (case find_sub TERMINATOR input of
        None \<Rightarrow> Err UpstreamProtocol
      | Some pos \<Rightarrow>
          res_bind (parse_response_head (take (pos + 4) input)) (\<lambda>(status, content_length).
            if \<not> (200 \<le> status \<and> status < 300) then Err UpstreamStatus
            else if limit < content_length then Err AnswerTooLarge
            else if length input < pos + 4 + content_length then Err UpstreamProtocol
            else Ok (take content_length (drop (pos + 4) input))))"

definition head_in_limit :: "bytes \<Rightarrow> bool" where
  "head_in_limit input \<longleftrightarrow> (case find_sub TERMINATOR input of None \<Rightarrow> True | Some pos \<Rightarrow> pos + 4 \<le> RESPONSE_HEAD_LIMIT)"

lemma terminator_search: "client_find_subslice buf TERMINATOR = find_sub TERMINATOR buf" "length TERMINATOR = 4"
  by (simp_all add: client_find_subslice_eq TERMINATOR_def)

locale upstream_stream = stream_reader rd stream for rd :: "('s, Interrupt) reader" and stream :: "'s \<Rightarrow> bytes"
begin

lemma read_client:
  obtains chunk s' where "rd s CLIENT_READ_BYTES = (Ok chunk, s')" "stream s = chunk @ stream s'" "chunk = [] \<Longrightarrow> stream s = []"
  using rd_stream [of s CLIENT_READ_BYTES] that by (auto simp: CLIENT_READ_BYTES_def)

lemma read_response_head_stream:
  "head_in_limit (buf @ stream s) \<Longrightarrow> \<exists>buf' s'. buf' @ stream s' = buf @ stream s \<and>
     (case find_sub TERMINATOR (buf @ stream s) of
        None \<Rightarrow> read_response_head rd s buf = (Err UpstreamProtocol, s')
      | Some pos \<Rightarrow> read_response_head rd s buf = (Ok (buf', pos + 4), s') \<and> pos + 4 \<le> length buf')"
proof (induction "RESPONSE_HEAD_LIMIT - length buf" arbitrary: s buf rule: less_induct)
  case less
  note unfold = read_response_head.simps [of rd s buf] terminator_search(1)
  show ?case
  proof (cases "find_sub TERMINATOR buf")
    case (Some pos)
    then have "find_sub TERMINATOR (buf @ stream s) = Some pos" by (rule find_sub_append_Some)
    moreover have "pos + 4 \<le> length buf" using find_sub_Some [OF Some] by (simp add: occurs_at_def terminator_search(2))
    ultimately show ?thesis using Some by (auto simp: unfold intro!: exI [of _ buf] exI [of _ s])
  next
    case None
    show ?thesis
    proof (cases "RESPONSE_HEAD_LIMIT \<le> length buf")
      case True
      have "find_sub TERMINATOR (buf @ stream s) = None"
        using less.prems True None find_sub_cut [of TERMINATOR buf "stream s"]
        by (auto simp: head_in_limit_def terminator_search(2) split: option.splits)
      then show ?thesis using None True by (auto simp: unfold intro!: exI [of _ buf] exI [of _ s])
    next
      case False
      obtain chunk s1 where rc: "rd s CLIENT_READ_BYTES = (Ok chunk, s1)" "stream s = chunk @ stream s1" "chunk = [] \<Longrightarrow> stream s = []"
        using read_client [of s] by blast
      show ?thesis
      proof (cases "chunk = []")
        case True
        then show ?thesis using rc None False by (auto simp: unfold intro!: exI [of _ buf] exI [of _ s1])
      next
        case more: False
        then have "RESPONSE_HEAD_LIMIT - length (buf @ chunk) < RESPONSE_HEAD_LIMIT - length buf" using False by (cases chunk) auto
        note IH = less.hyps [OF this, of s1]
        have step: "read_response_head rd s buf = read_response_head rd s1 (buf @ chunk)"
          using rc(1) None False more by (simp add: unfold)
        show ?thesis unfolding step using IH less.prems rc(2) by simp
      qed
    qed
  qed
qed

lemma read_answer_stream:
  "n \<le> limit \<Longrightarrow> \<exists>s'. read_answer rd n limit s body =
     (if length (body @ stream s) < n then Err UpstreamProtocol else Ok (take n (body @ stream s)), s')"
proof (induction "n - length body" arbitrary: s body rule: less_induct)
  case less
  obtain chunk s1 where rc: "rd s CLIENT_READ_BYTES = (Ok chunk, s1)" "stream s = chunk @ stream s1" "chunk = [] \<Longrightarrow> stream s = []"
    using read_client [of s] by blast
  show ?case
  proof (cases "length body < n \<and> chunk \<noteq> []")
    case True
    then have "n - length (body @ chunk) < n - length body" by (cases chunk) auto
    note IH = less.hyps [OF this less.prems, of s1]
    have step: "read_answer rd n limit s body = read_answer rd n limit s1 (body @ chunk)"
      using True less.prems rc(1) by (simp add: read_answer.simps [of rd n limit s body])
    show ?thesis unfolding step using IH by (simp only: rc(2) append_assoc)
  next
    case False
    then show ?thesis using less.prems rc by (auto simp: read_answer.simps [of rd n limit s body])
  qed
qed

lemma read_response_body_pure:
  assumes "head_in_limit (stream s)"
  shows "fst (read_response_body rd s limit) = pure_answer limit (stream s)"
proof -
  obtain buf s1 where head: "buf @ stream s1 = stream s"
      "case find_sub TERMINATOR (stream s) of
         None \<Rightarrow> read_response_head rd s [] = (Err UpstreamProtocol, s1)
       | Some pos \<Rightarrow> read_response_head rd s [] = (Ok (buf, pos + 4), s1) \<and> pos + 4 \<le> length buf"
    using read_response_head_stream [of "[]" s] assms by auto
  show ?thesis
  proof (cases "find_sub TERMINATOR (stream s)")
    case None
    then show ?thesis using head(2) by (simp add: read_response_body_def pure_answer_def)
  next
    case (Some pos)
    then have found: "read_response_head rd s [] = (Ok (buf, pos + 4), s1)" "pos + 4 \<le> length buf" using head(2) by simp_all
    have cut: "take (pos + 4) (stream s) = take (pos + 4) buf" "drop (pos + 4) (stream s) = drop (pos + 4) buf @ stream s1"
      "length (stream s) = length buf + length (stream s1)"
      using found(2) by (simp_all add: head(1) [symmetric])
    show ?thesis
    proof (cases "parse_response_head (take (pos + 4) buf)")
      case (Inr x)
      then obtain status n where parsed: "parse_response_head (take (pos + 4) buf) = Ok (status, n)" by (cases x) auto
      show ?thesis
      proof (cases "n \<le> limit")
        case True
        obtain s2 where "read_answer rd n limit s1 (drop (pos + 4) buf) =
            (if length (drop (pos + 4) buf @ stream s1) < n then Err UpstreamProtocol else Ok (take n (drop (pos + 4) buf @ stream s1)), s2)"
          using read_answer_stream [OF True] by blast
        then show ?thesis using parsed found True Some by (auto simp: read_response_body_def pure_answer_def cut)
      qed (use parsed found Some in \<open>auto simp: read_response_body_def pure_answer_def cut\<close>)
    qed (use found Some in \<open>simp add: read_response_body_def pure_answer_def cut\<close>)
  qed
qed

end

section \<open>Answers of a server of this kind\<close>

lemma fixed_names:
  "list_all is_tchar ''Content-Type''" "list_all is_tchar ''Allow''" "list_all is_tchar ''Content-Length''" "list_all is_tchar ''Connection''"
  "eq_ignore_ascii_case ''Content-Length'' ''content-length''" "\<not> eq_ignore_ascii_case ''Connection'' ''content-length''"
  by (simp_all add: is_tchar_def ascii_class_defs eq_ignore_ascii_case_def lowercase_eq_iff)

lemma wire_names:
  assumes "response_inv r" "(n, v) \<in> set (wire_fields r)"
  shows "n \<noteq> [] \<and> list_all is_tchar n \<and> \<not> eq_ignore_ascii_case n ''content-length''"
proof -
  have "\<not> framing_name n" using wire_fields_no_framing [OF assms(1)] assms(2) by (auto simp: filter_empty_conv)
  moreover from assms(2) have "(n, v) \<in> set (r_extra_headers r) \<or> n = ''Content-Type'' \<or> n = ''Allow''"
    unfolding wire_fields_def by (cases "r_content_type r"; cases "r_allow r") auto
  then have "n \<noteq> [] \<and> list_all is_tchar n"
  proof (elim disjE)
    assume "(n, v) \<in> set (r_extra_headers r)"
    then have "field_ok (n, v)" using assms(1) unfolding response_inv_def list_all_iff by blast
    then show ?thesis by (simp add: field_ok_def)
  qed (use fixed_names(1,2) in simp_all)
  ultimately show ?thesis by (simp add: framing_name_def)
qed

lemma header_lines_response:
  assumes "response_inv r" "length (r_body r) \<le> USIZE_MAX"
  shows "header_lines (map render_field (fixed_fields r keep_alive) @ [[], []]) None = Ok (Some (length (r_body r)))"
proof -
  let ?n = "to_decimal (length (r_body r))"
  have close: "header_lines (map render_field (close_field keep_alive) @ [[], []]) c = Ok c" for c
    using fixed_names by (subst other_fields) (simp_all add: close_field_def)
  have "str_trim (CHR '' '' # ?n) = ?n" using fmt_dec_digits digit_range by (intro str_trim_word(2)) blast
  then have len: "header_lines (render_field (''Content-Length'', ?n) # ls) None = header_lines ls (Some (length (r_body r)))" for ls
    using assms(2) fixed_names(3,5) by (subst render_field_line) (simp_all add: parse_unsigned_decimal)
  show ?thesis
    using other_fields [of "wire_fields r" "render_field (''Content-Length'', ?n) # map render_field (close_field keep_alive) @ [[], []]" None]
      wire_names [OF assms(1)] close len
    by (auto simp del: header_lines.simps simp: fixed_fields_def)
qed

lemma join_snoc: "xs \<noteq> [] \<Longrightarrow> join d (xs @ [y]) = join d xs @ d @ y"
  by (induction d xs rule: join.induct) (auto simp: join_Cons)

abbreviation head_bytes :: "Response \<Rightarrow> bool \<Rightarrow> bytes" where
  "head_bytes r keep_alive \<equiv> join crlf (response_lines r (fixed_fields r keep_alive)) @ TERMINATOR"

lemma parse_serialized_head:
  assumes "response_inv r" "r_status r \<le> U16_MAX" "length (r_body r) \<le> USIZE_MAX" "utf8_valid (head_bytes r keep_alive)"
  shows "parse_response_head (head_bytes r keep_alive) = Ok (r_status r, length (r_body r))"
proof -
  let ?ls = "response_lines r (fixed_fields r keep_alive)"
  have ne: "?ls \<noteq> []" by (simp add: response_lines_def)
  have clean: "l \<noteq> [] \<and> cr \<notin> set l \<and> lf \<notin> set l" if "l \<in> set ?ls" for l
    using response_lines_clean [OF assms(1) fixed_fields_clean [OF assms(1)] that] .
  have "head_bytes r keep_alive = join crlf (?ls @ [[], []])"
    using join_snoc [of ?ls crlf "[]"] join_snoc [of "?ls @ [[]]" crlf "[]"] ne by (simp add: TERMINATOR_def)
  then have "split_crlf (head_bytes r keep_alive) = ?ls @ [[], []]" using clean by (auto intro!: split_crlf_join)
  then show ?thesis
    using assms(2,4) header_lines_response [OF assms(1,3)]
    by (simp add: parse_response_head_def response_lines_def parse_status_line_response)
qed

definition good_answer :: "nat \<Rightarrow> bool \<Rightarrow> Response \<Rightarrow> bool" where
  "good_answer limit keep_alive r \<longleftrightarrow> response_reachable r \<and> 200 \<le> r_status r \<and> r_status r < 300 \<and> length (r_body r) \<le> limit \<and> limit \<le> USIZE_MAX \<and>
     utf8_valid (head_bytes r keep_alive) \<and> length (head_bytes r keep_alive) \<le> RESPONSE_HEAD_LIMIT"

lemma pure_answer_serialize:
  assumes "good_answer limit keep_alive r"
  shows "head_in_limit (serialize r keep_alive @ rest) \<and> pure_answer limit (serialize r keep_alive @ rest) = Ok (r_body r)"
proof -
  let ?ls = "response_lines r (fixed_fields r keep_alive)"
  note good = assms [unfolded good_answer_def]
  have inv: "response_inv r" using good reachable_response_inv by blast
  have wire: "serialize r keep_alive @ rest = join crlf ?ls @ TERMINATOR @ r_body r @ rest" by (simp add: serialize_wire)
  have find: "find_sub TERMINATOR (serialize r keep_alive @ rest) = Some (length (join crlf ?ls))"
    unfolding wire using response_lines_clean [OF inv fixed_fields_clean [OF inv]]
    by (intro find_terminator) (auto simp: response_lines_def)
  have len: "length (head_bytes r keep_alive) = length (join crlf ?ls) + 4" by (simp add: terminator_search(2))
  have parsed: "parse_response_head (take (length (join crlf ?ls) + 4) (serialize r keep_alive @ rest)) = Ok (r_status r, length (r_body r))"
    using parse_serialized_head [OF inv, of keep_alive] good unfolding wire by (simp add: terminator_search(2))
  have rest: "drop (length (join crlf ?ls) + 4) (serialize r keep_alive @ rest) = r_body r @ rest"
      "length (serialize r keep_alive @ rest) = length (join crlf ?ls) + 4 + length (r_body r) + length rest"
    unfolding wire by (simp_all add: terminator_search(2))
  show ?thesis
    unfolding head_in_limit_def pure_answer_def find option.case parsed res_bind_simps case_prod_conv rest using good len by simp
qed

text \<open>What the client sends, as the upstream parses it.\<close>

definition offer_view :: "ProxyConfig \<Rightarrow> bytes \<Rightarrow> head_view" where
  "offer_view config offer =
     (''POST'', upstream_path config, Http11,
      [(''Host'', upstream_addr config), (''Content-Type'', ''application/sdp''), (''Content-Length'', to_decimal (length offer)),
       (''Connection'', ''close'')])"

lemma proxy_request_render: "proxy_request config offer = render_head (offer_view config offer) @ offer"
  by (simp add: proxy_request_def offer_view_def render_head_def head_lines_def version_text_def)

lemma offer_framing:
  assumes "view h = offer_view config offer" "length offer \<le> lim" "lim \<le> USIZE_MAX"
  shows "body_length_with_limit h lim = Ok (if offer = [] then NoBody else FixedBody (length offer))"
proof -
  have hs: "headers h = [(''Host'', upstream_addr config), (''Content-Type'', ''application/sdp''), (''Content-Length'', to_decimal (length offer)), (''Connection'', ''close'')]"
    using assms(1) by (simp add: view_def offer_view_def)
  have names: "\<not> eq_ignore_ascii_case ''Host'' ''content-length''" "\<not> eq_ignore_ascii_case ''Content-Type'' ''content-length''"
      "\<not> eq_ignore_ascii_case ''Host'' ''transfer-encoding''" "\<not> eq_ignore_ascii_case ''Content-Type'' ''transfer-encoding''"
      "\<not> eq_ignore_ascii_case ''Content-Length'' ''transfer-encoding''" "\<not> eq_ignore_ascii_case ''Connection'' ''transfer-encoding''"
    by (simp_all add: eq_ignore_ascii_case_def lowercase_eq_iff ascii_class_defs)
  have "list_all is_ascii_digit (to_decimal (length offer))" using fmt_dec_digits by (simp add: list_all_iff)
  then have "parse_content_length (to_decimal (length offer)) = Ok (length offer)"
    using assms(2,3) by (simp add: parse_content_length_def)
  then show ?thesis
    using names fixed_names(5,6) assms(2) by (simp add: body_length_with_limit_def hs Let_def)
qed

lemma offer_request_read:
  assumes "substring_search mm" "view_wf (offer_view config offer)" "length (render_head (offer_view config offer)) \<le> MAX_HEADER_BYTES"
    and "length offer \<le> lim" "lim \<le> USIZE_MAX"
  shows "\<exists>h. pure_request mm lim (proxy_request config offer) = Ok (Some (\<lparr>req_head = h, req_body = offer\<rparr>, [])) \<and> view h = offer_view config offer"
proof -
  obtain h where h: "parse_request_head mm (proxy_request config offer) = Ok (HeadComplete h (length (render_head (offer_view config offer))))"
      "view h = offer_view config offer"
    using parse_rendered_head [OF assms(1-3)] unfolding proxy_request_render by blast
  have rest: "drop (length (render_head (offer_view config offer))) (proxy_request config offer) = offer" by (simp add: proxy_request_render)
  have "pure_request mm lim (proxy_request config offer) = Ok (Some (\<lparr>req_head = h, req_body = offer\<rparr>, []))"
    using offer_framing [OF h(2) assms(4,5)] rest by (auto simp: pure_request_def pure_head_def h(1) pure_body_def)
  then show ?thesis using h(2) by blast
qed

section \<open>Properties\<close>

definition sent_slice :: "(bytes, Interrupt) reader" where
  "sent_slice s n = (Ok (take n s), drop n s)"

interpretation slice_upstream: upstream_stream sent_slice "\<lambda>s. s"
  by unfold_locales (auto simp: sent_slice_def)

definition is_rtc_offer :: "RequestHead \<Rightarrow> bool" where
  "is_rtc_offer head \<longleftrightarrow> head_method head = ''POST'' \<and> head_target head = OFFER_PATH"

text \<open>C27. An offer is relayed and its answer comes back. Let the upstream be a server of this kind: it reads the request that the client sends, by pieces of
  any size, and its response, any that a handler can build with a status of success and within the limits, arrives in pieces of any size. Then the upstream
  reads exactly one request, a POST of the configured path with the offer as its body and none of the headers of the original request, with nothing left over; and the
  handler answers 200 with the body of that response.\<close>

theorem offer_relayed:
  fixes rd :: "('p, 'e) reader"
  assumes "is_rtc_offer head" "header head ''content-length'' = Some (to_decimal (length offer))" "length offer \<le> max_offer_bytes config"
    and "up_connect U (connect_timeout config) s (upstream_addr config) = (Ok (), s1)"
    and "up_write U (request_timeout config) s1 (proxy_request config offer) = (Ok (), s2)"
    and "substring_search mm" "stream_reader rd sent" "sent p = proxy_request config offer"
    and "view_wf (offer_view config offer)" "length (render_head (offer_view config offer)) \<le> MAX_HEADER_BYTES"
    and "length offer \<le> lim" "lim \<le> USIZE_MAX"
    and "upstream_stream (up_read U (request_timeout config)) stream" "stream s2 = serialize r keep_alive @ rest"
    and "good_answer (max_answer_bytes config) keep_alive r"
  shows "(\<exists>h p' b. read_request_with_limit mm rd p recv_new lim = Some (Ok (Some \<lparr>req_head = h, req_body = offer\<rparr>), p', b) \<and>
      view h = offer_view config offer \<and> unread b @ sent p' = []) \<and>
    fst (try_handle_rtc_offer U s head offer config) =
      Some \<lparr>px_status = 200, px_reason = ''OK'', px_content_type = ''application/sdp'', px_body = r_body r\<rparr>"
proof
  obtain h where "(pure_request mm lim (proxy_request config offer) :: 'e RequestError + _) = Ok (Some (\<lparr>req_head = h, req_body = offer\<rparr>, []))"
      "view h = offer_view config offer"
    using offer_request_read [OF assms(6,9-12)] by blast
  then show "\<exists>h p' b. read_request_with_limit mm rd p recv_new lim = Some (Ok (Some \<lparr>req_head = h, req_body = offer\<rparr>), p', b) \<and>
      view h = offer_view config offer \<and> unread b @ sent p' = []"
    using stream_reader.read_request_pure [OF assms(7,6) recv_new_inv assms(12), of p] by (auto simp: assms(8))
  have "fst (read_response_body (up_read U (request_timeout config)) s2 (max_answer_bytes config)) = Ok (r_body r)"
    using upstream_stream.read_response_body_pure [OF assms(13)] pure_answer_serialize [OF assms(15)] assms(14) by simp
  then obtain s3 where "forward_offer U config s offer = (Ok (r_body r), s3)"
    using assms(4,5) by (cases "read_response_body (up_read U (request_timeout config)) s2 (max_answer_bytes config)")
      (simp add: forward_offer_def write_request_def)
  then show "fst (try_handle_rtc_offer U s head offer config) =
      Some \<lparr>px_status = 200, px_reason = ''OK'', px_content_type = ''application/sdp'', px_body = r_body r\<rparr>"
    using assms(1-3,11,12) by (simp add: try_handle_rtc_offer_def is_rtc_offer_def parse_unsigned_decimal)
qed

text \<open>A POST of an offer and an upstream that answers it.\<close>

definition sample_offer_head :: RequestHead where
  "sample_offer_head = the (case parse_request_head (\<lambda>h n. find_sub n h)
     (''POST /rtc/offer HTTP/1.1'' @ crlf @ ''Content-Length: 3'' @ crlf @ crlf) of Ok (HeadComplete h _) \<Rightarrow> Some h | _ \<Rightarrow> None)"

definition sample_answer :: Response where
  "sample_answer = with_content_type (response_new 200 ''answer'') ''application/sdp''"

definition sample_upstream :: "bytes Upstream" where
  "sample_upstream = \<lparr>up_connect = (\<lambda>_ s _. (Ok (), s)), up_write = (\<lambda>_ s _. (Ok (), s)), up_read = (\<lambda>_. sent_slice)\<rparr>"

definition sample_proxy :: ProxyConfig where
  "sample_proxy = proxy_config_new ''10.0.0.1:9000''"

lemma sample_offer:
  "is_rtc_offer sample_offer_head" "header sample_offer_head ''content-length'' = Some (to_decimal (length ''sdp''))"
  by (code_simp)+

lemma sample_good_answer: "good_answer (max_answer_bytes sample_proxy) False sample_answer"
proof -
  have "response_reachable sample_answer" unfolding sample_answer_def by (intro resp_content_type resp_new) simp_all
  moreover have "length (head_bytes sample_answer False) \<le> RESPONSE_HEAD_LIMIT \<and> utf8_valid (head_bytes sample_answer False)" by code_simp
  ultimately show ?thesis
    by (simp add: good_answer_def sample_answer_def with_content_type_def response_new_def sample_proxy_def proxy_config_new_def
        proxy_config_default_def DEFAULT_MAX_PAYLOAD_BYTES_def)
qed

theorem offer_relayed_witness:
  "fst (try_handle_rtc_offer sample_upstream (serialize sample_answer False) sample_offer_head ''sdp'' sample_proxy) =
     Some \<lparr>px_status = 200, px_reason = ''OK'', px_content_type = ''application/sdp'', px_body = ''answer''\<rparr>"
proof -
  have wf: "view_wf (offer_view sample_proxy ''sdp'') \<and> length (render_head (offer_view sample_proxy ''sdp'')) \<le> MAX_HEADER_BYTES" by code_simp
  have "length ''sdp'' \<le> max_offer_bytes sample_proxy"
    by (simp add: sample_proxy_def proxy_config_new_def proxy_config_default_def DEFAULT_MAX_PAYLOAD_BYTES_def)
  note offer = sample_offer this
  have network: "up_connect sample_upstream (connect_timeout sample_proxy) s (upstream_addr sample_proxy) = (Ok (), s)"
    "up_write sample_upstream (request_timeout sample_proxy) s (proxy_request sample_proxy ''sdp'') = (Ok (), s)" for s
    by (simp_all add: sample_upstream_def)
  have reads: "upstream_stream (up_read sample_upstream (request_timeout sample_proxy)) (\<lambda>s. s)"
    using slice_upstream.upstream_stream_axioms by (simp add: sample_upstream_def)
  have answer: "serialize sample_answer False = serialize sample_answer False @ []" "r_body sample_answer = ''answer''"
    by (simp_all add: sample_answer_def with_content_type_def response_new_def)
  have "length ''sdp'' \<le> 100" "(100 :: nat) \<le> USIZE_MAX" by simp_all
  from offer_relayed [OF offer network naive_search.substring_search_axioms slice_socket.stream_reader_axioms refl wf [THEN conjunct1] wf [THEN conjunct2]
      this reads answer(1) sample_good_answer]
  show ?thesis unfolding answer(2) by (rule conjunct2)
qed

section \<open>What an answer can be, for every upstream\<close>

text \<open>The bytes that a sequence of reads of the client has given.\<close>

inductive receives :: "('s, Interrupt) reader \<Rightarrow> 's \<Rightarrow> bytes \<Rightarrow> 's \<Rightarrow> bool" for rd where
  nothing: "receives rd s [] s"
| chunk: "rd s CLIENT_READ_BYTES = (Ok chunk, s1) \<Longrightarrow> receives rd s1 bs s2 \<Longrightarrow> receives rd s (chunk @ bs) s2"

lemma receives_append: "receives rd s a s1 \<Longrightarrow> receives rd s1 b s2 \<Longrightarrow> receives rd s (a @ b) s2"
  by (induction rule: receives.induct) (auto intro: receives.chunk)

lemma read_response_head_receives:
  "read_response_head rd s buf = (Ok (buf', n), s') \<Longrightarrow>
     \<exists>bs pos. buf' = buf @ bs \<and> receives rd s bs s' \<and> find_sub TERMINATOR buf' = Some pos \<and> n = pos + 4 \<and> n \<le> length buf'"
proof (induction "RESPONSE_HEAD_LIMIT - length buf" arbitrary: s buf rule: less_induct)
  case less
  show ?case
  proof (cases "find_sub TERMINATOR buf")
    case (Some pos)
    then have "pos + 4 \<le> length buf" using find_sub_Some [OF Some] by (simp add: occurs_at_def terminator_search(2))
    then show ?thesis using less.prems Some by (auto simp: read_response_head.simps [of rd s buf] terminator_search(1) intro: receives.nothing)
  next
    case None
    then obtain chunk s1 where rc: "rd s CLIENT_READ_BYTES = (Ok chunk, s1)" "chunk \<noteq> []" "length buf < RESPONSE_HEAD_LIMIT"
        "read_response_head rd s1 (buf @ chunk) = (Ok (buf', n), s')"
      using less.prems by (auto simp: read_response_head.simps [of rd s buf] terminator_search(1) split: if_splits prod.splits sum.splits)
    then have "RESPONSE_HEAD_LIMIT - length (buf @ chunk) < RESPONSE_HEAD_LIMIT - length buf" by (cases chunk) auto
    from less.hyps [OF this rc(4)] show ?thesis using receives.chunk [of rd, OF rc(1)] by fastforce
  qed
qed

lemma read_answer_receives:
  "read_answer rd n limit s body = (Ok answer, s') \<Longrightarrow>
     \<exists>bs. receives rd s bs s' \<and> n \<le> length (body @ bs) \<and> answer = take n (body @ bs)"
proof (induction "n - length body" arbitrary: s body rule: less_induct)
  case less
  show ?case
  proof (cases "length body < n")
    case True
    then obtain chunk s1 where rc: "rd s CLIENT_READ_BYTES = (Ok chunk, s1)" "chunk \<noteq> []" "read_answer rd n limit s1 (body @ chunk) = (Ok answer, s')"
      using less.prems by (auto simp: read_answer.simps [of rd n limit s body] split: if_splits prod.splits sum.splits)
    then have "n - length (body @ chunk) < n - length body" using True by (cases chunk) auto
    from less.hyps [OF this rc(3)] obtain bs where "receives rd s1 bs s'" "n \<le> length (body @ chunk @ bs)" "answer = take n (body @ chunk @ bs)"
      by auto
    then show ?thesis using receives.chunk [of rd, OF rc(1)] by blast
  next
    case False
    then show ?thesis using less.prems by (auto simp: read_answer.simps [of rd n limit s body] intro: receives.nothing exI [of _ "[]"])
  qed
qed

lemma read_response_body_sound:
  assumes "read_response_body rd s limit = (Ok answer, s')"
  shows "\<exists>input. receives rd s input s' \<and> pure_answer limit input = Ok answer"
proof -
  obtain buf n s1 status len where head: "read_response_head rd s [] = (Ok (buf, n), s1)"
    and parsed: "parse_response_head (take n buf) = Ok (status, len)" "200 \<le> status \<and> status < 300" "len \<le> limit"
    and body: "read_answer rd len limit s1 (drop n buf) = (Ok answer, s')"
    using assms by (auto simp: read_response_body_def split: prod.splits sum.splits if_splits)
  obtain pos where pos: "receives rd s buf s1" "find_sub TERMINATOR buf = Some pos" "n = pos + 4" "n \<le> length buf"
    using read_response_head_receives [OF head] by auto
  obtain bs where bs: "receives rd s1 bs s'" "len \<le> length (drop n buf @ bs)" "answer = take len (drop n buf @ bs)"
    using read_answer_receives [OF body] by blast
  have "find_sub TERMINATOR (buf @ bs) = Some pos" using pos(2) by (rule find_sub_append_Some)
  then have "pure_answer limit (buf @ bs) = Ok answer"
    using parsed pos(3,4) bs(2,3) by (simp add: pure_answer_def)
  then show ?thesis using receives_append [OF pos(1) bs(1)] by blast
qed

lemma pure_answer_bound: "pure_answer limit input = Ok answer \<Longrightarrow> length answer \<le> limit"
  by (auto simp: pure_answer_def res_bind_eq_Ok split: option.splits if_splits)

lemma forward_offer_sound:
  assumes "forward_offer U config s offer = (Ok answer, s')"
  shows "\<exists>s1 s2 input. up_connect U (connect_timeout config) s (upstream_addr config) = (Ok (), s1) \<and>
    up_write U (request_timeout config) s1 (proxy_request config offer) = (Ok (), s2) \<and>
    receives (up_read U (request_timeout config)) s2 input s' \<and> pure_answer (max_answer_bytes config) input = Ok answer"
  using assms read_response_body_sound
  by (fastforce simp: forward_offer_def write_request_def split: prod.splits sum.splits Interrupt.splits)

lemma rtc_offer_cases:
  assumes "try_handle_rtc_offer U s head body config = (Some resp, s')"
  obtains (bad_request) "is_rtc_offer head" "resp = proxy_error 400 ''Bad Request''" "s' = s"
  | (too_large) "is_rtc_offer head" "resp = proxy_error 413 ''Payload Too Large''" "s' = s"
  | (bad_gateway) "is_rtc_offer head" "resp = proxy_error 502 ''Bad Gateway''"
  | (timed_out) "is_rtc_offer head" "resp = proxy_error 504 ''Gateway Timeout''"
  | (answered) answer where "is_rtc_offer head" "forward_offer U config s body = (Ok answer, s')"
      "Option.bind (header head ''content-length'') (parse_unsigned USIZE_MAX) = Some (length body)" "length body \<le> max_offer_bytes config"
      "resp = \<lparr>px_status = 200, px_reason = ''OK'', px_content_type = ''application/sdp'', px_body = answer\<rparr>"
proof (cases "Option.bind (header head ''content-length'') (parse_unsigned USIZE_MAX) = Some (length body)")
  case True
  obtain x s1 where fw: "forward_offer U config s body = (x, s1)" by fastforce
  show thesis
  proof (cases x)
    case (Inl e)
    with True fw assms too_large bad_gateway timed_out show thesis
      by (cases e) (auto simp: try_handle_rtc_offer_def is_rtc_offer_def split: if_splits)
  next
    case (Inr answer)
    with True fw assms too_large answered show thesis
      by (auto simp: try_handle_rtc_offer_def is_rtc_offer_def split: if_splits)
  qed
next
  case False
  with assms bad_request show thesis
    by (auto simp: try_handle_rtc_offer_def is_rtc_offer_def split: if_splits option.splits)
qed



end
