(* ===== verification/Webrtc.thy ===== *)
theory Webrtc
  imports Rtc_Proxy
begin

text \<open>
  \<^verbatim>\<open>crates/plugin-webrtc\<close>: sessions of WebRTC in the process. The stack \<^verbatim>\<open>webrtc-rs\<close> is part of the environment: building a peer connection, negotiating with it and
  closing it succeed or fail at any time. What is modelled is who owns a slot of the registry and a peer connection at any time. The request, the task that builds the peer connection, the
  events of the stack and the drains run concurrently; a step of the relation \<open>signaling_step\<close> is one section of the code under a lock, or between two awaits. A peer connection is
  named by the number of the slot for which it is built; these numbers are unbounded here (64 bits in the code). An operation of the registry and the close that it starts are one step.
\<close>

section \<open>Configuration\<close>

record WebRtcConfig =
  wc_max_offer_bytes :: nat
  wc_max_peer_connections :: nat
  wc_data_channel_send_buffer_limit :: nat
  wc_max_data_channels_per_connection :: nat
  wc_signaling_timeout :: nat
  wc_udp_bind_addrs :: "bytes list"

definition DEFAULT_MAX_OFFER_BYTES :: nat where "DEFAULT_MAX_OFFER_BYTES = 64 * 1024"

definition DEFAULT_MAX_PEER_CONNECTIONS :: nat where "DEFAULT_MAX_PEER_CONNECTIONS = 64"

definition DEFAULT_DATA_CHANNEL_SEND_BUFFER_LIMIT :: nat where "DEFAULT_DATA_CHANNEL_SEND_BUFFER_LIMIT = 1024 * 1024"

definition DEFAULT_MAX_DATA_CHANNELS_PER_CONNECTION :: nat where "DEFAULT_MAX_DATA_CHANNELS_PER_CONNECTION = 16"

definition DEFAULT_SIGNALING_TIMEOUT :: nat where "DEFAULT_SIGNALING_TIMEOUT = 10 * 1000"

definition webrtc_config_new :: WebRtcConfig where
  "webrtc_config_new =
     \<lparr>wc_max_offer_bytes = DEFAULT_MAX_OFFER_BYTES, wc_max_peer_connections = DEFAULT_MAX_PEER_CONNECTIONS,
      wc_data_channel_send_buffer_limit = DEFAULT_DATA_CHANNEL_SEND_BUFFER_LIMIT,
      wc_max_data_channels_per_connection = DEFAULT_MAX_DATA_CHANNELS_PER_CONNECTION,
      wc_signaling_timeout = DEFAULT_SIGNALING_TIMEOUT, wc_udp_bind_addrs = [''0.0.0.0:0'']\<rparr>"

definition rtc_with_max_offer_bytes :: "WebRtcConfig \<Rightarrow> nat \<Rightarrow> WebRtcConfig" where
  "rtc_with_max_offer_bytes config n = config\<lparr>wc_max_offer_bytes := n\<rparr>"

definition with_max_peer_connections :: "WebRtcConfig \<Rightarrow> nat \<Rightarrow> WebRtcConfig" where
  "with_max_peer_connections config n = config\<lparr>wc_max_peer_connections := n\<rparr>"

definition with_data_channel_send_buffer_limit :: "WebRtcConfig \<Rightarrow> nat \<Rightarrow> WebRtcConfig" where
  "with_data_channel_send_buffer_limit config n = config\<lparr>wc_data_channel_send_buffer_limit := n\<rparr>"

definition with_max_data_channels_per_connection :: "WebRtcConfig \<Rightarrow> nat \<Rightarrow> WebRtcConfig" where
  "with_max_data_channels_per_connection config n = config\<lparr>wc_max_data_channels_per_connection := n\<rparr>"

definition with_signaling_timeout :: "WebRtcConfig \<Rightarrow> nat \<Rightarrow> WebRtcConfig" where
  "with_signaling_timeout config d = config\<lparr>wc_signaling_timeout := d\<rparr>"

definition with_udp_bind_addrs :: "WebRtcConfig \<Rightarrow> bytes list \<Rightarrow> WebRtcConfig" where
  "with_udp_bind_addrs config addrs = config\<lparr>wc_udp_bind_addrs := addrs\<rparr>"

section \<open>Socket addresses\<close>

text \<open>Whether \<^verbatim>\<open>str::parse::<SocketAddr>\<close> succeeds. Each parser gives the rest of its input.\<close>

definition read_char :: "byte \<Rightarrow> bytes \<Rightarrow> bytes option" where
  "read_char c s = (case s of [] \<Rightarrow> None | d # r \<Rightarrow> if d = c then Some r else None)"

definition is_digit_of :: "nat \<Rightarrow> byte \<Rightarrow> bool" where
  "is_digit_of radix b = (if radix = 16 then is_ascii_hexdigit b else is_ascii_digit b)"

definition read_number :: "nat \<Rightarrow> nat option \<Rightarrow> bool \<Rightarrow> nat \<Rightarrow> bytes \<Rightarrow> bytes option" where
  "read_number radix max_digits zero_prefix limit s =
     (let digits = takeWhile (is_digit_of radix) s in
      if digits \<noteq> [] \<and> (case max_digits of None \<Rightarrow> True | Some n \<Rightarrow> length digits \<le> n) \<and> radix_val radix digits \<le> limit \<and>
         (zero_prefix \<or> hd digits \<noteq> CHR ''0'' \<or> length digits = 1)
      then Some (dropWhile (is_digit_of radix) s) else None)"

fun read_octets :: "nat \<Rightarrow> bytes \<Rightarrow> bytes option" where
  "read_octets 0 s = Some s"
| "read_octets (Suc n) s = Option.bind (read_char CHR ''.'' s) (\<lambda>s. Option.bind (read_number 10 (Some 3) False 255 s) (read_octets n))"

definition read_ipv4_addr :: "bytes \<Rightarrow> bytes option" where
  "read_ipv4_addr s = Option.bind (read_number 10 (Some 3) False 255 s) (read_octets 3)"

definition read_separator :: "nat \<Rightarrow> (bytes \<Rightarrow> bytes option) \<Rightarrow> bytes \<Rightarrow> bytes option" where
  "read_separator i parse s = Option.bind (if i > 0 then read_char CHR '':'' s else Some s) parse"

text \<open>The groups of an IPv6 address, at most \<open>limit\<close> of them: how many were read, whether the last two were an IPv4 address, and the rest.\<close>

function read_ipv6_groups :: "nat \<Rightarrow> nat \<Rightarrow> bytes \<Rightarrow> nat \<times> bool \<times> bytes" where
  "read_ipv6_groups limit i s =
     (if limit \<le> i then (limit, False, s)
      else case (if i + 1 < limit then read_separator i read_ipv4_addr s else None) of
        Some s \<Rightarrow> (i + 2, True, s)
      | None \<Rightarrow>
          (case read_separator i (read_number 16 (Some 4) True 65535) s of
             Some s \<Rightarrow> read_ipv6_groups limit (i + 1) s
           | None \<Rightarrow> (i, False, s)))"
  by pat_completeness auto
termination
  by (relation "measure (\<lambda>(limit, i, _). limit - i)") auto

definition read_ipv6_addr :: "bytes \<Rightarrow> bytes option" where
  "read_ipv6_addr s =
     (case read_ipv6_groups 8 0 s of
        (head_size, head_ipv4, s) \<Rightarrow>
          if head_size = 8 then Some s
          else if head_ipv4 then None
          else Option.bind (read_char CHR '':'' s) (\<lambda>s. Option.bind (read_char CHR '':'' s) (\<lambda>s.
            case read_ipv6_groups (8 - (head_size + 1)) 0 s of (_, _, s) \<Rightarrow> Some s)))"

definition read_port :: "bytes \<Rightarrow> bytes option" where
  "read_port s = Option.bind (read_char CHR '':'' s) (read_number 10 None True 65535)"

definition read_scope_id :: "bytes \<Rightarrow> bytes" where
  "read_scope_id s =
     (case Option.bind (read_char CHR ''%'' s) (read_number 10 None True 4294967295) of Some s \<Rightarrow> s | None \<Rightarrow> s)"

definition is_socket_addr :: "bytes \<Rightarrow> bool" where
  "is_socket_addr s \<longleftrightarrow>
     Option.bind (read_ipv4_addr s) read_port = Some [] \<or>
     Option.bind (read_char CHR ''['' s) (\<lambda>s. Option.bind (read_ipv6_addr s) (\<lambda>s. Option.bind (read_char CHR '']'' (read_scope_id s)) read_port)) = Some []"

definition parsed_udp_bind_addrs :: "WebRtcConfig \<Rightarrow> bytes list option" where
  "parsed_udp_bind_addrs config =
     (if wc_udp_bind_addrs config = [] \<or> \<not> list_all is_socket_addr (wc_udp_bind_addrs config) then None
      else Some (wc_udp_bind_addrs config))"

lemma is_socket_addr_examples:
  "is_socket_addr ''0.0.0.0:0''" "is_socket_addr ''[::1]:80''" "is_socket_addr ''[fe80::1%2]:443''" "is_socket_addr ''[::ffff:1.2.3.4]:1''"
  "\<not> is_socket_addr ''01.2.3.4:5''" "\<not> is_socket_addr ''1.2.3.4''" "\<not> is_socket_addr ''1.2.3.256:1''" "\<not> is_socket_addr ''[1:2:3:4:5:6:7:8:9]:1''" "\<not> is_socket_addr ''::1:80''"
  by code_simp+

section \<open>The registry\<close>

datatype RegistrySlot = Reserved | Active nat

record Registry =
  rg_slots :: "(nat \<times> RegistrySlot) list"
  rg_next_slot_id :: nat
  rg_terminal_draining :: bool
  rg_closing :: "nat list"

definition registry_new :: Registry where
  "registry_new = \<lparr>rg_slots = [], rg_next_slot_id = 0, rg_terminal_draining = False, rg_closing = []\<rparr>"

definition spawn_close :: "nat \<Rightarrow> Registry \<Rightarrow> Registry" where
  "spawn_close pc reg = reg\<lparr>rg_closing := rg_closing reg @ [pc]\<rparr>"

definition reserve_slot :: "WebRtcConfig \<Rightarrow> Registry \<Rightarrow> nat option \<times> Registry" where
  "reserve_slot config reg =
     (if wc_max_peer_connections config \<le> length (rg_slots reg) then (None, reg)
      else (Some (rg_next_slot_id reg),
            reg\<lparr>rg_next_slot_id := Suc (rg_next_slot_id reg), rg_slots := rg_slots reg @ [(rg_next_slot_id reg, Reserved)]\<rparr>))"

fun set_slot :: "nat \<Rightarrow> RegistrySlot \<Rightarrow> (nat \<times> RegistrySlot) list \<Rightarrow> (nat \<times> RegistrySlot) list" where
  "set_slot i slot [] = []"
| "set_slot i slot ((j, old) # slots) = (if j = i then (j, slot) # slots else (j, old) # set_slot i slot slots)"

definition activate_slot :: "nat \<Rightarrow> nat \<Rightarrow> Registry \<Rightarrow> bool \<times> Registry" where
  "activate_slot i pc reg =
     (if rg_terminal_draining reg then (False, spawn_close pc (reg\<lparr>rg_slots := filter (\<lambda>(j, _). j \<noteq> i) (rg_slots reg)\<rparr>))
      else if i \<in> set (map fst (rg_slots reg)) then (True, reg\<lparr>rg_slots := set_slot i (Active pc) (rg_slots reg)\<rparr>)
      else (False, spawn_close pc reg))"

text \<open>The first entry of the slot is removed, and a peer connection in it is closed.\<close>

fun remove_slot :: "nat \<Rightarrow> (nat \<times> RegistrySlot) list \<Rightarrow> RegistrySlot option \<times> (nat \<times> RegistrySlot) list" where
  "remove_slot i [] = (None, [])"
| "remove_slot i ((j, slot) # slots) =
     (if j = i then (Some slot, slots) else (case remove_slot i slots of (removed, slots) \<Rightarrow> (removed, (j, slot) # slots)))"

definition release_slot :: "nat \<Rightarrow> Registry \<Rightarrow> Registry" where
  "release_slot i reg =
     (case remove_slot i (rg_slots reg) of
        (Some (Active pc), slots) \<Rightarrow> spawn_close pc (reg\<lparr>rg_slots := slots\<rparr>)
      | (_, slots) \<Rightarrow> reg\<lparr>rg_slots := slots\<rparr>)"

fun active_peer :: "RegistrySlot \<Rightarrow> nat option" where
  "active_peer Reserved = None"
| "active_peer (Active pc) = Some pc"

definition take_active_peers :: "Registry \<Rightarrow> nat list \<times> Registry" where
  "take_active_peers reg =
     (List.map_filter (\<lambda>(_, slot). active_peer slot) (rg_slots reg), reg\<lparr>rg_slots := filter (\<lambda>(_, slot). active_peer slot = None) (rg_slots reg)\<rparr>)"

definition begin_terminal_drain :: "Registry \<Rightarrow> Registry" where
  "begin_terminal_drain reg = reg\<lparr>rg_terminal_draining := True\<rparr>"

definition close_active_peers :: "Registry \<Rightarrow> Registry" where
  "close_active_peers reg = (case take_active_peers reg of (peers, reg) \<Rightarrow> fold spawn_close peers reg)"

section \<open>The request\<close>

definition rtc_error_response :: "nat \<Rightarrow> bytes \<Rightarrow> Response" where
  "rtc_error_response status body = with_content_type (response_new status body) ''application/json''"

definition rtc_error :: "nat \<Rightarrow> bytes \<Rightarrow> Response" where
  "rtc_error status code = rtc_error_response status (''{'' @ [dquote] @ ''error'' @ [dquote] @ '':'' @ [dquote] @ code @ [dquote] @ ''}'')"

datatype OfferStart = OtherRequest | Refused Response | Signaling nat

definition start_offer :: "WebRtcConfig \<Rightarrow> RequestHead \<Rightarrow> bytes \<Rightarrow> Registry \<Rightarrow> OfferStart \<times> Registry" where
  "start_offer config head body reg =
     (if head_method head \<noteq> ''POST'' \<or> head_target head \<noteq> OFFER_PATH then (OtherRequest, reg)
      else case Option.bind (header head ''content-length'') (parse_unsigned USIZE_MAX) of
        None \<Rightarrow> (Refused (rtc_error 400 ''missing_content_length''), reg)
      | Some declared_len \<Rightarrow>
          if declared_len \<noteq> length body then (Refused (rtc_error 400 ''content_length_mismatch''), reg)
          else if wc_max_offer_bytes config < length body then (Refused (rtc_error 413 ''offer_too_large''), reg)
          else if parsed_udp_bind_addrs config = None then (Refused (rtc_error 500 ''peer_connection_init_failed''), reg)
          else case reserve_slot config reg of
            (None, reg) \<Rightarrow> (Refused (rtc_error 503 ''peer_connection_limit_reached''), reg)
          | (Some i, reg) \<Rightarrow> (Signaling i, reg))"

datatype SignalFailure = InvalidOfferJson | InitFailed | InvalidRemoteDescription | CreateAnswerFailed | SetLocalDescriptionFailed
  | LocalDescriptionMissing | SerializationFailed

fun failure_response :: "SignalFailure \<Rightarrow> Response" where
  "failure_response InvalidOfferJson = rtc_error 400 ''invalid_offer_json''"
| "failure_response InitFailed = rtc_error 500 ''peer_connection_init_failed''"
| "failure_response InvalidRemoteDescription = rtc_error 400 ''invalid_remote_description''"
| "failure_response CreateAnswerFailed = rtc_error 500 ''create_answer_failed''"
| "failure_response SetLocalDescriptionFailed = rtc_error 500 ''set_local_description_failed''"
| "failure_response LocalDescriptionMissing = rtc_error 500 ''local_description_missing''"
| "failure_response SerializationFailed = rtc_error 500 ''serialization_failed''"

section \<open>Signaling\<close>

datatype PcState = Empty | Building | Abandoned | Held nat

text \<open>Where the request is: it parses the offer, waits for the peer connection, negotiates, waits for the close of a failed one (with the response it will give), registers the
  peer connection it has taken out of the guard, or drops the guard; then it is over.\<close>

datatype Stage = Parsing | AwaitBuild | Negotiating | Finishing Response | Activating nat bytes | Dropping "nat option" | Over

text \<open>The task that builds the peer connection: not started, at work, about to release the slot, or finished.\<close>

datatype BuildTask = NotStarted | Running | Releasing | Finished

record RtcSession =
  ss_stage :: Stage
  ss_state :: PcState
  ss_build :: BuildTask
  ss_result :: "bool option"
  ss_response :: "Response option"

definition session_start :: RtcSession where
  "session_start = \<lparr>ss_stage = Parsing, ss_state = Empty, ss_build = NotStarted, ss_result = None, ss_response = None\<rparr>"

record Signals =
  sg_registry :: Registry
  sg_sessions :: "nat \<Rightarrow> RtcSession option"
  sg_peers :: "nat set"
  sg_drained :: bool

definition with_session :: "nat \<Rightarrow> RtcSession \<Rightarrow> Signals \<Rightarrow> Signals" where
  "with_session i ss w = w\<lparr>sg_sessions := (sg_sessions w)(i \<mapsto> ss)\<rparr>"

definition on_registry :: "(Registry \<Rightarrow> Registry) \<Rightarrow> Signals \<Rightarrow> Signals" where
  "on_registry f w = w\<lparr>sg_registry := f (sg_registry w)\<rparr>"

text \<open>\<^verbatim>\<open>SignalingGuard::finish\<close>: the close of a peer connection that the guard holds, and after it the release of the slot.\<close>

definition begin_finish :: "nat \<Rightarrow> Response \<Rightarrow> RtcSession \<Rightarrow> Signals \<Rightarrow> Signals" where
  "begin_finish i response ss w =
     with_session i (ss\<lparr>ss_stage := Finishing response\<rparr>)
       (case ss_state ss of Held pc \<Rightarrow> on_registry (spawn_close pc) w | _ \<Rightarrow> w)"

definition end_finish :: "nat \<Rightarrow> Response \<Rightarrow> RtcSession \<Rightarrow> Signals \<Rightarrow> Signals" where
  "end_finish i response ss w = with_session i (ss\<lparr>ss_stage := Over, ss_response := Some response\<rparr>) (on_registry (release_slot i) w)"

text \<open>\<^verbatim>\<open>SignalingGuard::build_owned\<close> and the task \<^verbatim>\<open>run_build\<close>; the outcome of the stack is an argument. A task that panics or is cancelled does what one that fails does.\<close>

definition build_owned :: "nat \<Rightarrow> RtcSession \<Rightarrow> Signals \<Rightarrow> Signals" where
  "build_owned i ss w = with_session i (ss\<lparr>ss_stage := AwaitBuild, ss_state := Building, ss_build := Running\<rparr>) w"

definition build_done :: "nat \<Rightarrow> bool \<Rightarrow> RtcSession \<Rightarrow> Signals \<Rightarrow> Signals" where
  "build_done i built ss w =
     (if built then
        let w = w\<lparr>sg_peers := insert i (sg_peers w)\<rparr> in
        (if ss_state ss = Building
         then with_session i (ss\<lparr>ss_state := Held i, ss_build := Finished, ss_result := Some True\<rparr>) w
         else with_session i (ss\<lparr>ss_build := Releasing\<rparr>) (on_registry (spawn_close i) w))
      else with_session i (ss\<lparr>ss_state := (if ss_state ss = Building then Empty else ss_state ss), ss_build := Releasing\<rparr>) w)"

definition build_release :: "nat \<Rightarrow> RtcSession \<Rightarrow> Signals \<Rightarrow> Signals" where
  "build_release i ss w = with_session i (ss\<lparr>ss_build := Finished, ss_result := Some False\<rparr>) (on_registry (release_slot i) w)"

text \<open>\<^verbatim>\<open>SignalingGuard::activate\<close>: take the peer connection out of the guard, then register it.\<close>

definition begin_activate :: "nat \<Rightarrow> nat \<Rightarrow> bytes \<Rightarrow> RtcSession \<Rightarrow> Signals \<Rightarrow> Signals" where
  "begin_activate i pc answer ss w = with_session i (ss\<lparr>ss_stage := Activating pc answer, ss_state := Empty\<rparr>) w"

definition end_activate :: "nat \<Rightarrow> nat \<Rightarrow> bytes \<Rightarrow> RtcSession \<Rightarrow> Signals \<Rightarrow> Signals" where
  "end_activate i pc answer ss w =
     with_session i (ss\<lparr>ss_stage := Over, ss_response := Some (with_content_type (response_new 200 answer) ''application/json'')\<rparr>)
       (on_registry (\<lambda>reg. snd (activate_slot i pc reg)) w)"

text \<open>\<^verbatim>\<open>Drop for SignalingGuard\<close>, after the deadline (with the response 504) or because the whole request was dropped.\<close>

definition begin_drop :: "nat \<Rightarrow> Response option \<Rightarrow> RtcSession \<Rightarrow> Signals \<Rightarrow> Signals" where
  "begin_drop i response ss w =
     (case ss_state ss of
        Building \<Rightarrow> with_session i (ss\<lparr>ss_stage := Over, ss_state := Abandoned, ss_response := response\<rparr>) w
      | Held pc \<Rightarrow> with_session i (ss\<lparr>ss_stage := Dropping (Some pc), ss_state := Empty, ss_response := response\<rparr>) w
      | _ \<Rightarrow> with_session i (ss\<lparr>ss_stage := Dropping None, ss_state := Empty, ss_response := response\<rparr>) w)"

definition end_drop :: "nat \<Rightarrow> nat option \<Rightarrow> RtcSession \<Rightarrow> Signals \<Rightarrow> Signals" where
  "end_drop i pc ss w =
     with_session i (ss\<lparr>ss_stage := Over\<rparr>)
       (on_registry (\<lambda>reg. case pc of Some pc \<Rightarrow> spawn_close pc (release_slot i reg) | None \<Rightarrow> release_slot i reg) w)"

definition signaling_timeout_response :: Response where
  "signaling_timeout_response = rtc_error 504 ''signaling_timeout''"

text \<open>The failures that a stage can have; waiting for the build fails when the task failed, or when the guard does not hold what it built.\<close>

definition may_fail :: "RtcSession \<Rightarrow> SignalFailure \<Rightarrow> bool" where
  "may_fail ss f \<longleftrightarrow>
     (case ss_stage ss of
        Parsing \<Rightarrow> f = InvalidOfferJson
      | AwaitBuild \<Rightarrow> f = InitFailed \<and> ss_build ss = Finished \<and> (ss_result ss \<noteq> Some True \<or> (\<forall>pc. ss_state ss \<noteq> Held pc))
      | Negotiating \<Rightarrow> f \<in> {InvalidRemoteDescription, CreateAnswerFailed, SetLocalDescriptionFailed, LocalDescriptionMissing, SerializationFailed}
      | _ \<Rightarrow> False)"

definition at_await :: "RtcSession \<Rightarrow> bool" where
  "at_await ss \<longleftrightarrow> (case ss_stage ss of AwaitBuild \<Rightarrow> True | Negotiating \<Rightarrow> True | Finishing _ \<Rightarrow> True | _ \<Rightarrow> False)"

text \<open>\<^verbatim>\<open>on_connection_state_change\<close>, which the stack calls with the new state of the peer connection of a slot.\<close>

datatype RTCPeerConnectionState = PcNew | PcConnecting | PcConnected | PcDisconnected | PcFailed | PcClosed

definition on_connection_state_change :: "nat \<Rightarrow> RTCPeerConnectionState \<Rightarrow> Registry \<Rightarrow> Registry" where
  "on_connection_state_change i state reg = (if state = PcClosed \<or> state = PcFailed then release_slot i reg else reg)"

text \<open>\<^verbatim>\<open>drain::close_active_peers\<close> as a step; it is remembered whether the terminal drain had begun.\<close>

definition close_peers :: "Signals \<Rightarrow> Signals" where
  "close_peers w = (on_registry close_active_peers w)\<lparr>sg_drained := rg_terminal_draining (sg_registry w)\<rparr>"

inductive signaling_step :: "WebRtcConfig \<Rightarrow> Signals \<Rightarrow> Signals \<Rightarrow> bool" for config where
  offer: "start_offer config head body (sg_registry w) = (Signaling i, reg) \<Longrightarrow>
    signaling_step config w (with_session i session_start (w\<lparr>sg_registry := reg\<rparr>))"
| fails: "sg_sessions w i = Some ss \<Longrightarrow> may_fail ss f \<Longrightarrow> signaling_step config w (begin_finish i (failure_response f) ss w)"
| finished: "sg_sessions w i = Some ss \<Longrightarrow> ss_stage ss = Finishing response \<Longrightarrow> signaling_step config w (end_finish i response ss w)"
| build_started: "sg_sessions w i = Some ss \<Longrightarrow> ss_stage ss = Parsing \<Longrightarrow> signaling_step config w (build_owned i ss w)"
| build_ended: "sg_sessions w i = Some ss \<Longrightarrow> ss_build ss = Running \<Longrightarrow> signaling_step config w (build_done i built ss w)"
| build_released: "sg_sessions w i = Some ss \<Longrightarrow> ss_build ss = Releasing \<Longrightarrow> signaling_step config w (build_release i ss w)"
| built: "sg_sessions w i = Some ss \<Longrightarrow> ss_stage ss = AwaitBuild \<Longrightarrow> ss_result ss = Some True \<Longrightarrow> ss_state ss = Held pc \<Longrightarrow>
    signaling_step config w (with_session i (ss\<lparr>ss_stage := Negotiating\<rparr>) w)"
| negotiated: "sg_sessions w i = Some ss \<Longrightarrow> ss_stage ss = Negotiating \<Longrightarrow> ss_state ss = Held pc \<Longrightarrow>
    signaling_step config w (begin_activate i pc answer ss w)"
| activated: "sg_sessions w i = Some ss \<Longrightarrow> ss_stage ss = Activating pc answer \<Longrightarrow> signaling_step config w (end_activate i pc answer ss w)"
| deadline: "sg_sessions w i = Some ss \<Longrightarrow> at_await ss \<Longrightarrow> signaling_step config w (begin_drop i (Some signaling_timeout_response) ss w)"
| request_dropped: "sg_sessions w i = Some ss \<Longrightarrow> at_await ss \<Longrightarrow> signaling_step config w (begin_drop i None ss w)"
| guard_dropped: "sg_sessions w i = Some ss \<Longrightarrow> ss_stage ss = Dropping pc \<Longrightarrow> signaling_step config w (end_drop i pc ss w)"
| peer_gone: "sg_sessions w i = Some ss \<Longrightarrow> ss_build ss \<noteq> NotStarted \<Longrightarrow> signaling_step config w (on_registry (on_connection_state_change i state) w)"
| drain_begun: "signaling_step config w (on_registry begin_terminal_drain w)"
| peers_closed: "signaling_step config w (close_peers w)"

definition signals_new :: Signals where
  "signals_new = \<lparr>sg_registry = registry_new, sg_sessions = (\<lambda>_. None), sg_peers = {}, sg_drained = False\<rparr>"

text \<open>\<^verbatim>\<open>drain_for_shutdown\<close>, and \<^verbatim>\<open>SessionDrain::fire\<close> of the server (on a shutdown, or when a generation is replaced), as the sequence of their steps.\<close>

definition drain_for_shutdown :: "(Signals \<Rightarrow> Signals) list" where
  "drain_for_shutdown = [on_registry begin_terminal_drain, close_peers]"

definition session_drain_fire :: "bool \<Rightarrow> (Signals \<Rightarrow> Signals) list" where
  "session_drain_fire is_final = (if is_final then drain_for_shutdown else [close_peers])"

inductive signals_reachable :: "WebRtcConfig \<Rightarrow> Signals \<Rightarrow> bool" for config where
  start: "signals_reachable config signals_new"
| step: "signals_reachable config w \<Longrightarrow> signaling_step config w w' \<Longrightarrow> signals_reachable config w'"

section \<open>The registry as a map\<close>

abbreviation slot :: "Registry \<Rightarrow> nat \<Rightarrow> RegistrySlot option" where
  "slot reg \<equiv> map_of (rg_slots reg)"

definition registry_ok :: "WebRtcConfig \<Rightarrow> Registry \<Rightarrow> bool" where
  "registry_ok config reg \<longleftrightarrow> distinct (map fst (rg_slots reg)) \<and> length (rg_slots reg) \<le> wc_max_peer_connections config \<and>
     (\<forall>i\<in>set (map fst (rg_slots reg)). i < rg_next_slot_id reg)"

lemma registry_okI:
  assumes "registry_ok config reg" "distinct (map fst (rg_slots reg'))" "set (map fst (rg_slots reg')) \<subseteq> set (map fst (rg_slots reg))"
    "length (map fst (rg_slots reg')) \<le> length (rg_slots reg)" "rg_next_slot_id reg' = rg_next_slot_id reg"
  shows "registry_ok config reg'"
proof -
  have "\<forall>i\<in>set (map fst (rg_slots reg')). i < rg_next_slot_id reg'" using assms(1,3,5) unfolding registry_ok_def by (metis subsetD)
  then show ?thesis using assms unfolding registry_ok_def by auto
qed

lemma spawn_close_simps [simp]:
  "rg_slots (spawn_close pc reg) = rg_slots reg" "rg_next_slot_id (spawn_close pc reg) = rg_next_slot_id reg"
  "rg_terminal_draining (spawn_close pc reg) = rg_terminal_draining reg" "set (rg_closing (spawn_close pc reg)) = insert pc (set (rg_closing reg))"
  by (auto simp: spawn_close_def)

lemma remove_slot_map:
  assumes "distinct (map fst slots)" "remove_slot i slots = (removed, slots')"
  shows "removed = map_of slots i \<and> map_of slots' = (map_of slots)(i := None) \<and> distinct (map fst slots') \<and>
    set (map fst slots') \<subseteq> set (map fst slots) \<and> length slots' \<le> length slots"
  using assms
proof (induction slots arbitrary: slots')
  case (Cons a slots)
  obtain j old where a: "a = (j, old)" by fastforce
  show ?case
  proof (cases "j = i")
    case True
    then have "map_of slots i = None" using Cons.prems(1) by (simp add: a map_of_eq_None_iff)
    then show ?thesis using Cons.prems True by (auto simp: a fun_eq_iff)
  next
    case False
    then obtain rest where rest: "remove_slot i slots = (removed, rest)" "slots' = (j, old) # rest"
      using Cons.prems(2) by (auto simp: a split: prod.splits)
    then show ?thesis using Cons.IH [OF _ rest(1)] Cons.prems(1) False by (auto simp: a fun_eq_iff)
  qed
qed simp

lemma release_slot_map:
  assumes "registry_ok config reg"
  shows "registry_ok config (release_slot i reg)" "slot (release_slot i reg) = (slot reg)(i := None)"
    "set (rg_closing (release_slot i reg)) = set (rg_closing reg) \<union> {pc. slot reg i = Some (Active pc)}"
    "rg_next_slot_id (release_slot i reg) = rg_next_slot_id reg" "rg_terminal_draining (release_slot i reg) = rg_terminal_draining reg"
proof -
  obtain removed slots where removed: "remove_slot i (rg_slots reg) = (removed, slots)" by fastforce
  have facts: "removed = slot reg i" "map_of slots = (slot reg)(i := None)" "distinct (map fst slots)"
    "set (map fst slots) \<subseteq> set (map fst (rg_slots reg))" "length slots \<le> length (rg_slots reg)"
    using remove_slot_map [OF _ removed] assms by (auto simp: registry_ok_def)
  have eq: "release_slot i reg = (case slot reg i of Some (Active pc) \<Rightarrow> spawn_close pc (reg\<lparr>rg_slots := slots\<rparr>) | _ \<Rightarrow> reg\<lparr>rg_slots := slots\<rparr>)"
    by (simp add: release_slot_def removed facts(1) [symmetric] split: option.split RegistrySlot.split)
  show "registry_ok config (release_slot i reg)"
    using assms by (rule registry_okI) (use facts(3-5) in \<open>simp_all add: eq split: option.split RegistrySlot.split\<close>)
  show "slot (release_slot i reg) = (slot reg)(i := None)"
    by (auto simp: eq facts(2) split: option.split RegistrySlot.split)
  show "set (rg_closing (release_slot i reg)) = set (rg_closing reg) \<union> {pc. slot reg i = Some (Active pc)}"
    "rg_next_slot_id (release_slot i reg) = rg_next_slot_id reg" "rg_terminal_draining (release_slot i reg) = rg_terminal_draining reg"
    by (auto simp: eq split: option.split RegistrySlot.split)
qed

lemma set_slot_map: "i \<in> set (map fst slots) \<Longrightarrow> map_of (set_slot i new slots) = (map_of slots)(i \<mapsto> new)"
proof (induction i new slots rule: set_slot.induct)
  case (2 i new j old slots)
  then show ?case by (cases "j = i") (auto simp: fun_eq_iff)
qed simp

lemma set_slot_keys: "map fst (set_slot i new slots) = map fst slots"
  by (induction i new slots rule: set_slot.induct) simp_all

lemma set_slot_keys': "fst ` set (set_slot i new slots) = fst ` set slots" "length (set_slot i new slots) = length slots"
  using set_slot_keys by (metis list.set_map, metis length_map)

lemma map_of_filter_key: "map_of (filter (\<lambda>(j, _). j \<noteq> i) xs) = (map_of xs)(i := None)"
  by (induction xs) (auto simp: fun_eq_iff)

lemma activate_slot_map:
  assumes "registry_ok config reg"
  shows "registry_ok config (snd (activate_slot i pc reg))"
    "slot (snd (activate_slot i pc reg)) = (slot reg)(i := (if \<not> rg_terminal_draining reg \<and> slot reg i \<noteq> None then Some (Active pc) else None))"
    "set (rg_closing (snd (activate_slot i pc reg))) =
       set (rg_closing reg) \<union> (if \<not> rg_terminal_draining reg \<and> slot reg i \<noteq> None then {} else {pc})"
    "rg_next_slot_id (snd (activate_slot i pc reg)) = rg_next_slot_id reg"
    "rg_terminal_draining (snd (activate_slot i pc reg)) = rg_terminal_draining reg"
proof -
  have dom: "i \<in> set (map fst (rg_slots reg)) \<longleftrightarrow> slot reg i \<noteq> None" by (simp add: map_of_eq_None_iff)
  show "registry_ok config (snd (activate_slot i pc reg))"
    using assms
  proof (rule registry_okI)
    have "distinct (map fst (rg_slots reg))" using assms by (simp add: registry_ok_def)
    then show "distinct (map fst (rg_slots (snd (activate_slot i pc reg))))" by (simp add: activate_slot_def set_slot_keys distinct_map_filter)
    show "set (map fst (rg_slots (snd (activate_slot i pc reg)))) \<subseteq> set (map fst (rg_slots reg))"
      "length (map fst (rg_slots (snd (activate_slot i pc reg)))) \<le> length (rg_slots reg)"
      by (auto simp: activate_slot_def set_slot_keys')
  qed (simp add: activate_slot_def)
  show "slot (snd (activate_slot i pc reg)) = (slot reg)(i := (if \<not> rg_terminal_draining reg \<and> slot reg i \<noteq> None then Some (Active pc) else None))"
    using dom by (auto simp: activate_slot_def set_slot_map map_of_filter_key fun_eq_iff)
  show "set (rg_closing (snd (activate_slot i pc reg))) =
       set (rg_closing reg) \<union> (if \<not> rg_terminal_draining reg \<and> slot reg i \<noteq> None then {} else {pc})"
    using dom by (auto simp: activate_slot_def)
qed (auto simp: activate_slot_def)

lemma fold_spawn_close:
  "rg_slots (fold spawn_close pcs reg) = rg_slots reg" "rg_next_slot_id (fold spawn_close pcs reg) = rg_next_slot_id reg"
  "rg_terminal_draining (fold spawn_close pcs reg) = rg_terminal_draining reg"
  "set (rg_closing (fold spawn_close pcs reg)) = set (rg_closing reg) \<union> set pcs"
  by (induction pcs arbitrary: reg) auto

lemma map_of_filter_value: "distinct (map fst xs) \<Longrightarrow>
  map_of (filter (\<lambda>(_, v). P v) xs) i = (case map_of xs i of Some v \<Rightarrow> if P v then Some v else None | None \<Rightarrow> None)"
  by (induction xs) (auto simp: map_of_eq_None_iff image_iff split: option.splits)

lemma close_active_peers_map:
  assumes "registry_ok config reg"
  shows "registry_ok config (close_active_peers reg)"
    "slot (close_active_peers reg) i = (if slot reg i = Some Reserved then Some Reserved else None)"
    "set (rg_closing (close_active_peers reg)) = set (rg_closing reg) \<union> {pc. \<exists>i. slot reg i = Some (Active pc)}"
    "rg_next_slot_id (close_active_peers reg) = rg_next_slot_id reg" "rg_terminal_draining (close_active_peers reg) = rg_terminal_draining reg"
proof -
  have dist: "distinct (map fst (rg_slots reg))" using assms by (simp add: registry_ok_def)
  show "registry_ok config (close_active_peers reg)"
    using assms by (rule registry_okI) (use dist in \<open>auto simp: close_active_peers_def take_active_peers_def fold_spawn_close distinct_map_filter\<close>)
  show "slot (close_active_peers reg) i = (if slot reg i = Some Reserved then Some Reserved else None)"
  proof -
    have eq: "slot (close_active_peers reg) i = (case slot reg i of Some v \<Rightarrow> if active_peer v = None then Some v else None | None \<Rightarrow> None)"
      unfolding map_of_filter_value [OF dist, symmetric] by (simp add: close_active_peers_def take_active_peers_def fold_spawn_close)
    show ?thesis
    proof (cases "slot reg i")
      case (Some v)
      then show ?thesis unfolding eq by (cases v) simp_all
    qed (simp add: eq)
  qed
  have peers: "set (List.map_filter (\<lambda>(_, s). active_peer s) xs) = {pc. \<exists>i. (i, Active pc) \<in> set xs}" for xs
  proof (induction xs)
    case (Cons a xs)
    obtain j s where a: "a = (j, s)" by fastforce
    show ?case using Cons.IH by (cases s) (auto simp: a List.map_filter_simps)
  qed (simp add: List.map_filter_simps)
  show "set (rg_closing (close_active_peers reg)) = set (rg_closing reg) \<union> {pc. \<exists>i. slot reg i = Some (Active pc)}"
    unfolding close_active_peers_def take_active_peers_def case_prod_conv fold_spawn_close peers using dist by (simp add: map_of_eq_Some_iff)
qed (auto simp: close_active_peers_def take_active_peers_def fold_spawn_close)

section \<open>Ownership\<close>

text \<open>A request owns its peer connection while its guard holds it, and while it registers or drops it; it answers for its slot until it is over and its build task is done.\<close>

definition owns_peer :: "nat \<Rightarrow> RtcSession \<Rightarrow> bool" where
  "owns_peer i ss \<longleftrightarrow> ss_state ss = Held i \<and> ss_stage ss \<noteq> Over \<or> (\<exists>answer. ss_stage ss = Activating i answer) \<or> ss_stage ss = Dropping (Some i)"

definition owns_slot :: "RtcSession \<Rightarrow> bool" where
  "owns_slot ss \<longleftrightarrow> ss_stage ss \<noteq> Over \<or> ss_build ss = Running \<or> ss_build ss = Releasing"

definition session_ok :: "nat \<Rightarrow> bool \<Rightarrow> RtcSession \<Rightarrow> bool" where
  "session_ok i peer ss \<longleftrightarrow>
     (case ss_state ss of
        Held pc \<Rightarrow> pc = i \<and> peer \<and> ss_build ss = Finished
      | Building \<Rightarrow> ss_build ss = Running \<and> ss_stage ss = AwaitBuild
      | Abandoned \<Rightarrow> ss_stage ss = Over
      | Empty \<Rightarrow> ss_build ss \<noteq> Running) \<and>
     (ss_build ss = Running \<or> ss_build ss = NotStarted \<longrightarrow> \<not> peer) \<and>
     (case ss_stage ss of
        Parsing \<Rightarrow> ss_state ss = Empty \<and> ss_build ss = NotStarted
      | Negotiating \<Rightarrow> ss_state ss = Held i
      | Activating pc _ \<Rightarrow> pc = i \<and> peer
      | Dropping pc \<Rightarrow> ss_state ss = Empty \<and> (\<forall>p. pc = Some p \<longrightarrow> p = i \<and> peer)
      | _ \<Rightarrow> True)"

definition local_ok :: "nat \<Rightarrow> RegistrySlot option \<Rightarrow> RtcSession option \<Rightarrow> bool \<Rightarrow> bool \<Rightarrow> bool" where
  "local_ok i entry sess peer closing \<longleftrightarrow>
     (case sess of
        None \<Rightarrow> entry = None \<and> \<not> peer
      | Some ss \<Rightarrow> session_ok i peer ss \<and> (entry = Some Reserved \<longrightarrow> owns_slot ss) \<and>
          (peer \<longrightarrow> closing \<or> entry = Some (Active i) \<or> owns_peer i ss) \<and>
          (\<forall>response. ss_stage ss = Finishing response \<and> ss_state ss = Held i \<longrightarrow> closing)) \<and>
     (\<forall>pc. entry = Some (Active pc) \<longrightarrow> pc = i \<and> peer)"

abbreviation entry :: "Signals \<Rightarrow> nat \<Rightarrow> RegistrySlot option" where
  "entry w i \<equiv> slot (sg_registry w) i"

abbreviation closes :: "Signals \<Rightarrow> nat set" where
  "closes w \<equiv> set (rg_closing (sg_registry w))"

definition rtc_signals_ok :: "WebRtcConfig \<Rightarrow> Signals \<Rightarrow> bool" where
  "rtc_signals_ok config w \<longleftrightarrow> registry_ok config (sg_registry w) \<and>
     (\<forall>i. local_ok i (entry w i) (sg_sessions w i) (i \<in> sg_peers w) (i \<in> closes w)) \<and>
     (\<forall>i\<ge>rg_next_slot_id (sg_registry w). sg_sessions w i = None) \<and>
     (sg_drained w \<longrightarrow> rg_terminal_draining (sg_registry w) \<and> (\<forall>i pc. entry w i \<noteq> Some (Active pc)))"

lemma local_ok_closing: "local_ok i e s p c \<Longrightarrow> (c \<Longrightarrow> c') \<Longrightarrow> local_ok i e s p c'"
  by (auto simp: local_ok_def split: option.splits)

text \<open>A step of one session: the others see at most more closes.\<close>

lemma rtc_signals_ok_frame:
  assumes "rtc_signals_ok config w" "registry_ok config (sg_registry w')"
    and "\<And>j. j \<noteq> i \<Longrightarrow> entry w' j = entry w j \<and> sg_sessions w' j = sg_sessions w j \<and> (j \<in> sg_peers w' \<longleftrightarrow> j \<in> sg_peers w)"
    and "closes w \<subseteq> closes w'" "rg_next_slot_id (sg_registry w') = rg_next_slot_id (sg_registry w)"
    and "i < rg_next_slot_id (sg_registry w)"
    and "local_ok i (entry w' i) (sg_sessions w' i) (i \<in> sg_peers w') (i \<in> closes w')"
    and "rg_terminal_draining (sg_registry w') = rg_terminal_draining (sg_registry w)" "sg_drained w' = sg_drained w"
    and "\<And>pc. sg_drained w \<Longrightarrow> entry w' i = Some (Active pc) \<Longrightarrow> entry w i = Some (Active pc)"
  shows "rtc_signals_ok config w'"
proof -
  have "local_ok j (entry w' j) (sg_sessions w' j) (j \<in> sg_peers w') (j \<in> closes w')" for j
  proof (cases "j = i")
    case False
    then show ?thesis using assms(1,3,4) by (auto simp: rtc_signals_ok_def intro: local_ok_closing)
  qed (simp add: assms(7))
  moreover have "sg_sessions w' j = None" if "rg_next_slot_id (sg_registry w') \<le> j" for j
    using that assms(1,3,5,6) by (cases "j = i") (auto simp: rtc_signals_ok_def)
  moreover have "entry w' j \<noteq> Some (Active pc)" if "sg_drained w" for j pc
    using that assms(1,3,10) by (cases "j = i") (auto simp: rtc_signals_ok_def)
  ultimately show ?thesis using assms(1,2,8,9) by (auto simp: rtc_signals_ok_def)
qed

lemma session_facts:
  assumes "rtc_signals_ok config w" "sg_sessions w i = Some ss"
  shows "i < rg_next_slot_id (sg_registry w)" "registry_ok config (sg_registry w)"
    "local_ok i (entry w i) (Some ss) (i \<in> sg_peers w) (i \<in> closes w)"
  using assms unfolding rtc_signals_ok_def by (metis leI option.discI, blast, metis)

text \<open>A step that only replaces the session.\<close>

lemma with_session_ok:
  assumes "rtc_signals_ok config w" "sg_sessions w i = Some ss" "local_ok i (entry w i) (Some ss') (i \<in> sg_peers w) (i \<in> closes w)"
  shows "rtc_signals_ok config (with_session i ss' w)"
  using assms session_facts [OF assms(1,2)] by (intro rtc_signals_ok_frame [OF assms(1), of _ i]) (auto simp: with_session_def)

text \<open>A step that replaces the session and applies an operation on its own slot to the registry.\<close>

lemma with_registry_ok:
  assumes "rtc_signals_ok config w" "sg_sessions w i = Some ss" "registry_ok config (f (sg_registry w))"
    and "\<And>j. j \<noteq> i \<Longrightarrow> slot (f (sg_registry w)) j = entry w j" "closes w \<subseteq> set (rg_closing (f (sg_registry w)))"
    and "rg_next_slot_id (f (sg_registry w)) = rg_next_slot_id (sg_registry w)"
    and "rg_terminal_draining (f (sg_registry w)) = rg_terminal_draining (sg_registry w)"
    and "\<And>pc. sg_drained w \<Longrightarrow> slot (f (sg_registry w)) i = Some (Active pc) \<Longrightarrow> entry w i = Some (Active pc)"
    and "local_ok i (slot (f (sg_registry w)) i) (Some ss') (i \<in> sg_peers w) (i \<in> set (rg_closing (f (sg_registry w))))"
  shows "rtc_signals_ok config (with_session i ss' (on_registry f w))"
  using assms session_facts [OF assms(1,2)] by (intro rtc_signals_ok_frame [OF assms(1), of _ i]) (auto simp: with_session_def on_registry_def)

lemma release_ok:
  assumes "rtc_signals_ok config w" "sg_sessions w i = Some ss"
    and "local_ok i None (Some ss') (i \<in> sg_peers w) (i \<in> closes w \<or> entry w i = Some (Active i))"
  shows "rtc_signals_ok config (with_session i ss' (on_registry (release_slot i) w))"
proof -
  note facts = session_facts [OF assms(1,2)]
  note rel = release_slot_map [OF facts(2), of i]
  have "{pc. entry w i = Some (Active pc)} = (if entry w i = Some (Active i) then {i} else {})"
    using facts(3) by (auto simp: local_ok_def)
  then show ?thesis using assms facts rel by (intro with_registry_ok) auto
qed

section \<open>The invariant holds\<close>

lemma on_registry_compose: "on_registry f (on_registry g w) = on_registry (f \<circ> g) w"
  by (simp add: on_registry_def)

lemmas local_simps = local_ok_def session_ok_def owns_slot_def owns_peer_def

lemma offer_ok:
  assumes "rtc_signals_ok config w" "start_offer config head body (sg_registry w) = (Signaling i, reg)"
  shows "rtc_signals_ok config (with_session i session_start (w\<lparr>sg_registry := reg\<rparr>))"
proof -
  have room: "length (rg_slots (sg_registry w)) < wc_max_peer_connections config" and i: "i = rg_next_slot_id (sg_registry w)"
    and reg: "reg = (sg_registry w)\<lparr>rg_next_slot_id := Suc i, rg_slots := rg_slots (sg_registry w) @ [(i, Reserved)]\<rparr>"
    using assms(2) by (auto simp: start_offer_def reserve_slot_def split: if_splits option.splits prod.splits)
  have ok: "registry_ok config (sg_registry w)" "\<And>j. local_ok j (entry w j) (sg_sessions w j) (j \<in> sg_peers w) (j \<in> closes w)"
    "\<And>j. i \<le> j \<Longrightarrow> sg_sessions w j = None"
    "sg_drained w \<Longrightarrow> rg_terminal_draining (sg_registry w) \<and> (\<forall>i pc. entry w i \<noteq> Some (Active pc))"
    using assms(1) i by (auto simp: rtc_signals_ok_def)
  have fresh: "entry w i = None" "i \<notin> sg_peers w" using ok(2) [of i] ok(3) [of i] by (auto simp: local_ok_def)
  then have slots: "slot reg = (slot (sg_registry w))(i \<mapsto> Reserved)" by (auto simp: reg map_add_def fun_eq_iff split: option.split)
  have "registry_ok config reg"
    using ok(1) room fresh(1) by (auto simp: registry_ok_def reg i map_of_eq_None_iff less_Suc_eq)
  moreover have "local_ok i (Some Reserved) (Some session_start) (i \<in> sg_peers w) c" for c
    using fresh(2) by (simp add: local_simps session_start_def)
  moreover have "rg_closing reg = rg_closing (sg_registry w)" "rg_terminal_draining reg = rg_terminal_draining (sg_registry w)"
    "rg_next_slot_id reg = Suc i" by (simp_all add: reg)
  ultimately show ?thesis using ok by (simp add: rtc_signals_ok_def with_session_def slots)
qed

lemma begin_finish_ok:
  assumes "rtc_signals_ok config w" "sg_sessions w i = Some ss" "may_fail ss f"
  shows "rtc_signals_ok config (begin_finish i response ss w)"
proof -
  note facts = session_facts [OF assms(1,2)]
  show ?thesis
  proof (cases "ss_state ss")
    case (Held pc)
    then have "pc = i" using facts(3) by (simp add: local_simps)
    then show ?thesis unfolding begin_finish_def Held PcState.case
      by (intro with_registry_ok [OF assms(1,2)]) (use facts Held assms(3) in \<open>auto simp: registry_ok_def local_simps may_fail_def\<close>)
  qed (unfold begin_finish_def, auto intro!: with_session_ok [OF assms(1,2)],
      use facts(3) assms(3) in \<open>auto simp: local_simps may_fail_def split: Stage.splits option.splits\<close>)
qed

lemma end_finish_ok:
  assumes "rtc_signals_ok config w" "sg_sessions w i = Some ss" "ss_stage ss = Finishing response"
  shows "rtc_signals_ok config (end_finish i response ss w)"
  unfolding end_finish_def
  by (rule release_ok [OF assms(1,2)])
    (use session_facts(3) [OF assms(1,2)] assms(3) in \<open>auto simp: local_simps split: PcState.splits\<close>)

lemma build_owned_ok:
  assumes "rtc_signals_ok config w" "sg_sessions w i = Some ss" "ss_stage ss = Parsing"
  shows "rtc_signals_ok config (build_owned i ss w)"
  unfolding build_owned_def
  by (rule with_session_ok [OF assms(1,2)]) (use session_facts(3) [OF assms(1,2)] assms(3) in \<open>auto simp: local_simps\<close>)

lemma build_done_ok:
  assumes "rtc_signals_ok config w" "sg_sessions w i = Some ss" "ss_build ss = Running"
  shows "rtc_signals_ok config (build_done i built ss w)"
proof -
  note facts = session_facts [OF assms(1,2)]
  have running: "ss_state ss = Building \<and> ss_stage ss = AwaitBuild \<or> ss_state ss = Abandoned \<and> ss_stage ss = Over" "i \<notin> sg_peers w"
    "\<forall>pc. entry w i \<noteq> Some (Active pc)"
    using facts(3) assms(3) by (auto simp: local_simps split: PcState.splits)
  show ?thesis
  proof (cases built)
    case True
    then show ?thesis unfolding build_done_def Let_def using running facts assms(3)
      by (intro rtc_signals_ok_frame [OF assms(1), of _ i]) (auto simp: with_session_def on_registry_def local_simps registry_ok_def)
  next
    case False
    then show ?thesis unfolding build_done_def using running facts(3) assms(3)
      by (auto intro!: with_session_ok [OF assms(1,2)] simp: local_simps)
  qed
qed

lemma build_release_ok:
  assumes "rtc_signals_ok config w" "sg_sessions w i = Some ss" "ss_build ss = Releasing"
  shows "rtc_signals_ok config (build_release i ss w)"
  unfolding build_release_def
  by (rule release_ok [OF assms(1,2)])
    (use session_facts(3) [OF assms(1,2)] assms(3) in \<open>auto simp: local_simps split: PcState.splits Stage.splits option.splits\<close>)

lemma begin_activate_ok:
  assumes "rtc_signals_ok config w" "sg_sessions w i = Some ss" "ss_stage ss = Negotiating" "ss_state ss = Held pc"
  shows "rtc_signals_ok config (begin_activate i pc answer ss w)"
  unfolding begin_activate_def
  by (rule with_session_ok [OF assms(1,2)]) (use session_facts(3) [OF assms(1,2)] assms(3,4) in \<open>auto simp: local_simps\<close>)

lemma end_activate_ok:
  assumes "rtc_signals_ok config w" "sg_sessions w i = Some ss" "ss_stage ss = Activating pc answer"
  shows "rtc_signals_ok config (end_activate i pc answer ss w)"
proof -
  note facts = session_facts [OF assms(1,2)]
  have pc: "pc = i" "i \<in> sg_peers w" using facts(3) assms(3) by (auto simp: local_simps)
  show ?thesis unfolding end_activate_def
    by (rule with_registry_ok [OF assms(1,2)])
      (use facts(3) pc assms(1,3) in \<open>auto simp: activate_slot_map [OF facts(2)] local_simps rtc_signals_ok_def split: PcState.splits\<close>)
qed

lemma begin_drop_ok:
  assumes "rtc_signals_ok config w" "sg_sessions w i = Some ss" "at_await ss"
  shows "rtc_signals_ok config (begin_drop i response ss w)"
  using session_facts(3) [OF assms(1,2)] assms(3) unfolding begin_drop_def
  by (cases "ss_state ss")
    (auto intro!: with_session_ok [OF assms(1,2)] simp: local_simps at_await_def split: Stage.splits)

lemma end_drop_ok:
  assumes "rtc_signals_ok config w" "sg_sessions w i = Some ss" "ss_stage ss = Dropping pc"
  shows "rtc_signals_ok config (end_drop i pc ss w)"
proof -
  note facts = session_facts [OF assms(1,2)]
  note rel = release_slot_map [OF facts(2), of i]
  show ?thesis
  proof (cases pc)
    case None
    then show ?thesis unfolding end_drop_def
      by (simp, intro release_ok [OF assms(1,2)]) (use facts(3) assms(3) in \<open>auto simp: local_simps split: PcState.splits\<close>)
  next
    case (Some p)
    then have p: "p = i" "i \<in> sg_peers w" using facts(3) assms(3) by (auto simp: local_simps)
    then show ?thesis unfolding end_drop_def Some option.case
      by (intro with_registry_ok [OF assms(1,2)])
        (use facts(3) rel p assms(3) Some in \<open>auto simp: registry_ok_def local_simps split: PcState.splits\<close>)
  qed
qed

lemma peer_gone_ok:
  assumes "rtc_signals_ok config w" "sg_sessions w i = Some ss"
  shows "rtc_signals_ok config (on_registry (on_connection_state_change i state) w)"
proof (cases "state = PcClosed \<or> state = PcFailed")
  case True
  then have "with_session i ss (on_registry (release_slot i) w) = on_registry (on_connection_state_change i state) w"
    using assms(2) by (simp add: with_session_def on_registry_def map_upd_triv on_connection_state_change_def)
  then show ?thesis
    using release_ok [OF assms, of ss] session_facts(3) [OF assms] by (auto simp: local_ok_def)
next
  case False
  then have "on_registry (on_connection_state_change i state) w = w" by (simp add: on_registry_def on_connection_state_change_def)
  then show ?thesis using assms(1) by simp
qed

lemma close_active_peers_ok:
  assumes "rtc_signals_ok config w"
  shows "rtc_signals_ok config (close_peers w)"
proof -
  have reg: "registry_ok config (sg_registry w)" and ok: "\<And>j. local_ok j (entry w j) (sg_sessions w j) (j \<in> sg_peers w) (j \<in> closes w)"
    using assms by (auto simp: rtc_signals_ok_def)
  note close = close_active_peers_map [OF reg]
  have "local_ok j (slot (close_active_peers (sg_registry w)) j) (sg_sessions w j) (j \<in> sg_peers w) (j \<in> set (rg_closing (close_active_peers (sg_registry w))))" for j
    using ok [of j] by (auto simp: close local_ok_def split: option.splits)
  then show ?thesis using assms close by (auto simp: rtc_signals_ok_def on_registry_def close_peers_def)
qed

lemma signaling_step_ok: "signaling_step config w w' \<Longrightarrow> rtc_signals_ok config w \<Longrightarrow> rtc_signals_ok config w'"
proof (induction rule: signaling_step.induct)
  case (built w i ss pc)
  then show ?case using session_facts(3) [of config w i ss] by (auto intro!: with_session_ok simp: local_simps)
next
  case (drain_begun w)
  then show ?case by (auto simp: rtc_signals_ok_def on_registry_def begin_terminal_drain_def registry_ok_def)
qed (simp_all add: offer_ok begin_finish_ok end_finish_ok build_owned_ok build_done_ok build_release_ok begin_activate_ok end_activate_ok
    begin_drop_ok end_drop_ok peer_gone_ok close_active_peers_ok)

lemma signals_reachable_ok: "signals_reachable config w \<Longrightarrow> rtc_signals_ok config w"
proof (induction rule: signals_reachable.induct)
  case start
  then show ?case by (simp add: rtc_signals_ok_def signals_new_def registry_new_def registry_ok_def local_ok_def)
qed (rule signaling_step_ok)

section \<open>The steps of a request are bounded\<close>

fun stage_rank :: "Stage \<Rightarrow> nat" where
  "stage_rank Parsing = 5"
| "stage_rank AwaitBuild = 4"
| "stage_rank Negotiating = 3"
| "stage_rank (Finishing _) = 2"
| "stage_rank (Activating _ _) = 1"
| "stage_rank (Dropping _) = 1"
| "stage_rank Over = 0"

fun build_rank :: "BuildTask \<Rightarrow> nat" where
  "build_rank NotStarted = 3"
| "build_rank Running = 2"
| "build_rank Releasing = 1"
| "build_rank Finished = 0"

definition session_rank :: "RtcSession \<Rightarrow> nat" where
  "session_rank ss = stage_rank (ss_stage ss) + build_rank (ss_build ss)"

lemma sessions_simps [simp]:
  "sg_sessions (with_session j ss w) i = (if i = j then Some ss else sg_sessions w i)" "sg_sessions (on_registry f w) = sg_sessions w" "sg_sessions (close_peers w) = sg_sessions w"
  by (simp_all add: with_session_def on_registry_def close_peers_def)

text \<open>The session that a step moves, and where to.\<close>

lemma signaling_step_session:
  assumes "signaling_step config w w'" "rtc_signals_ok config w" "sg_sessions w i = Some ss"
  shows "\<exists>ss'. sg_sessions w' i = Some ss' \<and> (ss' = ss \<or> session_rank ss' < session_rank ss)"
  using assms
proof (induction rule: signaling_step.induct)
  case (offer head body w j reg)
  have "j = rg_next_slot_id (sg_registry w)"
    using offer.hyps by (auto simp: start_offer_def reserve_slot_def split: if_splits option.splits prod.splits)
  then have "i \<noteq> j" using session_facts(1) [OF offer.prems] by simp
  then show ?case using offer.prems by simp
next
  case (fails w j s f)
  then show ?case by (auto simp: begin_finish_def session_rank_def may_fail_def split: PcState.split Stage.splits)
next
  case (build_started w j s)
  then have "i = j \<Longrightarrow> ss_build ss = NotStarted" using session_facts(3) [OF build_started.prems] by (auto simp: local_simps)
  then show ?case using build_started by (auto simp: build_owned_def session_rank_def)
next
  case (deadline w j s)
  then show ?case by (auto simp: begin_drop_def session_rank_def at_await_def split: PcState.split Stage.splits)
next
  case (request_dropped w j s)
  then show ?case by (auto simp: begin_drop_def session_rank_def at_await_def split: PcState.split Stage.splits)
qed (auto simp: session_rank_def end_finish_def build_owned_def build_done_def build_release_def begin_activate_def end_activate_def end_drop_def Let_def)

text \<open>A request that answers for a slot can take a step.\<close>

lemma moved:
  assumes "signaling_step config w w'" "sg_sessions w' i = Some ss'" "ss_stage ss' \<noteq> ss_stage ss \<or> ss_build ss' \<noteq> ss_build ss"
  shows "\<exists>w'. signaling_step config w w' \<and> sg_sessions w' i \<noteq> Some ss"
  using assms by auto

lemma deadline_moves:
  assumes "sg_sessions w i = Some ss" "ss_stage ss = AwaitBuild \<or> ss_stage ss = Negotiating"
  shows "\<exists>w'. signaling_step config w w' \<and> sg_sessions w' i \<noteq> Some ss"
proof -
  have "at_await ss" using assms(2) by (auto simp: at_await_def)
  then have step: "signaling_step config w (begin_drop i (Some signaling_timeout_response) ss w)" by (rule deadline [OF assms(1)])
  have "\<exists>ss'. sg_sessions (begin_drop i (Some signaling_timeout_response) ss w) i = Some ss' \<and> ss_stage ss' \<noteq> ss_stage ss"
    using assms(2) by (auto simp: begin_drop_def split: PcState.split)
  then show ?thesis using moved [OF step] by blast
qed

lemma session_not_stuck:
  assumes "rtc_signals_ok config w" "sg_sessions w i = Some ss" "owns_slot ss"
  shows "\<exists>w'. signaling_step config w w' \<and> sg_sessions w' i \<noteq> Some ss"
proof (cases "ss_build ss = Running \<or> ss_build ss = Releasing")
  case True
  then show ?thesis
  proof
    assume running: "ss_build ss = Running"
    show ?thesis by (rule moved [OF build_ended [OF assms(2) running, of config False]]) (simp add: build_done_def running, simp add: build_done_def running)
  next
    assume releasing: "ss_build ss = Releasing"
    show ?thesis by (rule moved [OF build_released [OF assms(2) releasing]]) (simp add: build_release_def releasing, simp add: build_release_def releasing)
  qed
next
  case False
  show ?thesis
  proof (cases "ss_stage ss")
    case Parsing
    show ?thesis by (rule moved [OF build_started [OF assms(2) Parsing]]) (simp add: build_owned_def Parsing, simp add: build_owned_def Parsing)
  next
    case (Finishing r)
    show ?thesis by (rule moved [OF finished [OF assms(2) Finishing]]) (simp add: end_finish_def Finishing, simp add: end_finish_def Finishing)
  next
    case (Activating pc a)
    show ?thesis by (rule moved [OF activated [OF assms(2) Activating]]) (simp add: end_activate_def Activating, simp add: end_activate_def Activating)
  next
    case (Dropping pc)
    show ?thesis by (rule moved [OF guard_dropped [OF assms(2) Dropping]]) (simp add: end_drop_def Dropping, simp add: end_drop_def Dropping)
  next
    case Over
    then show ?thesis using assms(3) False by (simp add: owns_slot_def)
  qed (simp_all add: deadline_moves assms(2))
qed

section \<open>The drain\<close>

lemma session_drain_steps: "f \<in> set (session_drain_fire is_final) \<Longrightarrow> signaling_step config w (f w)"
  by (auto simp: session_drain_fire_def drain_for_shutdown_def drain_begun peers_closed split: if_splits)

lemma drained_stays: "signaling_step config w w' \<Longrightarrow> rtc_signals_ok config w \<Longrightarrow> sg_drained w \<Longrightarrow> sg_drained w'"
  by (induction rule: signaling_step.induct)
    (auto simp: with_session_def on_registry_def close_peers_def rtc_signals_ok_def begin_finish_def end_finish_def build_owned_def build_done_def build_release_def
      begin_activate_def end_activate_def begin_drop_def end_drop_def Let_def split: PcState.splits)

lemma draining_stays:
  assumes "signaling_step config w w'" "rtc_signals_ok config w" "rg_terminal_draining (sg_registry w)"
  shows "rg_terminal_draining (sg_registry w')"
proof -
  have "registry_ok config (sg_registry w)" using assms(2) by (simp add: rtc_signals_ok_def)
  note maps = release_slot_map(5) [OF this] activate_slot_map(5) [OF this] close_active_peers_map(5) [OF this]
  from assms(1,3) maps show ?thesis
  proof (induction rule: signaling_step.induct)
    case (offer head body w i reg)
    then show ?case by (auto simp: start_offer_def reserve_slot_def with_session_def split: if_splits option.splits prod.splits)
  qed (auto simp: with_session_def on_registry_def close_peers_def begin_finish_def end_finish_def build_owned_def build_done_def build_release_def
      begin_activate_def end_activate_def begin_drop_def end_drop_def begin_terminal_drain_def on_connection_state_change_def Let_def
      split: PcState.splits option.splits)
qed

lemma steps_keep:
  assumes "(signaling_step config)\<^sup>*\<^sup>* w w'" "rtc_signals_ok config w"
  shows "rtc_signals_ok config w' \<and> (sg_drained w \<longrightarrow> sg_drained w') \<and> (rg_terminal_draining (sg_registry w) \<longrightarrow> rg_terminal_draining (sg_registry w'))"
  using assms
proof (induction rule: rtranclp_induct)
  case (step y z)
  then show ?case using signaling_step_ok drained_stays draining_stays by blast
qed simp

section \<open>Data channels\<close>

datatype DataChannelEvent = OnMessage bytes | OnClose | OtherEvent

text \<open>\<^verbatim>\<open>echo_loop\<close>: what it sends while it polls these events; the end of the list is \<^verbatim>\<open>None\<close>.\<close>

fun echo_loop :: "DataChannelEvent list \<Rightarrow> bytes list" where
  "echo_loop [] = []"
| "echo_loop (OnMessage msg # events) = msg # echo_loop events"
| "echo_loop (OnClose # events) = []"
| "echo_loop (OtherEvent # events) = echo_loop events"

text \<open>\<^verbatim>\<open>DataChannelLimiter\<close>: the counter, and what each arriving channel has of it. \<^verbatim>\<open>try_acquire\<close> is a load followed by compare-and-exchange attempts, which may fail
  spuriously.\<close>

datatype Attempt = Arrived | Trying nat | NoPermit | Permit | PermitDropped

record DataChannelLimiter =
  lm_open :: nat
  lm_channels :: "nat \<Rightarrow> Attempt"

definition limiter_new :: DataChannelLimiter where
  "limiter_new = \<lparr>lm_open = 0, lm_channels = (\<lambda>_. Arrived)\<rparr>"

definition try_acquire_refuses :: "nat \<Rightarrow> nat \<Rightarrow> bool" where
  "try_acquire_refuses limit current \<longleftrightarrow> limit \<noteq> 0 \<and> limit \<le> current \<or> current = USIZE_MAX"

inductive limiter_step :: "nat \<Rightarrow> DataChannelLimiter \<Rightarrow> DataChannelLimiter \<Rightarrow> bool" for limit where
  loads: "lm_channels lm c = Arrived \<Longrightarrow> limiter_step limit lm (lm\<lparr>lm_channels := (lm_channels lm)(c := Trying (lm_open lm))\<rparr>)"
| refused: "lm_channels lm c = Trying current \<Longrightarrow> try_acquire_refuses limit current \<Longrightarrow>
    limiter_step limit lm (lm\<lparr>lm_channels := (lm_channels lm)(c := NoPermit)\<rparr>)"
| exchanged: "lm_channels lm c = Trying current \<Longrightarrow> \<not> try_acquire_refuses limit current \<Longrightarrow> lm_open lm = current \<Longrightarrow>
    limiter_step limit lm (lm\<lparr>lm_open := current + 1, lm_channels := (lm_channels lm)(c := Permit)\<rparr>)"
| exchange_failed: "lm_channels lm c = Trying current \<Longrightarrow> \<not> try_acquire_refuses limit current \<Longrightarrow>
    limiter_step limit lm (lm\<lparr>lm_channels := (lm_channels lm)(c := Trying (lm_open lm))\<rparr>)"
| permit_dropped: "lm_channels lm c = Permit \<Longrightarrow>
    limiter_step limit lm (lm\<lparr>lm_open := lm_open lm - 1, lm_channels := (lm_channels lm)(c := PermitDropped)\<rparr>)"

definition permits :: "DataChannelLimiter \<Rightarrow> nat set" where
  "permits lm = {c. lm_channels lm c = Permit}"

lemma permits_upd:
  "permits (lm\<lparr>lm_channels := (lm_channels lm)(c := a)\<rparr>) = (if a = Permit then insert c (permits lm) else permits lm - {c})"
  "permits (lm\<lparr>lm_open := n, lm_channels := (lm_channels lm)(c := a)\<rparr>) = (if a = Permit then insert c (permits lm) else permits lm - {c})"
  by (auto simp: permits_def)

definition limiter_ok :: "nat \<Rightarrow> DataChannelLimiter \<Rightarrow> bool" where
  "limiter_ok limit lm \<longleftrightarrow> finite (permits lm) \<and> card (permits lm) = lm_open lm \<and> (limit \<noteq> 0 \<longrightarrow> lm_open lm \<le> limit) \<and> lm_open lm \<le> USIZE_MAX"

lemma limiter_step_ok: "limiter_step limit lm lm' \<Longrightarrow> limiter_ok limit lm \<Longrightarrow> limiter_ok limit lm'"
proof (induction rule: limiter_step.induct)
  case (exchanged lm c current)
  then have "c \<notin> permits lm" by (simp add: permits_def)
  then show ?case using exchanged by (auto simp: limiter_ok_def permits_upd try_acquire_refuses_def)
next
  case (permit_dropped lm c)
  then have "c \<in> permits lm" by (simp add: permits_def)
  then show ?case using permit_dropped by (auto simp: limiter_ok_def permits_upd card_Diff_singleton)
next
  case (loads lm c)
  then have "permits lm - {c} = permits lm" by (auto simp: permits_def)
  then show ?case using loads by (simp add: limiter_ok_def permits_upd)
next
  case (refused lm c current)
  then have "permits lm - {c} = permits lm" by (auto simp: permits_def)
  then show ?case using refused by (simp add: limiter_ok_def permits_upd)
next
  case (exchange_failed lm c current)
  then have "permits lm - {c} = permits lm" by (auto simp: permits_def)
  then show ?case using exchange_failed by (simp add: limiter_ok_def permits_upd)
qed

lemma limiter_reachable_ok: "(limiter_step limit)\<^sup>*\<^sup>* limiter_new lm \<Longrightarrow> limiter_ok limit lm"
proof (induction rule: rtranclp_induct)
  case base
  then show ?case by (simp add: limiter_ok_def limiter_new_def permits_def)
qed (rule limiter_step_ok)

section \<open>Properties\<close>

definition sample_run :: "Signals list" where
  "sample_run =
     (let w1 = with_session 0 session_start (signals_new\<lparr>sg_registry := snd (reserve_slot webrtc_config_new registry_new)\<rparr>);
          w2 = build_owned 0 (the (sg_sessions w1 0)) w1;
          w3 = build_done 0 True (the (sg_sessions w2 0)) w2;
          w4 = with_session 0 ((the (sg_sessions w3 0))\<lparr>ss_stage := Negotiating\<rparr>) w3;
          w5 = begin_activate 0 0 ''answer'' (the (sg_sessions w4 0)) w4;
          w6 = end_activate 0 0 ''answer'' (the (sg_sessions w5 0)) w5
      in [signals_new, w1, w2, w3, w4, w5, w6])"

lemma sample_start: "start_offer webrtc_config_new sample_offer_head ''sdp'' registry_new = (Signaling 0, snd (reserve_slot webrtc_config_new registry_new))"
  by code_simp

lemma sample_run_reachable:
  "signals_reachable webrtc_config_new (sample_run ! 3)" "signals_reachable webrtc_config_new (sample_run ! 6)"
proof -
  note defs = sample_run_def Let_def build_owned_def build_done_def begin_activate_def end_activate_def session_start_def
  have r1: "signals_reachable webrtc_config_new (sample_run ! 1)"
    using signaling_step.offer [of webrtc_config_new sample_offer_head "''sdp''" signals_new] sample_start start
    by (fastforce simp: sample_run_def Let_def signals_new_def intro: signals_reachable.step)
  have r2: "signals_reachable webrtc_config_new (sample_run ! 2)"
    using signals_reachable.step [OF r1 signaling_step.build_started [where i = 0 and ss = "the (sg_sessions (sample_run ! 1) 0)"]] by (simp add: defs)
  show r3: "signals_reachable webrtc_config_new (sample_run ! 3)"
    using signals_reachable.step [OF r2 signaling_step.build_ended [where i = 0 and ss = "the (sg_sessions (sample_run ! 2) 0)" and built = True]] by (simp add: defs)
  have r4: "signals_reachable webrtc_config_new (sample_run ! 4)"
    using signals_reachable.step [OF r3 signaling_step.built [where i = 0 and ss = "the (sg_sessions (sample_run ! 3) 0)" and pc = 0]] by (simp add: defs)
  have r5: "signals_reachable webrtc_config_new (sample_run ! 5)"
    using signals_reachable.step [OF r4 signaling_step.negotiated [where i = 0 and ss = "the (sg_sessions (sample_run ! 4) 0)" and pc = 0 and answer = "''answer''"]] by (simp add: defs)
  show "signals_reachable webrtc_config_new (sample_run ! 6)"
    using signals_reachable.step [OF r5 signaling_step.activated [where i = 0 and ss = "the (sg_sessions (sample_run ! 5) 0)" and pc = 0 and answer = "''answer''"]] by (simp add: defs)
qed

text \<open>C24. No slot and no peer connection is lost. Whatever the interleaving of offers, builds, failures, deadlines, dropped requests, disconnecting peers and drains: the registry never has
  more entries than \<^verbatim>\<open>max_peer_connections\<close>, and no slot twice. A reserved slot belongs to a request that is still running or to a build task that is still at work. And a peer
  connection that was built is either being closed, or registered in its own slot, or in the hands of a request that is still running: once its request is over it is never left open
  outside the registry.\<close>

theorem peers_accounted:
  assumes "signals_reachable config w"
  shows "distinct (map fst (rg_slots (sg_registry w))) \<and> length (rg_slots (sg_registry w)) \<le> wc_max_peer_connections config \<and>
    (\<forall>i. map_of (rg_slots (sg_registry w)) i = Some Reserved \<longrightarrow>
       (\<exists>ss. sg_sessions w i = Some ss \<and> (ss_stage ss \<noteq> Over \<or> ss_build ss = Running \<or> ss_build ss = Releasing))) \<and>
    (\<forall>i\<in>sg_peers w. i \<in> set (rg_closing (sg_registry w)) \<or> map_of (rg_slots (sg_registry w)) i = Some (Active i) \<or>
       (\<exists>ss. sg_sessions w i = Some ss \<and> ss_stage ss \<noteq> Over))"
proof -
  have ok: "rtc_signals_ok config w" using assms by (rule signals_reachable_ok)
  then have local: "local_ok i (entry w i) (sg_sessions w i) (i \<in> sg_peers w) (i \<in> closes w)" for i by (simp add: rtc_signals_ok_def)
  have "\<exists>ss. sg_sessions w i = Some ss \<and> owns_slot ss" if "entry w i = Some Reserved" for i
    using local [of i] that by (auto simp: local_ok_def split: option.splits)
  moreover have "i \<in> closes w \<or> entry w i = Some (Active i) \<or> (\<exists>ss. sg_sessions w i = Some ss \<and> ss_stage ss \<noteq> Over)" if "i \<in> sg_peers w" for i
    using local [of i] that by (auto simp: local_ok_def owns_peer_def split: option.splits)
  ultimately show ?thesis using ok unfolding rtc_signals_ok_def registry_ok_def owns_slot_def by blast
qed

theorem peers_accounted_witness:
  "sg_peers (sample_run ! 6) = {0} \<and> rg_slots (sg_registry (sample_run ! 6)) = [(0, Active 0)] \<and>
   length (rg_slots (sg_registry (sample_run ! 6))) \<le> wc_max_peer_connections webrtc_config_new"
proof -
  have "rg_slots (sg_registry (sample_run ! 6)) = [(0, Active 0)] \<and> sg_peers (sample_run ! 6) = {0}" by code_simp
  then show ?thesis using peers_accounted [OF sample_run_reachable(2)] by simp
qed

text \<open>C25. The final drain is final. Let \<^verbatim>\<open>drain_for_shutdown\<close> begin in any reachable state: it sets the flag, and, after anything else has happened, it takes the
  registered peer connections and closes them. In every state from then on, no peer connection is registered, and every one that was ever built is being closed or still belongs to a
  request that is running; so a request that was negotiating during the drain cannot leave an open peer connection behind.\<close>

theorem terminal_drain_final:
  assumes "signals_reachable config w" "(signaling_step config)\<^sup>*\<^sup>* (on_registry begin_terminal_drain w) w1" "(signaling_step config)\<^sup>*\<^sup>* (close_peers w1) w2"
  shows "map_of (rg_slots (sg_registry w2)) i \<noteq> Some (Active pc) \<and>
    (i \<in> sg_peers w2 \<longrightarrow> i \<in> set (rg_closing (sg_registry w2)) \<or> (\<exists>ss. sg_sessions w2 i = Some ss \<and> ss_stage ss \<noteq> Over))"
proof -
  have "rtc_signals_ok config (on_registry begin_terminal_drain w)"
    using signaling_step_ok [OF drain_begun] signals_reachable_ok [OF assms(1)] by blast
  then have "rtc_signals_ok config w1 \<and> rg_terminal_draining (sg_registry w1)"
    using steps_keep [OF assms(2)] by (simp add: on_registry_def begin_terminal_drain_def)
  then have "rtc_signals_ok config (close_peers w1)" "sg_drained (close_peers w1)"
    using close_active_peers_ok by (blast, simp add: close_peers_def)
  then have ok: "rtc_signals_ok config w2" "sg_drained w2" using steps_keep [OF assms(3)] by auto
  then have "local_ok i (entry w2 i) (sg_sessions w2 i) (i \<in> sg_peers w2) (i \<in> closes w2)" "entry w2 i \<noteq> Some (Active pc)" "entry w2 i \<noteq> Some (Active i)"
    by (auto simp: rtc_signals_ok_def)
  then show ?thesis by (auto simp: local_ok_def owns_peer_def split: option.splits)
qed

theorem terminal_drain_final_witness:
  "map_of (rg_slots (sg_registry (close_peers (on_registry begin_terminal_drain (sample_run ! 6))))) 0 \<noteq> Some (Active 0)"
  using terminal_drain_final [OF sample_run_reachable(2) rtranclp.rtrancl_refl rtranclp.rtrancl_refl] by (rule conjunct1)

text \<open>C26. Signaling ends. In every reachable state, a step leaves a given request as it is or brings it closer to its end, by a rank of at most eight; and as long as the slot of the
  request is reserved, the request can take a step, whatever the others do. The end of a build and of a close are steps. So a request whose steps are not put off for ever gives its slot back, or hands it to a registered peer
  connection, after at most eight of them.\<close>

theorem signaling_progress:
  assumes "signals_reachable config w" "sg_sessions w i = Some ss"
  shows "session_rank ss \<le> 8 \<and>
    (\<forall>w'. signaling_step config w w' \<longrightarrow> (\<exists>ss'. sg_sessions w' i = Some ss' \<and> (ss' = ss \<or> session_rank ss' < session_rank ss))) \<and>
    (map_of (rg_slots (sg_registry w)) i = Some Reserved \<longrightarrow> (\<exists>w'. signaling_step config w w' \<and> sg_sessions w' i \<noteq> Some ss))"
proof -
  have ok: "rtc_signals_ok config w" using assms(1) by (rule signals_reachable_ok)
  have "stage_rank (ss_stage ss) \<le> 5" "build_rank (ss_build ss) \<le> 3" by (cases "ss_stage ss", simp_all) (cases "ss_build ss", simp_all)
  moreover have "owns_slot ss" if "entry w i = Some Reserved" using session_facts(3) [OF ok assms(2)] that by (simp add: local_ok_def)
  ultimately show ?thesis using signaling_step_session [OF _ ok assms(2)] session_not_stuck [OF ok assms(2)] by (simp add: session_rank_def)
qed

theorem signaling_progress_witness:
  "\<exists>w'. signaling_step webrtc_config_new (sample_run ! 3) w' \<and> sg_sessions w' 0 \<noteq> sg_sessions (sample_run ! 3) 0"
proof -
  have "map_of (rg_slots (sg_registry (sample_run ! 3))) 0 = Some Reserved \<and> sg_sessions (sample_run ! 3) 0 \<noteq> None" by code_simp
  then obtain ss where "map_of (rg_slots (sg_registry (sample_run ! 3))) 0 = Some Reserved" "sg_sessions (sample_run ! 3) 0 = Some ss" by auto
  then show ?thesis using signaling_progress [OF sample_run_reachable(1)] by simp
qed

text \<open>The limit on data channels: however the attempts of arriving channels interleave, the counter is the number of permits that are held, and with a limit it never exceeds it.\<close>

lemma data_channels_bounded:
  assumes "(limiter_step limit)\<^sup>*\<^sup>* limiter_new lm"
  shows "card (permits lm) = lm_open lm \<and> (limit \<noteq> 0 \<longrightarrow> lm_open lm \<le> limit)"
  using limiter_reachable_ok [OF assms] by (simp add: limiter_ok_def)

end
