(* ===== verification/Listener.thy ===== *)
theory Listener
  imports Server_Spec
begin

text \<open>
  The accept loop of \<^verbatim>\<open>crates/core/src/server.rs\<close> (\<^verbatim>\<open>BoundServer::run_until\<close>): permits of the connection limit, generations of
  connections, rebinding and graceful shutdown. The loop, the connections, the tasks that drain an old generation, the sessions of
  upgraded connections and the callers of \<^verbatim>\<open>rebind\<close> run concurrently; a state of the whole is a \<open>BoundServer\<close>, and the relation \<open>listener_step\<close> lets any of them
  take its next step at any time. What a connection does until it ends is the subject of \<open>Server\<close>. The join set of a generation is the list of tasks with its number.
  Listening sockets, peers and callers are numbers, times are milliseconds.
\<close>

section \<open>State\<close>

definition ACCEPT_ERROR_BACKOFF :: nat where "ACCEPT_ERROR_BACKOFF = 10"

definition REBIND_BACKLOG_DRAIN_LIMIT :: nat where "REBIND_BACKLOG_DRAIN_LIMIT = 1024"

text \<open>The greatest number of permits of a semaphore of \<^verbatim>\<open>tokio\<close>; \<^verbatim>\<open>Semaphore::new\<close> panics above it.\<close>

definition MAX_PERMITS :: nat where "MAX_PERMITS = 2305843009213693951"

abbreviation U32_MAX :: nat where "U32_MAX \<equiv> 4294967295"

record Task =
  t_id :: nat
  t_gen :: nat
  t_peer :: nat
  t_done :: bool

record RebindCommand =
  cmd_listener :: nat
  cmd_reply :: nat

text \<open>Where the future is that acquires a permit and accepts a connection with it.\<close>

datatype AcceptFut = WantPermit | HoldsPermit | BackingOff nat

datatype RunPhase = Accepting AcceptFut | Draining nat | Joining | Returned bool

record Drain =
  dr_gen :: nat
  dr_deadline :: "nat option"

record BoundServer =
  bs_now :: nat
  bs_phase :: RunPhase
  bs_listener :: "nat option"
  bs_available :: nat
  bs_permit_total :: nat
  bs_generation :: nat
  bs_flags :: "nat \<Rightarrow> bool"
  bs_cancelled :: "nat \<Rightarrow> bool"
  bs_tasks :: "Task list"
  bs_next_id :: nat
  bs_sessions :: nat
  bs_drains :: "Drain list"
  bs_rebind :: "RebindCommand list option"
  bs_replies :: "(nat \<times> bool) list"
  bs_session_drains :: "bool list"

section \<open>Binding\<close>

definition permit_count :: "'a Server \<Rightarrow> nat" where
  "permit_count srv = max (max_connections srv) 1"

definition bind :: "'a Server \<Rightarrow> nat \<Rightarrow> BoundServer option" where
  "bind srv listener =
     (let permits = permit_count srv in
      if permits > MAX_PERMITS then None
      else Some \<lparr>bs_now = 0, bs_phase = Accepting WantPermit, bs_listener = Some listener, bs_available = permits,
        bs_permit_total = min permits U32_MAX, bs_generation = 0, bs_flags = (\<lambda>_. False), bs_cancelled = (\<lambda>_. False),
        bs_tasks = [], bs_next_id = 0, bs_sessions = 0, bs_drains = [], bs_rebind = None, bs_replies = [], bs_session_drains = []\<rparr>)"

definition rebind_handle :: "BoundServer \<Rightarrow> BoundServer" where
  "rebind_handle s = (case bs_rebind s of Some _ \<Rightarrow> s | None \<Rightarrow> s\<lparr>bs_rebind := Some []\<rparr>)"

section \<open>Connections\<close>

text \<open>A connection has a permit as long as it runs.\<close>

definition held :: "Task list \<Rightarrow> nat" where
  "held ts = length (filter (\<lambda>t. \<not> t_done t) ts)"

definition spawn_connection :: "nat \<Rightarrow> BoundServer \<Rightarrow> BoundServer" where
  "spawn_connection peer s =
     s\<lparr>bs_tasks := bs_tasks s @ [\<lparr>t_id = bs_next_id s, t_gen = bs_generation s, t_peer = peer, t_done = False\<rparr>],
       bs_next_id := Suc (bs_next_id s)\<rparr>"

definition mark_done :: "nat \<Rightarrow> Task list \<Rightarrow> Task list" where
  "mark_done i ts = map (\<lambda>t. if t_id t = i then t\<lparr>t_done := True\<rparr> else t) ts"

text \<open>A connection ends and its permit goes back.\<close>

definition finish_connection :: "nat \<Rightarrow> BoundServer \<Rightarrow> BoundServer" where
  "finish_connection i s =
     s\<lparr>bs_tasks := mark_done i (bs_tasks s), bs_available := bs_available s + held (filter (\<lambda>t. t_id t = i) (bs_tasks s))\<rparr>"

text \<open>An upgraded connection ends too, but its permit goes to the task of its session, which is in no join set.\<close>

definition delegate_connection :: "nat \<Rightarrow> BoundServer \<Rightarrow> BoundServer" where
  "delegate_connection i s =
     s\<lparr>bs_tasks := mark_done i (bs_tasks s), bs_sessions := bs_sessions s + held (filter (\<lambda>t. t_id t = i) (bs_tasks s))\<rparr>"

definition end_session :: "BoundServer \<Rightarrow> BoundServer" where
  "end_session s = s\<lparr>bs_sessions := bs_sessions s - 1, bs_available := bs_available s + 1\<rparr>"

text \<open>\<^verbatim>\<open>JoinSet::join_next\<close> until the set is empty, and \<^verbatim>\<open>JoinSet::shutdown\<close>, which aborts the tasks and drops what they own.\<close>

definition collect_generation :: "nat \<Rightarrow> BoundServer \<Rightarrow> BoundServer" where
  "collect_generation g s = s\<lparr>bs_tasks := filter (\<lambda>t. t_gen t \<noteq> g) (bs_tasks s)\<rparr>"

definition abort_generation :: "nat \<Rightarrow> BoundServer \<Rightarrow> BoundServer" where
  "abort_generation g s =
     collect_generation g (s\<lparr>bs_available := bs_available s + held (filter (\<lambda>t. t_gen t = g) (bs_tasks s))\<rparr>)"

definition generation_done :: "nat \<Rightarrow> BoundServer \<Rightarrow> bool" where
  "generation_done g s \<longleftrightarrow> (\<forall>t\<in>set (bs_tasks s). t_gen t = g \<longrightarrow> t_done t)"

text \<open>\<^verbatim>\<open>try_join_next\<close> until nothing is left to collect.\<close>

definition reap :: "BoundServer \<Rightarrow> BoundServer" where
  "reap s = s\<lparr>bs_tasks := filter (\<lambda>t. \<not> (t_gen t = bs_generation s \<and> t_done t)) (bs_tasks s)\<rparr>"

section \<open>Accepting\<close>

datatype AcceptPoll = AcceptPending | AcceptReady nat | AcceptError

text \<open>One poll of the accepting future: what it yields, if it does (\<open>Some None\<close> after the pause that follows an error), the permits left, and the future.\<close>

definition poll_listener :: "nat \<Rightarrow> AcceptPoll \<Rightarrow> nat \<Rightarrow> nat option option \<times> nat \<times> AcceptFut" where
  "poll_listener now answer available =
     (case answer of
        AcceptReady peer \<Rightarrow> (Some (Some peer), available, WantPermit)
      | AcceptError \<Rightarrow> (None, available + 1, BackingOff (now + ACCEPT_ERROR_BACKOFF))
      | AcceptPending \<Rightarrow> (None, available, HoldsPermit))"

definition poll_accept :: "nat \<Rightarrow> AcceptPoll \<Rightarrow> nat \<Rightarrow> AcceptFut \<Rightarrow> nat option option \<times> nat \<times> AcceptFut" where
  "poll_accept now answer available fut =
     (case fut of
        WantPermit \<Rightarrow> if available = 0 then (None, available, WantPermit) else poll_listener now answer (available - 1)
      | HoldsPermit \<Rightarrow> poll_listener now answer available
      | BackingOff until \<Rightarrow> if until \<le> now then (Some None, available, WantPermit) else (None, available, fut))"

text \<open>Dropping the future releases its permit.\<close>

definition drop_accept :: "AcceptFut \<Rightarrow> nat \<Rightarrow> nat" where
  "drop_accept fut available = (if fut = HoldsPermit then available + 1 else available)"

datatype Raced = RacedShutdown | RacedRebind RebindCommand | RacedCompleted "nat option" | RacedPending

record PollInput =
  pi_shutdown :: bool
  pi_accept :: AcceptPoll
  pi_backlog :: "AcceptPoll list"

definition race_shutdown_or_accept :: "PollInput \<Rightarrow> AcceptFut \<Rightarrow> BoundServer \<Rightarrow> Raced \<times> BoundServer" where
  "race_shutdown_or_accept i fut s =
     (if pi_shutdown i then (RacedShutdown, s\<lparr>bs_available := drop_accept fut (bs_available s)\<rparr>)
      else case bs_rebind s of
        Some (cmd # cmds) \<Rightarrow> (RacedRebind cmd, s\<lparr>bs_rebind := Some cmds, bs_available := drop_accept fut (bs_available s)\<rparr>)
      | _ \<Rightarrow>
          (case poll_accept (bs_now s) (pi_accept i) (bs_available s) fut of
             (Some peer, available, _) \<Rightarrow> (RacedCompleted peer, s\<lparr>bs_available := available\<rparr>)
           | (None, available, fut) \<Rightarrow> (RacedPending, s\<lparr>bs_available := available, bs_phase := Accepting fut\<rparr>)))"

text \<open>The answers of the kernel are those of consecutive polls of the old listener; after the last of them it has nothing.\<close>

fun drain_listener_backlog :: "nat \<Rightarrow> AcceptPoll list \<Rightarrow> nat \<Rightarrow> nat list \<times> nat" where
  "drain_listener_backlog 0 answers available = ([], available)"
| "drain_listener_backlog (Suc n) answers available =
     (if available = 0 then ([], available)
      else case answers of
        AcceptReady peer # answers \<Rightarrow>
          (case drain_listener_backlog n answers (available - 1) of (peers, available) \<Rightarrow> (peer # peers, available))
      | _ \<Rightarrow> ([], available))"

section \<open>Generations, rebinding and shutdown\<close>

definition spawn_generation_drain :: "nat \<Rightarrow> BoundServer \<Rightarrow> BoundServer" where
  "spawn_generation_drain g s = s\<lparr>bs_drains := bs_drains s @ [\<lparr>dr_gen = g, dr_deadline = None\<rparr>]\<rparr>"

text \<open>The task that drains generation \<open>g\<close>: its first poll fires the cancellation and starts the timer.\<close>

definition start_drain :: "nat \<Rightarrow> Drain \<Rightarrow> BoundServer \<Rightarrow> nat \<times> BoundServer" where
  "start_drain grace d s =
     (case dr_deadline d of
        Some deadline \<Rightarrow> (deadline, s)
      | None \<Rightarrow> (bs_now s + grace, s\<lparr>bs_cancelled := (bs_cancelled s)(dr_gen d := True), bs_session_drains := bs_session_drains s @ [False]\<rparr>))"

definition poll_drain :: "nat \<Rightarrow> Drain \<Rightarrow> BoundServer \<Rightarrow> BoundServer" where
  "poll_drain grace d s =
     (case start_drain grace d s of
        (deadline, s) \<Rightarrow>
          if generation_done (dr_gen d) s then (collect_generation (dr_gen d) s)\<lparr>bs_drains := filter (\<lambda>e. e \<noteq> d) (bs_drains s)\<rparr>
          else if deadline \<le> bs_now s then (abort_generation (dr_gen d) s)\<lparr>bs_drains := filter (\<lambda>e. e \<noteq> d) (bs_drains s)\<rparr>
          else s\<lparr>bs_drains := map (\<lambda>e. if e = d then d\<lparr>dr_deadline := Some deadline\<rparr> else e) (bs_drains s)\<rparr>)"

definition next_iteration :: "BoundServer \<Rightarrow> BoundServer" where
  "next_iteration s = (reap s)\<lparr>bs_phase := Accepting WantPermit\<rparr>"

definition handle_rebind :: "PollInput \<Rightarrow> RebindCommand \<Rightarrow> BoundServer \<Rightarrow> BoundServer" where
  "handle_rebind i cmd s =
     (let g = bs_generation s;
          s = s\<lparr>bs_flags := (bs_flags s)(g := True)\<rparr>;
          (peers, available) = drain_listener_backlog REBIND_BACKLOG_DRAIN_LIMIT (pi_backlog i) (bs_available s);
          s = fold spawn_connection peers (s\<lparr>bs_available := available\<rparr>);
          s = s\<lparr>bs_listener := Some (cmd_listener cmd)\<rparr>;
          s = spawn_generation_drain g s;
          s = s\<lparr>bs_generation := Suc g\<rparr>
      in s\<lparr>bs_replies := bs_replies s @ [(cmd_reply cmd, True)]\<rparr>)"

definition handle_shutdown_signal :: "nat \<Rightarrow> BoundServer \<Rightarrow> BoundServer" where
  "handle_shutdown_signal grace s =
     (let g = bs_generation s;
          s = s\<lparr>bs_replies := bs_replies s @ map (\<lambda>cmd. (cmd_reply cmd, False)) (case bs_rebind s of Some cmds \<Rightarrow> cmds | None \<Rightarrow> []),
                bs_rebind := None\<rparr>
      in s\<lparr>bs_flags := (bs_flags s)(g := True), bs_cancelled := (bs_cancelled s)(g := True),
           bs_session_drains := bs_session_drains s @ [True], bs_listener := None, bs_phase := Draining (bs_now s + grace)\<rparr>)"

text \<open>All permits are there: wait for the tasks of the current generation, and return.\<close>

definition join_all :: "BoundServer \<Rightarrow> BoundServer" where
  "join_all s =
     (if generation_done (bs_generation s) s
      then (collect_generation (bs_generation s) s)\<lparr>bs_available := bs_available s + bs_permit_total s, bs_phase := Returned True\<rparr>
      else s)"

text \<open>One poll of \<^verbatim>\<open>run_until\<close>, up to the end of an iteration of its loop.\<close>

definition run_until :: "nat \<Rightarrow> PollInput \<Rightarrow> BoundServer \<Rightarrow> BoundServer" where
  "run_until grace i s =
     (case bs_phase s of
        Accepting fut \<Rightarrow>
          (case race_shutdown_or_accept i fut s of
             (RacedShutdown, s) \<Rightarrow> handle_shutdown_signal grace s
           | (RacedRebind cmd, s) \<Rightarrow> next_iteration (handle_rebind i cmd s)
           | (RacedCompleted None, s) \<Rightarrow> next_iteration s
           | (RacedCompleted (Some peer), s) \<Rightarrow> next_iteration (spawn_connection peer s)
           | (RacedPending, s) \<Rightarrow> s)
      | Draining deadline \<Rightarrow>
          if bs_permit_total s \<le> bs_available s
          then join_all (s\<lparr>bs_available := bs_available s - bs_permit_total s, bs_phase := Joining\<rparr>)
          else if deadline \<le> bs_now s then (abort_generation (bs_generation s) s)\<lparr>bs_phase := Returned False\<rparr>
          else s
      | Joining \<Rightarrow> join_all s
      | Returned _ \<Rightarrow> s)"

text \<open>\<^verbatim>\<open>RebindHandle::rebind\<close> with a listener that is already bound: the channel has room for one command; without a receiver the call fails.\<close>

definition rebind :: "RebindCommand \<Rightarrow> BoundServer \<Rightarrow> BoundServer option" where
  "rebind cmd s =
     (case bs_rebind s of
        None \<Rightarrow> Some (s\<lparr>bs_replies := bs_replies s @ [(cmd_reply cmd, False)]\<rparr>)
      | Some [] \<Rightarrow> Some (s\<lparr>bs_rebind := Some [cmd]\<rparr>)
      | Some _ \<Rightarrow> None)"

inductive listener_step :: "nat \<Rightarrow> BoundServer \<Rightarrow> BoundServer \<Rightarrow> bool" for grace where
  time_passes: "listener_step grace s (s\<lparr>bs_now := bs_now s + d\<rparr>)"
| loop_polled: "listener_step grace s (run_until grace i s)"
| connection_ends: "listener_step grace s (finish_connection i s)"
| connection_upgraded: "t \<in> set (bs_tasks s) \<Longrightarrow> t_id t = i \<Longrightarrow> \<not> t_done t \<Longrightarrow> listener_step grace s (delegate_connection i s)"
| session_ends: "0 < bs_sessions s \<Longrightarrow> listener_step grace s (end_session s)"
| drain_polled: "d \<in> set (bs_drains s) \<Longrightarrow> listener_step grace s (poll_drain grace d s)"
| rebind_called: "rebind cmd s = Some s' \<Longrightarrow> listener_step grace s s'"

inductive listener_reachable :: "'a Server \<Rightarrow> BoundServer \<Rightarrow> bool" for srv where
  bound: "bind srv listener = Some s \<Longrightarrow> listener_reachable srv s"
| handle_taken: "bind srv listener = Some s \<Longrightarrow> listener_reachable srv (rebind_handle s)"
| step: "listener_reachable srv s \<Longrightarrow> listener_step (shutdown_grace_period srv) s s' \<Longrightarrow> listener_reachable srv s'"

section \<open>Permits\<close>

lemma held_simps [simp]: "held [] = 0" "held (t # ts) = (if t_done t then 0 else 1) + held ts" "held (ts @ us) = held ts + held us"
  by (simp_all add: held_def)

lemma held_partition: "held (filter p ts) + held (filter (\<lambda>t. \<not> p t) ts) = held ts"
  by (induction ts) auto

lemma held_mark_done: "held (mark_done i ts) + held (filter (\<lambda>t. t_id t = i) ts) = held ts"
  by (induction ts) (auto simp: mark_done_def)

lemma held_zero_iff: "held ts = 0 \<longleftrightarrow> (\<forall>t\<in>set ts. t_done t)"
  by (induction ts) auto

lemma held_generation: "held (filter (\<lambda>t. t_gen t \<noteq> g) ts) = held ts" if "\<forall>t\<in>set ts. t_gen t = g \<longrightarrow> t_done t"
  using that by (induction ts) auto

text \<open>The permits that the loop itself holds.\<close>

fun loop_permits :: "nat \<Rightarrow> RunPhase \<Rightarrow> nat" where
  "loop_permits n (Accepting HoldsPermit) = 1"
| "loop_permits n Joining = n"
| "loop_permits n _ = 0"

definition permits_in_use :: "BoundServer \<Rightarrow> nat" where
  "permits_in_use s = held (bs_tasks s) + bs_sessions s + loop_permits (bs_permit_total s) (bs_phase s)"

lemma reap_simps [simp]:
  "held (bs_tasks (reap s)) = held (bs_tasks s)" "bs_available (reap s) = bs_available s" "bs_permit_total (reap s) = bs_permit_total s"
  "bs_sessions (reap s) = bs_sessions s" "bs_phase (reap s) = bs_phase s"
proof -
  have "held (filter (\<lambda>t. \<not> (t_gen t = g \<and> t_done t)) ts) = held ts" for g ts by (induction ts) auto
  then show "held (bs_tasks (reap s)) = held (bs_tasks s)" by (simp add: reap_def)
qed (simp_all add: reap_def)

lemma abort_permits:
  "bs_available (abort_generation g s) + held (bs_tasks (abort_generation g s)) = bs_available s + held (bs_tasks s)"
  using held_partition [of "\<lambda>t. t_gen t = g" "bs_tasks s"] by (simp add: abort_generation_def collect_generation_def)

lemma collect_permits: "generation_done g s \<Longrightarrow> held (bs_tasks (collect_generation g s)) = held (bs_tasks s)"
  by (simp add: collect_generation_def generation_done_def held_generation)

lemma generation_simps [simp]:
  "bs_sessions (abort_generation g s) = bs_sessions s" "bs_phase (abort_generation g s) = bs_phase s"
  "bs_permit_total (abort_generation g s) = bs_permit_total s"
  "bs_sessions (collect_generation g s) = bs_sessions s" "bs_phase (collect_generation g s) = bs_phase s"
  "bs_permit_total (collect_generation g s) = bs_permit_total s" "bs_available (collect_generation g s) = bs_available s"
  by (simp_all add: abort_generation_def collect_generation_def)

lemma drain_backlog_permits: "drain_listener_backlog n answers a = (peers, a') \<Longrightarrow> a' + length peers = a \<and> length peers \<le> n"
  by (induction n answers a arbitrary: peers a' rule: drain_listener_backlog.induct)
    (auto split: if_splits list.splits AcceptPoll.splits prod.splits)

definition new_tasks :: "nat \<Rightarrow> nat list \<Rightarrow> nat \<Rightarrow> Task list" where
  "new_tasks i peers g = map (\<lambda>(k, peer). \<lparr>t_id = k, t_gen = g, t_peer = peer, t_done = False\<rparr>) (enumerate i peers)"

lemma new_tasks_facts: "held (new_tasks i peers g) = length peers" "t \<in> set (new_tasks i peers g) \<Longrightarrow> t_gen t = g"
  by (induction peers arbitrary: i) (auto simp: new_tasks_def)

lemma spawn_all:
  "fold spawn_connection peers s =
     s\<lparr>bs_tasks := bs_tasks s @ new_tasks (bs_next_id s) peers (bs_generation s), bs_next_id := bs_next_id s + length peers\<rparr>"
  by (induction peers arbitrary: s) (simp_all add: spawn_connection_def new_tasks_def)

definition permits_ok :: "nat \<Rightarrow> BoundServer \<Rightarrow> bool" where
  "permits_ok n s \<longleftrightarrow> bs_available s + permits_in_use s = n \<and> bs_permit_total s = min n U32_MAX"

lemma race_permits:
  assumes "permits_ok n s" "bs_phase s = Accepting fut" "race_shutdown_or_accept i fut s = (r, s')"
  shows "bs_sessions s' = bs_sessions s \<and> bs_tasks s' = bs_tasks s \<and> bs_permit_total s' = min n U32_MAX \<and>
    (case r of
       RacedPending \<Rightarrow> permits_ok n s'
     | RacedCompleted (Some _) \<Rightarrow> bs_available s' + held (bs_tasks s) + bs_sessions s + 1 = n
     | _ \<Rightarrow> bs_available s' + held (bs_tasks s) + bs_sessions s = n)"
  using assms
  by (cases fut) (auto simp: race_shutdown_or_accept_def permits_ok_def permits_in_use_def drop_accept_def poll_accept_def poll_listener_def
      split: if_splits list.splits option.splits AcceptPoll.splits prod.splits)

lemma rebind_permits:
  assumes "bs_available s + held (bs_tasks s) + bs_sessions s = n" "bs_permit_total s = min n U32_MAX"
  shows "permits_ok n (next_iteration (handle_rebind i cmd s))"
proof -
  obtain peers a where drained: "drain_listener_backlog REBIND_BACKLOG_DRAIN_LIMIT (pi_backlog i) (bs_available s) = (peers, a)" by fastforce
  then show ?thesis
    using drain_backlog_permits [OF drained] assms
    by (simp add: next_iteration_def handle_rebind_def permits_ok_def permits_in_use_def spawn_generation_drain_def spawn_all new_tasks_facts Let_def)
qed

lemma join_permits: "permits_ok n s \<Longrightarrow> bs_phase s = Joining \<Longrightarrow> permits_ok n (join_all s)"
  by (auto simp: join_all_def permits_ok_def permits_in_use_def collect_permits)

lemma run_until_permits:
  assumes "permits_ok n s" shows "permits_ok n (run_until grace i s)"
proof (cases "bs_phase s")
  case (Accepting fut)
  obtain r s1 where race: "race_shutdown_or_accept i fut s = (r, s1)" by fastforce
  note facts = race_permits [OF assms Accepting race]
  show ?thesis
  proof (cases r)
    case RacedShutdown
    then show ?thesis using facts by (simp add: run_until_def Accepting race handle_shutdown_signal_def permits_ok_def permits_in_use_def Let_def)
  next
    case (RacedRebind cmd)
    then show ?thesis using facts rebind_permits [of s1 n i cmd] by (simp add: run_until_def Accepting race)
  next
    case (RacedCompleted peer)
    then show ?thesis
      using facts by (cases peer) (simp_all add: run_until_def Accepting race next_iteration_def spawn_connection_def permits_ok_def permits_in_use_def)
  qed (use facts in \<open>simp add: run_until_def Accepting race\<close>)
next
  case (Draining deadline)
  have "permits_ok n (s\<lparr>bs_available := bs_available s - bs_permit_total s, bs_phase := Joining\<rparr>)" if "bs_permit_total s \<le> bs_available s"
    using that assms Draining by (simp add: permits_ok_def permits_in_use_def)
  moreover have "permits_ok n ((abort_generation (bs_generation s) s)\<lparr>bs_phase := Returned False\<rparr>)"
    using assms Draining abort_permits [of "bs_generation s" s] by (simp add: permits_ok_def permits_in_use_def)
  ultimately show ?thesis using assms Draining join_permits by (simp add: run_until_def)
qed (use assms join_permits in \<open>simp_all add: run_until_def\<close>)

lemma poll_drain_permits:
  assumes "permits_ok n s" shows "permits_ok n (poll_drain grace d s)"
proof -
  obtain deadline s1 where start: "start_drain grace d s = (deadline, s1)" by fastforce
  then have "permits_ok n s1"
    using assms by (cases "dr_deadline d") (auto simp: start_drain_def permits_ok_def permits_in_use_def)
  then show ?thesis using abort_permits [of "dr_gen d" s1]
    by (auto simp: poll_drain_def start permits_ok_def permits_in_use_def collect_permits)
qed

lemma listener_step_permits: "listener_step grace s s' \<Longrightarrow> permits_ok n s \<Longrightarrow> permits_ok n s'"
proof (induction rule: listener_step.induct)
  case (time_passes s d)
  then show ?case by (auto simp: permits_ok_def permits_in_use_def)
next
  case (connection_ends s i)
  then show ?case using held_mark_done [of i "bs_tasks s"] by (auto simp: finish_connection_def permits_ok_def permits_in_use_def)
next
  case (connection_upgraded t s i)
  then show ?case using held_mark_done [of i "bs_tasks s"] by (auto simp: delegate_connection_def permits_ok_def permits_in_use_def)
next
  case (session_ends s)
  then show ?case by (auto simp: end_session_def permits_ok_def permits_in_use_def)
next
  case (rebind_called cmd s s')
  then show ?case by (auto simp: rebind_def permits_ok_def permits_in_use_def split: option.splits list.splits)
qed (simp_all add: run_until_permits poll_drain_permits)

lemma bind_permits: "bind srv listener = Some s \<Longrightarrow> permits_ok (permit_count srv) s \<and> permits_ok (permit_count srv) (rebind_handle s)"
  by (auto simp: bind_def rebind_handle_def permits_ok_def permits_in_use_def Let_def split: if_splits)

lemma reachable_permits: "listener_reachable srv s \<Longrightarrow> permits_ok (permit_count srv) s"
  by (induction rule: listener_reachable.induct) (use bind_permits listener_step_permits in blast)+

section \<open>Generations\<close>

fun is_accepting :: "RunPhase \<Rightarrow> bool" where
  "is_accepting (Accepting _) = True"
| "is_accepting _ = False"

text \<open>Every generation but the current one is told to stop and has, while it has connections, a task that drains it; after the shutdown signal this is so for the current one too, and
  the listener and the channel of rebinding are closed.\<close>

definition generations_ok :: "BoundServer \<Rightarrow> bool" where
  "generations_ok s \<longleftrightarrow>
     (\<forall>t\<in>set (bs_tasks s). t_gen t \<le> bs_generation s \<and> (t_gen t < bs_generation s \<longrightarrow> t_gen t \<in> dr_gen ` set (bs_drains s))) \<and>
     (\<forall>g. bs_flags s g \<longleftrightarrow> g < bs_generation s \<or> g = bs_generation s \<and> \<not> is_accepting (bs_phase s)) \<and>
     (\<forall>d\<in>set (bs_drains s). dr_gen d < bs_generation s) \<and>
     (bs_listener s = None \<longleftrightarrow> \<not> is_accepting (bs_phase s)) \<and> (\<not> is_accepting (bs_phase s) \<longrightarrow> bs_rebind s = None) \<and>
     (\<forall>g<bs_generation s. bs_cancelled s g \<or> \<lparr>dr_gen = g, dr_deadline = None\<rparr> \<in> set (bs_drains s)) \<and>
     (\<not> is_accepting (bs_phase s) \<longrightarrow> bs_cancelled s (bs_generation s)) \<and> distinct (map dr_gen (bs_drains s))"

lemma set_mark_done: "t \<in> set (mark_done i ts) \<Longrightarrow> \<exists>u\<in>set ts. t_gen t = t_gen u \<and> t_id t = t_id u"
  by (auto simp: mark_done_def)

lemma mark_done_generations:
  "generations_ok s \<Longrightarrow> generations_ok (s\<lparr>bs_tasks := mark_done i (bs_tasks s), bs_available := a, bs_sessions := k\<rparr>)"
  unfolding generations_ok_def using set_mark_done [of _ i "bs_tasks s"] by fastforce

lemma rebind_generations:
  assumes "generations_ok s" "is_accepting (bs_phase s)"
  shows "generations_ok (next_iteration (handle_rebind i cmd s))"
proof -
  obtain peers a where drained: "drain_listener_backlog REBIND_BACKLOG_DRAIN_LIMIT (pi_backlog i) (bs_available s) = (peers, a)" by fastforce
  have "\<forall>t\<in>set (bs_tasks s) \<union> set (new_tasks (bs_next_id s) peers (bs_generation s)). t_gen t \<le> Suc (bs_generation s) \<and>
      (t_gen t \<le> bs_generation s \<longrightarrow> t_gen t = bs_generation s \<or> t_gen t \<in> dr_gen ` set (bs_drains s))"
    using assms(1) new_tasks_facts(2) by (fastforce simp: generations_ok_def)
  then show ?thesis
    using assms
    by (auto simp: generations_ok_def next_iteration_def reap_def handle_rebind_def drained spawn_generation_drain_def spawn_all Let_def less_Suc_eq_le)
qed

lemma abort_generations: "generations_ok s \<Longrightarrow> generations_ok (collect_generation g s)"
  by (auto simp: generations_ok_def collect_generation_def)

lemma generations_ok_cong:
  "generations_ok s \<Longrightarrow> generations_ok (s\<lparr>bs_available := a, bs_now := n, bs_sessions := k, bs_replies := r, bs_session_drains := e\<rparr>)"
  by (simp add: generations_ok_def)

lemma race_generations:
  assumes "generations_ok s" "bs_phase s = Accepting fut" "race_shutdown_or_accept i fut s = (r, s')"
  shows "generations_ok s' \<and> is_accepting (bs_phase s')"
  using assms
  by (auto simp: race_shutdown_or_accept_def generations_ok_def split: if_splits list.splits option.splits prod.splits)

lemma run_until_generations:
  assumes "generations_ok s" shows "generations_ok (run_until grace i s)"
proof (cases "bs_phase s")
  case (Accepting fut)
  obtain r s1 where race: "race_shutdown_or_accept i fut s = (r, s1)" by fastforce
  note facts = race_generations [OF assms Accepting race]
  show ?thesis
  proof (cases r)
    case RacedShutdown
    then show ?thesis using facts by (auto simp: run_until_def Accepting race handle_shutdown_signal_def generations_ok_def Let_def)
  next
    case (RacedRebind cmd)
    then show ?thesis using facts rebind_generations by (simp add: run_until_def Accepting race)
  next
    case (RacedCompleted peer)
    then show ?thesis using facts
      by (cases peer) (auto simp: run_until_def Accepting race next_iteration_def reap_def spawn_connection_def generations_ok_def)
  qed (use facts in \<open>simp add: run_until_def Accepting race\<close>)
next
  case (Draining deadline)
  have "generations_ok (s\<lparr>bs_available := a, bs_phase := p\<rparr>)" if "\<not> is_accepting p" for a p
    using assms that Draining by (simp add: generations_ok_def)
  then show ?thesis using assms Draining
    by (auto simp: run_until_def join_all_def abort_generation_def collect_generation_def generations_ok_def)
next
  case Joining
  then show ?thesis using assms by (auto simp: run_until_def join_all_def collect_generation_def generations_ok_def)
qed (use assms in \<open>simp add: run_until_def\<close>)

lemma drains_replaced:
  assumes "generations_ok s" "map dr_gen ds = map dr_gen (bs_drains s)"
    and "\<forall>g. \<lparr>dr_gen = g, dr_deadline = None\<rparr> \<in> set (bs_drains s) \<longrightarrow> bs_cancelled s g \<or> \<lparr>dr_gen = g, dr_deadline = None\<rparr> \<in> set ds"
  shows "generations_ok (s\<lparr>bs_drains := ds\<rparr>)"
proof -
  note ok = assms(1) [unfolded generations_ok_def]
  have image: "dr_gen ` set ds = dr_gen ` set (bs_drains s)" using assms(2) by (metis list.set_map)
  moreover have "\<forall>d\<in>set ds. dr_gen d < bs_generation s"
  proof
    fix d assume "d \<in> set ds"
    then have "dr_gen d \<in> dr_gen ` set (bs_drains s)" unfolding image [symmetric] by (rule imageI)
    then show "dr_gen d < bs_generation s" using ok by auto
  qed
  moreover have "\<forall>g<bs_generation s. bs_cancelled s g \<or> \<lparr>dr_gen = g, dr_deadline = None\<rparr> \<in> set ds" using ok assms(3) by (elim conjE) metis
  ultimately show ?thesis using ok assms(2) unfolding generations_ok_def by simp
qed

lemma poll_drain_generations:
  assumes ok: "generations_ok s" and d: "d \<in> set (bs_drains s)" shows "generations_ok (poll_drain grace d s)"
proof -
  obtain deadline s1 where start: "start_drain grace d s = (deadline, s1)" by fastforce
  have s1: "generations_ok s1" "bs_drains s1 = bs_drains s" "bs_cancelled s1 (dr_gen d) \<or> dr_deadline d \<noteq> None"
    using ok start by (auto simp: start_drain_def generations_ok_def split: option.splits)
  have same: "e = d" if "e \<in> set (bs_drains s)" "dr_gen e = dr_gen d" for e
    using ok d that by (auto simp: generations_ok_def distinct_map dest: inj_onD)
  have removed: "generations_ok ((collect_generation (dr_gen d) (s1\<lparr>bs_available := a\<rparr>))\<lparr>bs_drains := filter (\<lambda>e. e \<noteq> d) (bs_drains s1)\<rparr>)" for a
    using s1 same by (fastforce simp: generations_ok_def collect_generation_def distinct_map_filter)
  have kept: "generations_ok (s1\<lparr>bs_drains := map (\<lambda>e. if e = d then d\<lparr>dr_deadline := Some deadline\<rparr> else e) (bs_drains s1)\<rparr>)"
    using s1(1)
  proof (rule drains_replaced)
    show "\<forall>g. \<lparr>dr_gen = g, dr_deadline = None\<rparr> \<in> set (bs_drains s1) \<longrightarrow> bs_cancelled s1 g \<or>
        \<lparr>dr_gen = g, dr_deadline = None\<rparr> \<in> set (map (\<lambda>e. if e = d then d\<lparr>dr_deadline := Some deadline\<rparr> else e) (bs_drains s1))"
      using s1(3) by (auto simp: image_iff)
  qed simp
  show ?thesis using removed [of "bs_available s1"] removed kept by (simp add: poll_drain_def start abort_generation_def)
qed

lemma listener_step_generations: "listener_step grace s s' \<Longrightarrow> generations_ok s \<Longrightarrow> generations_ok s'"
proof (induction rule: listener_step.induct)
  case (time_passes s d)
  then show ?case by (simp add: generations_ok_def)
next
  case (session_ends s)
  then show ?case by (simp add: end_session_def generations_ok_def)
next
  case (connection_ends s i)
  then show ?case using mark_done_generations [where s = s and i = i and k = "bs_sessions s"] by (simp add: finish_connection_def)
next
  case (connection_upgraded t s i)
  then show ?case using mark_done_generations [where s = s and i = i and a = "bs_available s"] by (simp add: delegate_connection_def)
next
  case (rebind_called cmd s s')
  then show ?case by (auto simp: rebind_def generations_ok_def split: option.splits list.splits)
qed (simp_all add: run_until_generations poll_drain_generations)

lemma reachable_generations: "listener_reachable srv s \<Longrightarrow> generations_ok s"
proof (induction rule: listener_reachable.induct)
  case (step s s')
  then show ?case by (blast intro: listener_step_generations)
qed (auto simp: bind_def rebind_handle_def generations_ok_def Let_def split: if_splits)

section \<open>Properties\<close>

text \<open>C11. The connection limit. Whatever the interleaving of accepting, ending, upgrading, rebinding, draining and aborting, no permit is lost or made: the free ones, those
  of the running connections and of the sessions of upgraded ones, and those of the loop always add up to the configured number. So there are never more connections and sessions than that number (or
  one, when it is zero). A connection is told to stop exactly when its generation has been replaced or the shutdown has begun, and every connection of a replaced generation has a task that drains it.\<close>

theorem connections_bounded:
  assumes "listener_reachable srv s"
  shows "bs_available s + held (bs_tasks s) + bs_sessions s + loop_permits (bs_permit_total s) (bs_phase s) = max (max_connections srv) 1 \<and>
    held (bs_tasks s) + bs_sessions s \<le> max (max_connections srv) 1 \<and>
    (\<forall>t\<in>set (bs_tasks s). t_gen t \<le> bs_generation s \<and>
       (bs_flags s (t_gen t) \<longleftrightarrow> t_gen t < bs_generation s \<or> \<not> is_accepting (bs_phase s)) \<and>
       (t_gen t < bs_generation s \<longrightarrow> (\<exists>d\<in>set (bs_drains s). dr_gen d = t_gen t)))"
proof -
  have "permits_ok (permit_count srv) s" and ok: "generations_ok s"
    using reachable_permits [OF assms] reachable_generations [OF assms] by blast+
  then have sum: "bs_available s + held (bs_tasks s) + bs_sessions s + loop_permits (bs_permit_total s) (bs_phase s) = max (max_connections srv) 1"
    by (auto simp: permits_ok_def permits_in_use_def permit_count_def)
  have tasks: "t_gen t \<le> bs_generation s \<and> (bs_flags s (t_gen t) \<longleftrightarrow> t_gen t < bs_generation s \<or> \<not> is_accepting (bs_phase s)) \<and>
       (t_gen t < bs_generation s \<longrightarrow> (\<exists>d\<in>set (bs_drains s). dr_gen d = t_gen t))" if "t \<in> set (bs_tasks s)" for t
  proof -
    have "t_gen t \<le> bs_generation s" "t_gen t < bs_generation s \<longrightarrow> t_gen t \<in> dr_gen ` set (bs_drains s)"
      using ok that unfolding generations_ok_def by blast+
    moreover have "bs_flags s (t_gen t) \<longleftrightarrow> t_gen t < bs_generation s \<or> t_gen t = bs_generation s \<and> \<not> is_accepting (bs_phase s)"
      using ok unfolding generations_ok_def by blast
    ultimately show ?thesis by auto
  qed
  then show ?thesis using sum by auto
qed

definition listener_sample :: BoundServer where
  "listener_sample = the (bind (server_new :: unit Server) 80)"

lemma listener_sample_reachable: "listener_reachable (server_new :: unit Server) listener_sample"
proof -
  have "bind (server_new :: unit Server) 80 = Some listener_sample"
    by (simp add: listener_sample_def bind_def permit_count_def server_new_def DEFAULT_MAX_CONNECTIONS_def MAX_PERMITS_def Let_def)
  then show ?thesis by (rule listener_reachable.bound)
qed

theorem connections_bounded_witness:
  "bs_available listener_sample + held (bs_tasks listener_sample) + bs_sessions listener_sample \<le> 10000"
  using connections_bounded [OF listener_sample_reachable] by (simp add: server_new_def DEFAULT_MAX_CONNECTIONS_def)

text \<open>The shutdown signal at once after binding.\<close>

definition sample_signal :: PollInput where
  "sample_signal = \<lparr>pi_shutdown = True, pi_accept = AcceptPending, pi_backlog = []\<rparr>"

definition sample_draining :: BoundServer where
  "sample_draining = run_until 30000 sample_signal listener_sample"

lemma sample_draining_reachable: "listener_reachable (server_new :: unit Server) sample_draining" "bs_phase sample_draining = Draining 30000"
proof -
  have "shutdown_grace_period (server_new :: unit Server) = 30000" by (simp add: server_new_def DEFAULT_SHUTDOWN_GRACE_PERIOD_def)
  then show "listener_reachable (server_new :: unit Server) sample_draining"
    unfolding sample_draining_def using listener_reachable.step [OF listener_sample_reachable listener_step.loop_polled] by simp
  show "bs_phase sample_draining = Draining 30000"
    by (simp add: sample_draining_def listener_sample_def bind_def permit_count_def server_new_def DEFAULT_MAX_CONNECTIONS_def MAX_PERMITS_def
        run_until_def race_shutdown_or_accept_def sample_signal_def handle_shutdown_signal_def Let_def)
qed



lemma step_after_shutdown:
  assumes "listener_step grace s s'" "generations_ok s" "\<not> is_accepting (bs_phase s)"
  shows "\<not> is_accepting (bs_phase s') \<and> bs_next_id s' = bs_next_id s \<and> bs_generation s' = bs_generation s \<and>
    t_id ` {t \<in> set (bs_tasks s'). \<not> t_done t} \<subseteq> t_id ` {t \<in> set (bs_tasks s). \<not> t_done t} \<and>
    (\<exists>replies. bs_replies s' = bs_replies s @ replies \<and> (\<forall>r\<in>set replies. \<not> snd r))"
  using assms
proof (induction rule: listener_step.induct)
  case (loop_polled s i)
  then show ?case
    by (cases "bs_phase s") (auto simp: run_until_def join_all_def abort_generation_def collect_generation_def)
next
  case (connection_ends s i)
  then show ?case by (auto simp: finish_connection_def mark_done_def split: if_splits)
next
  case (connection_upgraded t s i)
  then show ?case by (auto simp: delegate_connection_def mark_done_def split: if_splits)
next
  case (drain_polled d s)
  then show ?case
    by (auto simp: poll_drain_def start_drain_def abort_generation_def collect_generation_def split: option.splits)
next
  case (rebind_called cmd s s')
  then have "bs_rebind s = None" by (simp add: generations_ok_def)
  with rebind_called show ?case by (auto simp: rebind_def)
qed (auto simp: end_session_def)

text \<open>C13. The shutdown is final. Once the shutdown signal has been taken, then for ever after, whatever else happens: the listener is closed and no connection is added; every connection of
  every generation is told to stop, and the upgraded ones are cancelled, by now or as soon as their draining task first runs; and every call of \<^verbatim>\<open>rebind\<close> fails.\<close>

theorem shutdown_is_final:
  assumes "listener_reachable srv s" "\<not> is_accepting (bs_phase s)" "(listener_step (shutdown_grace_period srv))\<^sup>*\<^sup>* s s'"
  shows "bs_listener s' = None \<and> bs_next_id s' = bs_next_id s \<and>
    t_id ` {t \<in> set (bs_tasks s'). \<not> t_done t} \<subseteq> t_id ` {t \<in> set (bs_tasks s). \<not> t_done t} \<and>
    (\<forall>t\<in>set (bs_tasks s'). bs_flags s' (t_gen t)) \<and>
    (\<forall>g\<le>bs_generation s'. bs_cancelled s' g \<or> \<lparr>dr_gen = g, dr_deadline = None\<rparr> \<in> set (bs_drains s')) \<and>
    (\<exists>replies. bs_replies s' = bs_replies s @ replies \<and> (\<forall>r\<in>set replies. \<not> snd r))"
proof -
  have run: "listener_reachable srv s' \<and> \<not> is_accepting (bs_phase s') \<and> bs_next_id s' = bs_next_id s \<and>
      t_id ` {t \<in> set (bs_tasks s'). \<not> t_done t} \<subseteq> t_id ` {t \<in> set (bs_tasks s). \<not> t_done t} \<and>
      (\<exists>replies. bs_replies s' = bs_replies s @ replies \<and> (\<forall>r\<in>set replies. \<not> snd r))"
    using assms(3)
  proof (induction rule: rtranclp_induct)
    case base
    then show ?case using assms(1,2) by simp
  next
    case (step s1 s2)
    then have "listener_reachable srv s2" "generations_ok s1" by (auto intro: listener_reachable.step reachable_generations)
    then show ?case using step_after_shutdown [OF step.hyps(2)] step.IH by fastforce
  qed
  then have ok: "generations_ok s'" using reachable_generations by blast
  have "bs_flags s' (t_gen t)" if "t \<in> set (bs_tasks s')" for t
    using ok that run unfolding generations_ok_def by (metis le_neq_implies_less)
  moreover have "bs_cancelled s' g \<or> \<lparr>dr_gen = g, dr_deadline = None\<rparr> \<in> set (bs_drains s')" if "g \<le> bs_generation s'" for g
    using ok that run unfolding generations_ok_def by (metis le_neq_implies_less)
  moreover have "bs_listener s' = None" using ok run by (simp add: generations_ok_def)
  ultimately show ?thesis using run by blast
qed

theorem shutdown_is_final_witness:
  "bs_listener (sample_draining\<lparr>bs_now := bs_now sample_draining + 1\<rparr>) = None"
proof -
  have "(listener_step (shutdown_grace_period (server_new :: unit Server)))\<^sup>*\<^sup>* sample_draining (sample_draining\<lparr>bs_now := bs_now sample_draining + 1\<rparr>)"
    by (intro r_into_rtranclp listener_step.time_passes)
  then show ?thesis
    using shutdown_is_final [OF sample_draining_reachable(1)] sample_draining_reachable(2) by simp
qed

section \<open>Rebinding\<close>

text \<open>The connections that wait at the old listener, up to the first moment at which it has none to give.\<close>

fun waiting_peers :: "AcceptPoll list \<Rightarrow> nat list" where
  "waiting_peers (AcceptReady peer # answers) = peer # waiting_peers answers"
| "waiting_peers _ = []"

lemma drain_backlog_exact:
  "drain_listener_backlog n answers a = (take (min n a) (waiting_peers answers), a - length (take (min n a) (waiting_peers answers)))"
proof (induction n answers a rule: drain_listener_backlog.induct)
  case (2 n answers a)
  then show ?case by (cases answers rule: waiting_peers.cases) (auto simp: gr0_conv_Suc)
qed simp

text \<open>C14. Rebinding. When the loop takes a command to rebind, it replaces the listener by the new one, and the command is answered. No connection is lost: those that
  run go on, and of those that wait at the old listener as many as the limit of connections allows, at most 1024, are accepted, in order. All of these belong to the old generation, which is told to
  stop and gets a task that drains it; connections accepted from then on belong to the next one, which is not.\<close>

theorem rebind_switches:
  assumes "listener_reachable srv s" "bs_phase s = Accepting fut" "\<not> pi_shutdown i" "bs_rebind s = Some (cmd # cmds)"
  shows "let s' = run_until grace i s;
      free = max (max_connections srv) 1 - held (bs_tasks s) - bs_sessions s;
      peers = take (min 1024 free) (waiting_peers (pi_backlog i)) in
    bs_phase s' = Accepting WantPermit \<and> bs_listener s' = Some (cmd_listener cmd) \<and> bs_rebind s' = Some cmds \<and>
    bs_replies s' = bs_replies s @ [(cmd_reply cmd, True)] \<and>
    filter (\<lambda>t. \<not> t_done t) (bs_tasks s') =
      filter (\<lambda>t. \<not> t_done t) (bs_tasks s) @ new_tasks (bs_next_id s) peers (bs_generation s) \<and>
    bs_generation s' = Suc (bs_generation s) \<and> bs_flags s' (bs_generation s) \<and> \<not> bs_flags s' (Suc (bs_generation s)) \<and>
    bs_drains s' = bs_drains s @ [\<lparr>dr_gen = bs_generation s, dr_deadline = None\<rparr>]"
proof -
  have ok: "generations_ok s" and permits: "permits_ok (permit_count srv) s"
    using reachable_generations [OF assms(1)] reachable_permits [OF assms(1)] by blast+
  have free: "drop_accept fut (bs_available s) = max (max_connections srv) 1 - held (bs_tasks s) - bs_sessions s"
    using permits assms(2) by (cases fut) (auto simp: permits_ok_def permits_in_use_def permit_count_def drop_accept_def)
  let ?peers = "take (min 1024 (drop_accept fut (bs_available s))) (waiting_peers (pi_backlog i))"
  have running: "filter (\<lambda>t. (t_gen t = g \<longrightarrow> \<not> t_done t) \<and> \<not> t_done t) ts = filter (\<lambda>t. \<not> t_done t) ts" for g ts
    by (rule filter_cong) auto
  have new: "filter (\<lambda>t. \<not> t_done t) (new_tasks k ps g) = new_tasks k ps g" for k ps g
    by (induction ps arbitrary: k) (simp_all add: new_tasks_def)
  have flags: "\<not> bs_flags s (Suc (bs_generation s))" using ok by (simp add: generations_ok_def)
  have "run_until grace i s = next_iteration (handle_rebind i cmd (s\<lparr>bs_rebind := Some cmds, bs_available := drop_accept fut (bs_available s)\<rparr>))"
    using assms(2-4) by (simp add: run_until_def race_shutdown_or_accept_def)
  then show ?thesis
    unfolding Let_def free [symmetric]
    using flags
    by (simp add: running new next_iteration_def reap_def handle_rebind_def drain_backlog_exact REBIND_BACKLOG_DRAIN_LIMIT_def spawn_generation_drain_def spawn_all Let_def)
qed

lemma bind_start: "bind srv listener = Some s \<Longrightarrow> bs_rebind s = None \<and> bs_phase s = Accepting WantPermit"
  by (auto simp: bind_def Let_def split: if_splits)

definition sample_rebind :: BoundServer where
  "sample_rebind = (rebind_handle listener_sample)\<lparr>bs_rebind := Some [\<lparr>cmd_listener = 81, cmd_reply = 0\<rparr>]\<rparr>"

theorem rebind_switches_witness:
  "bs_listener (run_until 30000 (sample_signal\<lparr>pi_shutdown := False\<rparr>) sample_rebind) = Some 81"
proof -
  have bound: "bind (server_new :: unit Server) 80 = Some listener_sample"
    by (simp add: listener_sample_def bind_def permit_count_def server_new_def DEFAULT_MAX_CONNECTIONS_def MAX_PERMITS_def Let_def)
  have "bs_rebind listener_sample = None" "bs_phase listener_sample = Accepting WantPermit"
    using bind_start [OF bound] by simp_all
  then have "rebind \<lparr>cmd_listener = 81, cmd_reply = 0\<rparr> (rebind_handle listener_sample) = Some sample_rebind" "bs_phase sample_rebind = Accepting WantPermit"
    by (simp_all add: rebind_def rebind_handle_def sample_rebind_def)
  then have "listener_reachable (server_new :: unit Server) sample_rebind"
    by (blast intro: listener_reachable.step listener_reachable.handle_taken [OF bound] listener_step.rebind_called)
  from rebind_switches [OF this \<open>bs_phase sample_rebind = Accepting WantPermit\<close>, of "sample_signal\<lparr>pi_shutdown := False\<rparr>" "\<lparr>cmd_listener = 81, cmd_reply = 0\<rparr>" "[]" 30000]
  show ?thesis by (simp add: sample_signal_def sample_rebind_def Let_def)
qed

section \<open>A limit above 32 bits\<close>

text \<open>The number of permits that the shutdown collects is cut to 32 bits. With a limit above that, collecting them does not mean that no connection is left: the loop then
  waits for the connections of its generation without any limit of time.\<close>

definition wide_server :: "unit Server" where
  "wide_server = server_new\<lparr>max_connections := 4294967296\<rparr>"

definition wide_joining :: BoundServer where
  "wide_joining = (let run = run_until 30000; s = the (bind wide_server 80);
     s = run \<lparr>pi_shutdown = False, pi_accept = AcceptReady 7, pi_backlog = []\<rparr> s;
     s = run sample_signal s
   in run sample_signal s)"

lemma wide_joining_eval:
  "bs_phase wide_joining = Joining" "held (bs_tasks wide_joining) = 1" "\<not> generation_done (bs_generation wide_joining) wide_joining"
  by (simp_all add: wide_joining_def wide_server_def bind_def permit_count_def MAX_PERMITS_def run_until_def race_shutdown_or_accept_def sample_signal_def
      poll_accept_def poll_listener_def next_iteration_def reap_def spawn_connection_def handle_shutdown_signal_def drop_accept_def join_all_def
      generation_done_def Let_def server_new_def)

lemma unbounded_shutdown:
  "listener_reachable wide_server wide_joining \<and> bs_phase wide_joining = Joining \<and>
   (\<forall>d i. bs_phase (run_until grace i (wide_joining\<lparr>bs_now := bs_now wide_joining + d\<rparr>)) = Joining)"
proof (intro conjI allI)
  have grace: "shutdown_grace_period wide_server = 30000" by (simp add: wide_server_def server_new_def DEFAULT_SHUTDOWN_GRACE_PERIOD_def)
  have "bind wide_server 80 = Some (the (bind wide_server 80))"
    by (simp add: bind_def wide_server_def permit_count_def MAX_PERMITS_def server_new_def Let_def)
  then have start: "listener_reachable wide_server (the (bind wide_server 80))" by (rule listener_reachable.bound)
  have polled: "listener_reachable wide_server (run_until 30000 i s)" if "listener_reachable wide_server s" for i s
    using listener_reachable.step [OF that listener_step.loop_polled, of i] unfolding grace .
  show "listener_reachable wide_server wide_joining" unfolding wide_joining_def Let_def by (rule polled [OF polled [OF polled [OF start]]])
next
  fix d i
  show "bs_phase (run_until grace i (wide_joining\<lparr>bs_now := bs_now wide_joining + d\<rparr>)) = Joining"
    using wide_joining_eval by (simp add: run_until_def join_all_def generation_done_def)
qed (rule wide_joining_eval)

section \<open>What a connection that is told to stop still does\<close>

lemma stopped_segment:
  assumes "handle_request E srv ctx n request leftover st = Some flow"
  shows "\<exists>seg. c_trace (conn_of flow) = c_trace st @ seg \<and>
    (length (filter is_read seg) = 1 \<and> (env_shutdown E [n, 4] \<longrightarrow> (\<forall>l p. Delegated l p \<notin> set seg))) \<and>
    (flow = Flow.Continue (conn_of flow) \<longrightarrow> \<not> env_shutdown E [n, 2, 1])"
proof -
  obtain seg where seg: "c_trace (conn_of flow) = c_trace st @ seg" "request_segment srv ctx n seg"
    using handle_request_segment [OF assms] by blast
  have "\<not> env_shutdown E [n, 2, 1]" if "flow = Flow.Continue (conn_of flow)"
    using handle_request_Continue [of E srv ctx n request leftover st "conn_of flow"] assms that by (simp add: initial_keep_alive_def still_alive_def)
  moreover have "Delegated l p \<notin> set seg" if stop: "env_shutdown E [n, 4]" for l p
  proof -
    obtain rej ext gs where gates: "first_rejection [n, 3] 0 (gates srv) (req_head request) ctx extensions_new = (rej, ext, gs)"
        and "grows is_answer (log (arrival srv request @ gs) st) (conn_of flow)"
      using assms
    proof (cases rule: handle_request_cases)
      case (rejected r ext gs)
      then show thesis using that [of "Some r" ext gs] grows_mono [OF send_response_grows] is_answer_simps(6) by metis
    next
      case (upgrade head ext gs)
      then show thesis
        using that [of None ext gs] stop grows_mono [OF send_last_grows] is_answer_simps(7) by (metis upgrade_request_def)
    next
      case (answer head ext gs)
      then show thesis using that [of None ext gs] answer_request_grows [OF answer(3)] by blast
    qed
    then obtain es where "seg = arrival srv request @ gs @ es" "\<forall>e\<in>set es. is_answer e" using seg(1) by (auto simp: grows_def log_def)
    then show ?thesis
      using first_rejection_events [OF gates] by (fastforce simp: arrival_def is_answer_def is_call_def is_write_def is_sent_def)
  qed
  ultimately show ?thesis using seg segment_reads by blast
qed

text \<open>C16. Draining a connection. Let a connection be told to stop, for good, by the time of its \<open>n\<close>-th request. Then it reads at most \<open>n\<close> requests: one that was or is in progress is
  still served, and no other after it; and the \<open>n\<close>-th one is not upgraded. In particular a connection that a rebinding accepts from the old listener, for which this holds from the beginning, serves at most one
  request and is never upgraded.\<close>

theorem stopped_connection_drains:
  assumes "handle_connection_with_permit mm rd E srv s permit peer = Some (st, s')" "1 \<le> n"
    and "\<forall>k\<ge>n. env_shutdown E [k, 2, 1] \<and> env_shutdown E [k, 4]"
  shows "\<exists>segs tail. c_trace st = concat segs @ tail \<and> (tail = [] \<or> error_tail tail) \<and> length segs \<le> n \<and>
    (\<forall>seg\<in>set segs. length (filter is_read seg) = 1) \<and> (length segs = n \<longrightarrow> (\<forall>l p. Delegated l p \<notin> set (last segs)))"
proof -
  obtain segs tail where segs: "c_trace st = concat segs @ tail" "tail = [] \<or> error_tail tail"
      "\<forall>i<length segs. length (filter is_read (segs ! i)) = 1 \<and> (env_shutdown E [Suc i, 4] \<longrightarrow> (\<forall>l p. Delegated l p \<notin> set (segs ! i)))"
      "\<forall>i<length segs. Suc i < length segs \<or> tail \<noteq> [] \<longrightarrow> \<not> env_shutdown E [Suc i, 2, 1]"
    using connection_segments [OF assms(1), of "\<lambda>k seg. length (filter is_read seg) = 1 \<and> (env_shutdown E [k, 4] \<longrightarrow> (\<forall>l p. Delegated l p \<notin> set seg))"
        "\<lambda>k _. \<not> env_shutdown E [k, 2, 1]"] stopped_segment by blast
  have "length segs \<le> n"
  proof (rule ccontr)
    assume "\<not> length segs \<le> n"
    then have "\<not> env_shutdown E [Suc (n - 1), 2, 1]" using segs(4) [rule_format, of "n - 1"] assms(2) by simp
    then show False using assms(2,3) by simp
  qed
  moreover have "\<forall>l p. Delegated l p \<notin> set (last segs)" if "length segs = n"
  proof -
    have "last segs = segs ! (n - 1)" using that assms(2) last_conv_nth [of segs] by force
    then show ?thesis using segs(3) [rule_format, of "n - 1"] assms(2,3) that by simp
  qed
  moreover have "\<forall>seg\<in>set segs. length (filter is_read seg) = 1" using segs(3) by (metis in_set_conv_nth)
  ultimately show ?thesis using segs(1,2) by blast
qed

theorem stopped_connection_drains_witness:
  "\<exists>st s' segs tail. handle_connection_with_permit (\<lambda>h n. find_sub n h) slice_reader (sample_env\<lparr>env_shutdown := \<lambda>_. True\<rparr>) sample_server get_a True None = Some (st, s') \<and>
     c_trace st = concat segs @ tail \<and> length segs \<le> 1"
proof -
  obtain st s' where run: "handle_connection_with_permit (\<lambda>h n. find_sub n h) slice_reader (sample_env\<lparr>env_shutdown := \<lambda>_. True\<rparr>) sample_server get_a True None = Some (st, s')"
    using serve_connection_returns [OF sample_server_ok(1) naive_search.substring_search_axioms slice_socket.bounded_reader_axioms sample_server_ok(2), of recv_new]
    by (fastforce simp: handle_connection_with_permit_def)
  then show ?thesis using stopped_connection_drains [OF run, of 1] by auto
qed

end
