(* ===== verification/Tracing.thy ===== *)
theory Tracing
  imports Sample_Heads "HOL-Library.Word"
begin

text \<open>
  \<^verbatim>\<open>crates/plugin-tracing\<close>: which responses are recorded, and what a record holds. The counter of the sampler is 64 bits wide and wraps. A call of \<^verbatim>\<open>record_response\<close> has at most one
  atomic operation on shared state, so calls that run at the same time behave like the list of calls in the order of these. The back end to which \<^verbatim>\<open>tracing::info!\<close> gives the record is
  not modelled; a duration is a number.
\<close>

section \<open>The sampler\<close>

record Sampler =
  sm_interval :: "64 word"
  sm_counter :: "64 word"

definition sampler_new :: "64 word \<Rightarrow> Sampler" where
  "sampler_new interval = \<lparr>sm_interval = interval, sm_counter = 0\<rparr>"

definition should_sample :: "Sampler \<Rightarrow> bool \<times> Sampler" where
  "should_sample sampler = (sm_counter sampler mod sm_interval sampler = 0, sampler\<lparr>sm_counter := sm_counter sampler + 1\<rparr>)"

section \<open>The layer\<close>

record TracingConfig =
  sample_interval :: "64 word"
  exclude_paths :: "bytes list"

definition DEFAULT_SAMPLE_INTERVAL :: "64 word" where "DEFAULT_SAMPLE_INTERVAL = 100"

definition tracing_config_new :: "64 word \<Rightarrow> TracingConfig" where
  "tracing_config_new interval = \<lparr>sample_interval = interval, exclude_paths = []\<rparr>"

definition tracing_config_default :: TracingConfig where
  "tracing_config_default = \<lparr>sample_interval = DEFAULT_SAMPLE_INTERVAL, exclude_paths = []\<rparr>"

definition exclude_path :: "TracingConfig \<Rightarrow> bytes \<Rightarrow> TracingConfig" where
  "exclude_path config path = config\<lparr>exclude_paths := exclude_paths config @ [path]\<rparr>"

record TracingLayer =
  tl_sampler :: Sampler
  tl_exclude_paths :: "bytes list"

definition tracing_layer_new :: "TracingConfig \<Rightarrow> TracingLayer" where
  "tracing_layer_new config = \<lparr>tl_sampler = sampler_new (sample_interval config), tl_exclude_paths = exclude_paths config\<rparr>"

record TraceEvent =
  te_method :: bytes
  te_path :: bytes
  te_elapsed :: nat

definition trace_path :: "RequestHead \<Rightarrow> bytes" where
  "trace_path head = (case split_once CHR ''?'' (head_target head) of Some (path, _) \<Rightarrow> path | None \<Rightarrow> head_target head)"

definition record_response :: "TracingLayer \<Rightarrow> RequestHead \<Rightarrow> nat \<Rightarrow> TraceEvent option \<times> TracingLayer" where
  "record_response layer head elapsed =
     (let path = trace_path head in
      if path \<in> set (tl_exclude_paths layer) then (None, layer)
      else case should_sample (tl_sampler layer) of
        (False, sampler) \<Rightarrow> (None, layer\<lparr>tl_sampler := sampler\<rparr>)
      | (True, sampler) \<Rightarrow> (Some \<lparr>te_method = head_method head, te_path = path, te_elapsed = elapsed\<rparr>, layer\<lparr>tl_sampler := sampler\<rparr>))"

fun record_responses :: "TracingLayer \<Rightarrow> (RequestHead \<times> nat) list \<Rightarrow> TraceEvent list \<times> TracingLayer" where
  "record_responses layer [] = ([], layer)"
| "record_responses layer ((head, elapsed) # calls) =
     (case record_response layer head elapsed of
        (event, layer) \<Rightarrow> (case record_responses layer calls of (events, layer) \<Rightarrow> ((case event of Some e \<Rightarrow> [e] | None \<Rightarrow> []) @ events, layer)))"

section \<open>What is recorded\<close>

definition tracked :: "bytes list \<Rightarrow> RequestHead \<times> nat \<Rightarrow> bool" where
  "tracked excluded call \<longleftrightarrow> trace_path (fst call) \<notin> set excluded"

definition trace_event :: "RequestHead \<times> nat \<Rightarrow> TraceEvent" where
  "trace_event call = \<lparr>te_method = head_method (fst call), te_path = trace_path (fst call), te_elapsed = snd call\<rparr>"

lemma tracing_pair [simp]:
  "tracked excluded (head, elapsed) \<longleftrightarrow> trace_path head \<notin> set excluded"
  "trace_event (head, elapsed) = \<lparr>te_method = head_method head, te_path = trace_path head, te_elapsed = elapsed\<rparr>"
  by (simp_all add: tracked_def trace_event_def)

text \<open>The numbers of the calls that are sampled when the counter starts at \<open>k\<close>.\<close>

definition sampled :: "64 word \<Rightarrow> nat \<Rightarrow> nat set" where
  "sampled interval k = {n. (k + n) mod 2 ^ 64 mod unat interval = 0}"

lemma sampled_zero: "0 \<in> sampled interval k \<longleftrightarrow> (of_nat k :: 64 word) mod interval = 0"
  by (simp add: sampled_def unat_mod unat_of_nat word_unat_eq_iff)

lemma sampled_Suc: "Suc n \<in> sampled interval k \<longleftrightarrow> n \<in> sampled interval (Suc k)"
  by (simp add: sampled_def)

lemma record_responses_eq:
  "fst (record_responses \<lparr>tl_sampler = \<lparr>sm_interval = interval, sm_counter = of_nat k\<rparr>, tl_exclude_paths = excluded\<rparr> calls) =
     map trace_event (nths (filter (tracked excluded) calls) (sampled interval k))"
proof (induction calls arbitrary: k)
  case (Cons call calls)
  obtain head elapsed where call: "call = (head, elapsed)" by fastforce
  show ?case
  proof (cases "tracked excluded call")
    case True
    have "fst (record_responses \<lparr>tl_sampler = \<lparr>sm_interval = interval, sm_counter = of_nat k + 1\<rparr>, tl_exclude_paths = excluded\<rparr> calls) =
        map trace_event (nths (filter (tracked excluded) calls) (sampled interval (Suc k)))"
      using Cons.IH [of "Suc k"] by (simp add: add.commute)
    then show ?thesis using True
      by (auto simp: call record_response_def should_sample_def nths_Cons sampled_zero sampled_Suc split: prod.splits)
  next
    case False
    then show ?thesis using Cons.IH [of k] by (auto simp: call record_response_def split: prod.splits)
  qed
qed simp

lemma trace_path_no_query: "CHR ''?'' \<notin> set (trace_path head)"
  by (auto simp: trace_path_def split_once_Some_iff split_once_None_iff split: option.splits)

text \<open>What is traced, exactly. Of the responses of a server in the order of their calls, those whose path is excluded leave no trace, not even in the counter. Of the others, numbered from
  zero, the record is made exactly for the multiples of the interval (counting modulo \<open>2\<^sup>6\<^sup>4\<close>), in order, with the method, the duration and the path, which never contains a query.\<close>

theorem trace_exact:
  "fst (record_responses (tracing_layer_new config) calls) =
     map trace_event (nths (filter (tracked (exclude_paths config)) calls) {n. n mod 2 ^ 64 mod unat (sample_interval config) = 0}) \<and>
   (\<forall>event\<in>set (fst (record_responses (tracing_layer_new config) calls)). CHR ''?'' \<notin> set (te_path event) \<and> te_path event \<notin> set (exclude_paths config))"
proof -
  have eq: "fst (record_responses (tracing_layer_new config) calls) =
      map trace_event (nths (filter (tracked (exclude_paths config)) calls) {n. n mod 2 ^ 64 mod unat (sample_interval config) = 0})"
    using record_responses_eq [of "sample_interval config" 0 "exclude_paths config" calls] by (simp add: tracing_layer_new_def sampler_new_def sampled_def)
  show ?thesis unfolding eq by (auto simp: trace_event_def trace_path_no_query tracked_def dest!: in_set_nthsD)
qed

definition sample_tracing :: TracingConfig where
  "sample_tracing = exclude_path (tracing_config_new 2) ''/health''"

definition sample_calls :: "(RequestHead \<times> nat) list" where
  "sample_calls = [(mk_head ''GET'' ''/a?token=x'' Http11 [], 1), (mk_head ''GET'' ''/health'' Http11 [], 2), (mk_head ''GET'' ''/b'' Http11 [], 3), (mk_head ''GET'' ''/c'' Http11 [], 4)]"

theorem trace_exact_witness:
  "map te_path (fst (record_responses (tracing_layer_new sample_tracing) sample_calls)) = [''/a'', ''/c''] \<and>
   (\<forall>event\<in>set (fst (record_responses (tracing_layer_new sample_tracing) sample_calls)). CHR ''?'' \<notin> set (te_path event))"
proof -
  have "map te_path (fst (record_responses (tracing_layer_new sample_tracing) sample_calls)) = [''/a'', ''/c'']" by code_simp
  then show ?thesis using trace_exact [of sample_tracing sample_calls] by simp
qed

lemma card_multiples:
  assumes "0 < (k :: nat)"
  shows "card {n. n < m \<and> n mod k = 0} = (m + k - 1) div k"
proof (induction m)
  case (Suc m)
  have split: "{n. n < Suc m \<and> n mod k = 0} = (if m mod k = 0 then insert m {n. n < m \<and> n mod k = 0} else {n. n < m \<and> n mod k = 0})"
    by (auto simp: less_Suc_eq)
  have "(Suc m + k - 1) div k = (m + k - 1) div k + (if m mod k = 0 then 1 else 0)"
  proof (cases "m mod k = 0")
    case True
    then obtain q where m: "m = k * q" by auto
    have "(m + k - 1) div k = q" "(m + k) div k = q + 1"
      using m assms by (auto intro!: div_nat_eqI simp: algebra_simps)
    then show ?thesis using True by simp
  next
    case False
    define q r where "q = m div k" and "r = m mod k"
    have m: "m = k * q + r" "0 < r" "r < k" using False assms by (simp_all add: q_def r_def)
    have "(m + k - 1) div k = q + 1" "(m + k) div k = q + 1"
      using m assms by (auto intro!: div_nat_eqI simp: algebra_simps)
    then show ?thesis using False by simp
  qed
  then show ?case using Suc.IH by (simp add: split)
qed (use assms in simp)

text \<open>How many: of \<open>m\<close> responses that are not excluded, \<open>m / interval\<close> rounded up, because the first one is recorded.\<close>

lemma trace_count:
  assumes "sample_interval config \<noteq> 0" "length calls \<le> 2 ^ 64" "list_all (tracked (exclude_paths config)) calls"
  shows "length (fst (record_responses (tracing_layer_new config) calls)) =
    (length calls + unat (sample_interval config) - 1) div unat (sample_interval config)"
proof -
  have "filter (tracked (exclude_paths config)) calls = calls" using assms(3) by (simp add: list_all_iff)
  then have "fst (record_responses (tracing_layer_new config) calls) = map trace_event (nths calls (sampled (sample_interval config) 0))"
    using record_responses_eq [of "sample_interval config" 0 "exclude_paths config" calls] by (simp add: tracing_layer_new_def sampler_new_def)
  moreover have "{n. n < length calls \<and> n \<in> sampled (sample_interval config) 0} = {n. n < length calls \<and> n mod unat (sample_interval config) = 0}"
    using assms(2) by (auto simp: sampled_def)
  moreover have "0 < unat (sample_interval config)" using assms(1) by (simp add: unat_gt_0)
  ultimately show ?thesis by (simp add: length_nths card_multiples)
qed

end
