(* ===== verification/Api_Plugins.thy ===== *)
theory Api_Plugins
  imports Server
begin

text \<open>
  \<^verbatim>\<open>crates/plugin-graphql\<close> and the run-time part of \<^verbatim>\<open>crates/plugin-openapi\<close>. What executes a query is the crate \<^verbatim>\<open>async-graphql\<close>, and what reads and writes JSON is
  \<^verbatim>\<open>serde_json\<close>; both are parameters. The generator of the embedded document runs at build time and is not modelled.
\<close>

section \<open>GraphQL\<close>

definition GRAPHQL_PATH :: bytes where "GRAPHQL_PATH = ''/graphql''"

record 'json GraphQlRequestBody =
  gb_query :: bytes
  gb_variables :: "'json option"
  gb_operation_name :: "bytes option"

text \<open>\<^verbatim>\<open>async_graphql::Request\<close>, as far as the plugin sets it.\<close>

record 'vars GraphQlRequest =
  gr_query :: bytes
  gr_variables :: "'vars option"
  gr_operation_name :: "bytes option"

text \<open>What \<^verbatim>\<open>serde_json\<close> and \<^verbatim>\<open>async-graphql\<close> do: read the body, turn JSON into variables, and write a result.\<close>

record ('json, 'vars, 'result) GraphQlLib =
  gl_from_slice :: "bytes \<Rightarrow> 'json GraphQlRequestBody option"
  gl_from_json :: "'json \<Rightarrow> 'vars"
  gl_to_vec :: "'result \<Rightarrow> bytes option"

definition INVALID_REQUEST_BODY :: bytes where
  "INVALID_REQUEST_BODY =
     ''{'' @ [dquote] @ ''errors'' @ [dquote] @ '':[{'' @ [dquote] @ ''message'' @ [dquote] @ '':'' @ [dquote] @ ''invalid request body'' @ [dquote] @ ''}]}''"

definition graphql_json :: "nat \<Rightarrow> bytes \<Rightarrow> PluginResponse" where
  "graphql_json status body = \<lparr>pr_status = status, pr_body = body, pr_content_type = ''application/json''\<rparr>"

definition graphql_request :: "('json, 'vars, 'result) GraphQlLib \<Rightarrow> 'json GraphQlRequestBody \<Rightarrow> 'vars GraphQlRequest" where
  "graphql_request lib parsed =
     (let request = \<lparr>gr_query = gb_query parsed, gr_variables = None, gr_operation_name = None\<rparr>;
          request = (case gb_variables parsed of Some variables \<Rightarrow> request\<lparr>gr_variables := Some (gl_from_json lib variables)\<rparr> | None \<Rightarrow> request)
      in case gb_operation_name parsed of Some operation_name \<Rightarrow> request\<lparr>gr_operation_name := Some operation_name\<rparr> | None \<Rightarrow> request)"

definition try_handle_graphql ::
  "('json, 'vars, 'result) GraphQlLib \<Rightarrow> ('vars GraphQlRequest \<Rightarrow> 'result) \<Rightarrow> RequestHead \<Rightarrow> bytes \<Rightarrow> PluginResponse option" where
  "try_handle_graphql lib execute head body =
     (if head_method head \<noteq> ''POST'' \<or> head_target head \<noteq> GRAPHQL_PATH then None
      else case gl_from_slice lib body of
        None \<Rightarrow> Some (graphql_json 400 INVALID_REQUEST_BODY)
      | Some parsed \<Rightarrow>
          Some (graphql_json 200 (case gl_to_vec lib (execute (graphql_request lib parsed)) of Some bytes \<Rightarrow> bytes | None \<Rightarrow> INVALID_REQUEST_BODY)))"

text \<open>\<^verbatim>\<open>Server::graphql\<close>; an execution may differ from call to call.\<close>

definition set_graphql ::
  "('json, 'vars, 'result) GraphQlLib \<Rightarrow> (tick \<Rightarrow> 'vars GraphQlRequest \<Rightarrow> 'result) \<Rightarrow> 'a Server \<Rightarrow> 'a Server" where
  "set_graphql lib execute srv = srv\<lparr>graphql_plugin := Some (\<lambda>t head body. try_handle_graphql lib (execute t) head body)\<rparr>"

section \<open>OpenAPI documents of the application\<close>

datatype OpenApiDocError = InvalidJson | NotAnObject | InvalidYaml

record OpenApiDoc =
  od_json :: bytes
  od_yaml :: "bytes option"

text \<open>\<open>parse\<close> says whether \<^verbatim>\<open>serde_json\<close> accepts the bytes, and then whether the value is an object.\<close>

definition openapi_from_json :: "(bytes \<Rightarrow> bool option) \<Rightarrow> bytes \<Rightarrow> OpenApiDocError + OpenApiDoc" where
  "openapi_from_json parse json =
     (case parse json of
        None \<Rightarrow> Err InvalidJson
      | Some is_object \<Rightarrow> if \<not> is_object then Err NotAnObject else Ok \<lparr>od_json = json, od_yaml = None\<rparr>)"

definition with_yaml :: "OpenApiDoc \<Rightarrow> bytes \<Rightarrow> OpenApiDocError + OpenApiDoc" where
  "with_yaml doc yaml = (if yaml = [] \<or> \<not> utf8_valid yaml then Err InvalidYaml else Ok (doc\<lparr>od_yaml := Some yaml\<rparr>))"

definition openapi_with :: "OpenApiDoc \<Rightarrow> 'a Server \<Rightarrow> 'a Server" where
  "openapi_with doc = set_openapi_with (od_json doc) (od_yaml doc)"

section \<open>What the server answers\<close>

text \<open>GraphQL in the server: where the WebRTC plugins do not answer, the endpoint answers every \<^verbatim>\<open>POST\<close> to it and nothing else. A body that is not a request gets a fixed 400 that echoes
  nothing and does not reach the executor; every other gets 200 with the written result of exactly the query, variables and operation that the body names.\<close>

lemma graphql_answers:
  assumes "Option.bind (webrtc_proxy_plugin srv) (\<lambda>f. f (m @ [0]) head body) = None" "Option.bind (webrtc_plugin srv) (\<lambda>f. f (m @ [1]) head body) = None"
  shows "try_intercept E (set_graphql lib execute srv) m head body =
    (if head_method head = ''POST'' \<and> head_target head = GRAPHQL_PATH then
       Some (case gl_from_slice lib body of
           None \<Rightarrow> with_content_type (response_new 400 INVALID_REQUEST_BODY) ''application/json''
         | Some parsed \<Rightarrow>
             with_content_type (response_new 200 (case gl_to_vec lib (execute (m @ [2])
                 \<lparr>gr_query = gb_query parsed, gr_variables = map_option (gl_from_json lib) (gb_variables parsed), gr_operation_name = gb_operation_name parsed\<rparr>) of
               Some written \<Rightarrow> written | None \<Rightarrow> INVALID_REQUEST_BODY)) ''application/json'')
     else try_intercept E (srv\<lparr>graphql_plugin := None\<rparr>) m head body)"
proof -
  have request: "graphql_request lib parsed =
      \<lparr>gr_query = gb_query parsed, gr_variables = map_option (gl_from_json lib) (gb_variables parsed), gr_operation_name = gb_operation_name parsed\<rparr>" for parsed
    by (simp add: graphql_request_def Let_def split: option.split)
  have "try_openapi E (srv\<lparr>graphql_plugin := g\<rparr>) head = try_openapi E srv head" for g by (simp add: try_openapi_def)
  then show ?thesis
    using assms by (simp add: try_intercept_def set_graphql_def try_handle_graphql_def from_plugin_response_def graphql_json_def request split: option.split)
qed

text \<open>The document of an application: one that was accepted is served byte for byte at its two addresses, where the plugins before it do not answer; without a YAML form, its address
  is left to the handlers. What is registered as YAML is not empty and UTF-8.\<close>

lemma openapi_served:
  assumes "openapi_from_json parse json = Ok doc"
    and "Option.bind (webrtc_proxy_plugin srv) (\<lambda>f. f (m @ [0]) head body) = None" "Option.bind (webrtc_plugin srv) (\<lambda>f. f (m @ [1]) head body) = None"
      "Option.bind (graphql_plugin srv) (\<lambda>f. f (m @ [2]) head body) = None"
    and "head_method head = ''GET''"
  shows "parse json = Some True"
    and "head_target head = ''/openapi.json'' \<Longrightarrow>
      try_intercept E (openapi_with doc srv) m head body = Some (with_content_type (response_new 200 json) ''application/json'')"
    and "head_target head = ''/openapi.yaml'' \<Longrightarrow> try_intercept E (openapi_with doc srv) m head body = Option.bind (static_plugin srv) (\<lambda>f. f (m @ [3]) head)"
    and "head_target head = ''/openapi.yaml'' \<Longrightarrow> with_yaml doc yaml = Ok doc' \<Longrightarrow> yaml \<noteq> [] \<and> utf8_valid yaml \<and>
      try_intercept E (openapi_with doc' srv) m head body = Some (with_content_type (response_new 200 yaml) ''application/yaml'')"
proof -
  have doc: "doc = \<lparr>od_json = json, od_yaml = None\<rparr>" and parse: "parse json = Some True"
    using assms(1) by (auto simp: openapi_from_json_def split: option.splits if_splits)
  show "parse json = Some True" by (rule parse)
  note defs = try_intercept_def try_openapi_def openapi_with_def set_openapi_with_def doc assms
  show "head_target head = ''/openapi.json'' \<Longrightarrow>
      try_intercept E (openapi_with doc srv) m head body = Some (with_content_type (response_new 200 json) ''application/json'')"
    by (simp add: defs del: One_nat_def)
  show "head_target head = ''/openapi.yaml'' \<Longrightarrow> try_intercept E (openapi_with doc srv) m head body = Option.bind (static_plugin srv) (\<lambda>f. f (m @ [3]) head)"
    by (simp add: defs del: One_nat_def)
  show "yaml \<noteq> [] \<and> utf8_valid yaml \<and> try_intercept E (openapi_with doc' srv) m head body = Some (with_content_type (response_new 200 yaml) ''application/yaml'')"
    if "head_target head = ''/openapi.yaml''" "with_yaml doc yaml = Ok doc'"
    using that by (auto simp: defs with_yaml_def simp del: One_nat_def split: if_splits)
qed

end
