(* ===== verification/Spec2Isabelle.thy ===== *)
theory Spec2Isabelle
  imports Server_Stream Csrf Form Static_Files Ws_Keepalive Ws_Handshake Jwt_Server Jwt_Refresh Webrtc Listener Tracing Api_Plugins
begin

text \<open>
  Verification of fandhe-backend, a plugin-based HTTP server in Rust.

  \<^bold>\<open>The program.\<close> A listener accepts TCP connections and serves each with the loop in \<^verbatim>\<open>crates/core/src/server.rs\<close>. The loop
  reads a request from the socket into a receive buffer (\<^verbatim>\<open>crates/http\<close>: \<^verbatim>\<open>connection.rs\<close>, \<^verbatim>\<open>buffer.rs\<close>, \<^verbatim>\<open>request.rs\<close>,
  \<^verbatim>\<open>body.rs\<close>, \<^verbatim>\<open>chunked.rs\<close>), asks the gates (\<^verbatim>\<open>crates/core/src/extension.rs\<close>), offers it to the upgrade handlers, runs the
  plugin seams and interceptors, dispatches it (\<^verbatim>\<open>crates/routes\<close>) and writes the response (\<^verbatim>\<open>response.rs\<close>, \<^verbatim>\<open>streaming.rs\<close>,
  \<^verbatim>\<open>send_buffer.rs\<close>). Plugins are crates of their own: CORS, CSRF, compression, static files, WebSocket, JWT, hub wiring, WebRTC and its
  proxy, GraphQL, OpenAPI, tracing.

  \<^bold>\<open>Conventions.\<close> A byte is a \<^typ>\<open>char\<close>, a slice, vector or text its list of bytes. A struct is a \<open>record\<close>, an enum a
  \<open>datatype\<close>, \<^verbatim>\<open>Result\<close> the sum with the error on the left, \<^verbatim>\<open>Option\<close> the \<open>option\<close> type. State is passed explicitly. Unsigned integers are
  natural numbers; where the code saturates, wraps or fails on overflow, the definition says so. Names are those of the
  code, with a prefix where they would clash. A \<^verbatim>\<open>HashMap\<close> is an association list, and where the code iterates over one, the order is an argument.

  \<^bold>\<open>Foundations.\<close> \<open>Prelude\<close>, \<open>Ascii\<close> and \<open>Utf8\<close> hold the part of the standard library that the sources use and the lemmas about it;
  \<open>Substring_Search\<close> is the interface of the crate \<^verbatim>\<open>memchr\<close> (locale \<open>substring_search\<close>), \<open>Extensions\<close> the store of typed values of
  a request (locale \<open>write_once_store\<close>), \<open>Sample_Heads\<close> concrete request heads for the instances of theorems.

  \<^bold>\<open>HTTP (\<^verbatim>\<open>crates/http\<close>).\<close>
  \<^item> \<open>Request_Head\<close> is the zero-copy parser of request heads, \<open>Request_Spec\<close> its grammar: the parser refines the grammar, what it accepts is well formed,
    and rendering and parsing are inverse.
  \<^item> \<open>Chunked\<close> and \<open>Chunked_Budget\<close> are the chunked coding: round trip, independence of how the input is cut, bounds, soundness, and the budget
    within which the decoder decides.
  \<^item> \<open>Body_Framing\<close> decides how a body is delimited (and that no request has two readings), \<open>Recv_Buffer\<close> is the receive buffer (locale \<open>fifo_bytes\<close>),
    \<open>Connection\<close> the loops that read a request, for every reader that keeps the contract of \<^verbatim>\<open>read\<close> (locales \<open>bounded_reader\<close> and \<open>stream_reader\<close>).
  \<^item> \<open>Percent\<close>, \<open>Query\<close>, \<open>Form\<close>, \<open>Cookie\<close>, \<open>Location\<close>, \<open>Response\<close> and \<open>Http_Error\<close> are the codecs and the response builder: round trips, the
    rules of cookies, same-origin redirects, and that no response can be split.

  \<^bold>\<open>Routing and server.\<close> \<open>Route_Pattern\<close> and \<open>Router\<close> (locale \<open>hash_map\<close>) refine routing by a list of patterns. \<open>Gates\<close> has the extension points,
  \<open>Streaming\<close> streamed bodies, \<open>Server\<close> the connection loop with the plugin seams. \<open>Server_Spec\<close>, \<open>Streaming_Spec\<close> and
  \<open>Server_Stream\<close> state what a connection does as a whole: it returns; gates fail closed; responses come in order, one for each request; a
  streamed response arrives whole or visibly truncated; and everything depends only on the bytes of the peer, not on how they are cut. \<open>Listener\<close> is what is around the
  connections: the accept loop \<^verbatim>\<open>run_until\<close> with the permits of its semaphore, rebinding, the draining of generations and the graceful shutdown. It is a step relation: a step is a
  poll of the loop, a poll of a draining task, or the end or upgrade of a connection, in any order. Shown: permits are neither lost nor made, so the limit on connections holds; what a poll
  of the draining loop does; that the shutdown is final; that rebinding loses no connection; and that a connection that is told to stop reads no further request.

  \<^bold>\<open>Plugins.\<close>
  \<^item> \<open>Cors\<close>, \<open>Csrf\<close>, \<open>Compression\<close>: configuration, decision and, for compression, the transformation of responses.
  \<^item> \<open>Static_Files\<close>: path resolution and confinement to the root, over a record of file system calls.
  \<^item> \<open>Ws_Pattern\<close>, \<open>Ws_Handshake\<close>, \<open>Ws_Sender\<close>, \<open>Ws_Session\<close>, \<open>Ws_Session_Spec\<close>, \<open>Ws_Keepalive\<close>: the WebSocket plugin. Senders are tasks whose atomic
    sections interleave (an inductive relation); a session is the loop over an environment that says what is ready at each await. Shown: what is
    sent, in which order, and what happens at the end; that no ping overlaps another; that a connection is upgraded only after an accepted handshake.
  \<^item> \<open>Jwt_Policy\<close>, \<open>Jwt_Keys\<close>, \<open>Jwt_Verify\<close>: the policy, key sets and verification of access tokens, with an exact description of
    the accepted tokens. \<open>Jwt_Origin\<close>, \<open>Jwt_Dpop\<close>, \<open>Jwt_Replay\<close>: proofs of possession, likewise exact, and the replay store, a refinement of a map.
    \<open>Jwt_Cache\<close>, \<open>Jwt_Auth\<close>, \<open>Jwt_Auth_Spec\<close>, \<open>Jwt_Gate\<close>: the authenticator and the gate. The cache (locale \<open>forgetful_cache\<close>) is transparent
    under every interleaving of requests and key changes, a request is accepted exactly when it should be, and an accepted proof is not accepted
    again. \<open>Jwt_Server\<close> puts the gate into the server: on every connection, application code takes part only in requests that are authenticated. \<open>Jwt_Refresh\<close>: the background task as a state machine; fetches are spaced and old keys are cleared. \<open>Jwt_Samples\<close> is a concrete authenticator.
  \<^item> \<open>Hub_Wiring\<close>: the tenant gate on top of the authenticator, the audit, and the stores of consents and of outgoing events (locale \<open>tenant_store\<close>), in
    which tenants do not see each other.
  \<^item> \<open>Rtc_Proxy\<close>: the proxy that forwards WebRTC offers to another server and reads its answer, over a record of network calls. An offer arrives at a server of this kind
    unchanged and its answer comes back, however both are cut; whatever else the upstream does, the client gets a fixed error.
  \<^item> \<open>Webrtc\<close>: WebRTC sessions in the process. The registry of peer connections, the requests that negotiate, the tasks that build, the guard that cleans up after a deadline or
    a cancelled request, and the drains are a step relation over all requests at once. Shown: the registry keeps its limit, no slot and no peer connection is lost, the final drain is final,
    and the steps of a request are bounded. Also the limit on data channels, as a relation over compare-and-exchange attempts.
  \<^item> \<open>Tracing\<close>: which responses are recorded, with the 64-bit counter of the sampler; \<open>Api_Plugins\<close>: the GraphQL endpoint and the OpenAPI document of an application, at their seams
    in the server.

  \<^bold>\<open>Loops.\<close> Loops that consume a list are structural recursion. The connection loop has the measure of the requests that are still allowed, the search for
  a representable deadline in \<open>Ws_Session\<close> that of the remaining interval. Loops that wait for a peer, for a
  channel or for a stream of messages, which the peer may keep going, are \<open>partial_function (option)\<close>: not returning is
  \<open>None\<close>, and that a connection returns is a theorem with the contract of the reader and the end of streamed bodies as hypotheses. The background task
  of \<open>Jwt_Refresh\<close> is a function on finite sequences of polls. The client loops of \<open>Rtc_Proxy\<close> have the bytes that their limits still allow as measure. \<open>Listener\<close>, \<open>Webrtc\<close> and
  \<open>Ws_Sender\<close> have no loops: their relations have one step for each stretch of code that nothing else can interrupt, and the theorems hold for all sequences of steps.

  \<^bold>\<open>Parameters and their hypotheses.\<close> Third-party and application code is an argument: substring search (\<open>substring_search\<close>, interpreted by a naive
  search), the socket (\<open>bounded_reader\<close>, \<open>stream_reader\<close>, interpreted by readers that cut a list of bytes), the gzip encoder, the order of hash map
  iteration, the file system, the framing library \<^verbatim>\<open>tungstenite\<close> and its \<^verbatim>\<open>derive_accept_key\<close>, handlers, gates and interceptors (functions of a call
  identifier, the \<open>tick\<close>, so that two calls may differ), and for JWT the records \<open>JoseLib\<close> and \<open>DpopLib\<close>: base64url, SHA-256, the signature schemes of
  \<^verbatim>\<open>ring\<close> and the JSON deserialisers. The network of the WebRTC proxy is the record \<open>Upstream\<close>; the WebRTC stack, the kernel's answers to \<^verbatim>\<open>accept\<close> and the shutdown signal are the
  choice of the next step; the GraphQL executor and \<^verbatim>\<open>serde_json\<close> are functions. The only property of these that a theorem needs is that SHA-256 does not give two presented tokens the same
  hash. Clocks are arguments.

  \<^bold>\<open>Not modelled.\<close> Panics by overflow of \<^verbatim>\<open>Instant + Duration\<close>; the memory behaviour of buffers beyond their capacities; formatting for debugging and
  display; the dropping of the future of \<^verbatim>\<open>run_until\<close> itself by its caller; \<^verbatim>\<open>socket.rs\<close> (one operating-system option), \<^verbatim>\<open>diagnostics.rs\<close> (messages only, no decision depends on
  them); the start of the writer in \<^verbatim>\<open>plugin-tracing/src/init.rs\<close> and the conversion of durations to floating point; the declarations from which \<^verbatim>\<open>plugin-openapi\<close> generates its
  embedded document at build time, and that generator; module roots; the reference server on another framework and the load generator, which are not part of the product; and all tests.
\<close>

end
